(* ===== verification/Prelude.thy ===== *)
theory Prelude
  imports Main "HOL-Library.Word" "HOL-Library.AList"
begin

text \<open>
  Shared vocabulary of the development: the names of Rust's machine integers, the integer
  operations of the standard library the program uses (\<open>saturating_sub\<close>, \<open>checked_add\<close>, ...),
  little- and big-endian byte strings, the association-list view of a \<open>HashMap\<close>, and the generic
  lemmas the component theories share. The collections \<open>rust_arith\<close> and \<open>bits8\<close> gather the
  facts that the component proofs pass to \<open>simp\<close>.
\<close>

unbundle bit_operations_syntax

named_theorems rust_arith \<open>definitions of the integer operations of Rust's standard library\<close>
named_theorems bits8 \<open>reading status and data bytes through their high and low nibble\<close>

section \<open>Machine integers\<close>

type_synonym u8 = "8 word"
type_synonym u16 = "16 word"
type_synonym u32 = "32 word"
type_synonym u64 = "64 word"
type_synonym u128 = "128 word"
type_synonym i32 = "32 word"
type_synonym bytes = "8 word list"

definition saturating_sub :: "'a::len word \<Rightarrow> 'a word \<Rightarrow> 'a word" where
  [rust_arith]: "saturating_sub a b = (if a < b then 0 else a - b)"

definition saturating_add :: "'a::len word \<Rightarrow> 'a word \<Rightarrow> 'a word" where
  [rust_arith]: "saturating_add a b =
     (if unat a + unat b < 2 ^ LENGTH('a) then a + b else - 1)"

definition saturating_mul :: "'a::len word \<Rightarrow> 'a word \<Rightarrow> 'a word" where
  [rust_arith]: "saturating_mul a b =
     (if unat a * unat b < 2 ^ LENGTH('a) then a * b else - 1)"

definition checked_add :: "'a::len word \<Rightarrow> 'a word \<Rightarrow> 'a word option" where
  [rust_arith]: "checked_add a b =
     (if unat a + unat b < 2 ^ LENGTH('a) then Some (a + b) else None)"

definition checked_sub :: "'a::len word \<Rightarrow> 'a word \<Rightarrow> 'a word option" where
  [rust_arith]: "checked_sub a b = (if a < b then None else Some (a - b))"

text \<open>\<open>u128::trailing_zeros\<close>: the number of the lowest set bit, the width for zero.\<close>

definition trailing_zeros :: "'a::len word \<Rightarrow> nat" where
  "trailing_zeros w = length (takeWhile (\<lambda>n. \<not> bit w n) [0..<LENGTH('a)])"

lemma unat_saturating_sub: "unat (saturating_sub a b) = unat a - unat b"
  by (simp add: saturating_sub_def unat_sub_if' word_less_nat_alt)

lemma saturating_sub_le: "saturating_sub a b \<le> a"
  by (simp add: word_le_nat_alt unat_saturating_sub)

lemma unat_saturating_add:
  "unat (saturating_add a (b :: 'a::len word)) = min (unat a + unat b) (2 ^ LENGTH('a) - 1)"
  by (auto simp: saturating_add_def unat_word_ariths unsigned_minus_1_eq_mask mask_eq_exp_minus_1)

lemma unat_saturating_mul:
  "unat (saturating_mul a (b :: 'a::len word)) = min (unat a * unat b) (2 ^ LENGTH('a) - 1)"
  by (auto simp: saturating_mul_def unat_word_ariths unsigned_minus_1_eq_mask mask_eq_exp_minus_1)

lemma unat_le_max: "unat (a :: 'a::len word) \<le> 2 ^ LENGTH('a) - 1"
proof -
  have "unat a < 2 ^ LENGTH('a)" by (rule unsigned_less)
  then show ?thesis by linarith
qed

lemma le_saturating_add: "(a :: 'a::len word) \<le> saturating_add a b"
  using unat_le_max [of a] by (simp add: word_le_nat_alt unat_saturating_add)

lemma checked_add_eq_Some:
  "checked_add a b = Some (c :: 'a::len word) \<longleftrightarrow> unat c = unat a + unat b"
proof (cases "unat a + unat b < 2 ^ LENGTH('a)")
  case True
  then show ?thesis by (auto simp: checked_add_def unat_word_ariths word_unat_eq_iff)
next
  case False
  then have "unat c \<noteq> unat a + unat b" by (metis unsigned_less)
  with False show ?thesis by (simp add: checked_add_def)
qed

section \<open>Bit masks\<close>

text \<open>\<open>1u128 << n\<close>, the mask of one note number in a 128-bit note set.\<close>

definition shl1 :: "nat \<Rightarrow> u128" where
  "shl1 n = push_bit n 1"

lemma bit_shl1 [simp]: "bit (shl1 n) m \<longleftrightarrow> m = n \<and> n < 128"
  by (auto simp: shl1_def bit_simps)

lemma word_eq_0_iff_bits: "(w :: 'a::len word) = 0 \<longleftrightarrow> (\<forall>n. \<not> bit w n)"
  by (metis bit_0_eq bit_eq_iff bot_apply bot_bool_def)

lemma and_shl1_eq_0 [simp]: "w AND shl1 n = 0 \<longleftrightarrow> \<not> (bit w n \<and> n < 128)"
  by (auto simp: word_eq_0_iff_bits bit_and_iff)

lemma trailing_zeros_bound:
  assumes "w \<noteq> (0 :: 'a::len word)"
  shows "trailing_zeros w < LENGTH('a) \<and> bit w (trailing_zeros w)
    \<and> (\<forall>m < trailing_zeros w. \<not> bit w m)"
proof -
  let ?k = "trailing_zeros w"
  from assms obtain n where n: "bit w n" by (auto simp: word_eq_0_iff_bits)
  then have len: "n < LENGTH('a)" by (rule bit_imp_le_length)
  have low: "\<not> bit w m" if "m < ?k" for m
  proof -
    have "[0..<LENGTH('a)] ! m \<in> set (takeWhile (\<lambda>n. \<not> bit w n) [0..<LENGTH('a)])"
      using that unfolding trailing_zeros_def
      by (metis nth_mem takeWhile_nth)
    moreover have "m < LENGTH('a)"
      using that length_takeWhile_le [of "\<lambda>n. \<not> bit w n" "[0..<LENGTH('a)]"]
      unfolding trailing_zeros_def by simp
    ultimately show ?thesis by (auto dest: set_takeWhileD)
  qed
  have "?k < LENGTH('a)"
  proof (rule ccontr)
    assume "\<not> ?k < LENGTH('a)"
    then show False using low [of n] len n by simp
  qed
  moreover from this have "bit w ?k"
    using nth_length_takeWhile [of "\<lambda>n. \<not> bit w n" "[0..<LENGTH('a)]"]
    unfolding trailing_zeros_def by simp
  ultimately show ?thesis using low by blast
qed

text \<open>\<open>w & (w - 1)\<close> clears the lowest set bit: the step of the loops over a note set.\<close>

lemma and_pred_less: "w \<noteq> 0 \<Longrightarrow> unat (w AND (w - 1)) < unat (w :: 'a::len word)"
proof -
  assume w: "w \<noteq> 0"
  have "w AND (w - 1) \<le> w - 1" by (simp add: word_and_le1)
  then have "unat (w AND (w - 1)) \<le> unat w - 1"
    using w by (simp add: word_le_nat_alt unat_minus_one)
  moreover have "0 < unat w" using w by (simp add: unat_gt_0)
  ultimately show ?thesis by simp
qed

lemma bit_and_pred:
  assumes w: "w \<noteq> (0 :: 'a::len word)"
  shows "bit (w AND (w - 1)) n \<longleftrightarrow> bit w n \<and> n \<noteq> trailing_zeros w"
proof -
  define k where "k = trailing_zeros w"
  note tz = trailing_zeros_bound [OF w, folded k_def]
  have low: "k \<le> n" if "bit w n" for n using tz that by (meson not_le)
  define d where "d = drop_bit k w AND NOT 1"
  have split: "w = push_bit k d + push_bit k 1"
  proof -
    have "push_bit k d AND push_bit k 1 = 0"
      by (rule bit_word_eqI) (auto simp: d_def bit_simps)
    then have "push_bit k d + push_bit k 1 = push_bit k d OR push_bit k 1"
      by (rule disjunctive_add_eq_or)
    also have "\<dots> = w"
    proof (rule bit_word_eqI)
      fix n assume "n < LENGTH('a)"
      then show "bit (push_bit k d OR push_bit k 1) n \<longleftrightarrow> bit w n"
        using tz low [of n] by (cases "n = k") (auto simp: d_def bit_simps)
    qed
    finally show ?thesis by simp
  qed
  have "push_bit k d AND mask k = 0"
    by (rule bit_word_eqI) (auto simp: bit_simps)
  then have "push_bit k d + mask k = push_bit k d OR mask k"
    by (rule disjunctive_add_eq_or)
  moreover have "w - 1 = push_bit k d + mask k"
    using split by (simp add: mask_eq_exp_minus_1 push_bit_eq_mult)
  ultimately have "w - 1 = push_bit k d OR mask k" by simp
  then show ?thesis
    using tz low by (auto simp: d_def bit_simps k_def [symmetric] dest: bit_imp_le_length)
qed

lemma bit_or_shl1: "bit (w OR shl1 k) n \<longleftrightarrow> bit w n \<or> (n = k \<and> n < 128)"
  by (auto simp: bit_or_iff)

lemma bit_and_not: "bit (w AND NOT v) n \<longleftrightarrow> bit w n \<and> \<not> bit (v :: 'a::len word) n"
  by (auto simp: bit_and_iff bit_not_iff dest: bit_imp_le_length)

lemma bit_and_not_shl1: "bit (w AND NOT (shl1 k)) n \<longleftrightarrow> bit w n \<and> n \<noteq> k"
  by (auto simp: bit_and_iff bit_not_iff dest: bit_imp_le_length)

lemma clear_lowest_bit: "w \<noteq> 0 \<Longrightarrow> w AND NOT (shl1 (trailing_zeros w)) = w AND (w - 1)"
  by (rule bit_word_eqI) (simp only: bit_and_not_shl1, rule bit_and_pred [symmetric])

lemma u8_exhaust:
  assumes "list_all (\<lambda>n. P (of_nat n)) [0..<256]"
  shows "P (x :: u8)"
proof -
  have "unat x < 2 ^ LENGTH(8)" by (rule unsigned_less)
  then have "unat x \<in> set [0..<256]" by simp
  with assms have "P (of_nat (unat x))" unfolding list_all_iff by (rule bspec)
  then show ?thesis by simp
qed

lemma unat_low_nibble [bits8]: "unat (x AND 0x0F) = unat (x :: u8) mod 16"
proof -
  have "(0x0F :: u8) = mask 4" by (simp add: mask_eq_exp_minus_1)
  then have "x AND 0x0F = take_bit 4 x" by (simp only: take_bit_eq_mask)
  then show ?thesis by (simp add: unsigned_take_bit_eq) (simp add: take_bit_eq_mod)
qed

lemma unat_high_nibble [bits8]: "unat (x AND 0xF0) = unat (x :: u8) div 16 * 16"
proof -
  have "x AND push_bit 4 (mask 4) = push_bit 4 (drop_bit 4 x)"
    by (rule bit_word_eqI) (auto simp: bit_simps)
  moreover have "push_bit 4 (mask 4) = (0xF0 :: u8)" by (simp add: mask_eq_exp_minus_1)
  ultimately have "x AND 0xF0 = push_bit 4 (drop_bit 4 x)" by simp
  moreover have "unat x div 16 * 16 < 256"
    using unat_le_max [of x] by simp
  ultimately show ?thesis
    by (simp add: push_bit_eq_mult unat_word_ariths unat_drop_bit_eq drop_bit_eq_div mult.commute)
qed

section \<open>Byte strings of integers\<close>

text \<open>\<open>to_le_bytes\<close> and \<open>from_le_bytes\<close> (and their big-endian versions) for any width.\<close>

definition to_le_bytes :: "nat \<Rightarrow> 'a::len word \<Rightarrow> bytes" where
  "to_le_bytes n w = map (\<lambda>i. ucast (drop_bit (8 * i) w)) [0..<n]"

fun from_le_bytes :: "bytes \<Rightarrow> 'a::len word" where
  "from_le_bytes [] = 0"
| "from_le_bytes (b # bs) = ucast b OR push_bit 8 (from_le_bytes bs)"

definition to_be_bytes :: "nat \<Rightarrow> 'a::len word \<Rightarrow> bytes" where
  "to_be_bytes n w = rev (to_le_bytes n w)"

definition from_be_bytes :: "bytes \<Rightarrow> 'a::len word" where
  "from_be_bytes bs = from_le_bytes (rev bs)"

lemma length_to_le_bytes [simp]: "length (to_le_bytes n w) = n"
  by (simp add: to_le_bytes_def)

lemma length_to_be_bytes [simp]: "length (to_be_bytes n w) = n"
  by (simp add: to_be_bytes_def)

lemma bit_from_le_bytes:
  "bit (from_le_bytes bs :: 'a::len word) n \<longleftrightarrow>
     n < LENGTH('a) \<and> n div 8 < length bs \<and> bit (bs ! (n div 8)) (n mod 8)"
proof (induction bs arbitrary: n)
  case Nil
  then show ?case by simp
next
  case (Cons b bs)
  show ?case
  proof (cases "n < 8")
    case True
    then show ?thesis by (auto simp: bit_or_iff bit_push_bit_iff unsigned_ucast_eq bit_ucast_iff)
  next
    case False
    then obtain m where m: "n = m + 8" by (metis add.commute le_Suc_ex not_less)
    have "\<not> bit b n" using False bit_imp_le_length [of b n] by auto
    moreover have "(m + 8) div 8 = Suc (m div 8)" by simp
    ultimately show ?thesis
      by (auto simp: m Cons.IH bit_or_iff bit_push_bit_iff bit_ucast_iff)
  qed
qed

lemma from_le_bytes_zeros [simp]: "from_le_bytes (replicate n 0) = 0"
  by (induction n) simp_all

lemma from_to_le_bytes:
  assumes "LENGTH('a) = 8 * n"
  shows "from_le_bytes (to_le_bytes n w) = (w :: 'a::len word)"
proof (rule bit_word_eqI)
  fix k assume k: "k < LENGTH('a)"
  then have "k div 8 < n" using assms by simp
  moreover have "8 * (k div 8) + k mod 8 = k" by simp
  ultimately show "bit (from_le_bytes (to_le_bytes n w) :: 'a word) k \<longleftrightarrow> bit w k"
    using k by (simp add: bit_from_le_bytes to_le_bytes_def bit_ucast_iff bit_drop_bit_eq)
qed

lemma from_to_be_bytes:
  assumes "LENGTH('a) = 8 * n"
  shows "from_be_bytes (to_be_bytes n w) = (w :: 'a::len word)"
  by (simp add: from_be_bytes_def to_be_bytes_def from_to_le_bytes assms)

section \<open>Hash maps\<close>

text \<open>
  A \<open>HashMap\<close> is an association list with distinct keys: \<open>map_of\<close> looks up,
  \<open>AList.update\<close> inserts or replaces, \<open>AList.delete\<close> removes and \<open>map snd\<close> lists the values.
  Rust fixes no iteration order, so where the program iterates over a map the theorems
  are stated for every order of the list.
\<close>

type_synonym ('k, 'v) hash_map = "('k \<times> 'v) list"

definition map_entry_or :: "'k \<Rightarrow> 'v \<Rightarrow> ('k, 'v) hash_map \<Rightarrow> 'v" where
  "map_entry_or k d m = (case map_of m k of None \<Rightarrow> d | Some v \<Rightarrow> v)"

abbreviation keys_distinct :: "('k, 'v) hash_map \<Rightarrow> bool" where
  "keys_distinct m \<equiv> distinct (map fst m)"

lemma map_of_update [simp]: "map_of (AList.update k v m) = (map_of m)(k \<mapsto> v)"
  by (rule AList.update_conv')

lemma map_of_delete [simp]: "map_of (AList.delete k m) = (map_of m)(k := None)"
  by (rule AList.delete_conv')

lemma ex_value_iff:
  "keys_distinct m \<Longrightarrow> (\<exists>v \<in> set (map snd m). P v) \<longleftrightarrow> (\<exists>k v. map_of m k = Some v \<and> P v)"
  by (force simp: map_of_eq_Some_iff)

section \<open>Strings\<close>

text \<open>\<open>strip_prefix\<close>, \<open>starts_with\<close> and \<open>rfind\<close> (the last start of a match) of \<open>str\<close>.\<close>

fun strip_prefix :: "string \<Rightarrow> string \<Rightarrow> string option" where
  "strip_prefix [] s = Some s"
| "strip_prefix (p # ps) [] = None"
| "strip_prefix (p # ps) (c # cs) = (if p = c then strip_prefix ps cs else None)"

definition starts_with :: "string \<Rightarrow> string \<Rightarrow> bool" where
  "starts_with p s = (strip_prefix p s \<noteq> None)"

definition rfind :: "string \<Rightarrow> string \<Rightarrow> nat option" where
  "rfind p s =
     (case filter (\<lambda>i. starts_with p (drop i s)) [0..<Suc (length s)] of
        [] \<Rightarrow> None
      | i # is \<Rightarrow> Some (last (i # is)))"

lemma strip_prefix_Some_iff: "strip_prefix p s = Some r \<longleftrightarrow> s = p @ r"
  by (induction p s rule: strip_prefix.induct) auto

lemma starts_with_iff: "starts_with p s \<longleftrightarrow> (\<exists>r. s = p @ r)"
  by (auto simp: starts_with_def strip_prefix_Some_iff [symmetric])

section \<open>UTF-8\<close>

text \<open>
  A \<open>str\<close> is the list of its UTF-8 bytes, as characters. \<open>utf8_valid\<close> is the validity test of
  \<open>core::str::from_utf8\<close>: overlong forms, surrogates and values above U+10FFFF are refused.
\<close>

definition utf8_cont :: "u8 \<Rightarrow> bool" where
  "utf8_cont b \<longleftrightarrow> 0x80 \<le> b \<and> b \<le> 0xBF"

fun utf8_valid :: "bytes \<Rightarrow> bool" where
  "utf8_valid [] = True"
| "utf8_valid (a # bs) =
     (if a < 0x80 then utf8_valid bs
      else case bs of
        [] \<Rightarrow> False
      | b # bs \<Rightarrow>
          if 0xC2 \<le> a \<and> a \<le> 0xDF then utf8_cont b \<and> utf8_valid bs
          else case bs of
            [] \<Rightarrow> False
          | c # bs \<Rightarrow>
              if 0xE0 \<le> a \<and> a \<le> 0xEF then
                (if a = 0xE0 then 0xA0 \<le> b else 0x80 \<le> b) \<and> (if a = 0xED then b \<le> 0x9F else b \<le> 0xBF)
                \<and> utf8_cont c \<and> utf8_valid bs
              else case bs of
                [] \<Rightarrow> False
              | d # bs \<Rightarrow>
                  0xF0 \<le> a \<and> a \<le> 0xF4
                  \<and> (if a = 0xF0 then 0x90 \<le> b else 0x80 \<le> b) \<and> (if a = 0xF4 then b \<le> 0x8F else b \<le> 0xBF)
                  \<and> utf8_cont c \<and> utf8_cont d \<and> utf8_valid bs)"

definition str_of_bytes :: "bytes \<Rightarrow> string" where
  "str_of_bytes bs = map (\<lambda>b. char_of (unat b)) bs"

definition as_bytes :: "string \<Rightarrow> bytes" where
  "as_bytes s = map (\<lambda>c. of_nat (of_char c)) s"

definition from_utf8 :: "bytes \<Rightarrow> string option" where
  "from_utf8 bs = (if utf8_valid bs then Some (str_of_bytes bs) else None)"

lemma str_of_as_bytes [simp]: "str_of_bytes (as_bytes s) = s"
proof (induction s)
  case Nil
  then show ?case by (simp add: str_of_bytes_def as_bytes_def)
next
  case (Cons c s)
  have "of_char c < (256 :: nat)" by (rule nat_of_char_less_256)
  then have "unat (of_nat (of_char c) :: u8) = of_char c" by (simp add: unat_of_nat)
  with Cons show ?case by (simp add: str_of_bytes_def as_bytes_def)
qed

lemma utf8_ascii: "\<forall>b \<in> set bs. b < 0x80 \<Longrightarrow> utf8_valid bs"
  by (induction bs) auto

section \<open>Results\<close>

text \<open>
  A \<open>Result\<close> is a sum, \<open>Inl\<close> the error. \<open>unwrap_or_else\<close> and the \<open>?\<close> operator are
  written with \<open>case\<close>; the predicates below read the answer.
\<close>

definition is_ok :: "'e + 'a \<Rightarrow> bool" where
  "is_ok r = (case r of Inl _ \<Rightarrow> False | Inr _ \<Rightarrow> True)"

lemma is_ok_simps [simp]: "is_ok (Inr x)" "\<not> is_ok (Inl e)"
  by (simp_all add: is_ok_def)

lemma is_ok_iff: "is_ok r \<longleftrightarrow> (\<exists>x. r = Inr x)"
  by (cases r) simp_all

end
