(* ===== verification/Midi_Message.thy ===== *)
theory Midi_Message
  imports Prelude
begin

text \<open>
  Reading and normalising raw MIDI messages (\<open>midi.rs\<close>, the free functions): the note and
  sustain parsers, the message validator \<open>normalize_message\<close> every input passes, the test for
  messages that must not be lost, and the mapping of keys to note indices.
\<close>

section \<open>Notes and pedals\<close>

definition NOTE_MIN :: u8 where "NOTE_MIN = 21"
definition NOTE_MAX :: u8 where "NOTE_MAX = 108"

datatype midi_kind = NoteOn | NoteOff

record midi_note =
  mn_note :: u8
  mn_channel :: u8
  mn_index :: "u8 option"
  mn_kind :: midi_kind

record midi_sustain =
  ms_channel :: u8
  ms_pressed :: bool

definition adjust_note :: "u8 \<Rightarrow> u8 option" where
  "adjust_note note =
     (if NOTE_MIN \<le> note \<and> note \<le> NOTE_MAX then Some (note - NOTE_MIN + 1) else None)"

definition parse_note :: "bytes \<Rightarrow> midi_note option" where
  "parse_note data =
     (if length data \<noteq> 3 \<or> (\<exists>byte \<in> set (drop 1 data). byte \<ge> 0x80) then None
      else
        let status = data ! 0;
            message_type = status AND 0xF0;
            channel = (status AND 0x0F) + 1;
            note = data ! 1;
            velocity = (if length data > 2 then data ! 2 else 0)
        in if message_type = 0x90 then
             Some \<lparr>mn_note = note, mn_channel = channel, mn_index = adjust_note note,
                   mn_kind = (if velocity = 0 then NoteOff else NoteOn)\<rparr>
           else if message_type = 0x80 then
             Some \<lparr>mn_note = note, mn_channel = channel, mn_index = adjust_note note,
                   mn_kind = NoteOff\<rparr>
           else None)"

definition parse_sustain :: "bytes \<Rightarrow> midi_sustain option" where
  "parse_sustain data =
     (if length data < 3 then None
      else
        let status = data ! 0
        in if status AND 0xF0 \<noteq> 0xB0 \<or> data ! 1 \<noteq> 64 then None
           else Some \<lparr>ms_channel = (status AND 0x0F) + 1, ms_pressed = (data ! 2 \<ge> 64)\<rparr>)"

text \<open>The messages whose loss would leave a note or a pedal stuck.\<close>

definition is_critical_release_message :: "bytes \<Rightarrow> bool" where
  "is_critical_release_message data =
     (if data = [0xFF] then True
      else if length data < 3 then False
      else
        let status = data ! 0 AND 0xF0
        in status = 0x80
           \<or> (status = 0x90 \<and> data ! 2 = 0)
           \<or> (status = 0xB0
              \<and> ((data ! 1 \<in> {64, 66, 69} \<and> data ! 2 < 64)
                 \<or> (data ! 1 \<in> {120, 121} \<or> (123 \<le> data ! 1 \<and> data ! 1 \<le> 127)))))"

section \<open>Validation\<close>

text \<open>The \<open>match\<close> on the status byte, without its System Exclusive arm.\<close>

definition message_len :: "u8 \<Rightarrow> nat option" where
  "message_len status =
     (if (0x80 \<le> status \<and> status \<le> 0xBF) \<or> (0xE0 \<le> status \<and> status \<le> 0xEF) \<or> status = 0xF2
      then Some 3
      else if (0xC0 \<le> status \<and> status \<le> 0xDF) \<or> status = 0xF1 \<or> status = 0xF3 then Some 2
      else if status = 0xF6 \<or> status = 0xF8 \<or> (0xFA \<le> status \<and> status \<le> 0xFC) \<or> 0xFE \<le> status
      then Some 1
      else None)"

text \<open>
  \<open>normalize_message\<close> takes a mutable slice: the result is the answer and the slice after the
  call. A Note On with velocity zero is rewritten to a Note Off; nothing else is changed.
\<close>

definition normalize_message :: "bytes \<Rightarrow> bool \<times> bytes" where
  "normalize_message data =
     (case data of
        [] \<Rightarrow> (False, data)
      | status # _ \<Rightarrow>
          if status = 0xF0 then
            (length data \<ge> 2 \<and> last data = 0xF7
               \<and> (\<forall>b \<in> set (take (length data - 2) (drop 1 data)). b < 0x80), data)
          else
            (case message_len status of
               None \<Rightarrow> (False, data)
             | Some len \<Rightarrow>
                 if length data \<noteq> len \<or> (\<exists>byte \<in> set (drop 1 data). byte \<ge> 0x80) then (False, data)
                 else if status AND 0xF0 = 0x90 \<and> data ! 2 = 0
                 then (True, data[0 := 0x80 OR (status AND 0x0F)])
                 else (True, data)))"

abbreviation valid_message :: "bytes \<Rightarrow> bool" where
  "valid_message data \<equiv> fst (normalize_message data)"

abbreviation normalized :: "bytes \<Rightarrow> bytes" where
  "normalized data \<equiv> snd (normalize_message data)"

section \<open>Status bytes\<close>

text \<open>
  A status byte is its high nibble (the message kind) and its low nibble (the channel); with
  \<open>bits8\<close> a fact about either becomes arithmetic on \<open>unat\<close>.
\<close>

lemma div16_eq: "n div 16 * 16 = m \<longleftrightarrow> m \<le> n \<and> n < m + 16 \<and> m mod 16 = 0" for n :: nat
proof
  assume m: "n div 16 * 16 = m"
  then have "m + n mod 16 = n" by (metis div_mult_mod_eq)
  moreover have "n mod 16 < 16" by simp
  moreover have "m mod 16 = 0" using m by auto
  ultimately show "m \<le> n \<and> n < m + 16 \<and> m mod 16 = 0" by linarith
next
  assume m: "m \<le> n \<and> n < m + 16 \<and> m mod 16 = 0"
  then obtain k where k: "m = 16 * k" by (metis mod_0_imp_dvd dvdE)
  with m have "n div 16 = k" by (intro div_nat_eqI) auto
  with k show "n div 16 * 16 = m" by simp
qed

lemma high_nibble_eq [bits8]:
  "s AND 0xF0 = (c :: u8) \<longleftrightarrow> unat c \<le> unat s \<and> unat s < unat c + 16 \<and> unat c mod 16 = 0"
  by (simp only: word_unat_eq_iff unat_high_nibble div16_eq)

lemma status_or_kind:
  assumes "c AND 0x0F = (0 :: u8)"
  shows "(c OR (x AND 0x0F)) AND 0xF0 = c AND 0xF0"
    and "(c OR (x AND 0x0F)) AND 0x0F = x AND 0x0F"
proof -
  have "(x AND 0x0F) AND 0xF0 = (0 :: u8)"
    by (simp add: and.assoc)
  then show "(c OR (x AND 0x0F)) AND 0xF0 = c AND 0xF0"
    by (simp add: bit.conj_disj_distrib2)
  show "(c OR (x AND 0x0F)) AND 0x0F = x AND 0x0F"
    using assms by (simp add: bit.conj_disj_distrib2 and.assoc)
qed

lemma status_or_note_off [simp]:
  "(0x80 OR (x AND 0x0F)) AND 0xF0 = (0x80 :: u8)"
  "(0x80 OR (x AND 0x0F)) AND 0x0F = x AND (0x0F :: u8)"
  using status_or_kind [of "0x80" x] by simp_all

lemma kind_range:
  "s AND 0xF0 = (0x80 :: u8) \<longleftrightarrow> 0x80 \<le> s \<and> s \<le> 0x8F"
  "s AND 0xF0 = (0x90 :: u8) \<longleftrightarrow> 0x90 \<le> s \<and> s \<le> 0x9F"
  "s AND 0xF0 = (0xB0 :: u8) \<longleftrightarrow> 0xB0 \<le> s \<and> s \<le> 0xBF"
  "s AND 0xF0 = (0xC0 :: u8) \<longleftrightarrow> 0xC0 \<le> s \<and> s \<le> 0xCF"
  by (auto simp: high_nibble_eq word_le_nat_alt)

lemma message_len_3: "s AND 0xF0 \<in> {0x80, 0x90, 0xB0 :: u8} \<Longrightarrow> message_len s = Some 3"
  by (elim insertE) (auto simp: high_nibble_eq word_le_nat_alt message_len_def)

lemma message_len_cases: "message_len s = Some n \<Longrightarrow> n \<in> {1, 2, 3}"
  by (auto simp: message_len_def split: if_splits)

section \<open>What validation guarantees\<close>

lemma normalize_message_cases:
  assumes "normalize_message data = (True, data')"
  obtains (sysex) rest where "data = 0xF0 # rest" "data' = data"
  | (note_off) s n where "data = [s, n, 0]" "s AND 0xF0 = 0x90" "n < 0x80"
      "data' = [0x80 OR (s AND 0x0F), n, 0]"
  | (plain) s rest where "data = s # rest" "s \<noteq> 0xF0" "message_len s = Some (length data)"
      "\<forall>b \<in> set rest. b < 0x80" "\<not> (s AND 0xF0 = 0x90 \<and> data ! 2 = 0)" "data' = data"
proof (cases data)
  case Nil
  then show ?thesis using assms by (simp add: normalize_message_def)
next
  case data: (Cons s rest)
  show ?thesis
  proof (cases "s = 0xF0")
    case True
    with assms data have "data = 0xF0 # rest" "data' = data"
      by (simp_all add: normalize_message_def)
    then show ?thesis by (rule sysex)
  next
    case not_sysex: False
    with assms data have len: "message_len s = Some (length data)"
      and low: "\<forall>b \<in> set rest. b < 0x80"
      by (auto simp: normalize_message_def not_le split: option.splits if_splits)
    show ?thesis
    proof (cases "s AND 0xF0 = 0x90 \<and> data ! 2 = 0")
      case False
      moreover from this have "data' = data"
        using assms data not_sysex len by (simp add: normalize_message_def split: if_splits)
      ultimately show ?thesis using data not_sysex len low plain by blast
    next
      case True
      then have "length data = 3" using len message_len_3 [of s] by simp
      then obtain n where d: "data = [s, n, 0]"
        using data True by (auto simp: length_Suc_conv numeral_3_eq_3)
      moreover from this have "n < 0x80" using low data by simp
      moreover have "data' = [0x80 OR (s AND 0x0F), n, 0]"
        using assms d True not_sysex len by (simp add: normalize_message_def split: if_splits)
      ultimately show ?thesis using True note_off by blast
    qed
  qed
qed

lemma note_off_of_note_on:
  assumes "s AND 0xF0 = (0x90 :: u8)"
  shows "message_len (0x80 OR (s AND 0x0F)) = Some 3" "0x80 OR (s AND 0x0F) \<noteq> (0xF0 :: u8)"
proof -
  show "message_len (0x80 OR (s AND 0x0F)) = Some 3" by (rule message_len_3) simp
  show "0x80 OR (s AND 0x0F) \<noteq> (0xF0 :: u8)"
    using status_or_note_off(1) [of s] by (auto dest: arg_cong [where f = "\<lambda>x. x AND 0xF0"])
qed

lemma normalize_plain:
  assumes "data = s # rest" "s \<noteq> 0xF0" "message_len s = Some (length data)"
    "\<forall>b \<in> set rest. b < 0x80" "\<not> (s AND 0xF0 = 0x90 \<and> data ! 2 = 0)"
  shows "normalize_message data = (True, data)"
  using assms by (auto simp: normalize_message_def not_le)

lemma normalized_facts:
  assumes "normalize_message data = (True, data')"
  shows "length data' = length data \<and> drop 1 data' = drop 1 data \<and> data \<noteq> []
    \<and> normalize_message data' = (True, data')
    \<and> parse_note data' = parse_note data \<and> parse_sustain data' = parse_sustain data
    \<and> is_critical_release_message data' = is_critical_release_message data
    \<and> \<not> (data' ! 0 AND 0xF0 = 0x90 \<and> data' ! 2 = 0)"
  using assms
proof (cases rule: normalize_message_cases)
  case (note_off s n)
  then have "normalize_message data' = (True, data')"
    using note_off_of_note_on [of s] by (intro normalize_plain) auto
  with note_off show ?thesis
    by (simp add: parse_note_def parse_sustain_def is_critical_release_message_def)
qed (use assms in auto)

lemmas normalized_length = normalized_facts [THEN conjunct1]
lemmas normalized_data = normalized_facts [THEN conjunct2, THEN conjunct1]

lemma normalized_idem: "normalize_message data = (True, data') \<Longrightarrow> normalize_message data' = (True, data')"
  using normalized_facts by blast

lemma normalized_critical:
  "normalize_message data = (True, data') \<Longrightarrow>
   is_critical_release_message data' = is_critical_release_message data"
  using normalized_facts by blast

text \<open>
  C1: Validation rewrites at most the status byte and changes no meaning. If
  \<open>normalize_message\<close> accepts a message then the slice keeps its length and its data bytes,
  validating it again changes nothing, the note and sustain parsers and the
  critical-release test read the same from it as before, and no Note On with velocity zero
  is left.
\<close>

theorem normalize_message_preserves_meaning:
  assumes "normalize_message data = (True, data')"
  shows "length data' = length data \<and> drop 1 data' = drop 1 data
    \<and> normalize_message data' = (True, data')
    \<and> parse_note data' = parse_note data \<and> parse_sustain data' = parse_sustain data
    \<and> is_critical_release_message data' = is_critical_release_message data
    \<and> \<not> (data' ! 0 AND 0xF0 = 0x90 \<and> data' ! 2 = 0)"
  using normalized_facts [OF assms] by blast

theorem normalize_message_preserves_meaning_witness:
  "normalize_message [0x93, 60, 0] = (True, [0x83, 60, 0])
   \<and> parse_note [0x83, 60, 0] = parse_note [0x93, 60, 0]"
proof -
  have h: "normalize_message [0x93, 60, 0] = (True, [0x83, 60, 0])"
    by (simp add: normalize_message_def message_len_def)
  show ?thesis using h normalize_message_preserves_meaning [OF h] by blast
qed

text \<open>What the destinations need: every message that ends a note, a pedal or a channel's sound.\<close>

definition releases_sound :: "bytes \<Rightarrow> bool" where
  "releases_sound data \<longleftrightarrow>
     data = [0xFF]
     \<or> (\<exists>n. parse_note data = Some n \<and> mn_kind n = NoteOff)
     \<or> (\<exists>p. parse_sustain data = Some p \<and> \<not> ms_pressed p)
     \<or> (\<exists>s c v. data = [s, c, v] \<and> s AND 0xF0 = 0xB0
          \<and> (c \<in> {66, 69} \<and> v < 64 \<or> c \<in> {120, 121, 123, 124, 125, 126, 127}))"

lemma u8_range_123_127: "123 \<le> c \<and> c \<le> 127 \<longleftrightarrow> c \<in> {123, 124, 125, 126, 127 :: u8}"
  by (auto simp: word_le_nat_alt word_unat_eq_iff)

text \<open>
  The critical-release test is exact. For a valid message it holds just when the message
  is a system reset, parses as a Note Off, releases the sustain, sostenuto or hold pedal,
  or is one of the channel-mode controllers that silence or reset a channel. In particular
  no Note On and no pedal press is treated as a release.
\<close>

theorem critical_release_exact:
  assumes "valid_message data"
  shows "is_critical_release_message data \<longleftrightarrow> releases_sound data"
proof -
  obtain data' where "normalize_message data = (True, data')"
    using assms by (metis prod.collapse)
  then show ?thesis
  proof (cases rule: normalize_message_cases)
    case (sysex rest)
    then show ?thesis
      by (auto simp: is_critical_release_message_def releases_sound_def parse_note_def
        parse_sustain_def Let_def)
  next
    case (note_off s n)
    then show ?thesis
      by (auto simp: is_critical_release_message_def releases_sound_def parse_note_def not_le)
  next
    case (plain s rest)
    show ?thesis
    proof (cases "length data = 3")
      case True
      then obtain a b where "data = [s, a, b]" "a < 0x80" "b < 0x80"
        using plain by (auto simp: length_Suc_conv numeral_3_eq_3)
      then show ?thesis
        using plain(5)
        by (auto simp: is_critical_release_message_def releases_sound_def parse_note_def
          parse_sustain_def not_le not_less u8_range_123_127 Let_def)
    next
      case False
      then have "length data < 3" using plain message_len_cases by fastforce
      then show ?thesis using plain
        by (auto simp: is_critical_release_message_def releases_sound_def parse_note_def
          parse_sustain_def)
    qed
  qed
qed

theorem critical_release_exact_witness:
  "valid_message [0xB2, 66, 10] \<and> is_critical_release_message [0xB2, 66, 10]
   \<and> releases_sound [0xB2, 66, 10]"
proof -
  have h: "valid_message [0xB2, 66, 10]"
    by (simp add: normalize_message_def message_len_def)
  have "is_critical_release_message [0xB2, 66, 10]"
    by (simp add: is_critical_release_message_def)
  then show ?thesis using h critical_release_exact [OF h] by blast
qed

end
