(* ===== verification/Midi_Buffers.thy ===== *)
theory Midi_Buffers
  imports Midi_Message
begin

text \<open>
  \<open>MidiFrame\<close> and the pool of preallocated buffers behind large messages (\<open>midi.rs\<close>). A frame's
  \<open>SmallVec\<close> is its bytes and its capacity: 32 bytes are inline, a larger capacity is heap
  storage. The pool is a bounded channel of equal empty buffers, so its state is how many
  are free, \<open>None\<close> before \<open>initialize_midi_buffers\<close>. The reset generation and the performance
  counter are read by the caller and passed in.
\<close>

section \<open>Frames and the pool\<close>

record midi_frame =
  frame_generation :: u64
  frame_ingress_qpc :: u64
  frame_data :: bytes
  frame_capacity :: nat
  frame_source :: string

definition INLINE_MIDI_BYTES :: nat where "INLINE_MIDI_BYTES = 32"
definition MAX_BUFFERED_MIDI_BYTES :: nat where "MAX_BUFFERED_MIDI_BYTES = 65538"
definition MIDI_BUFFER_COUNT :: nat where "MIDI_BUFFER_COUNT = 128"

type_synonym buffer_pool = "nat option"

definition initialize_midi_buffers :: "buffer_pool \<Rightarrow> buffer_pool" where
  "initialize_midi_buffers pool =
     (case pool of None \<Rightarrow> Some MIDI_BUFFER_COUNT | Some n \<Rightarrow> Some n)"

text \<open>\<open>MIDI_BUFFERS.get()?.free_rx.try_recv().ok()?\<close>\<close>

definition try_take_buffer :: "buffer_pool \<Rightarrow> buffer_pool option" where
  "try_take_buffer pool =
     (case pool of None \<Rightarrow> None | Some n \<Rightarrow> if n = 0 then None else Some (Some (n - 1)))"

definition spilled :: "midi_frame \<Rightarrow> bool" where
  "spilled frame \<longleftrightarrow> frame_capacity frame > INLINE_MIDI_BYTES"

definition copy_realtime ::
  "u64 \<Rightarrow> u64 \<Rightarrow> buffer_pool \<Rightarrow> bytes \<Rightarrow> string \<Rightarrow> midi_frame option \<times> buffer_pool" where
  "copy_realtime generation qpc pool bytes source =
     (if length bytes \<le> 32 then
        (Some \<lparr>frame_generation = generation, frame_ingress_qpc = qpc, frame_data = bytes,
               frame_capacity = INLINE_MIDI_BYTES, frame_source = source\<rparr>, pool)
      else if length bytes \<le> MAX_BUFFERED_MIDI_BYTES then
        (case try_take_buffer pool of
           None \<Rightarrow> (None, pool)
         | Some pool' \<Rightarrow>
             (Some \<lparr>frame_generation = generation, frame_ingress_qpc = qpc, frame_data = bytes,
                    frame_capacity = MAX_BUFFERED_MIDI_BYTES, frame_source = source\<rparr>, pool'))
      else (None, pool))"

definition clone_realtime ::
  "u64 \<Rightarrow> u64 \<Rightarrow> buffer_pool \<Rightarrow> midi_frame \<Rightarrow> midi_frame option \<times> buffer_pool" where
  "clone_realtime generation qpc pool frame =
     (case copy_realtime generation qpc pool (frame_data frame) (frame_source frame) of
        (None, pool') \<Rightarrow> (None, pool')
      | (Some copy, pool') \<Rightarrow>
          (Some (copy\<lparr>frame_ingress_qpc := frame_ingress_qpc frame,
                      frame_generation := frame_generation frame\<rparr>), pool'))"

text \<open>\<open>Drop for MidiFrame\<close>: pooled storage goes back to the (bounded) free channel.\<close>

definition drop_frame :: "buffer_pool \<Rightarrow> midi_frame \<Rightarrow> buffer_pool" where
  "drop_frame pool frame =
     (if spilled frame \<and> frame_capacity frame \<ge> MAX_BUFFERED_MIDI_BYTES then
        (case pool of
           None \<Rightarrow> None
         | Some n \<Rightarrow> if n < MIDI_BUFFER_COUNT then Some (n + 1) else Some n)
      else pool)"

text \<open>
  \<open>sysex_realtime\<close>. Every early return drops the frame built so far. The length plus two
  cannot overflow a \<open>usize\<close>, a slice being shorter than \<open>isize::MAX\<close>.
\<close>

definition sysex_realtime ::
  "u64 \<Rightarrow> u64 \<Rightarrow> buffer_pool \<Rightarrow> bytes \<Rightarrow> string \<Rightarrow> midi_frame option \<times> buffer_pool" where
  "sysex_realtime generation qpc pool payload source =
     (let len = length payload + 2 in
      case copy_realtime generation qpc pool payload source of
        (None, pool1) \<Rightarrow> (None, pool1)
      | (Some frame, pool1) \<Rightarrow>
          (case (if len > 32 \<and> \<not> spilled frame then
                   (case try_take_buffer pool1 of
                      None \<Rightarrow> None
                    | Some pool2 \<Rightarrow>
                        Some (frame\<lparr>frame_capacity := MAX_BUFFERED_MIDI_BYTES\<rparr>, pool2))
                 else Some (frame, pool1)) of
             None \<Rightarrow> (None, drop_frame pool1 frame)
           | Some (frame', pool2) \<Rightarrow>
               if len > MAX_BUFFERED_MIDI_BYTES then (None, drop_frame pool2 frame')
               else (Some (frame'\<lparr>frame_data := 0xF0 # frame_data frame' @ [0xF7]\<rparr>), pool2)))"

section \<open>Functional behaviour\<close>

lemmas pool_consts = INLINE_MIDI_BYTES_def MAX_BUFFERED_MIDI_BYTES_def MIDI_BUFFER_COUNT_def

lemma copy_realtime_inline:
  "length bytes \<le> 32 \<Longrightarrow> copy_realtime g q pool bytes src =
     (Some \<lparr>frame_generation = g, frame_ingress_qpc = q, frame_data = bytes,
            frame_capacity = 32, frame_source = src\<rparr>, pool)"
  by (simp add: copy_realtime_def pool_consts)

text \<open>Ordinary messages never fail and never touch the pool.\<close>

lemma clone_realtime_inline:
  "length (frame_data f) \<le> 32 \<Longrightarrow>
     clone_realtime g q pool f = (Some (f\<lparr>frame_capacity := 32\<rparr>), pool)"
  by (simp add: clone_realtime_def copy_realtime_inline)

lemma copy_realtime_Some:
  assumes "copy_realtime g q pool bytes src = (Some f, pool')"
  shows "frame_data f = bytes" "frame_source f = src" "frame_generation f = g"
    "frame_ingress_qpc f = q" "length bytes \<le> frame_capacity f"
    "frame_capacity f \<in> {INLINE_MIDI_BYTES, MAX_BUFFERED_MIDI_BYTES}"
  using assms by (auto simp: copy_realtime_def pool_consts split: if_splits option.splits)

text \<open>
  \<open>sysex_realtime\<close> frames a payload exactly when it fits. It succeeds just when the message
  with its two framing bytes fits inline, or fits a pooled buffer and one is free; the frame
  is then \<open>F0\<close>, the payload, \<open>F7\<close>, within its capacity and with the given generation, time and
  source. When it fails, the pool is as it was: no buffer leaks on an error path.
\<close>

theorem sysex_realtime_correct:
  assumes "pool = Some n" "n \<le> MIDI_BUFFER_COUNT"
  shows "(case sysex_realtime g q pool payload src of
       (None, pool') \<Rightarrow> pool' = pool
         \<and> (length payload + 2 > MAX_BUFFERED_MIDI_BYTES
            \<or> (length payload + 2 > INLINE_MIDI_BYTES \<and> n = 0))
     | (Some f, pool') \<Rightarrow>
         frame_data f = [0xF0] @ payload @ [0xF7] \<and> frame_source f = src
         \<and> frame_generation f = g \<and> frame_ingress_qpc f = q
         \<and> length (frame_data f) \<le> frame_capacity f
         \<and> (if length payload + 2 \<le> INLINE_MIDI_BYTES then pool' = pool
            else length payload + 2 \<le> MAX_BUFFERED_MIDI_BYTES \<and> 0 < n \<and> pool' = Some (n - 1)))"
  using assms
  by (auto simp: sysex_realtime_def copy_realtime_def try_take_buffer_def drop_frame_def
      spilled_def pool_consts Let_def)

theorem sysex_realtime_correct_witness:
  "frame_data (the (fst (sysex_realtime 0 7 (Some 3) [0x7E, 0x09] ''RTP:A''))) = [0xF0, 0x7E, 0x09, 0xF7]"
proof -
  have h1: "(Some 3 :: buffer_pool) = Some 3" by simp
  have h2: "(3 :: nat) \<le> MIDI_BUFFER_COUNT" by (simp add: pool_consts)
  show ?thesis
    using sysex_realtime_correct [OF h1 h2, where g = 0 and q = 7 and payload = "[0x7E, 0x09]"
        and src = "''RTP:A''"]
    by (auto simp: pool_consts split: prod.splits option.splits)
qed

section \<open>The pool among all threads\<close>

text \<open>
  The system of the pool and the frames alive in the process. A step is one call: a copy, a
  clone or a System Exclusive frame that succeeds or fails, a frame built from a short
  literal, an in-place rewrite of a frame's bytes, or a drop. Threads interleave in any order.
\<close>

record pool_system =
  ps_pool :: buffer_pool
  ps_live :: "midi_frame list"

definition acquire_result ::
  "pool_system \<Rightarrow> midi_frame option \<times> buffer_pool \<Rightarrow> pool_system" where
  "acquire_result s r =
     (case r of (None, p) \<Rightarrow> s\<lparr>ps_pool := p\<rparr>
      | (Some f, p) \<Rightarrow> s\<lparr>ps_pool := p, ps_live := f # ps_live s\<rparr>)"

inductive pool_step :: "pool_system \<Rightarrow> pool_system \<Rightarrow> bool" where
  copy: "pool_step s (acquire_result s (copy_realtime g q (ps_pool s) bytes src))"
| clone: "f \<in> set (ps_live s) \<Longrightarrow>
     pool_step s (acquire_result s (clone_realtime g q (ps_pool s) f))"
| sysex: "pool_step s (acquire_result s (sysex_realtime g q (ps_pool s) payload src))"
| literal: "frame_capacity f = max INLINE_MIDI_BYTES (length (frame_data f)) \<Longrightarrow>
     length (frame_data f) < MAX_BUFFERED_MIDI_BYTES \<Longrightarrow>
     pool_step s (s\<lparr>ps_live := f # ps_live s\<rparr>)"
| rewrite: "ps_live s = xs @ f # ys \<Longrightarrow> length d = length (frame_data f) \<Longrightarrow>
     pool_step s (s\<lparr>ps_live := xs @ f\<lparr>frame_data := d\<rparr> # ys\<rparr>)"
| dropped: "ps_live s = xs @ f # ys \<Longrightarrow>
     pool_step s (s\<lparr>ps_pool := drop_frame (ps_pool s) f, ps_live := xs @ ys\<rparr>)"

inductive pool_reachable :: "pool_system \<Rightarrow> bool" where
  start: "pool_reachable \<lparr>ps_pool = initialize_midi_buffers None, ps_live = []\<rparr>"
| step: "pool_reachable s \<Longrightarrow> pool_step s t \<Longrightarrow> pool_reachable t"

definition pooled :: "midi_frame \<Rightarrow> bool" where
  "pooled f \<longleftrightarrow> frame_capacity f \<ge> MAX_BUFFERED_MIDI_BYTES"

definition pool_inv :: "pool_system \<Rightarrow> bool" where
  "pool_inv s \<longleftrightarrow>
     (\<exists>n. ps_pool s = Some n \<and> n + length (filter pooled (ps_live s)) = MIDI_BUFFER_COUNT)
     \<and> (\<forall>f \<in> set (ps_live s). length (frame_data f) \<le> frame_capacity f)"

lemma copy_realtime_keeps:
  "pool_inv s \<Longrightarrow> pool_inv (acquire_result s (copy_realtime g q (ps_pool s) bytes src))"
  by (auto simp: pool_inv_def acquire_result_def copy_realtime_def try_take_buffer_def
      pooled_def pool_consts split: option.splits)

lemma clone_realtime_keeps:
  "pool_inv s \<Longrightarrow> pool_inv (acquire_result s (clone_realtime g q (ps_pool s) f))"
  by (auto simp: pool_inv_def acquire_result_def clone_realtime_def copy_realtime_def
      try_take_buffer_def pooled_def pool_consts split: option.splits)

lemma sysex_realtime_keeps:
  "pool_inv s \<Longrightarrow> pool_inv (acquire_result s (sysex_realtime g q (ps_pool s) payload src))"
  by (auto simp: pool_inv_def acquire_result_def sysex_realtime_def copy_realtime_def
      try_take_buffer_def drop_frame_def spilled_def pooled_def pool_consts Let_def
      split: option.splits)

lemma pool_step_inv: "pool_step s t \<Longrightarrow> pool_inv s \<Longrightarrow> pool_inv t"
proof (induction rule: pool_step.induct)
  case (copy s g q bytes src)
  then show ?case by (rule copy_realtime_keeps)
next
  case (clone f s g q)
  then show ?case by (blast intro: clone_realtime_keeps)
next
  case (sysex s g q payload src)
  then show ?case by (rule sysex_realtime_keeps)
next
  case (literal f s)
  then show ?case by (auto simp: pool_inv_def pooled_def pool_consts)
next
  case (rewrite s xs f ys d)
  then show ?case by (auto simp: pool_inv_def pooled_def)
next
  case (dropped s xs f ys)
  then show ?case
    by (auto simp: pool_inv_def pooled_def drop_frame_def spilled_def pool_consts)
qed

lemma pool_reachable_inv: "pool_reachable s \<Longrightarrow> pool_inv s"
proof (induction rule: pool_reachable.induct)
  case start
  show ?case by (simp add: pool_inv_def initialize_midi_buffers_def)
next
  case (step s t)
  then show ?case by (blast intro: pool_step_inv)
qed

text \<open>
  C40: Buffers are conserved. In every reachable state the free buffers and the live frames
  that own one add up to the pool's size, so no failure path leaks a buffer and none is
  handed out twice; and every frame's bytes fit the storage it owns, so no operation grows
  a \<open>SmallVec\<close>, that is, allocates.
\<close>

theorem buffers_conserved:
  assumes "pool_reachable s"
  shows "(\<exists>n. ps_pool s = Some n
      \<and> n + length (filter (\<lambda>f. frame_capacity f \<ge> MAX_BUFFERED_MIDI_BYTES) (ps_live s)) = 128)
    \<and> (\<forall>f \<in> set (ps_live s). length (frame_data f) \<le> frame_capacity f)"
proof -
  have "filter pooled = filter (\<lambda>f. frame_capacity f \<ge> MAX_BUFFERED_MIDI_BYTES)"
    by (simp add: pooled_def [abs_def])
  then show ?thesis
    using pool_reachable_inv [OF assms] by (simp add: pool_inv_def MIDI_BUFFER_COUNT_def)
qed

theorem buffers_conserved_witness:
  "\<exists>s. pool_reachable s \<and> ps_pool s = Some 127 \<and> length (ps_live s) = 1
     \<and> (\<forall>f \<in> set (ps_live s). length (frame_data f) \<le> frame_capacity f)"
proof -
  let ?s = "\<lparr>ps_pool = initialize_midi_buffers None, ps_live = []\<rparr>"
  let ?t = "acquire_result ?s (sysex_realtime 0 0 (ps_pool ?s) (replicate 40 1) ''in'')"
  have r: "pool_reachable ?t" by (rule pool_reachable.step [OF start pool_step.sysex])
  have "ps_pool ?t = Some 127 \<and> length (ps_live ?t) = 1"
    by (simp add: acquire_result_def sysex_realtime_def copy_realtime_def try_take_buffer_def
        initialize_midi_buffers_def spilled_def pool_consts)
  with r buffers_conserved [OF r] show ?thesis by blast
qed

end
