(* ===== verification/Note_State.thy ===== *)
theory Note_State
  imports Midi_Buffers
begin

text \<open>
  Who holds which note (\<open>midi.rs\<close>). \<open>SourceMidiState\<close> tracks notes and hold pedals per input
  source, so that the loss of one peer releases only what no other source holds;
  \<open>ActiveNotes\<close> tracks what one destination sounds, so that a reset can release all of it.
  The states are abstracted to sets of held notes and pedals.
\<close>

section \<open>State\<close>

record source_notes =
  sn_notes :: "u128 list"
  sn_hold_pedals :: "bool list list"

definition default_source_notes :: source_notes where
  "default_source_notes =
     \<lparr>sn_notes = replicate 16 0, sn_hold_pedals = replicate 16 [False, False, False]\<rparr>"

type_synonym source_midi_state = "(string, source_notes) hash_map"

definition HOLD_PEDALS :: "u8 list" where "HOLD_PEDALS = [64, 66, 69]"

text \<open>\<open>HOLD_PEDALS.iter().position(|cc| *cc == c)\<close>, for a controller that is in the array.\<close>

definition pedal_position :: "u8 \<Rightarrow> nat" where
  "pedal_position c = length (takeWhile (\<lambda>cc. cc \<noteq> c) HOLD_PEDALS)"

section \<open>Operations\<close>

text \<open>The \<open>match\<close> on the message kind, on the state of the frame's source.\<close>

definition update_source_notes :: "bytes \<Rightarrow> source_notes \<Rightarrow> source_notes" where
  "update_source_notes bytes state =
     (let channel = unat (bytes ! 0 AND 15);
          kind = bytes ! 0 AND 0xF0;
          notes = sn_notes state;
          pedals = sn_hold_pedals state
      in if kind = 0x90 \<and> bytes ! 2 > 0 then
           state\<lparr>sn_notes := notes[channel := notes ! channel OR shl1 (unat (bytes ! 1))]\<rparr>
         else if kind = 0x80 \<or> kind = 0x90 then
           state\<lparr>sn_notes := notes[channel := notes ! channel AND NOT (shl1 (unat (bytes ! 1)))]\<rparr>
         else if kind = 0xB0 then
           (if bytes ! 1 \<in> {64, 66, 69} then
              state\<lparr>sn_hold_pedals :=
                pedals[channel := (pedals ! channel)[pedal_position (bytes ! 1) := (bytes ! 2 \<ge> 64)]]\<rparr>
            else if bytes ! 1 = 120 \<or> (123 \<le> bytes ! 1 \<and> bytes ! 1 \<le> 127) then
              state\<lparr>sn_notes := notes[channel := 0]\<rparr>
            else if bytes ! 1 = 121 then
              state\<lparr>sn_hold_pedals := pedals[channel := map (\<lambda>_. False) (pedals ! channel)]\<rparr>
            else state)
         else state)"

definition source_observe :: "source_midi_state \<Rightarrow> midi_frame \<Rightarrow> source_midi_state" where
  "source_observe sources frame =
     (let bytes = frame_data frame in
      if bytes = [0xFF] then []
      else if length bytes \<noteq> 3 \<or> \<not> (0x80 \<le> bytes ! 0 \<and> bytes ! 0 < 0xF0)
              \<or> (\<exists>b \<in> set (drop 1 bytes). b > 127) then sources
      else
        let source = frame_source frame;
            state = update_source_notes bytes (map_entry_or source default_source_notes sources);
            sources' = AList.update source state sources
        in if list_all (\<lambda>notes. notes = 0) (sn_notes state)
              \<and> \<not> list_ex (\<lambda>held. held) (concat (sn_hold_pedals state))
           then AList.delete source sources'
           else sources')"

text \<open>The loop over the set bits of \<open>exclusive\<close>, lowest first.\<close>

function note_releases :: "u8 \<Rightarrow> u128 \<Rightarrow> bytes list" where
  "note_releases channel exclusive =
     (if exclusive = 0 then []
      else
        let note = of_nat (trailing_zeros exclusive)
        in [0x80 OR channel, note, 0] # note_releases channel (exclusive AND (exclusive - 1)))"
  by pat_completeness auto
termination
  by (relation "measure (\<lambda>(channel, exclusive). unat exclusive)") (auto simp: and_pred_less)

declare note_releases.simps [simp del]

text \<open>The notes of a channel that another source holds.\<close>

definition other_notes :: "source_midi_state \<Rightarrow> nat \<Rightarrow> u128" where
  "other_notes sources channel =
     fold (\<lambda>state notes. notes OR sn_notes state ! channel) (map snd sources) 0"

definition channel_releases :: "source_notes \<Rightarrow> source_midi_state \<Rightarrow> nat \<Rightarrow> bytes list" where
  "channel_releases removed sources channel =
     note_releases (of_nat channel)
       (sn_notes removed ! channel AND NOT (other_notes sources channel))
     @ concat (map (\<lambda>(pedal, controller).
         if sn_hold_pedals removed ! channel ! pedal
            \<and> \<not> list_ex (\<lambda>state. sn_hold_pedals state ! channel ! pedal) (map snd sources)
         then [[0xB0 OR of_nat channel, controller, 0]] else []) (enumerate 0 HOLD_PEDALS))"

definition release_source ::
  "source_midi_state \<Rightarrow> string \<Rightarrow> bytes list \<times> source_midi_state" where
  "release_source sources source =
     (case map_of sources source of
        None \<Rightarrow> ([], sources)
      | Some removed \<Rightarrow>
          let sources' = AList.delete source sources
          in (concat (map (channel_releases removed sources') [0..<16]), sources'))"

text \<open>\<open>ActiveNotes\<close>: the notes sounding at one destination.\<close>

type_synonym active_notes = "u128 list"

definition default_active_notes :: active_notes where
  "default_active_notes = replicate 16 0"

definition active_observe :: "active_notes \<Rightarrow> bytes \<Rightarrow> active_notes" where
  "active_observe notes data =
     (case parse_note data of
        Some note \<Rightarrow>
          let channel = unat (mn_channel note - 1);
              mask = shl1 (unat (mn_note note))
          in if mn_kind note = NoteOn then notes[channel := notes ! channel OR mask]
             else notes[channel := notes ! channel AND NOT mask]
      | None \<Rightarrow>
          if data = [0xFF] then map (\<lambda>_. 0) notes
          else if length data = 3 \<and> data ! 0 AND 0xF0 = 0xB0 \<and> data ! 1 \<in> {120, 123}
          then notes[unat (data ! 0 AND 0x0F) := 0]
          else notes)"

function active_drain :: "u8 \<Rightarrow> u128 \<Rightarrow> bytes list" where
  "active_drain channel notes =
     (if notes = 0 then []
      else
        let note = trailing_zeros notes
        in [0x80 OR channel, of_nat note, 0] # active_drain channel (notes AND NOT (shl1 note)))"
  by pat_completeness auto
termination
  by (relation "measure (\<lambda>(channel, notes). unat notes)")
    (auto simp: and_pred_less clear_lowest_bit)

declare active_drain.simps [simp del]

text \<open>\<open>release_all\<close> sends the drained messages in order and leaves every channel empty.\<close>

definition active_release_all :: "active_notes \<Rightarrow> bytes list \<times> active_notes" where
  "active_release_all notes =
     (concat (map (\<lambda>(channel, w). active_drain (of_nat channel) w) (enumerate 0 notes)),
      map (\<lambda>_. 0) notes)"

section \<open>Draining a note set\<close>

lemma active_drain_eq: "active_drain channel w = note_releases channel w"
proof (induction channel w rule: note_releases.induct)
  case (1 channel w)
  show ?case
  proof (cases "w = 0")
    case True
    then show ?thesis by (simp add: active_drain.simps note_releases.simps)
  next
    case False
    with 1 show ?thesis
      by (simp add: clear_lowest_bit active_drain.simps [of channel w] note_releases.simps [of channel w])
  qed
qed

lemma set_note_releases:
  "set (note_releases channel w) = {[0x80 OR channel, of_nat n, 0] | n. bit w n}"
proof (induction channel w rule: note_releases.induct)
  case (1 channel w)
  show ?case
  proof (cases "w = 0")
    case True
    then show ?thesis by (simp add: note_releases.simps)
  next
    case False
    then have "set (note_releases channel w)
      = insert [0x80 OR channel, of_nat (trailing_zeros w), 0]
          {[0x80 OR channel, of_nat n, 0] | n. bit w n \<and> n \<noteq> trailing_zeros w}"
      using 1 by (simp add: note_releases.simps [of channel w] bit_and_pred)
    then show ?thesis using trailing_zeros_bound [OF False] by auto
  qed
qed

section \<open>Abstraction to held notes and pedals\<close>

definition source_ok :: "source_notes \<Rightarrow> bool" where
  "source_ok st \<longleftrightarrow> length (sn_notes st) = 16 \<and> length (sn_hold_pedals st) = 16
     \<and> (\<forall>ch < 16. length (sn_hold_pedals st ! ch) = 3)"

definition notes_of :: "source_notes \<Rightarrow> (nat \<times> nat) set" where
  "notes_of st = {(ch, n). ch < 16 \<and> bit (sn_notes st ! ch) n}"

definition pedals_of :: "source_notes \<Rightarrow> (nat \<times> u8) set" where
  "pedals_of st = {(ch, c). ch < 16 \<and> c \<in> {64, 66, 69} \<and> sn_hold_pedals st ! ch ! pedal_position c}"

definition sources_inv :: "source_midi_state \<Rightarrow> bool" where
  "sources_inv s \<longleftrightarrow> keys_distinct s
     \<and> (\<forall>k st. map_of s k = Some st \<longrightarrow> source_ok st \<and> (notes_of st \<noteq> {} \<or> pedals_of st \<noteq> {}))"

definition held_notes :: "source_midi_state \<Rightarrow> string \<Rightarrow> (nat \<times> nat) set" where
  "held_notes s src = (case map_of s src of None \<Rightarrow> {} | Some st \<Rightarrow> notes_of st)"

definition held_pedals :: "source_midi_state \<Rightarrow> string \<Rightarrow> (nat \<times> u8) set" where
  "held_pedals s src = (case map_of s src of None \<Rightarrow> {} | Some st \<Rightarrow> pedals_of st)"

text \<open>What one message does to the notes and pedals its source holds.\<close>

definition note_effect :: "bytes \<Rightarrow> (nat \<times> nat) set \<Rightarrow> (nat \<times> nat) set" where
  "note_effect data N =
     (case parse_note data of
        Some note \<Rightarrow>
          let x = (unat (mn_channel note - 1), unat (mn_note note))
          in if mn_kind note = NoteOn then insert x N else N - {x}
      | None \<Rightarrow>
          (case data of
             [s, c, v] \<Rightarrow>
               if s AND 0xF0 = 0xB0 \<and> v < 0x80 \<and> c \<in> {120, 123, 124, 125, 126, 127}
               then {(ch, n) \<in> N. ch \<noteq> unat (s AND 0x0F)} else N
           | _ \<Rightarrow> N))"

definition pedal_effect :: "bytes \<Rightarrow> (nat \<times> u8) set \<Rightarrow> (nat \<times> u8) set" where
  "pedal_effect data P =
     (case data of
        [s, c, v] \<Rightarrow>
          let ch = unat (s AND 0x0F)
          in if s AND 0xF0 \<noteq> 0xB0 \<or> v \<ge> 0x80 then P
             else if c \<in> {64, 66, 69} then (if v \<ge> 64 then insert (ch, c) P else P - {(ch, c)})
             else if c = 121 then {(ch', c') \<in> P. ch' \<noteq> ch}
             else P
      | _ \<Rightarrow> P)"

lemma pedal_position_simps [simp]:
  "pedal_position 64 = 0" "pedal_position 66 = 1" "pedal_position 69 = 2"
  by (simp_all add: pedal_position_def HOLD_PEDALS_def)

lemma low_nibble_lt [simp]: "unat (s AND 0x0F :: u8) < 16"
  by (simp add: unat_low_nibble)

lemma channel_number [simp]: "(s AND 0x0F :: u8) + 1 - 1 = s AND 0x0F"
  by simp

lemma default_ok: "source_ok default_source_notes"
  by (simp add: source_ok_def default_source_notes_def)

lemma default_empty: "notes_of default_source_notes = {}" "pedals_of default_source_notes = {}"
  by (auto simp: notes_of_def pedals_of_def default_source_notes_def)

lemma held_or_default:
  "held_notes s src = notes_of (map_entry_or src default_source_notes s)"
  "held_pedals s src = pedals_of (map_entry_or src default_source_notes s)"
  by (auto simp: held_notes_def held_pedals_def map_entry_or_def default_empty split: option.splits)

lemma parse_note_3:
  "parse_note [s, a, b] =
     (if a \<ge> 0x80 \<or> b \<ge> 0x80 then None
      else if s AND 0xF0 = 0x90 then
        Some \<lparr>mn_note = a, mn_channel = (s AND 0x0F) + 1, mn_index = adjust_note a,
              mn_kind = (if b = 0 then NoteOff else NoteOn)\<rparr>
      else if s AND 0xF0 = 0x80 then
        Some \<lparr>mn_note = a, mn_channel = (s AND 0x0F) + 1, mn_index = adjust_note a,
              mn_kind = NoteOff\<rparr>
      else None)"
  by (auto simp: parse_note_def)

lemma update_source_notes_ok: "source_ok st \<Longrightarrow> source_ok (update_source_notes data st)"
  by (auto simp: update_source_notes_def source_ok_def Let_def nth_list_update)

lemma notes_of_update:
  assumes "source_ok st" "a < 128" "b < 128"
  shows "notes_of (update_source_notes [s, a, b] st) = note_effect [s, a, b] (notes_of st)"
proof -
  have "unat a < 128" using assms by (simp add: word_less_nat_alt)
  moreover have "unat (s AND 15) < length (sn_notes st)"
    using assms by (simp add: source_ok_def)
  ultimately show ?thesis
    using assms
    by (auto simp: notes_of_def note_effect_def update_source_notes_def parse_note_3 Let_def
        not_le bit_or_shl1 bit_and_not_shl1 nth_list_update u8_range_123_127 word_gt_0
        split: if_splits)
qed

lemma pedals_of_alt:
  "pedals_of st = {(ch, c). ch < 16 \<and> (c = 64 \<and> sn_hold_pedals st ! ch ! 0
     \<or> c = 66 \<and> sn_hold_pedals st ! ch ! 1 \<or> c = 69 \<and> sn_hold_pedals st ! ch ! 2)}"
  by (auto simp: pedals_of_def)

lemma pedals_of_set:
  assumes "k < length hp" "length (hp ! k) = 3" "k < 16" "c \<in> {64, 66, 69}"
  shows "pedals_of (st\<lparr>sn_hold_pedals := hp[k := (hp ! k)[pedal_position c := v]]\<rparr>)
    = (if v then insert (k, c) (pedals_of (st\<lparr>sn_hold_pedals := hp\<rparr>))
       else pedals_of (st\<lparr>sn_hold_pedals := hp\<rparr>) - {(k, c)})"
proof -
  have "(ch, c') \<in> pedals_of (st\<lparr>sn_hold_pedals := hp[k := (hp ! k)[pedal_position c := v]]\<rparr>)
    \<longleftrightarrow> (ch, c') \<in> (if v then insert (k, c) (pedals_of (st\<lparr>sn_hold_pedals := hp\<rparr>))
          else pedals_of (st\<lparr>sn_hold_pedals := hp\<rparr>) - {(k, c)})" for ch c'
    using assms by (cases "ch = k"; cases v) (auto simp: pedals_of_alt)
  then show ?thesis by auto
qed

lemma pedals_of_update:
  assumes "source_ok st" "b < 128"
  shows "pedals_of (update_source_notes [s, a, b] st) = pedal_effect [s, a, b] (pedals_of st)"
proof (cases "s AND 0xF0 = 0xB0")
  case False
  then show ?thesis
    by (simp add: pedals_of_def pedal_effect_def update_source_notes_def Let_def)
next
  case True
  let ?k = "unat (s AND 15)"
  have len: "?k < length (sn_hold_pedals st)" "length (sn_hold_pedals st ! ?k) = 3"
    using assms by (simp_all add: source_ok_def)
  consider "a \<in> {64, 66, 69}" | "a = 121" | "a \<notin> {64, 66, 69, 121}" by blast
  then show ?thesis
  proof cases
    case 1
    then have "pedals_of (update_source_notes [s, a, b] st)
      = pedals_of (st\<lparr>sn_hold_pedals := (sn_hold_pedals st)[?k :=
          (sn_hold_pedals st ! ?k)[pedal_position a := (b \<ge> 64)]]\<rparr>)"
      using True by (simp add: update_source_notes_def Let_def)
    also have "\<dots> = pedal_effect [s, a, b] (pedals_of st)"
      using 1 True assms(2) pedals_of_set [OF len low_nibble_lt 1, where st = st and v = "b \<ge> 64"]
      by (cases "b < 64") (auto simp: pedal_effect_def Let_def not_less)
    finally show ?thesis .
  next
    case 2
    then show ?thesis using True len assms(2)
      by (auto simp: pedals_of_alt pedal_effect_def update_source_notes_def nth_list_update
          not_le Let_def split: if_splits)
  next
    case 3
    then show ?thesis using True assms(2)
      by (simp add: pedals_of_def pedal_effect_def update_source_notes_def Let_def)
  qed
qed

lemma nothing_held:
  assumes "source_ok st"
  shows "(list_all (\<lambda>notes. notes = 0) (sn_notes st)
      \<and> \<not> list_ex (\<lambda>held. held) (concat (sn_hold_pedals st)))
    \<longleftrightarrow> notes_of st = {} \<and> pedals_of st = {}"
proof -
  have "list_all (\<lambda>notes. notes = 0) (sn_notes st) \<longleftrightarrow> notes_of st = {}"
    using assms by (auto simp: notes_of_def source_ok_def list_all_length word_eq_0_iff_bits)
  moreover have "list_ex (\<lambda>held. held) (concat (sn_hold_pedals st)) \<longleftrightarrow>
      (\<exists>ch < 16. \<exists>i < 3. sn_hold_pedals st ! ch ! i)"
    using assms
    by (auto simp: source_ok_def list_ex_iff in_set_conv_nth)
      (metis nth_mem)+
  moreover have "(\<exists>i < 3. P i) \<longleftrightarrow> P (0::nat) \<or> P 1 \<or> P 2" for P
    by (auto simp: numeral_3_eq_3 less_Suc_eq numeral_2_eq_2)
  ultimately show ?thesis
    unfolding pedals_of_alt by auto
qed

lemma valid_kind_range: "0x80 \<le> s \<and> s < 0xF0 \<or> note_effect [s, a, b] N = N \<and> pedal_effect [s, a, b] P = P"
  by (auto simp: note_effect_def pedal_effect_def parse_note_3 high_nibble_eq word_le_nat_alt
      word_less_nat_alt Let_def)

section \<open>Tracking and releasing a source\<close>

lemma source_ok_entry:
  "sources_inv s \<Longrightarrow> source_ok (map_entry_or src default_source_notes s)"
  by (auto simp: sources_inv_def map_entry_or_def default_ok split: option.splits)

lemma sources_inv_update:
  assumes "sources_inv s" "source_ok st" "notes_of st \<noteq> {} \<or> pedals_of st \<noteq> {}"
  shows "sources_inv (AList.update src st s)"
  using assms by (auto simp: sources_inv_def distinct_update)

lemma sources_inv_delete: "sources_inv s \<Longrightarrow> sources_inv (AList.delete src s)"
  by (auto simp: sources_inv_def distinct_delete)

lemma delete_update_inv: "sources_inv s \<Longrightarrow> sources_inv (AList.delete src (AList.update src st s))"
  by (auto simp: sources_inv_def distinct_delete distinct_update)

lemma u8_lt_128: "\<not> (b > 127) \<longleftrightarrow> b < (128 :: u8)"
  by (auto simp: word_le_nat_alt word_less_nat_alt not_less)

lemma effects_ignore:
  assumes "length d \<noteq> 3 \<or> \<not> (0x80 \<le> d ! 0 \<and> d ! 0 < 0xF0) \<or> (\<exists>b \<in> set (drop 1 d). b > 127)"
  shows "note_effect d N = N \<and> pedal_effect d P = P"
proof (cases "length d = 3")
  case False
  then have "parse_note d = None" by (simp add: parse_note_def)
  with False show ?thesis
    by (auto simp: note_effect_def pedal_effect_def split: list.splits)
next
  case True
  then obtain s a b where d: "d = [s, a, b]"
    by (auto simp: length_Suc_conv numeral_3_eq_3)
  show ?thesis
  proof (cases "a > 127 \<or> b > 127")
    case True
    then have "\<not> a < 128 \<or> \<not> b < 128" using u8_lt_128 by blast
    then have "parse_note d = None" by (auto simp: d parse_note_3 not_le)
    with \<open>\<not> a < 128 \<or> \<not> b < 128\<close> show ?thesis
      by (auto simp: d note_effect_def pedal_effect_def not_le Let_def)
  next
    case False
    with assms have "\<not> (0x80 \<le> s \<and> s < 0xF0)" by (auto simp: d)
    then show ?thesis using valid_kind_range [of s a b N P] unfolding d by blast
  qed
qed

lemma source_observe_step:
  assumes inv: "sources_inv s"
  shows "sources_inv (source_observe s f)
    \<and> held_notes (source_observe s f) =
        (if frame_data f = [0xFF] then (\<lambda>_. {})
         else (held_notes s)(frame_source f :=
                note_effect (frame_data f) (held_notes s (frame_source f))))
    \<and> held_pedals (source_observe s f) =
        (if frame_data f = [0xFF] then (\<lambda>_. {})
         else (held_pedals s)(frame_source f :=
                pedal_effect (frame_data f) (held_pedals s (frame_source f))))"
proof -
  let ?d = "frame_data f" and ?src = "frame_source f"
  show ?thesis
  proof (cases "?d = [0xFF]")
    case True
    then show ?thesis
      by (auto simp: source_observe_def sources_inv_def held_notes_def held_pedals_def)
  next
    case not_reset: False
    show ?thesis
    proof (cases "length ?d \<noteq> 3 \<or> \<not> (0x80 \<le> ?d ! 0 \<and> ?d ! 0 < 0xF0)
        \<or> (\<exists>b \<in> set (drop 1 ?d). b > 127)")
      case True
      with not_reset have "source_observe s f = s"
        unfolding source_observe_def Let_def by simp
      then show ?thesis
        using inv not_reset effects_ignore [OF True] by simp
    next
      case False
      then obtain st a b where d: "?d = [st, a, b]" and st: "0x80 \<le> st" "st < 0xF0"
        and ab: "a < 128" "b < 128"
        by (auto simp: length_Suc_conv numeral_3_eq_3 u8_lt_128)
      let ?new = "update_source_notes ?d (map_entry_or ?src default_source_notes s)"
      note old = source_ok_entry [OF inv, of ?src]
      have new: "source_ok ?new"
        "notes_of ?new = note_effect ?d (held_notes s ?src)"
        "pedals_of ?new = pedal_effect ?d (held_pedals s ?src)"
        using old ab by (simp_all add: d update_source_notes_ok notes_of_update pedals_of_update
            held_or_default)
      have obs: "source_observe s f =
          (if notes_of ?new = {} \<and> pedals_of ?new = {}
           then AList.delete ?src (AList.update ?src ?new s) else AList.update ?src ?new s)"
        using False not_reset nothing_held [OF new(1)]
        unfolding source_observe_def Let_def by simp
      show ?thesis
        using not_reset new sources_inv_update [OF inv new(1)] delete_update_inv [OF inv]
        by (auto simp: obs held_notes_def held_pedals_def fun_eq_iff)
    qed
  qed
qed

text \<open>
  C36: \<open>SourceMidiState::observe\<close> refines the set view. From a well-formed state it leads to a
  well-formed one (sixteen channels, no source without a held key or pedal), and the held
  notes and pedals of every source change exactly as the message says: a system reset
  clears them all, any other message affects the frame's own source only.
\<close>

theorem source_observe_refines:
  assumes "sources_inv s"
  shows "sources_inv (source_observe s f)
    \<and> held_notes (source_observe s f) =
        (if frame_data f = [0xFF] then (\<lambda>_. {})
         else (held_notes s)(frame_source f :=
                note_effect (frame_data f) (held_notes s (frame_source f))))
    \<and> held_pedals (source_observe s f) =
        (if frame_data f = [0xFF] then (\<lambda>_. {})
         else (held_pedals s)(frame_source f :=
                pedal_effect (frame_data f) (held_pedals s (frame_source f))))"
  using assms by (rule source_observe_step)

theorem source_observe_refines_witness:
  "sources_inv [] \<and> held_notes (source_observe [] \<lparr>frame_generation = 0, frame_ingress_qpc = 0,
     frame_data = [0x91, 60, 100], frame_capacity = 32, frame_source = ''RTP:A''\<rparr>) ''RTP:A'' = {(1, 60)}"
proof -
  have h: "sources_inv []" by (simp add: sources_inv_def)
  show ?thesis
    using h source_observe_refines [OF h, of "\<lparr>frame_generation = 0, frame_ingress_qpc = 0,
     frame_data = [0x91, 60, 100], frame_capacity = 32, frame_source = ''RTP:A''\<rparr>"]
    by (simp add: note_effect_def parse_note_3 held_notes_def)
qed

lemma bit_fold_or:
  "bit (fold (\<lambda>st notes. notes OR sn_notes st ! ch) sts w) n \<longleftrightarrow>
     bit w n \<or> (\<exists>st \<in> set sts. bit (sn_notes st ! ch) n)"
  by (induction sts arbitrary: w) (auto simp: bit_or_iff)

lemma held_elsewhere:
  assumes "sources_inv s" "ch < 16"
  shows "bit (other_notes (AList.delete src s) ch) n \<longleftrightarrow>
           (\<exists>other. other \<noteq> src \<and> (ch, n) \<in> held_notes s other)"
    and "c \<in> {64, 66, 69} \<Longrightarrow>
         list_ex (\<lambda>st. sn_hold_pedals st ! ch ! pedal_position c) (map snd (AList.delete src s)) \<longleftrightarrow>
           (\<exists>other. other \<noteq> src \<and> (ch, c) \<in> held_pedals s other)"
proof -
  have d: "keys_distinct (AList.delete src s)"
    using sources_inv_delete [OF assms(1)] by (simp add: sources_inv_def)
  show "bit (other_notes (AList.delete src s) ch) n \<longleftrightarrow>
           (\<exists>other. other \<noteq> src \<and> (ch, n) \<in> held_notes s other)"
    using assms(2) unfolding other_notes_def bit_fold_or ex_value_iff [OF d]
    by (auto simp: held_notes_def notes_of_def split: option.splits if_splits)
  show "c \<in> {64, 66, 69} \<Longrightarrow>
         list_ex (\<lambda>st. sn_hold_pedals st ! ch ! pedal_position c) (map snd (AList.delete src s)) \<longleftrightarrow>
           (\<exists>other. other \<noteq> src \<and> (ch, c) \<in> held_pedals s other)"
    using assms(2) unfolding list_ex_iff ex_value_iff [OF d]
    by (auto simp: held_pedals_def pedals_of_def split: option.splits if_splits)
qed

lemma set_channel_releases:
  assumes "ch < 16"
  shows "set (channel_releases st s ch) =
      {[0x80 OR of_nat ch, of_nat n, 0] | n. (ch, n) \<in> notes_of st \<and> \<not> bit (other_notes s ch) n}
    \<union> {[0xB0 OR of_nat ch, c, 0] | c. (ch, c) \<in> pedals_of st
        \<and> \<not> list_ex (\<lambda>st. sn_hold_pedals st ! ch ! pedal_position c) (map snd s)}"
proof -
  have "set (note_releases (of_nat ch) (sn_notes st ! ch AND NOT (other_notes s ch)))
    = {[0x80 OR of_nat ch, of_nat n, 0] | n. (ch, n) \<in> notes_of st \<and> \<not> bit (other_notes s ch) n}"
    using assms by (simp add: set_note_releases notes_of_def bit_and_not)
  moreover have "enumerate 0 HOLD_PEDALS = [(0, 64), (1, 66), (2, 69)]"
    by (simp add: HOLD_PEDALS_def)
  ultimately show ?thesis
    using assms by (auto simp: channel_releases_def pedals_of_def)
qed

lemma UN_releases:
  assumes "\<And>ch n. Q ch n \<Longrightarrow> ch < k" "\<And>ch c. R ch c \<Longrightarrow> ch < k"
  shows "(\<Union>ch \<in> {..<k}. {f ch n | n. Q ch n} \<union> {g ch c | c. R ch c})
    = {f ch n | ch n. Q ch n} \<union> {g ch c | ch c. R ch c}"
  using assms by blast

lemma set_exclusive_releases:
  assumes inv: "sources_inv s" and ch: "ch < 16"
  shows "set (channel_releases st (AList.delete src s) ch) =
      {[0x80 OR of_nat ch, of_nat n, 0] | n. (ch, n) \<in> notes_of st
         \<and> (\<forall>other. other \<noteq> src \<longrightarrow> (ch, n) \<notin> held_notes s other)}
    \<union> {[0xB0 OR of_nat ch, c, 0] | c. (ch, c) \<in> pedals_of st
         \<and> (\<forall>other. other \<noteq> src \<longrightarrow> (ch, c) \<notin> held_pedals s other)}"
proof -
  have "c \<in> {64, 66, 69}" if "(ch, c) \<in> pedals_of st" for c using that by (simp add: pedals_of_def)
  then have "(ch, c) \<in> pedals_of st \<and> \<not> list_ex (\<lambda>st. sn_hold_pedals st ! ch ! pedal_position c)
         (map snd (AList.delete src s)) \<longleftrightarrow>
      (ch, c) \<in> pedals_of st \<and> (\<forall>other. other \<noteq> src \<longrightarrow> (ch, c) \<notin> held_pedals s other)" for c
    using held_elsewhere(2) [OF inv ch, of c src] by (cases "(ch, c) \<in> pedals_of st") auto
  moreover have "\<not> bit (other_notes (AList.delete src s) ch) n \<longleftrightarrow>
      (\<forall>other. other \<noteq> src \<longrightarrow> (ch, n) \<notin> held_notes s other)" for n
    using held_elsewhere(1) [OF inv ch] by blast
  ultimately show ?thesis by (simp only: set_channel_releases [OF ch])
qed

text \<open>
  \<open>SourceMidiState::release_source\<close> releases exactly what only that source holds. The
  messages are a Note Off for each note and a zero controller for each pedal that the
  source holds and no other source does, whatever the order in which the hash map is
  visited; afterwards the source holds nothing and every other source what it held before.
\<close>

theorem release_source_exact:
  assumes inv: "sources_inv s"
    and rel: "release_source s src = (msgs, s')"
  shows "set msgs =
      {[0x80 OR of_nat ch, of_nat n, 0] | ch n. (ch, n) \<in> held_notes s src
         \<and> (\<forall>other. other \<noteq> src \<longrightarrow> (ch, n) \<notin> held_notes s other)}
    \<union> {[0xB0 OR of_nat ch, c, 0] | ch c. (ch, c) \<in> held_pedals s src
         \<and> (\<forall>other. other \<noteq> src \<longrightarrow> (ch, c) \<notin> held_pedals s other)}
    \<and> sources_inv s'
    \<and> held_notes s' = (held_notes s)(src := {}) \<and> held_pedals s' = (held_pedals s)(src := {})"
proof (cases "map_of s src")
  case None
  then show ?thesis
    using inv rel by (auto simp: release_source_def held_notes_def held_pedals_def fun_eq_iff)
next
  case (Some st)
  let ?s' = "AList.delete src s"
  have s': "s' = ?s'" and msgs: "msgs = concat (map (channel_releases st ?s') [0..<16])"
    using rel Some by (auto simp: release_source_def Let_def)
  have st: "held_notes s src = notes_of st" "held_pedals s src = pedals_of st"
    using Some by (simp_all add: held_notes_def held_pedals_def)
  have range: "(ch, n) \<in> notes_of st \<Longrightarrow> ch < 16" "(ch, c) \<in> pedals_of st \<Longrightarrow> ch < 16 \<and> c \<in> {64, 66, 69}"
    for ch n c by (auto simp: notes_of_def pedals_of_def)
  have "set msgs = (\<Union>ch \<in> {..<16}. set (channel_releases st ?s' ch))"
    by (auto simp: msgs)
  also have "\<dots> = (\<Union>ch \<in> {..<16}.
      {[0x80 OR of_nat ch, of_nat n, 0] | n. (ch, n) \<in> notes_of st
         \<and> (\<forall>other. other \<noteq> src \<longrightarrow> (ch, n) \<notin> held_notes s other)}
    \<union> {[0xB0 OR of_nat ch, c, 0] | c. (ch, c) \<in> pedals_of st
         \<and> (\<forall>other. other \<noteq> src \<longrightarrow> (ch, c) \<notin> held_pedals s other)})"
    by (intro SUP_cong refl set_exclusive_releases [OF inv]) simp
  also have "\<dots> = {[0x80 OR of_nat ch, of_nat n, 0] | ch n. (ch, n) \<in> notes_of st
         \<and> (\<forall>other. other \<noteq> src \<longrightarrow> (ch, n) \<notin> held_notes s other)}
    \<union> {[0xB0 OR of_nat ch, c, 0] | ch c. (ch, c) \<in> pedals_of st
         \<and> (\<forall>other. other \<noteq> src \<longrightarrow> (ch, c) \<notin> held_pedals s other)}"
    by (rule UN_releases) (use range in blast)+
  finally have sent: "set msgs =
      {[0x80 OR of_nat ch, of_nat n, 0] | ch n. (ch, n) \<in> held_notes s src
         \<and> (\<forall>other. other \<noteq> src \<longrightarrow> (ch, n) \<notin> held_notes s other)}
    \<union> {[0xB0 OR of_nat ch, c, 0] | ch c. (ch, c) \<in> held_pedals s src
         \<and> (\<forall>other. other \<noteq> src \<longrightarrow> (ch, c) \<notin> held_pedals s other)}"
    unfolding st .
  have "held_notes s' = (held_notes s)(src := {})" "held_pedals s' = (held_pedals s)(src := {})"
    by (simp_all add: s' held_notes_def held_pedals_def fun_eq_iff)
  with sent sources_inv_delete [OF inv] show ?thesis by (simp add: s')
qed

theorem release_source_exact_witness:
  "let s = source_observe [] \<lparr>frame_generation = 0, frame_ingress_qpc = 0,
     frame_data = [0xB1, 66, 127], frame_capacity = 32, frame_source = ''RTP:A''\<rparr>
   in sources_inv s \<and> [0xB1, 66, 0] \<in> set (fst (release_source s ''RTP:A''))"
proof -
  let ?f = "\<lparr>frame_generation = 0, frame_ingress_qpc = 0,
     frame_data = [0xB1, 66, 127], frame_capacity = 32, frame_source = ''RTP:A''\<rparr>"
  let ?s = "source_observe [] ?f"
  have "sources_inv []" by (simp add: sources_inv_def)
  from source_observe_step [OF this, of ?f]
  have inv: "sources_inv ?s" and held: "held_pedals ?s ''RTP:A'' = {(1, 66)}"
    "\<And>other. other \<noteq> ''RTP:A'' \<Longrightarrow> held_pedals ?s other = {}"
    by (simp_all add: pedal_effect_def held_pedals_def)
  obtain msgs s' where rel: "release_source ?s ''RTP:A'' = (msgs, s')" by fastforce
  from release_source_exact [OF inv rel] held
  have "[0xB0 OR of_nat 1, 66, 0] \<in> set msgs" by auto
  then show ?thesis using inv rel by (simp add: Let_def)
qed

section \<open>What a destination sounds\<close>

definition sounding :: "active_notes \<Rightarrow> (nat \<times> nat) set" where
  "sounding notes = {(ch, n). ch < length notes \<and> bit (notes ! ch) n}"

text \<open>
  The effect of a message on the set of sounding notes, as \<open>ActiveNotes\<close> counts it: a device may end notes on further
  controllers (\<open>Midi_Output\<close> has the device).
\<close>

definition sound_effect :: "bytes \<Rightarrow> (nat \<times> nat) set \<Rightarrow> (nat \<times> nat) set" where
  "sound_effect data N =
     (case parse_note data of
        Some note \<Rightarrow>
          let key = (unat (mn_channel note - 1), unat (mn_note note))
          in if mn_kind note = NoteOn then insert key N else N - {key}
      | None \<Rightarrow>
          if data = [0xFF] then {}
          else if length data = 3 \<and> data ! 0 AND 0xF0 = 0xB0 \<and> data ! 1 \<in> {120, 123}
          then {(ch, n) \<in> N. ch \<noteq> unat (data ! 0 AND 0x0F)}
          else N)"

lemma parse_note_bounds:
  "parse_note data = Some note \<Longrightarrow> unat (mn_channel note - 1) < 16 \<and> unat (mn_note note) < 128"
proof -
  assume p: "parse_note data = Some note"
  then have "length data = 3" by (simp add: parse_note_def split: if_splits)
  then obtain s a b where "data = [s, a, b]" by (auto simp: length_Suc_conv numeral_3_eq_3)
  with p show ?thesis
    by (auto simp: parse_note_3 not_le word_less_nat_alt Let_def split: if_splits)
qed

lemma active_observe_refines:
  assumes "length notes = 16"
  shows "length (active_observe notes data) = 16"
    and "sounding (active_observe notes data) = sound_effect data (sounding notes)"
proof -
  show "length (active_observe notes data) = 16"
    using assms by (simp add: active_observe_def Let_def split: option.splits)
  show "sounding (active_observe notes data) = sound_effect data (sounding notes)"
  proof (cases "parse_note data")
    case None
    have "unat (data ! 0 AND 0x0F) < 16" by (rule low_nibble_lt)
    with None show ?thesis
      using assms by (auto simp: sounding_def active_observe_def sound_effect_def nth_list_update
          split: if_splits)
  next
    case (Some nt)
    from parse_note_bounds [OF Some] show ?thesis
      using assms Some
      by (auto simp: sounding_def active_observe_def sound_effect_def Let_def nth_list_update
          bit_or_shl1 bit_and_not_shl1 split: if_splits)
  qed
qed

lemma active_history:
  "length (fold (\<lambda>data notes. active_observe notes data) history default_active_notes) = 16"
  "sounding (fold (\<lambda>data notes. active_observe notes data) history default_active_notes)
     = fold sound_effect history {}"
proof (induction history rule: rev_induct)
  case Nil
  show "length (fold (\<lambda>data notes. active_observe notes data) [] default_active_notes) = 16"
    by (simp add: default_active_notes_def)
  show "sounding (fold (\<lambda>data notes. active_observe notes data) [] default_active_notes)
     = fold sound_effect [] {}"
    by (auto simp: default_active_notes_def sounding_def)
next
  case (snoc data history)
  { case 1 show ?case using active_observe_refines(1) [OF snoc(1)] by simp }
  { case 2 show ?case using active_observe_refines(2) [OF snoc(1)] snoc(2) by simp }
qed

lemma set_release_all:
  assumes "length notes = 16"
  shows "set (fst (active_release_all notes)) =
    {[0x80 OR of_nat ch, of_nat n, 0] | ch n. (ch, n) \<in> sounding notes}"
proof -
  have "set (fst (active_release_all notes)) =
      (\<Union>(ch, w) \<in> set (enumerate 0 notes). {[0x80 OR of_nat ch, of_nat n, 0] | n. bit w n})"
    by (auto simp: active_release_all_def active_drain_eq set_note_releases)
  also have "\<dots> = {[0x80 OR of_nat ch, of_nat n, 0] | ch n. (ch, n) \<in> sounding notes}"
    by (force simp: sounding_def in_set_enumerate_eq)
  finally show ?thesis .
qed

lemma note_off_status:
  assumes "ch < 16"
  shows "(0x80 OR of_nat ch) AND 0xF0 = (0x80 :: u8)" "(0x80 OR of_nat ch) AND 0x0F = (of_nat ch :: u8)"
proof -
  have "(of_nat ch :: u8) = of_nat ch AND 0x0F"
    using assms by (simp add: word_unat_eq_iff unat_low_nibble unat_of_nat)
  then show "(0x80 OR of_nat ch) AND 0xF0 = (0x80 :: u8)"
    "(0x80 OR of_nat ch) AND 0x0F = (of_nat ch :: u8)"
    using status_or_kind [of "0x80" "of_nat ch :: u8"] by simp_all
qed

lemma note_off_inj:
  assumes "c < 16" "k < 128" "ch < 16" "n < 128"
  shows "[0x80 OR of_nat c, of_nat k, 0] = [0x80 OR of_nat ch, of_nat n, 0 :: u8] \<longleftrightarrow> c = ch \<and> k = n"
    (is "?l = ?r \<longleftrightarrow> _")
proof
  assume "?l = ?r"
  then have st: "(0x80 :: u8) OR of_nat c = 0x80 OR of_nat ch" and nt: "(of_nat k :: u8) = of_nat n"
    by (simp_all only: list.inject)
  from st have "(0x80 OR of_nat c) AND 0x0F = (0x80 OR of_nat ch) AND (0x0F :: u8)"
    by (rule arg_cong)
  then have "(of_nat c :: u8) = of_nat ch"
    by (simp only: note_off_status(2) [OF assms(1)] note_off_status(2) [OF assms(3)])
  then have "unat (of_nat c :: u8) = unat (of_nat ch :: u8)" by (rule arg_cong)
  moreover from nt have "unat (of_nat k :: u8) = unat (of_nat n :: u8)" by (rule arg_cong)
  moreover have "c mod 256 = c" "k mod 256 = k" "ch mod 256 = ch" "n mod 256 = n"
    using assms by simp_all
  ultimately show "c = ch \<and> k = n" by (simp add: unat_of_nat)
next
  assume "c = ch \<and> k = n"
  then show "?l = ?r" by blast
qed

lemma sound_effect_note_off:
  assumes "ch < 16" "n < 128"
  shows "sound_effect [0x80 OR of_nat ch, of_nat n, 0] N = N - {(ch, n)}"
  using assms
  by (simp add: sound_effect_def parse_note_3 note_off_status word_le_nat_alt unat_of_nat Let_def)

lemma replay_note_offs:
  assumes "\<forall>m \<in> set msgs. \<exists>ch n. ch < 16 \<and> n < 128 \<and> m = [0x80 OR of_nat ch, of_nat n, 0]"
  shows "fold sound_effect msgs N =
    {(ch, n) \<in> N. \<not> (ch < 16 \<and> n < 128 \<and> [0x80 OR of_nat ch, of_nat n, 0] \<in> set msgs)}"
  using assms
proof (induction msgs arbitrary: N)
  case Nil
  then show ?case by simp
next
  case (Cons m msgs)
  from Cons.prems obtain ch n where m: "ch < 16" "n < 128" "m = [0x80 OR of_nat ch, of_nat n, 0]"
    by auto
  have "fold sound_effect (m # msgs) N = {(c, k) \<in> N - {(ch, n)}.
      \<not> (c < 16 \<and> k < 128 \<and> [0x80 OR of_nat c, of_nat k, 0] \<in> set msgs)}"
    using Cons m by (simp add: sound_effect_note_off)
  then show ?case using m note_off_inj [OF _ _ m(1,2)] unfolding m(3) set_simps insert_iff
    by blast
qed

lemma sounding_empty_iff:
  "length notes = 16 \<Longrightarrow> sounding notes = {} \<longleftrightarrow> notes = default_active_notes"
proof -
  assume len: "length notes = 16"
  have "sounding notes = {} \<longleftrightarrow> (\<forall>ch < 16. notes ! ch = 0)"
    using len by (auto simp: sounding_def word_eq_0_iff_bits)
  also have "\<dots> \<longleftrightarrow> notes = default_active_notes"
    using len by (auto simp: default_active_notes_def list_eq_iff_nth_eq)
  finally show ?thesis .
qed

lemma sounding_bound: "length notes = 16 \<Longrightarrow> (ch, n) \<in> sounding notes \<Longrightarrow> ch < 16 \<and> n < 128"
  by (auto simp: sounding_def dest: bit_imp_le_length)

text \<open>
  Whatever a destination was sent, \<open>ActiveNotes::release_all\<close> silences it. The tracker
  agrees with the notes the history leaves sounding; the messages sent are a Note Off for
  each of them and nothing else; the tracker forgets everything; and a tracker that hears
  the messages after the same history is empty as well.
\<close>

theorem release_all_silences:
  "(let notes = fold (\<lambda>data notes. active_observe notes data) history default_active_notes;
        (msgs, notes') = active_release_all notes
    in sounding notes = fold sound_effect history {}
       \<and> set msgs = {[0x80 OR of_nat ch, of_nat n, 0] | ch n. (ch, n) \<in> fold sound_effect history {}}
       \<and> notes' = default_active_notes
       \<and> fold (\<lambda>data notes. active_observe notes data) (history @ msgs) default_active_notes
           = default_active_notes)"
proof -
  define ns where "ns = fold (\<lambda>data notes. active_observe notes data) history default_active_notes"
  define msgs where "msgs = fst (active_release_all ns)"
  note hist = active_history [of history, folded ns_def]
  note sent = set_release_all [OF hist(1), folded msgs_def]
  have "sounding (fold (\<lambda>data notes. active_observe notes data) (history @ msgs) default_active_notes)
      = fold sound_effect msgs (sounding ns)"
    using active_history(2) [of "history @ msgs"] hist(2) by simp
  also have "\<dots> = {}"
  proof -
    have "\<forall>m \<in> set msgs. \<exists>ch n. ch < 16 \<and> n < 128 \<and> m = [0x80 OR of_nat ch, of_nat n, 0]"
      using sent sounding_bound [OF hist(1)] by blast
    from replay_note_offs [OF this] show ?thesis
      using sent sounding_bound [OF hist(1)] by blast
  qed
  finally have "fold (\<lambda>data notes. active_observe notes data) (history @ msgs) default_active_notes
      = default_active_notes"
    using sounding_empty_iff [OF active_history(1)] by blast
  moreover have "snd (active_release_all ns) = default_active_notes"
    using hist(1) by (simp add: active_release_all_def default_active_notes_def map_replicate_const)
  ultimately show ?thesis
    using hist(2) sent unfolding ns_def [symmetric] Let_def case_prod_beta msgs_def by simp
qed

end
