(* ===== verification/Settings.thy ===== *)
theory Settings
  imports Prelude
begin

text \<open>
  The configuration (\<open>config.rs\<close>): its structs with their defaults, the clamping of equaliser
  settings, validation, the migration in \<open>AppConfig::parse_yaml\<close>, and \<open>ConfigStore\<close> over a
  disk that holds the configuration file and the backups of files it could not read.
  \<open>f32\<close> values are their IEEE bit patterns. The YAML library is a parameter.
\<close>

section \<open>Single-precision numbers\<close>

type_synonym f32 = "32 word"

text \<open>
  The order of non-NaN values is the order of the magnitude bits, negated under the sign; a
  value is finite when its exponent is not all ones.
\<close>

definition f32_key :: "f32 \<Rightarrow> int" where
  "f32_key x = (let m = uint (take_bit 31 x) in if bit x 31 then - m else m)"

definition f32_is_finite :: "f32 \<Rightarrow> bool" where
  "f32_is_finite x \<longleftrightarrow> \<bar>f32_key x\<bar> < 0x7F800000"

definition f32_is_nan :: "f32 \<Rightarrow> bool" where
  "f32_is_nan x \<longleftrightarrow> \<bar>f32_key x\<bar> > 0x7F800000"

definition f32_lt :: "f32 \<Rightarrow> f32 \<Rightarrow> bool" where
  "f32_lt x y \<longleftrightarrow> \<not> f32_is_nan x \<and> \<not> f32_is_nan y \<and> f32_key x < f32_key y"

definition f32_eq :: "f32 \<Rightarrow> f32 \<Rightarrow> bool" where
  "f32_eq x y \<longleftrightarrow> \<not> f32_is_nan x \<and> \<not> f32_is_nan y \<and> f32_key x = f32_key y"

definition f32_min :: "f32 \<Rightarrow> f32 \<Rightarrow> f32" where
  "f32_min x y = (if f32_is_nan x then y else if f32_lt y x then y else x)"

definition f32_max :: "f32 \<Rightarrow> f32 \<Rightarrow> f32" where
  "f32_max x y = (if f32_is_nan x then y else if f32_lt x y then y else x)"

text \<open>\<open>f32::clamp\<close>; it panics when the bounds are not ordered, which the only caller excludes.\<close>

definition f32_clamp :: "f32 \<Rightarrow> f32 \<Rightarrow> f32 \<Rightarrow> f32" where
  "f32_clamp x lo hi =
     (let x = if f32_lt x lo then lo else x in if f32_lt hi x then hi else x)"

text \<open>
  Rounding \<open>m * 2 ^ e\<close> to nearest, ties to even, for results in the normal range; with it
  the conversion from \<open>u32\<close> and the product of positive normal numbers.
\<close>

function bit_length :: "int \<Rightarrow> int" where
  "bit_length m = (if m \<le> 0 then 0 else 1 + bit_length (m div 2))"
  by pat_completeness auto
termination
  by (relation "measure nat") auto

declare bit_length.simps [simp del]

definition round_f32 :: "int \<Rightarrow> int \<Rightarrow> f32" where
  "round_f32 m e =
     (let s = bit_length m - 24;
          q = (if s \<le> 0 then m * 2 ^ nat (- s)
               else let q = m div 2 ^ nat s; r = m mod 2 ^ nat s; half = 2 ^ (nat s - 1)
                    in if r > half \<or> (r = half \<and> odd q) then q + 1 else q)
      in of_int ((e + s + 149) * 2 ^ 23 + q))"

definition f32_of_u32 :: "u32 \<Rightarrow> f32" where
  "f32_of_u32 w = (if w = 0 then 0 else round_f32 (uint w) 0)"

definition f32_mul_normal :: "f32 \<Rightarrow> f32 \<Rightarrow> f32" where
  "f32_mul_normal x y =
     (let mant = (\<lambda>x. 2 ^ 23 + uint (take_bit 23 x));
          ex = (\<lambda>x. uint (drop_bit 23 x) - 150)
      in round_f32 (mant x * mant y) (ex x + ex y))"

section \<open>Configuration structs\<close>

datatype theme = Light | Dark

record rtp_remote_entry =
  rre_id :: string
  rre_name :: string
  rre_host :: string
  rre_port :: u16
  rre_auto_connect :: bool

record routing_mapping =
  rm_from :: u8
  rm_to :: u8

record routing_profile =
  rp_id :: string
  rp_name :: string
  rp_enabled :: bool
  rp_channel_filter :: "u8 option"
  rp_note_min :: "u8 option"
  rp_note_max :: "u8 option"
  rp_cc_map :: "routing_mapping list"
  rp_program_map :: "routing_mapping list"

record routing_assignment =
  ra_source :: string
  ra_profile_id :: string

record midi_config =
  mc_input_device :: "string option"
  mc_output_device :: "string option"
  mc_channel_filter :: "u8 option"
  mc_thru_enabled :: bool
  mc_hotplug :: bool
  mc_routing_profiles :: "routing_profile list"
  mc_routing_assignments :: "routing_assignment list"

definition default_midi_config :: midi_config where
  "default_midi_config =
     \<lparr>mc_input_device = None, mc_output_device = None, mc_channel_filter = None,
      mc_thru_enabled = True, mc_hotplug = True, mc_routing_profiles = [],
      mc_routing_assignments = []\<rparr>"

record osc_config =
  oc_input_enabled :: bool
  oc_listen_ip :: string
  oc_listen_port :: u16
  oc_enabled :: bool
  oc_target_ip :: string
  oc_target_port :: u16
  oc_log_messages :: bool

definition default_osc_config :: osc_config where
  "default_osc_config =
     \<lparr>oc_input_enabled = False, oc_listen_ip = ''127.0.0.1'', oc_listen_port = 9001,
      oc_enabled = True, oc_target_ip = ''127.0.0.1'', oc_target_port = 9000,
      oc_log_messages = True\<rparr>"

record rtp_config =
  rc_thru_enabled :: bool
  rc_enabled :: bool
  rc_session_name :: string
  rc_port :: u16
  rc_remote_enabled :: bool
  rc_remotes :: "rtp_remote_entry list"
  rc_log_messages :: bool

definition default_rtp_config :: rtp_config where
  "default_rtp_config =
     \<lparr>rc_thru_enabled = False, rc_enabled = True, rc_session_name = ''OSCMidi'', rc_port = 5004,
      rc_remote_enabled = False, rc_remotes = [], rc_log_messages = False\<rparr>"

record eq_shelf_settings =
  es_frequency_hz :: f32
  es_gain_db :: f32

record eq_peak_settings =
  ep_frequency_hz :: f32
  ep_gain_db :: f32
  ep_q :: f32

record vst_eq_settings =
  ve_enabled :: bool
  ve_low_shelf :: eq_shelf_settings
  ve_mid_peak :: eq_peak_settings
  ve_high_shelf :: eq_shelf_settings

definition default_vst_eq_settings :: vst_eq_settings where
  "default_vst_eq_settings =
     \<lparr>ve_enabled = False,
      ve_low_shelf = \<lparr>es_frequency_hz = 0x42F00000, es_gain_db = 0\<rparr>,
      ve_mid_peak = \<lparr>ep_frequency_hz = 0x447A0000, ep_gain_db = 0, ep_q = 0x3F800000\<rparr>,
      ve_high_shelf = \<lparr>es_frequency_hz = 0x45FA0000, es_gain_db = 0\<rparr>\<rparr>"

datatype dsp_thread_priority = Mmcss | TimeCritical

record audio_config =
  ac_game_mode :: bool
  ac_enabled :: bool
  ac_backend :: "string option"
  ac_device :: "string option"
  ac_device_id :: "string option"
  ac_sample_rate :: u32
  ac_buffer_size :: u32
  ac_render_ahead_blocks :: u32
  ac_dsp_thread_priority :: dsp_thread_priority
  ac_gain_db :: f32
  ac_limiter_enabled :: bool
  ac_vst_plugin_id :: "string option"
  ac_vst_path :: "string option"
  ac_vst_scan_paths :: "string list"
  ac_vst_eq_by_plugin :: "(string, vst_eq_settings) hash_map"

definition default_render_ahead_blocks :: u32 where "default_render_ahead_blocks = 1"

definition default_audio_config :: audio_config where
  "default_audio_config =
     \<lparr>ac_game_mode = True, ac_enabled = True, ac_backend = Some ''auto'', ac_device = None,
      ac_device_id = None, ac_sample_rate = 48000, ac_buffer_size = 512,
      ac_render_ahead_blocks = default_render_ahead_blocks, ac_dsp_thread_priority = Mmcss,
      ac_gain_db = 0, ac_limiter_enabled = False, ac_vst_plugin_id = None, ac_vst_path = None,
      ac_vst_scan_paths = [], ac_vst_eq_by_plugin = []\<rparr>"

record ui_config =
  uc_theme :: theme
  uc_theme_palette :: string
  uc_accent_color :: string
  uc_light_background :: string
  uc_dark_background :: string
  uc_corner_radius :: f32
  uc_auto_start :: bool
  uc_developer_mode :: bool

definition default_ui_config :: ui_config where
  "default_ui_config =
     \<lparr>uc_theme = Light, uc_theme_palette = ''light'', uc_accent_color = ''blue'',
      uc_light_background = ''default'', uc_dark_background = ''default'',
      uc_corner_radius = 0x41400000, uc_auto_start = False, uc_developer_mode = False\<rparr>"

record logging_config =
  lc_enabled :: bool
  lc_verbose :: bool
  lc_log_all_to_file :: bool

definition default_logging_config :: logging_config where
  "default_logging_config = \<lparr>lc_enabled = True, lc_verbose = False, lc_log_all_to_file = False\<rparr>"

record app_config =
  cfg_version :: u32
  cfg_midi :: midi_config
  cfg_osc :: osc_config
  cfg_rtp :: rtp_config
  cfg_audio :: audio_config
  cfg_ui :: ui_config
  cfg_logging :: logging_config

definition CURRENT_VERSION :: u32 where "CURRENT_VERSION = 4"

definition default_app_config :: app_config where
  "default_app_config =
     \<lparr>cfg_version = CURRENT_VERSION, cfg_midi = default_midi_config, cfg_osc = default_osc_config,
      cfg_rtp = default_rtp_config, cfg_audio = default_audio_config, cfg_ui = default_ui_config,
      cfg_logging = default_logging_config\<rparr>"

definition RTP_VIRTUAL_INPUT :: string where "RTP_VIRTUAL_INPUT = ''RTP-MIDI (Serveur)''"
definition VST_INTERNAL_OUTPUT :: string where "VST_INTERNAL_OUTPUT = ''VST (Interne)''"
definition VST_INTERNAL_OUTPUT_LEGACY :: string where
  "VST_INTERNAL_OUTPUT_LEGACY = ''VST (Keyzone interne)''"

section \<open>Equaliser settings\<close>

definition finite_clamp :: "f32 \<Rightarrow> f32 \<Rightarrow> f32 \<Rightarrow> f32 \<Rightarrow> f32" where
  "finite_clamp value fallback minimum maximum =
     (if f32_is_finite value then f32_clamp value minimum (f32_max maximum minimum)
      else f32_clamp fallback minimum (f32_max maximum minimum))"

definition nyquist_safe :: "u32 \<Rightarrow> f32" where
  "nyquist_safe sample_rate =
     f32_max (f32_mul_normal (f32_of_u32 (max sample_rate 1)) 0x3EE66666) 0x42200000"

definition eq_normalized :: "u32 \<Rightarrow> vst_eq_settings \<Rightarrow> vst_eq_settings" where
  "eq_normalized sample_rate s =
     (let nyquist = nyquist_safe sample_rate; low = ve_low_shelf s; mid = ve_mid_peak s;
          high = ve_high_shelf s
      in \<lparr>ve_enabled = ve_enabled s,
          ve_low_shelf =
            \<lparr>es_frequency_hz = finite_clamp (es_frequency_hz low) 0x42F00000 0x42200000
                (f32_min 0x43FA0000 nyquist),
             es_gain_db = finite_clamp (es_gain_db low) 0 0xC1900000 0x41900000\<rparr>,
          ve_mid_peak =
            \<lparr>ep_frequency_hz = finite_clamp (ep_frequency_hz mid) (f32_min 0x447A0000 nyquist)
                0x42C80000 (f32_min 0x461C4000 nyquist),
             ep_gain_db = finite_clamp (ep_gain_db mid) 0 0xC1900000 0x41900000,
             ep_q = finite_clamp (ep_q mid) 0x3F800000 0x3E4CCCCD 0x41200000\<rparr>,
          ve_high_shelf =
            \<lparr>es_frequency_hz = finite_clamp (es_frequency_hz high) (f32_min 0x45FA0000 nyquist)
                (f32_min 0x44FA0000 nyquist) (f32_min 0x467A0000 nyquist),
             es_gain_db = finite_clamp (es_gain_db high) 0 0xC1900000 0x41900000\<rparr>\<rparr>)"

text \<open>The derived \<open>PartialEq\<close> of equaliser settings compares floats, so \<open>-0.0 = 0.0\<close>.\<close>

definition eq_settings_eq :: "vst_eq_settings \<Rightarrow> vst_eq_settings \<Rightarrow> bool" where
  "eq_settings_eq a b \<longleftrightarrow> ve_enabled a = ve_enabled b
     \<and> f32_eq (es_frequency_hz (ve_low_shelf a)) (es_frequency_hz (ve_low_shelf b))
     \<and> f32_eq (es_gain_db (ve_low_shelf a)) (es_gain_db (ve_low_shelf b))
     \<and> f32_eq (ep_frequency_hz (ve_mid_peak a)) (ep_frequency_hz (ve_mid_peak b))
     \<and> f32_eq (ep_gain_db (ve_mid_peak a)) (ep_gain_db (ve_mid_peak b))
     \<and> f32_eq (ep_q (ve_mid_peak a)) (ep_q (ve_mid_peak b))
     \<and> f32_eq (es_frequency_hz (ve_high_shelf a)) (es_frequency_hz (ve_high_shelf b))
     \<and> f32_eq (es_gain_db (ve_high_shelf a)) (es_gain_db (ve_high_shelf b))"

section \<open>Validation and migration\<close>

text \<open>The error strings, by what they say.\<close>

datatype config_error =
    YamlError string
  | UnsupportedVersion u64
  | NotFinite
  | InvalidEq string
  | Unreadable string
  | InvalidPreserved config_error
  | BackupFailed string
  | WriteFailed string
  | MigrationNotPersisted config_error

definition validate :: "app_config \<Rightarrow> config_error + unit" where
  "validate cfg =
     (if cfg_version cfg \<noteq> CURRENT_VERSION then Inl (UnsupportedVersion (ucast (cfg_version cfg)))
      else if \<not> f32_is_finite (ac_gain_db (cfg_audio cfg))
              \<or> \<not> f32_is_finite (uc_corner_radius (cfg_ui cfg)) then Inl NotFinite
      else case find (\<lambda>(plugin, settings).
             \<not> eq_settings_eq settings (eq_normalized (ac_sample_rate (cfg_audio cfg)) settings))
             (ac_vst_eq_by_plugin (cfg_audio cfg)) of
           Some (plugin, _) \<Rightarrow> Inl (InvalidEq plugin)
         | None \<Rightarrow> Inr ())"

text \<open>
  The YAML library: parsing a text to a value, reading the \<open>version\<close> entry of a mapping,
  replacing it, decoding a value to a configuration and printing a configuration.
\<close>

record 'v yaml_library =
  yaml_from_str :: "string \<Rightarrow> string + 'v"
  yaml_version :: "'v \<Rightarrow> u64 option"
  yaml_insert_version :: "u32 \<Rightarrow> 'v \<Rightarrow> 'v"
  yaml_from_value :: "'v \<Rightarrow> string + app_config"
  yaml_to_string :: "app_config \<Rightarrow> string + string"

definition normalize_eqs :: "app_config \<Rightarrow> app_config" where
  "normalize_eqs cfg = cfg\<lparr>cfg_audio := (cfg_audio cfg)\<lparr>ac_vst_eq_by_plugin :=
     map (\<lambda>(plugin, settings). (plugin, eq_normalized (ac_sample_rate (cfg_audio cfg)) settings))
       (ac_vst_eq_by_plugin (cfg_audio cfg))\<rparr>\<rparr>"

definition parse_yaml :: "'v yaml_library \<Rightarrow> string \<Rightarrow> config_error + app_config" where
  "parse_yaml yaml raw =
     (case yaml_from_str yaml raw of
        Inl e \<Rightarrow> Inl (YamlError e)
      | Inr parsed \<Rightarrow>
          let version = (case yaml_version yaml parsed of None \<Rightarrow> 0 | Some v \<Rightarrow> v)
          in if version \<noteq> 2 \<and> version \<noteq> 3 \<and> version \<noteq> ucast CURRENT_VERSION
             then Inl (UnsupportedVersion version)
             else
               let migrated = (if version = 2 \<or> version = 3
                               then yaml_insert_version yaml CURRENT_VERSION parsed else parsed)
               in case yaml_from_value yaml migrated of
                    Inl e \<Rightarrow> Inl (YamlError e)
                  | Inr decoded \<Rightarrow>
                      let cfg = normalize_eqs decoded
                      in case validate cfg of Inl e \<Rightarrow> Inl e | Inr _ \<Rightarrow> Inr cfg)"

section \<open>The configuration store\<close>

text \<open>
  The disk: the bytes of the configuration file, if it exists, and the backup files beside it
  in the order they were made. \<open>io_faults\<close> lists what the operating system refuses during a
  call: reading the file (with an error other than \<open>NotFound\<close>), opening the backup, writing it,
  and the atomic replacement, which either happens entirely or leaves the file alone.
\<close>

record disk =
  disk_file :: "bytes option"
  disk_backups :: "(string \<times> bytes) list"

record io_faults =
  fault_read :: "string option"
  fault_open_backup :: "string option"
  fault_write_backup :: "string option"
  fault_replace :: "string option"

text \<open>
  The names tried for a backup: first the time stamp, then fresh UUIDs. The loop ends at the
  first that is not taken; \<open>None\<close> is a loop still running when the list of names is used up.
\<close>

fun free_backup_name :: "string list \<Rightarrow> disk \<Rightarrow> string option" where
  "free_backup_name [] disk = None"
| "free_backup_name (name # names) disk =
     (if name \<in> fst ` set (disk_backups disk) then free_backup_name names disk else Some name)"

definition backup_if_unreadable ::
  "'v yaml_library \<Rightarrow> io_faults \<Rightarrow> string list \<Rightarrow> disk \<Rightarrow> ((config_error + unit) \<times> disk) option" where
  "backup_if_unreadable yaml faults names disk =
     (case fault_read faults of
        Some e \<Rightarrow> Some (Inl (BackupFailed e), disk)
      | None \<Rightarrow>
          (case disk_file disk of
             None \<Rightarrow> Some (Inr (), disk)
           | Some raw \<Rightarrow>
               if (case from_utf8 raw of None \<Rightarrow> False | Some text \<Rightarrow> is_ok (parse_yaml yaml text))
               then Some (Inr (), disk)
               else
                 (case fault_open_backup faults of
                    Some e \<Rightarrow> Some (Inl (BackupFailed e), disk)
                  | None \<Rightarrow>
                      (case free_backup_name names disk of
                         None \<Rightarrow> None
                       | Some name \<Rightarrow>
                           (case fault_write_backup faults of
                              Some e \<Rightarrow> Some (Inl (BackupFailed e), disk)
                            | None \<Rightarrow>
                                Some (Inr (), disk\<lparr>disk_backups := disk_backups disk @ [(name, raw)]\<rparr>))))))"

definition save_locked ::
  "'v yaml_library \<Rightarrow> io_faults \<Rightarrow> string list \<Rightarrow> app_config \<Rightarrow> disk
     \<Rightarrow> ((config_error + unit) \<times> disk) option" where
  "save_locked yaml faults names cfg disk =
     (case validate cfg of
        Inl e \<Rightarrow> Some (Inl e, disk)
      | Inr _ \<Rightarrow>
          (case backup_if_unreadable yaml faults names disk of
             None \<Rightarrow> None
           | Some (Inl e, disk') \<Rightarrow> Some (Inl e, disk')
           | Some (Inr _, disk') \<Rightarrow>
               (case yaml_to_string yaml cfg of
                  Inl e \<Rightarrow> Some (Inl (YamlError e), disk')
                | Inr raw \<Rightarrow>
                    (case fault_replace faults of
                       Some e \<Rightarrow> Some (Inl (WriteFailed e), disk')
                     | None \<Rightarrow> Some (Inr (), disk'\<lparr>disk_file := Some (as_bytes raw)\<rparr>)))))"

text \<open>\<open>fs::read_to_string\<close> fails with \<open>InvalidData\<close> on text that is not UTF-8.\<close>

definition load_checked ::
  "'v yaml_library \<Rightarrow> io_faults \<Rightarrow> string list \<Rightarrow> disk
     \<Rightarrow> ((config_error + app_config) \<times> disk) option" where
  "load_checked yaml faults names disk =
     (case fault_read faults of
        Some e \<Rightarrow> Some (Inl (Unreadable e), disk)
      | None \<Rightarrow>
          (case disk_file disk of
             None \<Rightarrow>
               (case save_locked yaml faults names default_app_config disk of
                  None \<Rightarrow> None
                | Some (Inl e, disk') \<Rightarrow> Some (Inl e, disk')
                | Some (Inr _, disk') \<Rightarrow> Some (Inr default_app_config, disk'))
           | Some bytes \<Rightarrow>
               (case from_utf8 bytes of
                  None \<Rightarrow> Some (Inl (Unreadable ''stream did not contain valid UTF-8''), disk)
                | Some raw \<Rightarrow>
                    let raw_version =
                      (case yaml_from_str yaml raw of
                         Inl _ \<Rightarrow> 0
                       | Inr v \<Rightarrow> (case yaml_version yaml v of None \<Rightarrow> 0 | Some n \<Rightarrow> n))
                    in case parse_yaml yaml raw of
                         Inl e \<Rightarrow> Some (Inl (InvalidPreserved e), disk)
                       | Inr cfg \<Rightarrow>
                           if raw_version = 2 \<or> raw_version = 3 then
                             (case save_locked yaml faults names cfg disk of
                                None \<Rightarrow> None
                              | Some (Inl e, disk') \<Rightarrow> Some (Inl (MigrationNotPersisted e), disk')
                              | Some (Inr _, disk') \<Rightarrow> Some (Inr cfg, disk'))
                           else Some (Inr cfg, disk))))"

definition load_config ::
  "'v yaml_library \<Rightarrow> io_faults \<Rightarrow> string list \<Rightarrow> disk \<Rightarrow> (app_config \<times> disk) option" where
  "load_config yaml faults names disk =
     (case load_checked yaml faults names disk of
        None \<Rightarrow> None
      | Some (Inl _, disk') \<Rightarrow> Some (default_app_config, disk')
      | Some (Inr cfg, disk') \<Rightarrow> Some (cfg, disk'))"

definition reset_to_default ::
  "'v yaml_library \<Rightarrow> io_faults \<Rightarrow> string list \<Rightarrow> disk
     \<Rightarrow> ((config_error + app_config) \<times> disk) option" where
  "reset_to_default yaml faults names disk =
     (case save_locked yaml faults names default_app_config disk of
        None \<Rightarrow> None
      | Some (Inl e, disk') \<Rightarrow> Some (Inl e, disk')
      | Some (Inr _, disk') \<Rightarrow> Some (Inr default_app_config, disk'))"

definition ensure_exists ::
  "'v yaml_library \<Rightarrow> io_faults \<Rightarrow> string list \<Rightarrow> disk \<Rightarrow> disk option" where
  "ensure_exists yaml faults names disk =
     (if disk_file disk \<noteq> None then Some disk
      else case save_locked yaml faults names default_app_config disk of
             None \<Rightarrow> None
           | Some (_, disk') \<Rightarrow> Some disk')"

section \<open>Clamping\<close>

text \<open>The order keys of the constants the program clamps to.\<close>

lemma f32_key_consts [simp]:
  "f32_key 0 = 0" "f32_key 0xC1900000 = - 0x41900000"
  "f32_key 0x42F00000 = 0x42F00000"
  "f32_key 0x42200000 = 0x42200000"
  "f32_key 0x43FA0000 = 0x43FA0000"
  "f32_key 0x41900000 = 0x41900000"
  "f32_key 0x447A0000 = 0x447A0000"
  "f32_key 0x42C80000 = 0x42C80000"
  "f32_key 0x461C4000 = 0x461C4000"
  "f32_key 0x3F800000 = 0x3F800000"
  "f32_key 0x3E4CCCCD = 0x3E4CCCCD"
  "f32_key 0x41200000 = 0x41200000"
  "f32_key 0x45FA0000 = 0x45FA0000"
  "f32_key 0x44FA0000 = 0x44FA0000"
  "f32_key 0x467A0000 = 0x467A0000"
  "f32_key 0x41400000 = 0x41400000"
  by (simp_all add: f32_key_def)

lemma finite_not_nan: "f32_is_finite x \<Longrightarrow> \<not> f32_is_nan x"
  by (simp add: f32_is_finite_def f32_is_nan_def)

lemma finite_between:
  "f32_is_finite lo \<Longrightarrow> f32_is_finite hi \<Longrightarrow> f32_key lo \<le> f32_key x \<Longrightarrow> f32_key x \<le> f32_key hi
     \<Longrightarrow> f32_is_finite x"
  by (auto simp: f32_is_finite_def)

lemma f32_max_finite:
  "f32_is_finite x \<Longrightarrow> f32_is_finite y \<Longrightarrow>
     f32_is_finite (f32_max x y) \<and> f32_key y \<le> f32_key (f32_max x y)"
  by (auto simp: f32_max_def f32_lt_def finite_not_nan)

lemma f32_clamp_finite:
  assumes "f32_is_finite x" "f32_is_finite lo" "f32_is_finite hi" "f32_key lo \<le> f32_key hi"
  shows "f32_is_finite (f32_clamp x lo hi)"
    and "f32_key (f32_clamp x lo hi) = max (f32_key lo) (min (f32_key hi) (f32_key x))"
    and "f32_key lo \<le> f32_key x \<Longrightarrow> f32_key x \<le> f32_key hi \<Longrightarrow> f32_clamp x lo hi = x"
  using assms by (auto simp: f32_clamp_def f32_lt_def finite_not_nan Let_def)

lemma finite_clamp_range:
  assumes "f32_is_finite d" "f32_is_finite lo" "f32_is_finite hi"
  shows "f32_is_finite (finite_clamp x d lo hi)"
    and "f32_key lo \<le> f32_key (finite_clamp x d lo hi)"
    and "f32_key (finite_clamp x d lo hi) \<le> max (f32_key lo) (f32_key hi)"
    and "finite_clamp (finite_clamp x d lo hi) d lo hi = finite_clamp x d lo hi"
proof -
  let ?hi = "f32_max hi lo"
  have hi: "f32_is_finite ?hi" "f32_key lo \<le> f32_key ?hi"
    using f32_max_finite [OF assms(3,2)] by auto
  have key_hi: "f32_key ?hi = max (f32_key lo) (f32_key hi)"
    using assms by (auto simp: f32_max_def f32_lt_def finite_not_nan)
  note c = f32_clamp_finite [OF _ assms(2) hi]
  show fin: "f32_is_finite (finite_clamp x d lo hi)"
    using c(1) assms by (simp add: finite_clamp_def)
  show lo: "f32_key lo \<le> f32_key (finite_clamp x d lo hi)"
    using c(2) assms by (simp add: finite_clamp_def)
  show up: "f32_key (finite_clamp x d lo hi) \<le> max (f32_key lo) (f32_key hi)"
    using c(2) assms key_hi by (simp add: finite_clamp_def)
  show "finite_clamp (finite_clamp x d lo hi) d lo hi = finite_clamp x d lo hi"
    using c(3) [OF fin lo] up fin key_hi by (simp add: finite_clamp_def [of "finite_clamp x d lo hi"])
qed

text \<open>A value already in range is kept, and only such a value compares equal to its clamp.\<close>

lemma finite_clamp_eq:
  assumes "f32_is_finite d" "f32_is_finite lo" "f32_is_finite hi" "f32_eq x (finite_clamp x d lo hi)"
  shows "finite_clamp x d lo hi = x"
proof (cases "f32_is_finite x")
  case True
  have "f32_key x = f32_key (finite_clamp x d lo hi)" using assms(4) by (simp add: f32_eq_def)
  with finite_clamp_range(2,3) [OF assms(1-3), of x]
  have "f32_key lo \<le> f32_key x" "f32_key x \<le> f32_key (f32_max hi lo)"
    using assms by (auto simp: f32_max_def f32_lt_def finite_not_nan)
  then show ?thesis
    using True f32_clamp_finite(3) [OF True assms(2)] f32_max_finite [OF assms(3,2)]
    by (simp add: finite_clamp_def)
next
  case False
  then show ?thesis
    using assms(4) finite_clamp_range(1) [OF assms(1-3), of x]
    by (auto simp: f32_eq_def f32_is_finite_def)
qed

lemma nyquist_min:
  "f32_is_finite (f32_min c (nyquist_safe sr))" "0x42200000 \<le> f32_key (f32_min c (nyquist_safe sr))"
  "f32_key (f32_min c (nyquist_safe sr)) \<le> f32_key c"
  if "f32_is_finite c" "0x42200000 \<le> f32_key c" for c
proof -
  have k: "f32_key 0x42200000 = 0x42200000" by simp
  then have "0x42200000 \<le> f32_key (nyquist_safe sr)"
    by (auto simp: nyquist_safe_def f32_max_def f32_lt_def f32_is_nan_def)
  then show "0x42200000 \<le> f32_key (f32_min c (nyquist_safe sr))"
    "f32_key (f32_min c (nyquist_safe sr)) \<le> f32_key c"
    using that by (auto simp: f32_min_def f32_lt_def finite_not_nan)
  then show "f32_is_finite (f32_min c (nyquist_safe sr))"
    using that by (auto simp: f32_is_finite_def)
qed

lemma finite_clamp_between:
  assumes "f32_is_finite d" "f32_is_finite lo" "f32_is_finite hi"
    and "A \<le> f32_key lo" "f32_key lo \<le> B" "f32_key hi \<le> B"
  shows "A \<le> f32_key (finite_clamp x d lo hi) \<and> f32_key (finite_clamp x d lo hi) \<le> B"
  using finite_clamp_range(2,3) [OF assms(1-3), of x] assms(4-6) by (auto simp: max_def split: if_splits)

text \<open>The bounds of every equaliser parameter are finite.\<close>

lemma eq_bounds_finite [simp]:
  "f32_is_finite 0" "f32_is_finite 0xC1900000" "f32_is_finite 0x41900000" "f32_is_finite 0x42F00000"
  "f32_is_finite 0x42200000" "f32_is_finite 0x42C80000" "f32_is_finite 0x3F800000"
  "f32_is_finite 0x3E4CCCCD" "f32_is_finite 0x41200000" "f32_is_finite 0x41400000"
  "f32_is_finite (f32_min 0x43FA0000 (nyquist_safe sr))"
  "f32_is_finite (f32_min 0x447A0000 (nyquist_safe sr))"
  "f32_is_finite (f32_min 0x461C4000 (nyquist_safe sr))"
  "f32_is_finite (f32_min 0x45FA0000 (nyquist_safe sr))"
  "f32_is_finite (f32_min 0x44FA0000 (nyquist_safe sr))"
  "f32_is_finite (f32_min 0x467A0000 (nyquist_safe sr))"
proof -
  have fin: "f32_is_finite c \<and> 0x42200000 \<le> f32_key c"
    if "c \<in> {0x43FA0000, 0x447A0000, 0x461C4000, 0x45FA0000, 0x44FA0000, 0x467A0000}" for c
    using that by (auto simp: f32_is_finite_def)
  show "f32_is_finite (f32_min 0x43FA0000 (nyquist_safe sr))"
    "f32_is_finite (f32_min 0x447A0000 (nyquist_safe sr))"
    "f32_is_finite (f32_min 0x461C4000 (nyquist_safe sr))"
    "f32_is_finite (f32_min 0x45FA0000 (nyquist_safe sr))"
    "f32_is_finite (f32_min 0x44FA0000 (nyquist_safe sr))"
    "f32_is_finite (f32_min 0x467A0000 (nyquist_safe sr))"
    by (rule nyquist_min(1); use fin in simp)+
qed (simp_all add: f32_is_finite_def)

lemma f32_eq_refl: "f32_is_finite x \<Longrightarrow> f32_eq x x"
  by (simp add: f32_eq_def finite_not_nan)

lemma eq_normalized_idem: "eq_normalized sr (eq_normalized sr s) = eq_normalized sr s"
  by (simp add: eq_normalized_def Let_def finite_clamp_range(4))

lemma eq_normalized_finite: "eq_settings_eq (eq_normalized sr s) (eq_normalized sr s)"
  by (simp add: eq_settings_eq_def eq_normalized_def Let_def finite_clamp_range(1) f32_eq_refl)

lemma eq_normalized_fixed:
  assumes "eq_settings_eq s (eq_normalized sr s)"
  shows "eq_normalized sr s = s"
proof -
  obtain e l m h where s: "s = \<lparr>ve_enabled = e, ve_low_shelf = l, ve_mid_peak = m, ve_high_shelf = h\<rparr>"
    by (cases s)
  show ?thesis
    using assms unfolding eq_settings_eq_def eq_normalized_def Let_def s
    by (simp add: finite_clamp_eq)
qed

lemma find_None_map: "find P (map f xs) = None \<longleftrightarrow> (\<forall>x \<in> set xs. \<not> P (f x))"
  by (auto simp: find_None_iff)

lemma validate_normalized:
  "validate (normalize_eqs cfg) \<noteq> Inl (InvalidEq plugin)"
  "validate (normalize_eqs cfg) = Inr () \<longleftrightarrow>
     cfg_version cfg = CURRENT_VERSION \<and> f32_is_finite (ac_gain_db (cfg_audio cfg))
     \<and> f32_is_finite (uc_corner_radius (cfg_ui cfg))"
proof -
  have "find (\<lambda>(plugin, settings). \<not> eq_settings_eq settings
      (eq_normalized (ac_sample_rate (cfg_audio (normalize_eqs cfg))) settings))
      (ac_vst_eq_by_plugin (cfg_audio (normalize_eqs cfg))) = None"
    by (auto simp: normalize_eqs_def find_None_map eq_normalized_idem eq_normalized_finite)
  moreover have "cfg_version (normalize_eqs cfg) = cfg_version cfg" "cfg_ui (normalize_eqs cfg) = cfg_ui cfg"
    "ac_gain_db (cfg_audio (normalize_eqs cfg)) = ac_gain_db (cfg_audio cfg)"
    by (simp_all add: normalize_eqs_def)
  ultimately show "validate (normalize_eqs cfg) \<noteq> Inl (InvalidEq plugin)"
    "validate (normalize_eqs cfg) = Inr () \<longleftrightarrow>
     cfg_version cfg = CURRENT_VERSION \<and> f32_is_finite (ac_gain_db (cfg_audio cfg))
     \<and> f32_is_finite (uc_corner_radius (cfg_ui cfg))"
    by (simp_all add: validate_def)
qed

lemma validate_fixed: "validate cfg = Inr () \<Longrightarrow> normalize_eqs cfg = cfg"
proof -
  assume "validate cfg = Inr ()"
  then have "\<forall>(plugin, settings) \<in> set (ac_vst_eq_by_plugin (cfg_audio cfg)).
      eq_settings_eq settings (eq_normalized (ac_sample_rate (cfg_audio cfg)) settings)"
    by (auto simp: validate_def find_None_iff split: if_splits option.splits)
  then have "map (\<lambda>(plugin, settings). (plugin, eq_normalized (ac_sample_rate (cfg_audio cfg)) settings))
      (ac_vst_eq_by_plugin (cfg_audio cfg)) = ac_vst_eq_by_plugin (cfg_audio cfg)"
    by (intro map_idI) (auto dest: eq_normalized_fixed)
  then show ?thesis by (simp add: normalize_eqs_def)
qed

text \<open>
  Normalising equaliser settings always gives admissible ones. For every sample rate and
  every bit pattern of the seven values (NaNs and infinities included) the result is
  finite and between the limits the program states, a second normalisation changes
  nothing, and validation accepts it.
\<close>

theorem eq_normalized_admissible:
  "eq_normalized sr (eq_normalized sr s) = eq_normalized sr s
   \<and> eq_settings_eq (eq_normalized sr s) (eq_normalized sr (eq_normalized sr s))
   \<and> f32_key (es_frequency_hz (ve_low_shelf (eq_normalized sr s))) \<in> {f32_key 0x42200000..f32_key 0x43FA0000}
   \<and> f32_key (ep_frequency_hz (ve_mid_peak (eq_normalized sr s))) \<in> {f32_key 0x42C80000..f32_key 0x461C4000}
   \<and> f32_key (es_frequency_hz (ve_high_shelf (eq_normalized sr s))) \<in> {f32_key 0x42200000..f32_key 0x467A0000}
   \<and> f32_key (ep_q (ve_mid_peak (eq_normalized sr s))) \<in> {f32_key 0x3E4CCCCD..f32_key 0x41200000}
   \<and> f32_key (es_gain_db (ve_low_shelf (eq_normalized sr s))) \<in> {f32_key 0xC1900000..f32_key 0x41900000}
   \<and> f32_key (ep_gain_db (ve_mid_peak (eq_normalized sr s))) \<in> {f32_key 0xC1900000..f32_key 0x41900000}
   \<and> f32_key (es_gain_db (ve_high_shelf (eq_normalized sr s))) \<in> {f32_key 0xC1900000..f32_key 0x41900000}"
proof -
  have hi: "f32_key (f32_min c (nyquist_safe sr)) \<le> f32_key c"
    if "c \<in> {0x43FA0000, 0x461C4000, 0x467A0000, 0x44FA0000}" for c
    using that nyquist_min(3) [of c sr] by (auto simp: f32_is_finite_def)
  have lo: "0x42200000 \<le> f32_key (f32_min 0x44FA0000 (nyquist_safe sr))"
    by (rule nyquist_min(2)) (simp_all add: f32_is_finite_def)
  note bounds = hi [of "0x43FA0000", simplified] hi [of "0x461C4000", simplified]
    hi [of "0x467A0000", simplified] hi [of "0x44FA0000", simplified] lo
  have "f32_key (es_frequency_hz (ve_low_shelf (eq_normalized sr s))) \<in> {0x42200000..0x43FA0000}"
    "f32_key (ep_frequency_hz (ve_mid_peak (eq_normalized sr s))) \<in> {0x42C80000..0x461C4000}"
    "f32_key (es_frequency_hz (ve_high_shelf (eq_normalized sr s))) \<in> {0x42200000..0x467A0000}"
    "f32_key (ep_q (ve_mid_peak (eq_normalized sr s))) \<in> {0x3E4CCCCD..0x41200000}"
    "f32_key (es_gain_db (ve_low_shelf (eq_normalized sr s))) \<in> {-0x41900000..0x41900000}"
    "f32_key (ep_gain_db (ve_mid_peak (eq_normalized sr s))) \<in> {-0x41900000..0x41900000}"
    "f32_key (es_gain_db (ve_high_shelf (eq_normalized sr s))) \<in> {-0x41900000..0x41900000}"
    unfolding eq_normalized_def Let_def vst_eq_settings.simps eq_shelf_settings.simps
      eq_peak_settings.simps atLeastAtMost_iff
    by (rule finite_clamp_between; use bounds in simp)+
  then show ?thesis by (simp add: eq_normalized_idem eq_normalized_finite)
qed

section \<open>What the store promises\<close>

text \<open>One operation of the store, under any faults and with any names for a backup.\<close>

inductive store_step :: "'v yaml_library \<Rightarrow> disk \<Rightarrow> disk \<Rightarrow> bool" for yaml where
  save: "save_locked yaml faults names cfg disk = Some (r, disk') \<Longrightarrow> store_step yaml disk disk'"
| load: "load_config yaml faults names disk = Some (cfg, disk') \<Longrightarrow> store_step yaml disk disk'"
| reset: "reset_to_default yaml faults names disk = Some (r, disk') \<Longrightarrow> store_step yaml disk disk'"
| exists: "ensure_exists yaml faults names disk = Some disk' \<Longrightarrow> store_step yaml disk disk'"

definition readable :: "'v yaml_library \<Rightarrow> bytes \<Rightarrow> bool" where
  "readable yaml raw =
     (case from_utf8 raw of None \<Rightarrow> False | Some text \<Rightarrow> is_ok (parse_yaml yaml text))"

definition kept :: "bytes \<Rightarrow> disk \<Rightarrow> bool" where
  "kept raw disk \<longleftrightarrow> disk_file disk = Some raw \<or> raw \<in> snd ` set (disk_backups disk)"

lemma free_backup_name_fresh:
  "free_backup_name names disk = Some name \<Longrightarrow> name \<notin> fst ` set (disk_backups disk)"
  by (induction names) (auto split: if_splits)

lemma backup_facts:
  assumes "backup_if_unreadable yaml faults names disk = Some (r, disk')"
  shows "disk_file disk' = disk_file disk \<and> set (disk_backups disk) \<subseteq> set (disk_backups disk')
    \<and> (distinct (map fst (disk_backups disk)) \<longrightarrow> distinct (map fst (disk_backups disk')))
    \<and> (r = Inr () \<and> disk_file disk = Some raw \<longrightarrow> readable yaml raw \<or> raw \<in> snd ` set (disk_backups disk'))"
  using assms
  by (auto simp: backup_if_unreadable_def readable_def image_iff
      dest!: free_backup_name_fresh split: option.splits if_splits)

lemma save_facts:
  assumes "save_locked yaml faults names cfg disk = Some (r, disk')"
  shows "(r \<noteq> Inr () \<longrightarrow> disk_file disk' = disk_file disk)
    \<and> set (disk_backups disk) \<subseteq> set (disk_backups disk')
    \<and> (distinct (map fst (disk_backups disk)) \<longrightarrow> distinct (map fst (disk_backups disk')))
    \<and> (disk_file disk = Some raw \<longrightarrow> readable yaml raw \<or> kept raw disk')"
proof (cases "backup_if_unreadable yaml faults names disk")
  case None
  with assms show ?thesis by (auto simp: save_locked_def kept_def split: sum.splits)
next
  case (Some b)
  obtain br bd where b: "backup_if_unreadable yaml faults names disk = Some (br, bd)"
    using Some by (cases b) auto
  show ?thesis
    using assms b backup_facts [OF b, of raw]
    by (auto simp: save_locked_def kept_def split: sum.splits option.splits)
qed

lemma load_facts:
  assumes "load_checked yaml faults names disk = Some (r, disk')"
  shows "disk' = disk \<or> (\<exists>cfg sr. save_locked yaml faults names cfg disk = Some (sr, disk'))"
  using assms
  by (auto simp: load_checked_def Let_def split: option.splits sum.splits if_splits)

lemma store_step_saves:
  assumes "store_step yaml disk disk'"
  shows "disk' = disk \<or> (\<exists>faults names cfg r. save_locked yaml faults names cfg disk = Some (r, disk'))"
  using assms
proof cases
  case (load faults names cfg)
  then obtain r where "load_checked yaml faults names disk = Some (r, disk')"
    by (auto simp: load_config_def split: option.splits sum.splits)
  from load_facts [OF this] show ?thesis by blast
next
  case (reset faults names r)
  then show ?thesis by (auto simp: reset_to_default_def split: option.splits sum.splits)
next
  case (exists faults names)
  then show ?thesis by (auto simp: ensure_exists_def split: option.splits sum.splits if_splits)
qed blast

lemma store_step_keeps:
  assumes "store_step yaml disk disk'" "\<not> readable yaml raw" "kept raw disk"
  shows "kept raw disk'"
  using store_step_saves [OF assms(1)] save_facts [of yaml _ _ _ disk _ disk' raw] assms(2,3)
  unfolding kept_def by blast

text \<open>
  C39: the store never destroys a configuration it could not read. Through any number of loads,
  saves, resets and initialisations, under any read, backup or write failure, the bytes of
  a file that is not a valid configuration stay in the file or in a backup.
\<close>

theorem unreadable_configuration_kept:
  assumes "(store_step yaml)\<^sup>*\<^sup>* disk disk'" "disk_file disk = Some raw" "\<not> readable yaml raw"
  shows "disk_file disk' = Some raw \<or> raw \<in> snd ` set (disk_backups disk')"
proof -
  from assms(1) have "kept raw disk'"
  proof induction
    case base
    show ?case using assms(2) by (simp add: kept_def)
  next
    case (step y z)
    then show ?case using store_step_keeps assms(3) by blast
  qed
  then show ?thesis by (simp add: kept_def)
qed

definition no_faults :: io_faults where
  "no_faults = \<lparr>fault_read = None, fault_open_backup = None, fault_write_backup = None, fault_replace = None\<rparr>"

text \<open>A library that knows one text, the default configuration's, to apply the theorems to.\<close>

definition sample_yaml :: "unit yaml_library" where
  "sample_yaml =
     \<lparr>yaml_from_str = (\<lambda>s. if s = ''default'' then Inr () else Inl ''syntax''),
      yaml_version = (\<lambda>_. Some 4), yaml_insert_version = (\<lambda>_ v. v),
      yaml_from_value = (\<lambda>_. Inr default_app_config),
      yaml_to_string = (\<lambda>cfg. if cfg = default_app_config then Inr ''default'' else Inl ''unknown'')\<rparr>"

lemma validate_default: "validate default_app_config = Inr ()"
  by (simp add: validate_def default_app_config_def default_audio_config_def default_ui_config_def)

theorem unreadable_configuration_kept_witness:
  "let disk = \<lparr>disk_file = Some [0xFF], disk_backups = []\<rparr>;
       (r, disk') = the (save_locked sample_yaml no_faults [''yaml.invalid-1''] default_app_config disk)
   in r = Inr () \<and> [0xFF] \<in> snd ` set (disk_backups disk')"
proof -
  let ?disk = "\<lparr>disk_file = Some [0xFF], disk_backups = []\<rparr>"
  have unread: "\<not> readable sample_yaml [0xFF]" by (simp add: readable_def from_utf8_def)
  have saved: "save_locked sample_yaml no_faults [''yaml.invalid-1''] default_app_config ?disk =
      Some (Inr (), \<lparr>disk_file = Some (as_bytes ''default''), disk_backups = [(''yaml.invalid-1'', [0xFF])]\<rparr>)"
    by (simp add: save_locked_def validate_default backup_if_unreadable_def no_faults_def
        from_utf8_def sample_yaml_def)
  then have "(store_step sample_yaml)\<^sup>*\<^sup>* ?disk
      \<lparr>disk_file = Some (as_bytes ''default''), disk_backups = [(''yaml.invalid-1'', [0xFF])]\<rparr>"
    by (intro r_into_rtranclp store_step.save)
  from unreadable_configuration_kept [OF this _ unread]
  show ?thesis using saved by (simp add: as_bytes_def)
qed

lemma parse_yaml_normal:
  assumes "from_utf8 bytes = Some raw" "yaml_from_str yaml raw = Inr v"
    "yaml_version yaml v = Some (ucast (cfg_version cfg))" "yaml_from_value yaml v = Inr cfg"
    "validate cfg = Inr ()"
  shows "parse_yaml yaml raw = Inr cfg"
proof -
  have "cfg_version cfg = CURRENT_VERSION"
    using assms(5) by (simp add: validate_def split: if_splits)
  then show ?thesis
    using assms validate_fixed [OF assms(5)] by (simp add: parse_yaml_def Let_def CURRENT_VERSION_def)
qed

text \<open>
  What \<open>ConfigStore::save\<close> stored, \<open>load\<close> returns, unchanged and without rewriting the
  file, provided the YAML library reads back what it printed. In particular no validated
  configuration is altered by the equaliser normalisation of the parser.
\<close>

theorem save_then_load:
  assumes yaml: "\<And>cfg raw. validate cfg = Inr () \<Longrightarrow> yaml_to_string yaml cfg = Inr raw \<Longrightarrow>
      utf8_valid (as_bytes raw) \<and> (\<exists>v. yaml_from_str yaml raw = Inr v
        \<and> yaml_version yaml v = Some (ucast (cfg_version cfg)) \<and> yaml_from_value yaml v = Inr cfg)"
    and saved: "save_locked yaml faults names cfg disk = Some (Inr (), disk')"
    and read: "fault_read faults' = None"
  shows "load_checked yaml faults' names' disk' = Some (Inr cfg, disk')"
proof -
  from saved obtain raw where valid: "validate cfg = Inr ()"
    and raw: "yaml_to_string yaml cfg = Inr raw" and stored: "disk_file disk' = Some (as_bytes raw)"
    by (auto simp: save_locked_def split: option.splits sum.splits)
  from yaml [OF valid raw] obtain v where utf8: "from_utf8 (as_bytes raw) = Some raw"
    and v: "yaml_from_str yaml raw = Inr v" "yaml_version yaml v = Some (ucast (cfg_version cfg))"
      "yaml_from_value yaml v = Inr cfg"
    by (auto simp: from_utf8_def)
  have "cfg_version cfg = 4"
    using valid by (simp add: validate_def CURRENT_VERSION_def split: if_splits)
  then show ?thesis
    using stored utf8 v read parse_yaml_normal [OF utf8 v valid]
    by (simp add: load_checked_def Let_def)
qed

theorem save_then_load_witness:
  "load_checked sample_yaml no_faults []
     (snd (the (save_locked sample_yaml no_faults [] default_app_config
        \<lparr>disk_file = None, disk_backups = []\<rparr>)))
   = Some (Inr default_app_config, \<lparr>disk_file = Some (as_bytes ''default''), disk_backups = []\<rparr>)"
proof -
  have saved: "save_locked sample_yaml no_faults [] default_app_config \<lparr>disk_file = None, disk_backups = []\<rparr>
      = Some (Inr (), \<lparr>disk_file = Some (as_bytes ''default''), disk_backups = []\<rparr>)"
    by (simp add: save_locked_def validate_default backup_if_unreadable_def no_faults_def sample_yaml_def)
  have "utf8_valid (as_bytes ''default'')" by (simp add: as_bytes_def)
  then have yaml: "\<And>cfg raw. validate cfg = Inr () \<Longrightarrow> yaml_to_string sample_yaml cfg = Inr raw \<Longrightarrow>
      utf8_valid (as_bytes raw) \<and> (\<exists>v. yaml_from_str sample_yaml raw = Inr v
        \<and> yaml_version sample_yaml v = Some (ucast (cfg_version cfg))
        \<and> yaml_from_value sample_yaml v = Inr cfg)"
    by (auto simp: sample_yaml_def default_app_config_def CURRENT_VERSION_def split: if_splits)
  have read: "fault_read no_faults = None" by (simp add: no_faults_def)
  from save_then_load [OF yaml saved read, of "[]"] saved show ?thesis by simp
qed

end
