(* ===== verification/Wire_Protocol.thy ===== *)
theory Wire_Protocol
  imports Settings Midi_Message
begin

text \<open>
  The protocol between the application and its VST worker process (\<open>vst_worker/protocol.rs\<close>):
  the performance-counter arithmetic, the fixed 28-byte MIDI frames of the realtime pipe and the
  length-prefixed JSON frames of the control pipe. A pipe's read end is the bytes still to
  come, followed by end of file; a write end is a parameter, with its possible errors. JSON
  printing and parsing is a parameter too.
\<close>

section \<open>Performance counter\<close>

text \<open>
  \<open>counter\<close> is the answer of \<open>QueryPerformanceCounter\<close> (\<open>None\<close> when it fails),
  \<open>fallback_ns\<close> the nanoseconds since the fallback epoch. The frequency is read once, and is at
  least one.
\<close>

definition fallback_monotonic_ticks :: "u128 \<Rightarrow> u64" where
  "fallback_monotonic_ticks fallback_ns = ucast (min fallback_ns (ucast (- 1 :: u64)))"

definition monotonic_qpc :: "u64 option \<Rightarrow> u128 \<Rightarrow> u64" where
  "monotonic_qpc counter fallback_ns =
     (case counter of
        Some value \<Rightarrow> if sint value < 0 then 0 else value
      | None \<Rightarrow> fallback_monotonic_ticks fallback_ns)"

definition qpc_frequency :: "u64 option \<Rightarrow> u64" where
  "qpc_frequency frequency =
     (case frequency of
        Some value \<Rightarrow> if sint value < 1 then 1 else value
      | None \<Rightarrow> 1000000000)"

definition qpc_at :: "u64 \<Rightarrow> u64 \<Rightarrow> u128 \<Rightarrow> u64" where
  "qpc_at frequency now elapsed =
     saturating_sub now
       (ucast (min ((elapsed * ucast frequency) div 1000000000) (ucast (- 1 :: u64))))"

definition qpc_elapsed_us :: "u64 \<Rightarrow> u64 \<Rightarrow> u64 \<Rightarrow> u64" where
  "qpc_elapsed_us frequency earlier later =
     (let ticks = ucast (saturating_sub later earlier) :: u128
      in ucast (min ((ticks * 1000000) div ucast frequency) (ucast (- 1 :: u64))))"

section \<open>MIDI frames\<close>

definition CONTROL_PROTOCOL_VERSION :: u32 where "CONTROL_PROTOCOL_VERSION = 9"
definition MAX_CONTROL_FRAME_BYTES :: nat where "MAX_CONTROL_FRAME_BYTES = 8 * 1024 * 1024"
definition MAX_MIDI_BYTES :: nat where "MAX_MIDI_BYTES = 3"
definition MIDI_FRAME_BYTES :: nat where "MIDI_FRAME_BYTES = 8 + 8 + 8 + 1 + MAX_MIDI_BYTES"

datatype io_error_kind = InvalidData | InvalidInput | UnexpectedEof | OtherError

datatype io_error = IoError (error_kind: io_error_kind) string

record midi_wire_frame =
  wf_generation :: u64
  wf_pipe_qpc :: u64
  wf_sequence :: u64
  wf_monotonic_qpc :: u64
  wf_len :: u8
  wf_data :: bytes

text \<open>\<open>normalize_message (&mut data[..len])\<close> on a longer array.\<close>

definition normalize_prefix :: "nat \<Rightarrow> bytes \<Rightarrow> bool \<times> bytes" where
  "normalize_prefix len data =
     (let (ok, front) = normalize_message (take len data) in (ok, front @ drop len data))"

definition wire_new :: "u64 \<Rightarrow> u64 \<Rightarrow> bytes \<Rightarrow> midi_wire_frame option" where
  "wire_new sequence qpc bytes =
     (if bytes = [] \<or> length bytes > MAX_MIDI_BYTES then None
      else
        let data = bytes @ replicate (MAX_MIDI_BYTES - length bytes) 0;
            (ok, data') = normalize_prefix (length bytes) data
        in if data ! 0 = 0xF0 \<or> \<not> ok then None
           else Some \<lparr>wf_generation = 0, wf_pipe_qpc = 0, wf_sequence = sequence,
                      wf_monotonic_qpc = qpc, wf_len = of_nat (length bytes),
                      wf_data = data'\<rparr>)"

definition wire_bytes :: "midi_wire_frame \<Rightarrow> bytes" where
  "wire_bytes frame = take (unat (wf_len frame)) (wf_data frame)"

definition encode :: "midi_wire_frame \<Rightarrow> bytes" where
  "encode frame =
     to_le_bytes 8 (wf_sequence frame) @ to_le_bytes 8 (wf_monotonic_qpc frame)
     @ to_le_bytes 8 (wf_pipe_qpc frame) @ [wf_len frame] @ wf_data frame"

definition decode :: "bytes \<Rightarrow> io_error + midi_wire_frame" where
  "decode encoded =
     (let len = encoded ! 24
      in if len = 0 \<or> unat len > MAX_MIDI_BYTES
         then Inl (IoError InvalidData ''invalid MIDI frame length'')
         else
           let sequence = take 8 encoded;
               qpc = take 8 (drop 8 encoded);
               data = take 3 (drop 25 encoded);
               (ok, data') = normalize_prefix (unat len) data
           in if data ! 0 = 0xF0 \<or> (\<exists>byte \<in> set (drop (unat len) data). byte \<noteq> 0) \<or> \<not> ok
              then Inl (IoError InvalidData ''invalid MIDI frame contents'')
              else Inr \<lparr>wf_generation = 0,
                        wf_pipe_qpc = from_le_bytes (take 8 (drop 16 encoded)),
                        wf_sequence = from_le_bytes sequence,
                        wf_monotonic_qpc = from_le_bytes qpc, wf_len = len, wf_data = data'\<rparr>)"

section \<open>Control messages\<close>

record audio_settings =
  as_game_mode :: bool
  as_enabled :: bool
  as_backend :: "string option"
  as_device :: "string option"
  as_device_id :: "string option"
  as_sample_rate :: u32
  as_buffer_size :: u32
  as_render_ahead_blocks :: u32
  as_dsp_thread_priority :: dsp_thread_priority
  as_gain_db :: f32
  as_limiter_enabled :: bool
  as_vst_eq :: vst_eq_settings
  as_vst_plugin_id :: "string option"
  as_vst_path :: "string option"

definition default_audio_settings :: audio_settings where
  "default_audio_settings =
     \<lparr>as_game_mode = True, as_enabled = True, as_backend = Some ''auto'', as_device = None,
      as_device_id = None, as_sample_rate = 48000, as_buffer_size = 512,
      as_render_ahead_blocks = default_render_ahead_blocks, as_dsp_thread_priority = Mmcss,
      as_gain_db = 0, as_limiter_enabled = False, as_vst_eq = default_vst_eq_settings,
      as_vst_plugin_id = None, as_vst_path = None\<rparr>"

record vst_parameter =
  vp_index :: u64
  vp_id :: u32
  vp_flags :: u32
  vp_step_count :: i32
  vp_unit_id :: i32
  vp_name :: string
  vp_min :: f32
  vp_max :: f32
  vp_default :: f32
  vp_unit :: string
  vp_value :: f32

record thread_diagnostics =
  td_name :: string
  td_mmcss_profile :: string
  td_high_priority :: bool
  td_fallback_applied :: bool

record worker_audio_status =
  was_backend :: string
  was_device :: string
  was_device_id :: "string option"
  was_sample_rate :: u32
  was_requested_buffer_size :: u32
  was_stream_buffer_size :: u32
  was_plugin_latency_samples :: u32
  was_bridge_latency_samples :: u32
  was_hosting_mode :: string
  was_vst_midi_compatible :: bool
  was_limiter_enabled :: bool
  was_mmcss_enabled :: bool
  was_power_throttling_disabled :: bool
  was_class_uid :: "string option"

record worker_metrics =
  wm_render_ahead_samples :: u32
  wm_render_queue_frames :: u64
  wm_render_underflows :: u64
  wm_render_missing_frames :: u64
  wm_render_reset_silence_frames :: u64
  wm_render_block_max_us :: u32
  wm_render_over_budget :: u64
  wm_callback_gap_count :: u64
  wm_limiter_enabled :: "bool option"
  wm_midi_transport_failed :: bool
  wm_pipe_wait_max_us :: u64
  wm_audio_wait_max_us :: u64
  wm_midi_io_threads :: "thread_diagnostics list"
  wm_midi_delivery_max_us :: u64
  wm_midi_delivery_p99_us :: u64
  wm_callback_count :: u64
  wm_callback_interval_max_us :: u64
  wm_audio_mmcss_owned :: "bool option"
  wm_audio_mmcss_critical :: "bool option"
  wm_game_mode :: bool
  wm_maintenance :: bool
  wm_deferred_save :: bool
  wm_deferred_editor :: "bool option"
  wm_editor_open :: bool
  wm_audio_peak_l :: f32
  wm_audio_peak_r :: f32
  wm_audio_xruns :: u32
  wm_stream_recovery_requests :: u32
  wm_stream_route_changes :: u32
  wm_backend_latency_us :: u64
  wm_audio_midi_drops :: u32
  wm_audio_lock_misses :: u32
  wm_audio_emergency_resets :: u32
  wm_callback_last_us :: u32
  wm_callback_max_us :: u32
  wm_callback_over_budget_count :: u32
  wm_consecutive_deadline_misses :: u32
  wm_dsp_process_last_us :: u32
  wm_dsp_process_p95_us :: u32
  wm_dsp_process_p99_us :: u32
  wm_dsp_process_max_us :: u32
  wm_midi_queue_depth :: u32
  wm_midi_queue_max_depth :: u32
  wm_midi_oldest_us :: u64
  wm_x86_bridge_underruns :: u32
  wm_x86_bridge_overruns :: u32
  wm_x86_worker_alive :: bool

datatype control_message =
    Hello (protocol_version: u32) (host_abi_version: u32) (session_id: string) (token: string)
      (worker_pid: u32)
  | Load u64 audio_settings "string option" u32
  | OpenEditor u64
  | CloseEditor u64
  | ListParameters u64
  | SetParameter u64 u64 f32
  | SetGain u64 f32
  | SetLimiter u64 bool
  | SetEq u64 vst_eq_settings
  | SetGameMode u64 bool
  | SaveState u64
  | Panic u64
  | Stop u64
  | Ping u64
  | Pong u64
  | Ready u64 worker_audio_status
  | Parameters u64 "vst_parameter list"
  | Ack u64
  | Error "u64 option" string string
  | Heartbeat u64 u64 worker_metrics
  | EditorHidden
  | Stopped u64

text \<open>\<open>serde_json::to_vec\<close> and \<open>from_slice\<close>, and a write end.\<close>

record json_library =
  json_to_vec :: "control_message \<Rightarrow> string + bytes"
  json_from_slice :: "bytes \<Rightarrow> string + control_message"

record 'w async_write =
  aw_write_all :: "bytes \<Rightarrow> 'w \<Rightarrow> io_error + 'w"
  aw_flush :: "'w \<Rightarrow> io_error + 'w"

definition write_control_frame ::
  "json_library \<Rightarrow> 'w async_write \<Rightarrow> control_message \<Rightarrow> 'w \<Rightarrow> io_error + 'w" where
  "write_control_frame json io message writer =
     (case json_to_vec json message of
        Inl e \<Rightarrow> Inl (IoError InvalidData e)
      | Inr payload \<Rightarrow>
          if length payload > MAX_CONTROL_FRAME_BYTES
          then Inl (IoError InvalidInput ''control frame exceeds size limit'')
          else
            (case aw_write_all io (to_le_bytes 4 (of_nat (length payload) :: u32)) writer of
               Inl e \<Rightarrow> Inl e
             | Inr writer1 \<Rightarrow>
                 (case aw_write_all io payload writer1 of
                    Inl e \<Rightarrow> Inl e
                  | Inr writer2 \<Rightarrow> aw_flush io writer2)))"

definition response_request_id :: "control_message \<Rightarrow> u64 option" where
  "response_request_id message =
     (case message of
        Parameters request_id _ \<Rightarrow> Some request_id
      | Ready request_id _ \<Rightarrow> Some request_id
      | Ack request_id \<Rightarrow> Some request_id
      | Stopped request_id \<Rightarrow> Some request_id
      | Error request_id _ _ \<Rightarrow> request_id
      | _ \<Rightarrow> None)"

text \<open>
  A failed frame has written nothing when its error is \<open>InvalidInput\<close>, unless the write end
  itself fails that way; the reply then goes to the write end as the caller passed it.
\<close>

definition write_control_response ::
  "json_library \<Rightarrow> 'w async_write \<Rightarrow> control_message \<Rightarrow> 'w \<Rightarrow> io_error + 'w" where
  "write_control_response json io message writer =
     (case write_control_frame json io message writer of
        Inl e \<Rightarrow>
          if error_kind e = InvalidInput then
            write_control_frame json io
              (Error (response_request_id message) ''worker.frame-too-large''
                 ''Response exceeds IPC frame limit'') writer
          else Inl e
      | Inr writer' \<Rightarrow> Inr writer')"

definition read_exact :: "nat \<Rightarrow> bytes \<Rightarrow> io_error + bytes \<times> bytes" where
  "read_exact n stream =
     (if length stream < n then Inl (IoError UnexpectedEof ''early eof'')
      else Inr (take n stream, drop n stream))"

definition read_control_frame ::
  "json_library \<Rightarrow> bytes \<Rightarrow> io_error + control_message \<times> bytes" where
  "read_control_frame json stream =
     (case read_exact 4 stream of
        Inl e \<Rightarrow> Inl e
      | Inr (header, stream1) \<Rightarrow>
          let len = unat (from_le_bytes header :: u32)
          in if len = 0 \<or> len > MAX_CONTROL_FRAME_BYTES
             then Inl (IoError InvalidData ''invalid control frame length'')
             else
               (case read_exact len stream1 of
                  Inl e \<Rightarrow> Inl e
                | Inr (payload, stream2) \<Rightarrow>
                    (case json_from_slice json payload of
                       Inl e \<Rightarrow> Inl (IoError InvalidData e)
                     | Inr message \<Rightarrow> Inr (message, stream2))))"

definition write_midi_frame ::
  "'w async_write \<Rightarrow> midi_wire_frame \<Rightarrow> 'w \<Rightarrow> io_error + 'w" where
  "write_midi_frame io frame writer = aw_write_all io (encode frame) writer"

definition read_midi_frame :: "bytes \<Rightarrow> io_error + midi_wire_frame \<times> bytes" where
  "read_midi_frame stream =
     (case read_exact MIDI_FRAME_BYTES stream of
        Inl e \<Rightarrow> Inl e
      | Inr (encoded, stream') \<Rightarrow>
          (case decode encoded of Inl e \<Rightarrow> Inl e | Inr frame \<Rightarrow> Inr (frame, stream')))"

section \<open>Admissible MIDI frames\<close>

text \<open>
  The frames either end accepts: one to three bytes of a valid, already normalised message
  that is not System Exclusive, padded with zeros.
\<close>

definition wire_ok :: "midi_wire_frame \<Rightarrow> bool" where
  "wire_ok frame \<longleftrightarrow> length (wf_data frame) = 3
     \<and> 0 < unat (wf_len frame) \<and> unat (wf_len frame) \<le> 3
     \<and> wf_data frame ! 0 \<noteq> 0xF0
     \<and> (\<forall>byte \<in> set (drop (unat (wf_len frame)) (wf_data frame)). byte = 0)
     \<and> normalize_message (wire_bytes frame) = (True, wire_bytes frame)"

lemmas wire_consts = MAX_MIDI_BYTES_def MIDI_FRAME_BYTES_def

lemma not_sysex_normalized:
  "normalize_message data = (True, data') \<Longrightarrow> data ! 0 \<noteq> 0xF0 \<Longrightarrow> data' ! 0 \<noteq> 0xF0"
proof -
  assume "normalize_message data = (True, data')" "data ! 0 \<noteq> 0xF0"
  then show ?thesis
  proof (cases rule: normalize_message_cases)
    case (note_off s n)
    then show ?thesis using note_off_of_note_on(2) [of s] by simp
  qed auto
qed

lemma normalize_prefix_eq:
  assumes "n \<le> length data" "normalize_prefix n data = (True, data')"
  shows "normalize_message (take n data) = (True, take n data')" "drop n data' = drop n data"
    "length data' = length data"
proof -
  obtain front where front: "normalize_message (take n data) = (True, front)"
    and data': "data' = front @ drop n data"
    using assms(2) by (auto simp: normalize_prefix_def split: prod.splits)
  have "length front = n" using normalized_length [OF front] assms(1) by simp
  then show "normalize_message (take n data) = (True, take n data')" "drop n data' = drop n data"
    "length data' = length data"
    using front assms(1) by (simp_all add: data')
qed

lemma nth_0_take: "0 < n \<Longrightarrow> take n xs ! 0 = xs ! 0"
  by simp

lemma wire_new_ok:
  assumes "wire_new seq qpc bytes = Some frame"
  shows "wire_ok frame" "wf_sequence frame = seq" "wf_monotonic_qpc frame = qpc"
    "wf_generation frame = 0" "wf_pipe_qpc frame = 0"
    "normalize_message bytes = (True, wire_bytes frame)"
proof -
  let ?n = "length bytes" and ?data = "bytes @ replicate (3 - length bytes) 0"
  have n: "0 < ?n" "?n \<le> 3" using assms by (auto simp: wire_new_def wire_consts split: if_splits)
  obtain data' where data': "normalize_prefix ?n ?data = (True, data')" "?data ! 0 \<noteq> 0xF0"
    and frame: "frame = \<lparr>wf_generation = 0, wf_pipe_qpc = 0, wf_sequence = seq,
      wf_monotonic_qpc = qpc, wf_len = of_nat ?n, wf_data = data'\<rparr>"
    using assms by (auto simp: wire_new_def wire_consts Let_def split: if_splits prod.splits)
  have len: "unat (of_nat ?n :: u8) = ?n" using n by (simp add: unat_of_nat)
  have nl: "?n \<le> length ?data" by simp
  note pre = normalize_prefix_eq [OF nl data'(1)]
  have norm: "normalize_message bytes = (True, take ?n data')" using pre(1) by simp
  have "bytes ! 0 \<noteq> 0xF0" using data'(2) n by (simp add: nth_append)
  then have "data' ! 0 \<noteq> 0xF0"
    using not_sysex_normalized [OF norm] nth_0_take [OF n(1), of data'] by simp
  moreover have "drop ?n data' = replicate (3 - ?n) 0" using pre(2) by simp
  ultimately show "wire_ok frame"
    using n len pre(3) normalized_idem [OF norm] by (simp add: wire_ok_def frame wire_bytes_def)
  show "wf_sequence frame = seq" "wf_monotonic_qpc frame = qpc" "wf_generation frame = 0"
    "wf_pipe_qpc frame = 0" "normalize_message bytes = (True, wire_bytes frame)"
    using norm len by (simp_all add: frame wire_bytes_def)
qed

lemma wire_new_intro:
  assumes "length bytes = n" "0 < n" "n \<le> 3" "normalize_prefix n (bytes @ replicate (3 - n) 0) = (True, data')"
    "(bytes @ replicate (3 - n) 0) ! 0 \<noteq> 0xF0"
  shows "wire_new seq qpc bytes = Some \<lparr>wf_generation = 0, wf_pipe_qpc = 0, wf_sequence = seq,
      wf_monotonic_qpc = qpc, wf_len = of_nat n, wf_data = data'\<rparr>"
  using assms by (auto simp: wire_new_def wire_consts)

lemma length_encode: "wire_ok frame \<Longrightarrow> length (encode frame) = MIDI_FRAME_BYTES"
  by (simp add: encode_def wire_ok_def wire_consts)

lemma encode_fields:
  assumes "wire_ok frame"
  shows "encode frame ! 24 = wf_len frame" "take 8 (encode frame) = to_le_bytes 8 (wf_sequence frame)"
    "take 8 (drop 8 (encode frame)) = to_le_bytes 8 (wf_monotonic_qpc frame)"
    "take 8 (drop 16 (encode frame)) = to_le_bytes 8 (wf_pipe_qpc frame)"
    "take 3 (drop 25 (encode frame)) = wf_data frame"
  using assms by (simp_all add: encode_def wire_ok_def nth_append)

lemma decode_encode:
  assumes "wire_ok frame"
  shows "decode (encode frame) = Inr (frame\<lparr>wf_generation := 0\<rparr>)"
proof -
  have "normalize_prefix (unat (wf_len frame)) (wf_data frame) = (True, wf_data frame)"
    using assms by (simp add: normalize_prefix_def wire_ok_def wire_bytes_def)
  moreover have "wf_len frame \<noteq> 0" using assms by (auto simp: wire_ok_def)
  ultimately show ?thesis
    using assms
    by (auto simp: decode_def encode_fields [OF assms] from_to_le_bytes wire_consts wire_ok_def Let_def)
qed

lemma decode_ok:
  assumes "length encoded = MIDI_FRAME_BYTES" "decode encoded = Inr frame"
  shows "wire_ok frame"
    and "wire_new (wf_sequence frame) (wf_monotonic_qpc frame) (take (unat (encoded ! 24)) (drop 25 encoded))
           = Some (frame\<lparr>wf_pipe_qpc := 0\<rparr>)"
proof -
  let ?len = "unat (encoded ! 24)" and ?data = "take 3 (drop 25 encoded)"
  have len: "0 < ?len" "?len \<le> 3"
    using assms(2) by (auto simp: decode_def wire_consts unat_gt_0 Let_def not_less split: if_splits)
  have ldata: "length ?data = 3" using assms(1) by (simp add: wire_consts)
  obtain data' where data': "normalize_prefix ?len ?data = (True, data')" "?data ! 0 \<noteq> 0xF0"
    and zeros: "\<forall>byte \<in> set (drop ?len ?data). byte = 0"
    and frame: "wf_data frame = data'" "wf_len frame = encoded ! 24" "wf_generation frame = 0"
    using assms(2) len
    by (auto simp: decode_def wire_consts Let_def split: if_splits prod.splits)
  have lenl: "?len \<le> length ?data" using len ldata by simp
  note pre = normalize_prefix_eq [OF lenl data'(1)]
  have "take ?len ?data ! 0 \<noteq> 0xF0"
    unfolding nth_0_take [OF len(1)] by (rule data'(2))
  from not_sysex_normalized [OF pre(1) this] have "data' ! 0 \<noteq> 0xF0"
    unfolding nth_0_take [OF len(1)] .
  then show "wire_ok frame"
    using len ldata zeros pre normalized_idem [OF pre(1)]
    by (simp add: wire_ok_def wire_bytes_def frame)
  have take: "take ?len (drop 25 encoded) = take ?len ?data" using len by (simp add: min_def)
  have "drop ?len ?data = replicate (3 - ?len) 0"
    using zeros ldata by (intro replicate_eqI) auto
  then have pad: "take ?len ?data @ replicate (3 - ?len) 0 = ?data"
    using append_take_drop_id [of ?len ?data] by simp
  have ltake: "length (take ?len ?data) = ?len" using lenl by simp
  have ne: "take ?len ?data \<noteq> []" using ltake len by auto
  have frame_eq: "frame\<lparr>wf_pipe_qpc := 0\<rparr> = \<lparr>wf_generation = 0, wf_pipe_qpc = 0,
      wf_sequence = wf_sequence frame, wf_monotonic_qpc = wf_monotonic_qpc frame,
      wf_len = of_nat ?len, wf_data = data'\<rparr>"
    using frame by simp
  show "wire_new (wf_sequence frame) (wf_monotonic_qpc frame) (take ?len (drop 25 encoded))
      = Some (frame\<lparr>wf_pipe_qpc := 0\<rparr>)"
    unfolding take frame_eq
    by (rule wire_new_intro [OF ltake len])
      (use data' in \<open>simp_all only: pad not_False_eq_True\<close>)
qed

section \<open>Pipes\<close>

lemma read_midi_frame_append:
  "wire_ok frame \<Longrightarrow>
     read_midi_frame (encode frame @ rest) = Inr (frame\<lparr>wf_generation := 0\<rparr>, rest)"
  by (simp add: read_midi_frame_def read_exact_def length_encode decode_encode)

text \<open>Reading \<open>n\<close> frames, one after the other, as the worker's receive loop does.\<close>

primrec read_midi_frames :: "nat \<Rightarrow> bytes \<Rightarrow> io_error + midi_wire_frame list \<times> bytes" where
  "read_midi_frames 0 stream = Inr ([], stream)"
| "read_midi_frames (Suc n) stream =
     (case read_midi_frame stream of
        Inl e \<Rightarrow> Inl e
      | Inr (frame, stream') \<Rightarrow>
          (case read_midi_frames n stream' of
             Inl e \<Rightarrow> Inl e
           | Inr (frames, stream'') \<Rightarrow> Inr (frame # frames, stream'')))"

text \<open>
  The realtime pipe loses and invents nothing. Frames built by \<open>MidiWireFrame::new\<close>,
  stamped with any pipe time and written back to back, are read as the same frames in the
  same order, whatever follows them; only the local generation, which is not sent, is zero.
\<close>

theorem midi_pipe_roundtrip:
  assumes "\<forall>frame \<in> set frames. \<exists>seq qpc bytes generation pipe_qpc.
      map_option (\<lambda>f. f\<lparr>wf_generation := generation, wf_pipe_qpc := pipe_qpc\<rparr>) (wire_new seq qpc bytes)
        = Some frame"
  shows "read_midi_frames (length frames) (concat (map encode frames) @ rest)
    = Inr (map (\<lambda>f. f\<lparr>wf_generation := 0\<rparr>) frames, rest)"
proof -
  have "\<forall>frame \<in> set frames. wire_ok frame"
  proof
    fix frame assume "frame \<in> set frames"
    with assms obtain seq qpc bytes generation pipe_qpc where
      "map_option (\<lambda>f. f\<lparr>wf_generation := generation, wf_pipe_qpc := pipe_qpc\<rparr>)
        (wire_new seq qpc bytes) = Some frame" by blast
    then obtain f where f: "wire_new seq qpc bytes = Some f"
      and frame: "frame = f\<lparr>wf_generation := generation, wf_pipe_qpc := pipe_qpc\<rparr>"
      by (cases "wire_new seq qpc bytes") simp_all
    show "wire_ok frame"
      using wire_new_ok(1) [OF f] by (simp add: frame wire_ok_def wire_bytes_def)
  qed
  then show ?thesis
    by (induction frames) (simp_all add: read_midi_frame_append)
qed

theorem midi_pipe_roundtrip_witness:
  "read_midi_frames 2
     (encode \<lparr>wf_generation = 0, wf_pipe_qpc = 0, wf_sequence = 7, wf_monotonic_qpc = 1000,
              wf_len = 3, wf_data = [0x80, 60, 0]\<rparr>
      @ encode \<lparr>wf_generation = 5, wf_pipe_qpc = 9, wf_sequence = 8, wf_monotonic_qpc = 2000,
              wf_len = 2, wf_data = [0xC5, 17, 0]\<rparr>)
   = Inr ([\<lparr>wf_generation = 0, wf_pipe_qpc = 0, wf_sequence = 7, wf_monotonic_qpc = 1000,
            wf_len = 3, wf_data = [0x80, 60, 0]\<rparr>,
           \<lparr>wf_generation = 0, wf_pipe_qpc = 9, wf_sequence = 8, wf_monotonic_qpc = 2000,
            wf_len = 2, wf_data = [0xC5, 17, 0]\<rparr>], [])"
  (is "read_midi_frames 2 (encode ?f @ encode ?g) = _")
proof -
  have "map_option (\<lambda>f. f\<lparr>wf_generation := 0, wf_pipe_qpc := 0\<rparr>) (wire_new 7 1000 [0x90, 60, 0]) = Some ?f"
    "map_option (\<lambda>f. f\<lparr>wf_generation := 5, wf_pipe_qpc := 9\<rparr>) (wire_new 8 2000 [0xC5, 17]) = Some ?g"
    by (simp_all add: wire_new_def wire_consts normalize_prefix_def normalize_message_def
        message_len_def Let_def)
  then have h: "\<forall>frame \<in> set [?f, ?g]. \<exists>seq qpc bytes generation pipe_qpc.
      map_option (\<lambda>f. f\<lparr>wf_generation := generation, wf_pipe_qpc := pipe_qpc\<rparr>) (wire_new seq qpc bytes)
        = Some frame"
    unfolding list.set by blast
  show ?thesis
    using midi_pipe_roundtrip [OF h, of "[]"] by (simp add: numeral_2_eq_2)
qed

text \<open>
  Whatever 28 bytes arrive, \<open>decode\<close> lets only admissible messages through. An accepted
  frame carries one to three bytes of a valid, normalised message that is not System
  Exclusive, it is the frame the sender's constructor builds from those bytes, and sending
  it again gives the same frame.
\<close>

theorem decode_admits_only_valid:
  assumes "length encoded = MIDI_FRAME_BYTES" "decode encoded = Inr frame"
  shows "wire_bytes frame \<noteq> [] \<and> length (wire_bytes frame) \<le> MAX_MIDI_BYTES
    \<and> wire_bytes frame ! 0 \<noteq> 0xF0
    \<and> normalize_message (wire_bytes frame) = (True, wire_bytes frame)
    \<and> (\<exists>bytes. wire_new (wf_sequence frame) (wf_monotonic_qpc frame) bytes = Some (frame\<lparr>wf_pipe_qpc := 0\<rparr>)
        \<and> is_critical_release_message (wire_bytes frame) = is_critical_release_message bytes)
    \<and> decode (encode frame) = Inr frame"
proof -
  note ok = decode_ok [OF assms]
  have gen: "frame\<lparr>wf_generation := 0\<rparr> = frame"
    using wire_new_ok(4) [OF ok(2)] by simp
  have bytes: "wire_bytes (frame\<lparr>wf_pipe_qpc := 0\<rparr>) = wire_bytes frame"
    by (simp add: wire_bytes_def)
  have "wire_bytes frame \<noteq> []" "length (wire_bytes frame) \<le> 3" "wire_bytes frame ! 0 \<noteq> 0xF0"
    using ok(1) by (auto simp: wire_ok_def wire_bytes_def)
  moreover have "normalize_message (wire_bytes frame) = (True, wire_bytes frame)"
    using ok(1) by (simp add: wire_ok_def)
  moreover have "decode (encode frame) = Inr frame"
    using decode_encode [OF ok(1)] gen by simp
  ultimately show ?thesis
    using ok(2) normalized_critical [OF wire_new_ok(6) [OF ok(2)]]
    unfolding bytes wire_consts by blast
qed

theorem decode_admits_only_valid_witness:
  "wire_bytes (projr (decode (replicate 24 0 @ [2, 0xC5, 17, 0]))) = [0xC5, 17]"
proof -
  have h: "length (replicate 24 0 @ [2, 0xC5, 17, 0 :: u8]) = MIDI_FRAME_BYTES"
    by (simp add: wire_consts)
  have d: "decode (replicate 24 0 @ [2, 0xC5, 17, 0]) = Inr \<lparr>wf_generation = 0, wf_pipe_qpc = 0,
      wf_sequence = 0, wf_monotonic_qpc = 0, wf_len = 2, wf_data = [0xC5, 17, 0]\<rparr>"
    by (simp add: decode_def wire_consts nth_append normalize_prefix_def normalize_message_def
        message_len_def Let_def)
  show ?thesis using decode_admits_only_valid [OF h d] d by (simp add: wire_bytes_def)
qed

section \<open>Elapsed time\<close>

lemma unat_clamp_u64:
  "unat (ucast (min (x :: u128) (ucast (- 1 :: u64))) :: u64) = min (unat x) (2 ^ 64 - 1)"
proof -
  have max64: "unat (ucast (- 1 :: u64) :: u128) = 2 ^ 64 - 1"
    by (simp add: unsigned_ucast_eq unsigned_minus_1_eq_mask mask_eq_exp_minus_1 take_bit_eq_mod)
  have "unat (min x (ucast (- 1 :: u64))) = min (unat x) (2 ^ 64 - 1)"
    unfolding max64 [symmetric] by (auto simp: min_def word_le_nat_alt)
  moreover from this have "unat (min x (ucast (- 1 :: u64))) mod 2 ^ 64 = min (unat x) (2 ^ 64 - 1)"
    by simp
  ultimately show ?thesis by (simp add: unsigned_ucast_eq take_bit_eq_mod)
qed

lemma unat_up_cast: "unat (ucast (x :: u64) :: u128) = unat x"
proof -
  have "unat x < 2 ^ LENGTH(64)" by (rule unsigned_less)
  then have "unat x < 2 ^ 128" by simp
  then show ?thesis by (simp add: unsigned_ucast_eq take_bit_eq_mod)
qed

lemma unat_scaled:
  assumes "m * k < 2 ^ 128" "unat x = m" "unat y = k"
  shows "unat ((x :: u128) * y) = m * k"
  using assms by (simp add: unat_word_ariths)

lemma unat_qpc_elapsed_us:
  "unat (qpc_elapsed_us frequency earlier later)
     = min ((unat later - unat earlier) * 1000000 div unat frequency) (2 ^ 64 - 1)"
proof -
  let ?t = "ucast (saturating_sub later earlier) :: u128"
  have t: "unat ?t = unat later - unat earlier" by (simp add: unat_up_cast unat_saturating_sub)
  have "unat later < 2 ^ LENGTH(64)" by (rule unsigned_less)
  then have "unat (?t * 1000000) = (unat later - unat earlier) * 1000000"
    by (intro unat_scaled t) simp_all
  then show ?thesis
    by (simp add: qpc_elapsed_us_def unat_clamp_u64 unat_div_distrib unat_up_cast Let_def)
qed

text \<open>
  Time measurements neither wrap nor run backwards. The microseconds between two readings
  are the exact quotient of the true tick difference, saturated at the largest \<open>u64\<close>; they
  grow with the later reading, are zero when the clock did not advance, and a time in the
  past is the current count minus the elapsed ticks, never below zero, for any elapsed
  time below \<open>2 ^ 64\<close> ns (584 years).
\<close>

theorem qpc_arithmetic:
  assumes "unat elapsed < 2 ^ 64"
  shows "unat (qpc_elapsed_us f a b) = min ((unat b - unat a) * 1000000 div unat f) (2 ^ 64 - 1)
    \<and> (b \<le> c \<longrightarrow> qpc_elapsed_us f a b \<le> qpc_elapsed_us f a c)
    \<and> (b \<le> a \<longrightarrow> qpc_elapsed_us f a b = 0)
    \<and> unat (qpc_at f now elapsed)
        = unat now - min (unat elapsed * unat f div 1000000000) (2 ^ 64 - 1)"
proof -
  have "unat f < 2 ^ LENGTH(64)" by (rule unsigned_less)
  then have "unat elapsed * unat f < 2 ^ 64 * 2 ^ 64"
    using assms by (intro mult_strict_mono) auto
  then have "unat (elapsed * ucast f) = unat elapsed * unat f"
    by (intro unat_scaled) (simp_all add: unat_up_cast)
  then have "unat (qpc_at f now elapsed)
      = unat now - min (unat elapsed * unat f div 1000000000) (2 ^ 64 - 1)"
    by (simp add: qpc_at_def unat_saturating_sub unat_clamp_u64 unat_div_distrib)
  moreover have "qpc_elapsed_us f a b \<le> qpc_elapsed_us f a c" if "b \<le> c"
  proof -
    have "unat b \<le> unat c" using that by (simp add: word_le_nat_alt)
    then have "(unat b - unat a) * 1000000 div unat f \<le> (unat c - unat a) * 1000000 div unat f"
      by (intro div_le_mono) simp
    then show ?thesis by (simp add: word_le_nat_alt unat_qpc_elapsed_us)
  qed
  moreover have "qpc_elapsed_us f a b = 0" if "b \<le> a"
  proof -
    have "unat b \<le> unat a" using that by (simp add: word_le_nat_alt)
    then have "unat (qpc_elapsed_us f a b) = 0" by (simp add: unat_qpc_elapsed_us)
    then show ?thesis by (simp add: unat_eq_0)
  qed
  ultimately show ?thesis by (simp add: unat_qpc_elapsed_us)
qed

theorem qpc_arithmetic_witness:
  "qpc_elapsed_us 10000000 500 300 = 0 \<and> unat (qpc_elapsed_us 10000000 0 25) = 2"
  using qpc_arithmetic [of "0 :: u128" "10000000" "500" "300" "300" "0"]
    qpc_arithmetic [of "0 :: u128" "10000000" "0" "25" "25" "0"] by simp

section \<open>Control frames\<close>

text \<open>A write end in memory never fails.\<close>

definition memory_writer :: "bytes async_write" where
  "memory_writer = \<lparr>aw_write_all = (\<lambda>bs w. Inr (w @ bs)), aw_flush = (\<lambda>w. Inr w)\<rparr>"

definition control_frame :: "bytes \<Rightarrow> bytes" where
  "control_frame payload = to_le_bytes 4 (of_nat (length payload) :: u32) @ payload"

lemma write_control_frame_memory:
  "json_to_vec json m = Inr payload \<Longrightarrow> length payload \<le> MAX_CONTROL_FRAME_BYTES \<Longrightarrow>
     write_control_frame json memory_writer m out = Inr (out @ control_frame payload)"
  "json_to_vec json m = Inr payload \<Longrightarrow> length payload > MAX_CONTROL_FRAME_BYTES \<Longrightarrow>
     write_control_frame json memory_writer m out
       = Inl (IoError InvalidInput ''control frame exceeds size limit'')"
  by (simp_all add: write_control_frame_def memory_writer_def control_frame_def)

lemma read_control_frame_append:
  assumes "payload \<noteq> []" "length payload \<le> MAX_CONTROL_FRAME_BYTES"
    "json_from_slice json payload = Inr m"
  shows "read_control_frame json (control_frame payload @ rest) = Inr (m, rest)"
proof -
  have "length payload < 2 ^ 32" using assms(2) by (simp add: MAX_CONTROL_FRAME_BYTES_def)
  then have "unat (of_nat (length payload) :: u32) = length payload" by (simp add: unat_of_nat)
  then show ?thesis
    using assms
    by (simp add: read_control_frame_def control_frame_def read_exact_def from_to_le_bytes Let_def)
qed

text \<open>
  A response always reaches the other side. Whatever size its JSON has, writing a response
  puts exactly one frame on the control pipe, and reading it gives the response itself when
  it fits the frame limit, otherwise an error message with the request's own identifier, and
  leaves what follows untouched. The JSON library is assumed to read back what it prints, to
  print no empty text, and to print the fixed error message within the limit.
\<close>

theorem response_reaches_peer:
  assumes json: "\<And>m payload. json_to_vec json m = Inr payload \<Longrightarrow>
      payload \<noteq> [] \<and> json_from_slice json payload = Inr m"
    and reply: "\<And>id. \<exists>payload. json_to_vec json (Error id ''worker.frame-too-large''
      ''Response exceeds IPC frame limit'') = Inr payload \<and> length payload \<le> MAX_CONTROL_FRAME_BYTES"
    and printed: "json_to_vec json m = Inr payload"
  shows "\<exists>frame. write_control_response json memory_writer m out = Inr (out @ frame)
    \<and> read_control_frame json (frame @ rest) =
        Inr (if length payload \<le> MAX_CONTROL_FRAME_BYTES then m
             else Error (response_request_id m) ''worker.frame-too-large''
                    ''Response exceeds IPC frame limit'', rest)"
proof (cases "length payload \<le> MAX_CONTROL_FRAME_BYTES")
  case True
  then show ?thesis
    using write_control_frame_memory(1) [OF printed True] json [OF printed]
    by (auto simp: write_control_response_def read_control_frame_append)
next
  case False
  obtain err where err: "json_to_vec json (Error (response_request_id m) ''worker.frame-too-large''
      ''Response exceeds IPC frame limit'') = Inr err" "length err \<le> MAX_CONTROL_FRAME_BYTES"
    using reply by blast
  have "write_control_response json memory_writer m out = Inr (out @ control_frame err)"
    using False write_control_frame_memory(2) [OF printed] write_control_frame_memory(1) [OF err]
    by (simp add: write_control_response_def)
  moreover have "read_control_frame json (control_frame err @ rest) =
      Inr (Error (response_request_id m) ''worker.frame-too-large''
             ''Response exceeds IPC frame limit'', rest)"
    using json [OF err(1)] err(2) by (simp add: read_control_frame_append)
  ultimately show ?thesis using False by auto
qed

text \<open>A library for three messages, one of them too large, to apply the theorem to.\<close>

definition sample_json :: json_library where
  "sample_json =
     \<lparr>json_to_vec = (\<lambda>m.
        if m = EditorHidden then Inr (3 # replicate 0x800000 0)
        else if m = Error (response_request_id m) ''worker.frame-too-large''
                  ''Response exceeds IPC frame limit''
        then Inr (case response_request_id m of None \<Rightarrow> [1] | Some i \<Rightarrow> 2 # to_le_bytes 8 i)
        else Inl ''unsupported''),
      json_from_slice = (\<lambda>bytes.
        if hd bytes = 3 then Inr EditorHidden
        else Inr (Error (if hd bytes = 1 then None else Some (from_le_bytes (tl bytes)))
               ''worker.frame-too-large'' ''Response exceeds IPC frame limit''))\<rparr>"

theorem response_reaches_peer_witness:
  "\<exists>frame. write_control_response sample_json memory_writer EditorHidden [9] = Inr ([9] @ frame)
    \<and> read_control_frame sample_json (frame @ [7]) =
        Inr (Error None ''worker.frame-too-large'' ''Response exceeds IPC frame limit'', [7])"
proof -
  have json: "\<And>m payload. json_to_vec sample_json m = Inr payload \<Longrightarrow>
      payload \<noteq> [] \<and> json_from_slice sample_json payload = Inr m"
    by (auto simp: sample_json_def response_request_id_def from_to_le_bytes
        split: if_splits option.splits control_message.splits)
  have reply: "\<And>id. \<exists>payload. json_to_vec sample_json (Error id ''worker.frame-too-large''
      ''Response exceeds IPC frame limit'') = Inr payload \<and> length payload \<le> MAX_CONTROL_FRAME_BYTES"
    by (simp add: sample_json_def response_request_id_def MAX_CONTROL_FRAME_BYTES_def split: option.split)
  have printed: "json_to_vec sample_json EditorHidden = Inr (3 # replicate 0x800000 0)"
    by (simp add: sample_json_def)
  show ?thesis
    using response_reaches_peer [OF json reply printed, of "[9]" "[7]"]
    by (simp add: MAX_CONTROL_FRAME_BYTES_def response_request_id_def)
qed

end
