(* ===== verification/Midi_Queue.thy ===== *)
theory Midi_Queue
  imports Wire_Protocol Midi_Buffers
begin

text \<open>
  The bounded queues between the MIDI threads (\<open>midi_queue.rs\<close>). A queue keeps part of its
  capacity for release messages: every other message needs a permit, and there are fewer
  permits than places. This theory models the blocking and the asynchronous channel, the
  counters, the preparation hook and the generation test of the consumers, first as
  sequential operations, then as atomic steps of concurrent senders and receivers.
  A \<open>usize\<close> count of queued entries is a \<open>nat\<close>, bounded by the capacity.
\<close>

section \<open>Generations\<close>

datatype generation_action = Discard | Defer | Ready

definition generation_action ::
  "u64 \<times> u64 \<Rightarrow> u64 \<times> u64 \<Rightarrow> u64 \<times> u64 \<Rightarrow> generation_action" where
  "generation_action event handled current =
     (if fst event < fst current \<or> snd event < snd current then Discard
      else if handled \<noteq> current \<or> event \<noteq> handled then Defer
      else Ready)"

section \<open>Priorities\<close>

text \<open>\<open>Priority\<close> for frames, for wire frames and for note events (\<open>types.rs\<close>).\<close>

definition frame_critical :: "midi_frame \<Rightarrow> bool" where
  "frame_critical frame = is_critical_release_message (frame_data frame)"

definition wire_critical :: "midi_wire_frame \<Rightarrow> bool" where
  "wire_critical frame = is_critical_release_message (wire_bytes frame)"

section \<open>Counters\<close>

record recovery =
  rec_generation :: u64
  rec_name :: string
  rec_capacity :: nat
  rec_max_depth :: nat
  rec_max_wait_us :: u64
  rec_admitted :: u64
  rec_consumed :: u64
  rec_noncritical_drops :: u64
  rec_critical_drops :: u64
  rec_noncritical_rejections :: u64
  rec_critical_rejections :: u64

record queue_diagnostics =
  qd_name :: string
  qd_capacity :: nat
  qd_depth :: u64
  qd_max_depth :: nat
  qd_noncritical_drops :: u64
  qd_critical_drops :: u64
  qd_noncritical_rejections :: u64
  qd_critical_rejections :: u64
  qd_resets :: u64
  qd_max_wait_us :: u64

definition new_recovery :: "string \<Rightarrow> nat \<Rightarrow> recovery" where
  "new_recovery name capacity =
     \<lparr>rec_generation = 0, rec_name = name, rec_capacity = capacity, rec_max_depth = 0,
      rec_max_wait_us = 0, rec_admitted = 0, rec_consumed = 0, rec_noncritical_drops = 0,
      rec_critical_drops = 0, rec_noncritical_rejections = 0, rec_critical_rejections = 0\<rparr>"

definition snapshot :: "recovery \<Rightarrow> queue_diagnostics" where
  "snapshot r =
     \<lparr>qd_name = rec_name r, qd_capacity = rec_capacity r,
      qd_depth = saturating_sub (rec_admitted r) (rec_consumed r),
      qd_max_depth = rec_max_depth r, qd_noncritical_drops = rec_noncritical_drops r,
      qd_critical_drops = rec_critical_drops r,
      qd_noncritical_rejections = rec_noncritical_rejections r,
      qd_critical_rejections = rec_critical_rejections r,
      qd_resets = rec_generation r, qd_max_wait_us = rec_max_wait_us r\<rparr>"

text \<open>The registry of queues; \<open>None\<close> is a weak reference whose queue is gone.\<close>

definition queue_registry_diagnostics ::
  "recovery option list \<Rightarrow> queue_diagnostics list \<times> recovery option list" where
  "queue_registry_diagnostics queues =
     (let alive = filter (\<lambda>queue. queue \<noteq> None) queues
      in (map (\<lambda>queue. snapshot (the queue)) alive, alive))"

definition rejected :: "bool \<Rightarrow> recovery \<Rightarrow> recovery" where
  "rejected critical r =
     (if critical then r\<lparr>rec_critical_rejections := rec_critical_rejections r + 1\<rparr>
      else r\<lparr>rec_noncritical_rejections := rec_noncritical_rejections r + 1\<rparr>)"

definition dropped :: "bool \<Rightarrow> recovery \<Rightarrow> recovery" where
  "dropped critical r =
     (if critical then r\<lparr>rec_critical_drops := rec_critical_drops r + 1\<rparr>
      else r\<lparr>rec_noncritical_drops := rec_noncritical_drops r + 1\<rparr>)"

definition admitted :: "nat \<Rightarrow> recovery \<Rightarrow> recovery" where
  "admitted depth r =
     r\<lparr>rec_admitted := rec_admitted r + 1, rec_max_depth := max (rec_max_depth r) depth\<rparr>"

definition consumed :: "u64 \<Rightarrow> u64 \<Rightarrow> u64 \<Rightarrow> recovery \<Rightarrow> recovery" where
  "consumed frequency now queued_qpc r =
     r\<lparr>rec_consumed := rec_consumed r + 1,
       rec_max_wait_us := max (rec_max_wait_us r) (qpc_elapsed_us frequency queued_qpc now)\<rparr>"

definition request_reset :: "recovery \<Rightarrow> recovery" where
  "request_reset r = r\<lparr>rec_generation := rec_generation r + 1\<rparr>"

section \<open>The blocking queue\<close>

definition reserve :: "nat \<Rightarrow> nat" where
  "reserve capacity = min 256 (capacity div 8)"

record 'a entry =
  queued_qpc :: u64
  entry_value :: 'a
  entry_permit :: bool

text \<open>
  \<open>used\<close> permits of \<open>limit\<close>; \<open>receiver_alive\<close> is false once the receiver is dropped. The
  preparation is the hook and its validity flag.
\<close>

record 'a midi_queue =
  q_entries :: "'a entry list"
  q_capacity :: nat
  q_used :: nat
  q_limit :: nat
  q_receiver_alive :: bool
  q_recovery :: recovery
  q_preparation :: "(('a \<Rightarrow> bool \<times> 'a) \<times> bool) option"

datatype 'a try_send_error = Full 'a | Disconnected 'a

definition bounded :: "string \<Rightarrow> nat \<Rightarrow> 'a midi_queue" where
  "bounded name capacity =
     \<lparr>q_entries = [], q_capacity = capacity, q_used = 0, q_limit = capacity - reserve capacity,
      q_receiver_alive = True, q_recovery = new_recovery name capacity, q_preparation = None\<rparr>"

definition set_preparation :: "('a \<Rightarrow> bool \<times> 'a) \<Rightarrow> 'a midi_queue \<Rightarrow> 'a midi_queue" where
  "set_preparation prepare q = q\<lparr>q_preparation := Some (prepare, True)\<rparr>"

definition invalidate_preparation :: "'a midi_queue \<Rightarrow> 'a midi_queue" where
  "invalidate_preparation q =
     (case q_preparation q of
        None \<Rightarrow> q
      | Some (apply, _) \<Rightarrow> q\<lparr>q_preparation := Some (apply, False)\<rparr>)"

text \<open>
  \<open>prepare\<close> reads the validity before and after the hook; \<open>still_valid\<close> is the second reading,
  which another thread may have changed.
\<close>

definition prepare_with ::
  "(('a \<Rightarrow> bool \<times> 'a) \<times> bool) option \<Rightarrow> bool \<Rightarrow> 'a \<Rightarrow> bool \<times> 'a" where
  "prepare_with preparation still_valid value =
     (case preparation of
        None \<Rightarrow> (True, value)
      | Some (apply, valid) \<Rightarrow>
          if \<not> valid then (False, value)
          else let (ok, value') = apply value in (ok \<and> still_valid, value'))"

definition prepare :: "'a midi_queue \<Rightarrow> 'a \<Rightarrow> bool \<times> 'a" where
  "prepare q value = prepare_with (q_preparation q) True value"

text \<open>\<open>crossbeam_channel::Sender::try_send\<close> on a bounded channel.\<close>

definition channel_try_send ::
  "'a entry \<Rightarrow> 'a midi_queue \<Rightarrow> 'a try_send_error option \<times> 'a midi_queue" where
  "channel_try_send e q =
     (if \<not> q_receiver_alive q then (Some (Disconnected (entry_value e)), q)
      else if length (q_entries q) < q_capacity q
      then (None, q\<lparr>q_entries := q_entries q @ [e]\<rparr>)
      else (Some (Full (entry_value e)), q))"

definition try_send_inner ::
  "('a \<Rightarrow> bool) \<Rightarrow> u64 \<Rightarrow> bool \<Rightarrow> 'a \<Rightarrow> 'a midi_queue \<Rightarrow> ('a try_send_error + unit) \<times> 'a midi_queue" where
  "try_send_inner crit now abandoned value q =
     (let critical = crit value in
      if \<not> critical \<and> \<not> q_used q < q_limit q then
        let r = rejected False (q_recovery q);
            r' = (if abandoned then dropped False r else r)
        in (Inl (Full value), q\<lparr>q_recovery := r'\<rparr>)
      else
        let q1 = (if critical then q else q\<lparr>q_used := q_used q + 1\<rparr>)
        in case channel_try_send \<lparr>queued_qpc = now, entry_value = value, entry_permit = \<not> critical\<rparr> q1 of
             (None, q2) \<Rightarrow>
               (Inr (), q2\<lparr>q_recovery := admitted (length (q_entries q2)) (q_recovery q2)\<rparr>)
           | (Some e, q2) \<Rightarrow>
               let r = rejected critical (q_recovery q2);
                   r' = (if abandoned then dropped critical r else r);
                   q3 = (if critical then q2 else q2\<lparr>q_used := q_used q2 - 1\<rparr>)
               in (Inl e, q3\<lparr>q_recovery := r'\<rparr>))"

definition try_send ::
  "('a \<Rightarrow> bool) \<Rightarrow> u64 \<Rightarrow> 'a \<Rightarrow> 'a midi_queue \<Rightarrow> ('a try_send_error + unit) \<times> 'a midi_queue" where
  "try_send crit now value q = try_send_inner crit now True value q"

definition try_send_retryable ::
  "('a \<Rightarrow> bool) \<Rightarrow> u64 \<Rightarrow> 'a \<Rightarrow> 'a midi_queue \<Rightarrow> ('a try_send_error + unit) \<times> 'a midi_queue" where
  "try_send_retryable crit now value q = try_send_inner crit now False value q"

definition record_abandoned :: "('a \<Rightarrow> bool) \<Rightarrow> 'a \<Rightarrow> 'a midi_queue \<Rightarrow> 'a midi_queue" where
  "record_abandoned crit value q = q\<lparr>q_recovery := dropped (crit value) (q_recovery q)\<rparr>"

text \<open>
  The blocking \<open>send\<close>. What the other threads do to the queue during each sleep is a list;
  \<open>None\<close> is a call that is still waiting when the list is used up.
\<close>

fun blocking_send ::
  "('a \<Rightarrow> bool) \<Rightarrow> u64 \<Rightarrow> ('a midi_queue \<Rightarrow> 'a midi_queue) list \<Rightarrow> 'a \<Rightarrow> 'a midi_queue
     \<Rightarrow> (('a + unit) \<times> 'a midi_queue) option" where
  "blocking_send crit now others value q =
     (case try_send_retryable crit now value q of
        (Inr _, q') \<Rightarrow> Some (Inr (), q')
      | (Inl (Disconnected v), q') \<Rightarrow> Some (Inl v, record_abandoned crit v q')
      | (Inl (Full v), q') \<Rightarrow>
          (case others of
             [] \<Rightarrow> None
           | other # others' \<Rightarrow> blocking_send crit now others' v (other q')))"

declare blocking_send.simps [simp del]

text \<open>Receiving: the counters, then the entry's permit returns as the entry is dropped.\<close>

definition try_recv :: "u64 \<Rightarrow> u64 \<Rightarrow> 'a midi_queue \<Rightarrow> 'a option \<times> 'a midi_queue" where
  "try_recv frequency now q =
     (case q_entries q of
        [] \<Rightarrow> (None, q)
      | e # es \<Rightarrow>
          (Some (entry_value e),
           q\<lparr>q_entries := es,
             q_recovery := consumed frequency now (queued_qpc e) (q_recovery q),
             q_used := (if entry_permit e then q_used q - 1 else q_used q)\<rparr>))"

fun try_iter :: "nat \<Rightarrow> u64 \<Rightarrow> u64 \<Rightarrow> 'a midi_queue \<Rightarrow> 'a list \<times> 'a midi_queue" where
  "try_iter 0 frequency now q = ([], q)"
| "try_iter (Suc n) frequency now q =
     (case try_recv frequency now q of
        (None, q') \<Rightarrow> ([], q')
      | (Some v, q') \<Rightarrow> let (vs, q'') = try_iter n frequency now q' in (v # vs, q''))"

section \<open>The asynchronous queue\<close>

text \<open>
  \<open>tokio\<close>'s channel and semaphore: \<open>aq_permits\<close> are the semaphore's free permits, and a
  closed channel refuses with \<open>Closed\<close>.
\<close>

record 'a async_queue =
  aq_entries :: "'a entry list"
  aq_capacity :: nat
  aq_permits :: nat
  aq_closed :: bool
  aq_recovery :: recovery

definition async_channel :: "string \<Rightarrow> nat \<Rightarrow> 'a async_queue" where
  "async_channel name capacity =
     \<lparr>aq_entries = [], aq_capacity = capacity, aq_permits = capacity - reserve capacity,
      aq_closed = False, aq_recovery = new_recovery name capacity\<rparr>"

definition async_try_send ::
  "('a \<Rightarrow> bool) \<Rightarrow> u64 \<Rightarrow> 'a \<Rightarrow> 'a async_queue \<Rightarrow> ('a try_send_error + unit) \<times> 'a async_queue" where
  "async_try_send crit now value q =
     (let critical = crit value in
      if \<not> critical \<and> aq_permits q = 0 then
        (Inl (Full value), q\<lparr>aq_recovery := dropped False (rejected False (aq_recovery q))\<rparr>)
      else
        let q1 = (if critical then q else q\<lparr>aq_permits := aq_permits q - 1\<rparr>);
            e = \<lparr>queued_qpc = now, entry_value = value, entry_permit = \<not> critical\<rparr>;
            fail = q\<lparr>aq_recovery := dropped critical (rejected critical (aq_recovery q))\<rparr>
        in if aq_closed q then (Inl (Disconnected value), fail)
           else if length (aq_entries q1) < aq_capacity q1 then
             let q2 = q1\<lparr>aq_entries := aq_entries q1 @ [e]\<rparr>
             in (Inr (), q2\<lparr>aq_recovery := admitted (length (aq_entries q2)) (aq_recovery q2)\<rparr>)
           else (Inl (Full value), fail))"

definition async_try_recv :: "u64 \<Rightarrow> u64 \<Rightarrow> 'a async_queue \<Rightarrow> 'a option \<times> 'a async_queue" where
  "async_try_recv frequency now q =
     (case aq_entries q of
        [] \<Rightarrow> (None, q)
      | e # es \<Rightarrow>
          (Some (entry_value e),
           q\<lparr>aq_entries := es,
             aq_recovery := consumed frequency now (queued_qpc e) (aq_recovery q),
             aq_permits := (if entry_permit e then aq_permits q + 1 else aq_permits q)\<rparr>))"

section \<open>The interface of a queue with a reserve\<close>

text \<open>
  What the senders and receivers of either queue rely on: messages leave in the order in which
  they were accepted, a refused message leaves the contents alone, a critical message is
  refused only by a full or closed queue, and the other messages never fill the reserve.
\<close>

locale reserve_queue =
  fixes crit :: "'a \<Rightarrow> bool"
    and inv :: "'q \<Rightarrow> bool"
    and items :: "'q \<Rightarrow> 'a list"
    and cap :: "'q \<Rightarrow> nat"
    and closed :: "'q \<Rightarrow> bool"
    and send :: "u64 \<Rightarrow> 'a \<Rightarrow> 'q \<Rightarrow> bool \<times> 'q"
    and recv :: "u64 \<Rightarrow> 'q \<Rightarrow> 'a option \<times> 'q"
  assumes send_accepts: "inv q \<Longrightarrow> send t v q = (True, q') \<Longrightarrow>
      inv q' \<and> items q' = items q @ [v] \<and> cap q' = cap q \<and> closed q' = closed q"
    and send_refuses: "inv q \<Longrightarrow> send t v q = (False, q') \<Longrightarrow>
      inv q' \<and> items q' = items q \<and> cap q' = cap q \<and> closed q' = closed q"
    and recv_empty: "inv q \<Longrightarrow> items q = [] \<Longrightarrow> recv t q = (None, q)"
    and recv_first: "inv q \<Longrightarrow> items q = v # vs \<Longrightarrow>
      \<exists>q'. recv t q = (Some v, q') \<and> inv q' \<and> items q' = vs \<and> cap q' = cap q \<and> closed q' = closed q"
    and reserve_free: "inv q \<Longrightarrow> length (filter (\<lambda>v. \<not> crit v) (items q)) + reserve (cap q) \<le> cap q"
    and refused_only_full: "inv q \<Longrightarrow> crit v \<Longrightarrow> send t v q = (False, q') \<Longrightarrow>
      closed q \<or> length (items q) = cap q"
begin

lemma critical_refused_reserve:
  assumes "inv q" "crit v" "send t v q = (False, q')" "\<not> closed q"
  shows "reserve (cap q) \<le> length (filter crit (items q))"
proof -
  have "length (items q) = cap q" using refused_only_full assms by blast
  moreover have "length (items q)
      = length (filter crit (items q)) + length (filter (\<lambda>v. \<not> crit v) (items q))"
    by (simp add: sum_length_filter_compl)
  ultimately show ?thesis using reserve_free [OF assms(1)] by linarith
qed

text \<open>A script of sends and receives: the values accepted, and those received, in order.\<close>

primrec run :: "(u64 \<times> 'a option) list \<Rightarrow> 'q \<Rightarrow> 'a list \<times> 'a list \<times> 'q" where
  "run [] q = ([], [], q)"
| "run (op # ops) q =
     (case op of
        (t, Some v) \<Rightarrow>
          (case send t v q of
             (ok, q') \<Rightarrow>
               (case run ops q' of
                  (accepted, received, q'') \<Rightarrow> (if ok then v # accepted else accepted, received, q'')))
      | (t, None) \<Rightarrow>
          (case recv t q of
             (None, q') \<Rightarrow> run ops q'
           | (Some v, q') \<Rightarrow>
               (case run ops q' of (accepted, received, q'') \<Rightarrow> (accepted, v # received, q''))))"

lemma run_fifo:
  "inv q \<Longrightarrow> run ops q = (accepted, received, q') \<Longrightarrow>
     inv q' \<and> items q @ accepted = received @ items q' \<and> cap q' = cap q"
proof (induction ops arbitrary: q accepted received q')
  case Nil
  then show ?case by simp
next
  case (Cons op ops)
  obtain t ov where op: "op = (t, ov)" by (cases op)
  show ?case
  proof (cases ov)
    case (Some v)
    obtain ok q1 where sent: "send t v q = (ok, q1)" by fastforce
    obtain acc rcv q2 where rest: "run ops q1 = (acc, rcv, q2)" by (metis prod_cases3)
    have q1: "inv q1 \<and> items q1 = items q @ (if ok then [v] else []) \<and> cap q1 = cap q"
      using send_accepts [OF Cons.prems(1)] send_refuses [OF Cons.prems(1)] sent
      by (cases ok) auto
    with Cons.IH [OF _ rest] Cons.prems(2) sent rest show ?thesis
      by (auto simp: op Some split: if_splits)
  next
    case None
    show ?thesis
    proof (cases "items q")
      case Nil
      then have "run ops q = (accepted, received, q')"
        using recv_empty [OF Cons.prems(1) Nil, of t] Cons.prems(2) by (simp add: op None)
      then show ?thesis using Cons.IH Cons.prems(1) by blast
    next
      case items: (Cons v vs)
      obtain q1 where q1: "recv t q = (Some v, q1)" "inv q1" "items q1 = vs" "cap q1 = cap q"
        using recv_first [OF Cons.prems(1) items, of t] by blast
      obtain acc rcv q2 where rest: "run ops q1 = (acc, rcv, q2)" by (metis prod_cases3)
      show ?thesis
        using Cons.IH [OF q1(2) rest] Cons.prems(2) rest q1 items by (auto simp: op None)
    qed
  qed
qed

end

section \<open>Both queues keep the interface\<close>

definition permits :: "'a entry list \<Rightarrow> nat" where
  "permits es = length (filter entry_permit es)"

definition entries_ok :: "('a \<Rightarrow> bool) \<Rightarrow> 'a entry list \<Rightarrow> bool" where
  "entries_ok crit es \<longleftrightarrow> (\<forall>e \<in> set es. entry_permit e = (\<not> crit (entry_value e)))"

definition queue_inv :: "('a \<Rightarrow> bool) \<Rightarrow> 'a midi_queue \<Rightarrow> bool" where
  "queue_inv crit q \<longleftrightarrow> entries_ok crit (q_entries q) \<and> q_used q = permits (q_entries q)
     \<and> q_used q \<le> q_limit q \<and> length (q_entries q) \<le> q_capacity q
     \<and> q_limit q = q_capacity q - reserve (q_capacity q)"

definition async_inv :: "('a \<Rightarrow> bool) \<Rightarrow> 'a async_queue \<Rightarrow> bool" where
  "async_inv crit q \<longleftrightarrow> entries_ok crit (aq_entries q)
     \<and> aq_permits q + permits (aq_entries q) = aq_capacity q - reserve (aq_capacity q)
     \<and> length (aq_entries q) \<le> aq_capacity q"

lemma permits_simps [simp]:
  "permits [] = 0" "permits (e # es) = (if entry_permit e then Suc (permits es) else permits es)"
  "permits (es @ es') = permits es + permits es'"
  by (simp_all add: permits_def)

lemma entries_ok_simps [simp]:
  "entries_ok crit []"
  "entries_ok crit (e # es) \<longleftrightarrow> entry_permit e = (\<not> crit (entry_value e)) \<and> entries_ok crit es"
  "entries_ok crit (es @ es') \<longleftrightarrow> entries_ok crit es \<and> entries_ok crit es'"
  by (auto simp: entries_ok_def)

lemma reserve_le: "reserve n \<le> n"
  by (simp add: reserve_def min_def) linarith

lemma noncritical_permits:
  "entries_ok crit es \<Longrightarrow> length (filter (\<lambda>v. \<not> crit v) (map entry_value es)) = permits es"
  by (induction es) auto

lemma queue_inv_bounded: "queue_inv crit (bounded name capacity)"
  by (simp add: queue_inv_def bounded_def)

lemma async_inv_channel: "async_inv crit (async_channel name capacity)"
  by (simp add: async_inv_def async_channel_def)

text \<open>The operations as the interface has them: whether a send was accepted, and the queue.\<close>

abbreviation queue_send :: "('a \<Rightarrow> bool) \<Rightarrow> bool \<Rightarrow> u64 \<Rightarrow> 'a \<Rightarrow> 'a midi_queue \<Rightarrow> bool \<times> 'a midi_queue" where
  "queue_send crit abandoned t v q \<equiv>
     (case try_send_inner crit t abandoned v q of (r, q') \<Rightarrow> (is_ok r, q'))"

abbreviation async_send :: "('a \<Rightarrow> bool) \<Rightarrow> u64 \<Rightarrow> 'a \<Rightarrow> 'a async_queue \<Rightarrow> bool \<times> 'a async_queue" where
  "async_send crit t v q \<equiv> (case async_try_send crit t v q of (r, q') \<Rightarrow> (is_ok r, q'))"

lemmas queue_defs = try_send_inner_def channel_try_send_def Let_def

lemma queue_send_accepts:
  "queue_inv crit q \<Longrightarrow> queue_send crit abandoned t v q = (True, q') \<Longrightarrow>
     queue_inv crit q' \<and> map entry_value (q_entries q') = map entry_value (q_entries q) @ [v]
     \<and> q_capacity q' = q_capacity q \<and> (\<not> q_receiver_alive q') = (\<not> q_receiver_alive q)"
  by (auto simp: queue_defs queue_inv_def split: if_splits)

lemma queue_send_refuses:
  "queue_inv crit q \<Longrightarrow> queue_send crit abandoned t v q = (False, q') \<Longrightarrow>
     queue_inv crit q' \<and> map entry_value (q_entries q') = map entry_value (q_entries q)
     \<and> q_capacity q' = q_capacity q \<and> (\<not> q_receiver_alive q') = (\<not> q_receiver_alive q)"
  by (auto simp: queue_defs queue_inv_def split: if_splits)

interpretation sync_queue: reserve_queue crit "queue_inv crit" "\<lambda>q. map entry_value (q_entries q)"
    q_capacity "\<lambda>q. \<not> q_receiver_alive q" "queue_send crit abandoned" "try_recv frequency"
  for crit :: "'a \<Rightarrow> bool" and abandoned frequency
proof unfold_locales
  fix q q' :: "'a midi_queue" and t v
  assume "queue_inv crit q" "queue_send crit abandoned t v q = (True, q')"
  then show "queue_inv crit q' \<and> map entry_value (q_entries q') = map entry_value (q_entries q) @ [v]
     \<and> q_capacity q' = q_capacity q \<and> (\<not> q_receiver_alive q') = (\<not> q_receiver_alive q)"
    by (rule queue_send_accepts)
next
  fix q q' :: "'a midi_queue" and t v
  assume "queue_inv crit q" "queue_send crit abandoned t v q = (False, q')"
  then show "queue_inv crit q' \<and> map entry_value (q_entries q') = map entry_value (q_entries q)
     \<and> q_capacity q' = q_capacity q \<and> (\<not> q_receiver_alive q') = (\<not> q_receiver_alive q)"
    by (rule queue_send_refuses)
next
  fix q :: "'a midi_queue" and t
  assume "map entry_value (q_entries q) = []"
  then show "try_recv frequency t q = (None, q)" by (simp add: try_recv_def)
next
  fix q :: "'a midi_queue" and v vs t
  assume "queue_inv crit q" "map entry_value (q_entries q) = v # vs"
  then show "\<exists>q'. try_recv frequency t q = (Some v, q') \<and> queue_inv crit q'
     \<and> map entry_value (q_entries q') = vs \<and> q_capacity q' = q_capacity q
     \<and> (\<not> q_receiver_alive q') = (\<not> q_receiver_alive q)"
    by (auto simp: try_recv_def queue_inv_def map_eq_Cons_conv split: if_splits)
next
  fix q :: "'a midi_queue"
  assume "queue_inv crit q"
  then show "length (filter (\<lambda>v. \<not> crit v) (map entry_value (q_entries q))) + reserve (q_capacity q)
      \<le> q_capacity q"
    using reserve_le [of "q_capacity q"] noncritical_permits [of crit "q_entries q"]
    by (auto simp: queue_inv_def)
next
  fix q q' :: "'a midi_queue" and v t
  assume "queue_inv crit q" "crit v" "queue_send crit abandoned t v q = (False, q')"
  then show "\<not> q_receiver_alive q \<or> length (map entry_value (q_entries q)) = q_capacity q"
    by (auto simp: queue_defs queue_inv_def split: if_splits)
qed

lemmas async_defs = async_try_send_def async_inv_def Let_def

interpretation async_queue: reserve_queue crit "async_inv crit" "\<lambda>q. map entry_value (aq_entries q)"
    aq_capacity aq_closed "async_send crit" "async_try_recv frequency"
  for crit :: "'a \<Rightarrow> bool" and frequency
proof unfold_locales
  fix q q' :: "'a async_queue" and t v
  assume "async_inv crit q" "async_send crit t v q = (True, q')"
  then show "async_inv crit q' \<and> map entry_value (aq_entries q') = map entry_value (aq_entries q) @ [v]
     \<and> aq_capacity q' = aq_capacity q \<and> aq_closed q' = aq_closed q"
    by (auto simp: async_defs split: if_splits)
next
  fix q q' :: "'a async_queue" and t v
  assume "async_inv crit q" "async_send crit t v q = (False, q')"
  then show "async_inv crit q' \<and> map entry_value (aq_entries q') = map entry_value (aq_entries q)
     \<and> aq_capacity q' = aq_capacity q \<and> aq_closed q' = aq_closed q"
    by (auto simp: async_defs split: if_splits)
next
  fix q :: "'a async_queue" and t
  assume "map entry_value (aq_entries q) = []"
  then show "async_try_recv frequency t q = (None, q)" by (simp add: async_try_recv_def)
next
  fix q :: "'a async_queue" and v vs t
  assume "async_inv crit q" "map entry_value (aq_entries q) = v # vs"
  then show "\<exists>q'. async_try_recv frequency t q = (Some v, q') \<and> async_inv crit q'
     \<and> map entry_value (aq_entries q') = vs \<and> aq_capacity q' = aq_capacity q
     \<and> aq_closed q' = aq_closed q"
    by (auto simp: async_try_recv_def async_inv_def map_eq_Cons_conv split: if_splits)
next
  fix q :: "'a async_queue"
  assume "async_inv crit q"
  then show "length (filter (\<lambda>v. \<not> crit v) (map entry_value (aq_entries q))) + reserve (aq_capacity q)
      \<le> aq_capacity q"
    using reserve_le [of "aq_capacity q"] noncritical_permits [of crit "aq_entries q"]
    by (auto simp: async_inv_def)
next
  fix q q' :: "'a async_queue" and v t
  assume "async_inv crit q" "crit v" "async_send crit t v q = (False, q')"
  then show "aq_closed q \<or> length (map entry_value (aq_entries q)) = aq_capacity q"
    by (auto simp: async_defs split: if_splits)
qed

text \<open>
  Both queues are first-in first-out and exact. After any script of sends and receives on a
  new queue, the messages received, followed by those still queued, are the messages
  accepted, in the order they were accepted; none is lost, duplicated or overtaken, critical
  or not.
\<close>

theorem queues_are_fifo:
  "(case sync_queue.run crit abandoned frequency ops (bounded name capacity) of
      (accepted, received, q) \<Rightarrow> accepted = received @ map entry_value (q_entries q)
         \<and> length (q_entries q) \<le> capacity)
   \<and> (case async_queue.run crit frequency ops (async_channel name capacity) of
      (accepted, received, q) \<Rightarrow> accepted = received @ map entry_value (aq_entries q)
         \<and> length (aq_entries q) \<le> capacity)"
proof -
  obtain acc rcv q where sync: "sync_queue.run crit abandoned frequency ops (bounded name capacity) = (acc, rcv, q)"
    by (metis prod_cases3)
  obtain acc' rcv' q' where async: "async_queue.run crit frequency ops (async_channel name capacity) = (acc', rcv', q')"
    by (metis prod_cases3)
  show ?thesis
    using sync_queue.run_fifo [OF queue_inv_bounded sync] async_queue.run_fifo [OF async_inv_channel async]
    by (simp add: sync async queue_inv_def async_inv_def) (simp add: bounded_def async_channel_def)
qed

text \<open>
  A release is refused by an open queue only when the queue already holds releases for the
  whole reserve (an eighth of the capacity, at most 256), on both queues and for a send that
  may be retried or not: note messages alone can never crowd out a release.
\<close>

theorem release_refused_only_by_releases:
  assumes "crit v"
    and "queue_inv crit q" "q_receiver_alive q" "try_send_inner crit t abandoned v q = (Inl e, q')"
    and "async_inv crit aq" "\<not> aq_closed aq" "async_try_send crit t v aq = (Inl e', aq')"
  shows "min 256 (q_capacity q div 8) \<le> length (filter crit (map entry_value (q_entries q)))
    \<and> min 256 (aq_capacity aq div 8) \<le> length (filter crit (map entry_value (aq_entries aq)))"
  using sync_queue.critical_refused_reserve [where abandoned = abandoned and t = t and q' = q', OF assms(2,1)]
    async_queue.critical_refused_reserve [where t = t and q' = aq', OF assms(5,1)] assms
  by (simp add: reserve_def)

theorem release_refused_only_by_releases_witness:
  "fst (try_send_inner (\<lambda>v. v) 0 True True
        ((bounded '''' 8)\<lparr>q_entries := replicate 8 \<lparr>queued_qpc = 0, entry_value = True, entry_permit = False\<rparr>\<rparr>))
     = Inl (Full True)
   \<and> 1 \<le> length (filter (\<lambda>v. v) (map entry_value
       (replicate 8 \<lparr>queued_qpc = 0, entry_value = True, entry_permit = False\<rparr>)))"
proof -
  let ?es = "replicate 8 \<lparr>queued_qpc = 0, entry_value = True, entry_permit = False\<rparr>"
  let ?q = "(bounded '''' 8)\<lparr>q_entries := ?es\<rparr>" and ?aq = "(async_channel '''' 8)\<lparr>aq_entries := ?es\<rparr>"
  have permits: "permits ?es = 0" "entries_ok (\<lambda>v. v) ?es"
    by (simp_all add: permits_def entries_ok_def)
  have q: "queue_inv (\<lambda>v. v) ?q" "q_receiver_alive ?q" and aq: "async_inv (\<lambda>v. v) ?aq" "\<not> aq_closed ?aq"
    using permits by (simp_all add: queue_inv_def async_inv_def bounded_def async_channel_def)
  obtain q' where sent: "try_send_inner (\<lambda>v. v) 0 True True ?q = (Inl (Full True), q')"
    by (simp add: queue_defs bounded_def)
  obtain aq' where asent: "async_try_send (\<lambda>v. v) 0 True ?aq = (Inl (Full True), aq')"
    by (simp add: async_try_send_def Let_def async_channel_def)
  from release_refused_only_by_releases [where crit = "\<lambda>v. v", OF _ q sent aq asent]
  show ?thesis using sent by (simp add: bounded_def)
qed

section \<open>Senders and receivers in any interleaving\<close>

text \<open>
  The atomic steps of concurrent calls. A sender first takes a permit (\<open>fetch_update\<close>), then
  pushes; a receiver first pops, then returns the permit as the entry is dropped.
  \<open>cs_holding\<close> are the values whose senders hold a permit and have not pushed,
  \<open>cs_leaving\<close> counts the permits of popped entries not yet returned; \<open>cs_pushed\<close> and
  \<open>cs_gone\<close> are histories. Counters and hooks change at any time.
\<close>

record 'a concurrent =
  cs_queue :: "'a midi_queue"
  cs_holding :: "'a list"
  cs_leaving :: nat
  cs_pushed :: "'a list"
  cs_gone :: "'a list"

inductive queue_step :: "('a \<Rightarrow> bool) \<Rightarrow> 'a concurrent \<Rightarrow> 'a concurrent \<Rightarrow> bool" for crit where
  acquire: "\<not> crit v \<Longrightarrow> q_used (cs_queue s) < q_limit (cs_queue s) \<Longrightarrow>
    queue_step crit s (s\<lparr>cs_queue := (cs_queue s)\<lparr>q_used := q_used (cs_queue s) + 1\<rparr>,
                         cs_holding := v # cs_holding s\<rparr>)"
| push: "v \<in> set (cs_holding s) \<Longrightarrow>
    channel_try_send \<lparr>queued_qpc = t, entry_value = v, entry_permit = True\<rparr> (cs_queue s) = (None, q) \<Longrightarrow>
    queue_step crit s (s\<lparr>cs_queue := q, cs_holding := remove1 v (cs_holding s),
                         cs_pushed := cs_pushed s @ [v]\<rparr>)"
| push_fails: "v \<in> set (cs_holding s) \<Longrightarrow>
    channel_try_send \<lparr>queued_qpc = t, entry_value = v, entry_permit = True\<rparr> (cs_queue s) = (Some e, q) \<Longrightarrow>
    queue_step crit s (s\<lparr>cs_queue := q\<lparr>q_used := q_used q - 1\<rparr>,
                         cs_holding := remove1 v (cs_holding s)\<rparr>)"
| push_critical: "crit v \<Longrightarrow>
    channel_try_send \<lparr>queued_qpc = t, entry_value = v, entry_permit = False\<rparr> (cs_queue s) = (None, q) \<Longrightarrow>
    queue_step crit s (s\<lparr>cs_queue := q, cs_pushed := cs_pushed s @ [v]\<rparr>)"
| pop: "q_entries (cs_queue s) = e # es \<Longrightarrow>
    queue_step crit s (s\<lparr>cs_queue := (cs_queue s)\<lparr>q_entries := es\<rparr>,
                         cs_leaving := cs_leaving s + (if entry_permit e then 1 else 0),
                         cs_gone := cs_gone s @ [entry_value e]\<rparr>)"
| release: "0 < cs_leaving s \<Longrightarrow>
    queue_step crit s (s\<lparr>cs_queue := (cs_queue s)\<lparr>q_used := q_used (cs_queue s) - 1\<rparr>,
                         cs_leaving := cs_leaving s - 1\<rparr>)"
| close: "queue_step crit s (s\<lparr>cs_queue := (cs_queue s)\<lparr>q_receiver_alive := False, q_entries := []\<rparr>,
                         cs_leaving := cs_leaving s + permits (q_entries (cs_queue s)),
                         cs_gone := cs_gone s @ map entry_value (q_entries (cs_queue s))\<rparr>)"
| bookkeeping: "queue_step crit s (s\<lparr>cs_queue := (cs_queue s)\<lparr>q_recovery := r, q_preparation := p\<rparr>\<rparr>)"

inductive_cases queue_stepE: "queue_step crit s s'"

definition concurrent_start :: "string \<Rightarrow> nat \<Rightarrow> 'a concurrent" where
  "concurrent_start name capacity =
     \<lparr>cs_queue = bounded name capacity, cs_holding = [], cs_leaving = 0, cs_pushed = [], cs_gone = []\<rparr>"

definition concurrent_inv :: "('a \<Rightarrow> bool) \<Rightarrow> nat \<Rightarrow> 'a concurrent \<Rightarrow> bool" where
  "concurrent_inv crit capacity s \<longleftrightarrow>
     (let q = cs_queue s in
        entries_ok crit (q_entries q)
        \<and> q_used q = length (cs_holding s) + permits (q_entries q) + cs_leaving s
        \<and> q_used q \<le> q_limit q \<and> length (q_entries q) \<le> q_capacity q
        \<and> q_capacity q = capacity \<and> q_limit q = capacity - reserve capacity
        \<and> (\<forall>v \<in> set (cs_holding s). \<not> crit v)
        \<and> cs_pushed s = cs_gone s @ map entry_value (q_entries q))"

lemma concurrent_inv_start: "concurrent_inv crit capacity (concurrent_start name capacity)"
  by (simp add: concurrent_inv_def concurrent_start_def bounded_def)

lemma length_remove1_Suc: "v \<in> set vs \<Longrightarrow> length vs = Suc (length (remove1 v vs))"
  by (induction vs) auto

lemma concurrent_inv_step:
  assumes "queue_step crit s s'" "concurrent_inv crit capacity s"
  shows "concurrent_inv crit capacity s'"
  using assms
proof cases
  case (push v t q)
  with length_remove1_Suc [OF push(2)] assms(2) show ?thesis
    by (auto simp: concurrent_inv_def channel_try_send_def Let_def split: if_splits dest: notin_set_remove1)
next
  case (push_fails v t e q)
  with length_remove1_Suc [OF push_fails(2)] assms(2) show ?thesis
    by (auto simp: concurrent_inv_def channel_try_send_def Let_def split: if_splits dest: notin_set_remove1)
qed (auto simp: concurrent_inv_def channel_try_send_def Let_def split: if_splits)

text \<open>
  C35: the reserve survives every interleaving. However sends, receives, failed pushes, returning
  permits and the receiver's end are interleaved, the permits in use are exactly those of
  senders about to push, of queued entries and of entries being dropped; messages that are
  not releases leave the reserve free; and the queue's history is first-in first-out.
\<close>

theorem reserve_under_interleaving:
  assumes "(queue_step crit)\<^sup>*\<^sup>* (concurrent_start name capacity) s"
  shows "q_used (cs_queue s) = length (cs_holding s) + permits (q_entries (cs_queue s)) + cs_leaving s
    \<and> length (filter (\<lambda>v. \<not> crit v) (map entry_value (q_entries (cs_queue s))))
        + length (cs_holding s) + min 256 (capacity div 8) \<le> capacity
    \<and> length (q_entries (cs_queue s)) \<le> capacity
    \<and> cs_pushed s = cs_gone s @ map entry_value (q_entries (cs_queue s))"
proof -
  from assms have "concurrent_inv crit capacity s"
    by induction (auto intro: concurrent_inv_start concurrent_inv_step)
  then show ?thesis
    using noncritical_permits [of crit "q_entries (cs_queue s)"] reserve_le [of capacity]
    unfolding concurrent_inv_def Let_def reserve_def [symmetric] by linarith
qed

theorem reserve_under_interleaving_witness:
  "\<exists>s. (queue_step (\<lambda>v. v))\<^sup>*\<^sup>* (concurrent_start '''' 8) s \<and> cs_holding s = [False]
     \<and> q_used (cs_queue s) = 1
     \<and> length (filter (\<lambda>v. \<not> v) (map entry_value (q_entries (cs_queue s)))) + 2 \<le> 8"
proof -
  let ?start = "concurrent_start '''' 8 :: bool concurrent"
  let ?s = "?start\<lparr>cs_queue := (cs_queue ?start)\<lparr>q_used := q_used (cs_queue ?start) + 1\<rparr>,
                cs_holding := False # cs_holding ?start\<rparr>"
  have "queue_step (\<lambda>v. v) ?start ?s"
    using queue_step.acquire [where crit = "\<lambda>v. v" and v = False and s = ?start]
    by (simp add: concurrent_start_def bounded_def reserve_def)
  then have reach: "(queue_step (\<lambda>v. v))\<^sup>*\<^sup>* ?start ?s" by (rule r_into_rtranclp)
  have "cs_holding ?s = [False]" "q_used (cs_queue ?s) = 1"
    by (simp_all add: concurrent_start_def bounded_def)
  with reserve_under_interleaving [OF reach] reach show ?thesis
    by (intro exI [of _ ?s]) simp
qed

text \<open>A sequential call is a path of atomic steps, up to the histories.\<close>

definition at_rest :: "'a list \<Rightarrow> 'a list \<Rightarrow> 'a midi_queue \<Rightarrow> 'a concurrent" where
  "at_rest pushed gone q =
     \<lparr>cs_queue = q, cs_holding = [], cs_leaving = 0, cs_pushed = pushed, cs_gone = gone\<rparr>"

lemma bookkeeping_step:
  "queue_step crit (at_rest p g q) (at_rest p g (q\<lparr>q_recovery := r\<rparr>))"
  using queue_step.bookkeeping [where crit = crit and s = "at_rest p g q" and r = r and p = "q_preparation q"]
  by (simp add: at_rest_def)

lemma refused_path:
  "crit v \<Longrightarrow> (queue_step crit)\<^sup>*\<^sup>* (at_rest p g q) (at_rest p g (q\<lparr>q_recovery := r\<rparr>))"
  by (rule r_into_rtranclp, rule bookkeeping_step)

lemma held_state:
  assumes "\<not> crit v" "q_used q < q_limit q"
  shows "queue_step crit (at_rest p g q)
    \<lparr>cs_queue = q\<lparr>q_used := q_used q + 1\<rparr>, cs_holding = [v], cs_leaving = 0, cs_pushed = p, cs_gone = g\<rparr>"
  using queue_step.acquire [where crit = crit and v = v and s = "at_rest p g q"] assms by (simp add: at_rest_def)

lemma noncritical_send_path:
  assumes "\<not> crit v" "q_used q < q_limit q"
    "channel_try_send \<lparr>queued_qpc = t, entry_value = v, entry_permit = True\<rparr>
       (q\<lparr>q_used := q_used q + 1\<rparr>) = (r, q2)"
  shows "(queue_step crit)\<^sup>*\<^sup>* (at_rest p g q)
    (case r of None \<Rightarrow> at_rest (p @ [v]) g q2 | Some _ \<Rightarrow> at_rest p g (q2\<lparr>q_used := q_used q2 - 1\<rparr>))"
proof -
  let ?h = "\<lparr>cs_queue = q\<lparr>q_used := q_used q + 1\<rparr>, cs_holding = [v], cs_leaving = 0,
     cs_pushed = p, cs_gone = g\<rparr>"
  have "queue_step crit ?h
    (case r of None \<Rightarrow> at_rest (p @ [v]) g q2 | Some _ \<Rightarrow> at_rest p g (q2\<lparr>q_used := q_used q2 - 1\<rparr>))"
    using queue_step.push [of v ?h t q2 crit] queue_step.push_fails [of v ?h t _ q2 crit] assms(3)
    by (auto simp: at_rest_def split: option.split)
  with held_state [where crit = crit and v = v, OF assms(1,2)] show ?thesis by (meson converse_rtranclp_into_rtranclp r_into_rtranclp)
qed

lemma try_send_path:
  assumes "try_send_inner crit t abandoned v q = (r, q')"
  shows "(queue_step crit)\<^sup>*\<^sup>* (at_rest p g q) (at_rest (if is_ok r then p @ [v] else p) g q')"
proof (cases "crit v")
  case True
  show ?thesis
  proof (cases "channel_try_send \<lparr>queued_qpc = t, entry_value = v, entry_permit = False\<rparr> q")
    case (Pair r1 q2)
    show ?thesis
    proof (cases r1)
      case None
      have "queue_step crit (at_rest p g q) (at_rest (p @ [v]) g q2)"
        using queue_step.push_critical [of crit v t "at_rest p g q" q2] True Pair None
        by (simp add: at_rest_def)
      moreover have "queue_step crit (at_rest (p @ [v]) g q2) (at_rest (p @ [v]) g q')" "is_ok r"
        using assms True Pair None bookkeeping_step by (auto simp: try_send_inner_def Let_def)
      ultimately show ?thesis by simp
    next
      case (Some e)
      then have "q2 = q" using Pair by (simp add: channel_try_send_def split: if_splits)
      then show ?thesis
        using assms True Pair Some refused_path [where crit = crit and v = v, OF True]
        by (auto simp: try_send_inner_def Let_def)
    qed
  qed
next
  case False
  show ?thesis
  proof (cases "q_used q < q_limit q")
    case no_permit: False
    with False assms show ?thesis
      using bookkeeping_step by (auto simp: try_send_inner_def Let_def intro!: r_into_rtranclp)
  next
    case permit: True
    obtain r1 q2 where sent: "channel_try_send \<lparr>queued_qpc = t, entry_value = v, entry_permit = True\<rparr>
        (q\<lparr>q_used := q_used q + 1\<rparr>) = (r1, q2)" by fastforce
    note path = noncritical_send_path [where crit = crit and v = v and p = p and g = g, OF False permit sent]
    show ?thesis
      using assms False permit sent path bookkeeping_step
      by (cases r1) (auto simp: try_send_inner_def Let_def elim!: rtranclp.rtrancl_into_rtrancl)
  qed
qed

lemma try_recv_path:
  assumes "try_recv frequency t q = (r, q')"
  shows "(queue_step crit)\<^sup>*\<^sup>* (at_rest p g q)
    (at_rest p (case r of None \<Rightarrow> g | Some v \<Rightarrow> g @ [v]) q')"
proof (cases "q_entries q")
  case Nil
  with assms show ?thesis by (simp add: try_recv_def)
next
  case (Cons e es)
  let ?c = "consumed frequency t (queued_qpc e) (q_recovery q)"
  let ?s1 = "\<lparr>cs_queue = q\<lparr>q_entries := es\<rparr>, cs_holding = [],
     cs_leaving = (if entry_permit e then 1 else 0), cs_pushed = p, cs_gone = g @ [entry_value e]\<rparr>"
  let ?s2 = "?s1\<lparr>cs_queue := q\<lparr>q_entries := es, q_recovery := ?c\<rparr>\<rparr>"
  have "queue_step crit (at_rest p g q) ?s1"
    using queue_step.pop [of "at_rest p g q" e es crit] Cons by (simp add: at_rest_def)
  moreover have "queue_step crit ?s1 ?s2"
    using queue_step.bookkeeping [where crit = crit and s = ?s1 and r = ?c and p = "q_preparation q"]
    by simp
  moreover have "(queue_step crit)\<^sup>*\<^sup>* ?s2 (at_rest p (g @ [entry_value e]) q')"
  proof (cases "entry_permit e")
    case True
    then show ?thesis
      using queue_step.release [of ?s2 crit] assms Cons
      by (auto simp: at_rest_def try_recv_def intro!: r_into_rtranclp)
  next
    case False
    then show ?thesis using assms Cons by (simp add: at_rest_def try_recv_def)
  qed
  ultimately show ?thesis
    using assms Cons by (auto simp: try_recv_def intro: converse_rtranclp_into_rtranclp)
qed

text \<open>
  The handlers are what the interleaving model interleaves. Run alone, \<open>try_send_inner\<close>
  (with either retry flag) and \<open>try_recv\<close> are paths of the atomic steps, and these push
  exactly the value of an accepted send and pop exactly the value received.
\<close>

theorem handlers_are_atomic_steps:
  "(case try_send_inner crit t abandoned v q of (r, q') \<Rightarrow>
      (queue_step crit)\<^sup>*\<^sup>* (at_rest pushed gone q) (at_rest (if is_ok r then pushed @ [v] else pushed) gone q'))
   \<and> (case try_recv frequency t q of (r, q') \<Rightarrow>
      (queue_step crit)\<^sup>*\<^sup>* (at_rest pushed gone q)
        (at_rest pushed (case r of None \<Rightarrow> gone | Some v \<Rightarrow> gone @ [v]) q'))"
  using try_send_path try_recv_path by (metis (mono_tags, lifting) case_prod_beta' prod.collapse)

section \<open>Counters\<close>

lemma run_counts:
  assumes "sync_queue.run crit abandoned frequency ops q = (accepted, received, q')"
  shows "rec_admitted (q_recovery q') = rec_admitted (q_recovery q) + of_nat (length accepted)
    \<and> rec_consumed (q_recovery q') = rec_consumed (q_recovery q) + of_nat (length received)
    \<and> length accepted \<le> length ops"
  using assms
proof (induction ops arbitrary: q accepted received q')
  case Nil
  then show ?case by simp
next
  case (Cons op ops)
  obtain t ov where op: "op = (t, ov)" by (cases op)
  show ?case
  proof (cases ov)
    case (Some v)
    obtain r q1 where sent: "try_send_inner crit t abandoned v q = (r, q1)" by fastforce
    obtain acc rcv q2 where rest: "sync_queue.run crit abandoned frequency ops q1 = (acc, rcv, q2)"
      by (metis prod_cases3)
    have "rec_admitted (q_recovery q1) = rec_admitted (q_recovery q) + (if is_ok r then 1 else 0)"
      "rec_consumed (q_recovery q1) = rec_consumed (q_recovery q)"
      using sent by (auto simp: queue_defs admitted_def rejected_def dropped_def split: if_splits)
    with Cons.IH [OF rest] Cons.prems sent rest show ?thesis
      by (auto simp: op Some split: if_splits)
  next
    case None
    obtain r q1 where got: "try_recv frequency t q = (r, q1)" by fastforce
    obtain acc rcv q2 where rest: "sync_queue.run crit abandoned frequency ops q1 = (acc, rcv, q2)"
      by (metis prod_cases3)
    have "rec_admitted (q_recovery q1) = rec_admitted (q_recovery q)"
      "rec_consumed (q_recovery q1) = rec_consumed (q_recovery q) + (if r = None then 0 else 1)"
      using got by (auto simp: try_recv_def consumed_def split: list.splits)
    with Cons.IH [OF rest] Cons.prems got rest show ?thesis
      by (auto simp: op None split: option.splits)
  qed
qed

text \<open>
  The diagnostics tell the truth. After any script of fewer than \<open>2 ^ 64\<close> calls on a new queue
  the reported depth is the number of messages in the queue, although it is computed from two
  wrapping counters.
\<close>

theorem reported_depth_exact:
  assumes "length ops < 2 ^ 64"
  shows "(case sync_queue.run crit abandoned frequency ops (bounded name capacity) of
    (accepted, received, q) \<Rightarrow> unat (qd_depth (snapshot (q_recovery q))) = length (q_entries q))"
proof -
  obtain acc rcv q where run: "sync_queue.run crit abandoned frequency ops (bounded name capacity) = (acc, rcv, q)"
    by (metis prod_cases3)
  have "acc = rcv @ map entry_value (q_entries q)"
    using sync_queue.run_fifo [OF queue_inv_bounded run] by (simp add: bounded_def)
  then have len: "length acc = length rcv + length (q_entries q)" by simp
  have small: "length acc < 2 ^ 64" using run_counts [OF run] assms by simp
  moreover from this have "length rcv < 2 ^ 64" using len by linarith
  ultimately have "unat (of_nat (length acc) :: u64) = length acc"
    "unat (of_nat (length rcv) :: u64) = length rcv"
    by (simp_all add: unat_of_nat)
  moreover have "rec_admitted (q_recovery q) = of_nat (length acc)"
    "rec_consumed (q_recovery q) = of_nat (length rcv)"
    using run_counts [OF run] by (simp_all add: bounded_def new_recovery_def)
  ultimately have "unat (qd_depth (snapshot (q_recovery q))) = length acc - length rcv"
    by (simp add: snapshot_def unat_saturating_sub)
  with run len show ?thesis by simp
qed

theorem reported_depth_exact_witness:
  "(case sync_queue.run (\<lambda>v. v) True 1000 [(0, Some True), (1, Some False), (2, None)]
      (bounded '''' 8) of
    (accepted, received, q) \<Rightarrow> unat (qd_depth (snapshot (q_recovery q))) = length (q_entries q))"
  by (rule reported_depth_exact) simp

text \<open>
  A consumer discards exactly the messages of an earlier generation. A message of the
  current generation is never discarded: it waits while the reset is pending and is played
  as soon as the reset has been handled; nothing is played while a reset is pending.
\<close>

theorem generation_action_sound:
  assumes "fst event \<le> fst current" "snd event \<le> snd current"
  shows "(generation_action event handled current = Discard \<longleftrightarrow> event \<noteq> current)
    \<and> (generation_action event handled current = Ready \<longleftrightarrow> event = current \<and> handled = current)
    \<and> (generation_action event handled current = Defer \<longleftrightarrow> event = current \<and> handled \<noteq> current)"
  using assms by (auto simp: generation_action_def prod_eq_iff order_le_less)

theorem generation_action_sound_witness:
  "generation_action (3, 5) (3, 4) (3, 5) = Defer \<and> generation_action (3, 4) (3, 5) (3, 5) = Discard"
  using generation_action_sound [of "(3, 5)" "(3, 5)" "(3, 4)"] generation_action_sound [of "(3, 4)" "(3, 5)" "(3, 5)"]
  by simp

end
