(* ===== verification/Routing.thy ===== *)
theory Routing
  imports Midi_Queue
begin

text \<open>
  Input routing (\<open>bridge/pipeline.rs\<close>): the runtime form of routing profiles, the snapshot of
  the configuration the routing threads work from, the channel filter, the lookup of a
  source's profile and its application to a message, and the preparation hook that the input
  queue runs before it classifies a message.
\<close>

section \<open>Profiles\<close>

record runtime_profile =
  rt_id :: string
  rt_channel_filter :: "u8 option"
  rt_note_min :: "u8 option"
  rt_note_max :: "u8 option"
  rt_cc_map :: "u8 list"
  rt_program_map :: "u8 list"
  rt_enabled :: bool

text \<open>A map of 128 entries: the identity, overwritten by the mappings in order.\<close>

definition map_table :: "routing_mapping list \<Rightarrow> u8 list" where
  "map_table mappings =
     fold (\<lambda>m table. if rm_from m < 128 \<and> rm_to m < 128
                      then table[unat (rm_from m) := rm_to m] else table)
       mappings (map of_nat [0..<128])"

definition from_profile :: "routing_profile \<Rightarrow> runtime_profile" where
  "from_profile profile =
     \<lparr>rt_id = rp_id profile, rt_channel_filter = rp_channel_filter profile,
      rt_note_min = rp_note_min profile, rt_note_max = rp_note_max profile,
      rt_cc_map = map_table (rp_cc_map profile), rt_program_map = map_table (rp_program_map profile),
      rt_enabled = rp_enabled profile\<rparr>"

section \<open>Configuration snapshots\<close>

text \<open>\<open>rtp_output\<close> is the handle of the outgoing RTP session, whatever it is.\<close>

record 'r config_snapshot =
  cs_rtp_output :: "'r option"
  cs_rtp_thru :: bool
  cs_osc_target_ip :: string
  cs_osc_target_port :: u16
  cs_osc_enabled :: bool
  cs_channel_filter :: "u8 option"
  cs_midi_thru :: bool
  cs_log_osc :: bool
  cs_verbose :: bool
  cs_routing_profiles :: "runtime_profile list"
  cs_routing_assignments :: "(string, nat) hash_map"

definition profile_index :: "runtime_profile list \<Rightarrow> (string, nat) hash_map" where
  "profile_index profiles =
     fold (\<lambda>(idx, profile) index. AList.update (rt_id profile) idx index) (enumerate 0 profiles) []"

definition routing_assignments ::
  "(string, nat) hash_map \<Rightarrow> routing_assignment list \<Rightarrow> (string, nat) hash_map" where
  "routing_assignments index assignments =
     fold (\<lambda>a assigned. case map_of index (ra_profile_id a) of
             None \<Rightarrow> assigned
           | Some idx \<Rightarrow> AList.update (ra_source a) idx assigned) assignments []"

definition snapshot_of :: "app_config \<Rightarrow> 'r config_snapshot" where
  "snapshot_of cfg =
     (let profiles = map from_profile (mc_routing_profiles (cfg_midi cfg)) in
      \<lparr>cs_rtp_output = None, cs_rtp_thru = rc_thru_enabled (cfg_rtp cfg),
       cs_osc_target_ip = oc_target_ip (cfg_osc cfg), cs_osc_target_port = oc_target_port (cfg_osc cfg),
       cs_osc_enabled = oc_enabled (cfg_osc cfg), cs_channel_filter = mc_channel_filter (cfg_midi cfg),
       cs_midi_thru = mc_thru_enabled (cfg_midi cfg),
       cs_log_osc = (oc_log_messages (cfg_osc cfg) \<and> \<not> ac_game_mode (cfg_audio cfg)),
       cs_verbose = (lc_verbose (cfg_logging cfg) \<and> \<not> ac_game_mode (cfg_audio cfg)),
       cs_routing_profiles = profiles,
       cs_routing_assignments =
         routing_assignments (profile_index profiles) (mc_routing_assignments (cfg_midi cfg))\<rparr>)"

text \<open>Equality of hash maps does not depend on the order of their entries.\<close>

definition same_profiles :: "'r config_snapshot \<Rightarrow> 'r config_snapshot \<Rightarrow> bool" where
  "same_profiles a b \<longleftrightarrow> cs_routing_profiles a = cs_routing_profiles b
     \<and> set (cs_routing_assignments a) = set (cs_routing_assignments b)"

section \<open>Applying the routing to a message\<close>

definition accepts_channel :: "u8 option \<Rightarrow> bytes \<Rightarrow> bool" where
  "accepts_channel channel_filter data =
     (case data of
        [] \<Rightarrow> True
      | status # _ \<Rightarrow>
          \<not> (0x80 \<le> status \<and> status < 0xF0
             \<and> (case channel_filter of None \<Rightarrow> False | Some channel \<Rightarrow> (status AND 15) + 1 \<noteq> channel)))"

definition profile_for_source :: "'r config_snapshot \<Rightarrow> string \<Rightarrow> runtime_profile option" where
  "profile_for_source s source =
     (let index =
        (case map_of (cs_routing_assignments s) source of
           Some i \<Rightarrow> Some i
         | None \<Rightarrow>
             (case strip_prefix ''RTP:'' source of
                None \<Rightarrow> None
              | Some rest \<Rightarrow>
                  (case (case rfind ''#ssrc_'' rest of Some at \<Rightarrow> Some at | None \<Rightarrow> rfind ''@'' rest) of
                     None \<Rightarrow> None
                   | Some at \<Rightarrow> map_of (cs_routing_assignments s) (take (4 + at) source))))
      in case index of
           None \<Rightarrow> None
         | Some i \<Rightarrow> if i < length (cs_routing_profiles s) then Some (cs_routing_profiles s ! i) else None)"

text \<open>\<open>apply_routing_profile\<close> on the bytes of the frame it changes.\<close>

definition apply_routing_profile :: "runtime_profile \<Rightarrow> bytes \<Rightarrow> bool \<times> bytes" where
  "apply_routing_profile profile data =
     (case data of
        [] \<Rightarrow> (True, data)
      | status # rest \<Rightarrow>
          if status \<ge> 0xF0 then (True, data)
          else
            let channel = (status AND 0x0F) + 1; kind = status AND 0xF0
            in if (case rt_channel_filter profile of None \<Rightarrow> False | Some wanted \<Rightarrow> channel \<noteq> wanted)
               then (False, data)
               else if kind = 0x80 \<or> kind = 0x90 then
                 (case rest of
                    [] \<Rightarrow> (True, data)
                  | note # _ \<Rightarrow>
                      if (case rt_note_min profile of None \<Rightarrow> False | Some lo \<Rightarrow> note < lo) then (False, data)
                      else if (case rt_note_max profile of None \<Rightarrow> False | Some hi \<Rightarrow> note > hi)
                      then (False, data)
                      else (True, data))
               else if kind = 0xB0 then
                 (case rest of
                    [] \<Rightarrow> (True, data)
                  | cc # _ \<Rightarrow>
                      if unat cc < length (rt_cc_map profile)
                      then (True, data[1 := rt_cc_map profile ! unat cc]) else (False, data))
               else if kind = 0xC0 then
                 (case rest of
                    [] \<Rightarrow> (True, data)
                  | program # _ \<Rightarrow>
                      if unat program < length (rt_program_map profile)
                      then (True, data[1 := rt_program_map profile ! unat program]) else (False, data))
               else (True, data))"

text \<open>The closure \<open>prepare_input_routing\<close> installs, and its installation.\<close>

definition input_hook :: "'r config_snapshot \<Rightarrow> midi_frame \<Rightarrow> bool \<times> midi_frame" where
  "input_hook snap frame =
     (if \<not> accepts_channel (cs_channel_filter snap) (frame_data frame) then (False, frame)
      else
        case profile_for_source snap (frame_source frame) of
          None \<Rightarrow> (True, frame)
        | Some profile \<Rightarrow>
            if \<not> rt_enabled profile then (True, frame)
            else let (ok, data) = apply_routing_profile profile (frame_data frame)
                 in (ok, frame\<lparr>frame_data := data\<rparr>))"

definition prepare_input_routing ::
  "app_config \<Rightarrow> midi_frame midi_queue \<Rightarrow> midi_frame midi_queue" where
  "prepare_input_routing cfg q = set_preparation (input_hook (snapshot_of cfg :: unit config_snapshot)) q"

text \<open>The priority a frame would have at its destination, found on a copy of the frame.\<close>

definition classify_input_frame ::
  "u64 \<Rightarrow> u64 \<Rightarrow> buffer_pool \<Rightarrow> midi_frame midi_queue \<Rightarrow> midi_frame \<Rightarrow> bool" where
  "classify_input_frame generation qpc pool q frame =
     (if length (frame_data frame) > 3 then False
      else
        case clone_realtime generation qpc pool frame of
          (None, _) \<Rightarrow> False
        | (Some candidate, _) \<Rightarrow>
            let (ok, candidate') = prepare q candidate
            in ok \<and> is_critical_release_message (frame_data candidate'))"

section \<open>Tables\<close>

lemma map_table_snoc:
  "map_table (ms @ [m]) = (if rm_from m < 128 \<and> rm_to m < 128
     then (map_table ms)[unat (rm_from m) := rm_to m] else map_table ms)"
  by (simp add: map_table_def)

lemma length_map_table [simp]: "length (map_table ms) = 128"
  by (induction ms rule: rev_induct) (simp_all add: map_table_snoc, simp add: map_table_def)

text \<open>What a list of mappings does to a value: the last usable mapping from it decides.\<close>

definition remap :: "routing_mapping list \<Rightarrow> u8 \<Rightarrow> u8" where
  "remap ms c =
     (let usable = filter (\<lambda>m. rm_from m = c \<and> rm_to m < 128) ms
      in if usable = [] then c else rm_to (last usable))"

lemma remap_snoc:
  "remap (ms @ [m]) c = (if rm_from m = c \<and> rm_to m < 128 then rm_to m else remap ms c)"
  by (auto simp: remap_def Let_def)

lemma map_table_nth:
  assumes "c < 128"
  shows "map_table ms ! unat c = remap ms c"
proof (induction ms rule: rev_induct)
  case Nil
  have "unat c < 128" using assms by (simp add: word_less_nat_alt)
  then show ?case by (simp add: map_table_def remap_def)
next
  case (snoc m ms)
  have c: "unat c < 128" using assms by (simp add: word_less_nat_alt)
  have "unat (rm_from m) = unat c \<longleftrightarrow> rm_from m = c" by (simp add: word_unat_eq_iff)
  then show ?case using snoc c assms by (auto simp: map_table_snoc remap_snoc nth_list_update)
qed

lemma remap_lt: "c < 128 \<Longrightarrow> remap ms c < 128"
  by (induction ms rule: rev_induct) (simp_all add: remap_snoc, simp add: remap_def)

section \<open>Routed messages\<close>

text \<open>What an accepted message becomes: only a controller or program number can change.\<close>

definition routed :: "runtime_profile \<Rightarrow> bytes \<Rightarrow> bytes" where
  "routed profile data = snd (apply_routing_profile profile data)"

definition profile_ok :: "runtime_profile \<Rightarrow> bool" where
  "profile_ok profile \<longleftrightarrow>
     length (rt_cc_map profile) = 128 \<and> (\<forall>c \<in> set (rt_cc_map profile). c < 128)
     \<and> length (rt_program_map profile) = 128 \<and> (\<forall>c \<in> set (rt_program_map profile). c < 128)"

lemma map_table_values: "\<forall>c \<in> set (map_table ms). c < 128"
proof
  fix c assume "c \<in> set (map_table ms)"
  then obtain i where i: "i < 128" "c = map_table ms ! i" by (auto simp: in_set_conv_nth)
  have "unat (of_nat i :: u8) = i" "(of_nat i :: u8) < 128"
    using i(1) by (simp_all add: unat_of_nat word_less_nat_alt)
  then show "c < 128" using i map_table_nth [of "of_nat i" ms] remap_lt [of "of_nat i" ms] by simp
qed

lemma from_profile_ok: "profile_ok (from_profile p)"
  by (simp add: profile_ok_def from_profile_def map_table_values)

lemma message_len_table:
  assumes "message_len s = Some n" "s < 0xF0"
  shows "n = (if s AND 0xF0 = 0xC0 \<or> s AND 0xF0 = 0xD0 then 2 else 3)"
  using assms
  by (auto simp: message_len_def high_nibble_eq word_le_nat_alt word_less_nat_alt split: if_splits)

lemma apply_routing_shape:
  assumes "profile_ok p" "apply_routing_profile p data = (ok, data')"
    "\<forall>b \<in> set (drop 1 data). b < 0x80"
  shows "length data' = length data \<and> (data = [] \<longrightarrow> data' = [])
    \<and> (data \<noteq> [] \<longrightarrow> data' ! 0 = data ! 0) \<and> (\<forall>b \<in> set (drop 1 data'). b < 0x80)
    \<and> (data ! 0 AND 0xF0 = 0x90 \<longrightarrow> data' = data)"
proof (cases data)
  case Nil
  then show ?thesis using assms(2) by (simp add: apply_routing_profile_def)
next
  case data: (Cons s rest)
  show ?thesis
  proof (cases rest)
    case Nil
    then show ?thesis
      using assms(2) by (auto simp: data apply_routing_profile_def Let_def split: if_splits)
  next
    case (Cons c rest')
    have c: "unat c < 128" using assms(3) by (simp add: data Cons word_less_nat_alt)
    then have "rt_cc_map p ! unat c < 128" "rt_program_map p ! unat c < 128"
      using assms(1) by (simp_all add: profile_ok_def)
    then show ?thesis
      using assms c
      by (auto simp: data Cons apply_routing_profile_def Let_def profile_ok_def split: if_splits)
  qed
qed

lemma routing_keeps_valid:
  assumes "profile_ok p" "apply_routing_profile p data = (ok, data')"
    "normalize_message data = (True, data)"
  shows "normalize_message data' = (True, data')"
  using assms(3)
proof (cases rule: normalize_message_cases)
  case (sysex rest)
  then have "data' = data" using assms(2) by (simp add: apply_routing_profile_def)
  then show ?thesis using assms(3) by simp
next
  case (note_off s n)
  then have "data' = data"
    using assms(2) by (auto simp: apply_routing_profile_def Let_def split: if_splits)
  then show ?thesis using assms(3) by simp
next
  case (plain s rest)
  have low: "\<forall>b \<in> set (drop 1 data). b < 0x80" using plain by simp
  note shape = apply_routing_shape [OF assms(1,2) low]
  from shape plain obtain rest' where d': "data' = s # rest'"
    by (cases data') auto
  show ?thesis
  proof (rule normalize_plain [OF d'])
    show "s \<noteq> 0xF0" "message_len s = Some (length data')" using plain shape by simp_all
    show "\<forall>b \<in> set rest'. b < 0x80" using shape d' by simp
    show "\<not> (s AND 0xF0 = 0x90 \<and> data' ! 2 = 0)" using plain shape by auto
  qed
qed

lemma snapshot_profiles_ok: "\<forall>p \<in> set (cs_routing_profiles (snapshot_of cfg)). profile_ok p"
  by (auto simp: snapshot_of_def Let_def from_profile_ok)

lemma profile_for_source_mem:
  "profile_for_source s src = Some p \<Longrightarrow> p \<in> set (cs_routing_profiles s)"
  by (auto simp: profile_for_source_def Let_def split: option.splits if_splits)

section \<open>The interface of an input hook\<close>

text \<open>
  What the queue's callers rely on in a preparation hook: a normalised message stays a valid,
  normalised message, and the frame keeps its time, generation and source.
\<close>

locale midi_hook =
  fixes hook :: "midi_frame \<Rightarrow> bool \<times> midi_frame"
  assumes hook_valid: "normalize_message (frame_data f) = (True, frame_data f) \<Longrightarrow>
      hook f = (ok, f') \<Longrightarrow> normalize_message (frame_data f') = (True, frame_data f')"
    and hook_keeps: "hook f = (ok, f') \<Longrightarrow> frame_source f' = frame_source f
      \<and> frame_generation f' = frame_generation f \<and> frame_ingress_qpc f' = frame_ingress_qpc f"
begin

lemma prepare_valid:
  assumes "normalize_message (frame_data f) = (True, frame_data f)"
    "prepare_with (Some (hook, valid)) still_valid f = (ok, f')"
  shows "normalize_message (frame_data f') = (True, frame_data f') \<and> frame_source f' = frame_source f
    \<and> frame_generation f' = frame_generation f \<and> frame_ingress_qpc f' = frame_ingress_qpc f"
proof (cases valid)
  case True
  obtain ok' f'' where h: "hook f = (ok', f'')" by fastforce
  then have "f' = f''" using assms(2) True by (simp add: prepare_with_def)
  then show ?thesis using hook_valid [OF assms(1) h] hook_keeps [OF h] by simp
next
  case False
  then show ?thesis using assms by (simp add: prepare_with_def)
qed

end

lemma input_hook_valid:
  assumes "normalize_message (frame_data f) = (True, frame_data f)"
    "input_hook (snapshot_of cfg :: 'r config_snapshot) f = (ok, f')"
  shows "normalize_message (frame_data f') = (True, frame_data f')"
proof (cases "profile_for_source (snapshot_of cfg :: 'r config_snapshot) (frame_source f)")
  case None
  then show ?thesis using assms by (auto simp: input_hook_def split: if_splits)
next
  case (Some p)
  have "profile_ok p" using profile_for_source_mem [OF Some] snapshot_profiles_ok by blast
  from routing_keeps_valid [OF this _ assms(1)] show ?thesis
    using assms Some by (auto simp: input_hook_def split: if_splits prod.splits)
qed

interpretation input_routing: midi_hook "input_hook (snapshot_of cfg :: unit config_snapshot)" for cfg
proof unfold_locales
  show "normalize_message (frame_data f') = (True, frame_data f')"
    if "normalize_message (frame_data f) = (True, frame_data f)"
      "input_hook (snapshot_of cfg :: unit config_snapshot) f = (ok, f')" for f ok f'
    using that by (rule input_hook_valid)
  show "frame_source f' = frame_source f \<and> frame_generation f' = frame_generation f
      \<and> frame_ingress_qpc f' = frame_ingress_qpc f"
    if "input_hook (snapshot_of cfg :: unit config_snapshot) f = (ok, f')" for f ok f'
    using that by (auto simp: input_hook_def split: if_splits option.splits prod.splits)
qed

text \<open>
  Routing keeps MIDI valid. For every configuration, a valid, normalised message that the
  input hook accepts or refuses is still valid and normalised afterwards, of the same length
  and status; a controller or program number is replaced by the target of the last usable
  mapping of the profile, other messages are unchanged.
\<close>

theorem routing_preserves_validity:
  assumes "normalize_message data = (True, data)"
    and "apply_routing_profile (from_profile profile) data = (True, data')"
  shows "normalize_message data' = (True, data') \<and> length data' = length data
    \<and> data' ! 0 = data ! 0
    \<and> (data ! 0 AND 0xF0 = 0xB0 \<longrightarrow> data' = data[1 := remap (rp_cc_map profile) (data ! 1)])
    \<and> (data ! 0 AND 0xF0 = 0xC0 \<longrightarrow> data' = data[1 := remap (rp_program_map profile) (data ! 1)])
    \<and> (data ! 0 AND 0xF0 \<notin> {0xB0, 0xC0} \<longrightarrow> data' = data)"
proof -
  have len: "data \<noteq> []" using assms(1) by (auto simp: normalize_message_def)
  note valid = routing_keeps_valid [OF from_profile_ok assms(2,1)]
  have low: "\<forall>b \<in> set (drop 1 data). b < 0x80" if "data ! 0 \<noteq> 0xF0"
    using assms(1) that by (cases rule: normalize_message_cases) auto
  show ?thesis
  proof (cases "data ! 0 \<ge> 0xF0")
    case True
    then have "data' = data" using assms(2) len
      by (cases data) (simp_all add: apply_routing_profile_def)
    moreover have "data ! 0 AND 0xF0 \<notin> {0xB0, 0xC0}"
      using True by (auto simp: high_nibble_eq word_le_nat_alt)
    ultimately show ?thesis using assms(1) by simp
  next
    case False
    then have "data ! 0 \<noteq> 0xF0" by auto
    note shape = apply_routing_shape [OF from_profile_ok assms(2) low [OF this]]
    obtain s rest where d: "data = s # rest" using len by (cases data) auto
    have two: "\<exists>c rest'. rest = c # rest' \<and> c < 128" if "s AND 0xF0 = 0xB0 \<or> s AND 0xF0 = 0xC0"
    proof -
      from assms(1) that obtain n where "message_len s = Some (length data)"
        by (cases rule: normalize_message_cases) (auto simp: d high_nibble_eq)
      then have "2 \<le> length data" using message_len_table [of s] False d by auto
      then show ?thesis using low False d by (cases rest) auto
    qed
    show ?thesis
      using valid shape len False two assms(2)
      by (auto simp: d apply_routing_profile_def from_profile_def Let_def map_table_nth
          split: if_splits option.splits list.splits)
  qed
qed

theorem routing_preserves_validity_witness:
  "let p = \<lparr>rp_id = ''p'', rp_name = '''', rp_enabled = True, rp_channel_filter = None,
       rp_note_min = None, rp_note_max = None,
       rp_cc_map = [\<lparr>rm_from = 1, rm_to = 11\<rparr>, \<lparr>rm_from = 1, rm_to = 7\<rparr>], rp_program_map = []\<rparr>
   in apply_routing_profile (from_profile p) [0xB2, 1, 90] = (True, [0xB2, 7, 90])"
proof -
  let ?p = "\<lparr>rp_id = ''p'', rp_name = '''', rp_enabled = True, rp_channel_filter = None,
       rp_note_min = None, rp_note_max = None,
       rp_cc_map = [\<lparr>rm_from = 1, rm_to = 11\<rparr>, \<lparr>rm_from = 1, rm_to = 7\<rparr>], rp_program_map = []\<rparr>"
  have n: "normalize_message [0xB2, 1, 90] = (True, [0xB2, 1, 90])"
    by (simp add: normalize_message_def message_len_def word_le_nat_alt)
  have ok: "fst (apply_routing_profile (from_profile ?p) [0xB2, 1, 90])"
    by (simp add: apply_routing_profile_def from_profile_def Let_def)
  obtain data' where a: "apply_routing_profile (from_profile ?p) [0xB2, 1, 90] = (True, data')"
    using ok by (metis prod.collapse)
  from routing_preserves_validity [OF n a] have "data' = [0xB2, remap (rp_cc_map ?p) 1, 90]" by simp
  then show ?thesis using a by (simp add: remap_def Let_def)
qed

text \<open>The messages that start something, and those that end it.\<close>

definition same_key :: "bytes \<Rightarrow> bytes \<Rightarrow> bool" where
  "same_key a b \<longleftrightarrow> length a = 3 \<and> length b = 3 \<and> a ! 0 AND 0x0F = b ! 0 AND 0x0F \<and> a ! 1 = b ! 1
     \<and> (a ! 0 AND 0xF0 = b ! 0 AND 0xF0
        \<or> {a ! 0 AND 0xF0, b ! 0 AND 0xF0} = {0x80, 0x90})"

lemma apply_routing_3:
  assumes "\<not> 0xF0 \<le> s"
  shows "apply_routing_profile p [s, a, x] =
    (if (case rt_channel_filter p of None \<Rightarrow> False | Some c \<Rightarrow> (s AND 15) + 1 \<noteq> c) then (False, [s, a, x])
     else if s AND 0xF0 \<in> {0x80, 0x90} then
       (\<not> (case rt_note_min p of None \<Rightarrow> False | Some lo \<Rightarrow> a < lo)
        \<and> \<not> (case rt_note_max p of None \<Rightarrow> False | Some hi \<Rightarrow> a > hi), [s, a, x])
     else if s AND 0xF0 = 0xB0 then
       (unat a < length (rt_cc_map p),
        if unat a < length (rt_cc_map p) then [s, rt_cc_map p ! unat a, x] else [s, a, x])
     else if s AND 0xF0 = 0xC0 then
       (unat a < length (rt_program_map p),
        if unat a < length (rt_program_map p) then [s, rt_program_map p ! unat a, x] else [s, a, x])
     else (True, [s, a, x]))"
  using assms by (simp add: apply_routing_profile_def Let_def)

text \<open>
  C38: routing cannot separate a press from its release. Two frames of one source that concern
  the same key or controller of the same channel (a Note On and its Note Off, a pedal's
  press and release) are both accepted or both refused by the input hook, and when accepted
  still concern the same key or controller: no filter or mapping leaves a note or pedal hanging.
\<close>

theorem routing_is_balanced:
  assumes "same_key (frame_data f) (frame_data g)" "frame_source f = frame_source g"
    and "frame_data f ! 0 \<ge> 0x80" "frame_data f ! 0 < 0xF0" "frame_data g ! 0 \<ge> 0x80" "frame_data g ! 0 < 0xF0"
  shows "fst (input_hook snap f) = fst (input_hook snap g)
    \<and> same_key (frame_data (snd (input_hook snap f))) (frame_data (snd (input_hook snap g)))"
proof -
  obtain s a x where f: "frame_data f = [s, a, x]"
    using assms(1) by (auto simp: same_key_def length_Suc_conv numeral_3_eq_3)
  obtain t y where g: "frame_data g = [t, a, y]"
    using assms(1) f by (auto simp: same_key_def length_Suc_conv numeral_3_eq_3)
  have ch: "s AND 15 = t AND 15" and kind: "s AND 0xF0 = t AND 0xF0 \<or> {s AND 0xF0, t AND 0xF0} = {0x80, 0x90}"
    using assms(1) by (simp_all add: f g same_key_def)
  have range: "0x80 \<le> s" "s < 0xF0" "0x80 \<le> t" "t < 0xF0" using assms(3-6) by (simp_all add: f g)
  have acc: "accepts_channel c (frame_data f) = accepts_channel c (frame_data g)" for c
    using range ch by (auto simp: accepts_channel_def f g split: option.split)
  have app: "fst (apply_routing_profile p [s, a, x]) = fst (apply_routing_profile p [t, a, y])
    \<and> same_key (snd (apply_routing_profile p [s, a, x])) (snd (apply_routing_profile p [t, a, y]))" for p
  proof -
    have st: "\<not> 0xF0 \<le> s" "\<not> 0xF0 \<le> t" using range by auto
    consider "s AND 0xF0 = t AND 0xF0" | "s AND 0xF0 \<in> {0x80, 0x90}" "t AND 0xF0 \<in> {0x80, 0x90}"
      using kind by (auto simp: doubleton_eq_iff)
    then show ?thesis
    proof cases
      case 1
      then show ?thesis
        unfolding apply_routing_3 [OF st(1)] apply_routing_3 [OF st(2)] ch
        by (simp add: same_key_def ch)
    next
      case 2
      then show ?thesis
        unfolding apply_routing_3 [OF st(1)] apply_routing_3 [OF st(2)] ch
        by (auto simp: same_key_def ch)
    qed
  qed
  show ?thesis
    using assms(1,2) acc app
    by (simp add: input_hook_def f g case_prod_beta Let_def split: option.split)
qed

theorem routing_is_balanced_witness:
  "fst (input_hook (snapshot_of (default_app_config\<lparr>cfg_midi :=
          default_midi_config\<lparr>mc_channel_filter := Some 2\<rparr>\<rparr>) :: unit config_snapshot)
        \<lparr>frame_generation = 0, frame_ingress_qpc = 0, frame_data = [0x91, 60, 100],
         frame_capacity = 32, frame_source = ''RTP:A''\<rparr>)
   = fst (input_hook (snapshot_of (default_app_config\<lparr>cfg_midi :=
          default_midi_config\<lparr>mc_channel_filter := Some 2\<rparr>\<rparr>) :: unit config_snapshot)
        \<lparr>frame_generation = 0, frame_ingress_qpc = 0, frame_data = [0x81, 60, 0],
         frame_capacity = 32, frame_source = ''RTP:A''\<rparr>)"
  by (rule routing_is_balanced [THEN conjunct1])
    (simp_all add: same_key_def doubleton_eq_iff)

section \<open>Which profile a source gets\<close>

lemma profile_index_snoc:
  "profile_index (ps @ [p]) = AList.update (rt_id p) (length ps) (profile_index ps)"
  by (simp add: profile_index_def enumerate_append_eq)

lemma profile_index_spec:
  "map_of (profile_index ps) k =
     (if k \<in> rt_id ` set ps then Some (last (filter (\<lambda>i. rt_id (ps ! i) = k) [0..<length ps])) else None)"
proof (induction ps rule: rev_induct)
  case Nil
  then show ?case by (simp add: profile_index_def)
next
  case (snoc p ps)
  have "filter (\<lambda>i. rt_id ((ps @ [p]) ! i) = k) [0..<length ps] = filter (\<lambda>i. rt_id (ps ! i) = k) [0..<length ps]"
    by (rule filter_cong) (simp_all add: nth_append)
  then show ?case using snoc by (auto simp: profile_index_snoc)
qed

lemma last_filter_map: "filter P xs \<noteq> [] \<Longrightarrow> last (map f (filter P xs)) = f (last (filter P xs))"
  by (simp add: last_map)

lemma nth_last_index:
  assumes "k \<in> f ` set ps"
  shows "last (filter (\<lambda>i. f (ps ! i) = k) [0..<length ps]) < length ps"
    and "ps ! last (filter (\<lambda>i. f (ps ! i) = k) [0..<length ps]) = last (filter (\<lambda>p. f p = k) ps)"
proof -
  let ?is = "filter (\<lambda>i. f (ps ! i) = k) [0..<length ps]"
  obtain i where "i < length ps" "f (ps ! i) = k" using assms by (auto simp: in_set_conv_nth)
  then have ne: "?is \<noteq> []" by (auto simp: filter_empty_conv)
  then have "last ?is \<in> set ?is" by (rule last_in_set)
  then show "last ?is < length ps" by simp
  have "filter (\<lambda>p. f p = k) ps = filter (\<lambda>p. f p = k) (map (nth ps) [0..<length ps])"
    by (simp add: map_nth)
  also have "\<dots> = map (nth ps) ?is" by (simp add: filter_map comp_def)
  finally show "ps ! last ?is = last (filter (\<lambda>p. f p = k) ps)"
    using ne by (simp add: last_map)
qed

lemma routing_assignments_snoc:
  "map_of (routing_assignments index (as @ [a])) s =
     (if ra_source a = s \<and> ra_profile_id a \<in> dom (map_of index) then map_of index (ra_profile_id a)
      else map_of (routing_assignments index as) s)"
  by (auto simp: routing_assignments_def split: option.split)

lemma routing_assignments_spec:
  "map_of (routing_assignments index as) s =
     (let usable = filter (\<lambda>a. ra_source a = s \<and> ra_profile_id a \<in> dom (map_of index)) as
      in if usable = [] then None else map_of index (ra_profile_id (last usable)))"
proof (induction as rule: rev_induct)
  case Nil
  then show ?case by (simp add: routing_assignments_def)
next
  case (snoc a as)
  then show ?case by (simp add: routing_assignments_snoc Let_def)
qed

text \<open>
  The profile the configuration assigns to a name: of the assignments of that name to an
  existing profile the last one, and of the profiles with its identifier the last one.
\<close>

definition assigned_profile :: "app_config \<Rightarrow> string \<Rightarrow> routing_profile option" where
  "assigned_profile cfg name =
     (let profiles = mc_routing_profiles (cfg_midi cfg);
          usable = filter (\<lambda>a. ra_source a = name \<and> ra_profile_id a \<in> rp_id ` set profiles)
            (mc_routing_assignments (cfg_midi cfg))
      in if usable = [] then None
         else Some (last (filter (\<lambda>p. rp_id p = ra_profile_id (last usable)) profiles)))"

lemma rt_id_image: "rt_id ` set (map from_profile ps) = rp_id ` set ps"
  by (simp add: image_image from_profile_def)

lemma snapshot_lookup:
  fixes cfg :: app_config
  defines "snap \<equiv> (snapshot_of cfg :: 'r config_snapshot)"
  shows "(case map_of (cs_routing_assignments snap) name of
       None \<Rightarrow> assigned_profile cfg name = None
     | Some i \<Rightarrow> i < length (cs_routing_profiles snap)
         \<and> (\<exists>p. assigned_profile cfg name = Some p \<and> cs_routing_profiles snap ! i = from_profile p))"
proof -
  let ?ps = "mc_routing_profiles (cfg_midi cfg)"
  let ?rs = "map from_profile ?ps"
  let ?usable = "filter (\<lambda>a. ra_source a = name \<and> ra_profile_id a \<in> rp_id ` set ?ps)
            (mc_routing_assignments (cfg_midi cfg))"
  have known: "dom (map_of (profile_index ?rs)) = rp_id ` set ?ps"
    unfolding rt_id_image [symmetric] by (auto simp: profile_index_spec dom_def)
  have snap: "map_of (cs_routing_assignments snap) name =
      (if ?usable = [] then None else map_of (profile_index ?rs) (ra_profile_id (last ?usable)))"
    "cs_routing_profiles snap = ?rs"
    by (simp_all add: snap_def snapshot_of_def routing_assignments_spec known Let_def)
  show ?thesis
  proof (cases "?usable = []")
    case True
    then have "assigned_profile cfg name = None" by (simp add: assigned_profile_def Let_def)
    then show ?thesis unfolding snap if_P [OF True] by simp
  next
    case False
    let ?k = "ra_profile_id (last ?usable)"
    let ?i = "last (filter (\<lambda>i. rt_id (?rs ! i) = ?k) [0..<length ?rs])"
    have "last ?usable \<in> set ?usable" using False by (rule last_in_set)
    then have k: "?k \<in> rp_id ` set ?ps" by simp
    then have rk: "?k \<in> rt_id ` set ?rs" by (simp only: rt_id_image)
    have "filter (\<lambda>p. rp_id p = ?k) ?ps \<noteq> []" using k by (auto simp: filter_empty_conv)
    then have "last (filter (\<lambda>r. rt_id r = ?k) ?rs) = from_profile (last (filter (\<lambda>p. rp_id p = ?k) ?ps))"
      by (simp add: filter_map comp_def last_map from_profile_def)
    moreover have "assigned_profile cfg name = Some (last (filter (\<lambda>p. rp_id p = ?k) ?ps))"
      using False by (simp add: assigned_profile_def Let_def)
    moreover have "map_of (profile_index ?rs) ?k = Some ?i" using rk by (simp add: profile_index_spec)
    ultimately show ?thesis
      using nth_last_index [OF rk] False unfolding snap by simp
  qed
qed

lemma last_filter_upt:
  "P k \<Longrightarrow> k < n \<Longrightarrow> \<forall>i. k < i \<and> i < n \<longrightarrow> \<not> P i \<Longrightarrow> \<exists>is. filter P [0..<n] = is @ [k]"
proof (induction n)
  case 0
  then show ?case by simp
next
  case (Suc n)
  show ?case
  proof (cases "k = n")
    case True
    then show ?thesis using Suc.prems(1) by simp
  next
    case False
    then show ?thesis using Suc by auto
  qed
qed

lemma starts_with_hd: "starts_with (c # p) s \<Longrightarrow> s \<noteq> [] \<and> s ! 0 = c"
  by (auto simp: starts_with_iff)

lemma starts_with_drop: "starts_with (c # p) (drop i s) \<Longrightarrow> i < length s \<and> s ! i = c"
  using starts_with_hd [of c p "drop i s"] by (cases "i < length s") simp_all

lemma rfind_marker:
  assumes "c \<notin> set ps" "c \<notin> set rest"
  shows "rfind (c # ps) (base @ (c # ps) @ rest) = Some (length base)"
proof -
  let ?s = "base @ (c # ps) @ rest"
  have "\<not> starts_with (c # ps) (drop i ?s)" if i: "length base < i" "i < Suc (length ?s)" for i
  proof
    assume "starts_with (c # ps) (drop i ?s)"
    from starts_with_drop [OF this] have il: "i < length ?s" and c: "?s ! i = c" by blast+
    obtain k where k: "i = length base + Suc k" using i(1) by (metis add_Suc_right less_iff_Suc_add)
    then have "?s ! i = (ps @ rest) ! k" "k < length (ps @ rest)" using il by (simp_all add: nth_append)
    then have "c \<in> set (ps @ rest)" using c nth_mem by metis
    then show False using assms by simp
  qed
  moreover have "starts_with (c # ps) (drop (length base) ?s)" by (auto simp: starts_with_iff)
  ultimately obtain pre where "filter (\<lambda>i. starts_with (c # ps) (drop i ?s)) [0..<Suc (length ?s)]
      = pre @ [length base]"
    using last_filter_upt [of "\<lambda>i. starts_with (c # ps) (drop i ?s)" "length base" "Suc (length ?s)"]
    by auto
  then show ?thesis unfolding rfind_def by (cases pre) simp_all
qed

lemma profile_for_source_exact:
  "assigned_profile cfg name = Some p \<Longrightarrow>
     profile_for_source (snapshot_of cfg :: 'r config_snapshot) name = Some (from_profile p)"
  using snapshot_lookup [of cfg name, where 'r = 'r]
  by (auto simp: profile_for_source_def split: option.splits)

lemma profile_for_source_base:
  assumes "assigned_profile cfg (''RTP:'' @ base @ tail) = None"
    and "(case rfind ''#ssrc_'' (base @ tail) of Some i \<Rightarrow> Some i | None \<Rightarrow> rfind ''@'' (base @ tail))
      = Some (length base)"
  shows "profile_for_source (snapshot_of cfg :: 'r config_snapshot) (''RTP:'' @ base @ tail)
    = map_option from_profile (assigned_profile cfg (''RTP:'' @ base))"
proof -
  have none: "map_of (cs_routing_assignments (snapshot_of cfg :: 'r config_snapshot)) (''RTP:'' @ base @ tail) = None"
    using snapshot_lookup [of cfg "''RTP:'' @ base @ tail", where 'r = 'r] assms(1)
    by (auto split: option.splits)
  have strip: "strip_prefix ''RTP:'' (''RTP:'' @ base @ tail) = Some (base @ tail)"
    by (simp add: strip_prefix_Some_iff)
  have base: "take (4 + length base) (''RTP:'' @ base @ tail) = ''RTP:'' @ base"
    by (simp add: numeral_eq_Suc)
  show ?thesis
    using snapshot_lookup [of cfg "''RTP:'' @ base", where 'r = 'r]
    unfolding profile_for_source_def Let_def none strip option.case assms(2) base
    by (auto split: option.splits)
qed

lemma rfind_absent: "c \<notin> set s \<Longrightarrow> rfind (c # ps) s = None"
proof -
  assume c: "c \<notin> set s"
  have "\<not> starts_with (c # ps) (drop i s)" for i
    using c starts_with_drop [of c ps i s] nth_mem by metis
  then show ?thesis by (simp add: rfind_def)
qed

text \<open>
  A source gets the profile the configuration gives it. The profile assigned to its exact
  name applies; an RTP source without one of its own gets that of its peer, the name without
  the stream identifier after the last \<open>#ssrc_\<close>, or without the address after the last
  \<open>@\<close> when there is no such identifier. Of several assignments or profiles of one name the
  last counts, and an assignment to an unknown profile is ignored.
\<close>

theorem source_profile_resolution:
  assumes "CHR ''#'' \<notin> set ident" "CHR ''@'' \<notin> set ident" "CHR ''#'' \<notin> set base"
  shows "(assigned_profile cfg name = Some p \<longrightarrow>
        profile_for_source (snapshot_of cfg :: unit config_snapshot) name = Some (from_profile p))
    \<and> (assigned_profile cfg (''RTP:'' @ base @ ''#ssrc_'' @ ident) = None \<longrightarrow>
        profile_for_source (snapshot_of cfg :: unit config_snapshot) (''RTP:'' @ base @ ''#ssrc_'' @ ident)
          = map_option from_profile (assigned_profile cfg (''RTP:'' @ base)))
    \<and> (assigned_profile cfg (''RTP:'' @ base @ ''@'' @ ident) = None \<longrightarrow>
        profile_for_source (snapshot_of cfg :: unit config_snapshot) (''RTP:'' @ base @ ''@'' @ ident)
          = map_option from_profile (assigned_profile cfg (''RTP:'' @ base)))"
proof (intro conjI impI)
  show "profile_for_source (snapshot_of cfg :: unit config_snapshot) name = Some (from_profile p)"
    if "assigned_profile cfg name = Some p"
    using that by (rule profile_for_source_exact)
next
  assume none: "assigned_profile cfg (''RTP:'' @ base @ ''#ssrc_'' @ ident) = None"
  have "rfind ''#ssrc_'' (base @ ''#ssrc_'' @ ident) = Some (length base)"
    using assms(1) by (intro rfind_marker) simp_all
  then show "profile_for_source (snapshot_of cfg :: unit config_snapshot) (''RTP:'' @ base @ ''#ssrc_'' @ ident)
      = map_option from_profile (assigned_profile cfg (''RTP:'' @ base))"
    by (intro profile_for_source_base none) simp
next
  assume none: "assigned_profile cfg (''RTP:'' @ base @ ''@'' @ ident) = None"
  have "rfind ''@'' (base @ ''@'' @ ident) = Some (length base)"
    using assms(2) by (intro rfind_marker) simp_all
  moreover have "rfind ''#ssrc_'' (base @ ''@'' @ ident) = None"
    using assms by (intro rfind_absent) simp
  ultimately show "profile_for_source (snapshot_of cfg :: unit config_snapshot) (''RTP:'' @ base @ ''@'' @ ident)
      = map_option from_profile (assigned_profile cfg (''RTP:'' @ base))"
    by (intro profile_for_source_base none) simp
qed

theorem source_profile_resolution_witness:
  "let prof = \<lparr>rp_id = ''p'', rp_name = '''', rp_enabled = True, rp_channel_filter = None,
         rp_note_min = Some 36, rp_note_max = None, rp_cc_map = [], rp_program_map = []\<rparr>;
       cfg = default_app_config\<lparr>cfg_midi := default_midi_config\<lparr>mc_routing_profiles := [prof],
         mc_routing_assignments := [\<lparr>ra_source = ''RTP:Peer'', ra_profile_id = ''p''\<rparr>]\<rparr>\<rparr>
   in profile_for_source (snapshot_of cfg :: unit config_snapshot) ''RTP:Peer#ssrc_12'' = Some (from_profile prof)"
proof -
  let ?prof = "\<lparr>rp_id = ''p'', rp_name = '''', rp_enabled = True, rp_channel_filter = None,
         rp_note_min = Some 36, rp_note_max = None, rp_cc_map = [], rp_program_map = []\<rparr>"
  let ?cfg = "default_app_config\<lparr>cfg_midi := default_midi_config\<lparr>mc_routing_profiles := [?prof],
         mc_routing_assignments := [\<lparr>ra_source = ''RTP:Peer'', ra_profile_id = ''p''\<rparr>]\<rparr>\<rparr>"
  have "assigned_profile ?cfg (''RTP:'' @ ''Peer'' @ ''#ssrc_'' @ ''12'') = None"
    "assigned_profile ?cfg (''RTP:'' @ ''Peer'') = Some ?prof"
    by (simp_all add: assigned_profile_def)
  then show ?thesis
    using source_profile_resolution [of "''12''" "''Peer''" ?cfg "''''" ?prof] by simp
qed

end
