(* ===== verification/Enqueue.thy ===== *)
theory Enqueue
  imports Routing
begin

text \<open>
  Admission of MIDI frames to the pipeline (\<open>bridge/pipeline.rs\<close>): the global counters and the
  reset request, which are one state here, and the two enqueue functions every input uses.
\<close>

section \<open>State\<close>

record pipeline =
  pl_in :: u64
  pl_out :: u64
  pl_filtered :: u64
  pl_queue_depth :: u64
  pl_queue_max_depth :: u64
  pl_dropped :: u64
  pl_debug_sample_last_ms :: u64
  pl_reset_requested :: bool
  pl_reset_generation :: u64

datatype enqueue_outcome = Enqueued | DroppedNonCritical | Filtered

datatype enqueue_error = QueueFull | InvalidMessage | CriticalReleaseDropped | NotRunning

record pipeline_metrics =
  pm_queue_depth :: u64
  pm_queue_max_depth :: u64
  pm_messages_in :: u64
  pm_messages_out :: u64
  pm_messages_filtered :: u64
  pm_messages_dropped :: u64

section \<open>Operations\<close>

definition midi_reset_generation :: "pipeline \<Rightarrow> u64" where
  "midi_reset_generation p = pl_reset_generation p"

definition take_critical_midi_reset_request :: "pipeline \<Rightarrow> bool \<times> pipeline" where
  "take_critical_midi_reset_request p = (pl_reset_requested p, p\<lparr>pl_reset_requested := False\<rparr>)"

definition request_critical_midi_reset :: "pipeline \<Rightarrow> pipeline" where
  "request_critical_midi_reset p =
     p\<lparr>pl_reset_generation := pl_reset_generation p + 1, pl_reset_requested := True\<rparr>"

definition count_dropped :: "pipeline \<Rightarrow> pipeline" where
  "count_dropped p = p\<lparr>pl_dropped := pl_dropped p + 1\<rparr>"

definition pipeline_stats :: "pipeline \<Rightarrow> u64 \<times> u64 \<times> u64" where
  "pipeline_stats p = (pl_in p, pl_out p, pl_filtered p)"

text \<open>
  The compare-and-exchange loop over the maximum; \<open>observed\<close> are the values that failed
  exchanges report because other threads stored them, the last exchange succeeding.
\<close>

fun raise_max_depth :: "u64 \<Rightarrow> u64 \<Rightarrow> u64 list \<Rightarrow> u64" where
  "raise_max_depth depth current observed =
     (if depth > current then
        (case observed of [] \<Rightarrow> depth | o1 # os \<Rightarrow> raise_max_depth depth o1 os)
      else current)"

declare raise_max_depth.simps [simp del]

definition update_pipeline_queue_depth :: "nat \<Rightarrow> u64 list \<Rightarrow> pipeline \<Rightarrow> pipeline" where
  "update_pipeline_queue_depth depth observed p =
     (let d = of_nat depth in
      p\<lparr>pl_queue_depth := d,
        pl_queue_max_depth := raise_max_depth d (pl_queue_max_depth p) observed\<rparr>)"

definition pipeline_metrics_snapshot :: "pipeline \<Rightarrow> pipeline_metrics" where
  "pipeline_metrics_snapshot p =
     \<lparr>pm_queue_depth = pl_queue_depth p, pm_queue_max_depth = pl_queue_max_depth p,
      pm_messages_in = pl_in p, pm_messages_out = pl_out p, pm_messages_filtered = pl_filtered p,
      pm_messages_dropped = pl_dropped p\<rparr>"

definition should_sample_midi_debug :: "u64 \<Rightarrow> pipeline \<Rightarrow> bool \<times> pipeline" where
  "should_sample_midi_debug now_ms p =
     (if saturating_sub now_ms (pl_debug_sample_last_ms p) \<ge> 1000
      then (True, p\<lparr>pl_debug_sample_last_ms := now_ms\<rparr>) else (False, p))"

definition reset_pipeline_stats :: "pipeline \<Rightarrow> pipeline" where
  "reset_pipeline_stats p =
     p\<lparr>pl_in := 0, pl_out := 0, pl_filtered := 0, pl_queue_depth := 0, pl_queue_max_depth := 0,
       pl_dropped := 0\<rparr>"

text \<open>
  \<open>others\<close> is what the other threads do to the queue during \<open>yield_now\<close>.
\<close>

definition enqueue_prepared_midi_frame ::
  "u64 \<Rightarrow> (midi_frame midi_queue \<Rightarrow> midi_frame midi_queue) \<Rightarrow> midi_frame \<Rightarrow> pipeline
     \<Rightarrow> midi_frame midi_queue
     \<Rightarrow> (enqueue_error + enqueue_outcome) \<times> pipeline \<times> midi_frame midi_queue" where
  "enqueue_prepared_midi_frame now others frame p q =
     (case try_send_retryable frame_critical now frame q of
        (Inr _, q1) \<Rightarrow> (Inr Enqueued, p, q1)
      | (Inl (Full frame1), q1) \<Rightarrow>
          if is_critical_release_message (frame_data frame1) then
            (case try_send_retryable frame_critical now frame1 (others q1) of
               (Inr _, q2) \<Rightarrow> (Inr Enqueued, p, q2)
             | (Inl (Full frame2), q2) \<Rightarrow>
                 (Inl CriticalReleaseDropped, request_critical_midi_reset (count_dropped p),
                  record_abandoned frame_critical frame2 q2)
             | (Inl (Disconnected frame2), q2) \<Rightarrow>
                 (Inl NotRunning, request_critical_midi_reset (count_dropped p),
                  record_abandoned frame_critical frame2 q2))
          else (Inr DroppedNonCritical, count_dropped p, record_abandoned frame_critical frame1 q1)
      | (Inl (Disconnected frame1), q1) \<Rightarrow>
          (Inl NotRunning,
           if is_critical_release_message (frame_data frame1)
           then request_critical_midi_reset (count_dropped p) else count_dropped p,
           record_abandoned frame_critical frame1 q1))"

definition try_enqueue_midi_frame ::
  "u64 \<Rightarrow> (midi_frame midi_queue \<Rightarrow> midi_frame midi_queue) \<Rightarrow> midi_frame \<Rightarrow> pipeline
     \<Rightarrow> midi_frame midi_queue
     \<Rightarrow> (enqueue_error + enqueue_outcome) \<times> pipeline \<times> midi_frame midi_queue" where
  "try_enqueue_midi_frame now others frame p q =
     (let (valid, data) = normalize_message (frame_data frame)
      in if \<not> valid then (Inl InvalidMessage, p, q)
         else
           let (prepared, frame') = prepare q (frame\<lparr>frame_data := data\<rparr>)
           in if \<not> prepared
              then (Inr Filtered, p\<lparr>pl_in := pl_in p + 1, pl_filtered := pl_filtered p + 1\<rparr>, q)
              else enqueue_prepared_midi_frame now others frame' p q)"

section \<open>Losing a release\<close>

lemma retry_facts:
  assumes "try_send_retryable crit now v q = (r, q')"
  shows "r = Inr () \<longrightarrow> q_entries q' = q_entries q @ [\<lparr>queued_qpc = now, entry_value = v, entry_permit = \<not> crit v\<rparr>]"
    and "r \<noteq> Inr () \<longrightarrow> q_entries q' = q_entries q \<and> (r = Inl (Full v) \<or> r = Inl (Disconnected v))"
    and "q_preparation q' = q_preparation q"
  using assms by (auto simp: try_send_retryable_def queue_defs split: if_splits)

text \<open>What the queue gains from a call: nothing, or the one entry.\<close>

definition gains :: "'a midi_queue \<Rightarrow> 'a midi_queue \<Rightarrow> 'a list" where
  "gains q q' = drop (length (q_entries q)) (map entry_value (q_entries q'))"

lemma enqueue_prepared_outcome:
  assumes "enqueue_prepared_midi_frame now (\<lambda>q. q) frame p q = (r, p', q')"
  shows "gains q q' = (if r = Inr Enqueued then [frame] else [])
    \<and> take (length (q_entries q)) (q_entries q') = q_entries q
    \<and> (if r = Inr Enqueued then p' = p
       else if frame_critical frame then p' = request_critical_midi_reset (count_dropped p) \<and> \<not> is_ok r
       else p' = count_dropped p)"
proof -
  obtain r1 q1 where s1: "try_send_retryable frame_critical now frame q = (r1, q1)" by fastforce
  obtain r2 q2 where s2: "try_send_retryable frame_critical now frame q1 = (r2, q2)" by fastforce
  show ?thesis
    using assms s1 s2 retry_facts(1,2) [OF s1] retry_facts(1,2) [OF s2]
    by (auto simp: enqueue_prepared_midi_frame_def gains_def frame_critical_def record_abandoned_def
        split: sum.splits try_send_error.splits if_splits)
qed

text \<open>
  No release is lost in silence. Whatever the other threads do while the call yields, when
  \<open>enqueue_prepared_midi_frame\<close> does not put a release into the queue it starts a new reset
  generation and raises the reset request, and reports an error; for any other message, and
  whenever the frame is queued, the generation is untouched.
\<close>

theorem release_lost_requests_reset:
  assumes "enqueue_prepared_midi_frame now others frame p q = (r, p', q')"
  shows "(r \<noteq> Inr Enqueued \<and> frame_critical frame \<longrightarrow>
       pl_reset_generation p' = pl_reset_generation p + 1 \<and> pl_reset_requested p' \<and> \<not> is_ok r)
    \<and> (r = Inr Enqueued \<or> \<not> frame_critical frame \<longrightarrow>
       pl_reset_generation p' = pl_reset_generation p \<and> pl_reset_requested p' = pl_reset_requested p)
    \<and> pl_dropped p' = pl_dropped p + (if r = Inr Enqueued then 0 else 1)"
proof -
  obtain r1 q1 where s1: "try_send_retryable frame_critical now frame q = (r1, q1)" by fastforce
  obtain r2 q2 where s2: "try_send_retryable frame_critical now frame (others q1) = (r2, q2)" by fastforce
  show ?thesis
    using assms s1 s2 retry_facts(1,2) [OF s1] retry_facts(1,2) [OF s2]
    by (auto simp: enqueue_prepared_midi_frame_def frame_critical_def request_critical_midi_reset_def
        count_dropped_def split: sum.splits try_send_error.splits if_splits)
qed

theorem release_lost_requests_reset_witness:
  "let f = \<lparr>frame_generation = 0, frame_ingress_qpc = 0, frame_data = [0x80, 60, 0],
            frame_capacity = 32, frame_source = ''RTP:A''\<rparr>;
       p = \<lparr>pl_in = 0, pl_out = 0, pl_filtered = 0, pl_queue_depth = 0, pl_queue_max_depth = 0,
            pl_dropped = 0, pl_debug_sample_last_ms = 0, pl_reset_requested = False, pl_reset_generation = 4\<rparr>;
       (r, p', q') = enqueue_prepared_midi_frame 0 (\<lambda>q. q) f p (bounded '''' 0)
   in r = Inl CriticalReleaseDropped \<and> pl_reset_generation p' = 5 \<and> pl_reset_requested p'"
proof -
  let ?f = "\<lparr>frame_generation = 0, frame_ingress_qpc = 0, frame_data = [0x80, 60, 0],
            frame_capacity = 32, frame_source = ''RTP:A''\<rparr>"
  let ?p = "\<lparr>pl_in = 0, pl_out = 0, pl_filtered = 0, pl_queue_depth = 0, pl_queue_max_depth = 0,
            pl_dropped = 0, pl_debug_sample_last_ms = 0, pl_reset_requested = False, pl_reset_generation = 4\<rparr>"
  obtain r p' q' where e: "enqueue_prepared_midi_frame 0 (\<lambda>q. q) ?f ?p (bounded '''' 0) = (r, p', q')"
    by (metis prod_cases3)
  have crit: "frame_critical ?f" by (simp add: frame_critical_def is_critical_release_message_def)
  have "r = Inl CriticalReleaseDropped"
    using e crit by (simp add: enqueue_prepared_midi_frame_def try_send_retryable_def queue_defs
        bounded_def frame_critical_def)
  then show ?thesis using release_lost_requests_reset [OF e] e crit by (simp add: Let_def)
qed

text \<open>The queue that \<open>prepare_input_routing\<close> has set up, valid or invalidated since.\<close>

definition input_queue :: "app_config \<Rightarrow> bool \<Rightarrow> midi_frame midi_queue \<Rightarrow> bool" where
  "input_queue cfg valid q \<longleftrightarrow>
     q_preparation q = Some (input_hook (snapshot_of cfg :: unit config_snapshot), valid)"

lemma prepare_input_queue: "input_queue cfg True (prepare_input_routing cfg q)"
  by (simp add: input_queue_def prepare_input_routing_def set_preparation_def)

lemma invalidate_input_queue: "input_queue cfg valid q \<Longrightarrow> input_queue cfg False (invalidate_preparation q)"
  by (simp add: input_queue_def invalidate_preparation_def)

lemma prepared_frame_valid:
  assumes "input_queue cfg valid q" "normalize_message (frame_data frame) = (True, data)"
    "prepare q (frame\<lparr>frame_data := data\<rparr>) = (ok, f')"
  shows "normalize_message (frame_data f') = (True, frame_data f')
    \<and> frame_source f' = frame_source frame \<and> frame_ingress_qpc f' = frame_ingress_qpc frame"
proof -
  have "normalize_message (frame_data (frame\<lparr>frame_data := data\<rparr>)) = (True, frame_data (frame\<lparr>frame_data := data\<rparr>))"
    using normalized_idem [OF assms(2)] by simp
  from input_routing.prepare_valid [where valid = valid and still_valid = True, OF this] show ?thesis
    using assms(1,3) by (simp add: prepare_def input_queue_def)
qed

text \<open>
  Only valid MIDI enters the pipeline, and every frame is accounted for. With the input
  routing of any configuration installed, \<open>try_enqueue_midi_frame\<close> refuses exactly the invalid
  messages; what it queues is a valid, normalised message of the same source and time; a
  frame that is filtered or dropped leaves the queue's messages as they were and is counted,
  and after the preparation is invalidated nothing is queued at all.
\<close>

theorem only_valid_midi_enters:
  assumes "input_queue cfg valid q"
    and "try_enqueue_midi_frame now (\<lambda>q. q) frame p q = (r, p', q')"
  shows "(r = Inl InvalidMessage \<longleftrightarrow> \<not> valid_message (frame_data frame))
    \<and> (case gains q q' of
         [] \<Rightarrow> r \<noteq> Inr Enqueued \<and> map entry_value (q_entries q') = map entry_value (q_entries q)
       | [f'] \<Rightarrow> r = Inr Enqueued \<and> valid
           \<and> normalize_message (frame_data f') = (True, frame_data f')
           \<and> frame_source f' = frame_source frame \<and> frame_ingress_qpc f' = frame_ingress_qpc frame
       | _ \<Rightarrow> False)
    \<and> (r = Inr Filtered \<longrightarrow> pl_filtered p' = pl_filtered p + 1)
    \<and> (r \<in> {Inr DroppedNonCritical, Inl CriticalReleaseDropped, Inl NotRunning} \<longrightarrow>
         pl_dropped p' = pl_dropped p + 1)"
proof -
  obtain ok data where n: "normalize_message (frame_data frame) = (ok, data)" by fastforce
  obtain prep f' where pr: "prepare q (frame\<lparr>frame_data := data\<rparr>) = (prep, f')" by fastforce
  show ?thesis
  proof (cases "ok \<and> prep")
    case False
    then show ?thesis
      using assms(2) n pr by (auto simp: try_enqueue_midi_frame_def gains_def split: if_splits)
  next
    case True
    then have e: "enqueue_prepared_midi_frame now (\<lambda>q. q) f' p q = (r, p', q')"
      using assms(2) n pr by (simp add: try_enqueue_midi_frame_def)
    note out = enqueue_prepared_outcome [OF e]
    have valid: "valid"
      using pr True assms(1) by (simp add: prepare_def prepare_with_def input_queue_def split: if_splits)
    have nr: "r \<noteq> Inl InvalidMessage" "r \<noteq> Inr Filtered"
      using e by (auto simp: enqueue_prepared_midi_frame_def
          split: prod.splits sum.splits try_send_error.splits if_splits)
    have drop: "r \<noteq> Inr Enqueued \<Longrightarrow> pl_dropped p' = pl_dropped p + 1"
      using out by (auto simp: request_critical_midi_reset_def count_dropped_def split: if_splits)
    have same: "map entry_value (q_entries q') = map entry_value (q_entries q)" if "gains q q' = []"
    proof -
      have "length (q_entries q') \<le> length (q_entries q)" using that by (simp add: gains_def)
      then show ?thesis using out by (metis take_all)
    qed
    have n': "normalize_message (frame_data frame) = (True, data)" using n True by simp
    show ?thesis
      using out valid nr drop same prepared_frame_valid [OF assms(1) n' pr] n'
      by (cases "r = Inr Enqueued") auto
  qed
qed

theorem only_valid_midi_enters_witness:
  "let f = \<lparr>frame_generation = 0, frame_ingress_qpc = 0, frame_data = [0x90, 60, 0],
            frame_capacity = 32, frame_source = ''RTP:A''\<rparr>;
       q = prepare_input_routing default_app_config (bounded '''' 16);
       p = \<lparr>pl_in = 0, pl_out = 0, pl_filtered = 0, pl_queue_depth = 0, pl_queue_max_depth = 0,
            pl_dropped = 0, pl_debug_sample_last_ms = 0, pl_reset_requested = False, pl_reset_generation = 4\<rparr>
   in fst (try_enqueue_midi_frame 0 (\<lambda>q. q) f p q) = Inl InvalidMessage \<longleftrightarrow> \<not> valid_message [0x90, 60, 0]"
proof -
  let ?f = "\<lparr>frame_generation = 0, frame_ingress_qpc = 0, frame_data = [0x90, 60, 0],
            frame_capacity = 32, frame_source = ''RTP:A''\<rparr>"
  let ?q = "prepare_input_routing default_app_config (bounded '''' 16)"
  let ?p = "\<lparr>pl_in = 0, pl_out = 0, pl_filtered = 0, pl_queue_depth = 0, pl_queue_max_depth = 0,
            pl_dropped = 0, pl_debug_sample_last_ms = 0, pl_reset_requested = False, pl_reset_generation = 4\<rparr>"
  obtain r p' q' where e: "try_enqueue_midi_frame 0 (\<lambda>q. q) ?f ?p ?q = (r, p', q')"
    by (metis prod_cases3)
  from only_valid_midi_enters [OF prepare_input_queue e] e show ?thesis by (simp add: Let_def)
qed

section \<open>The high-water mark\<close>

lemma raise_max_depth_bounds:
  "depth \<le> raise_max_depth depth current observed
   \<and> raise_max_depth depth current observed \<in> insert depth (insert current (set observed))"
proof (induction observed arbitrary: current)
  case Nil
  then show ?case by (auto simp: raise_max_depth.simps)
next
  case (Cons o1 os)
  show ?case using Cons [of o1] by (auto simp: raise_max_depth.simps [of depth current] not_less)
qed

lemma raise_max_depth_uncontended: "raise_max_depth depth current [] = max current depth"
  by (auto simp: raise_max_depth.simps max_def)

end
