(* ===== verification/Osc_Output.thy ===== *)
theory Osc_Output
  imports Enqueue Note_State
begin

text \<open>
  OSC output: the combination of all sources and channels into one switch per key and one for
  the sustain pedal (\<open>OscOutputState\<close> in \<open>bridge/pipeline.rs\<close>), and the client that sends the
  switches as datagrams (\<open>osc.rs\<close>). The OSC encoder and the socket are parameters.
\<close>

section \<open>The client\<close>

datatype osc_arg = OscInt i32 | OscFloat f32

record osc_message =
  om_addr :: string
  om_args :: "osc_arg list"

definition PARAMETER_PATH :: string where "PARAMETER_PATH = ''/avatar/parameters/''"
definition SUSTAIN_PARAM :: string where "SUSTAIN_PARAM = ''/avatar/parameters/sustain''"

text \<open>Decimal digits, as \<open>format!\<close> prints an unsigned integer.\<close>

fun show_nat :: "nat \<Rightarrow> string" where
  "show_nat n =
     (if n < 10 then [char_of (48 + n)] else show_nat (n div 10) @ [char_of (48 + n mod 10)])"

declare show_nat.simps [simp del]

definition parameter_name :: "u8 \<Rightarrow> string" where
  "parameter_name index = PARAMETER_PATH @ show_nat (unat index)"

definition encode_param :: "(osc_message \<Rightarrow> 'd) \<Rightarrow> string \<Rightarrow> bool \<Rightarrow> 'd" where
  "encode_param enc name pressed =
     enc \<lparr>om_addr = name, om_args = [OscInt (if pressed then 1 else 0)]\<rparr>"

definition NOTE_PACKETS :: "(osc_message \<Rightarrow> 'd) \<Rightarrow> ('d \<times> 'd) list" where
  "NOTE_PACKETS enc =
     map (\<lambda>i. (encode_param enc (parameter_name (of_nat i)) False,
               encode_param enc (parameter_name (of_nat i)) True))
       [1..<Suc (unat (NOTE_MAX - NOTE_MIN + 1))]"

text \<open>
  \<open>'w\<close> is the socket's state, \<open>send_to\<close> its operation towards the target, \<open>oc_encode\<close> the OSC encoder,
  which cannot fail on the fixed packets the client sends.
\<close>

record ('d, 'w) osc_client =
  oc_encode :: "osc_message \<Rightarrow> 'd"
  oc_send_to :: "'d \<Rightarrow> 'w \<Rightarrow> (string + unit) \<times> 'w"

definition send_note ::
  "('d, 'w) osc_client \<Rightarrow> u8 \<Rightarrow> bool \<Rightarrow> 'w \<Rightarrow> (string + unit) \<times> 'w" where
  "send_note client index pressed w =
     (if index = 0 then (Inl ''OSC note index must be positive'', w)
      else
        let i = unat (saturating_sub index 1); packets = NOTE_PACKETS (oc_encode client)
        in if i < length packets
           then oc_send_to client (if pressed then snd (packets ! i) else fst (packets ! i)) w
           else (Inl (''OSC note index out of range: '' @ show_nat (unat index)), w))"

definition send_sustain ::
  "('d, 'w) osc_client \<Rightarrow> bool \<Rightarrow> 'w \<Rightarrow> (string + unit) \<times> 'w" where
  "send_sustain client pressed w =
     oc_send_to client (encode_param (oc_encode client) SUSTAIN_PARAM pressed) w"

text \<open>The \<open>record\<close> closure: every send is attempted, the first error is kept.\<close>

fun send_each ::
  "('w \<Rightarrow> (string + unit) \<times> 'w) list \<Rightarrow> string option \<Rightarrow> 'w \<Rightarrow> string option \<times> 'w" where
  "send_each [] first_error w = (first_error, w)"
| "send_each (send # sends) first_error w =
     (case send w of
        (Inr _, w') \<Rightarrow> send_each sends first_error w'
      | (Inl e, w') \<Rightarrow>
          send_each sends (case first_error of None \<Rightarrow> Some e | Some e1 \<Rightarrow> Some e1) w')"

definition send_reset_all :: "('d, 'w) osc_client \<Rightarrow> 'w \<Rightarrow> (string + unit) \<times> 'w" where
  "send_reset_all client w =
     (case send_each
        ([\<lambda>w. oc_send_to client (oc_encode client
            \<lparr>om_addr = PARAMETER_PATH @ ''K1'', om_args = [OscFloat 0]\<rparr>) w,
          send_sustain client False]
         @ map (\<lambda>note. send_note client (of_nat note - NOTE_MIN + 1) False)
             [unat NOTE_MIN..<Suc (unat NOTE_MAX)]) None w of
        (None, w') \<Rightarrow> (Inr (), w')
      | (Some e, w') \<Rightarrow> (Inl e, w'))"

text \<open>\<open>for_config\<close> falls back to the default target when OSC is disabled.\<close>

definition for_config ::
  "(string \<Rightarrow> u16 \<Rightarrow> string + 'c) \<Rightarrow> bool \<Rightarrow> string \<Rightarrow> u16 \<Rightarrow> string + 'c" where
  "for_config new_client enabled ip port =
     (case new_client ip port of
        Inr client \<Rightarrow> Inr client
      | Inl err \<Rightarrow> if enabled then Inl err else new_client ''127.0.0.1'' 9000)"

section \<open>Output state\<close>

record osc_source_state =
  os_notes :: "u128 list"
  os_sustain :: "bool list"

definition default_osc_source :: osc_source_state where
  "default_osc_source = \<lparr>os_notes = replicate 16 0, os_sustain = replicate 16 False\<rparr>"

record osc_output_state =
  oo_sources :: "(string, osc_source_state) hash_map"
  oo_sent_notes :: u128
  oo_sent_sustain :: bool

definition default_osc_output :: osc_output_state where
  "default_osc_output = \<lparr>oo_sources = [], oo_sent_notes = 0, oo_sent_sustain = False\<rparr>"

definition reset_sent :: "osc_output_state \<Rightarrow> osc_output_state" where
  "reset_sent st = st\<lparr>oo_sent_notes := 0, oo_sent_sustain := False\<rparr>"

definition osc_clear :: "osc_output_state \<Rightarrow> osc_output_state" where
  "osc_clear st = reset_sent (st\<lparr>oo_sources := []\<rparr>)"

text \<open>The effect of a channel message on the state of its source.\<close>

definition update_osc_source :: "bytes \<Rightarrow> osc_source_state \<Rightarrow> osc_source_state" where
  "update_osc_source data source =
     (let status = data ! 0; channel = unat (status AND 15) in
      case parse_note data of
        Some n \<Rightarrow>
          (case mn_index n of
             None \<Rightarrow> source
           | Some index \<Rightarrow>
               let mask = shl1 (unat (index - 1))
               in if mn_kind n = NoteOn
                  then source\<lparr>os_notes := (os_notes source)[channel := os_notes source ! channel OR mask]\<rparr>
                  else source\<lparr>os_notes := (os_notes source)[channel := os_notes source ! channel AND NOT mask]\<rparr>)
      | None \<Rightarrow>
          (case parse_sustain data of
             Some sustain \<Rightarrow> source\<lparr>os_sustain := (os_sustain source)[channel := ms_pressed sustain]\<rparr>
           | None \<Rightarrow>
               if status AND 0xF0 = 0xB0 \<and> length data = 3 then
                 if data ! 1 = 120 \<or> (123 \<le> data ! 1 \<and> data ! 1 \<le> 127)
                 then source\<lparr>os_notes := (os_notes source)[channel := 0]\<rparr>
                 else if data ! 1 = 121
                 then source\<lparr>os_sustain := (os_sustain source)[channel := False]\<rparr>
                 else source
               else source))"

definition osc_observe :: "osc_output_state \<Rightarrow> midi_frame \<Rightarrow> osc_output_state" where
  "osc_observe st frame =
     (let data = frame_data frame; src = frame_source frame; sources = oo_sources st in
      case data of
        [] \<Rightarrow> st
      | status # _ \<Rightarrow>
          if data = [0xFF] then
            (if starts_with ''RTP:'' src then st\<lparr>oo_sources := AList.delete src sources\<rparr>
             else st\<lparr>oo_sources := []\<rparr>)
          else if \<not> (0x80 \<le> status \<and> status < 0xF0) then st
          else if src = ''ReliablePLV:server-stop'' \<and> status AND 0xF0 = 0xB0 \<and> length data = 3
                  \<and> data ! 1 \<in> {120, 123}
          then st\<lparr>oo_sources := filter (\<lambda>(key, _). \<not> starts_with ''ReliablePLV:'' key) sources\<rparr>
          else
            let source = update_osc_source data (map_entry_or src default_osc_source sources);
                sources' = AList.update src source sources
            in if list_all (\<lambda>notes. notes = 0) (os_notes source)
                  \<and> list_all (\<lambda>pressed. \<not> pressed) (os_sustain source)
               then st\<lparr>oo_sources := AList.delete src sources'\<rparr>
               else st\<lparr>oo_sources := sources'\<rparr>)"

text \<open>
  \<open>flush\<close>: \<open>send\<close> is the closure it is given, with the state \<open>'w\<close> it changes. A switch is
  committed only after it was sent; an error ends the call.
\<close>

fun flush_notes ::
  "(u8 option \<Rightarrow> bool \<Rightarrow> 'w \<Rightarrow> (string + unit) \<times> 'w) \<Rightarrow> u128 \<Rightarrow> u8 list \<Rightarrow> u128 \<Rightarrow> 'w
     \<Rightarrow> (string + unit) \<times> u128 \<times> 'w" where
  "flush_notes send notes [] sent w = (Inr (), sent, w)"
| "flush_notes send notes (index # indices) sent w =
     (let mask = shl1 (unat (index - 1)); pressed = (notes AND mask \<noteq> 0)
      in if pressed \<noteq> (sent AND mask \<noteq> 0) then
           (case send (Some index) pressed w of
              (Inl e, w') \<Rightarrow> (Inl e, sent, w')
            | (Inr _, w') \<Rightarrow>
                flush_notes send notes indices
                  (if pressed then sent OR mask else sent AND NOT mask) w')
         else flush_notes send notes indices sent w)"

definition combined_notes :: "osc_output_state \<Rightarrow> u128" where
  "combined_notes st =
     fold (\<lambda>notes all. all OR notes) (concat (map (\<lambda>(_, source). os_notes source) (oo_sources st))) 0"

definition combined_sustain :: "osc_output_state \<Rightarrow> bool" where
  "combined_sustain st =
     list_ex (\<lambda>(_, source). list_ex (\<lambda>pressed. pressed) (os_sustain source)) (oo_sources st)"

definition note_indices :: "u8 list" where
  "note_indices = map of_nat [1..<Suc (unat (NOTE_MAX - NOTE_MIN + 1))]"

definition osc_flush ::
  "(u8 option \<Rightarrow> bool \<Rightarrow> 'w \<Rightarrow> (string + unit) \<times> 'w) \<Rightarrow> osc_output_state \<Rightarrow> 'w
     \<Rightarrow> (string + unit) \<times> osc_output_state \<times> 'w" where
  "osc_flush send st w =
     (let notes = combined_notes st; sustain = combined_sustain st
      in case flush_notes send notes note_indices (oo_sent_notes st) w of
           (Inl e, sent, w') \<Rightarrow> (Inl e, st\<lparr>oo_sent_notes := sent\<rparr>, w')
         | (Inr _, sent, w') \<Rightarrow>
             let st' = st\<lparr>oo_sent_notes := sent\<rparr>
             in if sustain \<noteq> oo_sent_sustain st' then
                  (case send None sustain w' of
                     (Inl e, w'') \<Rightarrow> (Inl e, st', w'')
                   | (Inr _, w'') \<Rightarrow> (Inr (), st'\<lparr>oo_sent_sustain := sustain\<rparr>, w''))
                else (Inr (), st', w'))"

section \<open>The interface of a switch sink\<close>

text \<open>
  What \<open>flush\<close> relies on in its sender: a successful send delivers the packet of the switch,
  a failed one delivers nothing. A datagram socket gives this to the client.
\<close>

definition osc_switches :: "u8 option set" where
  "osc_switches = insert None (Some ` {i. 1 \<le> i \<and> i \<le> 88})"

text \<open>The switches as last sent, and as they should be.\<close>

definition osc_sent :: "osc_output_state \<Rightarrow> u8 option \<Rightarrow> bool" where
  "osc_sent st i =
     (case i of None \<Rightarrow> oo_sent_sustain st | Some k \<Rightarrow> bit (oo_sent_notes st) (unat (k - 1)))"

definition osc_wanted :: "osc_output_state \<Rightarrow> u8 option \<Rightarrow> bool" where
  "osc_wanted st i =
     (case i of None \<Rightarrow> combined_sustain st | Some k \<Rightarrow> bit (combined_notes st) (unat (k - 1)))"

lemma key_count: "unat (NOTE_MAX - NOTE_MIN + 1) = 88"
  by (simp add: NOTE_MAX_def NOTE_MIN_def)

lemma set_note_indices: "set note_indices = {i. 1 \<le> i \<and> i \<le> 88}"
proof -
  have "i \<in> of_nat ` {1..<89}" if "1 \<le> i" "i \<le> 88" for i :: u8
    using that by (intro image_eqI [of _ _ "unat i"]) (auto simp: word_le_nat_alt)
  moreover have "1 \<le> (of_nat n :: u8) \<and> (of_nat n :: u8) \<le> 88" if "n \<in> {1..<89}" for n
    using that by (auto simp: word_le_nat_alt unat_of_nat)
  ultimately show ?thesis unfolding note_indices_def key_count by auto
qed

lemma distinct_note_indices: "distinct note_indices"
proof -
  have "inj_on (of_nat :: nat \<Rightarrow> u8) {1..<89}"
  proof (rule inj_onI)
    fix m n assume mn: "m \<in> {1..<89}" "n \<in> {1..<89}" "(of_nat m :: u8) = of_nat n"
    have "unat (of_nat m :: u8) = unat (of_nat n :: u8)" using mn(3) by (rule arg_cong)
    then show "m = n" using mn(1,2) by (simp add: unat_of_nat)
  qed
  then show ?thesis unfolding note_indices_def key_count by (simp add: distinct_map)
qed

locale switch_sink =
  fixes send :: "u8 option \<Rightarrow> bool \<Rightarrow> 'w \<Rightarrow> (string + unit) \<times> 'w"
    and delivered :: "'w \<Rightarrow> 'd list"
    and packet :: "u8 option \<Rightarrow> bool \<Rightarrow> 'd"
  assumes send_ok: "i \<in> osc_switches \<Longrightarrow> send i p w = (Inr (), w') \<Longrightarrow>
      delivered w' = delivered w @ [packet i p]"
    and send_err: "send i p w = (Inl e, w') \<Longrightarrow> delivered w' = delivered w"
begin

lemma flush_notes_changes:
  assumes "flush_notes send notes indices sent w = (r, sent', w')"
    and "distinct indices" "\<forall>i \<in> set indices. 1 \<le> i \<and> i \<le> 88"
  shows "\<exists>cs. delivered w' = delivered w @ map (\<lambda>i. packet (Some i) (bit notes (unat (i - 1)))) cs
    \<and> set cs \<subseteq> set indices \<and> distinct cs
    \<and> (\<forall>i \<in> set cs. bit notes (unat (i - 1)) \<noteq> bit sent (unat (i - 1)))
    \<and> (\<forall>k. bit sent' k = (if \<exists>i \<in> set cs. unat (i - 1) = k then bit notes k else bit sent k))
    \<and> (r = Inr () \<longrightarrow> (\<forall>i \<in> set indices. bit sent' (unat (i - 1)) = bit notes (unat (i - 1))))"
  using assms
proof (induction indices arbitrary: sent w)
  case Nil
  then show ?case by (auto intro: exI [of _ "[]"])
next
  case (Cons i js)
  have i: "1 \<le> i" "i \<le> 88" and js: "\<forall>i \<in> set js. 1 \<le> i \<and> i \<le> 88" "distinct js" "i \<notin> set js"
    using Cons.prems by auto
  have k: "unat (i - 1) < 128"
    using i by (simp add: unat_sub word_le_nat_alt)
  have inj: "unat (j - 1) = unat (i - 1) \<longleftrightarrow> j = i" for j
    by (simp add: word_unat_eq_iff [symmetric])
  let ?p = "bit notes (unat (i - 1))"
  show ?case
  proof (cases "?p = bit sent (unat (i - 1))")
    case True
    then have rest: "flush_notes send notes js sent w = (r, sent', w')"
      using Cons.prems(1) k by (simp add: Let_def)
    from Cons.IH [OF rest js(2,1)] show ?thesis
      using True inj by (elim exE) (rule_tac x = cs in exI, auto)
  next
    case change: False
    show ?thesis
    proof (cases "send (Some i) ?p w")
      case (Pair r1 w1)
      show ?thesis
      proof (cases r1)
        case (Inl e)
        then have "r = Inl e" "sent' = sent" "w' = w1"
          using Cons.prems(1) k change Pair by (simp_all add: Let_def)
        then show ?thesis using send_err [of "Some i" ?p w e w1] Pair Inl
          by (auto intro: exI [of _ "[]"])
      next
        case (Inr u)
        let ?sent = "if ?p then sent OR shl1 (unat (i - 1)) else sent AND NOT (shl1 (unat (i - 1)))"
        have rest: "flush_notes send notes js ?sent w1 = (r, sent', w')"
          using Cons.prems(1) k change Pair Inr by (simp add: Let_def)
        have log: "delivered w1 = delivered w @ [packet (Some i) ?p]"
          using send_ok [of "Some i" ?p w w1] Pair Inr i by (simp add: osc_switches_def)
        have bits: "bit ?sent k = (if k = unat (i - 1) then ?p else bit sent k)" for k
          using k by (auto simp: bit_or_shl1 bit_and_not_shl1)
        from Cons.IH [OF rest js(2,1)] obtain cs where
          cs: "delivered w' = delivered w1 @ map (\<lambda>i. packet (Some i) (bit notes (unat (i - 1)))) cs"
            "set cs \<subseteq> set js" "distinct cs"
            "\<forall>j \<in> set cs. bit notes (unat (j - 1)) \<noteq> bit ?sent (unat (j - 1))"
            "\<forall>k. bit sent' k = (if \<exists>i \<in> set cs. unat (i - 1) = k then bit notes k else bit ?sent k)"
            "r = Inr () \<longrightarrow> (\<forall>i \<in> set js. bit sent' (unat (i - 1)) = bit notes (unat (i - 1)))"
          by blast
        have ni: "j \<noteq> i" if "j \<in> set cs" for j using that cs(2) js(3) by blast
        show ?thesis
        proof (intro exI [of _ "i # cs"] conjI)
          show "\<forall>j \<in> set (i # cs). bit notes (unat (j - 1)) \<noteq> bit sent (unat (j - 1))"
            using cs(4) change ni inj unfolding bits by auto
          show "\<forall>k. bit sent' k = (if \<exists>j \<in> set (i # cs). unat (j - 1) = k then bit notes k else bit sent k)"
            using cs(5) unfolding bits by auto
          show "r = Inr () \<longrightarrow> (\<forall>j \<in> set (i # js). bit sent' (unat (j - 1)) = bit notes (unat (j - 1)))"
            using cs(5,6) unfolding bits by auto
        qed (use cs log js(3) in auto)
      qed
    qed
  qed
qed

lemma osc_flush_changes:
  assumes "osc_flush send st w = (r, st', w')"
  shows "\<exists>cs. delivered w' = delivered w @ map (\<lambda>i. packet i (osc_wanted st i)) cs
    \<and> set cs \<subseteq> osc_switches \<and> distinct cs
    \<and> (\<forall>i \<in> set cs. osc_wanted st i \<noteq> osc_sent st i)
    \<and> (\<forall>i \<in> osc_switches. osc_sent st' i = (if i \<in> set cs then osc_wanted st i else osc_sent st i))
    \<and> (r = Inr () \<longrightarrow> (\<forall>i \<in> osc_switches. osc_sent st' i = osc_wanted st i))
    \<and> oo_sources st' = oo_sources st"
proof -
  let ?notes = "combined_notes st"
  obtain r1 sent1 w1 where f: "flush_notes send ?notes note_indices (oo_sent_notes st) w = (r1, sent1, w1)"
    by (metis prod_cases3)
  obtain cs where cs: "delivered w1 = delivered w @ map (\<lambda>i. packet (Some i) (bit ?notes (unat (i - 1)))) cs"
      "set cs \<subseteq> set note_indices" "distinct cs"
      "\<forall>i \<in> set cs. bit ?notes (unat (i - 1)) \<noteq> bit (oo_sent_notes st) (unat (i - 1))"
      "\<forall>k. bit sent1 k = (if \<exists>i \<in> set cs. unat (i - 1) = k then bit ?notes k else bit (oo_sent_notes st) k)"
      "r1 = Inr () \<longrightarrow> (\<forall>i \<in> set note_indices. bit sent1 (unat (i - 1)) = bit ?notes (unat (i - 1)))"
    using flush_notes_changes [OF f distinct_note_indices] by (auto simp: set_note_indices)
  have sent1: "bit sent1 (unat (i - 1)) =
      (if i \<in> set cs then bit ?notes (unat (i - 1)) else bit (oo_sent_notes st) (unat (i - 1)))" for i
    using cs(5) by (auto simp: word_unat_eq_iff [symmetric])
  have sub: "Some ` set cs \<subseteq> osc_switches"
    using cs(2) by (auto simp: osc_switches_def set_note_indices)
  have head: "delivered w1 = delivered w @ map (\<lambda>i. packet i (osc_wanted st i)) (map Some cs)"
    using cs(1) by (simp add: osc_wanted_def comp_def)
  have dist: "distinct (map Some cs)" using cs(3) by (simp add: distinct_map)
  have want: "\<forall>i \<in> set (map Some cs). osc_wanted st i \<noteq> osc_sent st i"
    using cs(4) by (simp add: osc_wanted_def osc_sent_def)
  have upd: "osc_sent (st\<lparr>oo_sent_notes := sent1\<rparr>) i = (if i \<in> set (map Some cs) then osc_wanted st i else osc_sent st i)" for i
    using sent1 by (cases i) (auto simp: osc_sent_def osc_wanted_def)
  show ?thesis
  proof (cases r1)
    case (Inl e)
    then have "st' = st\<lparr>oo_sent_notes := sent1\<rparr>" "w' = w1" "r = Inl e"
      using assms f by (simp_all add: osc_flush_def Let_def)
    then show ?thesis using head sub dist want upd by (intro exI [of _ "map Some cs"]) auto
  next
    case (Inr u)
    have sent_ok: "osc_sent (st\<lparr>oo_sent_notes := sent1\<rparr>) (Some k) = osc_wanted st (Some k)"
      if "1 \<le> k" "k \<le> 88" for k
      using cs(6) Inr that by (simp add: osc_sent_def osc_wanted_def set_note_indices)
    show ?thesis
    proof (cases "combined_sustain st = oo_sent_sustain st")
      case True
      then have st': "st' = st\<lparr>oo_sent_notes := sent1\<rparr>" "w' = w1"
        using assms f Inr by (simp_all add: osc_flush_def Let_def)
      have "osc_sent (st\<lparr>oo_sent_notes := sent1\<rparr>) None = osc_wanted st None"
        using True by (simp add: osc_sent_def osc_wanted_def)
      then have "\<forall>i \<in> osc_switches. osc_sent st' i = osc_wanted st i"
        using sent_ok st' by (auto simp: osc_switches_def)
      then show ?thesis using st' head sub dist want upd by (intro exI [of _ "map Some cs"]) auto
    next
      case change: False
      show ?thesis
      proof (cases "send None (combined_sustain st) w1")
        case (Pair r2 w2)
        show ?thesis
        proof (cases r2)
          case (Inl e)
          then have "st' = st\<lparr>oo_sent_notes := sent1\<rparr>" "w' = w2" "r = Inl e"
            using assms f Inr change Pair by (simp_all add: osc_flush_def Let_def)
          then show ?thesis using send_err [of None _ w1 e w2] Pair Inl head sub dist want upd
            by (intro exI [of _ "map Some cs"]) auto
        next
          case ok: (Inr v)
          then have st': "st' = st\<lparr>oo_sent_notes := sent1, oo_sent_sustain := combined_sustain st\<rparr>" "w' = w2"
            using assms f Inr change Pair by (simp_all add: osc_flush_def Let_def)
          have log: "delivered w2 = delivered w1 @ [packet None (combined_sustain st)]"
            using send_ok [of None "combined_sustain st" w1 w2] Pair ok by (simp add: osc_switches_def)
          have sent: "osc_sent st' i = (if i = None then osc_wanted st i
              else osc_sent (st\<lparr>oo_sent_notes := sent1\<rparr>) i)" for i
            by (cases i) (simp_all add: st' osc_sent_def osc_wanted_def)
          show ?thesis
          proof (intro exI [of _ "map Some cs @ [None]"] conjI)
            show "delivered w' = delivered w @ map (\<lambda>i. packet i (osc_wanted st i)) (map Some cs @ [None])"
              using head log st'(2) by (simp add: osc_wanted_def)
            show "\<forall>i \<in> set (map Some cs @ [None]). osc_wanted st i \<noteq> osc_sent st i"
              using want change by (auto simp: osc_wanted_def osc_sent_def)
            show "\<forall>i \<in> osc_switches. osc_sent st' i =
                (if i \<in> set (map Some cs @ [None]) then osc_wanted st i else osc_sent st i)"
              using upd unfolding sent by auto
            show "r = Inr () \<longrightarrow> (\<forall>i \<in> osc_switches. osc_sent st' i = osc_wanted st i)"
              using sent_ok unfolding sent by (auto simp: osc_switches_def)
            show "oo_sources st' = oo_sources st" by (simp add: st')
            show "set (map Some cs @ [None]) \<subseteq> osc_switches" using sub by (simp add: osc_switches_def)
            show "distinct (map Some cs @ [None])" using dist by auto
          qed
        qed
      qed
    qed
  qed
qed

end

section \<open>The client is a sink\<close>

text \<open>
  A datagram socket whose sends fail as a script says: each entry of \<open>udp_faults\<close> is the answer
  to one send, and the sends after the script succeed.
\<close>

record 'd udp =
  udp_sent :: "'d list"
  udp_faults :: "string option list"

definition udp_send_to :: "'d \<Rightarrow> 'd udp \<Rightarrow> (string + unit) \<times> 'd udp" where
  "udp_send_to d w =
     (case udp_faults w of
        [] \<Rightarrow> (Inr (), w\<lparr>udp_sent := udp_sent w @ [d]\<rparr>)
      | None # fs \<Rightarrow> (Inr (), w\<lparr>udp_sent := udp_sent w @ [d], udp_faults := fs\<rparr>)
      | Some e # fs \<Rightarrow> (Inl e, w\<lparr>udp_faults := fs\<rparr>))"

definition udp_client :: "(osc_message \<Rightarrow> 'd) \<Rightarrow> ('d, 'd udp) osc_client" where
  "udp_client enc = \<lparr>oc_encode = enc, oc_send_to = udp_send_to\<rparr>"

text \<open>The closure \<open>handle_midi_frame\<close> passes to \<open>flush\<close>, and the packet of a switch.\<close>

definition client_switch ::
  "('d, 'w) osc_client \<Rightarrow> u8 option \<Rightarrow> bool \<Rightarrow> 'w \<Rightarrow> (string + unit) \<times> 'w" where
  "client_switch client i pressed w =
     (case i of Some index \<Rightarrow> send_note client index pressed w | None \<Rightarrow> send_sustain client pressed w)"

definition switch_packet :: "(osc_message \<Rightarrow> 'd) \<Rightarrow> u8 option \<Rightarrow> bool \<Rightarrow> 'd" where
  "switch_packet enc i pressed =
     enc \<lparr>om_addr = (case i of Some k \<Rightarrow> parameter_name k | None \<Rightarrow> SUSTAIN_PARAM),
          om_args = [OscInt (if pressed then 1 else 0)]\<rparr>"

lemma send_note_packet:
  assumes "1 \<le> k" "k \<le> 88"
  shows "send_note client k pressed w = oc_send_to client (switch_packet (oc_encode client) (Some k) pressed) w"
proof -
  have k: "0 < unat k" "unat k \<le> 88" using assms by (auto simp: word_le_nat_alt)
  then have nth: "[1..<89] ! (unat k - 1) = unat k" by simp
  have "unat (saturating_sub k 1) = unat k - 1" by (simp add: unat_saturating_sub)
  then show ?thesis
    using k nth by (auto simp: send_note_def NOTE_PACKETS_def key_count switch_packet_def
        encode_param_def Let_def)
qed

lemma udp_send_log:
  "udp_send_to d w = (Inr u, w') \<Longrightarrow> udp_sent w' = udp_sent w @ [d]"
  "udp_send_to d w = (Inl e, w') \<Longrightarrow> udp_sent w' = udp_sent w"
  by (auto simp: udp_send_to_def split: list.splits option.splits)

interpretation osc_sink: switch_sink "client_switch (udp_client enc)" udp_sent "switch_packet enc" for enc
proof unfold_locales
  show "udp_sent w' = udp_sent w @ [switch_packet enc i p]"
    if "i \<in> osc_switches" "client_switch (udp_client enc) i p w = (Inr (), w')" for i p w w'
  proof (cases i)
    case None
    then show ?thesis
      using that(2) by (auto simp: client_switch_def send_sustain_def udp_client_def encode_param_def
          switch_packet_def dest: udp_send_log(1))
  next
    case (Some k)
    then have "1 \<le> k" "k \<le> 88" using that(1) by (auto simp: osc_switches_def)
    then show ?thesis
      using that(2) Some send_note_packet [of k "udp_client enc" p w]
      by (auto simp: client_switch_def udp_client_def dest: udp_send_log(1) [OF sym])
  qed
  show "udp_sent w' = udp_sent w" if "client_switch (udp_client enc) i p w = (Inl e, w')" for i p w e w'
    using that
    by (auto simp: client_switch_def send_sustain_def send_note_def udp_client_def Let_def
        dest: udp_send_log(2) split: option.splits if_splits)
qed

lemma client_switch_without_faults:
  assumes "udp_faults w = []" "i \<in> osc_switches"
  shows "client_switch (udp_client enc) i p w
    = (Inr (), w\<lparr>udp_sent := udp_sent w @ [switch_packet enc i p]\<rparr>)"
  using assms
  by (auto simp: client_switch_def osc_switches_def send_note_packet send_sustain_def encode_param_def
      switch_packet_def udp_client_def udp_send_to_def)

lemma flush_notes_without_faults:
  assumes "udp_faults w = []" "\<forall>i \<in> set indices. 1 \<le> i \<and> i \<le> 88"
  shows "\<exists>sent' w'. flush_notes (client_switch (udp_client enc)) notes indices sent w = (Inr (), sent', w')
    \<and> udp_faults w' = []"
  using assms
proof (induction indices arbitrary: sent w)
  case Nil
  then show ?case by simp
next
  case (Cons i js)
  then have "Some i \<in> osc_switches" by (simp add: osc_switches_def)
  then show ?case using Cons by (simp add: Let_def client_switch_without_faults)
qed

lemma flush_without_faults:
  assumes "udp_faults w = []"
  shows "fst (osc_flush (client_switch (udp_client enc)) st w) = Inr ()"
proof -
  obtain sent' w' where
    "flush_notes (client_switch (udp_client enc)) (combined_notes st) note_indices (oo_sent_notes st) w
       = (Inr (), sent', w')" "udp_faults w' = []"
    using flush_notes_without_faults [OF assms, of note_indices enc "combined_notes st" "oo_sent_notes st"]
    by (auto simp: set_note_indices)
  moreover have "None \<in> osc_switches" by (simp add: osc_switches_def)
  ultimately show ?thesis by (simp add: osc_flush_def Let_def client_switch_without_faults)
qed

text \<open>
  \<open>flush\<close> brings the destination to the wanted state and is safe to retry. Whatever sends
  fail, the datagrams that leave are one for each of some switches that had to change, in
  their wanted position, each switch at most once; exactly those switches are recorded as
  sent; and when the call succeeds every switch is as wanted. A failed call forgets nothing:
  what was not delivered still differs and is sent by the next call.
\<close>

theorem flush_reaches_wanted:
  assumes "osc_flush (client_switch (udp_client enc)) st w = (r, st', w')"
  shows "\<exists>changed. udp_sent w' = udp_sent w @ map (\<lambda>i. switch_packet enc i (osc_wanted st i)) changed
    \<and> set changed \<subseteq> osc_switches \<and> distinct changed
    \<and> (\<forall>i \<in> set changed. osc_wanted st i \<noteq> osc_sent st i)
    \<and> (\<forall>i \<in> osc_switches. osc_sent st' i = (if i \<in> set changed then osc_wanted st i else osc_sent st i))
    \<and> (r = Inr () \<longrightarrow> (\<forall>i \<in> osc_switches. osc_sent st' i = osc_wanted st i))
    \<and> (udp_faults w = [] \<longrightarrow> r = Inr ())
    \<and> oo_sources st' = oo_sources st"
  using osc_sink.osc_flush_changes [OF assms] flush_without_faults [of w enc st] assms by auto

theorem flush_reaches_wanted_witness:
  "let st = osc_observe default_osc_output \<lparr>frame_generation = 0, frame_ingress_qpc = 0,
       frame_data = [0xB0, 64, 127], frame_capacity = 32, frame_source = ''RTP:A''\<rparr>;
       (r, st', w') = osc_flush (client_switch (udp_client (\<lambda>m. m))) st \<lparr>udp_sent = [], udp_faults = []\<rparr>
   in r = Inr () \<and> osc_sent st' None = osc_wanted st None"
proof -
  let ?st = "osc_observe default_osc_output \<lparr>frame_generation = 0, frame_ingress_qpc = 0,
       frame_data = [0xB0, 64, 127], frame_capacity = 32, frame_source = ''RTP:A''\<rparr>"
  obtain r st' w' where f: "osc_flush (client_switch (udp_client (\<lambda>m. m))) ?st
      \<lparr>udp_sent = [], udp_faults = []\<rparr> = (r, st', w')"
    by (metis prod_cases3)
  have "None \<in> osc_switches" by (simp add: osc_switches_def)
  then show ?thesis using flush_reaches_wanted [OF f] f by (auto simp: Let_def)
qed

section \<open>Resetting the destination\<close>

text \<open>The outcome of one scripted send, and of a list of them.\<close>

definition scripted :: "'d \<Rightarrow> ('d udp \<Rightarrow> (string + unit) \<times> 'd udp) \<Rightarrow> bool" where
  "scripted d send \<longleftrightarrow> (\<forall>w. send w = udp_send_to d w)"

definition next_fault :: "'d udp \<Rightarrow> string option" where
  "next_fault w = (case udp_faults w of [] \<Rightarrow> None | f # _ \<Rightarrow> f)"

lemma udp_send_step:
  "udp_send_to d w = (case next_fault w of None \<Rightarrow> Inr () | Some e \<Rightarrow> Inl e,
     \<lparr>udp_sent = (if next_fault w = None then udp_sent w @ [d] else udp_sent w),
      udp_faults = drop 1 (udp_faults w)\<rparr>)"
  by (cases w) (auto simp: udp_send_to_def next_fault_def split: list.split option.split)

fun delivered_of :: "'d list \<Rightarrow> string option list \<Rightarrow> 'd list" where
  "delivered_of [] fs = []"
| "delivered_of (d # ds) [] = d # ds"
| "delivered_of (d # ds) (None # fs) = d # delivered_of ds fs"
| "delivered_of (d # ds) (Some e # fs) = delivered_of ds fs"

fun first_fault :: "nat \<Rightarrow> string option list \<Rightarrow> string option" where
  "first_fault (Suc n) (f # fs) = (case f of None \<Rightarrow> first_fault n fs | Some e \<Rightarrow> Some e)"
| "first_fault _ _ = None"

lemma delivered_of_no_faults [simp]: "delivered_of ds [] = ds"
  by (cases ds) simp_all

lemma first_fault_no_faults [simp]: "first_fault n [] = None"
  by (cases n) simp_all

lemma send_each_scripted:
  assumes "list_all2 scripted ds sends"
  shows "send_each sends e w =
    (case e of None \<Rightarrow> first_fault (length ds) (udp_faults w) | Some e1 \<Rightarrow> Some e1,
     \<lparr>udp_sent = udp_sent w @ delivered_of ds (udp_faults w), udp_faults = drop (length ds) (udp_faults w)\<rparr>)"
  using assms
proof (induction ds sends arbitrary: e w rule: list_all2_induct)
  case Nil
  then show ?case by (cases w) (simp split: option.split)
next
  case (Cons d ds send sends)
  have step: "send w = udp_send_to d w" for w using Cons(1) by (simp add: scripted_def)
  show ?case
  proof (cases "udp_faults w")
    case Nil
    then show ?thesis
      using Cons(3) by (simp add: step udp_send_step next_fault_def split: option.split)
  next
    case (Cons f fs)
    then show ?thesis
      using Cons.IH
      by (cases f) (simp_all add: step udp_send_step next_fault_def \<open>\<And>w e. send_each sends e w = _\<close> split: option.split)
  qed
qed

definition reset_packets :: "(osc_message \<Rightarrow> 'd) \<Rightarrow> 'd list" where
  "reset_packets enc =
     [enc \<lparr>om_addr = PARAMETER_PATH @ ''K1'', om_args = [OscFloat 0]\<rparr>, switch_packet enc None False]
     @ map (\<lambda>i. switch_packet enc (Some i) False) note_indices"

lemma reset_note_list:
  "map (\<lambda>n. (of_nat n :: u8) - NOTE_MIN + 1) [unat NOTE_MIN..<Suc (unat NOTE_MAX)] = note_indices"
proof -
  have "unat NOTE_MIN = 21" "Suc (unat NOTE_MAX) = 109"
    by (simp_all add: NOTE_MIN_def NOTE_MAX_def)
  moreover have "[21..<109] = map (\<lambda>n. n + 20) [1..<89]"
    by (rule nth_equalityI) (simp_all del: upt_rec_numeral)
  ultimately have "[unat NOTE_MIN..<Suc (unat NOTE_MAX)] = map (\<lambda>n. n + 20) [1..<89]" by simp
  then have "map (\<lambda>n. (of_nat n :: u8) - NOTE_MIN + 1) [unat NOTE_MIN..<Suc (unat NOTE_MAX)]
      = map (\<lambda>n. (of_nat (n + 20) :: u8) - NOTE_MIN + 1) [1..<89]"
    by (simp only: map_map comp_def)
  also have "\<dots> = map of_nat [1..<89]"
    by (rule map_cong) (simp_all add: NOTE_MIN_def)
  finally show ?thesis unfolding note_indices_def key_count by simp
qed

lemma send_reset_all_scripted:
  "send_reset_all (udp_client enc) w =
     (case first_fault 90 (udp_faults w) of None \<Rightarrow> Inr () | Some e \<Rightarrow> Inl e,
      \<lparr>udp_sent = udp_sent w @ delivered_of (reset_packets enc) (udp_faults w),
       udp_faults = drop 90 (udp_faults w)\<rparr>)
   \<and> length (reset_packets enc) = 90
   \<and> set (reset_packets enc) = insert (enc \<lparr>om_addr = PARAMETER_PATH @ ''K1'', om_args = [OscFloat 0]\<rparr>)
        ((\<lambda>i. switch_packet enc i False) ` osc_switches)"
proof -
  let ?sends = "[\<lambda>w. oc_send_to (udp_client enc) (oc_encode (udp_client enc)
            \<lparr>om_addr = PARAMETER_PATH @ ''K1'', om_args = [OscFloat 0]\<rparr>) w,
          send_sustain (udp_client enc) False]
         @ map (\<lambda>i. send_note (udp_client enc) i False) note_indices"
  have key: "scripted (switch_packet enc (Some i) False) (send_note (udp_client enc) i False)"
    if "i \<in> set note_indices" for i
    using that send_note_packet [of i "udp_client enc" False]
    by (simp add: scripted_def udp_client_def set_note_indices)
  have keys: "list_all2 scripted (map (\<lambda>i. switch_packet enc (Some i) False) note_indices)
      (map (\<lambda>i. send_note (udp_client enc) i False) note_indices)"
    by (simp add: list_all2_map1 list_all2_map2 list_all2_same key)
  have "list_all2 scripted [enc \<lparr>om_addr = PARAMETER_PATH @ ''K1'', om_args = [OscFloat 0]\<rparr>,
      switch_packet enc None False] (take 2 ?sends)"
    by (simp add: scripted_def udp_client_def send_sustain_def switch_packet_def encode_param_def
        numeral_2_eq_2)
  from list_all2_appendI [OF this keys] have "list_all2 scripted (reset_packets enc) ?sends"
    by (simp add: reset_packets_def numeral_2_eq_2)
  from send_each_scripted [OF this, of None w]
  have each: "send_each ?sends None w = (first_fault 90 (udp_faults w),
     \<lparr>udp_sent = udp_sent w @ delivered_of (reset_packets enc) (udp_faults w), udp_faults = drop 90 (udp_faults w)\<rparr>)"
    by (simp add: reset_packets_def note_indices_def key_count)
  have "map (\<lambda>n. send_note (udp_client enc) (of_nat n - NOTE_MIN + 1) False) [unat NOTE_MIN..<Suc (unat NOTE_MAX)]
      = map (\<lambda>i. send_note (udp_client enc) i False) note_indices"
    unfolding reset_note_list [symmetric] by simp
  then have "send_reset_all (udp_client enc) w = (case send_each ?sends None w of
        (None, w') \<Rightarrow> (Inr (), w') | (Some e, w') \<Rightarrow> (Inl e, w'))"
    unfolding send_reset_all_def by simp
  moreover have "length (reset_packets enc) = 90"
    by (simp add: reset_packets_def note_indices_def key_count)
  moreover have "set (reset_packets enc) = insert (enc \<lparr>om_addr = PARAMETER_PATH @ ''K1'', om_args = [OscFloat 0]\<rparr>)
        ((\<lambda>i. switch_packet enc i False) ` osc_switches)"
    by (auto simp: reset_packets_def osc_switches_def set_note_indices)
  ultimately show ?thesis unfolding each by (simp split: option.split)
qed

text \<open>
  A reset of the OSC destination tries everything. Whatever sends fail, \<open>send_reset_all\<close>
  makes one attempt for the sustain parameter, the extra key and each of the 88 keys, in this
  order, all of them switched off; what is not refused is delivered, and the answer is
  success exactly when nothing was refused, else the first error.
\<close>

theorem reset_all_attempts_everything:
  "send_reset_all (udp_client enc) w =
     (case first_fault 90 (udp_faults w) of None \<Rightarrow> Inr () | Some e \<Rightarrow> Inl e,
      \<lparr>udp_sent = udp_sent w @ delivered_of (reset_packets enc) (udp_faults w),
       udp_faults = drop 90 (udp_faults w)\<rparr>)
   \<and> length (reset_packets enc) = 90
   \<and> set (reset_packets enc) = insert (enc \<lparr>om_addr = PARAMETER_PATH @ ''K1'', om_args = [OscFloat 0]\<rparr>)
        ((\<lambda>i. switch_packet enc i False) ` osc_switches)"
  by (rule send_reset_all_scripted)

section \<open>What the sources hold\<close>

text \<open>The keys (channel and key index) and the channels with a pressed pedal, of one source.\<close>

type_synonym osc_held = "(nat \<times> nat) set \<times> nat set"

definition osc_effect :: "bytes \<Rightarrow> osc_held \<Rightarrow> osc_held" where
  "osc_effect data held =
     (let ch = unat (data ! 0 AND 15); (keys, pedals) = held in
      case parse_note data of
        Some n \<Rightarrow>
          if NOTE_MIN \<le> mn_note n \<and> mn_note n \<le> NOTE_MAX then
            (if mn_kind n = NoteOn then insert (ch, unat (mn_note n) - 21) keys
             else keys - {(ch, unat (mn_note n) - 21)}, pedals)
          else held
      | None \<Rightarrow>
          (case parse_sustain data of
             Some s \<Rightarrow> (keys, if ms_pressed s then insert ch pedals else pedals - {ch})
           | None \<Rightarrow>
               if data ! 0 AND 0xF0 = 0xB0 \<and> length data = 3 \<and> data ! 1 \<in> {120, 123, 124, 125, 126, 127}
               then ({(c, k) \<in> keys. c \<noteq> ch}, pedals)
               else if data ! 0 AND 0xF0 = 0xB0 \<and> length data = 3 \<and> data ! 1 = 121
               then (keys, pedals - {ch})
               else held))"

text \<open>The effect of a frame on what all sources hold.\<close>

definition osc_spec_step :: "midi_frame \<Rightarrow> (string \<Rightarrow> osc_held) \<Rightarrow> string \<Rightarrow> osc_held" where
  "osc_spec_step frame H =
     (let data = frame_data frame; src = frame_source frame in
      if data = [0xFF] then (if starts_with ''RTP:'' src then H(src := ({}, {})) else (\<lambda>_. ({}, {})))
      else if data = [] \<or> \<not> (0x80 \<le> data ! 0 \<and> data ! 0 < 0xF0) then H
      else if src = ''ReliablePLV:server-stop'' \<and> data ! 0 AND 0xF0 = 0xB0 \<and> length data = 3
              \<and> data ! 1 \<in> {120, 123}
      then (\<lambda>k. if starts_with ''ReliablePLV:'' k then ({}, {}) else H k)
      else H(src := osc_effect data (H src)))"

definition osc_source_ok :: "osc_source_state \<Rightarrow> bool" where
  "osc_source_ok s \<longleftrightarrow> length (os_notes s) = 16 \<and> length (os_sustain s) = 16"

definition osc_abs :: "osc_source_state \<Rightarrow> osc_held" where
  "osc_abs s = (sounding (os_notes s), {ch. ch < length (os_sustain s) \<and> os_sustain s ! ch})"

definition osc_inv :: "osc_output_state \<Rightarrow> bool" where
  "osc_inv st \<longleftrightarrow> keys_distinct (oo_sources st)
     \<and> (\<forall>k s. map_of (oo_sources st) k = Some s \<longrightarrow> osc_source_ok s)"

definition osc_holds :: "osc_output_state \<Rightarrow> string \<Rightarrow> osc_held" where
  "osc_holds st k = (case map_of (oo_sources st) k of None \<Rightarrow> ({}, {}) | Some s \<Rightarrow> osc_abs s)"

lemma sounding_upd:
  assumes "length ws = 16" "ch < 16" "n < 128"
  shows "sounding (ws[ch := ws ! ch OR shl1 n]) = insert (ch, n) (sounding ws)"
    and "sounding (ws[ch := ws ! ch AND NOT (shl1 n)]) = sounding ws - {(ch, n)}"
    and "sounding (ws[ch := 0]) = {(c, k) \<in> sounding ws. c \<noteq> ch}"
  using assms
  by (auto simp: sounding_def nth_list_update bit_or_shl1 bit_and_not_shl1 split: if_splits)

lemma pedals_upd:
  assumes "length ps = 16" "ch < 16"
  shows "{c. c < length (ps[ch := b]) \<and> ps[ch := b] ! c}
    = (if b then insert ch {c. c < length ps \<and> ps ! c} else {c. c < length ps \<and> ps ! c} - {ch})"
  using assms by (auto simp: nth_list_update split: if_splits)

lemma parse_note_index:
  assumes "parse_note data = Some n"
  shows "mn_index n = adjust_note (mn_note n)" "unat (mn_note n) < 128"
  using parse_note_bounds [OF assms] assms
  by (auto simp: parse_note_def Let_def split: if_splits)

lemma adjust_note_index:
  "adjust_note k = (if NOTE_MIN \<le> k \<and> k \<le> NOTE_MAX then Some (k - NOTE_MIN + 1) else None)"
  "NOTE_MIN \<le> k \<Longrightarrow> unat (k - NOTE_MIN) = unat k - 21"
  by (simp_all add: adjust_note_def NOTE_MIN_def unat_sub)

lemma update_osc_source_refines:
  assumes "osc_source_ok s"
  shows "osc_source_ok (update_osc_source data s)"
    and "osc_abs (update_osc_source data s) = osc_effect data (osc_abs s)"
proof -
  let ?ch = "unat (data ! 0 AND 15)"
  have ch: "?ch < 16" by (rule low_nibble_lt)
  have len: "length (os_notes s) = 16" "length (os_sustain s) = 16"
    using assms by (simp_all add: osc_source_ok_def)
  show "osc_source_ok (update_osc_source data s)"
    using len by (auto simp: update_osc_source_def osc_source_ok_def Let_def split: option.split)
  show "osc_abs (update_osc_source data s) = osc_effect data (osc_abs s)"
  proof (cases "parse_note data")
    case (Some n)
    note idx = parse_note_index [OF Some]
    show ?thesis
    proof (cases "NOTE_MIN \<le> mn_note n \<and> mn_note n \<le> NOTE_MAX")
      case True
      have "unat (mn_note n) - 21 < 128" using idx(2) by simp
      then show ?thesis
        using Some True idx sounding_upd [OF len(1) ch, of "unat (mn_note n) - 21"]
        by (simp add: update_osc_source_def osc_effect_def osc_abs_def Let_def adjust_note_index)
    next
      case False
      then show ?thesis using Some idx
        by (auto simp: update_osc_source_def osc_effect_def osc_abs_def Let_def adjust_note_index)
    qed
  next
    case None
    show ?thesis
    proof (cases "parse_sustain data")
      case (Some p)
      then show ?thesis using None pedals_upd [OF len(2) ch]
        by (simp add: update_osc_source_def osc_effect_def osc_abs_def Let_def)
    next
      case none: None
      show ?thesis
        using None none pedals_upd [OF len(2) ch, of False] sounding_upd(3) [OF len(1) ch, of 0]
        by (simp add: update_osc_source_def osc_effect_def osc_abs_def Let_def u8_range_123_127)
    qed
  qed
qed

lemma osc_abs_empty:
  assumes "osc_source_ok s"
  shows "(list_all (\<lambda>notes. notes = 0) (os_notes s) \<and> list_all (\<lambda>pressed. \<not> pressed) (os_sustain s))
    \<longleftrightarrow> osc_abs s = ({}, {})"
  using assms
  by (auto simp: osc_abs_def sounding_def osc_source_ok_def list_all_length word_eq_0_iff_bits)

lemma osc_entry:
  assumes "osc_inv st"
  shows "osc_source_ok (map_entry_or k default_osc_source (oo_sources st))"
    and "osc_abs (map_entry_or k default_osc_source (oo_sources st)) = osc_holds st k"
  using assms
  by (auto simp: osc_inv_def map_entry_or_def osc_holds_def osc_source_ok_def default_osc_source_def
      osc_abs_def sounding_def split: option.split)

lemma osc_inv_sources:
  assumes "osc_inv st"
  shows "osc_inv (st\<lparr>oo_sources := AList.delete k (oo_sources st)\<rparr>)"
    and "osc_inv (st\<lparr>oo_sources := filter (\<lambda>(key, _). P key) (oo_sources st)\<rparr>)"
    and "osc_source_ok s \<Longrightarrow> osc_inv (st\<lparr>oo_sources := AList.update k s (oo_sources st)\<rparr>)"
    and "osc_source_ok s \<Longrightarrow>
      osc_inv (st\<lparr>oo_sources := AList.delete k' (AList.update k s (oo_sources st))\<rparr>)"
  using assms
  by (auto simp: osc_inv_def distinct_delete distinct_update distinct_map_filter
      dest!: map_of_SomeD split: if_splits intro: map_of_is_SomeI)

lemma map_of_filter_key:
  "keys_distinct m \<Longrightarrow> map_of (filter (\<lambda>(key, _). P key) m) k = (if P k then map_of m k else None)"
  by (induction m) (auto dest: weak_map_of_SomeI simp: map_of_eq_None_iff split: if_splits)

lemma osc_observe_refines:
  assumes inv: "osc_inv st"
  shows "osc_inv (osc_observe st f)"
    and "osc_holds (osc_observe st f) = osc_spec_step f (osc_holds st)"
proof -
  let ?d = "frame_data f" and ?src = "frame_source f" and ?sources = "oo_sources st"
  let ?new = "update_osc_source ?d (map_entry_or ?src default_osc_source ?sources)"
  have new: "osc_source_ok ?new" "osc_abs ?new = osc_effect ?d (osc_holds st ?src)"
    using update_osc_source_refines [OF osc_entry(1) [OF inv]] osc_entry(2) [OF inv] by simp_all
  have kd: "keys_distinct ?sources" using inv by (simp add: osc_inv_def)
  show "osc_inv (osc_observe st f)"
    using inv new(1) osc_inv_sources [OF inv]
    by (auto simp: osc_observe_def Let_def osc_inv_def [of "st\<lparr>oo_sources := []\<rparr>"] split: list.split)
  show "osc_holds (osc_observe st f) = osc_spec_step f (osc_holds st)"
  proof (cases "?d = [] \<or> ?d = [0xFF] \<or> \<not> (0x80 \<le> ?d ! 0 \<and> ?d ! 0 < 0xF0)")
    case True
    then consider "?d = []" | "?d = [0xFF]" | s rest where "?d = s # rest" "?d \<noteq> [0xFF]" "\<not> (0x80 \<le> s \<and> s < 0xF0)"
      by (cases ?d) auto
    then show ?thesis
    proof cases
      case 1
      then show ?thesis by (simp add: osc_observe_def osc_spec_step_def)
    next
      case 2
      then show ?thesis by (simp add: osc_observe_def osc_spec_step_def osc_holds_def fun_eq_iff Let_def)
    next
      case 3
      then have "osc_observe st f = st" "osc_spec_step f (osc_holds st) = osc_holds st"
        unfolding osc_observe_def osc_spec_step_def Let_def by (simp_all del: not_le not_less de_Morgan_conj)
      then show ?thesis by simp
    qed
  next
    case False
    then obtain s rest where "?d = s # rest" "0x80 \<le> s" "s < 0xF0" by (cases ?d) auto
    then have d: "?d = s # rest" "s \<noteq> 0xFF" "0x80 \<le> s" "s < 0xF0" by auto
    show ?thesis
    proof (cases "?src = ''ReliablePLV:server-stop'' \<and> s AND 0xF0 = 0xB0 \<and> length ?d = 3 \<and> ?d ! 1 \<in> {120, 123}")
      case stop: True
      then have "osc_observe st f = st\<lparr>oo_sources := filter (\<lambda>(key, _). \<not> starts_with ''ReliablePLV:'' key) ?sources\<rparr>"
        using d by (auto simp: osc_observe_def Let_def)
      moreover have "map_of (filter (\<lambda>(key, _). \<not> starts_with ''ReliablePLV:'' key) ?sources) k
          = (if starts_with ''ReliablePLV:'' k then None else map_of ?sources k)" for k
        using map_of_filter_key [OF kd] by simp
      moreover have "osc_spec_step f (osc_holds st) = (\<lambda>k. if starts_with ''ReliablePLV:'' k then ({}, {}) else osc_holds st k)"
        using stop d by (auto simp: osc_spec_step_def Let_def)
      ultimately show ?thesis by (simp add: osc_holds_def fun_eq_iff)
    next
      case ordinary: False
      have "osc_observe st f =
          (if osc_abs ?new = ({}, {}) then st\<lparr>oo_sources := AList.delete ?src (AList.update ?src ?new ?sources)\<rparr>
           else st\<lparr>oo_sources := AList.update ?src ?new ?sources\<rparr>)"
        using ordinary d osc_abs_empty [OF new(1)] by (auto simp: osc_observe_def Let_def)
      moreover have "osc_spec_step f (osc_holds st) = (osc_holds st)(?src := osc_effect ?d (osc_holds st ?src))"
        using ordinary d by (auto simp: osc_spec_step_def Let_def)
      ultimately show ?thesis using new(2) by (auto simp: osc_holds_def fun_eq_iff)
    qed
  qed
qed

lemma any_channel_sounds:
  "(\<exists>v \<in> set ws. bit v n) \<longleftrightarrow> (\<exists>ch. (ch, n) \<in> sounding ws)"
  unfolding sounding_def by (auto simp: in_set_conv_nth) (metis nth_mem)

lemma bit_combined_notes:
  assumes "osc_inv st"
  shows "bit (combined_notes st) n \<longleftrightarrow> (\<exists>src ch. (ch, n) \<in> fst (osc_holds st src))"
proof -
  have fold_bits: "bit (fold (\<lambda>notes all. all OR notes) ws w) n \<longleftrightarrow> bit w n \<or> (\<exists>v \<in> set ws. bit v n)"
    for ws and w :: u128
    by (induction ws arbitrary: w) (auto simp: bit_or_iff)
  have "bit (combined_notes st) n \<longleftrightarrow> (\<exists>s \<in> set (map snd (oo_sources st)). \<exists>v \<in> set (os_notes s). bit v n)"
    unfolding combined_notes_def fold_bits by (auto simp: case_prod_beta)
  also have "\<dots> \<longleftrightarrow> (\<exists>k s. map_of (oo_sources st) k = Some s \<and> (\<exists>v \<in> set (os_notes s). bit v n))"
    by (rule ex_value_iff) (use assms in \<open>simp add: osc_inv_def\<close>)
  also have "\<dots> \<longleftrightarrow> (\<exists>k s. map_of (oo_sources st) k = Some s \<and> (\<exists>ch. (ch, n) \<in> sounding (os_notes s)))"
    by (simp add: any_channel_sounds)
  also have "\<dots> \<longleftrightarrow> (\<exists>src ch. (ch, n) \<in> fst (osc_holds st src))"
    by (force simp: osc_holds_def osc_abs_def split: option.splits)
  finally show ?thesis .
qed

lemma combined_sustain_iff:
  assumes "osc_inv st"
  shows "combined_sustain st \<longleftrightarrow> (\<exists>src. snd (osc_holds st src) \<noteq> {})"
proof -
  have "combined_sustain st \<longleftrightarrow> (\<exists>s \<in> set (map snd (oo_sources st)). True \<in> set (os_sustain s))"
    by (force simp: combined_sustain_def list_ex_iff)
  also have "\<dots> \<longleftrightarrow> (\<exists>k s. map_of (oo_sources st) k = Some s \<and> True \<in> set (os_sustain s))"
    by (rule ex_value_iff) (use assms in \<open>simp add: osc_inv_def\<close>)
  also have "\<dots> \<longleftrightarrow> (\<exists>src. snd (osc_holds st src) \<noteq> {})"
  proof -
    have "True \<in> set ps \<longleftrightarrow> {ch. ch < length ps \<and> ps ! ch} \<noteq> {}" for ps
      by (auto simp: in_set_conv_nth)
    then show ?thesis by (force simp: osc_holds_def osc_abs_def split: option.splits)
  qed
  finally show ?thesis .
qed

lemma osc_history:
  "osc_inv (fold (\<lambda>f st. osc_observe st f) frames default_osc_output)
   \<and> osc_holds (fold (\<lambda>f st. osc_observe st f) frames default_osc_output)
      = fold osc_spec_step frames (\<lambda>_. ({}, {}))"
proof (induction frames rule: rev_induct)
  case Nil
  then show ?case by (simp add: default_osc_output_def osc_inv_def osc_holds_def)
next
  case (snoc f frames)
  then show ?case using osc_observe_refines by simp
qed

text \<open>
  What the worker does with the state: it observes frames, flushes towards the current client,
  and forgets what was sent when the target changes.
\<close>

datatype osc_op = OscObserve midi_frame | OscFlush | OscResetSent

fun osc_run :: "(osc_message \<Rightarrow> 'd) \<Rightarrow> osc_op list \<Rightarrow> osc_output_state \<times> 'd udp \<Rightarrow> osc_output_state \<times> 'd udp" where
  "osc_run enc [] (st, w) = (st, w)"
| "osc_run enc (OscObserve f # ops) (st, w) = osc_run enc ops (osc_observe st f, w)"
| "osc_run enc (OscFlush # ops) (st, w) = osc_run enc ops (snd (osc_flush (client_switch (udp_client enc)) st w))"
| "osc_run enc (OscResetSent # ops) (st, w) = osc_run enc ops (reset_sent st, w)"

fun observed_frames :: "osc_op list \<Rightarrow> midi_frame list" where
  "observed_frames [] = []"
| "observed_frames (OscObserve f # ops) = f # observed_frames ops"
| "observed_frames (_ # ops) = observed_frames ops"

lemma osc_inv_sources_only:
  assumes "oo_sources st' = oo_sources st"
  shows "osc_inv st' = osc_inv st" "osc_holds st' = osc_holds st"
  using assms by (simp_all add: osc_inv_def osc_holds_def fun_eq_iff)

lemma osc_flush_sources:
  "oo_sources (fst (snd (osc_flush send st w))) = oo_sources st"
  by (simp add: osc_flush_def Let_def split: prod.split sum.split)

lemma osc_run_history:
  assumes "osc_inv st"
  shows "osc_inv (fst (osc_run enc ops (st, w)))
    \<and> osc_holds (fst (osc_run enc ops (st, w))) = fold osc_spec_step (observed_frames ops) (osc_holds st)"
  using assms
proof (induction ops arbitrary: st w)
  case Nil
  then show ?case by simp
next
  case (Cons x ops)
  show ?case
  proof (cases x)
    case (OscObserve f)
    then show ?thesis using Cons.IH [of "osc_observe st f" w] osc_observe_refines [OF Cons.prems] by simp
  next
    case OscFlush
    obtain r st1 w1 where f: "osc_flush (client_switch (udp_client enc)) st w = (r, st1, w1)"
      by (metis prod_cases3)
    have "oo_sources st1 = oo_sources st"
      using osc_flush_sources [of "client_switch (udp_client enc)" st w] f by simp
    then show ?thesis
      using OscFlush f Cons.IH [of st1 w1] Cons.prems osc_inv_sources_only [of st1 st] by simp
  next
    case OscResetSent
    have "oo_sources (reset_sent st) = oo_sources st" by (simp add: reset_sent_def)
    then show ?thesis
      using OscResetSent Cons.IH [of "reset_sent st" w] Cons.prems osc_inv_sources_only [of "reset_sent st" st]
      by simp
  qed
qed

text \<open>
  C37: the combined switches follow the sources. After any sequence of observed frames, flushes
  (failed ones included) and target changes, a flush that succeeds leaves a key's switch on
  exactly when some source holds that key on some channel, and the pedal's exactly when some
  source holds a pedal. What a source holds is the specification's fold over the observed frames: its own
  note, pedal and controller messages, the resets of its session and the stops of reliable playback,
  and nothing of the other sources.
\<close>

theorem osc_switches_follow_sources:
  assumes "osc_run enc ops (default_osc_output, w0) = (st, w)"
    and "osc_flush (client_switch (udp_client enc)) st w = (Inr (), st', w')"
    and "held = fold osc_spec_step (observed_frames ops) (\<lambda>_. ({}, {}))"
  shows "(\<forall>k. 1 \<le> k \<and> k \<le> 88 \<longrightarrow> osc_sent st' (Some k) = (\<exists>src ch. (ch, unat (k - 1)) \<in> fst (held src)))
    \<and> osc_sent st' None = (\<exists>src. snd (held src) \<noteq> {})"
proof -
  have start: "osc_inv default_osc_output" "osc_holds default_osc_output = (\<lambda>_. ({}, {}))"
    by (simp_all add: default_osc_output_def osc_inv_def osc_holds_def fun_eq_iff)
  have inv: "osc_inv st" and held: "osc_holds st = held"
    using osc_run_history [OF start(1), of enc ops w0] assms(1,3) start(2) by simp_all
  have "\<forall>i \<in> osc_switches. osc_sent st' i = osc_wanted st i"
    using osc_sink.osc_flush_changes [OF assms(2)] by blast
  then show ?thesis
    using bit_combined_notes [OF inv] combined_sustain_iff [OF inv] held
    by (simp add: osc_switches_def osc_wanted_def)
qed

theorem osc_switches_follow_sources_witness:
  "let frame = (\<lambda>data src. \<lparr>frame_generation = 0, frame_ingress_qpc = 0, frame_data = data,
         frame_capacity = 32, frame_source = src\<rparr>);
       ops = [OscObserve (frame [0x90, 60, 100] ''A''), OscObserve (frame [0x91, 60, 90] ''B''),
              OscObserve (frame [0x80, 60, 0] ''A''), OscResetSent];
       (st, w) = osc_run (\<lambda>m. m) ops (default_osc_output, \<lparr>udp_sent = [], udp_faults = []\<rparr>);
       (r, st', _) = osc_flush (client_switch (udp_client (\<lambda>m. m))) st w
   in r = Inr () \<and> osc_sent st' (Some 40)"
proof -
  let ?frame = "\<lambda>data src. \<lparr>frame_generation = 0, frame_ingress_qpc = 0, frame_data = data,
         frame_capacity = 32, frame_source = src\<rparr>"
  let ?ops = "[OscObserve (?frame [0x90, 60, 100] ''A''), OscObserve (?frame [0x91, 60, 90] ''B''),
              OscObserve (?frame [0x80, 60, 0] ''A''), OscResetSent]"
  let ?w = "\<lparr>udp_sent = [], udp_faults = []\<rparr>"
  obtain st w where run: "osc_run (\<lambda>m. m) ?ops (default_osc_output, ?w) = (st, w)" by fastforce
  obtain r st' w' where f: "osc_flush (client_switch (udp_client (\<lambda>m. m))) st w = (r, st', w')"
    by (metis prod_cases3)
  have "w = ?w" using run by simp
  then have r: "r = Inr ()" using flush_without_faults [of w "\<lambda>m. m" st] f by simp
  have "(1, 39) \<in> fst (fold osc_spec_step (observed_frames ?ops) (\<lambda>_. ({}, {})) ''B'')"
    by (simp add: osc_spec_step_def osc_effect_def parse_note_def NOTE_MIN_def NOTE_MAX_def Let_def)
  moreover have "unat ((40 :: u8) - 1) = 39" by simp
  ultimately have "osc_sent st' (Some 40)"
    using osc_switches_follow_sources [OF run f [unfolded r] refl] by fastforce
  then show ?thesis using run f r by (simp only: Let_def prod.case simp_thms)
qed

end
