(* ===== verification/Osc_Packet.thy ===== *)
theory Osc_Packet
  imports Midi_Message Settings Osc_Output
begin

text \<open>
  The OSC input's packet decoder (\<open>osc_input/packet.rs\<close>): strings, timetags, type tags, nested
  bundles, and the MIDI messages the addresses \<open>/midi\<close> and \<open>/avatar/parameters/\<close> stand for.
  An \<open>Instant\<close> is a number of nanoseconds, a \<open>SystemTime\<close> the nanoseconds since 1970 (negative
  before it).
\<close>

section \<open>Reading\<close>

record scheduled_midi =
  sm_deadline :: nat
  sm_order :: u64
  sm_data :: bytes
  sm_len :: u8
  sm_generation :: u64
  sm_ingress_qpc :: u64

definition MAX_PACKET_MESSAGES :: nat where "MAX_PACKET_MESSAGES = 1024"
definition MAX_AHEAD_NS :: int where "MAX_AHEAD_NS = 10000000000"

text \<open>The readers return what they read and the bytes that remain.\<close>

definition osc_take :: "bytes \<Rightarrow> nat \<Rightarrow> string + (bytes \<times> bytes)" where
  "osc_take bytes sz =
     (if sz \<le> length bytes then Inr (take sz bytes, drop sz bytes)
      else Inl ''truncated OSC argument'')"

text \<open>\<open>& !3\<close> rounds down to a multiple of four.\<close>

definition pad4 :: "nat \<Rightarrow> nat" where
  "pad4 n = n div 4 * 4"

definition osc_string :: "bytes \<Rightarrow> string + (string \<times> bytes)" where
  "osc_string bytes =
     (if 0 \<notin> set bytes then Inl ''unterminated OSC string''
      else
        let stop = length (takeWhile (\<lambda>b. b \<noteq> 0) bytes)
        in case osc_take bytes (pad4 (stop + 4)) of
             Inl e \<Rightarrow> Inl e
           | Inr (part, rest) \<Rightarrow>
               if \<not> list_all (\<lambda>b. b < 0x80) (take stop part) \<or> list_ex (\<lambda>b. b \<noteq> 0) (drop stop part)
               then Inl ''invalid OSC string padding''
               else (case from_utf8 (take stop part) of
                       None \<Rightarrow> Inl ''invalid OSC string''
                     | Some s \<Rightarrow> Inr (s, rest)))"

text \<open>
  The time of a timetag: \<open>1\<close> is the parent's time; a time in the past is now; more than ten
  seconds ahead is refused. Seconds are compared in the nearest era of the 32-bit count.
\<close>

definition osc_deadline :: "u64 \<Rightarrow> int \<Rightarrow> nat \<Rightarrow> nat \<Rightarrow> string + nat" where
  "osc_deadline tag wall now parent =
     (if tag = 1 then Inr parent
      else if wall < 0 then Inl ''invalid system clock''
      else
        let ntp_seconds = (ucast (word_of_int (wall div 1000000000) + 2208988800 :: u64) :: u32);
            seconds = sint ((ucast (drop_bit 32 tag) :: u32) - ntp_seconds);
            fractional_ns = (uint (ucast tag :: u32) * 1000000000) div 2 ^ 32;
            delta = seconds * 1000000000 + fractional_ns - wall mod 1000000000
        in if delta > MAX_AHEAD_NS then Inl ''OSC deadline exceeds ten seconds''
           else
             let due = (if delta \<le> 0 then now else now + nat delta)
             in if due < parent then Inl ''nested OSC bundle precedes parent'' else Inr due)"

text \<open>The arguments are skipped one by one, as their type tags say.\<close>

definition be_i32 :: "bytes \<Rightarrow> int" where
  "be_i32 bs = sint (from_be_bytes bs :: i32)"

fun osc_skip_args :: "string \<Rightarrow> bytes \<Rightarrow> string + bytes" where
  "osc_skip_args [] remaining = Inr remaining"
| "osc_skip_args (tag # tags) remaining =
     (if tag \<in> {CHR ''i'', CHR ''f'', CHR ''m''} then
        (case osc_take remaining 4 of Inl e \<Rightarrow> Inl e | Inr (_, rest) \<Rightarrow> osc_skip_args tags rest)
      else if tag \<in> {CHR ''h'', CHR ''t'', CHR ''d''} then
        (case osc_take remaining 8 of Inl e \<Rightarrow> Inl e | Inr (_, rest) \<Rightarrow> osc_skip_args tags rest)
      else if tag = CHR ''s'' then
        (case osc_string remaining of Inl e \<Rightarrow> Inl e | Inr (_, rest) \<Rightarrow> osc_skip_args tags rest)
      else if tag = CHR ''b'' then
        (case osc_take remaining 4 of
           Inl e \<Rightarrow> Inl e
         | Inr (size_bytes, rest) \<Rightarrow>
             if be_i32 size_bytes < 0 then Inl ''negative OSC blob size''
             else
               let sz = nat (be_i32 size_bytes)
               in case osc_take rest (pad4 (sz + 3)) of
                    Inl e \<Rightarrow> Inl e
                  | Inr (data, rest') \<Rightarrow>
                      if list_ex (\<lambda>b. b \<noteq> 0) (drop sz data) then Inl ''invalid OSC blob padding''
                      else osc_skip_args tags rest')
      else if tag \<in> {CHR ''T'', CHR ''F'', CHR ''N'', CHR ''I''} then osc_skip_args tags remaining
      else Inl ''unsupported OSC type tag'')"

section \<open>Messages\<close>

text \<open>\<open>str::parse::<u8>\<close>: an optional plus sign and at least one digit, below 256.\<close>

definition is_digit :: "char \<Rightarrow> bool" where
  "is_digit c \<longleftrightarrow> (48 :: nat) \<le> of_char c \<and> (of_char c :: nat) \<le> 57"

definition digits_value :: "string \<Rightarrow> nat" where
  "digits_value ds = foldl (\<lambda>n c. 10 * n + (of_char c - 48)) 0 ds"

definition parse_u8 :: "string \<Rightarrow> u8 option" where
  "parse_u8 s =
     (let ds = (case s of CHR ''+'' # rest \<Rightarrow> rest | _ \<Rightarrow> s)
      in if ds \<noteq> [] \<and> list_all is_digit ds \<and> digits_value ds < 256
         then Some (of_nat (digits_value ds)) else None)"

text \<open>The argument of \<open>/midi\<close>: unused data bytes are cleared, a Note On of velocity zero rewritten.\<close>

definition osc_midi_argument :: "bytes \<Rightarrow> string + (bytes \<times> u8)" where
  "osc_midi_argument arguments =
     (let status = arguments ! 1 in
      case message_len status of
        None \<Rightarrow> Inl ''invalid OSC MIDI status''
      | Some len \<Rightarrow>
          let data = [status, arguments ! 2, arguments ! 3]
          in if list_ex (\<lambda>b. b \<ge> 128) (drop 1 (take len data)) then Inl ''invalid OSC MIDI data''
             else
               let data = take len data @ replicate (3 - len) 0
               in Inr (if status AND 0xF0 = 0x90 \<and> data ! 2 = 0
                       then data[0 := 0x80 OR (status AND 15)] else data, of_nat len))"

text \<open>The position of a switch, and the MIDI message of its parameter.\<close>

definition osc_switch_value :: "string \<Rightarrow> bytes \<Rightarrow> string + bool" where
  "osc_switch_value tags arguments =
     (if tags = '',i'' then
        (if be_i32 arguments = 0 then Inr False
         else if be_i32 arguments = 1 then Inr True
         else Inl ''OSC switch must be zero or one'')
      else if tags = '',f'' then
        (let value = from_be_bytes arguments :: f32
         in if \<not> f32_is_finite value then Inl ''OSC switch must be finite''
            else Inr (f32_key 0x3F000000 \<le> f32_key value))
      else if tags = '',T'' then Inr True
      else if tags = '',F'' then Inr False
      else Inl ''invalid OSC switch type'')"

definition switch_target :: "string \<Rightarrow> u8 option option" where
  "switch_target parameter =
     (if parameter = ''sustain'' then Some None
      else case parse_u8 parameter of
        Some index \<Rightarrow> if 1 \<le> index \<and> index \<le> 88 then Some (Some index) else None
      | None \<Rightarrow> None)"

definition switch_message :: "u8 option \<Rightarrow> bool \<Rightarrow> bytes" where
  "switch_message target pressed =
     (case target of
        Some index \<Rightarrow>
          [if pressed then 0x90 else 0x80, NOTE_MIN + index - 1, if pressed then 127 else 0]
      | None \<Rightarrow> [0xB0, 64, if pressed then 127 else 0])"

text \<open>A message with its arguments: the MIDI it stands for, if any.\<close>

definition osc_message_midi :: "string \<Rightarrow> string \<Rightarrow> bytes \<Rightarrow> string + (bytes \<times> u8) option" where
  "osc_message_midi address tags arguments =
     (if address = ''/midi'' then
        (if tags \<noteq> '',m'' then Inl ''/midi requires one OSC MIDI argument''
         else case osc_midi_argument arguments of Inl e \<Rightarrow> Inl e | Inr m \<Rightarrow> Inr (Some m))
      else case strip_prefix PARAMETER_PATH address of
        None \<Rightarrow> Inr None
      | Some parameter \<Rightarrow>
          (case switch_target parameter of
             None \<Rightarrow> Inr None
           | Some target \<Rightarrow>
               (case osc_switch_value tags arguments of
                  Inl e \<Rightarrow> Inl e
                | Inr pressed \<Rightarrow> Inr (Some (switch_message target pressed, 3)))))"

text \<open>The branch of \<open>packet\<close> for a message, after its address.\<close>

definition osc_message_body :: "string \<Rightarrow> bytes \<Rightarrow> string + (bytes \<times> u8) option" where
  "osc_message_body address remaining =
     (if \<not> starts_with ''/'' address then Inl ''invalid OSC address''
      else case osc_string remaining of
        Inl e \<Rightarrow> Inl e
      | Inr (tags, arguments) \<Rightarrow>
          if \<not> starts_with '','' tags then Inl ''missing OSC type tags''
          else case osc_skip_args (drop 1 tags) arguments of
            Inl e \<Rightarrow> Inl e
          | Inr rest \<Rightarrow>
              if rest \<noteq> [] then Inl ''OSC arguments do not match type tags''
              else osc_message_midi address tags arguments)"

section \<open>Packets\<close>

text \<open>
  What does not change within a packet: the two clocks, the generation, and the answer of
  \<open>qpc_at(now)\<close> for the message at each position of the output.
\<close>

record osc_env =
  oe_wall :: int
  oe_now :: nat
  oe_generation :: u64
  oe_qpc :: "u64 \<Rightarrow> u64"

definition push_midi ::
  "osc_env \<Rightarrow> nat \<Rightarrow> (bytes \<times> u8) option \<Rightarrow> scheduled_midi list
     \<Rightarrow> (string + unit) \<times> scheduled_midi list" where
  "push_midi env parent midi out =
     (case midi of
        None \<Rightarrow> (Inr (), out)
      | Some (data, len) \<Rightarrow>
          if MAX_PACKET_MESSAGES \<le> length out then (Inl ''too many OSC messages'', out)
          else (Inr (), out @ [\<lparr>sm_deadline = parent, sm_order = of_nat (length out), sm_data = data,
                  sm_len = len, sm_generation = oe_generation env,
                  sm_ingress_qpc = oe_qpc env (of_nat (length out))\<rparr>]))"

lemma osc_take_length:
  "osc_take bytes n = Inr (part, rest) \<Longrightarrow> bytes = part @ rest \<and> length part = n"
  by (auto simp: osc_take_def split: if_splits)

lemma osc_string_length:
  assumes "osc_string bytes = Inr (s, rest)"
  shows "length rest + 4 \<le> length bytes"
proof -
  obtain part where "osc_take bytes (pad4 (length (takeWhile (\<lambda>b. b \<noteq> 0) bytes) + 4)) = Inr (part, rest)"
    using assms by (auto simp: osc_string_def Let_def split: if_splits sum.splits option.splits)
  moreover have "4 \<le> pad4 (n + 4)" for n by (simp add: pad4_def)
  ultimately show ?thesis using osc_take_length by fastforce
qed

function osc_packet ::
    "osc_env \<Rightarrow> nat \<Rightarrow> u64 option \<Rightarrow> nat \<Rightarrow> bytes \<Rightarrow> scheduled_midi list
       \<Rightarrow> (string + unit) \<times> scheduled_midi list"
  and osc_elements ::
    "osc_env \<Rightarrow> nat \<Rightarrow> u64 option \<Rightarrow> nat \<Rightarrow> bytes \<Rightarrow> scheduled_midi list
       \<Rightarrow> (string + unit) \<times> scheduled_midi list" where
  "osc_packet env parent parent_tag depth bytes out =
     (if bytes = [] \<or> length bytes mod 4 \<noteq> 0 \<or> depth > 16
      then (Inl ''invalid OSC packet size or nesting'', out)
      else case osc_string bytes of
        Inl e \<Rightarrow> (Inl e, out)
      | Inr (address, remaining) \<Rightarrow>
          if address = ''#bundle'' then
            (case osc_take remaining 8 of
               Inl e \<Rightarrow> (Inl e, out)
             | Inr (tag_bytes, remaining') \<Rightarrow>
                 let tag = from_be_bytes tag_bytes
                 in if tag \<noteq> 1 \<and> (case parent_tag of None \<Rightarrow> False | Some p \<Rightarrow> sint (tag - p) < 0)
                    then (Inl ''nested OSC timetag precedes parent'', out)
                    else (case osc_deadline tag (oe_wall env) (oe_now env) parent of
                            Inl e \<Rightarrow> (Inl e, out)
                          | Inr due \<Rightarrow>
                              osc_elements env due (if tag = 1 then parent_tag else Some tag) depth
                                remaining' out))
          else (case osc_message_body address remaining of
                  Inl e \<Rightarrow> (Inl e, out)
                | Inr midi \<Rightarrow> push_midi env parent midi out))"
| "osc_elements env due tag depth remaining out =
     (if remaining = [] then (Inr (), out)
      else case osc_take remaining 4 of
        Inl e \<Rightarrow> (Inl e, out)
      | Inr (size_bytes, rest) \<Rightarrow>
          if be_i32 size_bytes \<le> 0 \<or> nat (be_i32 size_bytes) mod 4 \<noteq> 0
          then (Inl ''invalid OSC bundle element size'', out)
          else (case osc_take rest (nat (be_i32 size_bytes)) of
                  Inl e \<Rightarrow> (Inl e, out)
                | Inr (element, rest') \<Rightarrow>
                    (case osc_packet env due tag (depth + 1) element out of
                       (Inl e, out') \<Rightarrow> (Inl e, out')
                     | (Inr _, out') \<Rightarrow> osc_elements env due tag depth rest' out')))"
  by pat_completeness auto
termination
proof (relation "measure (\<lambda>args. case args of
    Inl (_, _, _, _, bytes, _) \<Rightarrow> length bytes | Inr (_, _, _, _, remaining, _) \<Rightarrow> length remaining)",
    goal_cases)
  case (2 env parent parent_tag depth bytes out _ address remaining _ tag_bytes remaining')
  then show ?case using osc_string_length [of bytes] osc_take_length [of remaining] by fastforce
next
  case (3 env due tag depth remaining out _ size_bytes rest _ element rest')
  then show ?case using osc_take_length [of remaining] osc_take_length [of rest] by fastforce
next
  case (4 env due tag depth remaining out _ size_bytes rest _ element rest')
  then show ?case using osc_take_length [of remaining] osc_take_length [of rest] by fastforce
qed simp

declare osc_packet.simps [simp del] osc_elements.simps [simp del]

definition osc_decode ::
  "osc_env \<Rightarrow> bytes \<Rightarrow> (string + unit) \<times> scheduled_midi list" where
  "osc_decode env bytes =
     (case osc_packet env (oe_now env) None 0 bytes [] of
        (Inl e, _) \<Rightarrow> (Inl e, [])
      | (Inr u, out) \<Rightarrow> (Inr u, out))"

section \<open>Every decoded message is valid\<close>

text \<open>The \<open>/midi\<close> argument is read as the validator of the drivers would read its bytes.\<close>

lemma message_len_not_sysex: "message_len s = Some n \<Longrightarrow> s \<noteq> 0xF0"
  by (auto simp: message_len_def word_le_nat_alt split: if_splits)

lemma osc_midi_argument_valid:
  "osc_midi_argument arguments =
     (case message_len (arguments ! 1) of
        None \<Rightarrow> Inl ''invalid OSC MIDI status''
      | Some len \<Rightarrow>
          (case normalize_message (take len [arguments ! 1, arguments ! 2, arguments ! 3]) of
             (False, _) \<Rightarrow> Inl ''invalid OSC MIDI data''
           | (True, data) \<Rightarrow> Inr (data @ replicate (3 - len) 0, of_nat len)))"
proof (cases "message_len (arguments ! 1)")
  case None
  then show ?thesis by (simp add: osc_midi_argument_def)
next
  case (Some len)
  have kind: "arguments ! 1 AND 0xF0 = 0x90 \<Longrightarrow> len = 3"
    using Some message_len_3 [of "arguments ! 1"] by simp
  from message_len_cases [OF Some] message_len_not_sysex [OF Some] kind Some show ?thesis
    by (auto simp: osc_midi_argument_def normalize_message_def Let_def eval_nat_numeral not_le)
qed

lemma switch_message_valid:
  assumes "case target of Some index \<Rightarrow> 1 \<le> index \<and> index \<le> 88 | None \<Rightarrow> True"
  shows "normalize_message (switch_message target pressed) = (True, switch_message target pressed)"
proof (cases target)
  case (Some index)
  with assms have "unat (NOTE_MIN + index - 1) < 128"
    by (simp add: NOTE_MIN_def word_le_nat_alt unat_word_ariths unat_sub)
  then have "NOTE_MIN + index - 1 < 0x80" by (simp add: word_less_nat_alt)
  moreover have "message_len 0x90 = Some 3" "message_len 0x80 = Some 3"
    by (simp_all add: message_len_3)
  ultimately show ?thesis
    using Some by (auto simp: switch_message_def normalize_message_def not_le)
next
  case None
  have "message_len 0xB0 = Some 3" by (simp add: message_len_3)
  then show ?thesis using None by (auto simp: switch_message_def normalize_message_def)
qed

text \<open>What holds of each message of a packet, decoded under a deadline of at least \<open>earliest\<close>.\<close>

definition scheduled_ok :: "osc_env \<Rightarrow> nat \<Rightarrow> scheduled_midi \<Rightarrow> bool" where
  "scheduled_ok env earliest s \<longleftrightarrow>
     length (sm_data s) = 3 \<and> 1 \<le> unat (sm_len s) \<and> unat (sm_len s) \<le> 3
     \<and> normalize_message (take (unat (sm_len s)) (sm_data s)) = (True, take (unat (sm_len s)) (sm_data s))
     \<and> earliest \<le> sm_deadline s \<and> sm_deadline s \<le> oe_now env + 10000000000
     \<and> sm_generation s = oe_generation env"

lemma switch_target_range:
  "switch_target parameter = Some target \<Longrightarrow>
     (case target of Some index \<Rightarrow> 1 \<le> index \<and> index \<le> 88 | None \<Rightarrow> True)"
  by (auto simp: switch_target_def split: if_splits option.splits)

lemma osc_message_midi_valid:
  assumes "osc_message_midi address tags arguments = Inr (Some (data, len))"
  shows "length data = 3" "1 \<le> unat len" "unat len \<le> 3"
    "normalize_message (take (unat len) data) = (True, take (unat len) data)"
proof -
  consider (argument) "osc_midi_argument arguments = Inr (data, len)"
    | (switch) target pressed where "data = switch_message target pressed" "len = 3"
        "case target of Some index \<Rightarrow> 1 \<le> index \<and> index \<le> 88 | None \<Rightarrow> True"
    using assms by (auto simp: osc_message_midi_def split: if_splits option.splits sum.splits
        dest: switch_target_range)
  then have "length data = 3 \<and> 1 \<le> unat len \<and> unat len \<le> 3
    \<and> normalize_message (take (unat len) data) = (True, take (unat len) data)"
  proof cases
    case argument
    then obtain n data' where n: "message_len (arguments ! 1) = Some n"
      and data': "normalize_message (take n [arguments ! 1, arguments ! 2, arguments ! 3]) = (True, data')"
        "data = data' @ replicate (3 - n) 0" "len = of_nat n"
      by (auto simp: osc_midi_argument_valid split: option.splits prod.splits bool.splits)
    have "length data' = n" using normalized_length [OF data'(1)] message_len_cases [OF n] by auto
    then show ?thesis
      using normalized_idem [OF data'(1)] data'(2,3) message_len_cases [OF n] by auto
  next
    case switch
    then show ?thesis
      using switch_message_valid [of target pressed] by (cases target) (simp_all add: switch_message_def)
  qed
  then show "length data = 3" "1 \<le> unat len" "unat len \<le> 3"
    "normalize_message (take (unat len) data) = (True, take (unat len) data)" by simp_all
qed

lemma osc_deadline_range:
  assumes "osc_deadline tag wall now parent = Inr due" "now \<le> parent" "parent \<le> now + 10000000000"
  shows "parent \<le> due" "due \<le> now + 10000000000"
  using assms
  by (auto simp: osc_deadline_def MAX_AHEAD_NS_def Let_def nat_le_iff not_less split: if_splits)

text \<open>A packet appends messages to the output: their order is their position, their deadline its own or later.\<close>

definition appends :: "osc_env \<Rightarrow> nat \<Rightarrow> scheduled_midi list \<Rightarrow> scheduled_midi list \<Rightarrow> bool" where
  "appends env earliest out out' \<longleftrightarrow>
     (\<exists>new. out' = out @ new \<and> (\<forall>s \<in> set new. scheduled_ok env earliest s)
        \<and> map sm_order new = map of_nat [length out..<length out'])
     \<and> (length out \<le> MAX_PACKET_MESSAGES \<longrightarrow> length out' \<le> MAX_PACKET_MESSAGES)"

lemma appends_refl [simp]: "appends env lo out out"
  by (simp add: appends_def)

lemma appends_trans:
  assumes "appends env lo out out1" "appends env lo' out1 out2" "lo \<le> lo'"
  shows "appends env lo out out2"
proof -
  from assms(1) obtain new1 where n1: "out1 = out @ new1" "\<forall>s \<in> set new1. scheduled_ok env lo s"
      "map sm_order new1 = map of_nat [length out..<length out1]" by (auto simp: appends_def)
  from assms(2) obtain new2 where n2: "out2 = out1 @ new2" "\<forall>s \<in> set new2. scheduled_ok env lo' s"
      "map sm_order new2 = map of_nat [length out1..<length out2]" by (auto simp: appends_def)
  have "[length out..<length out2] = [length out..<length out1] @ [length out1..<length out2]"
    using n1(1) n2(1) upt_add_eq_append [of "length out" "length out1" "length new2"]
    by (simp add: add.assoc)
  then have "map sm_order (new1 @ new2) = map of_nat [length out..<length out2]"
    using n1(3) n2(3) by simp
  moreover have "\<forall>s \<in> set (new1 @ new2). scheduled_ok env lo s"
    using n1(2) n2(2) assms(3) by (auto simp: scheduled_ok_def)
  ultimately show ?thesis
    using n1(1) n2(1) assms(1,2) unfolding appends_def by (metis append.assoc)
qed

lemma push_midi_appends:
  assumes "osc_message_body address remaining = Inr midi" "parent \<le> oe_now env + 10000000000"
  shows "appends env parent out (snd (push_midi env parent midi out))"
proof (cases midi)
  case None
  then show ?thesis by (simp add: push_midi_def)
next
  case (Some m)
  obtain data len where m: "m = (data, len)" by (cases m)
  obtain tags arguments where "osc_message_midi address tags arguments = Inr (Some (data, len))"
    using assms(1) Some m by (auto simp: osc_message_body_def split: if_splits sum.splits)
  then show ?thesis
    using osc_message_midi_valid assms(2) Some m
    by (auto simp: push_midi_def appends_def scheduled_ok_def not_le)
qed

lemma osc_packet_appends:
  "oe_now env \<le> parent \<Longrightarrow> parent \<le> oe_now env + 10000000000 \<Longrightarrow>
     appends env parent out (snd (osc_packet env parent parent_tag depth bytes out))"
  "oe_now env \<le> due \<Longrightarrow> due \<le> oe_now env + 10000000000 \<Longrightarrow>
     appends env due out (snd (osc_elements env due tag depth remaining out))"
proof (induction env parent parent_tag depth bytes out and env due tag depth remaining out
    rule: osc_packet_osc_elements.induct)
  case (1 env parent parent_tag depth bytes out)
  show ?case
  proof (cases "bytes = [] \<or> length bytes mod 4 \<noteq> 0 \<or> depth > 16")
    case True
    then show ?thesis by (subst osc_packet.simps) simp
  next
    case False
    show ?thesis
    proof (cases "osc_string bytes")
      case (Inl e)
      with False show ?thesis by (subst osc_packet.simps) auto
    next
      case (Inr p)
      then obtain address remaining where str: "osc_string bytes = Inr (address, remaining)" by (cases p) auto
      show ?thesis
      proof (cases "address = ''#bundle''")
        case nested: True
        show ?thesis
        proof (cases "osc_take remaining 8")
          case (Inl e)
          with False str nested show ?thesis by (subst osc_packet.simps) auto
        next
          case (Inr q)
          then obtain tag_bytes remaining' where head: "osc_take remaining 8 = Inr (tag_bytes, remaining')"
            by (cases q) auto
          let ?tag = "from_be_bytes tag_bytes :: u64"
          let ?early = "?tag \<noteq> 1 \<and> (case parent_tag of None \<Rightarrow> False | Some p \<Rightarrow> sint (?tag - p) < 0)"
          let ?due = "osc_deadline ?tag (oe_wall env) (oe_now env) parent"
          show ?thesis
          proof (cases "?early \<or> \<not> is_ok ?due")
            case True
            with False str nested head show ?thesis
              by (subst osc_packet.simps) (auto simp: Let_def split: sum.split)
          next
            case fine: False
            then obtain due where due: "?due = Inr due" by (auto simp: is_ok_iff)
            let ?t = "if ?tag = 1 then parent_tag else Some ?tag"
            have eq: "osc_packet env parent parent_tag depth bytes out = osc_elements env due ?t depth remaining' out"
              by (subst osc_packet.simps) (use False str nested head fine due in \<open>auto simp: Let_def\<close>)
            note range = osc_deadline_range [OF due 1(2,3)]
            have "appends env due out (snd (osc_elements env due ?t depth remaining' out))"
              by (rule 1(1) [OF False str refl nested head refl refl _ due]) (use range 1 fine in auto)
            then show ?thesis unfolding eq using range(1) appends_trans [OF appends_refl] by blast
          qed
        qed
      next
        case message: False
        then show ?thesis using False str push_midi_appends [OF _ 1(3)]
          by (subst osc_packet.simps) (auto split: sum.split)
      qed
    qed
  qed
next
  case (2 env due tag depth remaining out)
  show ?case
  proof (cases "remaining = []")
    case True
    then show ?thesis by (subst osc_elements.simps) simp
  next
    case ne: False
    show ?thesis
    proof (cases "osc_take remaining 4")
      case (Inl e)
      with ne show ?thesis by (subst osc_elements.simps) simp
    next
      case (Inr p)
      then obtain sz rest where sz: "osc_take remaining 4 = Inr (sz, rest)" by (cases p) auto
      show ?thesis
      proof (cases "be_i32 sz \<le> 0 \<or> nat (be_i32 sz) mod 4 \<noteq> 0 \<or> \<not> is_ok (osc_take rest (nat (be_i32 sz)))")
        case True
        with ne sz show ?thesis by (subst osc_elements.simps) (auto split: sum.split)
      next
        case fine: False
        then obtain element rest' where el: "osc_take rest (nat (be_i32 sz)) = Inr (element, rest')"
          by (auto simp: is_ok_iff)
        have size_ok: "\<not> (be_i32 sz \<le> 0 \<or> nat (be_i32 sz) mod 4 \<noteq> 0)" using fine by blast
        obtain r out1 where sub: "osc_packet env due tag (depth + 1) element out = (r, out1)"
          by (meson surj_pair)
        have first: "appends env due out out1"
          using 2(1) [OF ne sz refl size_ok el refl 2(3,4)] sub by simp
        show ?thesis
        proof (cases r)
          case (Inl e)
          then show ?thesis using first ne sz size_ok el sub by (subst osc_elements.simps) simp
        next
          case (Inr u)
          have "appends env due out1 (snd (osc_elements env due tag depth rest' out1))"
            using 2(2) [OF ne sz refl size_ok el refl sub [symmetric, unfolded Inr] refl 2(3,4)] .
          then show ?thesis using appends_trans [OF first] Inr ne sz size_ok el sub
            by (subst osc_elements.simps) simp
        qed
      qed
    qed
  qed
qed

text \<open>
  Whatever datagram arrives, the OSC decoder produces only messages the pipeline may accept.
  A refused packet produces nothing; an accepted one produces at most 1024 messages, numbered in
  their order, each a complete MIDI message that validation accepts unchanged, of the
  generation of its arrival, and due between now and ten seconds from now.
\<close>

theorem osc_decode_sound:
  assumes "osc_decode env bytes = (r, out)"
  shows "length out \<le> 1024 \<and> (r \<noteq> Inr () \<longrightarrow> out = [])
    \<and> map sm_order out = map of_nat [0..<length out]
    \<and> (\<forall>s \<in> set out. 1 \<le> unat (sm_len s) \<and> unat (sm_len s) \<le> 3 \<and> length (sm_data s) = 3
         \<and> normalize_message (take (unat (sm_len s)) (sm_data s)) = (True, take (unat (sm_len s)) (sm_data s))
         \<and> oe_now env \<le> sm_deadline s \<and> sm_deadline s \<le> oe_now env + 10000000000
         \<and> sm_generation s = oe_generation env)"
proof -
  have "appends env (oe_now env) [] out"
    using osc_packet_appends(1) [of env "oe_now env" "[]" None 0 bytes] assms
    by (auto simp: osc_decode_def appends_def split: prod.splits sum.splits)
  moreover have "r \<noteq> Inr () \<longrightarrow> out = []"
    using assms by (auto simp: osc_decode_def split: prod.splits sum.splits)
  ultimately show ?thesis
    by (auto simp: appends_def scheduled_ok_def MAX_PACKET_MESSAGES_def)
qed

section \<open>The packets the OSC output sends\<close>

text \<open>
  The OSC 1.0 encoding of messages and bundles: padded strings, big-endian arguments, bundle
  elements preceded by their size.
\<close>

definition osc_padded :: "string \<Rightarrow> bytes" where
  "osc_padded s = as_bytes s @ replicate (pad4 (length s + 4) - length s) 0"

definition osc_arg_tag :: "osc_arg \<Rightarrow> char" where
  "osc_arg_tag a = (case a of OscInt _ \<Rightarrow> CHR ''i'' | OscFloat _ \<Rightarrow> CHR ''f'')"

definition osc_arg_bytes :: "osc_arg \<Rightarrow> bytes" where
  "osc_arg_bytes a = (case a of OscInt w \<Rightarrow> to_be_bytes 4 w | OscFloat w \<Rightarrow> to_be_bytes 4 w)"

definition osc_wire :: "osc_message \<Rightarrow> bytes" where
  "osc_wire m = osc_padded (om_addr m) @ osc_padded (CHR '','' # map osc_arg_tag (om_args m))
     @ concat (map osc_arg_bytes (om_args m))"

definition osc_bundle_wire :: "u64 \<Rightarrow> bytes list \<Rightarrow> bytes" where
  "osc_bundle_wire tag packets = osc_padded ''#bundle'' @ to_be_bytes 8 tag
     @ concat (map (\<lambda>p. to_be_bytes 4 (of_nat (length p) :: i32) @ p) packets)"

definition ascii :: "string \<Rightarrow> bool" where
  "ascii s \<longleftrightarrow> (\<forall>c \<in> set s. 0 < (of_char c :: nat) \<and> (of_char c :: nat) < 128)"

lemma length_as_bytes [simp]: "length (as_bytes s) = length s"
  by (simp add: as_bytes_def)

lemma pad4_le: "n \<le> pad4 (n + 4)" "pad4 (n + 4) \<le> n + 4" "pad4 (n + 4) mod 4 = 0" "4 \<le> pad4 (n + 4)"
  by (simp_all add: pad4_def)

lemma length_osc_padded: "length (osc_padded s) = pad4 (length s + 4)"
  using pad4_le(1) [of "length s"] by (simp add: osc_padded_def)

lemma ascii_bytes:
  assumes "ascii s"
  shows "0 \<notin> set (as_bytes s)" "list_all (\<lambda>b. b < 0x80) (as_bytes s)"
proof -
  have "(of_nat (of_char c) :: u8) \<noteq> 0 \<and> (of_nat (of_char c) :: u8) < 0x80" if "c \<in> set s" for c
  proof -
    have c: "0 < (of_char c :: nat)" "(of_char c :: nat) < 128" using assms that by (auto simp: ascii_def)
    then have u: "unat (of_nat (of_char c) :: u8) = of_char c" by (simp add: unat_of_nat)
    then have "unat (of_nat (of_char c) :: u8) \<noteq> 0" using c by simp
    then show ?thesis using c u by (auto simp: word_less_nat_alt simp del: of_nat_of_char)
  qed
  then show "0 \<notin> set (as_bytes s)" "list_all (\<lambda>b. b < 0x80) (as_bytes s)"
    by (fastforce simp: as_bytes_def list_all_iff)+
qed

lemma osc_string_padded:
  assumes "ascii s"
  shows "osc_string (osc_padded s @ rest) = Inr (s, rest)"
proof -
  let ?k = "pad4 (length s + 4) - length s"
  have k: "?k > 0" by (simp add: pad4_def)
  note b = ascii_bytes [OF assms]
  have tw: "takeWhile (\<lambda>b. b \<noteq> 0) (osc_padded s @ rest) = as_bytes s"
  proof -
    obtain j where "?k = Suc j" using k by (cases ?k) auto
    then have "osc_padded s @ rest = as_bytes s @ 0 # (replicate j 0 @ rest)"
      by (simp add: osc_padded_def)
    moreover have "x \<noteq> 0" if "x \<in> set (as_bytes s)" for x using b(1) that by metis
    ultimately show ?thesis by (simp add: takeWhile_append2)
  qed
  have zero: "0 \<in> set (osc_padded s @ rest)" using k by (simp add: osc_padded_def)
  have take: "osc_take (osc_padded s @ rest) (pad4 (length s + 4)) = Inr (osc_padded s, rest)"
    by (simp add: osc_take_def length_osc_padded [symmetric])
  have "from_utf8 (as_bytes s) = Some s"
    using b(2) utf8_ascii [of "as_bytes s"] by (simp add: from_utf8_def list_all_iff)
  moreover have "take (length s) (osc_padded s) = as_bytes s" "drop (length s) (osc_padded s) = replicate ?k 0"
    by (simp_all add: osc_padded_def)
  ultimately show ?thesis
    using zero b(2) unfolding osc_string_def tw Let_def
    by (simp add: take list_ex_iff)
qed

lemma be_i32_to_be_bytes: "be_i32 (to_be_bytes 4 w) = sint (w :: i32)"
  by (simp add: be_i32_def from_to_be_bytes)

subsection \<open>Numbers in addresses\<close>

lemma show_nat_digits: "list_all is_digit (show_nat n) \<and> digits_value (show_nat n) = n \<and> show_nat n \<noteq> []"
proof (induction n rule: show_nat.induct)
  case (1 n)
  have digit: "of_char (char_of (48 + d) :: char) = 48 + d" if "d < 10" for d :: nat
    using that by simp
  show ?case
  proof (cases "n < 10")
    case True
    then show ?thesis
      by (subst (1 2 3) show_nat.simps) (simp add: is_digit_def digits_value_def digit)
  next
    case False
    have "is_digit (char_of (48 + n mod 10))" using digit [of "n mod 10"] by (simp add: is_digit_def)
    moreover have "digits_value (ds @ [c]) = 10 * digits_value ds + (of_char c - 48)" for ds c
      by (simp add: digits_value_def)
    moreover have "show_nat n = show_nat (n div 10) @ [char_of (48 + n mod 10)]"
      using False by (simp add: show_nat.simps [of n])
    ultimately show ?thesis using 1 [OF False] digit [of "n mod 10"] by simp
  qed
qed

lemma length_show_nat: "n < 100 \<Longrightarrow> length (show_nat n) \<le> 2"
  by (subst show_nat.simps) (auto simp: show_nat.simps [of "n div 10"])

lemma parse_u8_show_nat:
  assumes "n < 256"
  shows "parse_u8 (show_nat n) = Some (of_nat n)"
proof -
  note d = show_nat_digits [of n]
  obtain c cs where s: "show_nat n = c # cs" using d by (cases "show_nat n") auto
  have "c \<noteq> CHR ''+''" using d s by (auto simp: is_digit_def)
  then have "(case show_nat n of CHR ''+'' # rest \<Rightarrow> rest | _ \<Rightarrow> show_nat n) = show_nat n"
    using s by (auto split: char.splits bool.splits)
  then show ?thesis using d assms by (simp add: parse_u8_def Let_def)
qed

lemma switch_target_show_nat:
  assumes "1 \<le> k" "k \<le> 88"
  shows "switch_target (show_nat (unat k)) = Some (Some k)"
proof -
  have "\<not> list_all is_digit ''sustain''" by (simp add: is_digit_def)
  then have "show_nat (unat k) \<noteq> ''sustain''" using show_nat_digits [of "unat k"] by metis
  moreover have "unat k < 256" using assms by (simp add: word_le_nat_alt)
  ultimately show ?thesis using assms by (simp add: switch_target_def parse_u8_show_nat)
qed

subsection \<open>A switch packet\<close>

definition switch_name :: "u8 option \<Rightarrow> string" where
  "switch_name i = (case i of Some k \<Rightarrow> parameter_name k | None \<Rightarrow> SUSTAIN_PARAM)"

definition switch_event :: "osc_env \<Rightarrow> nat \<Rightarrow> u8 option \<Rightarrow> bool \<Rightarrow> nat \<Rightarrow> scheduled_midi" where
  "switch_event env due i pressed n =
     \<lparr>sm_deadline = due, sm_order = of_nat n, sm_data = switch_message i pressed, sm_len = 3,
      sm_generation = oe_generation env, sm_ingress_qpc = oe_qpc env (of_nat n)\<rparr>"

lemma switch_packet_wire:
  "switch_packet osc_wire i pressed =
     osc_padded (switch_name i) @ osc_padded '',i'' @ to_be_bytes 4 (if pressed then 1 else 0 :: i32)"
  by (simp add: switch_packet_def osc_wire_def switch_name_def osc_arg_tag_def osc_arg_bytes_def
      split: option.split)

lemma is_digit_ascii: "list_all is_digit s \<Longrightarrow> ascii s"
  by (auto simp: ascii_def is_digit_def list_all_iff)

lemma ascii_append [simp]: "ascii (s @ t) \<longleftrightarrow> ascii s \<and> ascii t"
  by (auto simp: ascii_def)

lemma ascii_literals: "ascii PARAMETER_PATH" "ascii SUSTAIN_PARAM" "ascii '',i''" "ascii ''#bundle''"
  by (simp_all add: ascii_def PARAMETER_PATH_def SUSTAIN_PARAM_def)

lemma ascii_switch_name: "ascii (switch_name i)"
  using show_nat_digits by (auto simp: switch_name_def parameter_name_def ascii_literals is_digit_ascii
      split: option.split)

lemma switch_name_parts:
  assumes "i \<in> osc_switches"
  shows "switch_name i \<noteq> ''#bundle''" "starts_with ''/'' (switch_name i)" "switch_name i \<noteq> ''/midi''"
    "\<exists>parameter. strip_prefix PARAMETER_PATH (switch_name i) = Some parameter \<and> switch_target parameter = Some i"
    "length (switch_name i) \<le> 30"
proof -
  have "\<exists>parameter. switch_name i = PARAMETER_PATH @ parameter \<and> switch_target parameter = Some i
      \<and> length parameter \<le> 7"
  proof (cases i)
    case None
    then show ?thesis
      by (intro exI [of _ "''sustain''"])
        (simp add: switch_name_def SUSTAIN_PARAM_def PARAMETER_PATH_def switch_target_def)
  next
    case (Some k)
    then have k: "1 \<le> k" "k \<le> 88" using assms by (auto simp: osc_switches_def)
    then have "length (show_nat (unat k)) \<le> 2" by (intro length_show_nat) (simp add: word_le_nat_alt)
    then show ?thesis using Some switch_target_show_nat [OF k]
      by (intro exI [of _ "show_nat (unat k)"]) (simp add: switch_name_def parameter_name_def)
  qed
  then show "switch_name i \<noteq> ''#bundle''" "starts_with ''/'' (switch_name i)" "switch_name i \<noteq> ''/midi''"
    "\<exists>parameter. strip_prefix PARAMETER_PATH (switch_name i) = Some parameter \<and> switch_target parameter = Some i"
    "length (switch_name i) \<le> 30"
    by (auto simp: PARAMETER_PATH_def starts_with_def strip_prefix_Some_iff)
qed

lemma switch_body:
  assumes "i \<in> osc_switches"
  shows "osc_message_body (switch_name i) (osc_padded '',i'' @ to_be_bytes 4 (if pressed then 1 else 0 :: i32))
    = Inr (Some (switch_message i pressed, 3))"
proof -
  obtain parameter where par: "strip_prefix PARAMETER_PATH (switch_name i) = Some parameter"
      "switch_target parameter = Some i"
    using switch_name_parts(4) [OF assms] by blast
  let ?arg = "to_be_bytes 4 (if pressed then 1 else 0 :: i32)"
  have position: "osc_switch_value '',i'' ?arg = Inr pressed"
    by (simp add: osc_switch_value_def be_i32_to_be_bytes)
  have args: "osc_skip_args (drop 1 '',i'') ?arg = Inr []" by (simp add: osc_take_def)
  have tags: "starts_with '','' '',i''" by (simp add: starts_with_def)
  show ?thesis
    using switch_name_parts(2,3) [OF assms] par position args tags osc_string_padded [OF ascii_literals(3), of ?arg]
    unfolding osc_message_body_def osc_message_midi_def by simp
qed

lemma switch_packet_shape:
  assumes "i \<in> osc_switches"
  shows "switch_packet osc_wire i pressed \<noteq> []" "length (switch_packet osc_wire i pressed) mod 4 = 0"
    "length (switch_packet osc_wire i pressed) \<le> 42"
proof -
  have len: "length (switch_packet osc_wire i pressed) = pad4 (length (switch_name i) + 4) + 8"
    by (simp add: switch_packet_wire length_osc_padded) (simp add: pad4_def)
  note p = pad4_le [of "length (switch_name i)"] switch_name_parts(5) [OF assms]
  show "switch_packet osc_wire i pressed \<noteq> []" using len by force
  show "length (switch_packet osc_wire i pressed) mod 4 = 0" unfolding len using p(3) by presburger
  show "length (switch_packet osc_wire i pressed) \<le> 42" unfolding len using p by linarith
qed

lemma switch_packet_decoded:
  assumes "i \<in> osc_switches" "depth \<le> 16" "length out < 1024"
  shows "osc_packet env due tag depth (switch_packet osc_wire i pressed) out
    = (Inr (), out @ [switch_event env due i pressed (length out)])"
proof -
  note shape = switch_packet_shape [OF assms(1), of pressed]
  have "osc_string (switch_packet osc_wire i pressed)
      = Inr (switch_name i, osc_padded '',i'' @ to_be_bytes 4 (if pressed then 1 else 0 :: i32))"
    unfolding switch_packet_wire by (rule osc_string_padded) (rule ascii_switch_name)
  then show ?thesis
    using shape assms switch_body [OF assms(1), of pressed] switch_name_parts(1) [OF assms(1)]
    by (subst osc_packet.simps)
      (simp add: push_midi_def switch_event_def MAX_PACKET_MESSAGES_def mod_eq_0_iff_dvd)
qed

lemma switch_elements_decoded:
  assumes "\<forall>(i, p) \<in> set switches. i \<in> osc_switches" "depth < 16" "length out + length switches \<le> 1024"
  shows "osc_elements env due tag depth
      (concat (map (\<lambda>p. to_be_bytes 4 (of_nat (length p) :: i32) @ p)
        (map (\<lambda>(i, p). switch_packet osc_wire i p) switches))) out
    = (Inr (), out @ map (\<lambda>((i, p), n). switch_event env due i p n)
        (zip switches [length out..<length out + length switches]))"
  using assms
proof (induction switches arbitrary: out)
  case Nil
  then show ?case by (simp add: osc_elements.simps)
next
  case (Cons x xs)
  obtain i p where x: "x = (i, p)" by (cases x)
  then have i: "i \<in> osc_switches" using Cons.prems(1) by simp
  let ?p = "switch_packet osc_wire i p"
  let ?rest = "concat (map (\<lambda>p. to_be_bytes 4 (of_nat (length p) :: i32) @ p)
        (map (\<lambda>(i, p). switch_packet osc_wire i p) xs))"
  let ?sz = "to_be_bytes 4 (of_nat (length ?p) :: i32)"
  note shape = switch_packet_shape [OF i, of p]
  have sz: "be_i32 ?sz = int (length ?p)"
  proof -
    have "uint (of_nat (length ?p) :: i32) = int (length ?p)"
      using shape(3) by (simp add: uint_nat unat_of_nat)
    moreover have "int (length ?p) < 2 ^ 31" using shape(3) by simp
    ultimately show ?thesis
      by (simp add: be_i32_to_be_bytes sint_uint signed_take_bit_int_eq_self)
  qed
  have pkt: "osc_packet env due tag (depth + 1) ?p out = (Inr (), out @ [switch_event env due i p (length out)])"
    by (rule switch_packet_decoded [OF i]) (use Cons.prems in simp_all)
  have t1: "osc_take (?sz @ ?p @ ?rest) 4 = Inr (?sz, ?p @ ?rest)"
    and t2: "osc_take (?p @ ?rest) (length ?p) = Inr (?p, ?rest)"
    by (simp_all add: osc_take_def)
  have "osc_elements env due tag depth (?sz @ ?p @ ?rest) out
      = osc_elements env due tag depth ?rest (out @ [switch_event env due i p (length out)])"
    by (subst osc_elements.simps) (use shape t1 t2 pkt sz in \<open>simp add: mod_eq_0_iff_dvd\<close>)
  also have "\<dots> = (Inr (), (out @ [switch_event env due i p (length out)])
      @ map (\<lambda>((i, p), n). switch_event env due i p n)
          (zip xs [length (out @ [switch_event env due i p (length out)])..<
            length (out @ [switch_event env due i p (length out)]) + length xs]))"
    by (rule Cons.IH) (use Cons.prems in auto)
  finally show ?case
    using upt_conv_Cons [of "length out" "length out + length (x # xs)"] by (simp add: x del: upt_Suc)
qed

text \<open>
  The OSC input understands the OSC output. An immediate bundle of up to 1024 of the packets the
  client sends (and a single such packet) decodes, in order, to the press or release of the same
  keys and pedal, due at once: key \<open>k\<close> of 88 is note \<open>20 + k\<close>, the pedal is controller 64.
\<close>

theorem osc_loopback:
  assumes "\<forall>(i, p) \<in> set switches. i \<in> osc_switches" "length switches \<le> 1024"
  shows "osc_decode env (osc_bundle_wire 1 (map (\<lambda>(i, p). switch_packet osc_wire i p) switches))
      = (Inr (), map (\<lambda>((i, p), n). switch_event env (oe_now env) i p n) (zip switches [0..<length switches]))
    \<and> (\<forall>(i, p) \<in> set switches. osc_decode env (switch_packet osc_wire i p)
        = (Inr (), [switch_event env (oe_now env) i p 0])
      \<and> switch_message i p = (case i of None \<Rightarrow> [0xB0, 64, if p then 127 else 0]
          | Some k \<Rightarrow> [if p then 0x90 else 0x80, 20 + k, if p then 127 else 0]))"
proof -
  let ?packets = "map (\<lambda>(i, p). switch_packet osc_wire i p) switches"
  let ?elements = "concat (map (\<lambda>p. to_be_bytes 4 (of_nat (length p) :: i32) @ p) ?packets)"
  let ?events = "map (\<lambda>((i, p), n). switch_event env (oe_now env) i p n) (zip switches [0..<length switches])"
  let ?b = "osc_bundle_wire 1 ?packets"
  have els: "osc_elements env (oe_now env) None 0 ?elements [] = (Inr (), ?events)"
    using switch_elements_decoded [OF assms(1), of 0 "[]" env "oe_now env" None] assms(2) by simp
  have dvd: "\<forall>x \<in> set ?packets. 4 dvd length x"
    using switch_packet_shape(2) assms(1) by (auto simp: mod_eq_0_iff_dvd)
  have "4 dvd sum_list (map (\<lambda>x. 4 + length x) ps)" if "\<forall>x \<in> set ps. 4 dvd length x"
    for ps :: "bytes list"
    using that by (induction ps) (auto intro: dvd_add)
  from this [OF dvd] have len: "length ?b mod 4 = 0" "?b \<noteq> []"
    by (simp_all add: osc_bundle_wire_def length_osc_padded length_concat comp_def pad4_def mod_eq_0_iff_dvd)
      (simp add: osc_padded_def pad4_def)
  have str: "osc_string ?b = Inr (''#bundle'', to_be_bytes 8 (1 :: u64) @ ?elements)"
    unfolding osc_bundle_wire_def by (rule osc_string_padded) (rule ascii_literals)
  have head: "osc_take (to_be_bytes 8 (1 :: u64) @ ?elements) 8 = Inr (to_be_bytes 8 (1 :: u64), ?elements)"
    by (simp add: osc_take_def)
  have tag: "from_be_bytes (to_be_bytes 8 (1 :: u64)) = (1 :: u64)" by (rule from_to_be_bytes) simp
  have "osc_packet env (oe_now env) None 0 ?b [] = (Inr (), ?events)"
    by (subst osc_packet.simps) (use len str head tag els in \<open>simp add: osc_deadline_def mod_eq_0_iff_dvd\<close>)
  then have "osc_decode env ?b = (Inr (), ?events)" by (simp add: osc_decode_def)
  moreover have "osc_decode env (switch_packet osc_wire i p) = (Inr (), [switch_event env (oe_now env) i p 0])"
    if "i \<in> osc_switches" for i p
    using switch_packet_decoded [OF that, of 0 "[]"] by (simp add: osc_decode_def)
  moreover have "NOTE_MIN + k - 1 = 20 + k" for k by (simp add: NOTE_MIN_def algebra_simps)
  ultimately show ?thesis using assms(1) by (auto simp: switch_message_def split: option.splits)
qed
definition sample_osc_env :: osc_env where
  "sample_osc_env = \<lparr>oe_wall = 1700000000000000000, oe_now = 5, oe_generation = 3, oe_qpc = (\<lambda>_. 7)\<rparr>"

theorem osc_decode_sound_witness:
  "\<exists>s. osc_decode sample_osc_env (switch_packet osc_wire (Some 40) True) = (Inr (), [s])
     \<and> normalize_message (take (unat (sm_len s)) (sm_data s)) = (True, take (unat (sm_len s)) (sm_data s))
     \<and> sm_data s = [0x90, 60, 127] \<and> sm_deadline s \<le> 5 + 10000000000"
proof -
  have "osc_decode sample_osc_env (switch_packet osc_wire (Some 40) True)
      = (Inr (), [switch_event sample_osc_env 5 (Some 40) True 0])"
    using switch_packet_decoded [of "Some 40" 0 "[]" sample_osc_env 5]
    by (simp add: osc_switches_def osc_decode_def sample_osc_env_def)
  from osc_decode_sound [OF this] this show ?thesis
    by (auto simp: switch_event_def switch_message_def NOTE_MIN_def sample_osc_env_def)
qed

theorem osc_loopback_witness:
  "fst (osc_decode sample_osc_env (osc_bundle_wire 1
      (map (\<lambda>(i, p). switch_packet osc_wire i p) [(Some 1, True), (None, False)]))) = Inr ()
   \<and> map sm_data (snd (osc_decode sample_osc_env (osc_bundle_wire 1
      (map (\<lambda>(i, p). switch_packet osc_wire i p) [(Some 1, True), (None, False)]))))
     = [[0x90, 21, 127], [0xB0, 64, 0]]"
proof -
  have "\<forall>(i, p) \<in> set [(Some 1, True), (None, False)]. i \<in> osc_switches" by (simp add: osc_switches_def)
  from osc_loopback [OF this, of sample_osc_env] show ?thesis
    by (simp add: switch_event_def switch_message_def NOTE_MIN_def)
qed

end
