(* ===== verification/Osc_Input.thy ===== *)
theory Osc_Input
  imports Osc_Packet "HOL-Library.Product_Lexorder" "HOL-Library.List_Lexorder"
begin

text \<open>
  The OSC receiver (\<open>osc_input/mod.rs\<close>): the loop of \<open>receive\<close> with its queue of messages that
  wait for their deadline, the delivery of those that are due, and the admission of new ones.
\<close>

section \<open>State\<close>

definition PENDING_CAPACITY :: nat where "PENDING_CAPACITY = 4096"

text \<open>
  The heap of \<open>Reverse\<close> entries is the list of its entries in ascending order (the derived order of
  the struct: its fields from first to last). The first is the one \<open>peek\<close> and \<open>pop\<close> see.
\<close>

definition event_key :: "scheduled_midi \<Rightarrow> nat \<times> u64 \<times> u8 list \<times> u8 \<times> u64 \<times> u64" where
  "event_key e = (sm_deadline e, sm_order e, sm_data e, sm_len e, sm_generation e, sm_ingress_qpc e)"

definition heap_push :: "scheduled_midi \<Rightarrow> scheduled_midi list \<Rightarrow> scheduled_midi list" where
  "heap_push e pending = insort_key event_key e pending"

record osc_receiver =
  or_pending :: "scheduled_midi list"
  or_order :: u64
  or_generation :: u64
  or_errors :: u64

text \<open>What the receiver shares with the other threads, and the counters of \<open>realtime.rs\<close> it raises.\<close>

record input_world =
  iw_pipeline :: pipeline
  iw_queue :: "midi_frame midi_queue"
  iw_invalid :: u64
  iw_overflows :: u64
  iw_socket_errors :: u64

text \<open>
  The surroundings of one pass of the loop: what the other threads do to the shared state before and
  after the message at each position is handled, and to the queue while \<open>enqueue\<close> yields; the
  clock reading queue entries get; the free buffers.
\<close>

record input_env =
  ie_before :: "nat \<Rightarrow> input_world \<Rightarrow> input_world"
  ie_after :: "nat \<Rightarrow> input_world \<Rightarrow> input_world"
  ie_others :: "midi_frame midi_queue \<Rightarrow> midi_frame midi_queue"
  ie_queue_qpc :: u64
  ie_pool :: buffer_pool

text \<open>
  What was offered to the pipeline, for the statements below: the message, the instant, and the
  reset generation last read before it (for a waiting message just before, for a message that is
  delivered on arrival when its packet was received; \<open>generation\<close> below).
\<close>

record offer =
  of_event :: scheduled_midi
  of_frame :: midi_frame
  of_now :: nat
  of_generation :: u64

section \<open>Operations\<close>

definition current_generation :: "input_world \<Rightarrow> u64" where
  "current_generation w = midi_reset_generation (iw_pipeline w)"

definition event_frame :: "string \<Rightarrow> scheduled_midi \<Rightarrow> midi_frame" where
  "event_frame source e =
     \<lparr>frame_generation = sm_generation e, frame_ingress_qpc = sm_ingress_qpc e,
      frame_data = take (unat (sm_len e)) (sm_data e), frame_capacity = INLINE_MIDI_BYTES,
      frame_source = source\<rparr>"

definition deliver :: "input_env \<Rightarrow> midi_frame \<Rightarrow> input_world \<Rightarrow> input_world" where
  "deliver env frame w =
     (case try_enqueue_midi_frame (ie_queue_qpc env) (ie_others env) frame (iw_pipeline w) (iw_queue w) of
        (_, p, q) \<Rightarrow> w\<lparr>iw_pipeline := p, iw_queue := q\<rparr>)"

definition reset_world :: "input_world \<Rightarrow> input_world" where
  "reset_world w = w\<lparr>iw_pipeline := request_critical_midi_reset (iw_pipeline w)\<rparr>"

text \<open>The loop over the due messages: at most \<open>k\<close> passes, which the code starts with 256.\<close>

fun drain_due ::
  "input_env \<Rightarrow> string \<Rightarrow> nat \<Rightarrow> nat \<Rightarrow> scheduled_midi list \<Rightarrow> input_world
     \<Rightarrow> scheduled_midi list \<times> input_world \<times> offer list" where
  "drain_due env source now 0 pending w = (pending, w, [])"
| "drain_due env source now (Suc k) [] w = ([], w, [])"
| "drain_due env source now (Suc k) (event # pending) w =
     (if sm_deadline event > now then (event # pending, w, [])
      else
        let w = ie_before env k w
        in if sm_generation event \<noteq> current_generation w then drain_due env source now k pending w
           else
             let frame = event_frame source event;
                 offer = \<lparr>of_event = event, of_frame = frame, of_now = now,
                          of_generation = current_generation w\<rparr>;
                 w = ie_after env k (deliver env frame w)
             in if sm_generation event \<noteq> current_generation w then ([], w, [offer])
                else (case drain_due env source now k pending w of
                        (pending', w', offers) \<Rightarrow> (pending', w', offer # offers)))"

text \<open>The messages of a packet, in order.\<close>

fun stage_events ::
  "input_env \<Rightarrow> string \<Rightarrow> nat \<Rightarrow> u64 \<Rightarrow> u64 \<Rightarrow> nat \<Rightarrow> scheduled_midi list
     \<Rightarrow> scheduled_midi list \<Rightarrow> u64 \<Rightarrow> input_world
     \<Rightarrow> scheduled_midi list \<times> u64 \<times> input_world \<times> offer list" where
  "stage_events env source now qpc generation index [] pending order w = (pending, order, w, [])"
| "stage_events env source now qpc generation index (event # events) pending order w =
     (let w = ie_before env index w;
          event = event\<lparr>sm_ingress_qpc := qpc\<rparr>;
          candidate = event_frame source event;
          critical = classify_input_frame (current_generation w) qpc (ie_pool env) (iw_queue w) candidate;
          limit = (if critical then PENDING_CAPACITY else PENDING_CAPACITY - reserve PENDING_CAPACITY)
      in if limit \<le> length pending then
           (let w = w\<lparr>iw_overflows := iw_overflows w + 1\<rparr>
            in if critical then ([], order, reset_world w, [])
               else stage_events env source now qpc generation (Suc index) events pending order w)
         else if pending = [] \<and> sm_deadline event \<le> now then
           (let offer = \<lparr>of_event = event, of_frame = candidate, of_now = now,
                         of_generation = generation\<rparr>;
                w = ie_after env index (deliver env candidate w)
            in if sm_generation event \<noteq> current_generation w then ([], order, w, [offer])
               else (case stage_events env source now qpc generation (Suc index) events pending order w of
                       (pending', order', w', offers) \<Rightarrow> (pending', order', w', offer # offers)))
         else stage_events env source now qpc generation (Suc index) events
                (heap_push (event\<lparr>sm_order := order\<rparr>) pending) (order + 1) w)"

definition sync_generation :: "osc_receiver \<Rightarrow> input_world \<Rightarrow> osc_receiver" where
  "sync_generation st w =
     (if or_generation st \<noteq> current_generation w
      then st\<lparr>or_pending := [], or_generation := current_generation w\<rparr> else st)"

definition osc_drain ::
  "input_env \<Rightarrow> string \<Rightarrow> nat \<Rightarrow> osc_receiver \<Rightarrow> input_world
     \<Rightarrow> osc_receiver \<times> input_world \<times> offer list" where
  "osc_drain env source now st w =
     (case drain_due env source now 256 (or_pending st) w of
        (pending, w', offers) \<Rightarrow> (st\<lparr>or_pending := pending\<rparr>, w', offers))"

definition osc_datagram ::
  "input_env \<Rightarrow> string \<Rightarrow> int \<Rightarrow> nat \<Rightarrow> u64 \<Rightarrow> bytes \<Rightarrow> osc_receiver \<Rightarrow> input_world
     \<Rightarrow> osc_receiver \<times> input_world \<times> offer list" where
  "osc_datagram env source wall now qpc bytes st w =
     (let st = sync_generation (st\<lparr>or_errors := 0\<rparr>) w
      in case osc_decode \<lparr>oe_wall = wall, oe_now = now, oe_generation = or_generation st,
                          oe_qpc = (\<lambda>_. qpc)\<rparr> bytes of
           (Inl _, _) \<Rightarrow> (st, w\<lparr>iw_invalid := iw_invalid w + 1\<rparr>, [])
         | (Inr _, staging) \<Rightarrow>
             (case stage_events env source now qpc (or_generation st) 0 staging (or_pending st) (or_order st) w of
                (pending, order, w', offers) \<Rightarrow>
                  (st\<lparr>or_pending := pending, or_order := order\<rparr>, w', offers)))"

text \<open>
  One pass of the loop: the branch \<open>select!\<close> takes is an input. The answer says whether the loop
  goes on; on every exit a reset is requested.
\<close>

datatype osc_select = Stopped | DeadlineReached nat | Received int nat u64 bytes | ReceiveFailed

definition osc_pass ::
  "input_env \<Rightarrow> string \<Rightarrow> nat \<Rightarrow> osc_select \<Rightarrow> osc_receiver \<Rightarrow> input_world
     \<Rightarrow> bool \<times> osc_receiver \<times> input_world \<times> offer list" where
  "osc_pass env source now select st w =
     (case osc_drain env source now (sync_generation st w) w of
        (st1, w1, offers1) \<Rightarrow>
          (case select of
             Stopped \<Rightarrow> (False, st1, reset_world w1, offers1)
           | DeadlineReached now2 \<Rightarrow>
               (case osc_drain env source now2 st1 w1 of
                  (st2, w2, offers2) \<Rightarrow> (True, st2, w2, offers1 @ offers2))
           | Received wall now2 qpc bytes \<Rightarrow>
               (case osc_datagram env source wall now2 qpc bytes st1 w1 of
                  (st2, w2, offers2) \<Rightarrow> (True, st2, w2, offers1 @ offers2))
           | ReceiveFailed \<Rightarrow>
               (let w2 = w1\<lparr>iw_socket_errors := iw_socket_errors w1 + 1\<rparr>;
                    errors = or_errors st1 + 1;
                    st2 = st1\<lparr>or_errors := errors\<rparr>
                in if errors \<ge> 20 then (False, st2, reset_world (reset_world w2), offers1)
                   else (True, st2, w2, offers1))))"

text \<open>
  A run of the loop. Each input is the surroundings of a pass, the instant at its start, what the other
  threads do to the shared state before it, and the branch taken.
\<close>

fun osc_receive ::
  "string \<Rightarrow> (input_env \<times> (input_world \<Rightarrow> input_world) \<times> nat \<times> osc_select) list
     \<Rightarrow> osc_receiver \<Rightarrow> input_world \<Rightarrow> osc_receiver \<times> input_world \<times> offer list" where
  "osc_receive source [] st w = (st, w, [])"
| "osc_receive source ((env, between, now, select) # inputs) st w =
     (case osc_pass env source now select st (between w) of
        (continue, st1, w1, offers1) \<Rightarrow>
          if continue then
            (case osc_receive source inputs st1 w1 of (st2, w2, offers2) \<Rightarrow> (st2, w2, offers1 @ offers2))
          else (st1, w1, offers1))"

definition osc_start :: "input_world \<Rightarrow> osc_receiver" where
  "osc_start w = \<lparr>or_pending = [], or_order = 0, or_generation = current_generation w, or_errors = 0\<rparr>"

section \<open>Order and bounds\<close>

definition event_ok :: "scheduled_midi \<Rightarrow> bool" where
  "event_ok e \<longleftrightarrow> length (sm_data e) = 3 \<and> 1 \<le> unat (sm_len e) \<and> unat (sm_len e) \<le> 3
     \<and> normalize_message (take (unat (sm_len e)) (sm_data e)) = (True, take (unat (sm_len e)) (sm_data e))"

definition offer_ok :: "string \<Rightarrow> offer \<Rightarrow> bool" where
  "offer_ok source o1 \<longleftrightarrow> of_frame o1 = event_frame source (of_event o1) \<and> event_ok (of_event o1)
     \<and> sm_generation (of_event o1) = of_generation o1 \<and> sm_deadline (of_event o1) \<le> of_now o1"

abbreviation offer_time :: "offer \<Rightarrow> nat" where
  "offer_time o1 \<equiv> sm_deadline (of_event o1)"

text \<open>Offers in order of their deadlines, all between two times.\<close>

definition offers_ok :: "string \<Rightarrow> nat \<Rightarrow> nat \<Rightarrow> offer list \<Rightarrow> bool" where
  "offers_ok source lo hi offers \<longleftrightarrow> sorted (map offer_time offers) \<and> lo \<le> hi
     \<and> (\<forall>o1 \<in> set offers. offer_ok source o1 \<and> lo \<le> offer_time o1 \<and> offer_time o1 \<le> hi)"

text \<open>The receiver's invariant; \<open>lo\<close> is a time no waiting message precedes.\<close>

definition pending_ok :: "nat \<Rightarrow> u64 \<Rightarrow> scheduled_midi list \<Rightarrow> bool" where
  "pending_ok lo generation pending \<longleftrightarrow> sorted (map event_key pending) \<and> length pending \<le> PENDING_CAPACITY
     \<and> (\<forall>e \<in> set pending. lo \<le> sm_deadline e \<and> event_ok e \<and> sm_generation e = generation)"

abbreviation receiver_ok :: "nat \<Rightarrow> osc_receiver \<Rightarrow> bool" where
  "receiver_ok lo st \<equiv> pending_ok lo (or_generation st) (or_pending st)"

lemma offers_ok_Nil [simp]: "offers_ok source lo hi [] \<longleftrightarrow> lo \<le> hi"
  by (simp add: offers_ok_def)

lemma offers_ok_append:
  "offers_ok source lo mid as \<Longrightarrow> offers_ok source mid hi bs \<Longrightarrow> offers_ok source lo hi (as @ bs)"
  unfolding offers_ok_def by (auto simp: sorted_append intro: order_trans)

lemma pending_ok_Nil [simp]: "pending_ok lo g []"
  by (simp add: pending_ok_def)

lemma pending_ok_mono: "pending_ok lo g p \<Longrightarrow> lo' \<le> lo \<Longrightarrow> pending_ok lo' g p"
  by (auto simp: pending_ok_def)

lemma sorted_deadlines: "sorted (map event_key es) \<Longrightarrow> sorted (map sm_deadline es)"
  by (induction es) (auto simp: event_key_def less_eq_prod_def)

lemma drain_due_facts:
  assumes "drain_due env source now k pending w = (pending', w', offers)"
    and "pending_ok lo g pending" "lo \<le> now"
  shows "\<exists>hi. hi \<le> now \<and> offers_ok source lo hi offers \<and> pending_ok hi g pending'"
  using assms
proof (induction env source now k pending w arbitrary: pending' w' offers lo rule: drain_due.induct)
  case (3 env source now k event pending w)
  let ?w = "ie_before env k w"
  have ok: "lo \<le> sm_deadline event" "event_ok event" "sm_generation event = g"
    using "3.prems"(2) by (auto simp: pending_ok_def)
  have tail: "pending_ok (sm_deadline event) g pending"
    using "3.prems"(2) sorted_deadlines [of "event # pending"] by (auto simp: pending_ok_def)
  show ?case
  proof (cases "sm_deadline event > now")
    case True
    then show ?thesis using "3.prems" by auto
  next
    case due: False
    show ?thesis
    proof (cases "sm_generation event = current_generation ?w")
      case False
      then have "drain_due env source now k pending ?w = (pending', w', offers)"
        using "3.prems"(1) due by (simp add: Let_def)
      with "3.IH"(1) [OF due refl False] tail ok(1) "3.prems"(3) show ?thesis
        by (blast intro: pending_ok_mono)
    next
      case same: True
      let ?offer = "\<lparr>of_event = event, of_frame = event_frame source event, of_now = now,
                     of_generation = current_generation ?w\<rparr>"
      let ?w2 = "ie_after env k (deliver env (event_frame source event) ?w)"
      have one: "offers_ok source lo (sm_deadline event) [?offer]"
        using ok due same by (simp add: offers_ok_def offer_ok_def)
      show ?thesis
      proof (cases "sm_generation event = current_generation ?w2")
        case False
        then have "pending' = []" "offers = [?offer]"
          using "3.prems"(1) due same by (simp_all add: Let_def)
        then show ?thesis using one due by (intro exI [of _ "sm_deadline event"]) simp
      next
        case True
        obtain p1 w1 os where d: "drain_due env source now k pending ?w2 = (p1, w1, os)"
          by (metis prod_cases3)
        have res: "pending' = p1" "offers = ?offer # os"
          using "3.prems"(1) due same True d by (simp_all add: Let_def)
        obtain hi where "hi \<le> now" "offers_ok source (sm_deadline event) hi os" "pending_ok hi g p1"
          using "3.IH"(2) [OF due refl _ refl refl refl _ d tail] same True due by auto
        with offers_ok_append [OF one] show ?thesis
          using res by (intro exI [of _ hi]) auto
      qed
    qed
  qed
qed auto

lemma heap_push_ok:
  assumes "pending_ok lo g pending" "length pending < PENDING_CAPACITY"
    and "event_ok e" "sm_generation e = g" "lo \<le> sm_deadline e"
  shows "pending_ok lo g (heap_push e pending)"
  using assms by (auto simp: pending_ok_def heap_push_def sorted_insort_key set_insort_key)

lemma heap_push_nonempty: "heap_push e pending \<noteq> []"
  by (simp add: heap_push_def insort_not_Nil)

lemma stage_no_offers:
  "pending \<noteq> [] \<Longrightarrow>
     snd (snd (snd (stage_events env source now qpc g index events pending order w))) = []"
proof (induction events arbitrary: index pending order w)
  case Nil
  then show ?case by simp
next
  case (Cons e es)
  show ?case using Cons heap_push_nonempty by (simp add: Let_def)
qed

lemma stage_events_facts:
  assumes "stage_events env source now qpc g index events pending order w = (pending', order', w', offers)"
    and "pending_ok lo g pending" "lo \<le> now"
    and "\<forall>e \<in> set events. event_ok e \<and> sm_generation e = g \<and> now \<le> sm_deadline e"
  shows "\<exists>hi. hi \<le> now \<and> offers_ok source lo hi offers \<and> pending_ok hi g pending'"
  using assms
proof (induction events arbitrary: index pending order w pending' order' w' offers lo)
  case Nil
  then show ?case by auto
next
  case (Cons e es)
  let ?w = "ie_before env index w"
  let ?e = "e\<lparr>sm_ingress_qpc := qpc\<rparr>"
  let ?frame = "event_frame source ?e"
  let ?critical = "classify_input_frame (current_generation ?w) qpc (ie_pool env) (iw_queue ?w) ?frame"
  let ?limit = "if ?critical then PENDING_CAPACITY else PENDING_CAPACITY - reserve PENDING_CAPACITY"
  have e: "event_ok e" "sm_generation e = g" "now \<le> sm_deadline e" and es: "\<forall>e \<in> set es. event_ok e
      \<and> sm_generation e = g \<and> now \<le> sm_deadline e"
    using Cons.prems(4) by auto
  have e': "event_ok ?e" "event_ok (?e\<lparr>sm_order := order\<rparr>)" using e(1) by (simp_all add: event_ok_def)
  consider (full) "?limit \<le> length pending"
    | (now) "\<not> ?limit \<le> length pending" "pending = [] \<and> sm_deadline e \<le> now"
    | (wait) "\<not> ?limit \<le> length pending" "\<not> (pending = [] \<and> sm_deadline e \<le> now)"
    by blast
  then show ?case
  proof cases
    case full
    then show ?thesis
      using Cons.prems Cons.IH [OF _ Cons.prems(2,3) es] by (auto simp: Let_def split: if_splits)
  next
    case now
    let ?offer = "\<lparr>of_event = ?e, of_frame = ?frame, of_now = now, of_generation = g\<rparr>"
    let ?w2 = "ie_after env index (deliver env ?frame ?w)"
    have one: "offers_ok source lo now [?offer]"
      using now e e' Cons.prems(3) by (simp add: offers_ok_def offer_ok_def)
    obtain p1 o1 w1 os where d: "stage_events env source now qpc g (Suc index) es [] order ?w2 = (p1, o1, w1, os)"
      by (metis prod_cases4)
    obtain hi where "hi \<le> now" "offers_ok source now hi os" "pending_ok hi g p1"
      using Cons.IH [OF d _ _ es, of now] by auto
    then have rest: "offers_ok source lo hi (?offer # os)" using offers_ok_append [OF one] by simp
    show ?thesis
    proof (cases "sm_generation e = current_generation ?w2")
      case True
      then have "pending' = p1" "offers = ?offer # os"
        using Cons.prems(1) now d by (simp_all add: Let_def)
      then show ?thesis using rest \<open>hi \<le> now\<close> \<open>pending_ok hi g p1\<close> by blast
    next
      case False
      then have "pending' = []" "offers = [?offer]"
        using Cons.prems(1) now by (simp_all add: Let_def)
      then show ?thesis using one by auto
    qed
  next
    case wait
    let ?pending = "heap_push (?e\<lparr>sm_order := order\<rparr>) pending"
    have "length pending < PENDING_CAPACITY" using wait(1) by (auto split: if_splits)
    then have "pending_ok lo g ?pending"
      using heap_push_ok [OF Cons.prems(2) _ e'(2)] e Cons.prems(3) by simp
    moreover have "stage_events env source now qpc g (Suc index) es ?pending (order + 1) ?w
        = (pending', order', w', offers)"
      using Cons.prems(1) wait by (simp add: Let_def)
    ultimately show ?thesis using Cons.IH Cons.prems(3) es by blast
  qed
qed

section \<open>A pass, and a run\<close>

lemma sync_receiver_ok: "receiver_ok lo st \<Longrightarrow> receiver_ok lo (sync_generation st w)"
  by (auto simp: sync_generation_def)

lemma osc_drain_facts:
  assumes "osc_drain env source now st w = (st', w', offers)" "receiver_ok lo st" "lo \<le> now"
  shows "\<exists>hi. hi \<le> now \<and> offers_ok source lo hi offers \<and> receiver_ok hi st'"
  using assms drain_due_facts by (fastforce simp: osc_drain_def split: prod.splits)

lemma decoded_events_ok:
  assumes "osc_decode env bytes = (r, out)" "e \<in> set out"
  shows "event_ok e" "sm_generation e = oe_generation env" "oe_now env \<le> sm_deadline e"
proof -
  have "appends env (oe_now env) [] (snd (osc_packet env (oe_now env) None 0 bytes []))"
    by (rule osc_packet_appends(1)) simp_all
  then have "scheduled_ok env (oe_now env) e"
    using assms by (auto simp: osc_decode_def appends_def split: prod.splits sum.splits)
  then show "event_ok e" "sm_generation e = oe_generation env" "oe_now env \<le> sm_deadline e"
    by (simp_all add: scheduled_ok_def event_ok_def)
qed

lemma osc_datagram_facts:
  assumes "osc_datagram env source wall now qpc bytes st w = (st', w', offers)"
    and "receiver_ok lo st" "lo \<le> now"
  shows "\<exists>hi. hi \<le> now \<and> offers_ok source lo hi offers \<and> receiver_ok hi st'"
proof -
  let ?st = "sync_generation (st\<lparr>or_errors := 0\<rparr>) w"
  let ?env = "\<lparr>oe_wall = wall, oe_now = now, oe_generation = or_generation ?st, oe_qpc = (\<lambda>_. qpc)\<rparr>"
  have st: "receiver_ok lo ?st" using sync_receiver_ok [of lo "st\<lparr>or_errors := 0\<rparr>"] assms(2) by simp
  obtain r out where d: "osc_decode ?env bytes = (r, out)" by fastforce
  show ?thesis
  proof (cases r)
    case (Inl e)
    then have "st' = ?st" "offers = []"
      using assms(1) d by (simp_all add: osc_datagram_def Let_def)
    then show ?thesis using st assms(3) by (intro exI [of _ lo]) simp
  next
    case (Inr u)
    obtain p o1 w1 os where s: "stage_events env source now qpc (or_generation ?st) 0 out
        (or_pending ?st) (or_order ?st) w = (p, o1, w1, os)"
      by (metis prod_cases4)
    have "st' = ?st\<lparr>or_pending := p, or_order := o1\<rparr>" "offers = os"
      using assms(1) d Inr s by (simp_all add: osc_datagram_def Let_def)
    moreover have "\<exists>hi. hi \<le> now \<and> offers_ok source lo hi os \<and> pending_ok hi (or_generation ?st) p"
      using stage_events_facts [OF s st assms(3)] decoded_events_ok [OF d] by simp
    ultimately show ?thesis by simp
  qed
qed

text \<open>The instants a pass reads, in order.\<close>

fun pass_times :: "nat \<times> osc_select \<Rightarrow> nat list" where
  "pass_times (now, DeadlineReached now2) = [now, now2]"
| "pass_times (now, Received _ now2 _ _) = [now, now2]"
| "pass_times (now, _) = [now]"

lemma osc_pass_facts:
  assumes "osc_pass env source now select st w = (continue, st', w', offers)"
    and "receiver_ok lo st" "sorted (lo # pass_times (now, select))"
  shows "\<exists>hi. hi \<le> last (pass_times (now, select)) \<and> offers_ok source lo hi offers \<and> receiver_ok hi st'"
proof -
  have lo: "lo \<le> now" using assms(3) by (cases select) auto
  obtain st1 w1 os1 where d: "osc_drain env source now (sync_generation st w) w = (st1, w1, os1)"
    by (metis prod_cases3)
  obtain mid where mid: "mid \<le> now" "offers_ok source lo mid os1" "receiver_ok mid st1"
    using osc_drain_facts [OF d sync_receiver_ok [OF assms(2)] lo] by blast
  show ?thesis
  proof (cases select)
    case Stopped
    then have "st' = st1" "offers = os1" using assms(1) d by (simp_all add: osc_pass_def)
    then show ?thesis using mid Stopped by auto
  next
    case ReceiveFailed
    then have "or_pending st' = or_pending st1" "or_generation st' = or_generation st1" "offers = os1"
      using assms(1) d by (auto simp: osc_pass_def Let_def split: if_splits)
    then show ?thesis using mid ReceiveFailed by auto
  next
    case (DeadlineReached now2)
    obtain st2 w2 os2 where d2: "osc_drain env source now2 st1 w1 = (st2, w2, os2)" by (metis prod_cases3)
    have "mid \<le> now2" using mid(1) assms(3) DeadlineReached by simp
    from osc_drain_facts [OF d2 mid(3) this] obtain hi where
      "hi \<le> now2" "offers_ok source mid hi os2" "receiver_ok hi st2" by blast
    moreover have "st' = st2" "offers = os1 @ os2"
      using assms(1) d d2 DeadlineReached by (simp_all add: osc_pass_def)
    ultimately show ?thesis using offers_ok_append [OF mid(2)] DeadlineReached by auto
  next
    case (Received wall now2 qpc bytes)
    obtain st2 w2 os2 where d2: "osc_datagram env source wall now2 qpc bytes st1 w1 = (st2, w2, os2)"
      by (metis prod_cases3)
    have "mid \<le> now2" using mid(1) assms(3) Received by simp
    from osc_datagram_facts [OF d2 mid(3) this] obtain hi where
      "hi \<le> now2" "offers_ok source mid hi os2" "receiver_ok hi st2" by blast
    moreover have "st' = st2" "offers = os1 @ os2"
      using assms(1) d d2 Received by (simp_all add: osc_pass_def)
    ultimately show ?thesis using offers_ok_append [OF mid(2)] Received by auto
  qed
qed

definition run_times :: "(input_env \<times> (input_world \<Rightarrow> input_world) \<times> nat \<times> osc_select) list \<Rightarrow> nat list" where
  "run_times inputs = concat (map (\<lambda>(_, _, now, select). pass_times (now, select)) inputs)"

lemma osc_receive_facts:
  assumes "osc_receive source inputs st w = (st', w', offers)"
    and "receiver_ok lo st" "sorted (lo # run_times inputs)"
  shows "\<exists>hi. offers_ok source lo hi offers \<and> receiver_ok hi st'"
  using assms
proof (induction source inputs st w arbitrary: st' w' offers lo rule: osc_receive.induct)
  case (1 source st w)
  then show ?case by auto
next
  case (2 source env between now select inputs st w)
  obtain continue st1 w1 os1 where p: "osc_pass env source now select st (between w) = (continue, st1, w1, os1)"
    by (metis prod_cases4)
  have times: "sorted (lo # pass_times (now, select))" "sorted (run_times inputs)"
      "\<forall>t \<in> set (run_times inputs). last (pass_times (now, select)) \<le> t"
    using "2.prems"(3) by (cases select; auto simp: run_times_def sorted_append)+
  obtain mid where mid: "mid \<le> last (pass_times (now, select))" "offers_ok source lo mid os1" "receiver_ok mid st1"
    using osc_pass_facts [OF p "2.prems"(2) times(1)] by blast
  show ?case
  proof (cases continue)
    case False
    then show ?thesis using "2.prems"(1) p mid by auto
  next
    case True
    obtain st2 w2 os2 where r: "osc_receive source inputs st1 w1 = (st2, w2, os2)" by (metis prod_cases3)
    have "sorted (mid # run_times inputs)" using times mid(1) by auto
    from "2.IH" [OF p [symmetric] refl refl True r mid(3) this] obtain hi where
      "offers_ok source mid hi os2" "receiver_ok hi st2" by blast
    moreover have "st' = st2" "offers = os1 @ os2" using "2.prems"(1) p r True by simp_all
    ultimately show ?thesis using offers_ok_append [OF mid(2)] by blast
  qed
qed

text \<open>
  C5: OSC input is delivered in time and in order. Whatever datagrams, errors, interruptions and
  resets of other threads a run of the receiver sees, if its clock does not run backwards the
  messages it offers to the pipeline are in order of their deadlines, none before its deadline, each
  a valid message carrying the reset generation read at its admission; and at most 4096 messages
  wait, all of the receiver's generation and none due before one already delivered.
\<close>

theorem osc_input_in_order:
  assumes "osc_receive source inputs (osc_start w0) w0 = (st, w, offers)"
    and "sorted (run_times inputs)"
  shows "sorted (map (\<lambda>o1. sm_deadline (of_event o1)) offers)
    \<and> (\<forall>o1 \<in> set offers. sm_deadline (of_event o1) \<le> of_now o1
         \<and> normalize_message (frame_data (of_frame o1)) = (True, frame_data (of_frame o1))
         \<and> frame_generation (of_frame o1) = of_generation o1 \<and> frame_source (of_frame o1) = source)
    \<and> length (or_pending st) \<le> 4096
    \<and> (\<forall>e \<in> set (or_pending st). sm_generation e = or_generation st
         \<and> (\<forall>o1 \<in> set offers. sm_deadline (of_event o1) \<le> sm_deadline e))"
proof -
  have "receiver_ok 0 (osc_start w0)" by (simp add: osc_start_def)
  moreover have "sorted (0 # run_times inputs)" using assms(2) by simp
  ultimately obtain hi where hi: "offers_ok source 0 hi offers" "receiver_ok hi st"
    using osc_receive_facts [OF assms(1)] by blast
  have "frame_generation (of_frame o1) = of_generation o1 \<and> frame_source (of_frame o1) = source
      \<and> normalize_message (frame_data (of_frame o1)) = (True, frame_data (of_frame o1))"
    if "offer_ok source o1" for o1
    using that by (auto simp: offer_ok_def event_frame_def event_ok_def)
  then show ?thesis
    using hi by (fastforce simp: offers_ok_def pending_ok_def PENDING_CAPACITY_def offer_ok_def)
qed

lemma drain_due_empty: "drain_due env source now k [] w = ([], w, [])"
  by (cases k) simp_all

definition quiet_env :: input_env where
  "quiet_env = \<lparr>ie_before = (\<lambda>_ w. w), ie_after = (\<lambda>_ w. w), ie_others = (\<lambda>q. q),
     ie_queue_qpc = 0, ie_pool = None\<rparr>"

definition sample_world :: input_world where
  "sample_world = \<lparr>iw_pipeline = \<lparr>pl_in = 0, pl_out = 0, pl_filtered = 0, pl_queue_depth = 0,
       pl_queue_max_depth = 0, pl_dropped = 0, pl_debug_sample_last_ms = 0, pl_reset_requested = False,
       pl_reset_generation = 4\<rparr>,
     iw_queue = bounded ''midi'' 16, iw_invalid = 0, iw_overflows = 0, iw_socket_errors = 0\<rparr>"

lemma stage_one_event:
  assumes "sm_deadline e \<le> now"
  shows "\<exists>pending order' w' o1. stage_events env source now qpc g 0 [e] [] order w = (pending, order', w', [o1])
    \<and> of_frame o1 = event_frame source (e\<lparr>sm_ingress_qpc := qpc\<rparr>)"
  using assms by (simp add: Let_def PENDING_CAPACITY_def reserve_def)

theorem osc_input_in_order_witness:
  "\<exists>st w o1. osc_receive ''OSC'' [(quiet_env, (\<lambda>w. w), 3,
        Received 0 5 9 (switch_packet osc_wire (Some 40) True))] (osc_start sample_world) sample_world
      = (st, w, [o1])
     \<and> frame_data (of_frame o1) = [0x90, 60, 127]
     \<and> normalize_message (frame_data (of_frame o1)) = (True, frame_data (of_frame o1))"
proof -
  let ?w = "sample_world" and ?st = "osc_start sample_world"
  let ?input = "(quiet_env, (\<lambda>w. w), 3 :: nat, Received 0 5 9 (switch_packet osc_wire (Some 40) True))"
  let ?env = "\<lparr>oe_wall = 0, oe_now = 5, oe_generation = or_generation ?st, oe_qpc = (\<lambda>_. 9)\<rparr>"
  let ?e = "switch_event ?env 5 (Some 40) True 0"
  have dec: "osc_decode ?env (switch_packet osc_wire (Some 40) True) = (Inr (), [?e])"
    using switch_packet_decoded [of "Some 40" 0 "[]" ?env 5] by (simp add: osc_switches_def osc_decode_def)
  have start: "sync_generation ?st ?w = ?st" "or_pending ?st = []" "?st\<lparr>or_pending := []\<rparr> = ?st"
      "?st\<lparr>or_pending := [], or_errors := 0\<rparr> = ?st"
    by (simp_all add: sync_generation_def osc_start_def)
  have due: "sm_deadline ?e \<le> 5" by (simp add: switch_event_def)
  obtain p o1 w1 off where s: "stage_events quiet_env ''OSC'' 5 9 (or_generation ?st) 0 [?e] [] (or_order ?st) ?w
      = (p, o1, w1, [off])" "of_frame off = event_frame ''OSC'' (?e\<lparr>sm_ingress_qpc := 9\<rparr>)"
    using stage_one_event [OF due] by blast
  have run: "osc_receive ''OSC'' [?input] ?st ?w = (?st\<lparr>or_pending := p, or_order := o1\<rparr>, w1, [off])"
    using dec start s(1)
    by (simp add: osc_pass_def osc_drain_def drain_due_empty osc_datagram_def Let_def del: stage_events.simps)
  have "sorted (run_times [?input])" by (simp add: run_times_def)
  from osc_input_in_order [OF run this] have
    "normalize_message (frame_data (of_frame off)) = (True, frame_data (of_frame off))" by simp
  moreover have "frame_data (of_frame off) = [0x90, 60, 127]"
    by (simp add: s(2) event_frame_def switch_event_def switch_message_def NOTE_MIN_def)
  ultimately show ?thesis using run by blast
qed

end
