(* ===== verification/Frame_Handler.thy ===== *)
theory Frame_Handler
  imports Osc_Output
begin

text \<open>
  What happens to one frame (\<open>handle_midi_frame\<close> in \<open>bridge/pipeline.rs\<close>): the audio engine, the
  RTP output (\<open>rtp/rtp_output.rs\<close>), the MIDI output, the UI events and the OSC switches; with the
  activity statistics of \<open>bridge/activity.rs\<close>. The audio engine, the MIDI connection and the socket
  are parameters with a state of their own. Log messages are left out.
\<close>

section \<open>Activity statistics\<close>

record activity_state =
  as_messages :: u32
  as_last_note :: "u8 option"
  as_last_channel :: "u8 option"
  as_last_seen_ms :: "u64 option"

definition default_activity :: activity_state where
  "default_activity = \<lparr>as_messages = 0, as_last_note = None, as_last_channel = None, as_last_seen_ms = None\<rparr>"

type_synonym activity_tracker = "(string, activity_state) hash_map"

record midi_activity_info =
  ai_source :: string
  ai_messages_per_sec :: u32
  ai_last_note :: "u8 option"
  ai_last_channel :: "u8 option"
  ai_last_seen_ms :: "u64 option"

definition activity_record :: "bytes \<Rightarrow> u64 \<Rightarrow> activity_state \<Rightarrow> activity_state" where
  "activity_record data timestamp_ms s =
     (let s = s\<lparr>as_messages := saturating_add (as_messages s) 1, as_last_seen_ms := Some timestamp_ms\<rparr>
      in case parse_note data of
           None \<Rightarrow> s
         | Some n \<Rightarrow> s\<lparr>as_last_note := Some (mn_note n), as_last_channel := Some (mn_channel n)\<rparr>)"

definition tracker_record :: "u64 \<Rightarrow> string \<Rightarrow> bytes \<Rightarrow> activity_tracker \<Rightarrow> activity_tracker" where
  "tracker_record timestamp_ms source data stats =
     (case map_of stats source of
        Some entry \<Rightarrow> AList.update source (activity_record data timestamp_ms entry) stats
      | None \<Rightarrow> AList.update source (activity_record data timestamp_ms default_activity) stats)"

definition activity_info :: "string \<Rightarrow> activity_state \<Rightarrow> midi_activity_info" where
  "activity_info source s =
     \<lparr>ai_source = source, ai_messages_per_sec = as_messages s, ai_last_note = as_last_note s,
      ai_last_channel = as_last_channel s, ai_last_seen_ms = as_last_seen_ms s\<rparr>"

text \<open>A source silent for five minutes is reported once more and forgotten.\<close>

definition snapshot_and_reset :: "u64 \<Rightarrow> activity_tracker \<Rightarrow> midi_activity_info list \<times> activity_tracker" where
  "snapshot_and_reset now stats =
     (map (\<lambda>(source, s). activity_info source s) stats,
      filter (\<lambda>(source, s). case as_last_seen_ms s of
          Some seen \<Rightarrow> saturating_sub now seen < 300000 | None \<Rightarrow> True)
        (map (\<lambda>(source, s). (source, s\<lparr>as_messages := 0\<rparr>)) stats))"

text \<open>\<open>locked\<close> says that the lock was free; otherwise the frame is not counted.\<close>

definition record_activity :: "bool \<Rightarrow> u64 \<Rightarrow> midi_frame \<Rightarrow> activity_tracker \<Rightarrow> activity_tracker" where
  "record_activity locked now frame stats =
     (if locked then tracker_record now (frame_source frame) (frame_data frame) stats else stats)"

text \<open>Milliseconds since 1970; a clock before that counts as 0. \<open>wall_ns\<close> is the system time.\<close>

definition now_ms :: "int \<Rightarrow> u64" where
  "now_ms wall_ns = (if wall_ns < 0 then 0 else word_of_int (wall_ns div 1000000))"

section \<open>The RTP output\<close>

record outgoing_frame =
  og_frame :: midi_frame
  og_generation :: u64
  og_route_generation :: u64

definition outgoing_critical :: "outgoing_frame \<Rightarrow> bool" where
  "outgoing_critical f = is_critical_release_message (frame_data (og_frame f))"

text \<open>The route: whether THRU is enabled, the queue of the session if there is one, and the drops counted.\<close>

record rtp_route =
  rr_enabled :: bool
  rr_sender :: "outgoing_frame async_queue option"
  rr_drops :: u64

definition default_rtp_route :: rtp_route where
  "default_rtp_route = \<lparr>rr_enabled = True, rr_sender = None, rr_drops = 0\<rparr>"

definition reset_sender :: "outgoing_frame async_queue \<Rightarrow> outgoing_frame async_queue" where
  "reset_sender q = q\<lparr>aq_recovery := request_reset (aq_recovery q)\<rparr>"

definition set_thru_enabled :: "bool \<Rightarrow> rtp_route \<Rightarrow> rtp_route" where
  "set_thru_enabled enabled rt =
     (if rr_enabled rt \<and> \<not> enabled
      then rt\<lparr>rr_sender := map_option reset_sender (rr_sender rt), rr_enabled := enabled\<rparr>
      else rt\<lparr>rr_enabled := enabled\<rparr>)"

definition set_sender :: "outgoing_frame async_queue option \<Rightarrow> rtp_route \<Rightarrow> rtp_route" where
  "set_sender sender rt = rt\<lparr>rr_sender := sender\<rparr>"

definition rtp_lost :: "midi_frame \<Rightarrow> outgoing_frame async_queue \<Rightarrow> rtp_route \<Rightarrow> rtp_route" where
  "rtp_lost frame q rt =
     rt\<lparr>rr_drops := rr_drops rt + 1,
        rr_sender := Some (if is_critical_release_message (frame_data frame) then reset_sender q else q)\<rparr>"

text \<open>\<open>pool\<close> tells whether the frame can be copied; \<open>now\<close> is the time its queue entry gets.\<close>

definition rtp_send :: "buffer_pool \<Rightarrow> u64 \<Rightarrow> midi_frame \<Rightarrow> rtp_route \<Rightarrow> rtp_route" where
  "rtp_send pool now frame rt =
     (if starts_with ''RTP:'' (frame_source frame) \<or> \<not> rr_enabled rt then rt
      else case rr_sender rt of
        None \<Rightarrow> rt
      | Some sender \<Rightarrow>
          (case clone_realtime 0 0 pool frame of
             (None, _) \<Rightarrow> rtp_lost frame sender rt
           | (Some copy, _) \<Rightarrow>
               (case async_try_send outgoing_critical now
                   \<lparr>og_frame = copy, og_generation = frame_generation copy,
                    og_route_generation = rec_generation (aq_recovery sender)\<rparr> sender of
                  (Inr _, sender') \<Rightarrow> rt\<lparr>rr_sender := Some sender'\<rparr>
                | (Inl _, sender') \<Rightarrow> rtp_lost frame sender' rt)))"

section \<open>Note events\<close>

record midi_note_event =
  ne_source :: string
  ne_note :: u8
  ne_channel :: u8
  ne_pressed :: bool
  ne_timestamp_ms :: u64

definition event_critical :: "midi_note_event \<Rightarrow> bool" where
  "event_critical e = (\<not> ne_pressed e)"

definition midi_note_event_of :: "u64 \<Rightarrow> midi_frame \<Rightarrow> midi_note_event option" where
  "midi_note_event_of now frame =
     (case parse_note (frame_data frame) of
        None \<Rightarrow> None
      | Some n \<Rightarrow> Some \<lparr>ne_source = frame_source frame, ne_note = mn_note n, ne_channel = mn_channel n,
                       ne_pressed = (mn_kind n = NoteOn), ne_timestamp_ms = now\<rparr>)"

section \<open>The handler\<close>

datatype midi_send_outcome = Sent | AudioDroppedNonCritical | CriticalFallbackReset | AudioStopped

text \<open>What the handler changes: \<open>'a\<close>, \<open>'m\<close> and \<open>'w\<close> are the states of the engine, the MIDI connection and the socket.\<close>

record ('a, 'm, 'w) handler =
  h_pipeline :: pipeline
  h_rtp :: rtp_route
  h_audio :: 'a
  h_midi_out :: "'m option"
  h_active_notes :: active_notes
  h_route :: "recovery option"
  h_osc :: osc_output_state
  h_net :: 'w
  h_osc_counter :: u32
  h_ui :: "midi_note_event midi_queue"

text \<open>
  Its arguments and surroundings: \<open>e_now_ms\<close>, \<open>e_qpc\<close> the clocks, \<open>e_debug\<close> whether debug logging is on,
  \<open>e_pool\<close> the free buffers.
\<close>

record ('a, 'm, 'd, 'w) handler_env =
  e_config :: "unit config_snapshot"
  e_osc :: "('d, 'w) osc_client option"
  e_send_audio :: "bytes \<Rightarrow> u64 \<Rightarrow> 'a \<Rightarrow> midi_send_outcome \<times> 'a"
  e_send_midi :: "bytes \<Rightarrow> 'm \<Rightarrow> (string + unit) \<times> 'm"
  e_now_ms :: u64
  e_qpc :: u64
  e_debug :: bool
  e_pool :: buffer_pool
  e_deliver_audio :: bool
  e_deliver_midi_thru :: bool
  e_deliver_osc_ui :: bool

text \<open>A reset of the route, when the caller has one, else of everything.\<close>

definition reset_route :: "('a, 'm, 'w) handler \<Rightarrow> ('a, 'm, 'w) handler" where
  "reset_route h =
     (case h_route h of
        Some recovery \<Rightarrow> h\<lparr>h_route := Some (request_reset recovery)\<rparr>
      | None \<Rightarrow> h\<lparr>h_pipeline := request_critical_midi_reset (h_pipeline h)\<rparr>)"

definition count_in :: "pipeline \<Rightarrow> pipeline" where
  "count_in p = p\<lparr>pl_in := pl_in p + 1\<rparr>"

definition count_filtered :: "pipeline \<Rightarrow> pipeline" where
  "count_filtered p = p\<lparr>pl_filtered := pl_filtered p + 1\<rparr>"

definition count_out :: "pipeline \<Rightarrow> pipeline" where
  "count_out p = p\<lparr>pl_out := pl_out p + 1\<rparr>"

definition debug_sample ::
  "('a, 'm, 'd, 'w) handler_env \<Rightarrow> midi_frame \<Rightarrow> pipeline \<Rightarrow> pipeline" where
  "debug_sample env frame p =
     (if cs_verbose (e_config env) \<and> \<not> starts_with ''StressTest'' (frame_source frame) \<and> e_debug env
      then snd (should_sample_midi_debug (e_now_ms env) p) else p)"

definition audio_stage ::
  "('a, 'm, 'd, 'w) handler_env \<Rightarrow> midi_frame \<Rightarrow> ('a, 'm, 'w) handler \<Rightarrow> ('a, 'm, 'w) handler" where
  "audio_stage env frame h =
     (case frame_data frame of
        [] \<Rightarrow> h
      | status # _ \<Rightarrow>
          if 0x80 \<le> status \<and> status < 0xF0 then
            (case e_send_audio env (frame_data frame) (frame_ingress_qpc frame) (h_audio h) of
               (outcome, audio) \<Rightarrow>
                 h\<lparr>h_audio := audio,
                   h_pipeline := (case outcome of
                       Sent \<Rightarrow> count_out (h_pipeline h)
                     | AudioStopped \<Rightarrow> count_filtered (h_pipeline h)
                     | _ \<Rightarrow> count_dropped (h_pipeline h))\<rparr>)
          else if status < 0xF8 then h\<lparr>h_pipeline := count_filtered (h_pipeline h)\<rparr>
          else h)"

definition thru_stage ::
  "('a, 'm, 'd, 'w) handler_env \<Rightarrow> midi_frame \<Rightarrow> ('a, 'm, 'w) handler \<Rightarrow> ('a, 'm, 'w) handler" where
  "thru_stage env frame h =
     (case h_midi_out h of
        None \<Rightarrow> h
      | Some out \<Rightarrow>
          (case e_send_midi env (frame_data frame) out of
             (Inl _, _) \<Rightarrow> reset_route (h\<lparr>h_midi_out := None\<rparr>)
           | (Inr _, out') \<Rightarrow>
               h\<lparr>h_midi_out := Some out',
                 h_active_notes := active_observe (h_active_notes h) (frame_data frame)\<rparr>))"

text \<open>The closure given to \<open>flush\<close>, over the whole state.\<close>

definition osc_switch ::
  "('d, 'w) osc_client \<Rightarrow> u8 option \<Rightarrow> bool \<Rightarrow> ('a, 'm, 'w) handler
     \<Rightarrow> (string + unit) \<times> ('a, 'm, 'w) handler" where
  "osc_switch client i pressed h =
     (case client_switch client i pressed (h_net h) of
        (Inl e, net) \<Rightarrow>
          (Inl e, if pressed then h\<lparr>h_net := net\<rparr> else reset_route (h\<lparr>h_net := net\<rparr>))
      | (Inr _, net) \<Rightarrow> (Inr (), h\<lparr>h_net := net, h_osc_counter := h_osc_counter h + 1\<rparr>))"

definition osc_stage ::
  "('a, 'm, 'd, 'w) handler_env \<Rightarrow> midi_frame \<Rightarrow> ('a, 'm, 'w) handler \<Rightarrow> ('a, 'm, 'w) handler" where
  "osc_stage env frame h =
     (let h = (case midi_note_event_of (e_now_ms env) frame of
                 None \<Rightarrow> h
               | Some event \<Rightarrow> h\<lparr>h_ui := snd (try_send event_critical (e_qpc env) event (h_ui h))\<rparr>)
      in if \<not> cs_osc_enabled (e_config env) \<or> starts_with ''OSC:'' (frame_source frame) then h
         else
           let st = osc_observe (h_osc h) frame
           in case e_osc env of
                None \<Rightarrow> h\<lparr>h_osc := st\<rparr>
              | Some client \<Rightarrow>
                  (case osc_flush (osc_switch client) st h of
                     (_, st', h') \<Rightarrow> h'\<lparr>h_osc := st'\<rparr>))"

definition handle_midi_frame ::
  "('a, 'm, 'd, 'w) handler_env \<Rightarrow> midi_frame \<Rightarrow> ('a, 'm, 'w) handler \<Rightarrow> ('a, 'm, 'w) handler" where
  "handle_midi_frame env frame h =
     (let audio = e_deliver_audio env;
          h = (if audio then h\<lparr>h_pipeline := count_in (h_pipeline h)\<rparr> else h)
      in if \<not> accepts_channel (cs_channel_filter (e_config env)) (frame_data frame) then
           (if audio then h\<lparr>h_pipeline := count_filtered (h_pipeline h)\<rparr> else h)
         else if audio \<and> frame_data frame = [0xFF] then reset_route h
         else
           let h = h\<lparr>h_pipeline := debug_sample env frame (h_pipeline h)\<rparr>;
               h = (if audio \<and> cs_rtp_thru (e_config env) \<and> cs_rtp_output (e_config env) \<noteq> None
                    then h\<lparr>h_rtp := rtp_send (e_pool env) (e_qpc env) frame (h_rtp h)\<rparr> else h);
               h = (if audio then audio_stage env frame h else h);
               h = (if e_deliver_midi_thru env \<and> cs_midi_thru (e_config env)
                    then thru_stage env frame h else h)
           in if e_deliver_osc_ui env then osc_stage env frame h else h)"

end
