(* ===== verification/Processing.thy ===== *)
theory Processing
  imports Frame_Handler
begin

text \<open>
  The routing thread (\<open>bridge/processing.rs\<close>): the loop that takes frames from the input queue,
  releases what a lost peer holds, hands each frame to the audio engine and the RTP output, and
  fans it out to the workers for the MIDI output and for OSC.
\<close>

section \<open>State\<close>

record fanout_frame =
  ff_frame :: midi_frame
  ff_generation :: u64
  ff_route_generation :: u64

definition fanout_critical :: "fanout_frame \<Rightarrow> bool" where
  "fanout_critical f = is_critical_release_message (frame_data (ff_frame f))"

definition PROCESSING_BATCH_LIMIT :: nat where "PROCESSING_BATCH_LIMIT = 256"

text \<open>What the thread shares with others, and the handler's state.\<close>

record ('a, 'm, 'w) bridge =
  br_handler :: "('a, 'm, 'w) handler"
  br_input :: "midi_frame midi_queue"
  br_thru :: "fanout_frame midi_queue"
  br_osc :: "fanout_frame midi_queue"
  br_stop :: bool
  br_config :: app_config
  br_config_rev :: u64
  br_panic_revision :: u64
  br_activity :: activity_tracker

text \<open>What it keeps for itself.\<close>

record routing =
  ro_generation :: u64
  ro_pending :: "midi_frame option"
  ro_sources :: source_midi_state
  ro_scoped :: "midi_frame list"
  ro_snapshot :: "unit config_snapshot"
  ro_cached_rev :: u64

text \<open>
  The surroundings of one pass of the loop: \<open>pe_moves\<close> is what other threads do to the shared state
  at each point where the thread looks at it again; \<open>pe_disconnected\<close> says that an empty input queue
  has no senders left; then the clocks, the free buffers, whether the activity lock is free, what
  failed exchanges of the depth maximum report, the handler's surroundings and the engine's reset.
\<close>

record ('a, 'm, 'd, 'w) pass_env =
  pe_moves :: "nat \<Rightarrow> ('a, 'm, 'w) bridge \<Rightarrow> ('a, 'm, 'w) bridge"
  pe_disconnected :: bool
  pe_frequency :: u64
  pe_now :: u64
  pe_pool :: buffer_pool
  pe_activity_locked :: bool
  pe_depths :: "u64 list"
  pe_handler :: "('a, 'm, 'd, 'w) handler_env"
  pe_audio_reset :: "'a \<Rightarrow> 'a"

abbreviation br_pipeline :: "('a, 'm, 'w) bridge \<Rightarrow> pipeline" where
  "br_pipeline b \<equiv> h_pipeline (br_handler b)"

definition set_pipeline :: "pipeline \<Rightarrow> ('a, 'm, 'w) bridge \<Rightarrow> ('a, 'm, 'w) bridge" where
  "set_pipeline p b = b\<lparr>br_handler := (br_handler b)\<lparr>h_pipeline := p\<rparr>\<rparr>"

definition bridge_generation :: "('a, 'm, 'w) bridge \<Rightarrow> u64" where
  "bridge_generation b = midi_reset_generation (br_pipeline b)"

section \<open>Fan-out\<close>

text \<open>The queue and the pipeline after the call.\<close>

definition send_fanout ::
  "u64 \<Rightarrow> midi_frame \<Rightarrow> u64 \<Rightarrow> bool \<Rightarrow> fanout_frame midi_queue \<Rightarrow> pipeline
     \<Rightarrow> fanout_frame midi_queue \<times> pipeline" where
  "send_fanout now frame generation carries_output tx p =
     (case try_send fanout_critical now
         \<lparr>ff_frame = frame, ff_generation = generation,
          ff_route_generation = rec_generation (q_recovery tx)\<rparr> tx of
        (Inr _, tx') \<Rightarrow> (tx', p)
      | (Inl error, tx') \<Rightarrow>
          let lost = (case error of Full v \<Rightarrow> v | Disconnected v \<Rightarrow> v)
          in (if carries_output \<and> is_critical_release_message (frame_data (ff_frame lost))
              then tx'\<lparr>q_recovery := request_reset (q_recovery tx')\<rparr> else tx',
              count_dropped p))"

definition fanout_thru :: "u64 \<Rightarrow> midi_frame \<Rightarrow> u64 \<Rightarrow> ('a, 'm, 'w) bridge \<Rightarrow> ('a, 'm, 'w) bridge" where
  "fanout_thru now frame generation b =
     (case send_fanout now frame generation True (br_thru b) (br_pipeline b) of
        (tx, p) \<Rightarrow> set_pipeline p (b\<lparr>br_thru := tx\<rparr>))"

definition fanout_osc ::
  "u64 \<Rightarrow> midi_frame \<Rightarrow> u64 \<Rightarrow> bool \<Rightarrow> ('a, 'm, 'w) bridge \<Rightarrow> ('a, 'm, 'w) bridge" where
  "fanout_osc now frame generation carries_output b =
     (case send_fanout now frame generation carries_output (br_osc b) (br_pipeline b) of
        (tx, p) \<Rightarrow> set_pipeline p (b\<lparr>br_osc := tx\<rparr>))"

section \<open>One frame\<close>

text \<open>The first answer of \<open>route_frame\<close> is false where the code continues with the next pass or message.\<close>

text \<open>A release of what a lost peer holds: inline, of the generation of the frame that reported the loss.\<close>

definition scoped_release :: "u64 \<Rightarrow> midi_frame \<Rightarrow> bytes \<Rightarrow> midi_frame" where
  "scoped_release now frame bytes =
     \<lparr>frame_generation = frame_generation frame, frame_ingress_qpc = now, frame_data = bytes,
      frame_capacity = INLINE_MIDI_BYTES, frame_source = frame_source frame\<rparr>"

definition peer_lost :: "midi_frame \<Rightarrow> bool" where
  "peer_lost frame \<longleftrightarrow> starts_with ''RTP:'' (frame_source frame) \<and> frame_data frame = [0xFF]"

definition route_frame ::
  "('a, 'm, 'd, 'w) pass_env \<Rightarrow> midi_frame \<Rightarrow> routing \<Rightarrow> ('a, 'm, 'w) bridge
     \<Rightarrow> bool \<times> routing \<times> ('a, 'm, 'w) bridge" where
  "route_frame env frame st b =
     (let osc_enabled = cs_osc_enabled (ro_snapshot st); generation = ro_generation st; now = pe_now env in
      if peer_lost frame then
        (case release_source (ro_sources st) (frame_source frame) of
           (releases, sources) \<Rightarrow>
             (False, st\<lparr>ro_sources := sources,
                ro_scoped := ro_scoped st @ map (scoped_release now frame) releases\<rparr>,
              fanout_osc now frame generation osc_enabled b))
      else
        let st = st\<lparr>ro_sources := source_observe (ro_sources st) frame\<rparr>;
            b = b\<lparr>br_activity := record_activity (pe_activity_locked env) (e_now_ms (pe_handler env))
                    frame (br_activity b)\<rparr>
        in case clone_realtime 0 0 (pe_pool env) frame of (midi_thru_frame, pool) \<Rightarrow>
           case clone_realtime 0 0 pool frame of (osc_frame, _) \<Rightarrow>
           (case (midi_thru_frame, osc_frame) of
              (Some midi_thru_frame, Some osc_frame) \<Rightarrow>
                (let b = b\<lparr>br_handler := handle_midi_frame
                       ((pe_handler env)\<lparr>e_config := ro_snapshot st, e_osc := None, e_deliver_audio := True,
                          e_deliver_midi_thru := False, e_deliver_osc_ui := False\<rparr>) frame (br_handler b)\<rparr>;
                     b = (if cs_midi_thru (ro_snapshot st)
                          then fanout_thru now midi_thru_frame generation b else b)
                 in (True, st, fanout_osc now osc_frame generation osc_enabled b))
            | _ \<Rightarrow> (False, st, set_pipeline (request_critical_midi_reset (count_dropped (br_pipeline b))) b)))"

section \<open>The loop\<close>

text \<open>
  For the statements: what became of a frame the loop took, with the generation read for it, and
  whether it came from the input queue.
\<close>

datatype fate = Routed | Stale | Abandoned

record verdict =
  vd_frame :: midi_frame
  vd_fate :: fate
  vd_generation :: u64
  vd_from_input :: bool

definition update_depth :: "('a, 'm, 'd, 'w) pass_env \<Rightarrow> ('a, 'm, 'w) bridge \<Rightarrow> ('a, 'm, 'w) bridge" where
  "update_depth env b =
     set_pipeline (update_pipeline_queue_depth (length (q_entries (br_input b))) (pe_depths env) (br_pipeline b)) b"

text \<open>The next frame: a scoped release, else one from the input queue (which the second answer then tells).\<close>

definition next_frame ::
  "('a, 'm, 'd, 'w) pass_env \<Rightarrow> routing \<Rightarrow> ('a, 'm, 'w) bridge
     \<Rightarrow> (midi_frame \<times> bool) option \<times> routing \<times> ('a, 'm, 'w) bridge" where
  "next_frame env st b =
     (case ro_scoped st of
        frame # rest \<Rightarrow> (Some (frame, False), st\<lparr>ro_scoped := rest\<rparr>, b)
      | [] \<Rightarrow>
          (case try_recv (pe_frequency env) (pe_now env) (br_input b) of
             (None, q) \<Rightarrow> (None, st, b\<lparr>br_input := q\<rparr>)
           | (Some frame, q) \<Rightarrow> (Some (frame, True), st, b\<lparr>br_input := q\<rparr>)))"

text \<open>
  The rest of a batch, at most \<open>k\<close> more frames. The results are the state, the frames taken from the
  input queue, and the verdicts.
\<close>

fun drain_batch ::
  "('a, 'm, 'd, 'w) pass_env \<Rightarrow> nat \<Rightarrow> routing \<Rightarrow> ('a, 'm, 'w) bridge
     \<Rightarrow> routing \<times> ('a, 'm, 'w) bridge \<times> midi_frame list \<times> verdict list" where
  "drain_batch env 0 st b = (st, b, [], [])"
| "drain_batch env (Suc k) st b =
     (let b = pe_moves env (2 * k) b in
      if br_stop b \<or> bridge_generation b \<noteq> ro_generation st then (st, b, [], [])
      else
        (case next_frame env st b of
           (None, st, b) \<Rightarrow> (st, b, [], [])
         | (Some (frame, input), st, b) \<Rightarrow>
             (let b = pe_moves env (2 * k + 1) b;
                  taken = (if input then [frame] else []);
                  current = bridge_generation b
              in case generation_action (frame_generation frame, 0) (ro_generation st, 0) (current, 0) of
                   Discard \<Rightarrow>
                     (case drain_batch env k st b of
                        (st', b', inputs, verdicts) \<Rightarrow>
                          (st', b', taken @ inputs,
                           \<lparr>vd_frame = frame, vd_fate = Stale, vd_generation = current,
                            vd_from_input = input\<rparr> # verdicts))
                 | Defer \<Rightarrow> (st\<lparr>ro_pending := Some frame\<rparr>, b, taken, [])
                 | Ready \<Rightarrow>
                     (case route_frame env frame st (update_depth env b) of
                        (_, st1, b1) \<Rightarrow>
                          (case drain_batch env k st1 b1 of
                             (st', b', inputs, verdicts) \<Rightarrow>
                               (st', b', taken @ inputs,
                                \<lparr>vd_frame = frame, vd_fate = Routed, vd_generation = current,
                                 vd_from_input = input\<rparr> # verdicts))))))"

text \<open>The beginning of a pass: a changed generation resets everything, a changed configuration is read.\<close>

definition begin_pass ::
  "('a, 'm, 'd, 'w) pass_env \<Rightarrow> routing \<Rightarrow> ('a, 'm, 'w) bridge \<Rightarrow> routing \<times> ('a, 'm, 'w) bridge" where
  "begin_pass env st b =
     (let observed = bridge_generation b;
          b = set_pipeline (snd (take_critical_midi_reset_request (br_pipeline b))) b;
          (st, b) =
            (if ro_generation st \<noteq> observed then
               (st\<lparr>ro_generation := observed, ro_sources := [], ro_scoped := []\<rparr>,
                b\<lparr>br_handler := (br_handler b)\<lparr>h_audio := pe_audio_reset env (h_audio (br_handler b))\<rparr>,
                  br_panic_revision := br_panic_revision b + 1\<rparr>)
             else (st, b));
          st = (if br_config_rev b \<noteq> ro_cached_rev st then
                  st\<lparr>ro_snapshot := (snapshot_of (br_config b))\<lparr>cs_rtp_output := Some ()\<rparr>,
                     ro_cached_rev := br_config_rev b\<rparr>
                else st)
      in (st, update_depth env b))"

text \<open>The first frame of a pass: a scoped release, else the deferred frame, else one from the queue.\<close>

definition first_frame ::
  "('a, 'm, 'd, 'w) pass_env \<Rightarrow> routing \<Rightarrow> ('a, 'm, 'w) bridge
     \<Rightarrow> (midi_frame \<times> bool \<times> bool) option \<times> routing \<times> ('a, 'm, 'w) bridge" where
  "first_frame env st b =
     (case (ro_scoped st, ro_pending st) of
        ([], Some frame) \<Rightarrow> (Some (frame, True, False), st\<lparr>ro_pending := None\<rparr>, b)
      | _ \<Rightarrow>
          (case next_frame env st b of
             (None, st, b) \<Rightarrow> (None, st, b)
           | (Some (frame, input), st, b) \<Rightarrow> (Some (frame, input, input), st, b)))"

text \<open>A pass of the loop; the first answer says whether the loop goes on.\<close>

definition processing_pass ::
  "('a, 'm, 'd, 'w) pass_env \<Rightarrow> routing \<Rightarrow> ('a, 'm, 'w) bridge
     \<Rightarrow> bool \<times> routing \<times> ('a, 'm, 'w) bridge \<times> midi_frame list \<times> verdict list" where
  "processing_pass env st b =
     (if br_stop b then (False, st, b, [], [])
      else case begin_pass env st b of (st, b) \<Rightarrow>
        (case first_frame env st b of
           (None, st, b) \<Rightarrow> (\<not> pe_disconnected env, st, b, [], [])
         | (Some (frame, input, received), st, b) \<Rightarrow>
             (let b = pe_moves env (2 * PROCESSING_BATCH_LIMIT) b;
                  taken = (if received then [frame] else []);
                  current = bridge_generation b
              in if br_stop b then
                   (False, st, b, taken, [\<lparr>vd_frame = frame, vd_fate = Abandoned, vd_generation = current,
                      vd_from_input = input\<rparr>])
                 else case generation_action (frame_generation frame, 0) (ro_generation st, 0) (current, 0) of
                   Discard \<Rightarrow>
                     (True, st, b, taken, [\<lparr>vd_frame = frame, vd_fate = Stale, vd_generation = current,
                        vd_from_input = input\<rparr>])
                 | Defer \<Rightarrow> (True, st\<lparr>ro_pending := Some frame\<rparr>, b, taken, [])
                 | Ready \<Rightarrow>
                     (let verdict = \<lparr>vd_frame = frame, vd_fate = Routed, vd_generation = current,
                                vd_from_input = input\<rparr>
                      in case route_frame env frame st (update_depth env b) of
                           (False, st1, b1) \<Rightarrow> (True, st1, b1, taken, [verdict])
                         | (True, st1, b1) \<Rightarrow>
                             (case drain_batch env (PROCESSING_BATCH_LIMIT - 1) st1 b1 of
                                (st2, b2, inputs, verdicts) \<Rightarrow>
                                  (True, st2, update_depth env b2, taken @ inputs, verdict # verdicts))))))"

text \<open>The loop, with what other threads do between its passes, and what the thread sends last.\<close>

fun processing_loop ::
  "(('a, 'm, 'd, 'w) pass_env \<times> (('a, 'm, 'w) bridge \<Rightarrow> ('a, 'm, 'w) bridge)) list
     \<Rightarrow> routing \<Rightarrow> ('a, 'm, 'w) bridge
     \<Rightarrow> routing \<times> ('a, 'm, 'w) bridge \<times> midi_frame list \<times> verdict list" where
  "processing_loop [] st b = (st, b, [], [])"
| "processing_loop ((env, between) # passes) st b =
     (case processing_pass env st (between b) of
        (continue, st1, b1, inputs1, verdicts1) \<Rightarrow>
          if continue then
            (case processing_loop passes st1 b1 of
               (st2, b2, inputs2, verdicts2) \<Rightarrow> (st2, b2, inputs1 @ inputs2, verdicts1 @ verdicts2))
          else (st1, b1, inputs1, verdicts1))"

definition start_routing :: "('a, 'm, 'w) bridge \<Rightarrow> routing" where
  "start_routing b =
     \<lparr>ro_generation = bridge_generation b, ro_pending = None, ro_sources = [], ro_scoped = [],
      ro_snapshot = (snapshot_of (br_config b))\<lparr>cs_rtp_output := Some ()\<rparr>,
      ro_cached_rev = br_config_rev b\<rparr>"

definition silence_messages :: "bytes list" where
  "silence_messages =
     concat (map (\<lambda>ch. [[0xB0 OR of_nat ch, 120, 0], [0xB0 OR of_nat ch, 121, 0], [0xB0 OR of_nat ch, 123, 0]])
       [0..<16])"

definition finish_routing :: "(bytes \<Rightarrow> 'a \<Rightarrow> 'a) \<Rightarrow> 'a \<Rightarrow> 'a" where
  "finish_routing send_midi audio = fold send_midi silence_messages audio"

section \<open>No frame is lost or overtaken\<close>

abbreviation deferred :: "routing \<Rightarrow> midi_frame list" where
  "deferred st \<equiv> (case ro_pending st of None \<Rightarrow> [] | Some frame \<Rightarrow> [frame])"

definition resolved :: "verdict list \<Rightarrow> midi_frame list" where
  "resolved vs = map vd_frame (filter vd_from_input vs)"

lemma resolved_simps [simp]:
  "resolved [] = []" "resolved (v # vs) = (if vd_from_input v then [vd_frame v] else []) @ resolved vs"
  "resolved (vs @ ws) = resolved vs @ resolved ws"
  by (simp_all add: resolved_def)

text \<open>Scoped releases are of the current generation, and nothing is deferred while there are any.\<close>

definition routing_inv :: "routing \<Rightarrow> bool" where
  "routing_inv st \<longleftrightarrow> (ro_pending st \<noteq> None \<longrightarrow> ro_scoped st = [])
     \<and> (\<forall>frame \<in> set (ro_scoped st). frame_generation frame = ro_generation st)"

definition verdict_ok :: "verdict \<Rightarrow> bool" where
  "verdict_ok v \<longleftrightarrow>
     (vd_fate v = Routed \<longrightarrow> frame_generation (vd_frame v) = vd_generation v)
     \<and> (vd_fate v = Stale \<longrightarrow> frame_generation (vd_frame v) < vd_generation v)"

text \<open>The other threads never turn the generation back.\<close>

definition generations_grow :: "('a, 'm, 'd, 'w) pass_env \<Rightarrow> bool" where
  "generations_grow env \<longleftrightarrow> (\<forall>k b. bridge_generation b \<le> bridge_generation (pe_moves env k b))"

lemma generation_action_iff:
  "generation_action (f, 0) (g, 0) (c, 0) = Discard \<longleftrightarrow> f < c"
  "generation_action (f, 0) (g, 0) (c, 0) = Ready \<longleftrightarrow> f = c \<and> g = c"
  "generation_action (f, 0) (g, 0) (c, 0) = Defer \<longleftrightarrow> c \<le> f \<and> \<not> (f = c \<and> g = c)"
  by (auto simp: generation_action_def)

lemma route_frame_facts:
  assumes "route_frame env frame st b = (go, st', b')" "frame_generation frame = ro_generation st"
    and "routing_inv st" "ro_pending st = None"
  shows "routing_inv st' \<and> ro_pending st' = None \<and> ro_generation st' = ro_generation st"
  using assms
  by (auto simp: route_frame_def routing_inv_def scoped_release_def Let_def
      split: if_splits prod.splits option.splits)

lemma next_frame_facts:
  assumes "next_frame env st b = (r, st', b')"
  shows "bridge_generation b' = bridge_generation b \<and> ro_generation st' = ro_generation st
    \<and> ro_pending st' = ro_pending st
    \<and> (case r of
         None \<Rightarrow> ro_scoped st = [] \<and> st' = st
       | Some (frame, input) \<Rightarrow>
           if input then ro_scoped st = [] \<and> ro_scoped st' = [] else ro_scoped st = frame # ro_scoped st')"
  using assms by (auto simp: next_frame_def bridge_generation_def split: list.splits prod.splits option.splits)

lemma drain_batch_facts:
  assumes "drain_batch env k st b = (st', b', inputs, verdicts)"
    and "routing_inv st" "ro_pending st = None" "generations_grow env"
  shows "inputs = resolved verdicts @ deferred st' \<and> routing_inv st' \<and> list_all verdict_ok verdicts"
  using assms(1-3)
proof (induction k arbitrary: st b st' b' inputs verdicts)
  case 0
  then show ?case by simp
next
  case (Suc k)
  let ?b = "pe_moves env (2 * k) b"
  show ?case
  proof (cases "br_stop ?b \<or> bridge_generation ?b \<noteq> ro_generation st")
    case True
    then show ?thesis using Suc.prems by (auto simp: Let_def)
  next
    case go: False
    obtain r st1 b1 where n: "next_frame env st ?b = (r, st1, b1)" by (metis prod_cases3)
    note nf = next_frame_facts [OF n]
    show ?thesis
    proof (cases r)
      case None
      then show ?thesis using Suc.prems go n nf by (auto simp: Let_def)
    next
      case (Some fi)
      then obtain frame input where r: "r = Some (frame, input)" by (cases fi) auto
      let ?b2 = "pe_moves env (2 * k + 1) b1"
      let ?act = "generation_action (frame_generation frame, 0) (ro_generation st1, 0) (bridge_generation ?b2, 0)"
      have inv1: "routing_inv st1" "ro_pending st1 = None"
        using nf r Suc.prems(2,3) by (auto simp: routing_inv_def split: if_splits)
      have grow: "ro_generation st1 \<le> bridge_generation ?b2"
        using assms(4) go nf by (metis generations_grow_def)
      have scoped: "frame_generation frame = ro_generation st1" if "\<not> input"
        using nf r that Suc.prems(2) by (auto simp: routing_inv_def)
      show ?thesis
      proof (cases ?act)
        case Discard
        obtain st2 b3 ins vs where d: "drain_batch env k st1 ?b2 = (st2, b3, ins, vs)" by (metis prod_cases4)
        then have "st' = st2" "inputs = (if input then [frame] else []) @ ins"
          "verdicts = \<lparr>vd_frame = frame, vd_fate = Stale, vd_generation = bridge_generation ?b2,
            vd_from_input = input\<rparr> # vs"
          using Suc.prems(1) go n r Discard by (simp_all add: Let_def)
        then show ?thesis using Suc.IH [OF d inv1] Discard
          by (auto simp: verdict_ok_def generation_action_iff)
      next
        case Defer
        then have "input" using grow scoped by (cases input) (auto simp: generation_action_iff)
        then have "ro_scoped st1 = []" using nf r by auto
        moreover have "st' = st1\<lparr>ro_pending := Some frame\<rparr>" "inputs = [frame]" "verdicts = []"
          using Suc.prems(1) go n r Defer \<open>input\<close> by (simp_all add: Let_def)
        ultimately show ?thesis by (simp add: routing_inv_def)
      next
        case Ready
        obtain go1 st2 b3 where rf: "route_frame env frame st1 (update_depth env ?b2) = (go1, st2, b3)"
          by (metis prod_cases3)
        obtain st3 b4 ins vs where d: "drain_batch env k st2 b3 = (st3, b4, ins, vs)" by (metis prod_cases4)
        have gen: "frame_generation frame = ro_generation st1" "frame_generation frame = bridge_generation ?b2"
          using Ready by (auto simp: generation_action_iff)
        note inv2 = route_frame_facts [OF rf gen(1) inv1]
        have "st' = st3" "inputs = (if input then [frame] else []) @ ins"
          "verdicts = \<lparr>vd_frame = frame, vd_fate = Routed, vd_generation = bridge_generation ?b2,
            vd_from_input = input\<rparr> # vs"
          using Suc.prems(1) go n r Ready rf d by (simp_all add: Let_def)
        then show ?thesis using Suc.IH [OF d] inv2 gen(2) by (auto simp: verdict_ok_def)
      qed
    qed
  qed
qed

lemma update_depth_generation [simp]:
  "bridge_generation (update_depth env b) = bridge_generation b"
  "pl_reset_generation (br_pipeline (update_depth env b)) = pl_reset_generation (br_pipeline b)"
  by (simp_all add: update_depth_def set_pipeline_def bridge_generation_def update_pipeline_queue_depth_def
      midi_reset_generation_def Let_def)

lemma begin_pass_facts:
  assumes "begin_pass env st b = (st', b')" "routing_inv st"
  shows "ro_generation st' = bridge_generation b' \<and> ro_pending st' = ro_pending st \<and> routing_inv st'"
  using assms
  by (auto simp: begin_pass_def Let_def set_pipeline_def bridge_generation_def midi_reset_generation_def
      take_critical_midi_reset_request_def routing_inv_def split: if_splits)

lemma first_frame_facts:
  assumes "first_frame env st b = (r, st', b')" "routing_inv st"
  shows "bridge_generation b' = bridge_generation b \<and> ro_generation st' = ro_generation st \<and> routing_inv st'
    \<and> (case r of
         None \<Rightarrow> st' = st \<and> ro_pending st = None
       | Some (frame, input, received) \<Rightarrow> ro_pending st' = None
           \<and> deferred st @ (if received then [frame] else []) = (if input then [frame] else [])
           \<and> (if input then ro_scoped st' = [] else frame_generation frame = ro_generation st))"
proof (cases "ro_scoped st = [] \<and> ro_pending st \<noteq> None")
  case True
  then show ?thesis using assms by (auto simp: first_frame_def routing_inv_def)
next
  case False
  obtain r1 st1 b1 where n: "next_frame env st b = (r1, st1, b1)" by (metis prod_cases3)
  have p: "ro_pending st = None" using False assms(2) by (auto simp: routing_inv_def)
  have "first_frame env st b = (case r1 of None \<Rightarrow> (None, st1, b1)
      | Some (frame, input) \<Rightarrow> (Some (frame, input, input), st1, b1))"
    using n p by (auto simp: first_frame_def split: list.split)
  then show ?thesis using next_frame_facts [OF n] p assms
    by (auto simp: routing_inv_def split: option.splits if_splits)
qed

lemma processing_pass_facts:
  assumes "processing_pass env st b = (continue, st', b', inputs, verdicts)"
    and "routing_inv st" "generations_grow env"
  shows "deferred st @ inputs = resolved verdicts @ deferred st' \<and> routing_inv st' \<and> list_all verdict_ok verdicts"
proof (cases "br_stop b")
  case True
  then show ?thesis using assms by (simp add: processing_pass_def)
next
  case go: False
  obtain st1 b1 where bp: "begin_pass env st b = (st1, b1)" by fastforce
  note inv1 = begin_pass_facts [OF bp assms(2)]
  obtain r st2 b2 where ff: "first_frame env st1 b1 = (r, st2, b2)" by (metis prod_cases3)
  note f2 = first_frame_facts [OF ff inv1 [THEN conjunct2, THEN conjunct2]]
  show ?thesis
  proof (cases r)
    case None
    then show ?thesis using assms go bp ff inv1 f2 by (auto simp: processing_pass_def)
  next
    case (Some fir)
    then obtain frame input received where r: "r = Some (frame, input, received)" by (cases fir) auto
    let ?b = "pe_moves env (2 * PROCESSING_BATCH_LIMIT) b2"
    let ?act = "generation_action (frame_generation frame, 0) (ro_generation st2, 0) (bridge_generation ?b, 0)"
    have p: "ro_pending st2 = None" "routing_inv st2"
      and taken: "deferred st @ (if received then [frame] else []) = (if input then [frame] else [])"
      and origin: "if input then ro_scoped st2 = [] else frame_generation frame = ro_generation st2"
      using f2 inv1 r by auto
    have grow: "ro_generation st2 \<le> bridge_generation ?b"
      using assms(3) f2 inv1 by (metis generations_grow_def)
    let ?v = "\<lambda>fate. \<lparr>vd_frame = frame, vd_fate = fate, vd_generation = bridge_generation ?b, vd_from_input = input\<rparr>"
    show ?thesis
    proof (cases "br_stop ?b")
      case True
      then have "st' = st2" "inputs = (if received then [frame] else [])" "verdicts = [?v Abandoned]"
        using assms(1) go bp ff r by (auto simp: processing_pass_def Let_def)
      then show ?thesis using p taken by (simp add: verdict_ok_def)
    next
      case running: False
      show ?thesis
      proof (cases ?act)
        case Discard
        then have "st' = st2" "inputs = (if received then [frame] else [])" "verdicts = [?v Stale]"
          using assms(1) go bp ff r running by (auto simp: processing_pass_def Let_def)
        then show ?thesis using p taken Discard by (simp add: verdict_ok_def generation_action_iff)
      next
        case Defer
        then have input using grow origin by (auto simp: generation_action_iff split: if_splits)
        moreover have "st' = st2\<lparr>ro_pending := Some frame\<rparr>" "inputs = (if received then [frame] else [])" "verdicts = []"
          using assms(1) go bp ff r running Defer by (simp_all add: processing_pass_def Let_def)
        ultimately show ?thesis using taken origin by (simp add: routing_inv_def)
      next
        case Ready
        have gen: "frame_generation frame = ro_generation st2" "frame_generation frame = bridge_generation ?b"
          using Ready by (auto simp: generation_action_iff)
        obtain go1 st3 b3 where rf: "route_frame env frame st2 (update_depth env ?b) = (go1, st3, b3)"
          by (metis prod_cases3)
        note inv3 = route_frame_facts [OF rf gen(1) p(2,1)]
        show ?thesis
        proof (cases go1)
          case False
          then have "st' = st3" "inputs = (if received then [frame] else [])" "verdicts = [?v Routed]"
            using assms(1) go bp ff r running Ready rf by (simp_all add: processing_pass_def Let_def)
          then show ?thesis using inv3 taken gen(2) by (simp add: verdict_ok_def)
        next
          case True
          obtain st4 b4 ins vs where d: "drain_batch env (PROCESSING_BATCH_LIMIT - 1) st3 b3 = (st4, b4, ins, vs)"
            by (metis prod_cases4)
          then have "st' = st4" "inputs = (if received then [frame] else []) @ ins" "verdicts = ?v Routed # vs"
            using assms(1) go bp ff r running Ready rf True by (simp_all add: processing_pass_def Let_def)
          then show ?thesis
            using drain_batch_facts [OF d _ _ assms(3)] inv3 taken gen(2)
            by (auto simp: verdict_ok_def append_assoc [symmetric] simp del: append_assoc)
        qed
      qed
    qed
  qed
qed

lemma processing_loop_facts:
  assumes "processing_loop passes st b = (st', b', inputs, verdicts)"
    and "routing_inv st" "\<forall>(env, _) \<in> set passes. generations_grow env"
  shows "deferred st @ inputs = resolved verdicts @ deferred st' \<and> routing_inv st' \<and> list_all verdict_ok verdicts"
  using assms
proof (induction passes st b arbitrary: st' b' inputs verdicts rule: processing_loop.induct)
  case (1 st b)
  then show ?case by simp
next
  case (2 env between passes st b)
  obtain continue st1 b1 is1 vs1 where p: "processing_pass env st (between b) = (continue, st1, b1, is1, vs1)"
    by (metis prod_cases5)
  have pass: "deferred st @ is1 = resolved vs1 @ deferred st1" "routing_inv st1" "list_all verdict_ok vs1"
    using processing_pass_facts [OF p "2.prems"(2)] "2.prems"(3) by auto
  show ?case
  proof (cases continue)
    case False
    then show ?thesis using "2.prems"(1) p pass by simp
  next
    case True
    obtain st2 b2 is2 vs2 where l: "processing_loop passes st1 b1 = (st2, b2, is2, vs2)" by (metis prod_cases4)
    have "deferred st1 @ is2 = resolved vs2 @ deferred st2 \<and> routing_inv st2 \<and> list_all verdict_ok vs2"
      using "2.IH" [OF p [symmetric] refl refl refl True l] pass(2) "2.prems"(3) by simp
    moreover have "st' = st2" "inputs = is1 @ is2" "verdicts = vs1 @ vs2"
      using "2.prems"(1) p l True by simp_all
    moreover have "(deferred st @ is1) @ is2 = resolved vs1 @ (deferred st1 @ is2)" by (simp add: pass(1))
    ultimately show ?thesis using pass(3) by simp
  qed
qed

text \<open>
  C2: the routing thread accounts for every frame. Over any number of passes, whatever the other threads
  do to the shared state in between (they only never turn the reset generation back), the frames
  taken from the input queue are, in their order, those that were resolved and then the one that is
  deferred, if any: no deferred frame is overwritten or overtaken. A frame that is routed is of the
  generation read for it, one that is discarded of an earlier one, so nothing from before a reset
  is played after it.
\<close>

theorem routing_accounts_for_frames:
  assumes "processing_loop passes (start_routing b0) b0 = (st, b, inputs, verdicts)"
    and "\<forall>(env, _) \<in> set passes. generations_grow env"
  shows "inputs = map vd_frame (filter vd_from_input verdicts)
      @ (case ro_pending st of None \<Rightarrow> [] | Some frame \<Rightarrow> [frame])
    \<and> (\<forall>v \<in> set verdicts.
         (vd_fate v = Routed \<longrightarrow> frame_generation (vd_frame v) = vd_generation v)
         \<and> (vd_fate v = Stale \<longrightarrow> frame_generation (vd_frame v) < vd_generation v))"
proof -
  have "routing_inv (start_routing b0)" by (simp add: routing_inv_def start_routing_def)
  from processing_loop_facts [OF assms(1) this assms(2)] show ?thesis
    by (auto simp: start_routing_def resolved_def list_all_iff verdict_ok_def)
qed

definition sample_pipeline :: pipeline where
  "sample_pipeline = \<lparr>pl_in = 0, pl_out = 0, pl_filtered = 0, pl_queue_depth = 0, pl_queue_max_depth = 0,
     pl_dropped = 0, pl_debug_sample_last_ms = 0, pl_reset_requested = False, pl_reset_generation = 4\<rparr>"

definition sample_handler :: "(bytes list, bytes list, bytes udp) handler" where
  "sample_handler = \<lparr>h_pipeline = sample_pipeline, h_rtp = default_rtp_route, h_audio = [], h_midi_out = None,
     h_active_notes = default_active_notes, h_route = None, h_osc = default_osc_output,
     h_net = \<lparr>udp_sent = [], udp_faults = []\<rparr>, h_osc_counter = 0, h_ui = bounded ''ui'' 16\<rparr>"

definition sample_frame :: "u64 \<Rightarrow> bytes \<Rightarrow> midi_frame" where
  "sample_frame generation bytes = \<lparr>frame_generation = generation, frame_ingress_qpc = 0, frame_data = bytes,
     frame_capacity = INLINE_MIDI_BYTES, frame_source = ''USB''\<rparr>"

definition sample_bridge :: "midi_frame list \<Rightarrow> (bytes list, bytes list, bytes udp) bridge" where
  "sample_bridge frames = \<lparr>br_handler = sample_handler,
     br_input = (bounded ''input'' 16)\<lparr>q_entries :=
       map (\<lambda>f. \<lparr>queued_qpc = 0, entry_value = f, entry_permit = False\<rparr>) frames\<rparr>,
     br_thru = bounded ''thru'' 16, br_osc = bounded ''osc'' 16, br_stop = False,
     br_config = default_app_config, br_config_rev = 0, br_panic_revision = 0, br_activity = []\<rparr>"

definition sample_handler_env :: "(bytes list, bytes list, bytes, bytes udp) handler_env" where
  "sample_handler_env = \<lparr>e_config = snapshot_of default_app_config, e_osc = None,
     e_send_audio = (\<lambda>data _ log. (Sent, log @ [data])), e_send_midi = (\<lambda>data log. (Inr (), log @ [data])),
     e_now_ms = 0, e_qpc = 0, e_debug = False, e_pool = None, e_deliver_audio = True,
     e_deliver_midi_thru = False, e_deliver_osc_ui = False\<rparr>"

definition sample_pass :: "(bytes list, bytes list, bytes, bytes udp) pass_env" where
  "sample_pass = \<lparr>pe_moves = (\<lambda>_ b. b), pe_disconnected = False, pe_frequency = 1, pe_now = 0, pe_pool = None,
     pe_activity_locked = True, pe_depths = [], pe_handler = sample_handler_env, pe_audio_reset = (\<lambda>a. a)\<rparr>"

theorem routing_accounts_for_frames_witness:
  "\<exists>st b. processing_loop [(sample_pass, \<lambda>b. b)] (start_routing (sample_bridge [sample_frame 3 [0x80, 60, 0]]))
       (sample_bridge [sample_frame 3 [0x80, 60, 0]])
     = (st, b, [sample_frame 3 [0x80, 60, 0]],
        [\<lparr>vd_frame = sample_frame 3 [0x80, 60, 0], vd_fate = Stale, vd_generation = 4, vd_from_input = True\<rparr>])
     \<and> ro_pending st = None
     \<and> frame_generation (sample_frame 3 [0x80, 60, 0]) < 4"
proof -
  let ?b = "sample_bridge [sample_frame 3 [0x80, 60, 0]]"
  have gen: "bridge_generation ?b = 4"
    by (simp add: bridge_generation_def sample_bridge_def sample_handler_def sample_pipeline_def
        midi_reset_generation_def)
  obtain st1 b1 where bp: "begin_pass sample_pass (start_routing ?b) ?b = (st1, b1)" by fastforce
  have st1: "ro_scoped st1 = []" "ro_pending st1 = None" "ro_generation st1 = 4"
    using bp gen by (auto simp: begin_pass_def start_routing_def Let_def set_pipeline_def split: if_splits)
  have b1: "br_input b1 = br_input ?b" "bridge_generation b1 = 4" "br_stop b1 = False"
    using bp gen begin_pass_facts [OF bp] st1(3)
    by (auto simp: begin_pass_def Let_def set_pipeline_def update_depth_def sample_bridge_def start_routing_def
        routing_inv_def split: if_splits)
  have "\<exists>st b. processing_pass sample_pass (start_routing ?b) ?b = (True, st, b, [sample_frame 3 [0x80, 60, 0]],
      [\<lparr>vd_frame = sample_frame 3 [0x80, 60, 0], vd_fate = Stale, vd_generation = 4, vd_from_input = True\<rparr>])
      \<and> ro_pending st = None"
    using bp st1 b1
    by (simp add: processing_pass_def first_frame_def next_frame_def try_recv_def sample_bridge_def Let_def
        sample_pass_def generation_action_iff(1) [THEN iffD2] sample_frame_def bridge_generation_def)
  then obtain st b where pass: "processing_pass sample_pass (start_routing ?b) ?b = (True, st, b, [sample_frame 3 [0x80, 60, 0]],
      [\<lparr>vd_frame = sample_frame 3 [0x80, 60, 0], vd_fate = Stale, vd_generation = 4, vd_from_input = True\<rparr>])"
      "ro_pending st = None" by blast
  have run: "processing_loop [(sample_pass, \<lambda>b. b)] (start_routing ?b) ?b = (st, b, [sample_frame 3 [0x80, 60, 0]],
      [\<lparr>vd_frame = sample_frame 3 [0x80, 60, 0], vd_fate = Stale, vd_generation = 4, vd_from_input = True\<rparr>])"
    using pass(1) by simp
  have grow: "\<forall>(env, _) \<in> set [(sample_pass, \<lambda>b :: (bytes list, bytes list, bytes udp) bridge. b)]. generations_grow env"
    by (simp add: generations_grow_def sample_pass_def)
  from routing_accounts_for_frames [OF run grow] run pass(2) show ?thesis by auto
qed

lemma rec_generation_kept:
  "rec_generation (dropped critical r) = rec_generation r"
  "rec_generation (rejected critical r) = rec_generation r"
  "rec_generation (admitted depth r) = rec_generation r"
  "rec_generation (consumed frequency now qpc r) = rec_generation r"
  by (simp_all add: dropped_def rejected_def admitted_def consumed_def)

text \<open>
  Fan-out never loses a release in silence. A frame either joins the worker's queue, tagged with the
  route generation the worker will compare, or is counted as dropped; and when a lost frame carries
  output and ends a note or a pedal, the route's generation is raised, so that the worker resets its
  destination. An ordinary loss leaves the route alone.
\<close>

theorem fanout_loss_resets_route:
  "case send_fanout now frame generation carries tx p of (tx', p') \<Rightarrow>
     (map entry_value (q_entries tx') = map entry_value (q_entries tx) @ [\<lparr>ff_frame = frame,
         ff_generation = generation, ff_route_generation = rec_generation (q_recovery tx)\<rparr>]
      \<and> p' = p \<and> rec_generation (q_recovery tx') = rec_generation (q_recovery tx))
     \<or> (map entry_value (q_entries tx') = map entry_value (q_entries tx) \<and> p' = count_dropped p
      \<and> rec_generation (q_recovery tx') = rec_generation (q_recovery tx)
          + (if carries \<and> is_critical_release_message (frame_data frame) then 1 else 0))"
  by (auto simp: send_fanout_def try_send_def queue_defs request_reset_def rec_generation_kept
      split: prod.split sum.split try_send_error.split)

end
