(* ===== verification/Workers.thy ===== *)
theory Workers
  imports Processing Osc_Packet
begin

text \<open>
  The two worker threads behind the routing thread (\<open>spawn_midi_thru_worker\<close> and
  \<open>spawn_osc_worker\<close> in \<open>bridge/processing.rs\<close>): the MIDI output with its reconnections, and the OSC
  client with its retries. Instants are nanoseconds; the instants read within one pass are one.
\<close>

section \<open>Shared state\<close>

record worker_shared =
  wk_pipeline :: pipeline
  wk_rx :: "fanout_frame midi_queue"
  wk_config :: app_config
  wk_config_rev :: u64
  wk_panic_revision :: u64
  wk_stop :: bool

abbreviation wk_generation :: "worker_shared \<Rightarrow> u64" where
  "wk_generation sh \<equiv> midi_reset_generation (wk_pipeline sh)"

abbreviation wk_route :: "worker_shared \<Rightarrow> u64" where
  "wk_route sh \<equiv> rec_generation (q_recovery (wk_rx sh))"

text \<open>What a worker remembers of the generations, and the frame it deferred.\<close>

record worker =
  wo_generation :: u64
  wo_route :: u64
  wo_pending :: "fanout_frame option"

text \<open>
  A pass: \<open>we_moves\<close> is what the other threads do to the shared state at each point where the worker
  looks at it, \<open>we_disconnected\<close> whether an empty queue has no sender left, \<open>we_now\<close> the time.
\<close>

record ('a, 'm, 'd, 'w) worker_env =
  we_moves :: "nat \<Rightarrow> worker_shared \<Rightarrow> worker_shared"
  we_disconnected :: bool
  we_frequency :: u64
  we_qpc :: u64
  we_now :: nat
  we_handler :: "('a, 'm, 'd, 'w) handler_env"

text \<open>The handler runs on the shared pipeline and on the recovery of the worker's own queue.\<close>

definition with_shared ::
  "(('a, 'm, 'w) handler \<Rightarrow> ('a, 'm, 'w) handler) \<Rightarrow> ('a, 'm, 'w) handler \<Rightarrow> worker_shared
     \<Rightarrow> ('a, 'm, 'w) handler \<times> worker_shared" where
  "with_shared act h sh =
     (let h' = act (h\<lparr>h_pipeline := wk_pipeline sh, h_route := Some (q_recovery (wk_rx sh))\<rparr>);
          recovery = (case h_route h' of Some r \<Rightarrow> r | None \<Rightarrow> q_recovery (wk_rx sh))
      in (h', sh\<lparr>wk_pipeline := h_pipeline h', wk_rx := (wk_rx sh)\<lparr>q_recovery := recovery\<rparr>\<rparr>))"

definition envelope_action :: "fanout_frame \<Rightarrow> worker \<Rightarrow> worker_shared \<Rightarrow> generation_action" where
  "envelope_action envelope wo sh =
     generation_action (ff_generation envelope, ff_route_generation envelope)
       (wo_generation wo, wo_route wo) (wk_generation sh, wk_route sh)"

text \<open>
  The rest of a batch. \<open>deliver\<close> is the call of the handler. The last result lists the frames that
  were delivered, with the generations read for them.
\<close>

fun worker_batch ::
  "('a, 'm, 'd, 'w) worker_env
     \<Rightarrow> (midi_frame \<Rightarrow> ('a, 'm, 'w) handler \<Rightarrow> ('a, 'm, 'w) handler)
     \<Rightarrow> nat \<Rightarrow> worker \<Rightarrow> ('a, 'm, 'w) handler \<Rightarrow> worker_shared
     \<Rightarrow> worker \<times> ('a, 'm, 'w) handler \<times> worker_shared \<times> (fanout_frame \<times> u64 \<times> u64) list" where
  "worker_batch env deliver 0 wo h sh = (wo, h, sh, [])"
| "worker_batch env deliver (Suc k) wo h sh =
     (let sh = we_moves env (2 * k) sh in
      if wk_stop sh \<or> wk_generation sh \<noteq> wo_generation wo \<or> wk_route sh \<noteq> wo_route wo then (wo, h, sh, [])
      else
        (case try_recv (we_frequency env) (we_qpc env) (wk_rx sh) of
           (None, _) \<Rightarrow> (wo, h, sh, [])
         | (Some envelope, rx) \<Rightarrow>
             (let sh = we_moves env (2 * k + 1) (sh\<lparr>wk_rx := rx\<rparr>)
              in case envelope_action envelope wo sh of
                   Discard \<Rightarrow> worker_batch env deliver k wo h sh
                 | Defer \<Rightarrow> (wo\<lparr>wo_pending := Some envelope\<rparr>, h, sh, [])
                 | Ready \<Rightarrow>
                     (case with_shared (deliver (ff_frame envelope)) h sh of
                        (h', sh') \<Rightarrow>
                          (case worker_batch env deliver k wo h' sh' of
                             (wo2, h2, sh2, done1) \<Rightarrow>
                               (wo2, h2, sh2, (envelope, wk_generation sh, wk_route sh) # done1))))))"

text \<open>Receiving in one pass: the deferred frame or the next one, then the rest of the batch.\<close>

definition worker_receive ::
  "('a, 'm, 'd, 'w) worker_env
     \<Rightarrow> (midi_frame \<Rightarrow> ('a, 'm, 'w) handler \<Rightarrow> ('a, 'm, 'w) handler)
     \<Rightarrow> worker \<Rightarrow> ('a, 'm, 'w) handler \<Rightarrow> worker_shared
     \<Rightarrow> bool \<times> worker \<times> ('a, 'm, 'w) handler \<times> worker_shared \<times> (fanout_frame \<times> u64 \<times> u64) list" where
  "worker_receive env deliver wo h sh =
     (let (received, wo1, sh1) =
        (case wo_pending wo of
           Some envelope \<Rightarrow> (Some envelope, wo\<lparr>wo_pending := None\<rparr>, sh)
         | None \<Rightarrow>
             (case try_recv (we_frequency env) (we_qpc env) (wk_rx sh) of
                (None, _) \<Rightarrow> (None, wo, sh)
              | (Some envelope, rx) \<Rightarrow> (Some envelope, wo, sh\<lparr>wk_rx := rx\<rparr>)))
      in case received of
           None \<Rightarrow> (\<not> we_disconnected env, wo1, h, sh1, [])
         | Some envelope \<Rightarrow>
             (let sh2 = we_moves env (2 * PROCESSING_BATCH_LIMIT) sh1
              in case envelope_action envelope wo1 sh2 of
                   Discard \<Rightarrow> (True, wo1, h, sh2, [])
                 | Defer \<Rightarrow> (True, wo1\<lparr>wo_pending := Some envelope\<rparr>, h, sh2, [])
                 | Ready \<Rightarrow>
                     (case with_shared (deliver (ff_frame envelope)) h sh2 of
                        (h3, sh3) \<Rightarrow>
                          (case worker_batch env deliver (PROCESSING_BATCH_LIMIT - 1) wo1 h3 sh3 of
                             (wo4, h4, sh4, done1) \<Rightarrow>
                               (True, wo4, h4, sh4, (envelope, wk_generation sh2, wk_route sh2) # done1)))))"

section \<open>Routes\<close>

definition midi_output_route_changed :: "app_config \<Rightarrow> app_config \<Rightarrow> bool" where
  "midi_output_route_changed previous updated \<longleftrightarrow>
     mc_output_device (cfg_midi previous) \<noteq> mc_output_device (cfg_midi updated)
     \<or> mc_channel_filter (cfg_midi previous) \<noteq> mc_channel_filter (cfg_midi updated)
     \<or> mc_thru_enabled (cfg_midi previous) \<noteq> mc_thru_enabled (cfg_midi updated)
     \<or> \<not> same_profiles (snapshot_of previous :: unit config_snapshot) (snapshot_of updated)"

definition osc_output_route_changed :: "app_config \<Rightarrow> app_config \<Rightarrow> bool" where
  "osc_output_route_changed previous updated \<longleftrightarrow>
     oc_enabled (cfg_osc previous) \<noteq> oc_enabled (cfg_osc updated)
     \<or> oc_target_ip (cfg_osc previous) \<noteq> oc_target_ip (cfg_osc updated)
     \<or> oc_target_port (cfg_osc previous) \<noteq> oc_target_port (cfg_osc updated)
     \<or> mc_channel_filter (cfg_midi previous) \<noteq> mc_channel_filter (cfg_midi updated)
     \<or> \<not> same_profiles (snapshot_of previous :: unit config_snapshot) (snapshot_of updated)"

definition deliver_external :: "midi_frame \<Rightarrow> bool" where
  "deliver_external frame \<longleftrightarrow> \<not> starts_with ''StressTest'' (frame_source frame)"

section \<open>The MIDI output worker\<close>

record thru_worker =
  tw_worker :: worker
  tw_snapshot :: "unit config_snapshot"
  tw_previous :: app_config
  tw_cached_rev :: u64
  tw_cached_panic :: u64
  tw_out_name :: "string option"
  tw_next_reconnect :: nat
  tw_backoff :: nat
  tw_actual_out :: "string option"

text \<open>\<open>reset_midi_output\<close> and \<open>flush_midi_output\<close>; failed sends are ignored.\<close>

definition reset_messages :: "bytes list" where
  "reset_messages =
     concat (map (\<lambda>ch. [[0xB0 OR of_nat ch, 64, 0], [0xB0 OR of_nat ch, 120, 0], [0xB0 OR of_nat ch, 121, 0],
       [0xB0 OR of_nat ch, 123, 0], [0xE0 OR of_nat ch, 0x00, 0x40]]) [0..<16])"

definition send_all :: "(bytes \<Rightarrow> 'm \<Rightarrow> (string + unit) \<times> 'm) \<Rightarrow> bytes list \<Rightarrow> 'm \<Rightarrow> 'm" where
  "send_all send messages out = fold (\<lambda>message out. snd (send message out)) messages out"

definition flush_midi_output ::
  "(bytes \<Rightarrow> 'm \<Rightarrow> (string + unit) \<times> 'm) \<Rightarrow> ('a, 'm, 'w) handler \<Rightarrow> ('a, 'm, 'w) handler" where
  "flush_midi_output send h =
     (case h_midi_out h of
        None \<Rightarrow> h
      | Some out \<Rightarrow>
          (case active_release_all (h_active_notes h) of
             (releases, notes) \<Rightarrow>
               h\<lparr>h_midi_out := Some (send_all send (releases @ reset_messages) out), h_active_notes := notes\<rparr>))"

text \<open>
  \<open>open_output\<close>: \<open>connect\<close> finds and opens the port of that name and answers with the name it has.
\<close>

definition open_output ::
  "(string \<Rightarrow> ('m \<times> string) option) \<Rightarrow> app_config \<Rightarrow> 'm option \<times> string option" where
  "open_output connect config =
     (case mc_output_device (cfg_midi config) of
        None \<Rightarrow> (None, None)
      | Some name \<Rightarrow>
          if name = VST_INTERNAL_OUTPUT \<or> name = VST_INTERNAL_OUTPUT_LEGACY then (None, Some VST_INTERNAL_OUTPUT)
          else (case connect name of None \<Rightarrow> (None, None) | Some (conn, actual) \<Rightarrow> (Some conn, Some actual)))"

definition clear_osc :: "('a, 'm, 'w) handler \<Rightarrow> ('a, 'm, 'w) handler" where
  "clear_osc h = h\<lparr>h_osc := osc_clear (h_osc h)\<rparr>"

definition thru_generations ::
  "('a, 'm, 'd, 'w) worker_env \<Rightarrow> thru_worker \<Rightarrow> ('a, 'm, 'w) handler \<Rightarrow> worker_shared
     \<Rightarrow> thru_worker \<times> ('a, 'm, 'w) handler" where
  "thru_generations env tw h sh =
     (if wk_panic_revision sh \<noteq> tw_cached_panic tw \<or> wo_generation (tw_worker tw) \<noteq> wk_generation sh
         \<or> wo_route (tw_worker tw) \<noteq> wk_route sh
      then (tw\<lparr>tw_worker := (tw_worker tw)\<lparr>wo_generation := wk_generation sh, wo_route := wk_route sh\<rparr>,
              tw_cached_panic := wk_panic_revision sh\<rparr>,
            clear_osc (flush_midi_output (e_send_midi (we_handler env)) h))
      else (tw, h))"

definition thru_configuration ::
  "('a, 'm, 'd, 'w) worker_env \<Rightarrow> (string \<Rightarrow> ('m \<times> string) option) \<Rightarrow> thru_worker
     \<Rightarrow> ('a, 'm, 'w) handler \<Rightarrow> worker_shared \<Rightarrow> thru_worker \<times> ('a, 'm, 'w) handler" where
  "thru_configuration env connect tw h sh =
     (if wk_config_rev sh \<noteq> tw_cached_rev tw then
        let config = wk_config sh;
            flush = flush_midi_output (e_send_midi (we_handler env));
            h1 = (if midi_output_route_changed (tw_previous tw) config then clear_osc (flush h) else h);
            tw1 = tw\<lparr>tw_snapshot := snapshot_of config, tw_cached_rev := wk_config_rev sh,
                     tw_previous := config\<rparr>
        in if mc_output_device (cfg_midi config) \<noteq> tw_out_name tw1 then
             (case open_output connect config of
                (connection, connected) \<Rightarrow>
                  (tw1\<lparr>tw_out_name := mc_output_device (cfg_midi config), tw_actual_out := connected,
                       tw_backoff := 500000000, tw_next_reconnect := we_now env + 500000000\<rparr>,
                   flush (h1\<lparr>h_midi_out := connection\<rparr>)))
           else (tw1, h1)
      else (tw, h))"

definition thru_reconnect ::
  "('a, 'm, 'd, 'w) worker_env \<Rightarrow> (string \<Rightarrow> ('m \<times> string) option) \<Rightarrow> thru_worker
     \<Rightarrow> ('a, 'm, 'w) handler \<Rightarrow> worker_shared \<Rightarrow> thru_worker \<times> ('a, 'm, 'w) handler" where
  "thru_reconnect env connect tw h sh =
     (if h_midi_out h = None \<and> cs_midi_thru (tw_snapshot tw)
         \<and> (case tw_out_name tw of None \<Rightarrow> False
            | Some name \<Rightarrow> name \<noteq> VST_INTERNAL_OUTPUT \<and> name \<noteq> VST_INTERNAL_OUTPUT_LEGACY)
         \<and> tw_next_reconnect tw \<le> we_now env
      then
        (case open_output connect (wk_config sh) of
           (connection, connected) \<Rightarrow>
             (let backoff = (if connection \<noteq> None then 500000000 else min (tw_backoff tw * 2) 10000000000)
              in (tw\<lparr>tw_actual_out := connected, tw_backoff := backoff,
                     tw_next_reconnect := we_now env + backoff\<rparr>,
                  flush_midi_output (e_send_midi (we_handler env)) (h\<lparr>h_midi_out := connection\<rparr>))))
      else (tw, h))"

definition thru_deliver ::
  "('a, 'm, 'd, 'w) worker_env \<Rightarrow> thru_worker \<Rightarrow> midi_frame \<Rightarrow> ('a, 'm, 'w) handler \<Rightarrow> ('a, 'm, 'w) handler" where
  "thru_deliver env tw frame h =
     handle_midi_frame ((we_handler env)\<lparr>e_config := tw_snapshot tw, e_osc := None, e_deliver_audio := False,
       e_deliver_midi_thru := deliver_external frame, e_deliver_osc_ui := False\<rparr>) frame h"

definition thru_pass ::
  "('a, 'm, 'd, 'w) worker_env \<Rightarrow> (string \<Rightarrow> ('m \<times> string) option) \<Rightarrow> thru_worker
     \<Rightarrow> ('a, 'm, 'w) handler \<Rightarrow> worker_shared
     \<Rightarrow> bool \<times> thru_worker \<times> ('a, 'm, 'w) handler \<times> worker_shared \<times> (fanout_frame \<times> u64 \<times> u64) list" where
  "thru_pass env connect tw h sh =
     (if wk_stop sh then (False, tw, flush_midi_output (e_send_midi (we_handler env)) h, sh, [])
      else
        case thru_generations env tw h sh of (tw1, h1) \<Rightarrow>
        (case thru_configuration env connect tw1 h1 sh of (tw2, h2) \<Rightarrow>
        (case thru_reconnect env connect tw2 h2 sh of (tw3, h3) \<Rightarrow>
        (case worker_receive env (thru_deliver env tw3) (tw_worker tw3) h3 sh of
           (continue, wo, h4, sh4, done1) \<Rightarrow>
             (continue,
              tw3\<lparr>tw_worker := wo, tw_actual_out := (if h_midi_out h4 = None \<and> done1 \<noteq> [] then None else tw_actual_out tw3)\<rparr>,
              if continue then h4 else flush_midi_output (e_send_midi (we_handler env)) h4, sh4, done1)))))"

section \<open>The OSC worker\<close>

record retry_schedule =
  rs_next :: nat
  rs_delay :: nat

definition new_schedule :: "nat \<Rightarrow> retry_schedule" where
  "new_schedule now = \<lparr>rs_next = now, rs_delay = 500000000\<rparr>"

definition schedule_ready :: "nat \<Rightarrow> retry_schedule \<Rightarrow> bool" where
  "schedule_ready now s \<longleftrightarrow> rs_next s \<le> now"

definition schedule_failed :: "nat \<Rightarrow> retry_schedule \<Rightarrow> retry_schedule" where
  "schedule_failed now s =
     \<lparr>rs_next = now + rs_delay s, rs_delay = min (rs_delay s * 2) 10000000000\<rparr>"

text \<open>
  A target is an address and a port. The packets of the client for a target carry it, so one socket
  state serves the clients of all targets; \<open>creation\<close> is the answer of \<open>OscClient::new\<close>.
\<close>

type_synonym target = "string \<times> u16"
type_synonym 'd osc_net = "(target \<times> 'd) udp"

definition target_client :: "(osc_message \<Rightarrow> 'd) \<Rightarrow> target \<Rightarrow> (target \<times> 'd, 'd osc_net) osc_client" where
  "target_client enc t = udp_client (\<lambda>m. (t, enc m))"

record osc_worker =
  ow_worker :: worker
  ow_snapshot :: "unit config_snapshot"
  ow_previous :: app_config
  ow_cached_rev :: u64
  ow_client :: "target option"
  ow_target :: target
  ow_reset_pending :: bool
  ow_reset_retry :: retry_schedule
  ow_client_retry :: retry_schedule

datatype osc_client_update = ClientConnected | ClientFailed string | ClientSuspended

definition update_osc_client ::
  "nat \<Rightarrow> string + unit \<Rightarrow> osc_worker \<Rightarrow> osc_client_update option \<times> osc_worker" where
  "update_osc_client now creation ow =
     (let snapshot = ow_snapshot ow;
          wanted = (cs_osc_target_ip snapshot, cs_osc_target_port snapshot);
          changed = (ow_target ow \<noteq> wanted);
          ow = (if changed then ow\<lparr>ow_target := wanted, ow_client_retry := new_schedule now\<rparr> else ow)
      in if cs_osc_enabled snapshot then
           (if changed \<or> (ow_client ow = None \<and> schedule_ready now (ow_client_retry ow)) then
              (case creation of
                 Inr _ \<Rightarrow> (Some ClientConnected,
                   ow\<lparr>ow_client := Some wanted, ow_client_retry := new_schedule now\<rparr>)
               | Inl err \<Rightarrow> (Some (ClientFailed err),
                   ow\<lparr>ow_client := None, ow_client_retry := schedule_failed now (ow_client_retry ow)\<rparr>))
            else (None, ow))
         else
           (if ow_client ow \<noteq> None then Some ClientSuspended else None,
            ow\<lparr>ow_client := None, ow_client_retry := new_schedule now\<rparr>))"

type_synonym ('a, 'm, 'd) osc_handler = "('a, 'm, 'd osc_net) handler"

definition reset_target ::
  "(osc_message \<Rightarrow> 'd) \<Rightarrow> target \<Rightarrow> ('a, 'm, 'd) osc_handler \<Rightarrow> (string + unit) \<times> ('a, 'm, 'd) osc_handler" where
  "reset_target enc t h =
     (case send_reset_all (target_client enc t) (h_net h) of (r, net) \<Rightarrow> (r, h\<lparr>h_net := net\<rparr>))"

text \<open>The closure of the flush after a reset: a failure does not reset the route again.\<close>

definition resume_switch ::
  "('d, 'w) osc_client \<Rightarrow> u8 option \<Rightarrow> bool \<Rightarrow> ('a, 'm, 'w) handler
     \<Rightarrow> (string + unit) \<times> ('a, 'm, 'w) handler" where
  "resume_switch client i pressed h =
     (case client_switch client i pressed (h_net h) of
        (Inl e, net) \<Rightarrow> (Inl e, h\<lparr>h_net := net\<rparr>)
      | (Inr _, net) \<Rightarrow> (Inr (), h\<lparr>h_net := net, h_osc_counter := h_osc_counter h + 1\<rparr>))"

definition osc_generations ::
  "('a, 'm, 'd, 'w) worker_env \<Rightarrow> osc_worker \<Rightarrow> ('a, 'm, 'v) handler \<Rightarrow> worker_shared
     \<Rightarrow> osc_worker \<times> ('a, 'm, 'v) handler" where
  "osc_generations env ow h sh =
     (if wo_generation (ow_worker ow) \<noteq> wk_generation sh \<or> wo_route (ow_worker ow) \<noteq> wk_route sh
      then (ow\<lparr>ow_worker := (ow_worker ow)\<lparr>wo_generation := wk_generation sh, wo_route := wk_route sh\<rparr>,
              ow_reset_pending := True, ow_reset_retry := new_schedule (we_now env)\<rparr>, clear_osc h)
      else (ow, h))"

definition osc_configuration ::
  "(osc_message \<Rightarrow> 'd) \<Rightarrow> ('a, 'm, 'e, 'w) worker_env \<Rightarrow> osc_worker \<Rightarrow> ('a, 'm, 'd) osc_handler
     \<Rightarrow> worker_shared \<Rightarrow> osc_worker \<times> ('a, 'm, 'd) osc_handler" where
  "osc_configuration enc env ow h sh =
     (if wk_config_rev sh \<noteq> ow_cached_rev ow then
        let config = wk_config sh;
            (ow1, h1) =
              (if osc_output_route_changed (ow_previous ow) config then
                 (ow\<lparr>ow_reset_pending := True, ow_reset_retry := new_schedule (we_now env)\<rparr>,
                  clear_osc (case ow_client ow of None \<Rightarrow> h | Some t \<Rightarrow> snd (reset_target enc t h)))
               else (ow, h))
        in (ow1\<lparr>ow_previous := config, ow_snapshot := snapshot_of config, ow_cached_rev := wk_config_rev sh\<rparr>, h1)
      else (ow, h))"

definition osc_reset ::
  "(osc_message \<Rightarrow> 'd) \<Rightarrow> ('a, 'm, 'e, 'w) worker_env \<Rightarrow> osc_worker \<Rightarrow> ('a, 'm, 'd) osc_handler
     \<Rightarrow> osc_worker \<times> ('a, 'm, 'd) osc_handler" where
  "osc_reset enc env ow h =
     (if ow_reset_pending ow \<and> schedule_ready (we_now env) (ow_reset_retry ow) then
        (if \<not> cs_osc_enabled (ow_snapshot ow) then (ow\<lparr>ow_reset_pending := False\<rparr>, h)
         else case ow_client ow of
           None \<Rightarrow> (ow, h)
         | Some t \<Rightarrow>
             (case reset_target enc t h of
                (Inl _, h1) \<Rightarrow>
                  (ow\<lparr>ow_reset_retry := schedule_failed (we_now env) (ow_reset_retry ow)\<rparr>, h1)
              | (Inr _, h1) \<Rightarrow>
                  (let ow1 = ow\<lparr>ow_reset_pending := False, ow_reset_retry := new_schedule (we_now env)\<rparr>
                   in case osc_flush (resume_switch (target_client enc t)) (reset_sent (h_osc h1)) h1 of
                        (Inr _, st, h2) \<Rightarrow> (ow1, h2\<lparr>h_osc := st\<rparr>)
                      | (Inl _, st, h2) \<Rightarrow>
                          (ow1\<lparr>ow_reset_pending := True,
                               ow_reset_retry := schedule_failed (we_now env) (ow_reset_retry ow1)\<rparr>,
                           h2\<lparr>h_osc := st\<rparr>))))
      else (ow, h))"

definition osc_deliver ::
  "(osc_message \<Rightarrow> 'd) \<Rightarrow> ('a, 'm, target \<times> 'd, 'd osc_net) worker_env \<Rightarrow> osc_worker \<Rightarrow> midi_frame
     \<Rightarrow> ('a, 'm, 'd) osc_handler \<Rightarrow> ('a, 'm, 'd) osc_handler" where
  "osc_deliver enc env ow frame h =
     handle_midi_frame ((we_handler env)\<lparr>e_config := ow_snapshot ow,
       e_osc := (if ow_reset_pending ow then None else map_option (target_client enc) (ow_client ow)),
       e_deliver_audio := False, e_deliver_midi_thru := False,
       e_deliver_osc_ui := deliver_external frame\<rparr>) frame h"

definition osc_pass_end ::
  "(osc_message \<Rightarrow> 'd) \<Rightarrow> osc_worker \<Rightarrow> ('a, 'm, 'd) osc_handler \<Rightarrow> ('a, 'm, 'd) osc_handler" where
  "osc_pass_end enc ow h = (case ow_client ow of None \<Rightarrow> h | Some t \<Rightarrow> snd (reset_target enc t h))"

definition osc_worker_pass ::
  "(osc_message \<Rightarrow> 'd) \<Rightarrow> ('a, 'm, target \<times> 'd, 'd osc_net) worker_env \<Rightarrow> string + unit \<Rightarrow> osc_worker
     \<Rightarrow> ('a, 'm, 'd) osc_handler \<Rightarrow> worker_shared
     \<Rightarrow> bool \<times> osc_worker \<times> ('a, 'm, 'd) osc_handler \<times> worker_shared \<times> (fanout_frame \<times> u64 \<times> u64) list" where
  "osc_worker_pass enc env creation ow h sh =
     (if wk_stop sh then (False, ow, osc_pass_end enc ow h, sh, [])
      else
        case osc_generations env ow h sh of (ow1, h1) \<Rightarrow>
        (case osc_configuration enc env ow1 h1 sh of (ow2, h2) \<Rightarrow>
        (case osc_reset enc env (snd (update_osc_client (we_now env) creation ow2)) h2 of (ow3, h3) \<Rightarrow>
        (case worker_receive env (osc_deliver enc env ow3) (ow_worker ow3) h3 sh of
           (continue, wo, h4, sh4, done1) \<Rightarrow>
             (continue, ow3\<lparr>ow_worker := wo\<rparr>, if continue then h4 else osc_pass_end enc ow3 h4, sh4, done1)))))"

section \<open>What the destination was told\<close>

text \<open>
  The last position a destination was sent for a switch, in a log of messages with their targets;
  the message itself stands for its datagram.
\<close>

definition switch_address :: "u8 option \<Rightarrow> string" where
  "switch_address i = om_addr (switch_packet (\<lambda>m. m) i False)"

definition last_switch :: "target \<Rightarrow> u8 option \<Rightarrow> (target \<times> osc_message) list \<Rightarrow> bool option" where
  "last_switch t i log =
     (let ms = filter (\<lambda>(t', m). t' = t \<and> om_addr m = switch_address i) log
      in if ms = [] then None else Some (om_args (snd (last ms)) = [OscInt 1]))"

definition agrees :: "target \<Rightarrow> (target \<times> osc_message) list \<Rightarrow> osc_output_state \<Rightarrow> bool" where
  "agrees t log st \<longleftrightarrow> (\<forall>i \<in> osc_switches. last_switch t i log = Some (osc_sent st i)
     \<or> last_switch t i log = None \<and> \<not> osc_sent st i)"

lemma last_switch_snoc:
  "last_switch t i (log @ [(t', m)]) =
     (if t' = t \<and> om_addr m = switch_address i then Some (om_args m = [OscInt 1]) else last_switch t i log)"
  by (simp add: last_switch_def Let_def)

lemma switch_address_name: "switch_address i = switch_name i"
  by (simp add: switch_address_def switch_packet_def switch_name_def)

lemma switch_address_inj:
  assumes "i \<in> osc_switches" "j \<in> osc_switches" "switch_address i = switch_address j"
  shows "i = j"
  using switch_name_parts(4) [OF assms(1)] switch_name_parts(4) [OF assms(2)] assms(3)
  by (auto simp: switch_address_name)

abbreviation told :: "target \<Rightarrow> u8 option \<Rightarrow> bool \<Rightarrow> target \<times> osc_message" where
  "told t i p \<equiv> switch_packet (\<lambda>m. (t, m)) i p"

lemma told_parts:
  "fst (told t i p) = t" "om_addr (snd (told t i p)) = switch_address i"
  "(om_args (snd (told t i p)) = [OscInt 1]) = p"
  by (simp_all add: switch_packet_def switch_address_def)

lemma last_switch_told:
  assumes "i \<in> osc_switches" "j \<in> osc_switches"
  shows "last_switch t i (log @ [told t j p]) = (if i = j then Some p else last_switch t i log)"
  using switch_address_inj [OF assms] told_parts [of t j p]
  by (cases "told t j p") (auto simp: last_switch_snoc)

lemma last_switch_flush:
  assumes "set cs \<subseteq> osc_switches" "i \<in> osc_switches"
  shows "last_switch t i (log @ map (\<lambda>j. told t j (f j)) cs)
    = (if i \<in> set cs then Some (f i) else last_switch t i log)"
  using assms(1)
proof (induction cs rule: rev_induct)
  case Nil
  then show ?case by simp
next
  case (snoc j cs)
  then show ?case
    using last_switch_told [OF assms(2), of j t "log @ map (\<lambda>j. told t j (f j)) cs"]
    by (auto simp: append_assoc [symmetric] simp del: append_assoc)
qed

text \<open>Both closures of the worker are sinks: their packets reach the log, whatever else they change.\<close>

interpretation handler_sink: switch_sink "osc_switch (udp_client enc)"
    "\<lambda>h :: ('a, 'm, 'd udp) handler. udp_sent (h_net h)" "switch_packet enc" for enc
proof unfold_locales
  fix i p and w w' :: "('a, 'm, 'd udp) handler" and e
  show "udp_sent (h_net w') = udp_sent (h_net w) @ [switch_packet enc i p]"
    if "i \<in> osc_switches" "osc_switch (udp_client enc) i p w = (Inr (), w')"
    using that osc_sink.send_ok [of i enc p "h_net w"]
    by (auto simp: osc_switch_def split: prod.splits sum.splits)
  show "udp_sent (h_net w') = udp_sent (h_net w)" if "osc_switch (udp_client enc) i p w = (Inl e, w')"
    using that osc_sink.send_err [of enc i p "h_net w"]
    by (auto simp: osc_switch_def reset_route_def split: prod.splits sum.splits if_splits option.splits)
qed

interpretation resume_sink: switch_sink "resume_switch (udp_client enc)"
    "\<lambda>h :: ('a, 'm, 'd udp) handler. udp_sent (h_net h)" "switch_packet enc" for enc
proof unfold_locales
  fix i p and w w' :: "('a, 'm, 'd udp) handler" and e
  show "udp_sent (h_net w') = udp_sent (h_net w) @ [switch_packet enc i p]"
    if "i \<in> osc_switches" "resume_switch (udp_client enc) i p w = (Inr (), w')"
    using that osc_sink.send_ok [of i enc p "h_net w"]
    by (auto simp: resume_switch_def split: prod.splits sum.splits)
  show "udp_sent (h_net w') = udp_sent (h_net w)" if "resume_switch (udp_client enc) i p w = (Inl e, w')"
    using that osc_sink.send_err [of enc i p "h_net w"]
    by (auto simp: resume_switch_def split: prod.splits sum.splits)
qed

abbreviation net_log :: "('a, 'm, 'd) osc_handler \<Rightarrow> (target \<times> 'd) list" where
  "net_log h \<equiv> udp_sent (h_net h)"

lemma agrees_flush:
  assumes "agrees t log st"
    and "log' = log @ map (\<lambda>i. told t i (osc_wanted st i)) cs" "set cs \<subseteq> osc_switches"
    and "\<forall>i \<in> osc_switches. osc_sent st' i = (if i \<in> set cs then osc_wanted st i else osc_sent st i)"
  shows "agrees t log' st'"
  using assms last_switch_flush [OF assms(3)] by (simp add: agrees_def)

lemma delivered_of_complete:
  "first_fault (length ds) fs = None \<Longrightarrow> delivered_of ds fs = ds"
  by (induction ds fs rule: delivered_of.induct) auto

lemma reset_all_agrees:
  assumes "send_reset_all (target_client (\<lambda>m. m) t) net = (Inr (), net')"
  shows "agrees t (udp_sent net') (reset_sent st)"
proof -
  let ?enc = "\<lambda>m :: osc_message. (t, m)"
  let ?k1 = "?enc \<lparr>om_addr = PARAMETER_PATH @ ''K1'', om_args = [OscFloat 0]\<rparr>"
  let ?cs = "None # map Some note_indices"
  have "first_fault (length (reset_packets ?enc)) (udp_faults net) = None"
    and "udp_sent net' = udp_sent net @ delivered_of (reset_packets ?enc) (udp_faults net)"
    using send_reset_all_scripted [of ?enc net] assms
    by (auto simp: target_client_def split: option.splits)
  then have log: "udp_sent net' = (udp_sent net @ [?k1]) @ map (\<lambda>i. told t i False) ?cs"
    by (simp add: delivered_of_complete reset_packets_def)
  have cs: "set ?cs = osc_switches" by (auto simp: osc_switches_def set_note_indices)
  have "last_switch t i (udp_sent net') = Some False" if "i \<in> osc_switches" for i
    unfolding log last_switch_flush [OF equalityD1 [OF cs] that] using that cs by (simp only: if_True)
  then show ?thesis
    by (auto simp: agrees_def osc_sent_def reset_sent_def split: option.split)
qed

section \<open>The worker keeps its destination in step\<close>

abbreviation wanted_target :: "unit config_snapshot \<Rightarrow> target" where
  "wanted_target s \<equiv> (cs_osc_target_ip s, cs_osc_target_port s)"

definition osc_worker_ok :: "osc_worker \<Rightarrow> ('a, 'm, osc_message) osc_handler \<Rightarrow> bool" where
  "osc_worker_ok ow h \<longleftrightarrow>
     (\<forall>t. ow_client ow = Some t \<longrightarrow> \<not> ow_reset_pending ow \<longrightarrow> agrees t (net_log h) (h_osc h))
     \<and> (cs_osc_enabled (ow_snapshot ow) \<longrightarrow> ow_client ow = None \<longrightarrow> ow_reset_pending ow)
     \<and> (ow_target ow \<noteq> wanted_target (ow_snapshot ow) \<longrightarrow> ow_reset_pending ow)
     \<and> cs_osc_enabled (ow_snapshot ow) = oc_enabled (cfg_osc (ow_previous ow))
     \<and> wanted_target (ow_snapshot ow) = (oc_target_ip (cfg_osc (ow_previous ow)), oc_target_port (cfg_osc (ow_previous ow)))"

lemma osc_generations_ok:
  "osc_generations env ow h sh = (ow', h') \<Longrightarrow> osc_worker_ok ow h \<Longrightarrow> osc_worker_ok ow' h'"
  by (auto simp: osc_generations_def osc_worker_ok_def split: if_splits)

lemma osc_configuration_ok:
  assumes "osc_configuration enc env ow h sh = (ow', h')" "osc_worker_ok ow h"
  shows "osc_worker_ok ow' h'"
proof (cases "wk_config_rev sh \<noteq> ow_cached_rev ow \<and> osc_output_route_changed (ow_previous ow) (wk_config sh)")
  case True
  then show ?thesis using assms
    by (auto simp: osc_configuration_def osc_worker_ok_def Let_def snapshot_of_def)
next
  case False
  then have same: "oc_enabled (cfg_osc (ow_previous ow)) = oc_enabled (cfg_osc (wk_config sh))
      \<and> oc_target_ip (cfg_osc (ow_previous ow)) = oc_target_ip (cfg_osc (wk_config sh))
      \<and> oc_target_port (cfg_osc (ow_previous ow)) = oc_target_port (cfg_osc (wk_config sh))"
    if "wk_config_rev sh \<noteq> ow_cached_rev ow"
    using that by (simp add: osc_output_route_changed_def)
  show ?thesis using assms False same
    by (auto simp: osc_configuration_def osc_worker_ok_def snapshot_of_def Let_def split: if_splits)
qed

lemma update_osc_client_ok:
  assumes "osc_worker_ok ow h"
  shows "osc_worker_ok (snd (update_osc_client now creation ow)) h"
  using assms by (auto simp: update_osc_client_def osc_worker_ok_def Let_def split: sum.split)

lemma update_osc_client_settled:
  "ow_target (snd (update_osc_client now creation ow))
     = wanted_target (ow_snapshot (snd (update_osc_client now creation ow)))"
  "\<not> cs_osc_enabled (ow_snapshot (snd (update_osc_client now creation ow))) \<Longrightarrow>
     ow_client (snd (update_osc_client now creation ow)) = None"
  by (auto simp: update_osc_client_def Let_def split: sum.splits if_splits)

lemma osc_reset_ok:
  assumes "osc_reset (\<lambda>m. m) env ow h = (ow', h')" "osc_worker_ok ow h"
    and settled: "ow_target ow = wanted_target (ow_snapshot ow)"
      "\<not> cs_osc_enabled (ow_snapshot ow) \<Longrightarrow> ow_client ow = None"
  shows "osc_worker_ok ow' h'"
proof (cases "ow_reset_pending ow \<and> schedule_ready (we_now env) (ow_reset_retry ow)
    \<and> cs_osc_enabled (ow_snapshot ow) \<and> ow_client ow \<noteq> None")
  case False
  then show ?thesis using assms
    by (auto simp: osc_reset_def osc_worker_ok_def split: if_splits option.splits)
next
  case True
  then obtain t where t: "ow_client ow = Some t" by auto
  obtain r h1 where r: "reset_target (\<lambda>m. m) t h = (r, h1)" by fastforce
  show ?thesis
  proof (cases r)
    case (Inl e)
    then show ?thesis using assms True t r by (auto simp: osc_reset_def osc_worker_ok_def)
  next
    case (Inr u)
    have ag: "agrees t (net_log h1) (reset_sent (h_osc h1))"
      using r Inr reset_all_agrees [of t "h_net h"] by (auto simp: reset_target_def split: prod.splits)
    obtain r2 st h2 where f: "osc_flush (resume_switch (target_client (\<lambda>m. m) t)) (reset_sent (h_osc h1)) h1 = (r2, st, h2)"
      by (metis prod_cases3)
    have "agrees t (net_log h2) st"
      using resume_sink.osc_flush_changes [of "\<lambda>m. (t, m)" "reset_sent (h_osc h1)" h1 r2 st h2] f
        agrees_flush [OF ag] by (auto simp: target_client_def)
    moreover have "h' = h2\<lparr>h_osc := st\<rparr>" "ow_client ow' = Some t" "ow_snapshot ow' = ow_snapshot ow"
        "ow_target ow' = ow_target ow" "ow_previous ow' = ow_previous ow"
      using assms(1) True t r Inr f by (auto simp: osc_reset_def Let_def split: sum.splits)
    ultimately show ?thesis using assms(2) settled(1) by (simp add: osc_worker_ok_def)
  qed
qed

text \<open>A property of the handler's private part that every delivery keeps is kept by receiving.\<close>

lemma worker_batch_keeps:
  assumes "worker_batch env deliver k wo h sh = (wo', h', sh', done1)" "P h"
    and "\<And>f h. P h \<Longrightarrow> P (deliver f h)"
    and "\<And>h p r. P h \<Longrightarrow> P (h\<lparr>h_pipeline := p, h_route := r\<rparr>)"
  shows "P h'"
  using assms(1,2)
proof (induction k arbitrary: wo h sh wo' h' sh' done1)
  case 0
  then show ?case by simp
next
  case (Suc k)
  then show ?case
    by (auto simp: Let_def with_shared_def assms(3,4) split: if_splits prod.splits option.splits generation_action.splits)
qed

lemma worker_receive_keeps:
  assumes "worker_receive env deliver wo h sh = (continue, wo', h', sh', done1)" "P h"
    and "\<And>f h. P h \<Longrightarrow> P (deliver f h)"
    and "\<And>h p r. P h \<Longrightarrow> P (h\<lparr>h_pipeline := p, h_route := r\<rparr>)"
  shows "P h'"
proof -
  have batch: "P h2" if "worker_batch env deliver k wo1 h1 sh1 = (wo2, h2, sh2, d)" "P h1"
    for k wo1 h1 sh1 wo2 h2 sh2 d
    by (rule worker_batch_keeps [where P = P, OF that]) (use assms(3,4) in auto)
  show ?thesis
    using assms(1,2)
    by (auto simp: worker_receive_def Let_def with_shared_def assms(3,4) dest!: batch
        split: if_splits prod.splits option.splits generation_action.splits)
qed

lemma osc_sent_observe: "osc_sent (osc_observe st f) = osc_sent st"
proof -
  have "oo_sent_notes (osc_observe st f) = oo_sent_notes st \<and> oo_sent_sustain (osc_observe st f) = oo_sent_sustain st"
    by (simp add: osc_observe_def Let_def update_osc_source_def split: list.split)
  then show ?thesis by (simp add: osc_sent_def fun_eq_iff split: option.split)
qed

lemma osc_stage_agrees:
  assumes "agrees t (net_log h) (h_osc h)" "e_osc env = Some (target_client (\<lambda>m. m) t)"
  shows "agrees t (net_log (osc_stage env f h)) (h_osc (osc_stage env f h))"
proof -
  let ?h = "case midi_note_event_of (e_now_ms env) f of
                 None \<Rightarrow> h
               | Some event \<Rightarrow> h\<lparr>h_ui := snd (try_send event_critical (e_qpc env) event (h_ui h))\<rparr>"
  have h: "net_log ?h = net_log h" "h_osc ?h = h_osc h" by (simp_all split: option.split)
  obtain r st h' where f: "osc_flush (osc_switch (target_client (\<lambda>m. m) t)) (osc_observe (h_osc h) f) ?h = (r, st, h')"
    by (metis prod_cases3)
  have ag: "agrees t (net_log ?h) (osc_observe (h_osc h) f)"
    using assms(1) h by (simp add: agrees_def osc_sent_observe)
  from handler_sink.osc_flush_changes [OF f [unfolded target_client_def]] obtain cs where
    "net_log h' = net_log ?h @ map (\<lambda>i. told t i (osc_wanted (osc_observe (h_osc h) f) i)) cs"
    "set cs \<subseteq> osc_switches"
    "\<forall>i \<in> osc_switches. osc_sent st i = (if i \<in> set cs then osc_wanted (osc_observe (h_osc h) f) i
       else osc_sent (osc_observe (h_osc h) f) i)" by blast
  then have "agrees t (net_log h') st" by (rule agrees_flush [OF ag])
  then show ?thesis
    using assms f h by (simp add: osc_stage_def Let_def)
qed

lemma osc_deliver_agrees:
  assumes "agrees t (net_log h) (h_osc h)" "ow_client ow = Some t" "\<not> ow_reset_pending ow"
  shows "agrees t (net_log (osc_deliver (\<lambda>m. m) env ow f h)) (h_osc (osc_deliver (\<lambda>m. m) env ow f h))"
  using assms by (auto simp: osc_deliver_def handle_midi_frame_def Let_def intro!: osc_stage_agrees)

lemma osc_worker_pass_ok:
  assumes "osc_worker_pass (\<lambda>m. m) env creation ow h sh = (True, ow', h', sh', done1)"
    and "osc_worker_ok ow h"
  shows "osc_worker_ok ow' h'"
proof -
  obtain ow1 h1 where g: "osc_generations env ow h sh = (ow1, h1)" by fastforce
  obtain ow2 h2 where c: "osc_configuration (\<lambda>m. m) env ow1 h1 sh = (ow2, h2)" by fastforce
  let ?u = "snd (update_osc_client (we_now env) creation ow2)"
  obtain ow3 h3 where r: "osc_reset (\<lambda>m. m) env ?u h2 = (ow3, h3)" by fastforce
  obtain continue wo h4 sh4 d where w: "worker_receive env (osc_deliver (\<lambda>m. m) env ow3) (ow_worker ow3) h3 sh
      = (continue, wo, h4, sh4, d)" by (metis prod_cases5)
  have res: "ow' = ow3\<lparr>ow_worker := wo\<rparr>" "h' = h4"
    using assms(1) g c r w by (auto simp: osc_worker_pass_def split: if_splits)
  have "osc_worker_ok ow2 h2"
    using osc_configuration_ok [OF c osc_generations_ok [OF g assms(2)]] .
  then have "osc_worker_ok ow3 h3"
    by (intro osc_reset_ok [OF r] update_osc_client_ok update_osc_client_settled)
  moreover have "agrees t (net_log h4) (h_osc h4)"
    if "ow_client ow3 = Some t" "\<not> ow_reset_pending ow3" "agrees t (net_log h3) (h_osc h3)" for t
    by (rule worker_receive_keeps [where P = "\<lambda>h. agrees t (net_log h) (h_osc h)", OF w that(3)])
      (use osc_deliver_agrees [OF _ that(1,2)] in auto)
  ultimately show ?thesis by (simp add: osc_worker_ok_def res)
qed

text \<open>A run of the worker: for each pass its surroundings, the answer of \<open>OscClient::new\<close> and what others do
  before it; the first result says whether the worker is still running.\<close>

fun osc_worker_run ::
  "(('a, 'm, target \<times> osc_message, osc_message osc_net) worker_env \<times> (string + unit)
      \<times> (worker_shared \<Rightarrow> worker_shared)) list
     \<Rightarrow> osc_worker \<Rightarrow> ('a, 'm, osc_message) osc_handler \<Rightarrow> worker_shared
     \<Rightarrow> bool \<times> osc_worker \<times> ('a, 'm, osc_message) osc_handler \<times> worker_shared" where
  "osc_worker_run [] ow h sh = (True, ow, h, sh)"
| "osc_worker_run ((env, creation, between) # passes) ow h sh =
     (case osc_worker_pass (\<lambda>m. m) env creation ow h (between sh) of
        (continue, ow1, h1, sh1, _) \<Rightarrow>
          if continue then osc_worker_run passes ow1 h1 sh1 else (False, ow1, h1, sh1))"

definition start_osc_worker :: "nat \<Rightarrow> worker_shared \<Rightarrow> osc_worker" where
  "start_osc_worker now sh =
     (let config = wk_config sh; t = (oc_target_ip (cfg_osc config), oc_target_port (cfg_osc config)) in
      \<lparr>ow_worker = \<lparr>wo_generation = wk_generation sh, wo_route = wk_route sh, wo_pending = None\<rparr>,
       ow_snapshot = snapshot_of config, ow_previous = config, ow_cached_rev = 0, ow_client = Some t,
       ow_target = t, ow_reset_pending = False, ow_reset_retry = new_schedule now,
       ow_client_retry = new_schedule now\<rparr>)"

lemma osc_worker_run_ok:
  "osc_worker_run passes ow h sh = (True, ow', h', sh') \<Longrightarrow> osc_worker_ok ow h \<Longrightarrow> osc_worker_ok ow' h'"
  by (induction passes ow h sh arbitrary: ow' h' sh' rule: osc_worker_run.induct)
    (auto split: prod.splits if_splits dest: osc_worker_pass_ok)

text \<open>
  C3: the OSC worker knows what its destination shows. Through any passes - lost generations, changed
  configurations and targets, clients that cannot be created, resets and sends that fail at any
  point, any frames - whenever the worker has a client and no reset is outstanding, the last
  datagram the target was sent for each switch says what the worker believes it sent, and a
  switch believed off was never sent or last sent off. And it is never left without a reset
  outstanding when OSC is enabled but has no client.
\<close>

theorem osc_destination_in_step:
  assumes "osc_worker_run passes (start_osc_worker now sh0) h0 sh0 = (True, ow, h, sh)"
    and "udp_sent (h_net h0) = []" "h_osc h0 = default_osc_output"
  shows "(\<forall>t i. ow_client ow = Some t \<and> \<not> ow_reset_pending ow \<and> i \<in> osc_switches \<longrightarrow>
       (case last_switch t i (udp_sent (h_net h)) of
          Some p \<Rightarrow> p = osc_sent (h_osc h) i
        | None \<Rightarrow> \<not> osc_sent (h_osc h) i))
    \<and> (cs_osc_enabled (ow_snapshot ow) \<and> ow_client ow = None \<longrightarrow> ow_reset_pending ow)"
proof -
  have "osc_worker_ok (start_osc_worker now sh0) h0"
    using assms(2,3)
    by (auto simp: osc_worker_ok_def start_osc_worker_def Let_def snapshot_of_def agrees_def last_switch_def
        default_osc_output_def osc_sent_def split: option.split)
  then have ok: "osc_worker_ok ow h" by (rule osc_worker_run_ok [OF assms(1)])
  have "case last_switch t i (net_log h) of Some p \<Rightarrow> p = osc_sent (h_osc h) i | None \<Rightarrow> \<not> osc_sent (h_osc h) i"
    if "ow_client ow = Some t" "\<not> ow_reset_pending ow" "i \<in> osc_switches" for t i
  proof -
    have "agrees t (net_log h) (h_osc h)" using ok that(1,2) unfolding osc_worker_ok_def by blast
    then show ?thesis using that(3) by (cases "last_switch t i (net_log h)") (auto simp: agrees_def)
  qed
  then show ?thesis using ok unfolding osc_worker_ok_def by blast
qed


lemma osc_reset_done:
  assumes "ow_reset_pending ow" "schedule_ready (we_now env) (ow_reset_retry ow)" "cs_osc_enabled (ow_snapshot ow)"
    and "ow_client ow = Some t" "reset_target enc t h = (Inr (), h1)"
    and "osc_flush (resume_switch (target_client enc t)) (reset_sent (h_osc h1)) h1 = (Inr (), st, h2)"
  shows "osc_reset enc env ow h
    = (ow\<lparr>ow_reset_pending := False, ow_reset_retry := new_schedule (we_now env)\<rparr>, h2\<lparr>h_osc := st\<rparr>)"
  using assms by (simp add: osc_reset_def Let_def)

text \<open>A worker at work: the generation is raised before its first pass, so it resets its destination.\<close>

definition sample_osc_handler :: "(unit, unit, osc_message) osc_handler" where
  "sample_osc_handler = \<lparr>h_pipeline = sample_pipeline, h_rtp = default_rtp_route, h_audio = (), h_midi_out = None,
     h_active_notes = default_active_notes, h_route = None, h_osc = default_osc_output,
     h_net = \<lparr>udp_sent = [], udp_faults = []\<rparr>, h_osc_counter = 0, h_ui = bounded ''ui'' 16\<rparr>"

definition sample_shared :: worker_shared where
  "sample_shared = \<lparr>wk_pipeline = sample_pipeline, wk_rx = bounded ''osc'' 16, wk_config = default_app_config,
     wk_config_rev = 0, wk_panic_revision = 0, wk_stop = False\<rparr>"

definition sample_worker_env :: "(unit, unit, target \<times> osc_message, osc_message osc_net) worker_env" where
  "sample_worker_env = \<lparr>we_moves = (\<lambda>_ sh. sh), we_disconnected = False, we_frequency = 1, we_qpc = 0, we_now = 7,
     we_handler = \<lparr>e_config = snapshot_of default_app_config, e_osc = None,
       e_send_audio = (\<lambda>_ _ a. (Sent, a)), e_send_midi = (\<lambda>_ m. (Inr (), m)),
       e_now_ms = 0, e_qpc = 0, e_debug = False, e_pool = None, e_deliver_audio = False,
       e_deliver_midi_thru = False, e_deliver_osc_ui = True\<rparr>\<rparr>"

definition raise_generation :: "worker_shared \<Rightarrow> worker_shared" where
  "raise_generation sh = sh\<lparr>wk_pipeline := (wk_pipeline sh)\<lparr>pl_reset_generation := pl_reset_generation (wk_pipeline sh) + 1\<rparr>\<rparr>"

lemma flush_notes_settled: "flush_notes send notes indices notes w = (Inr (), notes, w)"
  by (induction indices) (simp_all add: Let_def)

lemma osc_flush_settled:
  "combined_notes st = oo_sent_notes st \<Longrightarrow> combined_sustain st = oo_sent_sustain st \<Longrightarrow>
     osc_flush send st w = (Inr (), st, w)"
  by (simp add: osc_flush_def flush_notes_settled)

theorem osc_destination_in_step_witness:
  "\<exists>ow h sh. osc_worker_run [(sample_worker_env, Inr (), raise_generation)] (start_osc_worker 7 sample_shared)
       sample_osc_handler sample_shared = (True, ow, h, sh)
     \<and> \<not> ow_reset_pending ow
     \<and> last_switch (''127.0.0.1'', 9000) (Some 40) (udp_sent (h_net h)) \<noteq> Some True"
proof -
  let ?t = "(''127.0.0.1'', 9000 :: u16)"
  let ?sh = "raise_generation sample_shared"
  let ?ow = "(start_osc_worker 7 sample_shared)\<lparr>ow_worker := \<lparr>wo_generation = 5, wo_route = 0, wo_pending = None\<rparr>,
      ow_reset_pending := True\<rparr>"
  have defs: "wk_generation sample_shared = 4" "wk_generation ?sh = 5" "wk_route sample_shared = 0" "wk_route ?sh = 0"
    "wk_stop ?sh = False" "wk_config_rev ?sh = 0" "wk_rx ?sh = bounded ''osc'' 16" "wk_config sample_shared = default_app_config"
    by (simp_all add: raise_generation_def sample_shared_def sample_pipeline_def midi_reset_generation_def
        bounded_def new_recovery_def)
  have enabled: "cs_osc_enabled (snapshot_of default_app_config :: unit config_snapshot)"
    "(cs_osc_target_ip (snapshot_of default_app_config :: unit config_snapshot),
      cs_osc_target_port (snapshot_of default_app_config :: unit config_snapshot)) = ?t"
    by (simp_all add: snapshot_of_def default_app_config_def default_osc_config_def Let_def)
  have start: "ow_client ?ow = Some ?t" "ow_target ?ow = ?t" "ow_snapshot ?ow = snapshot_of default_app_config"
    "ow_cached_rev ?ow = 0" "ow_reset_retry ?ow = new_schedule 7"
    by (simp_all add: start_osc_worker_def defs default_app_config_def default_osc_config_def Let_def)
  have gen: "osc_generations sample_worker_env (start_osc_worker 7 sample_shared) sample_osc_handler ?sh
      = (?ow, clear_osc sample_osc_handler)"
    by (simp add: osc_generations_def start_osc_worker_def defs Let_def sample_worker_env_def
        bounded_def new_recovery_def)
  have conf: "osc_configuration (\<lambda>m. m) sample_worker_env ?ow (clear_osc sample_osc_handler) ?sh
      = (?ow, clear_osc sample_osc_handler)"
    by (simp only: osc_configuration_def defs start simp_thms if_False)
  have upd: "snd (update_osc_client (we_now sample_worker_env) (Inr ()) ?ow) = ?ow"
    using enabled by (simp only: update_osc_client_def Let_def start) (use start(1) in simp)
  obtain net where reset: "reset_target (\<lambda>m. m) ?t (clear_osc sample_osc_handler)
      = (Inr (), (clear_osc sample_osc_handler)\<lparr>h_net := net\<rparr>)"
    using send_reset_all_scripted [of "\<lambda>m :: osc_message. (?t, m)" "h_net (clear_osc sample_osc_handler)"]
    by (simp add: reset_target_def target_client_def sample_osc_handler_def clear_osc_def)
  have flushed: "osc_flush send (reset_sent (osc_clear default_osc_output)) w
      = (Inr (), reset_sent (osc_clear default_osc_output), w)" for send and w :: "(unit, unit, osc_message) osc_handler"
    by (rule osc_flush_settled) (simp_all add: combined_notes_def combined_sustain_def reset_sent_def osc_clear_def
        default_osc_output_def)
  let ?ow3 = "?ow\<lparr>ow_reset_pending := False, ow_reset_retry := new_schedule 7\<rparr>"
  let ?h1 = "(clear_osc sample_osc_handler)\<lparr>h_net := net\<rparr>"
  let ?h3 = "?h1\<lparr>h_osc := reset_sent (osc_clear default_osc_output)\<rparr>"
  have now: "we_now sample_worker_env = 7" by (simp add: sample_worker_env_def)
  have cleared: "h_osc ?h1 = osc_clear default_osc_output" by (simp add: clear_osc_def sample_osc_handler_def)
  have ready: "schedule_ready (we_now sample_worker_env) (ow_reset_retry ?ow)"
    by (simp only: start(5) now) (simp add: schedule_ready_def new_schedule_def)
  have on: "ow_reset_pending ?ow" "cs_osc_enabled (ow_snapshot ?ow)"
    using enabled(1) by (simp, simp only: start(3))
  have h3: "osc_reset (\<lambda>m. m) sample_worker_env ?ow (clear_osc sample_osc_handler) = (?ow3, ?h3)"
    using osc_reset_done [OF on(1) ready on(2) start(1) reset flushed [folded cleared]] by (simp only: now cleared)
  have recv: "worker_receive sample_worker_env f (ow_worker ?ow3) ?h3 ?sh = (True, ow_worker ?ow3, ?h3, ?sh, [])" for f
    by (simp add: worker_receive_def try_recv_def defs bounded_def sample_worker_env_def)
  have "\<exists>sh1. osc_worker_pass (\<lambda>m. m) sample_worker_env (Inr ()) (start_osc_worker 7 sample_shared) sample_osc_handler ?sh
      = (True, ?ow3, ?h3, sh1, [])"
    unfolding osc_worker_pass_def gen prod.case conf upd h3 recv defs(5) by simp
  then obtain sh1 where run: "osc_worker_run [(sample_worker_env, Inr (), raise_generation)] (start_osc_worker 7 sample_shared)
       sample_osc_handler sample_shared = (True, ?ow3, ?h3, sh1)" by auto
  have "udp_sent (h_net sample_osc_handler) = []" "h_osc sample_osc_handler = default_osc_output"
    by (simp_all add: sample_osc_handler_def)
  from osc_destination_in_step [OF run this] start(1)
  have "case last_switch ?t (Some 40) (udp_sent (h_net ?h3)) of
      Some p \<Rightarrow> p = osc_sent (h_osc ?h3) (Some 40) | None \<Rightarrow> \<not> osc_sent (h_osc ?h3) (Some 40)"
    by (simp add: osc_switches_def)
  then have "last_switch ?t (Some 40) (udp_sent (h_net ?h3)) \<noteq> Some True"
    by (auto simp: reset_sent_def osc_sent_def)
  then show ?thesis using run by auto
qed

end
