(* ===== verification/Midi_Output.thy ===== *)
theory Midi_Output
  imports Workers
begin

text \<open>
  The MIDI output worker (\<open>spawn_midi_thru_worker\<close>) run against a device that remembers what it was
  sent, over a connection on which any send may fail: what the device sounds is what the worker tracks, but for notes
  that every message meant to end them failed to reach.
\<close>

section \<open>A device\<close>

text \<open>
  The effect of a message on the notes a device sounds. \<open>modes\<close> are the controllers on which it ends the notes of
  a channel: 120 and 123 for every device, and for one that follows the MIDI specification 120 and 123 to 127.
\<close>

definition device_effect :: "u8 set \<Rightarrow> bytes \<Rightarrow> (nat \<times> nat) set \<Rightarrow> (nat \<times> nat) set" where
  "device_effect modes data N =
     (case parse_note data of
        Some note \<Rightarrow>
          let key = (unat (mn_channel note - 1), unat (mn_note note))
          in if mn_kind note = NoteOn then insert key N else N - {key}
      | None \<Rightarrow>
          if data = [0xFF] then {}
          else if length data = 3 \<and> data ! 0 AND 0xF0 = 0xB0 \<and> data ! 1 \<in> modes
          then {(ch, n) \<in> N. ch \<noteq> unat (data ! 0 AND 0x0F)}
          else N)"

text \<open>
  A connection: what the device accepted, what failed on the way, and how the next sends will end. A send may fail and the
  next one succeed; when nothing is left the device is unplugged and every send fails.
\<close>

record port =
  port_log :: "bytes list"
  port_lost :: "bytes list"
  port_fates :: "bool list"

definition port_send :: "bytes \<Rightarrow> port \<Rightarrow> (string + unit) \<times> port" where
  "port_send message p =
     (case port_fates p of
        True # fates \<Rightarrow> (Inr (), p\<lparr>port_log := port_log p @ [message], port_fates := fates\<rparr>)
      | fates \<Rightarrow> (Inl ''not sent'', p\<lparr>port_lost := port_lost p @ [message], port_fates := drop 1 fates\<rparr>))"

definition fresh_port :: "bool list \<Rightarrow> port" where
  "fresh_port fates = \<lparr>port_log = [], port_lost = [], port_fates = fates\<rparr>"

definition heard :: "u8 set \<Rightarrow> port \<Rightarrow> (nat \<times> nat) set" where
  "heard modes p = fold (device_effect modes) (port_log p) {}"

text \<open>The three messages that end the note of a channel when a route is flushed.\<close>

definition endings :: "nat \<times> nat \<Rightarrow> bytes set" where
  "endings x = (case x of (ch, n) \<Rightarrow>
     {[0x80 OR of_nat ch, of_nat n, 0], [0xB0 OR of_nat ch, 120, 0], [0xB0 OR of_nat ch, 123, 0]})"

lemma device_effect_tracker: "device_effect {120, 123} = sound_effect"
  by (intro ext) (simp add: device_effect_def sound_effect_def)

lemma device_effect_modes:
  "modes \<subseteq> modes' \<Longrightarrow> device_effect modes' data N \<subseteq> device_effect modes data N"
  by (auto simp: device_effect_def Let_def split: option.splits)

lemma device_effect_mono: "A \<subseteq> B \<Longrightarrow> device_effect modes data A \<subseteq> device_effect modes data B"
  by (auto simp: device_effect_def Let_def split: option.splits)

lemma device_effect_union: "N \<subseteq> A \<union> B \<Longrightarrow> device_effect modes data N \<subseteq> device_effect modes data A \<union> B"
  by (auto simp: device_effect_def Let_def split: option.splits)

text \<open>What a flush sends starts no note, and each ending of a note ends it.\<close>

lemma control_status:
  assumes "ch < 16"
  shows "(0xB0 OR of_nat ch) AND 0xF0 = (0xB0 :: u8)" "(0xE0 OR of_nat ch) AND 0xF0 = (0xE0 :: u8)"
    "(0xB0 OR of_nat ch) AND 0x0F = (of_nat ch :: u8)"
proof -
  have "(of_nat ch :: u8) = of_nat ch AND 0x0F"
    using assms by (simp add: word_unat_eq_iff unat_low_nibble unat_of_nat)
  then show "(0xB0 OR of_nat ch) AND 0xF0 = (0xB0 :: u8)" "(0xE0 OR of_nat ch) AND 0xF0 = (0xE0 :: u8)"
    "(0xB0 OR of_nat ch) AND 0x0F = (of_nat ch :: u8)"
    using status_or_kind [of "0xB0" "of_nat ch :: u8"] status_or_kind [of "0xE0" "of_nat ch :: u8"] by simp_all
qed

lemma parse_control:
  assumes "ch < 16"
  shows "parse_note [0xB0 OR of_nat ch, c, v] = None" "parse_note [0xE0 OR of_nat ch, c, v] = None"
  using control_status [OF assms] by (simp_all add: parse_note_3)

definition starts_nothing :: "u8 set \<Rightarrow> bytes \<Rightarrow> bool" where
  "starts_nothing modes message \<longleftrightarrow> (\<forall>N. device_effect modes message N \<subseteq> N)"

lemma note_off_effect:
  assumes "ch < 16" "n < 128"
  shows "device_effect modes [0x80 OR of_nat ch, of_nat n, 0] N = N - {(ch, n)}"
  using assms
  by (simp add: device_effect_def parse_note_3 note_off_status word_le_nat_alt unat_of_nat Let_def)

lemma reset_messages_start_nothing:
  assumes "m \<in> set reset_messages"
  shows "starts_nothing modes m"
proof -
  obtain ch where ch: "ch < 16" and
    m: "m \<in> {[0xB0 OR of_nat ch, 64, 0], [0xB0 OR of_nat ch, 120, 0], [0xB0 OR of_nat ch, 121, 0],
      [0xB0 OR of_nat ch, 123, 0], [0xE0 OR of_nat ch, 0x00, 0x40]}"
    using assms by (auto simp: reset_messages_def)
  have "parse_note m = None" using m parse_control [OF ch] by auto
  then show ?thesis using m by (auto simp: starts_nothing_def device_effect_def)
qed

lemma endings_end:
  assumes "ch < 16" "n < 128" "{120, 123} \<subseteq> modes" "m \<in> endings (ch, n)"
  shows "(ch, n) \<notin> device_effect modes m N"
proof -
  consider "m = [0x80 OR of_nat ch, of_nat n, 0]" | c where "m = [0xB0 OR of_nat ch, c, 0]" "c \<in> modes"
    using assms(3,4) by (auto simp: endings_def)
  then show ?thesis
  proof cases
    case 1
    then show ?thesis by (simp add: note_off_effect [OF assms(1,2)])
  next
    case 2
    have "unat (of_nat ch :: u8) = ch" using assms(1) by (simp add: unat_of_nat)
    then show ?thesis
      using 2(2) control_status [OF assms(1)] parse_control [OF assms(1)] unfolding 2(1) device_effect_def
      by simp
  qed
qed

section \<open>Sends that may fail\<close>

lemma send_all_Cons: "send_all port_send (m # messages) p = send_all port_send messages (snd (port_send m p))"
  by (simp add: send_all_def)

lemma port_send_cases:
  obtains (sent) p' where "port_send m p = (Inr (), p')" "port_log p' = port_log p @ [m]" "port_lost p' = port_lost p"
  | (failed) e p' where "port_send m p = (Inl e, p')" "port_log p' = port_log p" "port_lost p' = port_lost p @ [m]"
proof (cases "port_fates p")
  case Nil
  then show thesis by (auto simp: port_send_def intro: failed)
next
  case (Cons a fates)
  then show thesis by (cases a) (auto simp: port_send_def intro: sent failed)
qed

lemma send_all_lost: "set (port_lost p) \<subseteq> set (port_lost (send_all port_send messages p))"
proof (induction messages arbitrary: p)
  case Nil
  then show ?case by (simp add: send_all_def)
next
  case (Cons m messages)
  have "set (port_lost p) \<subseteq> set (port_lost (snd (port_send m p)))"
    by (cases rule: port_send_cases [of m p]) auto
  then show ?case using Cons [of "snd (port_send m p)"] unfolding send_all_Cons by blast
qed

lemma send_all_heard:
  assumes "\<forall>m \<in> set messages. starts_nothing modes m"
  shows "heard modes (send_all port_send messages p) \<subseteq> heard modes p"
  using assms
proof (induction messages arbitrary: p)
  case Nil
  then show ?case by (simp add: send_all_def)
next
  case (Cons m messages)
  have "heard modes (snd (port_send m p)) \<subseteq> heard modes p"
    using Cons.prems by (cases rule: port_send_cases [of m p]) (auto simp: heard_def starts_nothing_def)
  then show ?case using Cons.IH [of "snd (port_send m p)"] Cons.prems unfolding send_all_Cons by auto
qed

text \<open>A note still heard after its ending was sent: that send failed.\<close>

lemma send_all_ended:
  assumes "\<forall>m \<in> set messages. starts_nothing modes m" "m \<in> set messages" "\<And>N. x \<notin> device_effect modes m N"
    and "x \<in> heard modes (send_all port_send messages p)"
  shows "m \<in> set (port_lost (send_all port_send messages p))"
  using assms(1,2,4)
proof (induction messages arbitrary: p)
  case (Cons m1 messages)
  let ?p = "snd (port_send m1 p)"
  show ?case
  proof (cases "m \<in> set messages")
    case True
    then show ?thesis using Cons.IH [of ?p] Cons.prems unfolding send_all_Cons by auto
  next
    case False
    then have m1: "m1 = m" using Cons.prems(2) by simp
    have "x \<in> heard modes ?p"
      using send_all_heard [of messages modes ?p] Cons.prems unfolding send_all_Cons by auto
    then have "m \<in> set (port_lost ?p)"
      using assms(3) by (cases rule: port_send_cases [of m1 p]) (auto simp: heard_def m1)
    then show ?thesis using send_all_lost [of ?p messages] unfolding send_all_Cons by blast
  qed
qed simp

section \<open>Flushing\<close>

text \<open>
  A note is \<open>abandoned\<close> when none of the messages that would end it reached the device. What the device sounds is
  tracked or abandoned, and what is tracked was sent; \<open>quiet\<close> says that nothing is tracked.
\<close>

definition abandoned :: "port \<Rightarrow> nat \<times> nat \<Rightarrow> bool" where
  "abandoned p x \<longleftrightarrow> endings x \<subseteq> set (port_lost p)"

definition port_in_step :: "u8 set \<Rightarrow> ('a, port, 'w) handler \<Rightarrow> bool" where
  "port_in_step modes h \<longleftrightarrow> length (h_active_notes h) = 16 \<and>
     (\<forall>p. h_midi_out h = Some p \<longrightarrow>
        heard modes p \<subseteq> sounding (h_active_notes h) \<union> {x. abandoned p x}
        \<and> sounding (h_active_notes h) \<subseteq> heard {120, 123} p)"

definition quiet :: "u8 set \<Rightarrow> ('a, port, 'w) handler \<Rightarrow> bool" where
  "quiet modes h \<longleftrightarrow> port_in_step modes h \<and> (h_midi_out h \<noteq> None \<longrightarrow> sounding (h_active_notes h) = {})"

lemma quiet_in_step: "quiet modes h \<Longrightarrow> port_in_step modes h"
  by (simp add: quiet_def)

lemma sounding_zeros: "sounding (map (\<lambda>_. 0) notes) = {}"
  by (auto simp: sounding_def)

lemma reset_messages_complete:
  assumes "ch < 16"
  shows "[0xB0 OR of_nat ch, 120, 0] \<in> set reset_messages" "[0xB0 OR of_nat ch, 123, 0] \<in> set reset_messages"
  using assms by (auto simp: reset_messages_def intro: bexI [of _ ch])

lemma heard_bound: "heard modes p \<subseteq> {..<16} \<times> {..<128}"
proof -
  have "fold (device_effect modes) messages N \<subseteq> {..<16} \<times> {..<128}" if "N \<subseteq> {..<16} \<times> {..<128}" for messages N
    using that
  proof (induction messages arbitrary: N)
    case (Cons m messages)
    have "device_effect modes m N \<subseteq> {..<16} \<times> {..<128}"
      using Cons.prems parse_note_bounds [of m] by (auto simp: device_effect_def Let_def split: option.splits if_splits)
    then show ?case using Cons.IH by simp
  qed simp
  then show ?thesis by (simp add: heard_def)
qed

lemma flush_silences:
  assumes "length (h_active_notes h) = 16" "{120, 123} \<subseteq> modes"
    and "\<And>p. h_midi_out h = Some p \<Longrightarrow> heard modes p \<subseteq> sounding (h_active_notes h) \<union> {x. abandoned p x}"
  shows "quiet modes (flush_midi_output port_send h)"
proof (cases "h_midi_out h")
  case None
  then show ?thesis using assms(1) by (simp add: flush_midi_output_def quiet_def port_in_step_def)
next
  case (Some p)
  obtain releases where r: "active_release_all (h_active_notes h) = (releases, map (\<lambda>_. 0) (h_active_notes h))"
    by (simp add: active_release_all_def)
  have sent: "set releases = {[0x80 OR of_nat ch, of_nat n, 0] | ch n. (ch, n) \<in> sounding (h_active_notes h)}"
    using set_release_all [OF assms(1)] r by simp
  let ?messages = "releases @ reset_messages"
  let ?p = "send_all port_send ?messages p"
  have harmless: "\<forall>m \<in> set ?messages. starts_nothing modes m"
  proof
    fix m
    assume "m \<in> set ?messages"
    then consider ch n where "m = [0x80 OR of_nat ch, of_nat n, 0]" "(ch, n) \<in> sounding (h_active_notes h)"
      | "m \<in> set reset_messages" using sent by auto
    then show "starts_nothing modes m"
    proof cases
      case 1
      then show ?thesis using sounding_bound [OF assms(1) 1(2)] by (auto simp: starts_nothing_def note_off_effect)
    qed (rule reset_messages_start_nothing)
  qed
  have "abandoned ?p (ch, n)" if x: "(ch, n) \<in> heard modes ?p" for ch n
  proof -
    have before: "(ch, n) \<in> heard modes p" using send_all_heard [OF harmless] x by blast
    then have bounds: "ch < 16" "n < 128" using heard_bound by blast+
    note lost = send_all_ended [OF harmless _ endings_end [OF bounds assms(2)] x]
    have "[0x80 OR of_nat ch, of_nat n, 0] \<in> set (port_lost ?p)"
    proof (cases "(ch, n) \<in> sounding (h_active_notes h)")
      case True
      then have "[0x80 OR of_nat ch, of_nat n, 0] \<in> set ?messages" using sent by auto
      then show ?thesis by (rule lost) (simp add: endings_def)
    next
      case False
      then have "abandoned p (ch, n)" using before assms(3) [OF Some] by blast
      then show ?thesis using send_all_lost [of p ?messages] by (auto simp: abandoned_def endings_def)
    qed
    moreover have "[0xB0 OR of_nat ch, c, 0] \<in> set (port_lost ?p)" if "c = 120 \<or> c = 123" for c
      by (rule lost) (use that reset_messages_complete [OF bounds(1)] in \<open>auto simp: endings_def\<close>)
    ultimately show ?thesis by (simp add: abandoned_def endings_def)
  qed
  then show ?thesis using Some r assms(1)
    by (auto simp: flush_midi_output_def quiet_def port_in_step_def sounding_zeros)
qed

lemma flush_in_step: "{120, 123} \<subseteq> modes \<Longrightarrow> port_in_step modes h \<Longrightarrow> quiet modes (flush_midi_output port_send h)"
  by (rule flush_silences) (auto simp: port_in_step_def)

lemma flush_connected:
  assumes "length (h_active_notes h) = 16" "connection = None \<or> (\<exists>fates. connection = Some (fresh_port fates))"
    and "{120, 123} \<subseteq> modes"
  shows "quiet modes (flush_midi_output port_send (h\<lparr>h_midi_out := connection\<rparr>))"
  by (rule flush_silences) (use assms in \<open>auto simp: heard_def fresh_port_def\<close>)

lemma clear_osc_parts [simp]:
  "h_active_notes (clear_osc h) = h_active_notes h" "h_midi_out (clear_osc h) = h_midi_out h"
  by (simp_all add: clear_osc_def)

lemma clear_osc_kept [simp]: "port_in_step modes (clear_osc h) = port_in_step modes h" "quiet modes (clear_osc h) = quiet modes h"
  by (simp_all add: quiet_def port_in_step_def)



section \<open>The worker against devices\<close>

lemma thru_stage_in_step:
  assumes "port_in_step modes h" "e_send_midi env = port_send" "{120, 123} \<subseteq> modes"
  shows "port_in_step modes (thru_stage env f h)"
proof (cases "h_midi_out h")
  case None
  then show ?thesis using assms by (simp add: thru_stage_def)
next
  case (Some p)
  have len: "length (h_active_notes h) = 16" using assms(1) by (simp add: port_in_step_def)
  note observe = active_observe_refines [OF len, of "frame_data f"]
  show ?thesis
  proof (cases rule: port_send_cases [of "frame_data f" p])
    case (failed e p')
    then show ?thesis using Some assms(2) len
      by (simp add: thru_stage_def reset_route_def port_in_step_def split: option.split)
  next
    case (sent p')
    let ?N = "sounding (h_active_notes h)"
    have "heard modes p \<subseteq> ?N \<union> {x. abandoned p x}" and tracked: "?N \<subseteq> heard {120, 123} p"
      using assms(1) Some by (auto simp: port_in_step_def)
    then have "device_effect modes (frame_data f) (heard modes p)
        \<subseteq> device_effect modes (frame_data f) ?N \<union> {x. abandoned p x}"
      by (intro device_effect_union)
    also have "\<dots> \<subseteq> sound_effect (frame_data f) ?N \<union> {x. abandoned p x}"
      using device_effect_modes [OF assms(3)] device_effect_tracker by auto
    finally have "heard modes p' \<subseteq> sound_effect (frame_data f) ?N \<union> {x. abandoned p' x}"
      using sent by (simp add: heard_def abandoned_def)
    moreover have "sound_effect (frame_data f) ?N \<subseteq> heard {120, 123} p'"
      using device_effect_mono [OF tracked, of "{120, 123}" "frame_data f"] sent
      by (simp add: heard_def device_effect_tracker)
    ultimately show ?thesis using sent Some assms(2) observe by (simp add: thru_stage_def port_in_step_def)
  qed
qed

lemma thru_deliver_in_step:
  assumes "port_in_step modes h" "e_send_midi (we_handler env) = port_send" "{120, 123} \<subseteq> modes"
  shows "port_in_step modes (thru_deliver env tw f h)"
proof -
  have keep: "port_in_step modes (h\<lparr>h_pipeline := p\<rparr>)" for p
    using assms(1) by (simp add: port_in_step_def)
  have "port_in_step modes (thru_stage env f (h\<lparr>h_pipeline := p\<rparr>))" if "e_send_midi env = port_send"
    for env :: "('a, port, 'c, 'b) handler_env" and p
    by (rule thru_stage_in_step [OF keep that assms(3)])
  then show ?thesis using assms keep by (auto simp: thru_deliver_def handle_midi_frame_def Let_def)
qed

lemma thru_generations_in_step:
  assumes "thru_generations env tw h sh = (tw', h')" "port_in_step modes h" "e_send_midi (we_handler env) = port_send"
    and modes: "{120, 123} \<subseteq> modes"
  shows "port_in_step modes h'"
    and "wk_panic_revision sh \<noteq> tw_cached_panic tw \<or> wo_generation (tw_worker tw) \<noteq> wk_generation sh
        \<or> wo_route (tw_worker tw) \<noteq> wk_route sh \<Longrightarrow> quiet modes h'"
  using assms flush_in_step [OF modes assms(2)]
  by (auto simp: thru_generations_def quiet_in_step split: if_splits)

text \<open>Finding a port: \<open>names\<close> tells for each name whether it is there, how its sends will end, and its full name.\<close>

definition connect_port :: "(string \<Rightarrow> (bool list \<times> string) option) \<Rightarrow> string \<Rightarrow> (port \<times> string) option" where
  "connect_port names name = map_option (\<lambda>(fates, full). (fresh_port fates, full)) (names name)"

lemma open_output_fresh:
  "open_output (connect_port names) config = (connection, connected) \<Longrightarrow>
     connection = None \<or> (\<exists>fates. connection = Some (fresh_port fates))"
  by (auto simp: open_output_def connect_port_def split: option.splits if_splits)

lemma thru_configuration_in_step:
  assumes "thru_configuration env (connect_port names) tw h sh = (tw', h')" "port_in_step modes h"
    and "e_send_midi (we_handler env) = port_send" and modes: "{120, 123} \<subseteq> modes"
  shows "port_in_step modes h'" "quiet modes h \<Longrightarrow> quiet modes h'"
proof -
  let ?h1 = "if midi_output_route_changed (tw_previous tw) (wk_config sh)
    then clear_osc (flush_midi_output port_send h) else h"
  have h1: "port_in_step modes ?h1" "quiet modes h \<Longrightarrow> quiet modes ?h1"
    using flush_in_step [OF modes assms(2)] assms(2) by (auto simp: quiet_in_step)
  then have len: "length (h_active_notes ?h1) = 16" by (simp add: port_in_step_def)
  obtain connection connected where o: "open_output (connect_port names) (wk_config sh) = (connection, connected)"
    by fastforce
  note new = flush_connected [OF len open_output_fresh [OF o] modes]
  have "h' = h \<or> h' = ?h1 \<or> h' = flush_midi_output port_send (?h1\<lparr>h_midi_out := connection\<rparr>)"
    using assms(1,3) o by (simp add: thru_configuration_def Let_def split: if_splits)
  then consider "h' = h" | "h' = ?h1" | "quiet modes h'" using new by blast
  then have "port_in_step modes h' \<and> (quiet modes h \<longrightarrow> quiet modes h')"
  proof cases
    case 1
    then show ?thesis using assms(2) by simp
  next
    case 2
    show ?thesis unfolding 2 using h1 by blast
  next
    case 3
    then show ?thesis using quiet_in_step by blast
  qed
  then show "port_in_step modes h'" "quiet modes h \<Longrightarrow> quiet modes h'" by simp_all
qed

lemma thru_reconnect_in_step:
  assumes "thru_reconnect env (connect_port names) tw h sh = (tw', h')" "port_in_step modes h"
    and "e_send_midi (we_handler env) = port_send" and modes: "{120, 123} \<subseteq> modes"
  shows "port_in_step modes h'" "quiet modes h \<Longrightarrow> quiet modes h'"
proof -
  have len: "length (h_active_notes h) = 16" using assms(2) by (simp add: port_in_step_def)
  obtain connection connected where o: "open_output (connect_port names) (wk_config sh) = (connection, connected)"
    by fastforce
  note new = flush_connected [OF len open_output_fresh [OF o] modes]
  have "h' = h \<or> h' = flush_midi_output port_send (h\<lparr>h_midi_out := connection\<rparr>)"
    using assms(1,3) o by (auto simp: thru_reconnect_def Let_def split: if_splits)
  then show "port_in_step modes h'" "quiet modes h \<Longrightarrow> quiet modes h'"
    using new assms(2) quiet_in_step by metis+
qed

text \<open>A pass that delivers nothing leaves the handler as it was.\<close>

lemma worker_receive_nothing:
  "worker_receive env deliver wo h sh = (continue, wo', h', sh', []) \<Longrightarrow> h' = h"
  by (auto simp: worker_receive_def Let_def split: prod.splits option.splits generation_action.splits)

lemma thru_pass_in_step:
  assumes "thru_pass env (connect_port names) tw h sh = (continue, tw', h', sh', done1)" "port_in_step modes h"
    and send: "e_send_midi (we_handler env) = port_send" and modes: "{120, 123} \<subseteq> modes"
  shows "port_in_step modes h'" "\<not> continue \<Longrightarrow> quiet modes h'"
    and "done1 = [] \<Longrightarrow> wk_panic_revision sh \<noteq> tw_cached_panic tw \<or> wo_generation (tw_worker tw) \<noteq> wk_generation sh
        \<or> wo_route (tw_worker tw) \<noteq> wk_route sh \<Longrightarrow> quiet modes h'"
proof -
  obtain tw1 h1 where g: "thru_generations env tw h sh = (tw1, h1)" by fastforce
  obtain tw2 h2 where c: "thru_configuration env (connect_port names) tw1 h1 sh = (tw2, h2)" by fastforce
  obtain tw3 h3 where r: "thru_reconnect env (connect_port names) tw2 h2 sh = (tw3, h3)" by fastforce
  obtain cont wo h4 sh4 d where w: "worker_receive env (thru_deliver env tw3) (tw_worker tw3) h3 sh
      = (cont, wo, h4, sh4, d)" by (metis prod_cases5)
  note g' = thru_generations_in_step [OF g assms(2) send modes]
  note c' = thru_configuration_in_step [OF c g'(1) send modes]
  note r' = thru_reconnect_in_step [OF r c'(1) send modes]
  have h4: "port_in_step modes h4"
    by (rule worker_receive_keeps [where P = "port_in_step modes", OF w r'(1)])
      (rule thru_deliver_in_step [OF _ send modes], assumption, simp add: port_in_step_def)
  note quiet4 = flush_in_step [OF modes h4] and quiet0 = flush_in_step [OF modes assms(2)]
  have res: "if wk_stop sh then \<not> continue \<and> h' = flush_midi_output port_send h
     else continue = cont \<and> done1 = d \<and> h' = (if cont then h4 else flush_midi_output port_send h4)"
    using assms(1) g c r w send by (simp add: thru_pass_def split: if_splits)
  show "port_in_step modes h'" using res h4 quiet_in_step [OF quiet4] quiet_in_step [OF quiet0]
    by (simp split: if_splits)
  show "\<not> continue \<Longrightarrow> quiet modes h'" using res quiet4 quiet0 by (auto split: if_splits)
  show "quiet modes h'" if "done1 = []" "wk_panic_revision sh \<noteq> tw_cached_panic tw \<or> wo_generation (tw_worker tw) \<noteq> wk_generation sh
        \<or> wo_route (tw_worker tw) \<noteq> wk_route sh"
  proof -
    have "quiet modes h3" using r'(2) c'(2) g'(2) [OF that(2)] by blast
    moreover have "h4 = h3" if "\<not> wk_stop sh"
      using w res that \<open>done1 = []\<close> worker_receive_nothing by auto
    ultimately show ?thesis using res quiet4 quiet0 by (auto split: if_splits)
  qed
qed

text \<open>A run: each pass with its surroundings, the ports it can find and what others do before it.\<close>

fun thru_worker_run ::
  "(('a, port, 'd, 'w) worker_env \<times> (string \<Rightarrow> (bool list \<times> string) option) \<times> (worker_shared \<Rightarrow> worker_shared)) list
     \<Rightarrow> thru_worker \<Rightarrow> ('a, port, 'w) handler \<Rightarrow> worker_shared
     \<Rightarrow> bool \<times> thru_worker \<times> ('a, port, 'w) handler \<times> worker_shared" where
  "thru_worker_run [] tw h sh = (True, tw, h, sh)"
| "thru_worker_run ((env, names, between) # passes) tw h sh =
     (case thru_pass (env\<lparr>we_handler := (we_handler env)\<lparr>e_send_midi := port_send\<rparr>\<rparr>) (connect_port names) tw h
             (between sh) of
        (continue, tw1, h1, sh1, _) \<Rightarrow>
          if continue then thru_worker_run passes tw1 h1 sh1 else (False, tw1, h1, sh1))"

text \<open>The worker starts with the connection it is given, if any, and flushes it.\<close>

definition start_thru_worker ::
  "nat \<Rightarrow> worker_shared \<Rightarrow> ('a, port, 'w) handler \<Rightarrow> thru_worker \<times> ('a, port, 'w) handler" where
  "start_thru_worker now sh h =
     (\<lparr>tw_worker = \<lparr>wo_generation = wk_generation sh, wo_route = wk_route sh, wo_pending = None\<rparr>,
       tw_snapshot = snapshot_of (wk_config sh), tw_previous = wk_config sh, tw_cached_rev = 0,
       tw_cached_panic = wk_panic_revision sh, tw_out_name = mc_output_device (cfg_midi (wk_config sh)),
       tw_next_reconnect = now, tw_backoff = 500000000,
       tw_actual_out = mc_output_device (cfg_midi (wk_config sh))\<rparr>,
      flush_midi_output port_send (h\<lparr>h_active_notes := default_active_notes, h_osc := default_osc_output\<rparr>))"

lemma thru_worker_run_in_step:
  "thru_worker_run passes tw h sh = (continue, tw', h', sh') \<Longrightarrow> port_in_step modes h \<Longrightarrow> {120, 123} \<subseteq> modes \<Longrightarrow>
     port_in_step modes h' \<and> (\<not> continue \<longrightarrow> quiet modes h')"
proof (induction passes tw h sh rule: thru_worker_run.induct)
  case (1 tw h sh)
  then show ?case by simp
next
  case (2 env names between passes tw h sh)
  let ?env = "env\<lparr>we_handler := (we_handler env)\<lparr>e_send_midi := port_send\<rparr>\<rparr>"
  obtain c tw1 h1 sh1 d where p: "thru_pass ?env (connect_port names) tw h (between sh) = (c, tw1, h1, sh1, d)"
    by (metis prod_cases5)
  note step = thru_pass_in_step [OF p "2.prems"(2) _ "2.prems"(3)]
  show ?case
  proof (cases c)
    case True
    then have "thru_worker_run passes tw1 h1 sh1 = (continue, tw', h', sh')" using "2.prems"(1) p by simp
    moreover have "port_in_step modes h1" using step(1) by simp
    ultimately show ?thesis using "2.IH" [OF p [symmetric] refl refl refl True] "2.prems"(3) by blast
  next
    case False
    then show ?thesis using "2.prems"(1) p step by simp
  qed
qed

text \<open>
  C4: the MIDI output never forgets a note. Whatever configurations, reconnections, panics, lost frames, failed sends
  and unplugged devices the worker goes through, a note that sounds on its device is one the worker tracks, or
  one whose Note Off, All Sound Off and All Notes Off all failed on this connection; every note it tracks was sent, and not
  ended since by what it sent. When a pass notices a panic or a raised generation and delivers nothing after it, and when
  the worker has stopped, it tracks nothing, so only a note of the second kind can still sound. The device may end notes on
  further controllers (124 to 127 in the MIDI specification).
\<close>

theorem midi_output_in_step:
  assumes "start_thru_worker now sh0 h0 = (tw1, h1)" "\<forall>p. h_midi_out h0 = Some p \<longrightarrow> port_log p = []"
    and "thru_worker_run passes tw1 h1 sh0 = (True, tw, h, sh)"
    and "thru_pass env (connect_port names) tw h sh1 = (continue, tw', h', sh', delivered)"
    and "e_send_midi (we_handler env) = port_send"
    and "h_midi_out h' = Some p" "{120, 123} \<subseteq> modes"
  shows "fold (device_effect modes) (port_log p) {}
      \<subseteq> sounding (h_active_notes h') \<union> {x. endings x \<subseteq> set (port_lost p)}
    \<and> sounding (h_active_notes h') \<subseteq> fold (device_effect {120, 123}) (port_log p) {}
    \<and> (\<not> continue
      \<or> delivered = [] \<and> (wk_panic_revision sh1 \<noteq> tw_cached_panic tw
          \<or> wo_generation (tw_worker tw) \<noteq> wk_generation sh1
          \<or> wo_route (tw_worker tw) \<noteq> wk_route sh1)
      \<longrightarrow> sounding (h_active_notes h') = {})"
proof -
  have "port_in_step modes (h0\<lparr>h_active_notes := default_active_notes, h_osc := default_osc_output\<rparr>)"
    using assms(2) sounding_zeros [of default_active_notes]
    by (auto simp: port_in_step_def heard_def default_active_notes_def)
  then have "port_in_step modes h1"
    using assms(1) flush_in_step [OF assms(7)] quiet_in_step unfolding start_thru_worker_def by auto
  then have "port_in_step modes h" using thru_worker_run_in_step [OF assms(3)] assms(7) by blast
  note step = thru_pass_in_step [OF assms(4) this assms(5,7)]
  have "heard modes p \<subseteq> sounding (h_active_notes h') \<union> {x. abandoned p x}"
    "sounding (h_active_notes h') \<subseteq> heard {120, 123} p"
    using step(1) assms(6) by (simp_all add: port_in_step_def)
  moreover have "sounding (h_active_notes h') = {}" if "quiet modes h'" using that assms(6) by (simp add: quiet_def)
  ultimately show ?thesis using step(2,3) unfolding heard_def abandoned_def by blast
qed

definition sample_thru_env :: "(unit, port, bytes, unit) worker_env" where
  "sample_thru_env = \<lparr>we_moves = (\<lambda>_ sh. sh), we_disconnected = False, we_frequency = 1, we_qpc = 0, we_now = 7,
     we_handler = \<lparr>e_config = snapshot_of default_app_config, e_osc = None,
       e_send_audio = (\<lambda>_ _ a. (Sent, a)), e_send_midi = port_send,
       e_now_ms = 0, e_qpc = 0, e_debug = False, e_pool = None, e_deliver_audio = False,
       e_deliver_midi_thru = True, e_deliver_osc_ui = False\<rparr>\<rparr>"

definition sample_thru_handler :: "(unit, port, unit) handler" where
  "sample_thru_handler = \<lparr>h_pipeline = sample_pipeline, h_rtp = default_rtp_route, h_audio = (),
     h_midi_out = Some (fresh_port (replicate 1000 True)), h_active_notes = default_active_notes, h_route = None,
     h_osc = default_osc_output, h_net = (), h_osc_counter = 0, h_ui = bounded ''ui'' 16\<rparr>"

text \<open>A Note On arrives for the worker.\<close>

definition note_arrives :: "worker_shared \<Rightarrow> worker_shared" where
  "note_arrives sh = sh\<lparr>wk_rx := (wk_rx sh)\<lparr>q_entries := [\<lparr>queued_qpc = 0, entry_value =
     \<lparr>ff_frame = sample_frame 4 [0x90, 60, 100], ff_generation = 4, ff_route_generation = 0\<rparr>, entry_permit = False\<rparr>]\<rparr>\<rparr>"

lemma length_reset_messages: "length reset_messages = 80"
  by (simp add: reset_messages_def length_concat comp_def sum_list_triv)

lemma send_all_fates: "port_fates p = replicate (length messages + k) True \<Longrightarrow>
    port_fates (send_all port_send messages p) = replicate k True"
proof (induction messages arbitrary: p)
  case Nil
  then show ?case by (simp add: send_all_def)
next
  case (Cons m messages)
  then have "port_fates (snd (port_send m p)) = replicate (length messages + k) True" by (simp add: port_send_def)
  then show ?case unfolding send_all_Cons by (rule Cons.IH)
qed

lemma nothing_released: "active_release_all default_active_notes = ([], default_active_notes)"
proof -
  have "sounding default_active_notes = {}" by (auto simp: sounding_def default_active_notes_def)
  then have "set (fst (active_release_all default_active_notes)) = {}"
    using set_release_all [of default_active_notes] by (simp add: default_active_notes_def)
  moreover have "snd (active_release_all default_active_notes) = default_active_notes"
    by (simp add: active_release_all_def default_active_notes_def)
  ultimately show ?thesis by (metis prod.collapse set_empty)
qed

lemma worker_batch_empty:
  assumes "\<And>i sh. we_moves env i sh = sh" "q_entries (wk_rx sh) = []"
  shows "worker_batch env deliver k wo h sh = (wo, h, sh, [])"
  by (cases k) (simp_all add: assms try_recv_def Let_def)

theorem midi_output_in_step_witness:
  "\<exists>tw1 h1 tw' h' sh' d p. start_thru_worker 7 sample_shared sample_thru_handler = (tw1, h1)
     \<and> thru_pass sample_thru_env (connect_port (\<lambda>_. None)) tw1 h1 (note_arrives sample_shared)
         = (True, tw', h', sh', [d])
     \<and> h_midi_out h' = Some p \<and> (0, 60) \<in> fold (device_effect {120, 123}) (port_log p) {}"
proof -
  let ?sh = "note_arrives sample_shared"
  obtain tw1 h1 where start: "start_thru_worker 7 sample_shared sample_thru_handler = (tw1, h1)" by fastforce
  define p0 where "p0 = send_all port_send reset_messages (fresh_port (replicate 1000 True))"
  have "port_fates p0 = replicate 920 True"
    unfolding p0_def by (rule send_all_fates) (simp add: length_reset_messages fresh_port_def)
  then have left: "port_fates p0 = True # replicate 919 True" using replicate_Suc [of 919 True] by simp
  have h1: "h1 = sample_thru_handler\<lparr>h_midi_out := Some p0\<rparr>"
    using start by (auto simp: start_thru_worker_def flush_midi_output_def sample_thru_handler_def nothing_released p0_def)
  have sh: "wk_generation sample_shared = 4" "wk_route sample_shared = 0" "wk_generation ?sh = 4" "wk_route ?sh = 0"
    "wk_stop ?sh = False" "wk_config_rev ?sh = 0" "wk_panic_revision ?sh = wk_panic_revision sample_shared"
    "wk_config sample_shared = default_app_config"
    by (simp_all add: note_arrives_def sample_shared_def sample_pipeline_def midi_reset_generation_def
        bounded_def new_recovery_def)
  have tw1: "tw_worker tw1 = \<lparr>wo_generation = 4, wo_route = 0, wo_pending = None\<rparr>" "tw_cached_rev tw1 = 0"
    "tw_cached_panic tw1 = wk_panic_revision sample_shared" "tw_snapshot tw1 = snapshot_of default_app_config"
    using start by (auto simp: start_thru_worker_def sh)
  have gen: "thru_generations sample_thru_env tw1 h1 ?sh = (tw1, h1)"
    by (simp only: thru_generations_def tw1 sh worker.simps simp_thms if_False)
  have conf: "thru_configuration sample_thru_env (connect_port (\<lambda>_. None)) tw1 h1 ?sh = (tw1, h1)"
    by (simp only: thru_configuration_def tw1 sh simp_thms if_False)
  have conn: "thru_reconnect sample_thru_env (connect_port (\<lambda>_. None)) tw1 h1 ?sh = (tw1, h1)"
    by (simp add: thru_reconnect_def h1)
  let ?env = "\<lparr>ff_frame = sample_frame 4 [0x90, 60, 100], ff_generation = 4, ff_route_generation = 0\<rparr>"
  obtain rx where recv: "try_recv (we_frequency sample_thru_env) (we_qpc sample_thru_env) (wk_rx ?sh) = (Some ?env, rx)"
    "q_entries rx = []" "rec_generation (q_recovery rx) = 0"
    by (simp add: try_recv_def note_arrives_def sample_shared_def rec_generation_kept bounded_def new_recovery_def)
  let ?sh2 = "?sh\<lparr>wk_rx := rx\<rparr>"
  obtain h3 sh3 where deliver: "with_shared (thru_deliver sample_thru_env tw1 (ff_frame ?env)) h1 ?sh2 = (h3, sh3)"
    by fastforce
  have frame: "accepts_channel (cs_channel_filter (tw_snapshot tw1)) [0x90, 60, 100]" "cs_midi_thru (tw_snapshot tw1)"
    "deliver_external (sample_frame 4 [0x90, 60, 100])" "frame_data (sample_frame 4 [0x90, 60, 100]) = [0x90, 60, 100]"
    by (simp_all add: tw1 snapshot_of_def default_app_config_def default_midi_config_def accepts_channel_def Let_def
        deliver_external_def sample_frame_def starts_with_def)
  have "h_midi_out h3 = Some (snd (port_send [0x90, 60, 100] p0))
      \<and> h_active_notes h3 = active_observe default_active_notes [0x90, 60, 100] \<and> q_entries (wk_rx sh3) = []"
    using deliver recv(2) left frame
    by (auto simp: with_shared_def thru_deliver_def handle_midi_frame_def Let_def h1 thru_stage_def sample_thru_env_def
        sample_thru_handler_def port_send_def)
  then have h3: "h_midi_out h3 = Some (snd (port_send [0x90, 60, 100] p0))"
    "h_active_notes h3 = active_observe default_active_notes [0x90, 60, 100]" "q_entries (wk_rx sh3) = []" by auto
  have still: "we_moves sample_thru_env i s = s" for i s by (simp add: sample_thru_env_def)
  have "envelope_action ?env (tw_worker tw1) ?sh2 = Ready"
    using recv(3) sh by (simp add: envelope_action_def generation_action_def tw1)
  then have "worker_receive sample_thru_env (thru_deliver sample_thru_env tw1) (tw_worker tw1) h1 ?sh
      = (True, tw_worker tw1, h3, sh3, [(?env, wk_generation ?sh2, wk_route ?sh2)])"
    using recv(1) deliver worker_batch_empty [OF still h3(3)] by (simp add: worker_receive_def tw1(1) still)
  then have pass: "thru_pass sample_thru_env (connect_port (\<lambda>_. None)) tw1 h1 ?sh
      = (True, tw1\<lparr>tw_worker := tw_worker tw1, tw_actual_out := tw_actual_out tw1\<rparr>, h3, sh3,
         [(?env, wk_generation ?sh2, wk_route ?sh2)])"
    by (simp add: thru_pass_def gen conf conn sh h3(1))
  have "\<forall>p. h_midi_out sample_thru_handler = Some p \<longrightarrow> port_log p = []"
    "e_send_midi (we_handler sample_thru_env) = port_send" "{120, 123} \<subseteq> {120, 123 :: u8}"
    by (simp_all add: sample_thru_handler_def fresh_port_def sample_thru_env_def)
  from midi_output_in_step [OF start this(1) thru_worker_run.simps(1) pass this(2) h3(1) this(3)]
  have "sounding (active_observe default_active_notes [0x90, 60, 100])
      \<subseteq> fold (device_effect {120, 123}) (port_log (snd (port_send [0x90, 60, 100] p0))) {}"
    using h3(2) by simp
  moreover have "sounding (active_observe default_active_notes [0x90, 60, 100]) = sound_effect [0x90, 60, 100] (sounding default_active_notes)"
    by (rule active_observe_refines(2)) (simp add: default_active_notes_def)
  moreover have "(0, 60) \<in> sound_effect [0x90, 60, 100] (sounding default_active_notes)"
    by (simp add: sound_effect_def parse_note_3 Let_def)
  ultimately show ?thesis using start pass h3(1) by blast
qed

end
