(* ===== verification/Playback_Wire.thy ===== *)
theory Playback_Wire
  imports Prelude
begin

text \<open>
  The frames of the reliable playback protocol (\<open>reliable_playback.rs\<close>): reading them from a TCP stream
  that delivers bytes in any pieces, with timeouts, and writing them. JSON is a parameter.
\<close>

section \<open>The stream\<close>

definition MAX_FRAME_BYTES :: nat where "MAX_FRAME_BYTES = 16 * 1024 * 1024"

text \<open>
  The errors of a read; \<open>retryable\<close> are those of kind \<open>WouldBlock\<close> and \<open>TimedOut\<close>. \<open>Broken\<close> is any
  other error of the socket.
\<close>

datatype frame_error =
    Stopping | PlaybackDone | DeadlinePassed | PeerClosed | NoData | Broken string | FrameTooLarge | BadJson string

definition retryable :: "frame_error \<Rightarrow> bool" where
  "retryable e \<longleftrightarrow> e \<in> {PlaybackDone, DeadlinePassed, NoData}"

text \<open>
  One turn of the reading loop: what the flags and the clock say, what \<open>read\<close> does (\<open>Got n\<close>: some bytes
  arrived, at most \<open>n\<close> and at least one are returned), and what they say after an idle read. The bytes
  the peer still has to send are a list; nothing arrives from an empty one.
\<close>

datatype stream_read = Got nat | Idle | Eof | Failure string

record poll =
  po_stop :: bool
  po_done :: bool
  po_expired :: bool
  po_read :: stream_read
  po_expired_after :: bool
  po_done_after :: bool

text \<open>
  \<open>read_exact_preserving_progress\<close>: \<open>watch\<close> and \<open>deadline\<close> say whether \<open>done\<close> and a deadline are given,
  \<open>idle\<close> is \<open>return_on_idle_timeout\<close>. A turn ends the call or leaves it with what was read so far and what
  is still to come; \<open>None\<close> is a call that is still reading when the turns are used up.
\<close>

definition idle_turn ::
  "bool \<Rightarrow> bool \<Rightarrow> bool \<Rightarrow> bytes \<Rightarrow> bytes \<Rightarrow> poll \<Rightarrow> frame_error + bytes \<times> bytes" where
  "idle_turn watch idle deadline got incoming p =
     (if deadline \<and> po_expired_after p then Inl DeadlinePassed
      else if got = [] \<and> idle \<or> watch \<and> po_done_after p then Inl NoData
      else Inr (got, incoming))"

definition read_turn ::
  "bool \<Rightarrow> bool \<Rightarrow> bool \<Rightarrow> nat \<Rightarrow> bytes \<Rightarrow> bytes \<Rightarrow> poll \<Rightarrow> frame_error + bytes \<times> bytes" where
  "read_turn watch idle deadline wanted got incoming p =
     (if po_stop p then Inl Stopping
      else if watch \<and> po_done p then Inl PlaybackDone
      else if deadline \<and> po_expired p then Inl DeadlinePassed
      else case po_read p of
        Eof \<Rightarrow> Inl PeerClosed
      | Failure e \<Rightarrow> Inl (Broken e)
      | Idle \<Rightarrow> idle_turn watch idle deadline got incoming p
      | Got n \<Rightarrow>
          if incoming = [] then idle_turn watch idle deadline got incoming p
          else let k = min (max 1 n) (wanted - length got) in Inr (got @ take k incoming, drop k incoming))"

fun read_exact_preserving_progress ::
  "bool \<Rightarrow> bool \<Rightarrow> bool \<Rightarrow> nat \<Rightarrow> bytes \<Rightarrow> bytes \<Rightarrow> poll list
     \<Rightarrow> ((frame_error + bytes) \<times> bytes \<times> poll list) option" where
  "read_exact_preserving_progress watch idle deadline wanted got incoming polls =
     (if wanted \<le> length got then Some (Inr got, incoming, polls)
      else case polls of
        [] \<Rightarrow> None
      | p # ps \<Rightarrow>
          (case read_turn watch idle deadline wanted got incoming p of
             Inl e \<Rightarrow> Some (Inl e, incoming, ps)
           | Inr (got', incoming') \<Rightarrow>
               read_exact_preserving_progress watch idle deadline wanted got' incoming' ps))"

declare read_exact_preserving_progress.simps [simp del]

text \<open>\<open>parse\<close> stands for \<open>serde_json::from_slice\<close>.\<close>

definition read_frame ::
  "(bytes \<Rightarrow> string + 'f) \<Rightarrow> bool \<Rightarrow> bool \<Rightarrow> bool \<Rightarrow> bytes \<Rightarrow> poll list
     \<Rightarrow> ((frame_error + 'f) \<times> bytes \<times> poll list) option" where
  "read_frame parse watch idle deadline incoming polls =
     (case read_exact_preserving_progress watch idle deadline 4 [] incoming polls of
        None \<Rightarrow> None
      | Some (Inl e, incoming1, polls1) \<Rightarrow> Some (Inl e, incoming1, polls1)
      | Some (Inr header, incoming1, polls1) \<Rightarrow>
          let size = unat (from_be_bytes header :: u32)
          in if size > MAX_FRAME_BYTES then Some (Inl FrameTooLarge, incoming1, polls1)
             else
               (case read_exact_preserving_progress watch False deadline size [] incoming1 polls1 of
                  None \<Rightarrow> None
                | Some (Inl e, incoming2, polls2) \<Rightarrow> Some (Inl e, incoming2, polls2)
                | Some (Inr data, incoming2, polls2) \<Rightarrow>
                    Some (case parse data of Inl e \<Rightarrow> Inl (BadJson e) | Inr frame \<Rightarrow> Inr frame,
                          incoming2, polls2)))"

text \<open>The wire format: the length, then the text. A write end is a state with two operations that may fail.\<close>

definition frame_wire :: "bytes \<Rightarrow> bytes" where
  "frame_wire data = to_be_bytes 4 (of_nat (length data) :: u32) @ data"

record 'w frame_writer =
  fw_write_all :: "bytes \<Rightarrow> 'w \<Rightarrow> (string + unit) \<times> 'w"
  fw_flush :: "'w \<Rightarrow> (string + unit) \<times> 'w"

definition send_server_frame ::
  "('s \<Rightarrow> string + bytes) \<Rightarrow> 'w frame_writer \<Rightarrow> 's \<Rightarrow> 'w \<Rightarrow> (string + unit) \<times> 'w" where
  "send_server_frame to_vec io frame writer =
     (case to_vec frame of
        Inl e \<Rightarrow> (Inl e, writer)
      | Inr data \<Rightarrow>
          (case fw_write_all io (to_be_bytes 4 (of_nat (length data) :: u32)) writer of
             (Inl e, writer1) \<Rightarrow> (Inl e, writer1)
           | (Inr _, writer1) \<Rightarrow>
               (case fw_write_all io data writer1 of
                  (Inl e, writer2) \<Rightarrow> (Inl e, writer2)
                | (Inr _, writer2) \<Rightarrow> fw_flush io writer2)))"

section \<open>Progress\<close>

definition done_seen :: "poll list \<Rightarrow> bool" where
  "done_seen used \<longleftrightarrow> (\<exists>p \<in> set used. po_done p \<or> po_done_after p)"

lemma done_seen_append [simp]: "done_seen (a @ b) \<longleftrightarrow> done_seen a \<or> done_seen b"
  by (auto simp: done_seen_def)

lemma done_seen_Cons: "done_seen (p # ps) \<longleftrightarrow> po_done p \<or> po_done_after p \<or> done_seen ps"
  by (auto simp: done_seen_def)

text \<open>
  What a call takes from the stream. A retryable error with something read happens only when the
  playback is done or a deadline passed.
\<close>

definition read_ok ::
  "bool \<Rightarrow> bool \<Rightarrow> nat \<Rightarrow> bytes \<Rightarrow> bytes \<Rightarrow> poll list \<Rightarrow> (frame_error + bytes) \<Rightarrow> bytes \<Rightarrow> poll list \<Rightarrow> bool" where
  "read_ok idle deadline wanted got incoming polls r incoming' polls' \<longleftrightarrow>
     (\<exists>taken used. incoming = taken @ incoming' \<and> polls = used @ polls'
        \<and> (case r of
             Inr d \<Rightarrow> d = got @ taken \<and> length d = wanted
           | Inl e \<Rightarrow> length (got @ taken) < wanted
               \<and> (retryable e \<longrightarrow> \<not> deadline \<longrightarrow> got @ taken = [] \<and> idle \<or> done_seen used)))"

lemma read_turn_error:
  "read_turn watch idle deadline wanted got incoming p = Inl e \<Longrightarrow> retryable e \<Longrightarrow> \<not> deadline \<Longrightarrow>
     got = [] \<and> idle \<or> po_done p \<or> po_done_after p"
  by (auto simp: read_turn_def idle_turn_def retryable_def Let_def split: if_splits stream_read.splits)

lemma read_turn_more:
  assumes "read_turn watch idle deadline wanted got incoming p = Inr (got', incoming')" "length got \<le> wanted"
  shows "\<exists>part. got' = got @ part \<and> incoming = part @ incoming' \<and> length got' \<le> wanted"
proof -
  have idle: "got' = got \<and> incoming' = incoming" if "idle_turn watch idle deadline got incoming p = Inr (got', incoming')"
    using that by (auto simp: idle_turn_def split: if_splits)
  consider "got' = got" "incoming' = incoming"
    | k where "got' = got @ take k incoming" "incoming' = drop k incoming" "k \<le> wanted - length got"
    using assms(1) idle by (auto simp: read_turn_def Let_def split: if_splits stream_read.splits)
  then show ?thesis
  proof cases
    case 1
    then show ?thesis using assms(2) by simp
  next
    case 2
    then show ?thesis using assms(2) by (intro exI [of _ "take k incoming"]) auto
  qed
qed

lemma read_exact_ok:
  assumes "read_exact_preserving_progress watch idle deadline wanted got incoming polls = Some (r, incoming', polls')"
    and "length got \<le> wanted"
  shows "read_ok idle deadline wanted got incoming polls r incoming' polls'"
  using assms
proof (induction polls arbitrary: got incoming)
  case Nil
  then have "r = Inr got \<and> incoming' = incoming \<and> polls' = [] \<and> length got = wanted"
    by (subst (asm) read_exact_preserving_progress.simps) (auto split: if_splits)
  then show ?case by (auto simp: read_ok_def)
next
  case (Cons p ps)
  note step = Cons.prems(1) [unfolded read_exact_preserving_progress.simps
      [of watch idle deadline wanted got incoming "p # ps"]]
  show ?case
  proof (cases "wanted \<le> length got")
    case True
    then show ?thesis using step Cons.prems(2) by (auto simp: read_ok_def)
  next
    case more: False
    show ?thesis
    proof (cases "read_turn watch idle deadline wanted got incoming p")
      case (Inl e)
      then have "r = Inl e" "incoming' = incoming" "polls' = ps" using step more by simp_all
      then show ?thesis unfolding read_ok_def
        using read_turn_error [OF Inl] more
        by (intro exI [of _ "[] :: bytes"] exI [of _ "[p] :: poll list"]) (auto simp: done_seen_Cons)
    next
      case (Inr x)
      then obtain got1 incoming1 where x: "read_turn watch idle deadline wanted got incoming p = Inr (got1, incoming1)"
        by (cases x) simp
      from read_turn_more [OF x Cons.prems(2)] obtain part
        where part: "got1 = got @ part" "incoming = part @ incoming1" "length got1 \<le> wanted" by blast
      have "read_exact_preserving_progress watch idle deadline wanted got1 incoming1 ps = Some (r, incoming', polls')"
        using step more x by simp
      from Cons.IH [OF this part(3)] obtain taken used where t: "incoming1 = taken @ incoming'" "ps = used @ polls'"
        "case r of Inr d \<Rightarrow> d = got1 @ taken \<and> length d = wanted
           | Inl e \<Rightarrow> length (got1 @ taken) < wanted
               \<and> (retryable e \<longrightarrow> \<not> deadline \<longrightarrow> got1 @ taken = [] \<and> idle \<or> done_seen used)"
        unfolding read_ok_def by blast
      show ?thesis unfolding read_ok_def
        by (rule exI [of _ "part @ taken"], rule exI [of _ "p # used"])
          (use t part in \<open>auto simp: done_seen_Cons split: sum.splits\<close>)
    qed
  qed
qed


lemma read_exact_from_start:
  assumes "read_exact_preserving_progress watch idle False wanted [] incoming polls = Some (r, incoming', polls')"
  shows "\<exists>taken used. incoming = taken @ incoming' \<and> polls = used @ polls'
    \<and> (case r of
         Inr d \<Rightarrow> d = taken \<and> length d = wanted
       | Inl e \<Rightarrow> length taken < wanted \<and> (retryable e \<longrightarrow> taken = [] \<and> idle \<or> done_seen used))"
proof -
  have "read_ok idle False wanted [] incoming polls r incoming' polls'" by (rule read_exact_ok [OF assms]) simp
  then show ?thesis by (cases r) (simp_all add: read_ok_def)
qed

section \<open>Frames are never torn\<close>

text \<open>
  Reading one frame from a stream of frames, without a deadline: the first frame is taken whole, or the
  error ends the connection, or nothing was taken, or the playback is over.
\<close>

lemma read_frame_from_frames:
  assumes "read_frame parse watch True False (frame_wire d @ rest) polls = Some (r, incoming', polls')"
    and "length d \<le> MAX_FRAME_BYTES"
  shows "\<exists>used. polls = used @ polls'
    \<and> (case r of
         Inr f \<Rightarrow> parse d = Inr f \<and> incoming' = rest
       | Inl e \<Rightarrow> retryable e \<longrightarrow> incoming' = frame_wire d @ rest \<or> done_seen used)"
proof -
  have size: "unat (of_nat (length d) :: u32) = length d"
    using assms(2) by (simp add: unat_of_nat MAX_FRAME_BYTES_def)
  have head: "from_be_bytes (to_be_bytes 4 (of_nat (length d) :: u32)) = (of_nat (length d) :: u32)"
    by (rule from_to_be_bytes) simp
  obtain r1 in1 ps1 where h: "read_exact_preserving_progress watch True False 4 [] (frame_wire d @ rest) polls
      = Some (r1, in1, ps1)"
    using assms(1) by (auto simp: read_frame_def split: option.splits)
  from read_exact_from_start [OF h] obtain taken1 used1 where t1: "frame_wire d @ rest = taken1 @ in1" "polls = used1 @ ps1"
    "case r1 of Inr x \<Rightarrow> x = taken1 \<and> length x = 4
       | Inl e \<Rightarrow> length taken1 < 4 \<and> (retryable e \<longrightarrow> taken1 = [] \<and> True \<or> done_seen used1)"
    by blast
  show ?thesis
  proof (cases r1)
    case (Inl e)
    then have "r = Inl e" "incoming' = in1" "polls' = ps1" using assms(1) h by (simp_all add: read_frame_def)
    then show ?thesis using t1 Inl by (intro exI [of _ used1]) auto
  next
    case (Inr header)
    then have "taken1 = to_be_bytes 4 (of_nat (length d) :: u32)" "in1 = d @ rest" "header = taken1"
      using t1 by (auto simp: frame_wire_def append_eq_append_conv)
    then have unpack: "in1 = d @ rest" "unat (from_be_bytes header :: u32) = length d"
      by (simp_all add: head size)
    obtain r2 in2 ps2 where b: "read_exact_preserving_progress watch False False (length d) [] (d @ rest) ps1
        = Some (r2, in2, ps2)"
      using assms(1) h Inr unpack assms(2) by (auto simp: read_frame_def Let_def split: option.splits)
    from read_exact_from_start [OF b] obtain taken2 used2 where t2: "d @ rest = taken2 @ in2" "ps1 = used2 @ ps2"
      "case r2 of Inr x \<Rightarrow> x = taken2 \<and> length x = length d
         | Inl e \<Rightarrow> length taken2 < length d \<and> (retryable e \<longrightarrow> taken2 = [] \<and> False \<or> done_seen used2)"
      by blast
    have res: "incoming' = in2" "polls' = ps2"
      "r = (case r2 of Inl e \<Rightarrow> Inl e | Inr data \<Rightarrow> case parse data of Inl e \<Rightarrow> Inl (BadJson e) | Inr f \<Rightarrow> Inr f)"
      using assms h Inr unpack b by (auto simp: read_frame_def Let_def split: sum.splits)
    show ?thesis
    proof (cases r2)
      case (Inl e)
      then show ?thesis using res t1(2) t2 by (intro exI [of _ "used1 @ used2"]) auto
    next
      case (Inr data)
      then have "data = d" "in2 = rest" using t2 by (auto simp: append_eq_append_conv)
      then show ?thesis using Inr res t1(2) t2(2)
        by (intro exI [of _ "used1 @ used2"]) (auto simp: retryable_def split: sum.splits)
    qed
  qed
qed

end
