(* ===== verification/Playback_Schedule.thy ===== *)
theory Playback_Schedule
  imports Enqueue Wire_Protocol
begin

text \<open>
  A reliable playback session (\<open>reliable_playback.rs\<close>): what a client may prepare, and the thread that
  offers the prepared events to the pipeline when they are due. Instants are nanoseconds.
\<close>

section \<open>Preparing\<close>

definition PROTOCOL_VERSION :: u8 where "PROTOCOL_VERSION = 1"
definition MAX_EVENT_BYTES :: nat where "MAX_EVENT_BYTES = 1024"

record playback_event =
  ev_seq :: u64
  ev_due_us :: u64
  ev_data :: bytes

record prepared_session =
  ps_session_id :: string
  ps_song :: string
  ps_events :: "playback_event list"

text \<open>Why a preparation is refused; the text of the reply is made from this.\<close>

datatype prepare_error =
    UnsupportedVersion u8 | TotalMismatch nat nat | InvalidSeq u64 nat | EventsUnsorted | DueTooLate u64
  | EmptyData u64 | DataTooLarge u64 | InvalidMidi u64

fun validate_events ::
  "nat \<Rightarrow> u64 \<Rightarrow> playback_event list \<Rightarrow> prepare_error + playback_event list" where
  "validate_events idx previous_due [] = Inr []"
| "validate_events idx previous_due (event # events) =
     (if ev_seq event \<noteq> of_nat idx then Inl (InvalidSeq (ev_seq event) idx)
      else if ev_due_us event < previous_due then Inl EventsUnsorted
      else if ev_due_us event > 86400000000 then Inl (DueTooLate (ev_due_us event))
      else if ev_data event = [] then Inl (EmptyData (ev_seq event))
      else if length (ev_data event) > MAX_EVENT_BYTES then Inl (DataTooLarge (ev_seq event))
      else case normalize_message (ev_data event) of
        (False, _) \<Rightarrow> Inl (InvalidMidi (ev_seq event))
      | (True, data) \<Rightarrow>
          (case validate_events (Suc idx) (ev_due_us event) events of
             Inl e \<Rightarrow> Inl e
           | Inr events' \<Rightarrow> Inr (event\<lparr>ev_data := data\<rparr> # events')))"

definition validate_prepare ::
  "u8 \<Rightarrow> string \<Rightarrow> string \<Rightarrow> nat \<Rightarrow> playback_event list
     \<Rightarrow> (string option \<times> prepare_error) + prepared_session" where
  "validate_prepare version session song count events =
     (if version \<noteq> PROTOCOL_VERSION then Inl (Some session, UnsupportedVersion version)
      else if count \<noteq> length events then Inl (Some session, TotalMismatch count (length events))
      else case validate_events 0 0 events of
        Inl e \<Rightarrow> Inl (Some session, e)
      | Inr events' \<Rightarrow> Inr \<lparr>ps_session_id = session, ps_song = song, ps_events = events'\<rparr>)"

section \<open>State\<close>

text \<open>What the threads of the server share with the rest of the program.\<close>

record playback_world =
  pw_pipeline :: pipeline
  pw_queue :: "midi_frame midi_queue"
  pw_messages_in :: u64
  pw_messages_out :: u64
  pw_dropped :: u64
  pw_max_late_us :: u64
  pw_active :: "(u64 \<times> string) option"
  pw_next_connection :: u64

record playback_metrics =
  pb_messages_in :: u64
  pb_messages_out :: u64
  pb_dropped :: u64
  pb_max_late_us :: u64
  pb_active_session :: "string option"

definition playback_metrics_snapshot :: "playback_world \<Rightarrow> playback_metrics" where
  "playback_metrics_snapshot w =
     \<lparr>pb_messages_in = pw_messages_in w, pb_messages_out = pw_messages_out w, pb_dropped = pw_dropped w,
      pb_max_late_us = pw_max_late_us w, pb_active_session = map_option snd (pw_active w)\<rparr>"

definition reset_playback_metrics :: "playback_world \<Rightarrow> playback_world" where
  "reset_playback_metrics w =
     w\<lparr>pw_messages_in := 0, pw_messages_out := 0, pw_dropped := 0, pw_max_late_us := 0, pw_active := None\<rparr>"

section \<open>Waiting\<close>

text \<open>How long \<open>wait_until\<close> sleeps before it looks again; \<open>None\<close> is a yield.\<close>

definition wait_pause :: "nat \<Rightarrow> nat option" where
  "wait_pause remaining =
     (if remaining > 2000000 then Some (min (remaining - 1000000) 5000000) else None)"

text \<open>
  \<open>wait_until\<close> over what it reads in its turns: whether a flag is set, and the time. The answer tells
  whether it was a flag; \<open>None\<close> is a call still waiting when the readings are used up.
\<close>

fun wait_until :: "nat \<Rightarrow> (bool \<times> nat) list \<Rightarrow> (bool \<times> nat) option" where
  "wait_until target [] = None"
| "wait_until target ((cancelled, now) # readings) =
     (if cancelled then Some (True, now)
      else if target \<le> now then Some (False, now)
      else wait_until target readings)"

section \<open>The schedule\<close>

record completion =
  co_processed :: u64
  co_dropped :: u64
  co_max_late_us :: u64

text \<open>
  The surroundings of an event: whether a flag is set before it, what the other threads do before it
  and while \<open>enqueue\<close> yields, the time its queue entry gets. And of a group of events with one due time:
  the flags before and after the wait, its readings, the instant and the counter read after it, and
  what failed exchanges of the maximum report.
\<close>

record event_env =
  ee_cancelled :: bool
  ee_before :: "playback_world \<Rightarrow> playback_world"
  ee_others :: "midi_frame midi_queue \<Rightarrow> midi_frame midi_queue"
  ee_queue_qpc :: u64

record group_env =
  ge_cancelled :: bool
  ge_waits :: "(bool \<times> nat) list"
  ge_cancelled_after :: bool
  ge_now :: nat
  ge_ticks :: u64
  ge_frequency :: u64
  ge_observed :: "u64 list"

text \<open>What was offered, for the statements: the event's position, the frame, the answer, and when the wait ended.\<close>

record schedule_offer =
  so_index :: nat
  so_frame :: midi_frame
  so_result :: "enqueue_error + enqueue_outcome"
  so_released :: nat

definition playback_frame :: "string \<Rightarrow> u64 \<Rightarrow> playback_event \<Rightarrow> playback_world \<Rightarrow> midi_frame" where
  "playback_frame source scheduled_qpc event w =
     \<lparr>frame_generation = midi_reset_generation (pw_pipeline w), frame_ingress_qpc = scheduled_qpc,
      frame_data = ev_data event, frame_capacity = max INLINE_MIDI_BYTES (length (ev_data event)),
      frame_source = source\<rparr>"

text \<open>The inner loop, over the events of one due time; the first answer is false when the schedule is given up.\<close>

fun run_group ::
  "(nat \<Rightarrow> event_env) \<Rightarrow> string \<Rightarrow> u64 \<Rightarrow> nat \<Rightarrow> nat \<Rightarrow> playback_event list \<Rightarrow> completion
     \<Rightarrow> playback_world \<Rightarrow> bool \<times> completion \<times> playback_world \<times> schedule_offer list" where
  "run_group ee source qpc released index [] c w = (True, c, w, [])"
| "run_group ee source qpc released index (event # events) c w =
     (if ee_cancelled (ee index) then (False, c, w, [])
      else
        let w = ee_before (ee index) w;
            frame = playback_frame source qpc event w
        in case try_enqueue_midi_frame (ee_queue_qpc (ee index)) (ee_others (ee index)) frame
                  (pw_pipeline w) (pw_queue w) of
             (r, p, q) \<Rightarrow>
               (let w = w\<lparr>pw_pipeline := p, pw_queue := q\<rparr>;
                    offer = \<lparr>so_index = index, so_frame = frame, so_result = r, so_released = released\<rparr>;
                    (c, w) =
                      (case r of
                         Inr Enqueued \<Rightarrow> (c\<lparr>co_processed := co_processed c + 1\<rparr>, w\<lparr>pw_messages_out := pw_messages_out w + 1\<rparr>)
                       | Inr Filtered \<Rightarrow> (c, w)
                       | Inl NotRunning \<Rightarrow> (c, w)
                       | _ \<Rightarrow> (c\<lparr>co_dropped := co_dropped c + 1\<rparr>, w\<lparr>pw_dropped := pw_dropped w + 1\<rparr>))
                in if r = Inl NotRunning then (False, c, w, [offer])
                   else (case run_group ee source qpc released (Suc index) events c w of
                           (ok, c', w', offers) \<Rightarrow> (ok, c', w', offer # offers))))"

datatype schedule_end = Waiting | Aborted | Finished completion

definition late_us :: "nat \<Rightarrow> nat \<Rightarrow> u64" where
  "late_us now target = of_nat ((now - target) div 1000)"

definition record_max_late :: "u64 \<Rightarrow> u64 list \<Rightarrow> playback_world \<Rightarrow> playback_world" where
  "record_max_late late observed w =
     w\<lparr>pw_max_late_us := raise_max_depth late (pw_max_late_us w) observed\<rparr>"

definition target_of :: "nat \<Rightarrow> u64 \<Rightarrow> nat" where
  "target_of start due_us = start + unat due_us * 1000"

text \<open>
  The outer loop. A flag is never lowered, so one that ended the wait is still seen after it.
\<close>

function schedule_from ::
  "(nat \<Rightarrow> group_env) \<Rightarrow> (nat \<Rightarrow> event_env) \<Rightarrow> string \<Rightarrow> nat \<Rightarrow> nat \<Rightarrow> playback_event list
     \<Rightarrow> completion \<Rightarrow> playback_world \<Rightarrow> schedule_end \<times> playback_world \<times> schedule_offer list" where
  "schedule_from ge ee source start index [] c w = (Finished c, w, [])"
| "schedule_from ge ee source start index (event # events) c w =
     (let g = ge index; due_us = ev_due_us event; target = target_of start due_us in
      if ge_cancelled g then (Aborted, w, [])
      else case wait_until target (ge_waits g) of
        None \<Rightarrow> (Waiting, w, [])
      | Some (cancelled, released) \<Rightarrow>
          if cancelled \<or> ge_cancelled_after g then (Aborted, w, [])
          else
            let max_late = max (co_max_late_us c) (late_us (ge_now g) target);
                c = c\<lparr>co_max_late_us := max_late\<rparr>;
                w = record_max_late max_late (ge_observed g) w;
                qpc = qpc_at (ge_frequency g) (ge_ticks g) (of_nat (ge_now g - target));
                group = takeWhile (\<lambda>e. ev_due_us e = due_us) (event # events)
            in case run_group ee source qpc released index group c w of
                 (False, c, w, offers) \<Rightarrow> (Aborted, w, offers)
               | (True, c, w, offers) \<Rightarrow>
                   (case schedule_from ge ee source start (index + length group)
                           (dropWhile (\<lambda>e. ev_due_us e = due_us) (event # events)) c w of
                      (end1, w', offers') \<Rightarrow> (end1, w', offers @ offers')))"
  by pat_completeness auto
termination
  by (relation "measure (\<lambda>(ge, ee, source, start, index, events, c, w). length events)")
    (auto simp: less_Suc_eq_le length_dropWhile_le)

declare schedule_from.simps [simp del]

definition schedule_start :: "nat \<Rightarrow> u64 \<Rightarrow> nat" where
  "schedule_start now start_delay_ms = now + min (unat start_delay_ms) 60000 * 1000000"

definition playback_source :: "string \<Rightarrow> string" where
  "playback_source song = ''ReliablePLV:'' @ song"

definition run_schedule ::
  "(nat \<Rightarrow> group_env) \<Rightarrow> (nat \<Rightarrow> event_env) \<Rightarrow> nat \<Rightarrow> prepared_session \<Rightarrow> u64 \<Rightarrow> playback_world
     \<Rightarrow> schedule_end \<times> playback_world \<times> schedule_offer list" where
  "run_schedule ge ee now session start_delay_ms w =
     schedule_from ge ee (playback_source (ps_song session)) (schedule_start now start_delay_ms) 0
       (ps_events session) \<lparr>co_processed = 0, co_dropped = 0, co_max_late_us = 0\<rparr> w"

text \<open>
  \<open>inject_all_notes_off\<close>: pedals and notes of every channel, past the routing profiles. \<open>env\<close> gives the
  surroundings of each of the 64 messages; \<open>ticks\<close> the counter read for it.
\<close>

definition all_notes_off :: "bytes list" where
  "all_notes_off = concat (map (\<lambda>ch. map (\<lambda>controller. [0xB0 OR of_nat ch, controller, 0]) [64, 66, 69, 123]) [0..<16])"

fun inject_messages ::
  "(nat \<Rightarrow> event_env) \<Rightarrow> (nat \<Rightarrow> u64) \<Rightarrow> string \<Rightarrow> nat \<Rightarrow> bytes list \<Rightarrow> playback_world
     \<Rightarrow> playback_world \<times> schedule_offer list" where
  "inject_messages env ticks source index [] w = (w, [])"
| "inject_messages env ticks source index (data # messages) w =
     (let w = ee_before (env index) w;
          frame = \<lparr>frame_generation = midi_reset_generation (pw_pipeline w), frame_ingress_qpc = ticks index,
                   frame_data = data, frame_capacity = INLINE_MIDI_BYTES, frame_source = source\<rparr>
      in case enqueue_prepared_midi_frame (ee_queue_qpc (env index)) (ee_others (env index)) frame
                (pw_pipeline w) (pw_queue w) of
           (r, p, q) \<Rightarrow>
             (case inject_messages env ticks source (Suc index) messages (w\<lparr>pw_pipeline := p, pw_queue := q\<rparr>) of
                (w', offers) \<Rightarrow>
                  (w', \<lparr>so_index = index, so_frame = frame, so_result = r, so_released = 0\<rparr> # offers)))"

definition inject_all_notes_off ::
  "(nat \<Rightarrow> event_env) \<Rightarrow> (nat \<Rightarrow> u64) \<Rightarrow> string \<Rightarrow> playback_world \<Rightarrow> playback_world \<times> schedule_offer list" where
  "inject_all_notes_off env ticks source w = inject_messages env ticks source 0 all_notes_off w"


section \<open>What is accepted\<close>

lemma validate_events_iff:
  "validate_events idx previous_due events = Inr out \<longleftrightarrow>
     (\<forall>i < length events. ev_seq (events ! i) = of_nat (idx + i) \<and> ev_due_us (events ! i) \<le> 86400000000
        \<and> ev_data (events ! i) \<noteq> [] \<and> length (ev_data (events ! i)) \<le> MAX_EVENT_BYTES
        \<and> fst (normalize_message (ev_data (events ! i))))
     \<and> sorted (previous_due # map ev_due_us events)
     \<and> out = map (\<lambda>e. e\<lparr>ev_data := snd (normalize_message (ev_data e))\<rparr>) events"
proof (induction events arbitrary: idx previous_due out)
  case Nil
  then show ?case by auto
next
  case (Cons e events)
  obtain valid data where n: "normalize_message (ev_data e) = (valid, data)" by fastforce
  let ?ok = "ev_seq e = of_nat idx \<and> ev_due_us e \<le> 86400000000 \<and> ev_data e \<noteq> []
    \<and> length (ev_data e) \<le> MAX_EVENT_BYTES \<and> valid \<and> previous_due \<le> ev_due_us e"
  have step: "validate_events idx previous_due (e # events) = Inr out \<longleftrightarrow>
      ?ok \<and> (\<exists>rest. validate_events (Suc idx) (ev_due_us e) events = Inr rest \<and> out = e\<lparr>ev_data := data\<rparr> # rest)"
    by (cases valid) (auto simp: n split: sum.splits)
  have all: "(\<forall>i < length (e # events). P ((e # events) ! i) i) \<longleftrightarrow> P e 0 \<and> (\<forall>i < length events. P (events ! i) (Suc i))"
    for P :: "playback_event \<Rightarrow> nat \<Rightarrow> bool"
    by (auto simp: less_Suc_eq_0_disj)
  show ?case unfolding step Cons.IH all [of "\<lambda>x i. ev_seq x = of_nat (idx + i) \<and> ev_due_us x \<le> 86400000000
        \<and> ev_data x \<noteq> [] \<and> length (ev_data x) \<le> MAX_EVENT_BYTES \<and> fst (normalize_message (ev_data x))"]
    by (auto simp: n)
qed

text \<open>
  A playback is prepared exactly when it can be played. Nothing else is accepted than version 1, a
  correct count, events numbered from 0, in the order of their due times, none later than a day, each
  a MIDI message of at most 1024 bytes that validation accepts; and the session then holds these
  events, normalised.
\<close>

theorem validate_prepare_exact:
  "validate_prepare version session song count events = Inr p \<longleftrightarrow>
     version = 1 \<and> count = length events
     \<and> (\<forall>i < length events. ev_seq (events ! i) = of_nat i \<and> unat (ev_due_us (events ! i)) \<le> 86400000000
          \<and> 1 \<le> length (ev_data (events ! i)) \<and> length (ev_data (events ! i)) \<le> 1024
          \<and> fst (normalize_message (ev_data (events ! i))))
     \<and> sorted (map ev_due_us events)
     \<and> p = \<lparr>ps_session_id = session, ps_song = song,
             ps_events = map (\<lambda>e. e\<lparr>ev_data := snd (normalize_message (ev_data e))\<rparr>) events\<rparr>"
proof -
  have len: "1 \<le> length (ev_data e) \<longleftrightarrow> ev_data e \<noteq> []" for e by (cases "ev_data e") auto
  have day: "unat d \<le> 86400000000 \<longleftrightarrow> d \<le> (86400000000 :: u64)" for d by (simp add: word_le_nat_alt)
  have "validate_prepare version session song count events = Inr p \<longleftrightarrow> version = 1 \<and> count = length events
      \<and> (\<exists>out. validate_events 0 0 events = Inr out
           \<and> p = \<lparr>ps_session_id = session, ps_song = song, ps_events = out\<rparr>)"
    by (auto simp: validate_prepare_def PROTOCOL_VERSION_def split: sum.splits)
  then show ?thesis
    unfolding len day validate_events_iff by (auto simp: MAX_EVENT_BYTES_def)
qed

theorem validate_prepare_exact_witness:
  "\<exists>p. validate_prepare 1 ''id'' ''song'' 1 [\<lparr>ev_seq = 0, ev_due_us = 5, ev_data = [0x90, 60, 0]\<rparr>] = Inr p
     \<and> map ev_data (ps_events p) = [[0x80, 60, 0]]"
proof -
  let ?e = "\<lparr>ev_seq = 0, ev_due_us = 5, ev_data = [0x90, 60, 0]\<rparr>"
  have n: "normalize_message [0x90, 60, 0] = (True, [0x80, 60, 0])"
    by (simp add: normalize_message_def message_len_def)
  have "validate_prepare 1 ''id'' ''song'' 1 [?e] = Inr \<lparr>ps_session_id = ''id'', ps_song = ''song'',
      ps_events = map (\<lambda>e. e\<lparr>ev_data := snd (normalize_message (ev_data e))\<rparr>) [?e]\<rparr>"
    unfolding validate_prepare_exact by (simp add: n)
  then show ?thesis by (simp add: n)
qed


section \<open>On time, in order, all of it\<close>

lemma wait_until_facts:
  "wait_until target readings = Some (False, now) \<Longrightarrow> target \<le> now"
  "wait_until target readings = Some (True, now) \<Longrightarrow> (True, now) \<in> set readings"
  "wait_until target readings = None \<Longrightarrow> (c, t) \<in> set readings \<Longrightarrow> t < target"
  by (induction target readings rule: wait_until.induct) (auto split: if_splits)

lemma wait_pause_short: "wait_pause remaining = Some pause \<Longrightarrow> pause < remaining \<and> pause \<le> 5000000"
  by (auto simp: wait_pause_def split: if_splits)

text \<open>The offers of a schedule: the first events, in order, each after its due time.\<close>

definition offered_ok :: "string \<Rightarrow> nat \<Rightarrow> nat \<Rightarrow> playback_event \<Rightarrow> schedule_offer \<Rightarrow> bool" where
  "offered_ok source start k e offer \<longleftrightarrow> so_index offer = k \<and> frame_data (so_frame offer) = ev_data e
     \<and> frame_source (so_frame offer) = source \<and> target_of start (ev_due_us e) \<le> so_released offer"

definition scheduled_ok :: "string \<Rightarrow> nat \<Rightarrow> nat \<Rightarrow> playback_event list \<Rightarrow> schedule_offer list \<Rightarrow> bool" where
  "scheduled_ok source start index events offers \<longleftrightarrow> length offers \<le> length events
     \<and> (\<forall>k < length offers. offered_ok source start (index + k) (events ! k) (offers ! k))"

lemma scheduled_ok_Nil [simp]: "scheduled_ok source start index events []"
  by (simp add: scheduled_ok_def)

lemma scheduled_ok_Cons:
  "scheduled_ok source start index (e # events) (offer # offers) \<longleftrightarrow>
     offered_ok source start index e offer \<and> scheduled_ok source start (Suc index) events offers"
  by (auto simp: scheduled_ok_def less_Suc_eq_0_disj)

lemma scheduled_ok_append:
  assumes "scheduled_ok source start index xs os" "length os = length xs"
    and "scheduled_ok source start (index + length xs) ys os'"
  shows "scheduled_ok source start index (xs @ ys) (os @ os')"
  using assms by (auto simp: scheduled_ok_def nth_append) (metis add.assoc add_diff_inverse_nat add_less_cancel_left)

lemma scheduled_ok_more: "scheduled_ok source start index xs os \<Longrightarrow> scheduled_ok source start index (xs @ ys) os"
  by (auto simp: scheduled_ok_def nth_append)

text \<open>The outcomes that count as processed and as dropped.\<close>

definition accepted :: "schedule_offer \<Rightarrow> bool" where
  "accepted offer \<longleftrightarrow> so_result offer = Inr Enqueued"

definition lost :: "schedule_offer \<Rightarrow> bool" where
  "lost offer \<longleftrightarrow> so_result offer \<notin> {Inr Enqueued, Inr Filtered, Inl NotRunning}"

abbreviation tally :: "(schedule_offer \<Rightarrow> bool) \<Rightarrow> schedule_offer list \<Rightarrow> u64" where
  "tally P offers \<equiv> of_nat (length (filter P offers))"

lemma run_group_facts:
  assumes "run_group ee source qpc released index events c w = (ok, c', w', offers)"
    and "\<forall>e \<in> set events. target_of start (ev_due_us e) \<le> released"
  shows "scheduled_ok source start index events offers
    \<and> (\<forall>x \<in> set offers. frame_ingress_qpc (so_frame x) = qpc)
    \<and> co_processed c' = co_processed c + tally accepted offers
    \<and> co_dropped c' = co_dropped c + tally lost offers
    \<and> (ok \<longrightarrow> length offers = length events \<and> (\<forall>x \<in> set offers. so_result x \<noteq> Inl NotRunning))
    \<and> (\<not> ok \<longrightarrow> (\<exists>k. ee_cancelled (ee k)) \<or> (\<exists>x \<in> set offers. so_result x = Inl NotRunning))"
  using assms
proof (induction events arbitrary: index c w ok c' w' offers)
  case Nil
  then show ?case by auto
next
  case (Cons event events)
  show ?case
  proof (cases "ee_cancelled (ee index)")
    case True
    then show ?thesis using Cons.prems by auto
  next
    case False
    let ?w = "ee_before (ee index) w"
    let ?f = "playback_frame source qpc event ?w"
    obtain r p q where e: "try_enqueue_midi_frame (ee_queue_qpc (ee index)) (ee_others (ee index)) ?f
        (pw_pipeline ?w) (pw_queue ?w) = (r, p, q)" by (metis prod_cases3)
    let ?w1 = "?w\<lparr>pw_pipeline := p, pw_queue := q\<rparr>"
    let ?o = "\<lparr>so_index = index, so_frame = ?f, so_result = r, so_released = released\<rparr>"
    define cw where "cw = (case r of
         Inr Enqueued \<Rightarrow> (c\<lparr>co_processed := co_processed c + 1\<rparr>, ?w1\<lparr>pw_messages_out := pw_messages_out ?w1 + 1\<rparr>)
       | Inr Filtered \<Rightarrow> (c, ?w1)
       | Inl NotRunning \<Rightarrow> (c, ?w1)
       | _ \<Rightarrow> (c\<lparr>co_dropped := co_dropped c + 1\<rparr>, ?w1\<lparr>pw_dropped := pw_dropped ?w1 + 1\<rparr>))"
    have c1: "co_processed (fst cw) = co_processed c + (if accepted ?o then 1 else 0)"
      "co_dropped (fst cw) = co_dropped c + (if lost ?o then 1 else 0)"
      by (auto simp: cw_def accepted_def lost_def split: sum.split enqueue_outcome.split enqueue_error.split)
    have o: "offered_ok source start index event ?o" "frame_ingress_qpc (so_frame ?o) = qpc"
      using Cons.prems(2) by (simp_all add: offered_ok_def playback_frame_def)
    have step: "run_group ee source qpc released index (event # events) c w =
        (if r = Inl NotRunning then (False, fst cw, snd cw, [?o])
         else case run_group ee source qpc released (Suc index) events (fst cw) (snd cw) of
           (ok, c', w', offers) \<Rightarrow> (ok, c', w', ?o # offers))"
      using False e by (simp add: cw_def Let_def split: prod.split)
    show ?thesis
    proof (cases "r = Inl NotRunning")
      case True
      then have "ok = False" "c' = fst cw" "offers = [?o]" using Cons.prems(1) unfolding step by simp_all
      then show ?thesis using o c1 True by (simp add: scheduled_ok_Cons)
    next
      case False
      obtain ok2 c2 w2 os where g: "run_group ee source qpc released (Suc index) events (fst cw) (snd cw)
          = (ok2, c2, w2, os)" by (metis prod_cases4)
      have res: "ok = ok2" "c' = c2" "offers = ?o # os" using Cons.prems(1) False g unfolding step by simp_all
      have IH: "scheduled_ok source start (Suc index) events os
          \<and> (\<forall>x \<in> set os. frame_ingress_qpc (so_frame x) = qpc)
          \<and> co_processed c2 = co_processed (fst cw) + tally accepted os
          \<and> co_dropped c2 = co_dropped (fst cw) + tally lost os
          \<and> (ok2 \<longrightarrow> length os = length events \<and> (\<forall>x \<in> set os. so_result x \<noteq> Inl NotRunning))
          \<and> (\<not> ok2 \<longrightarrow> (\<exists>k. ee_cancelled (ee k)) \<or> (\<exists>x \<in> set os. so_result x = Inl NotRunning))"
        by (rule Cons.IH [OF g]) (use Cons.prems(2) in simp)
      then show ?thesis unfolding res using o c1 False by (auto simp: scheduled_ok_Cons)
    qed
  qed
qed


definition flag_seen :: "(nat \<Rightarrow> group_env) \<Rightarrow> (nat \<Rightarrow> event_env) \<Rightarrow> bool" where
  "flag_seen ge ee \<longleftrightarrow> (\<exists>k. ge_cancelled (ge k) \<or> ge_cancelled_after (ge k) \<or> ee_cancelled (ee k)
     \<or> (\<exists>t. (True, t) \<in> set (ge_waits (ge k))))"

definition same_stamps :: "playback_event list \<Rightarrow> schedule_offer list \<Rightarrow> bool" where
  "same_stamps events offers \<longleftrightarrow> (\<forall>i < length offers. \<forall>j < length offers.
     ev_due_us (events ! i) = ev_due_us (events ! j) \<longrightarrow>
     frame_ingress_qpc (so_frame (offers ! i)) = frame_ingress_qpc (so_frame (offers ! j)))"

definition ended_ok ::
  "(nat \<Rightarrow> group_env) \<Rightarrow> (nat \<Rightarrow> event_env) \<Rightarrow> nat \<Rightarrow> nat \<Rightarrow> playback_event list \<Rightarrow> completion
     \<Rightarrow> schedule_end \<Rightarrow> schedule_offer list \<Rightarrow> bool" where
  "ended_ok ge ee start index events c end1 offers \<longleftrightarrow>
     (case end1 of
        Finished c' \<Rightarrow> length offers = length events \<and> co_processed c' = co_processed c + tally accepted offers
          \<and> co_dropped c' = co_dropped c + tally lost offers \<and> (\<forall>x \<in> set offers. so_result x \<noteq> Inl NotRunning)
      | Aborted \<Rightarrow> flag_seen ge ee \<or> (\<exists>x \<in> set offers. so_result x = Inl NotRunning)
      | Waiting \<Rightarrow> \<exists>k < length events. \<forall>(x, t) \<in> set (ge_waits (ge (index + k))).
          t < target_of start (ev_due_us (events ! k)))"

lemma same_stamps_all: "\<forall>x \<in> set offers. frame_ingress_qpc (so_frame x) = qpc \<Longrightarrow> same_stamps events offers"
  by (simp add: same_stamps_def)

lemma same_stamps_append:
  assumes "\<forall>x \<in> set os. frame_ingress_qpc (so_frame x) = qpc" "length os = length xs" "same_stamps ys os'"
    and "\<forall>x \<in> set xs. ev_due_us x = d" "\<forall>y \<in> set ys. ev_due_us y \<noteq> d" "length os' \<le> length ys"
  shows "same_stamps (xs @ ys) (os @ os')"
  unfolding same_stamps_def
proof (intro allI impI)
  fix i j
  assume ij: "i < length (os @ os')" "j < length (os @ os')"
    and due: "ev_due_us ((xs @ ys) ! i) = ev_due_us ((xs @ ys) ! j)"
  have left: "ev_due_us ((xs @ ys) ! k) = d" if "k < length os" for k
    using that assms(2,4) by (simp add: nth_append)
  have right: "ev_due_us ((xs @ ys) ! k) \<noteq> d" if "\<not> k < length os" "k < length (os @ os')" for k
    using that assms(2,5,6) by (simp add: nth_append)
  consider "i < length os" "j < length os" | "\<not> i < length os" "\<not> j < length os"
    using due left right ij by metis
  then show "frame_ingress_qpc (so_frame ((os @ os') ! i)) = frame_ingress_qpc (so_frame ((os @ os') ! j))"
  proof cases
    case 1
    then show ?thesis using assms(1) by (simp add: nth_append)
  next
    case 2
    then show ?thesis using assms(2,3) ij due by (auto simp: nth_append same_stamps_def)
  qed
qed

lemma ended_ok_append:
  assumes "ended_ok ge ee start (index + length xs) ys c1 end1 os'" "length os = length xs"
    and "co_processed c1 = co_processed c + tally accepted os" "co_dropped c1 = co_dropped c + tally lost os"
    and "\<forall>x \<in> set os. so_result x \<noteq> Inl NotRunning"
  shows "ended_ok ge ee start index (xs @ ys) c end1 (os @ os')"
proof (cases end1)
  case Waiting
  then obtain k where "k < length ys" "\<forall>(x, t) \<in> set (ge_waits (ge (index + length xs + k))).
      t < target_of start (ev_due_us (ys ! k))"
    using assms(1) by (auto simp: ended_ok_def)
  then show ?thesis using Waiting unfolding ended_ok_def
    by (simp only: schedule_end.case) (rule exI [of _ "length xs + k"], simp add: add.assoc)
next
  case Aborted
  then show ?thesis using assms(1) by (auto simp: ended_ok_def)
next
  case (Finished c')
  then show ?thesis using assms by (simp add: ended_ok_def ball_Un)
qed

text \<open>The events with the first due time, and the later ones.\<close>

lemma first_group:
  assumes "sorted (map ev_due_us (event # events))"
  obtains xs ys where "xs = takeWhile (\<lambda>e. ev_due_us e = ev_due_us event) (event # events)"
    "ys = dropWhile (\<lambda>e. ev_due_us e = ev_due_us event) (event # events)"
    "event # events = xs @ ys" "\<forall>x \<in> set xs. ev_due_us x = ev_due_us event"
    "\<forall>y \<in> set ys. ev_due_us y \<noteq> ev_due_us event" "sorted (map ev_due_us ys)"
    "length ys < length (event # events)"
proof
  let ?P = "\<lambda>e. ev_due_us e = ev_due_us event"
  let ?ys = "dropWhile ?P (event # events)"
  show "event # events = takeWhile ?P (event # events) @ ?ys" by (rule takeWhile_dropWhile_id [symmetric])
  then have split: "map ev_due_us (event # events) = map ev_due_us (takeWhile ?P (event # events)) @ map ev_due_us ?ys"
    by (metis map_append)
  then show sorted: "sorted (map ev_due_us ?ys)" using assms unfolding split sorted_append by blast
  show "\<forall>x \<in> set (takeWhile ?P (event # events)). ev_due_us x = ev_due_us event"
    by (blast dest: set_takeWhileD)
  show "length ?ys < length (event # events)" by (simp add: less_Suc_eq_le length_dropWhile_le)
  have below: "ev_due_us event \<le> ev_due_us y" if "y \<in> set ?ys" for y
    using set_dropWhileD [OF that] assms by auto
  show "\<forall>y \<in> set ?ys. ev_due_us y \<noteq> ev_due_us event"
  proof (cases ?ys)
    case (Cons y zs)
    have "ev_due_us y \<noteq> ev_due_us event" using hd_dropWhile [of ?P "event # events"] unfolding Cons by simp
    then have "ev_due_us event < ev_due_us y" using below Cons by (simp add: order_le_neq_trans)
    moreover have "\<forall>z \<in> set ?ys. ev_due_us y \<le> ev_due_us z" using sorted unfolding Cons by auto
    ultimately show ?thesis by force
  next
    case Nil
    show ?thesis unfolding Nil by simp
  qed
qed (rule refl)+

text \<open>A turn of the outer loop.\<close>

lemma schedule_from_turn:
  assumes "schedule_from ge ee source start index (event # events) c w = (end1, w', offers)"
    and "xs = takeWhile (\<lambda>e. ev_due_us e = ev_due_us event) (event # events)"
    and "ys = dropWhile (\<lambda>e. ev_due_us e = ev_due_us event) (event # events)"
  obtains (flag) "end1 = Aborted" "offers = []" "flag_seen ge ee"
  | (waiting) "end1 = Waiting" "offers = []"
      "\<forall>(x, t) \<in> set (ge_waits (ge index)). t < target_of start (ev_due_us event)"
  | (group) released qpc c0 w0 ok c1 w1 os where "target_of start (ev_due_us event) \<le> released"
      "co_processed c0 = co_processed c" "co_dropped c0 = co_dropped c"
      "run_group ee source qpc released index xs c0 w0 = (ok, c1, w1, os)"
      "\<not> ok \<Longrightarrow> end1 = Aborted \<and> offers = os"
      "ok \<Longrightarrow> \<exists>os2. schedule_from ge ee source start (index + length xs) ys c1 w1 = (end1, w', os2)
         \<and> offers = os @ os2"
proof -
  let ?g = "ge index"
  let ?t = "target_of start (ev_due_us event)"
  note step = assms(1) [unfolded schedule_from.simps(2) Let_def, folded assms(2,3)]
  show ?thesis
  proof (cases "ge_cancelled ?g")
    case True
    then show ?thesis using step by (intro flag) (auto simp: flag_seen_def)
  next
    case run: False
    show ?thesis
    proof (cases "wait_until ?t (ge_waits ?g)")
      case None
      show ?thesis by (rule waiting) (use step run None wait_until_facts(3) [OF None] in auto)
    next
      case (Some cr)
      then obtain cancelled released where cr: "wait_until ?t (ge_waits ?g) = Some (cancelled, released)"
        by (cases cr) simp
      show ?thesis
      proof (cases "cancelled \<or> ge_cancelled_after ?g")
        case True
        then have "flag_seen ge ee" using cr wait_until_facts(2) [of ?t "ge_waits ?g" released]
          by (cases cancelled) (auto simp: flag_seen_def)
        moreover have "end1 = Aborted" "offers = []" using step run cr True by auto
        ultimately show ?thesis by (intro flag)
      next
        case False
        let ?late = "max (co_max_late_us c) (late_us (ge_now ?g) ?t)"
        let ?c = "c\<lparr>co_max_late_us := ?late\<rparr>"
        let ?w = "record_max_late ?late (ge_observed ?g) w"
        let ?qpc = "qpc_at (ge_frequency ?g) (ge_ticks ?g) (of_nat (ge_now ?g - ?t))"
        obtain ok c1 w1 os where g: "run_group ee source ?qpc released index xs ?c ?w = (ok, c1, w1, os)"
          by (metis prod_cases4)
        have released: "?t \<le> released" using False cr wait_until_facts(1) by auto
        obtain end2 w2 os2 where r: "schedule_from ge ee source start (index + length xs) ys c1 w1 = (end2, w2, os2)"
          by (metis prod_cases3)
        have res: "if ok then end1 = end2 \<and> w' = w2 \<and> offers = os @ os2 else end1 = Aborted \<and> offers = os"
          using step run cr False g r by (cases ok) simp_all
        show ?thesis by (rule group [OF released _ _ g]) (use res r in auto)
      qed
    qed
  qed
qed

lemma schedule_from_facts:
  assumes "schedule_from ge ee source start index events c w = (end1, w', offers)"
    and "sorted (map ev_due_us events)"
  shows "scheduled_ok source start index events offers \<and> same_stamps events offers
    \<and> ended_ok ge ee start index events c end1 offers"
  using assms
proof (induction "length events" arbitrary: index events c w end1 w' offers rule: less_induct)
  case less
  show ?case
  proof (cases events)
    case Nil
    then show ?thesis using less.prems
      by (auto simp: schedule_from.simps ended_ok_def same_stamps_def)
  next
    case (Cons event events')
    note prems = less.prems [unfolded Cons]
    obtain xs ys where xy: "xs = takeWhile (\<lambda>e. ev_due_us e = ev_due_us event) (event # events')"
      "ys = dropWhile (\<lambda>e. ev_due_us e = ev_due_us event) (event # events')"
      "event # events' = xs @ ys" "\<forall>x \<in> set xs. ev_due_us x = ev_due_us event"
      "\<forall>y \<in> set ys. ev_due_us y \<noteq> ev_due_us event" "sorted (map ev_due_us ys)"
      "length ys < length (event # events')"
      by (rule first_group [OF prems(2)])
    from prems(1) xy(1,2) show ?thesis
    proof (cases rule: schedule_from_turn)
      case flag
      then show ?thesis by (simp add: ended_ok_def same_stamps_def)
    next
      case waiting
      then show ?thesis unfolding Cons by (auto simp: ended_ok_def same_stamps_def intro!: exI [of _ 0])
    next
      case (group released qpc c0 w0 ok c1 w1 os)
      have "\<forall>e \<in> set xs. target_of start (ev_due_us e) \<le> released" using xy(4) group(1) by simp
      note grp = run_group_facts [OF group(4) this]
      show ?thesis
      proof (cases ok)
        case False
        then have "end1 = Aborted" "offers = os" using group(5) by simp_all
        moreover have "scheduled_ok source start index (xs @ ys) os" using grp scheduled_ok_more by blast
        moreover have "same_stamps (xs @ ys) os" using grp by (blast intro: same_stamps_all)
        moreover have "ended_ok ge ee start index (xs @ ys) c Aborted os"
          using grp False by (auto simp: ended_ok_def flag_seen_def)
        ultimately show ?thesis unfolding Cons xy(3) by simp
      next
        case True
        then obtain os2 where r: "schedule_from ge ee source start (index + length xs) ys c1 w1 = (end1, w', os2)"
          "offers = os @ os2" using group(6) by blast
        have len: "length os = length xs" using grp True by blast
        note IH = less.hyps [OF xy(7) [folded Cons] r(1) xy(6)]
        have "scheduled_ok source start index (xs @ ys) (os @ os2)"
          using scheduled_ok_append [OF _ len] grp IH by blast
        moreover have "same_stamps (xs @ ys) (os @ os2)"
          by (rule same_stamps_append [OF _ len _ xy(4,5)]) (use grp IH in \<open>auto simp: scheduled_ok_def\<close>)
        moreover have "ended_ok ge ee start index (xs @ ys) c end1 (os @ os2)"
          by (rule ended_ok_append [OF _ len]) (use IH grp True group(2,3) in auto)
        ultimately show ?thesis unfolding Cons xy(3) r(2) by blast
      qed
    qed
  qed
qed


lemma prepared_events:
  assumes "validate_prepare version session song count events = Inr p"
  shows "sorted (map ev_due_us (ps_events p))" "ps_song p = song"
  using assms by (auto simp: validate_prepare_def validate_events_iff comp_def split: if_splits sum.splits)

text \<open>
  C7: a prepared playback is played on time, in order and completely. Whatever the clocks, the flags and
  the pipeline do, the events offered to the pipeline are the first ones of the session, in order, none
  before it is due, and events due together carry one time stamp. The schedule finishes only when every
  event was offered, and reports how many were queued and how many were lost; it is given up only when a
  flag was raised or the pipeline was gone; and it still waits only for an event that no clock reading
  of its wait has reached.
\<close>

theorem playback_on_time:
  assumes "validate_prepare version session song count events0 = Inr p"
    and "run_schedule ge ee now p start_delay_ms w = (end1, w', offers)"
  shows "(let events = ps_events p; start = now + min (unat start_delay_ms) 60000 * 1000000 in
    length offers \<le> length events
    \<and> (\<forall>k < length offers. so_index (offers ! k) = k
         \<and> frame_data (so_frame (offers ! k)) = ev_data (events ! k)
         \<and> frame_source (so_frame (offers ! k)) = ''ReliablePLV:'' @ song
         \<and> start + unat (ev_due_us (events ! k)) * 1000 \<le> so_released (offers ! k))
    \<and> (\<forall>i < length offers. \<forall>j < length offers. ev_due_us (events ! i) = ev_due_us (events ! j) \<longrightarrow>
         frame_ingress_qpc (so_frame (offers ! i)) = frame_ingress_qpc (so_frame (offers ! j)))
    \<and> (case end1 of
         Finished c \<Rightarrow> length offers = length events
           \<and> co_processed c = of_nat (length (filter (\<lambda>x. so_result x = Inr Enqueued) offers))
           \<and> co_dropped c = of_nat (length (filter (\<lambda>x. so_result x \<notin> {Inr Enqueued, Inr Filtered}) offers))
       | Aborted \<Rightarrow> flag_seen ge ee \<or> (\<exists>x \<in> set offers. so_result x = Inl NotRunning)
       | Waiting \<Rightarrow> \<exists>k < length events. \<forall>(x, t) \<in> set (ge_waits (ge k)).
           t < start + unat (ev_due_us (events ! k)) * 1000))"
proof -
  have "schedule_from ge ee (''ReliablePLV:'' @ song) (schedule_start now start_delay_ms) 0 (ps_events p)
      \<lparr>co_processed = 0, co_dropped = 0, co_max_late_us = 0\<rparr> w = (end1, w', offers)"
    using assms(2) prepared_events(2) [OF assms(1)] by (simp add: run_schedule_def playback_source_def)
  note facts = schedule_from_facts [OF this prepared_events(1) [OF assms(1)]]
  have offers: "scheduled_ok (''ReliablePLV:'' @ song) (schedule_start now start_delay_ms) 0 (ps_events p) offers"
    and stamps: "same_stamps (ps_events p) offers"
    and ended: "ended_ok ge ee (schedule_start now start_delay_ms) 0 (ps_events p)
      \<lparr>co_processed = 0, co_dropped = 0, co_max_late_us = 0\<rparr> end1 offers" using facts by blast+
  have accepted: "accepted = (\<lambda>x. so_result x = Inr Enqueued)"
    by (simp add: accepted_def fun_eq_iff)
  have lost: "filter lost offers = filter (\<lambda>x. so_result x \<notin> {Inr Enqueued, Inr Filtered}) offers"
    if "\<forall>x \<in> set offers. so_result x \<noteq> Inl NotRunning"
    using that by (auto simp: lost_def intro!: filter_cong)
  have "case end1 of
         Finished c \<Rightarrow> length offers = length (ps_events p)
           \<and> co_processed c = of_nat (length (filter (\<lambda>x. so_result x = Inr Enqueued) offers))
           \<and> co_dropped c = of_nat (length (filter (\<lambda>x. so_result x \<notin> {Inr Enqueued, Inr Filtered}) offers))
       | Aborted \<Rightarrow> flag_seen ge ee \<or> (\<exists>x \<in> set offers. so_result x = Inl NotRunning)
       | Waiting \<Rightarrow> \<exists>k < length (ps_events p). \<forall>(x, t) \<in> set (ge_waits (ge k)).
           t < target_of (schedule_start now start_delay_ms) (ev_due_us (ps_events p ! k))"
  proof (cases end1)
    case (Finished c)
    then have "\<forall>x \<in> set offers. so_result x \<noteq> Inl NotRunning" using ended by (simp add: ended_ok_def)
    from lost [OF this] show ?thesis using ended Finished by (simp add: ended_ok_def accepted)
  qed (use ended in \<open>simp_all add: ended_ok_def\<close>)
  then show ?thesis
    using offers stamps unfolding Let_def scheduled_ok_def offered_ok_def same_stamps_def target_of_def schedule_start_def add_0
    by (intro conjI) blast+
qed

text \<open>A session of one event that waits for its time.\<close>

definition sample_playback_world :: playback_world where
  "sample_playback_world = \<lparr>pw_pipeline = \<lparr>pl_in = 0, pl_out = 0, pl_filtered = 0, pl_queue_depth = 0,
       pl_queue_max_depth = 0, pl_dropped = 0, pl_debug_sample_last_ms = 0, pl_reset_requested = False,
       pl_reset_generation = 4\<rparr>,
     pw_queue = bounded ''input'' 16, pw_messages_in = 0, pw_messages_out = 0, pw_dropped = 0, pw_max_late_us = 0,
     pw_active = None, pw_next_connection = 1\<rparr>"

definition sample_event_env :: "nat \<Rightarrow> event_env" where
  "sample_event_env k = \<lparr>ee_cancelled = False, ee_before = (\<lambda>w. w), ee_others = (\<lambda>q. q), ee_queue_qpc = 0\<rparr>"

definition sample_group_env :: "nat \<Rightarrow> group_env" where
  "sample_group_env k = \<lparr>ge_cancelled = False, ge_waits = [(False, 0), (False, 10000)], ge_cancelled_after = False,
     ge_now = 11000, ge_ticks = 50000, ge_frequency = 1000000000, ge_observed = []\<rparr>"

definition sample_events :: "playback_event list" where
  "sample_events = [\<lparr>ev_seq = 0, ev_due_us = 5, ev_data = [0x90, 60, 0]\<rparr>]"

theorem playback_on_time_witness:
  "\<exists>p c w' x. validate_prepare 1 ''id'' ''song'' 1 sample_events = Inr p
     \<and> run_schedule sample_group_env sample_event_env 0 p 0 sample_playback_world = (Finished c, w', [x])
     \<and> co_processed c = 1 \<and> frame_data (so_frame x) = [0x80, 60, 0] \<and> 5000 \<le> so_released x"
proof -
  have n: "normalize_message [0x90, 60, 0] = (True, [0x80, 60, 0])" "normalize_message [0x80, 60, 0] = (True, [0x80, 60, 0])"
    by (simp_all add: normalize_message_def message_len_def)
  let ?p = "\<lparr>ps_session_id = ''id'', ps_song = ''song'',
    ps_events = [\<lparr>ev_seq = 0, ev_due_us = 5, ev_data = [0x80, 60, 0]\<rparr>]\<rparr>"
  have p: "validate_prepare 1 ''id'' ''song'' 1 sample_events = Inr ?p"
    by (simp add: validate_prepare_def PROTOCOL_VERSION_def sample_events_def n MAX_EVENT_BYTES_def)
  have "\<exists>c w' x. run_schedule sample_group_env sample_event_env 0 ?p 0 sample_playback_world = (Finished c, w', [x])
      \<and> so_result x = Inr Enqueued"
    by (simp add: run_schedule_def schedule_from.simps schedule_start_def target_of_def sample_group_env_def Let_def
        sample_event_env_def playback_frame_def try_enqueue_midi_frame_def n sample_playback_world_def
        prepare_def prepare_with_def record_max_late_def reserve_def try_send_retryable_def frame_critical_def
        bounded_def enqueue_prepared_midi_frame_def queue_defs is_critical_release_message_def)
  then obtain c w' x where r: "run_schedule sample_group_env sample_event_env 0 ?p 0 sample_playback_world
      = (Finished c, w', [x])" "so_result x = Inr Enqueued" by blast
  from playback_on_time [OF p r(1)] r(2) have "frame_data (so_frame x) = [0x80, 60, 0]" "5000 \<le> so_released x"
    "co_processed c = 1"
    by (auto simp: Let_def)
  then show ?thesis using p r(1) by blast
qed

end
