(* ===== verification/Reliable_Playback.thy ===== *)
theory Reliable_Playback
  imports Playback_Wire Playback_Schedule
begin

text \<open>
  A connection of the reliable playback server (\<open>handle_connection\<close> in \<open>reliable_playback.rs\<close>): the
  handshake, the loop that reads frames while the schedule runs, and how it ends.
\<close>

section \<open>Frames\<close>

datatype client_frame =
    PrepareFrame u8 string string nat "playback_event list"
  | StartFrame string u64
  | StopFrame string

text \<open>The reason of an error reply stands for its text.\<close>

datatype reply_error = PrepareRefused prepare_error | NotPrepared | ReadFailed frame_error | UnexpectedFrame

datatype server_frame =
    PreparedFrame string nat
  | CompletedFrame string u64 u64 u64
  | StoppedFrame string
  | ErrorFrame "string option" reply_error

section \<open>The session loop\<close>

text \<open>
  Its turns: what \<open>server_stop\<close> and \<open>done\<close> say, and the readings of the socket. \<open>started\<close> is the delay of
  the accepted Start. The last result lists the frames read, for the statements; \<open>None\<close> is a loop that
  has not ended when the turns are used up.
\<close>

datatype session_exit = LoopOver | StopRequested | PeerFailed | PeerUnexpected

fun session_loop ::
  "(bytes \<Rightarrow> string + client_frame) \<Rightarrow> string \<Rightarrow> u64 option \<Rightarrow> ((bool \<times> bool) \<times> poll list) list \<Rightarrow> bytes
     \<Rightarrow> (session_exit \<times> u64 option \<times> client_frame list) option" where
  "session_loop parse session started [] incoming = None"
| "session_loop parse session started (((stop, done), polls) # turns) incoming =
     (if stop \<or> done then Some (LoopOver, started, [])
      else case read_frame parse True True False incoming polls of
        None \<Rightarrow> None
      | Some (Inl e, incoming', _) \<Rightarrow>
          if retryable e then session_loop parse session started turns incoming'
          else Some (PeerFailed, started, [])
      | Some (Inr frame, incoming', _) \<Rightarrow>
          (case frame of
             StartFrame sid delay \<Rightarrow>
               if sid = session \<and> started = None then
                 map_option (\<lambda>(exit, started', frames). (exit, started', frame # frames))
                   (session_loop parse session (Some delay) turns incoming')
               else Some (PeerUnexpected, started, [frame])
           | StopFrame sid \<Rightarrow>
               Some (if sid = session then StopRequested else PeerUnexpected, started, [frame])
           | PrepareFrame _ _ _ _ _ \<Rightarrow> Some (PeerUnexpected, started, [frame])))"

section \<open>The connection\<close>

text \<open>What the connection did, for the statements: replies it tried to send and frames it offered to the pipeline.\<close>

datatype action = Replied server_frame | Offered schedule_offer | NotesOff schedule_offer

record 'w connection =
  cn_world :: playback_world
  cn_writer :: 'w
  cn_trace :: "action list"

text \<open>
  Its surroundings: whether the socket could be set up, the readings of the handshake, the turns of the
  loop, those of the schedule and the instant it starts at, what other threads did when it was joined, the
  flag read then, and the surroundings of the releases.
\<close>

record connection_env =
  ce_timeout_ok :: bool
  ce_clone_ok :: bool
  ce_handshake :: "poll list"
  ce_turns :: "((bool \<times> bool) \<times> poll list) list"
  ce_groups :: "nat \<Rightarrow> group_env"
  ce_events :: "nat \<Rightarrow> event_env"
  ce_start :: nat
  ce_joined :: "playback_world \<Rightarrow> playback_world"
  ce_stopping :: bool
  ce_releases :: "nat \<Rightarrow> event_env"
  ce_ticks :: "nat \<Rightarrow> u64"

type_synonym 'w reply_io = "(server_frame \<Rightarrow> string + bytes) \<times> 'w frame_writer"

definition reply :: "'w reply_io \<Rightarrow> server_frame \<Rightarrow> 'w connection \<Rightarrow> bool \<times> 'w connection" where
  "reply io frame c =
     (case send_server_frame (fst io) (snd io) frame (cn_writer c) of
        (r, writer) \<Rightarrow> (is_ok r, c\<lparr>cn_writer := writer, cn_trace := cn_trace c @ [Replied frame]\<rparr>))"

definition clear_active :: "u64 \<Rightarrow> playback_world \<Rightarrow> playback_world" where
  "clear_active connection_id w =
     (if map_option fst (pw_active w) = Some connection_id then w\<lparr>pw_active := None\<rparr> else w)"

definition release_notes :: "connection_env \<Rightarrow> string \<Rightarrow> 'w connection \<Rightarrow> 'w connection" where
  "release_notes env song c =
     (case inject_all_notes_off (ce_releases env) (ce_ticks env) (playback_source song) (cn_world c) of
        (w, offers) \<Rightarrow> c\<lparr>cn_world := w, cn_trace := cn_trace c @ map NotesOff offers\<rparr>)"

text \<open>
  The schedule and its end. The schedule touches the pipeline while the loop only reads the socket, so it
  is run here, where it is joined; a reply of the loop comes before it in the trace.
\<close>

definition join_schedule ::
  "connection_env \<Rightarrow> prepared_session \<Rightarrow> u64 option \<Rightarrow> 'w connection \<Rightarrow> (completion option \<times> 'w connection) option" where
  "join_schedule env p started c =
     (case started of
        None \<Rightarrow> Some (None, c)
      | Some delay \<Rightarrow>
          (case run_schedule (ce_groups env) (ce_events env) (ce_start env) p delay (cn_world c) of
             (Waiting, _, _) \<Rightarrow> None
           | (Aborted, w, offers) \<Rightarrow> Some (None, c\<lparr>cn_world := w, cn_trace := cn_trace c @ map Offered offers\<rparr>)
           | (Finished k, w, offers) \<Rightarrow>
               Some (Some k, c\<lparr>cn_world := w, cn_trace := cn_trace c @ map Offered offers\<rparr>)))"

definition end_session ::
  "'w reply_io \<Rightarrow> connection_env \<Rightarrow> u64 \<Rightarrow> prepared_session \<Rightarrow> session_exit \<Rightarrow> bool \<Rightarrow> completion option
     \<Rightarrow> 'w connection \<Rightarrow> 'w connection" where
  "end_session io env connection_id p exit started completion c =
     (let world = ce_joined env (cn_world c);
          c = c\<lparr>cn_world := (if started \<or> exit = StopRequested then clear_active connection_id world else world)\<rparr>
      in if ce_stopping env then c
         else if exit \<noteq> LoopOver then
           let c = (if started \<or> exit = StopRequested then release_notes env (ps_song p) c else c)
           in (if exit = StopRequested then snd (reply io (StoppedFrame (ps_session_id p)) c) else c)
         else (case completion of
             Some k \<Rightarrow> snd (reply io (CompletedFrame (ps_session_id p) (co_processed k) (co_max_late_us k) (co_dropped k)) c)
           | None \<Rightarrow> c))"

definition run_session ::
  "(bytes \<Rightarrow> string + client_frame) \<Rightarrow> 'w reply_io \<Rightarrow> connection_env \<Rightarrow> u64 \<Rightarrow> prepared_session \<Rightarrow> bytes
     \<Rightarrow> 'w connection \<Rightarrow> 'w connection option" where
  "run_session parse io env connection_id p incoming c =
     (case session_loop parse (ps_session_id p) None (ce_turns env) incoming of
        None \<Rightarrow> None
      | Some (exit, started, _) \<Rightarrow>
          let c = (if started \<noteq> None
                   then c\<lparr>cn_world := (cn_world c)\<lparr>pw_active := Some (connection_id, ps_session_id p)\<rparr>\<rparr> else c);
              c = (if exit = PeerUnexpected
                   then snd (reply io (ErrorFrame (Some (ps_session_id p)) UnexpectedFrame) c) else c)
          in case join_schedule env p started c of
               None \<Rightarrow> None
             | Some (completion, c) \<Rightarrow>
                 Some (end_session io env connection_id p exit (started \<noteq> None) completion c))"

definition handle_connection ::
  "(bytes \<Rightarrow> string + client_frame) \<Rightarrow> 'w reply_io \<Rightarrow> connection_env \<Rightarrow> bytes \<Rightarrow> 'w connection
     \<Rightarrow> 'w connection option" where
  "handle_connection parse io env incoming c =
     (if \<not> ce_timeout_ok env then Some c
      else
        let w = cn_world c; connection_id = pw_next_connection w;
            c = c\<lparr>cn_world := w\<lparr>pw_next_connection := connection_id + 1\<rparr>\<rparr>
        in if \<not> ce_clone_ok env then Some c
           else case read_frame parse False False True incoming (ce_handshake env) of
             None \<Rightarrow> None
           | Some (Inl e, _, _) \<Rightarrow> Some (snd (reply io (ErrorFrame None (ReadFailed e)) c))
           | Some (Inr (PrepareFrame version session song count events), incoming', _) \<Rightarrow>
               (case validate_prepare version session song count events of
                  Inl (refused, e) \<Rightarrow> Some (snd (reply io (ErrorFrame refused (PrepareRefused e)) c))
                | Inr p \<Rightarrow>
                    let w = cn_world c;
                        c = c\<lparr>cn_world := w\<lparr>pw_messages_in := pw_messages_in w + of_nat (length (ps_events p))\<rparr>\<rparr>
                    in (case reply io (PreparedFrame (ps_session_id p) (length (ps_events p))) c of
                          (False, c) \<Rightarrow> Some c
                        | (True, c) \<Rightarrow> run_session parse io env connection_id p incoming' c))
           | Some (Inr _, _, _) \<Rightarrow> Some (snd (reply io (ErrorFrame None NotPrepared) c)))"

text \<open>The end of the server, after its connections were joined.\<close>

definition server_stop :: "(nat \<Rightarrow> event_env) \<Rightarrow> (nat \<Rightarrow> u64) \<Rightarrow> playback_world \<Rightarrow> playback_world" where
  "server_stop env ticks w = (fst (inject_all_notes_off env ticks ''ReliablePLV:server-stop'' w))\<lparr>pw_active := None\<rparr>"

section \<open>The loop stays in step with the stream\<close>

text \<open>\<open>done\<close> is never lowered: a turn that saw it is followed by one that sees it.\<close>

fun done_stays :: "((bool \<times> bool) \<times> poll list) list \<Rightarrow> bool" where
  "done_stays [] = True"
| "done_stays (turn # turns) =
     ((done_seen (snd turn) \<longrightarrow> (case turns of [] \<Rightarrow> True | next1 # _ \<Rightarrow> snd (fst next1))) \<and> done_stays turns)"

lemma read_frame_from_nothing:
  assumes "read_frame parse watch idle False [] polls = Some (r, incoming', polls')"
  shows "incoming' = [] \<and> (\<exists>e. r = Inl e)"
proof -
  obtain r1 in1 ps1 where h: "read_exact_preserving_progress watch idle False 4 [] [] polls = Some (r1, in1, ps1)"
    using assms by (auto simp: read_frame_def split: option.splits)
  from read_exact_from_start [OF h] have "in1 = []" "\<exists>e. r1 = Inl e" by (cases r1; auto)+
  then show ?thesis using assms h by (auto simp: read_frame_def)
qed

lemma session_loop_over: "done \<Longrightarrow> session_loop parse session started (((stop, done), polls) # turns) incoming = Some (LoopOver, started, [])"
  by simp

lemma session_loop_in_step:
  assumes "session_loop parse session started turns (concat (map frame_wire ds)) = Some (exit, started', frames)"
    and "\<forall>d \<in> set ds. length d \<le> MAX_FRAME_BYTES" "done_stays turns"
  shows "length frames \<le> length ds \<and> map Inr frames = map parse (take (length frames) ds)"
  using assms
proof (induction turns arbitrary: started ds exit started' frames)
  case Nil
  then show ?case by simp
next
  case (Cons turn turns)
  obtain stop d polls where turn: "turn = ((stop, d), polls)" by (metis prod.collapse)
  show ?case
  proof (cases "stop \<or> d")
    case True
    then show ?thesis using Cons.prems(1) turn by auto
  next
    case False
    let ?in = "concat (map frame_wire ds)"
    obtain r in1 ps1 where rd: "read_frame parse True True False ?in polls = Some (r, in1, ps1)"
      using Cons.prems(1) False turn by (auto split: option.splits)
    have retry: ?thesis if "r = Inl e" "in1 = ?in \<or> done_seen polls" for e
    proof (cases "retryable e \<and> frames \<noteq> []")
      case True
      then have next1: "session_loop parse session started turns in1 = Some (exit, started', frames)"
        using Cons.prems(1) False turn rd that(1) by simp
      have "\<not> done_seen polls"
      proof
        assume seen: "done_seen polls"
        show False
        proof (cases turns)
          case Nil
          then show ?thesis using next1 by simp
        next
          case (Cons t rest)
          then have "snd (fst t)" using seen \<open>done_stays (turn # turns)\<close> turn by simp
          then have "session_loop parse session started turns in1 = Some (LoopOver, started, [])"
            unfolding Cons by (cases t; cases "fst t") simp
          then show ?thesis using next1 True by simp
        qed
      qed
      then show ?thesis using Cons.IH [of started ds] next1 that(2) Cons.prems(2,3) turn by simp
    next
      case False
      then show ?thesis using Cons.prems(1) \<open>\<not> (stop \<or> d)\<close> turn rd that(1) by (auto split: if_splits)
    qed
    show ?thesis
    proof (cases ds)
      case Nil
      then show ?thesis using read_frame_from_nothing [OF rd [unfolded Nil list.map concat.simps]] retry by auto
    next
      case (Cons d1 ds')
      have len: "length d1 \<le> MAX_FRAME_BYTES" using Cons.prems(2) Cons by simp
      from read_frame_from_frames [OF rd [unfolded Cons list.map concat.simps] len]
      obtain used where used: "polls = used @ ps1"
        "case r of Inr f \<Rightarrow> parse d1 = Inr f \<and> in1 = concat (map frame_wire ds')
         | Inl e \<Rightarrow> retryable e \<longrightarrow> in1 = frame_wire d1 @ concat (map frame_wire ds') \<or> done_seen used" by blast
      show ?thesis
      proof (cases r)
        case (Inl e)
        show ?thesis
        proof (cases "retryable e")
          case True
          then show ?thesis using used Inl Cons by (intro retry [OF Inl]) auto
        next
          case False
          then show ?thesis using Cons.prems(1) \<open>\<not> (stop \<or> d)\<close> turn rd Inl by auto
        qed
      next
        case (Inr f)
        then have f: "parse d1 = Inr f" "in1 = concat (map frame_wire ds')" using used by simp_all
        show ?thesis
        proof (cases "\<exists>sid delay. f = StartFrame sid delay \<and> sid = session \<and> started = None")
          case True
          then obtain delay where st: "f = StartFrame session delay" "started = None" by blast
          then obtain fs where fs: "session_loop parse session (Some delay) turns (concat (map frame_wire ds'))
              = Some (exit, started', fs)" "frames = f # fs"
            using Cons.prems(1) \<open>\<not> (stop \<or> d)\<close> turn rd Inr f(2) by (auto split: option.splits)
          have "length fs \<le> length ds' \<and> map Inr fs = map parse (take (length fs) ds')"
            by (rule Cons.IH [OF fs(1)]) (use Cons.prems(2,3) Cons in auto)
          then show ?thesis using fs(2) f(1) Cons by simp
        next
          case False
          then have "frames = [f]"
            using Cons.prems(1) \<open>\<not> (stop \<or> d)\<close> turn rd Inr by (auto split: client_frame.splits if_splits)
          then show ?thesis using f(1) Cons by simp
        qed
      qed
    qed
  qed
qed


lemma session_loop_shape:
  assumes "session_loop parse session started turns incoming = Some (exit, started', frames)"
  shows "\<exists>end_frames. frames = (if started' = started then [] else [StartFrame session (the started')]) @ end_frames
    \<and> (started' \<noteq> started \<longrightarrow> started = None \<and> started' \<noteq> None)
    \<and> length end_frames \<le> 1
    \<and> (exit = StopRequested \<longleftrightarrow> end_frames = [StopFrame session])
    \<and> (exit \<in> {LoopOver, PeerFailed} \<longleftrightarrow> end_frames = [])"
  using assms
proof (induction turns arbitrary: started incoming exit started' frames)
  case Nil
  then show ?case by simp
next
  case (Cons turn turns)
  obtain stop d polls where turn: "turn = ((stop, d), polls)" by (metis prod.collapse)
  show ?case
  proof (cases "stop \<or> d")
    case True
    then have "exit = LoopOver" "started' = started" "frames = []" using Cons.prems turn by auto
    then show ?thesis by simp
  next
    case False
    obtain r in1 ps1 where rd: "read_frame parse True True False incoming polls = Some (r, in1, ps1)"
      using Cons.prems False turn by (auto split: option.splits)
    note step = Cons.prems [unfolded turn session_loop.simps(2) rd] and run = False
    show ?thesis
    proof (cases r)
      case (Inl e)
      show ?thesis
      proof (cases "retryable e")
        case True
        then show ?thesis using step run Inl by (intro Cons.IH) simp
      next
        case False
        then have "exit = PeerFailed" "started' = started" "frames = []" using step run Inl by simp_all
        then show ?thesis by simp
      qed
    next
      case (Inr f)
      show ?thesis
      proof (cases "\<exists>delay. f = StartFrame session delay \<and> started = None")
        case True
        then obtain delay where f: "f = StartFrame session delay" "started = None" by blast
        then obtain fs where fs: "session_loop parse session (Some delay) turns in1 = Some (exit, started', fs)"
            "frames = f # fs"
          using step run Inr by (auto split: option.splits)
        from Cons.IH [OF fs(1)] show ?thesis using fs(2) f by (auto split: if_splits)
      next
        case False
        then have "started' = started" "frames = [f]" "exit = (if f = StopFrame session then StopRequested else PeerUnexpected)"
          using step run Inr by (auto split: client_frame.splits if_splits)
        then show ?thesis by simp
      qed
    qed
  qed
qed

text \<open>
  C8: the framing survives timeouts. However the peer's frames arrive - in pieces of any size, with
  timeouts anywhere - the frames the session loop handles are the first ones the peer sent, in order,
  none torn or skipped: at most a Start with the session's name and one more, and the loop ends as
  that one says.
\<close>

theorem playback_frames_in_step:
  assumes "session_loop parse session None turns (concat (map frame_wire ds)) = Some (exit, started, frames)"
    and "\<forall>d \<in> set ds. length d \<le> 16777216" "done_stays turns"
  shows "length frames \<le> length ds \<and> map Inr frames = map parse (take (length frames) ds)
    \<and> (\<exists>end_frames. frames = (case started of None \<Rightarrow> [] | Some delay \<Rightarrow> [StartFrame session delay]) @ end_frames
         \<and> length end_frames \<le> 1
         \<and> (exit = StopRequested \<longleftrightarrow> end_frames = [StopFrame session])
         \<and> (exit \<in> {LoopOver, PeerFailed} \<longleftrightarrow> end_frames = []))"
proof -
  have "\<forall>d \<in> set ds. length d \<le> MAX_FRAME_BYTES" using assms(2) by (simp add: MAX_FRAME_BYTES_def)
  from session_loop_in_step [OF assms(1) this assms(3)] session_loop_shape [OF assms(1)]
  show ?thesis by (cases started) auto
qed

text \<open>A Stop frame that arrives in two pieces with a timeout between them and one before.\<close>

definition sample_parse :: "bytes \<Rightarrow> string + client_frame" where
  "sample_parse data = (if data = [0x53] then Inr (StopFrame ''id'') else Inl ''expected value'')"

definition sample_poll :: "stream_read \<Rightarrow> poll" where
  "sample_poll r = \<lparr>po_stop = False, po_done = False, po_expired = False, po_read = r, po_expired_after = False,
     po_done_after = False\<rparr>"

theorem playback_frames_in_step_witness:
  "\<exists>exit started frames. session_loop sample_parse ''id'' None
       [((False, False), [sample_poll Idle]),
        ((False, False), [sample_poll (Got 2), sample_poll Idle, sample_poll (Got 9), sample_poll (Got 3)])]
       (concat (map frame_wire [[0x53]])) = Some (exit, started, frames)
     \<and> frames = [StopFrame ''id''] \<and> exit = StopRequested"
proof -
  let ?turns = "[((False, False), [sample_poll Idle]),
        ((False, False), [sample_poll (Got 2), sample_poll Idle, sample_poll (Got 9), sample_poll (Got 3)])]"
  have wire: "concat (map frame_wire [[0x53]]) = [0, 0, 0, 1, 0x53]"
    by code_simp
  have first: "read_frame sample_parse True True False [0, 0, 0, 1, 0x53] [sample_poll Idle]
      = Some (Inl NoData, [0, 0, 0, 1, 0x53], [])"
    by (simp add: read_frame_def read_exact_preserving_progress.simps read_turn_def idle_turn_def sample_poll_def)
  have "from_be_bytes [0, 0, 0, 1] = (1 :: u32)" by code_simp
  then have second: "read_frame sample_parse True True False [0, 0, 0, 1, 0x53]
      [sample_poll (Got 2), sample_poll Idle, sample_poll (Got 9), sample_poll (Got 3)] = Some (Inr (StopFrame ''id''), [], [])"
    by (simp add: read_frame_def read_exact_preserving_progress.simps read_turn_def idle_turn_def sample_poll_def
        Let_def sample_parse_def MAX_FRAME_BYTES_def)
  have run: "session_loop sample_parse ''id'' None ?turns (concat (map frame_wire [[0x53]]))
      = Some (StopRequested, None, [StopFrame ''id''])"
    unfolding wire by (simp add: first second retryable_def)
  have stays: "done_stays ?turns" by (simp add: done_seen_def sample_poll_def)
  from playback_frames_in_step [OF run _ stays] run show ?thesis by auto
qed

section \<open>How a connection ends\<close>

lemma inject_messages_facts:
  "inject_messages env ticks source index messages w = (w', offers) \<Longrightarrow>
     map (\<lambda>x. frame_data (so_frame x)) offers = messages \<and> (\<forall>x \<in> set offers. frame_source (so_frame x) = source)"
  by (induction messages arbitrary: index w offers) (auto simp: Let_def split: prod.splits)

text \<open>
  The trace of a connection in its parts: what it replied before the schedule, what the schedule offered,
  the releases, the last reply.
\<close>

definition trace_parts ::
  "connection_env \<Rightarrow> prepared_session \<Rightarrow> action list \<Rightarrow> server_frame list \<Rightarrow> schedule_offer list
     \<Rightarrow> schedule_offer list \<Rightarrow> server_frame list \<Rightarrow> bool" where
  "trace_parts env p trace replies offers releases final \<longleftrightarrow>
     trace = map Replied replies @ map Offered offers @ map NotesOff releases @ map Replied final
     \<and> (releases = [] \<or> map (\<lambda>x. frame_data (so_frame x)) releases = all_notes_off
          \<and> (\<forall>x \<in> set releases. frame_source (so_frame x) = playback_source (ps_song p)))
     \<and> (\<forall>sid. StoppedFrame sid \<notin> set replies \<and> (StoppedFrame sid \<in> set final \<longrightarrow> releases \<noteq> []))
     \<and> (\<forall>sid a b c. CompletedFrame sid a b c \<notin> set replies
          \<and> (CompletedFrame sid a b c \<in> set final \<longrightarrow> sid = ps_session_id p \<and> length offers = length (ps_events p)))
     \<and> (offers \<noteq> [] \<and> releases = [] \<longrightarrow> ce_stopping env
          \<or> (\<exists>turn \<in> set (ce_turns env). fst (fst turn) \<or> snd (fst turn)))"


lemma reply_trace [simp]: "cn_trace (snd (reply io frame c)) = cn_trace c @ [Replied frame]"
  "cn_world (snd (reply io frame c)) = cn_world c"
  by (simp_all add: reply_def split: prod.split)

lemma release_notes_trace:
  "\<exists>releases. cn_trace (release_notes env song c) = cn_trace c @ map NotesOff releases
     \<and> map (\<lambda>x. frame_data (so_frame x)) releases = all_notes_off
     \<and> (\<forall>x \<in> set releases. frame_source (so_frame x) = playback_source song)"
proof -
  obtain w offers where i: "inject_all_notes_off (ce_releases env) (ce_ticks env) (playback_source song) (cn_world c)
      = (w, offers)" by fastforce
  from inject_messages_facts [OF i [unfolded inject_all_notes_off_def]] show ?thesis
    by (intro exI [of _ offers]) (simp add: release_notes_def i)
qed

lemma all_notes_off_some: "all_notes_off \<noteq> []"
  by (auto simp: all_notes_off_def intro: exI [of _ "0 :: nat"])


lemma end_session_trace:
  assumes "cn_trace c = map Replied replies @ map Offered offers"
    and "\<forall>sid. StoppedFrame sid \<notin> set replies" "\<forall>sid a b c. CompletedFrame sid a b c \<notin> set replies"
    and "exit = LoopOver \<longrightarrow> (\<exists>turn \<in> set (ce_turns env). fst (fst turn) \<or> snd (fst turn))"
    and "started = False \<longrightarrow> offers = [] \<and> completion = None"
    and "completion \<noteq> None \<longrightarrow> length offers = length (ps_events p)"
  shows "\<exists>releases final. trace_parts env p (cn_trace (end_session io env connection_id p exit started completion c))
      replies offers releases final"
proof -
  define c1 where "c1 = c\<lparr>cn_world := (if started \<or> exit = StopRequested
      then clear_active connection_id (ce_joined env (cn_world c)) else ce_joined env (cn_world c))\<rparr>"
  have t1: "cn_trace c1 = map Replied replies @ map Offered offers" by (simp add: c1_def assms(1))
  have e: "end_session io env connection_id p exit started completion c =
     (if ce_stopping env then c1
      else if exit \<noteq> LoopOver then
        let c = (if started \<or> exit = StopRequested then release_notes env (ps_song p) c1 else c1)
        in (if exit = StopRequested then snd (reply io (StoppedFrame (ps_session_id p)) c) else c)
      else (case completion of
          Some k \<Rightarrow> snd (reply io (CompletedFrame (ps_session_id p) (co_processed k) (co_max_late_us k) (co_dropped k)) c1)
        | None \<Rightarrow> c1))"
    by (simp only: end_session_def Let_def c1_def)
  obtain releases where rel: "cn_trace (release_notes env (ps_song p) c1) = cn_trace c1 @ map NotesOff releases"
    "map (\<lambda>x. frame_data (so_frame x)) releases = all_notes_off"
    "\<forall>x \<in> set releases. frame_source (so_frame x) = playback_source (ps_song p)"
    using release_notes_trace [of env "ps_song p" c1] by blast
  have some: "releases \<noteq> []" using rel(2) all_notes_off_some by auto
  consider (stopping) "ce_stopping env" | (stopped) "\<not> ce_stopping env" "exit = StopRequested"
    | (failed) "\<not> ce_stopping env" "exit \<noteq> LoopOver" "exit \<noteq> StopRequested"
    | (over) "\<not> ce_stopping env" "exit = LoopOver" by blast
  then show ?thesis
  proof cases
    case stopping
    then show ?thesis unfolding e
      by (intro exI [of _ "[] :: schedule_offer list"] exI [of _ "[] :: server_frame list"])
        (simp add: trace_parts_def t1 assms)
  next
    case stopped
    then show ?thesis unfolding e
      by (intro exI [of _ releases] exI [of _ "[StoppedFrame (ps_session_id p)]"])
        (simp add: trace_parts_def t1 assms rel some)
  next
    case failed
    then show ?thesis unfolding e
      by (intro exI [of _ "if started then releases else []"] exI [of _ "[] :: server_frame list"])
        (use assms in \<open>auto simp: trace_parts_def t1 rel some Let_def\<close>)
  next
    case over
    then show ?thesis unfolding e
      by (intro exI [of _ "[] :: schedule_offer list"]
          exI [of _ "case completion of Some k \<Rightarrow> [CompletedFrame (ps_session_id p) (co_processed k)
             (co_max_late_us k) (co_dropped k)] | None \<Rightarrow> []"])
        (use assms in \<open>auto simp: trace_parts_def t1 split: option.splits\<close>)
  qed
qed


lemma join_schedule_trace:
  assumes "join_schedule env p started c = Some (completion, c')" "sorted (map ev_due_us (ps_events p))"
  shows "\<exists>offers. cn_trace c' = cn_trace c @ map Offered offers
    \<and> (\<forall>x \<in> set offers. frame_source (so_frame x) = playback_source (ps_song p))
    \<and> (started = None \<longrightarrow> offers = [] \<and> completion = None)
    \<and> (completion \<noteq> None \<longrightarrow> length offers = length (ps_events p))"
proof (cases started)
  case None
  then show ?thesis using assms(1) by (simp add: join_schedule_def)
next
  case (Some delay)
  obtain end1 w offers where r: "run_schedule (ce_groups env) (ce_events env) (ce_start env) p delay (cn_world c)
      = (end1, w, offers)" by (metis prod_cases3)
  note facts = schedule_from_facts [OF r [unfolded run_schedule_def] assms(2)]
  have "\<forall>x \<in> set offers. frame_source (so_frame x) = playback_source (ps_song p)"
    using facts by (auto simp: scheduled_ok_def offered_ok_def in_set_conv_nth)
  moreover have "cn_trace c' = cn_trace c @ map Offered offers"
    using assms(1) Some r by (auto simp: join_schedule_def split: schedule_end.splits)
  moreover have "completion \<noteq> None \<longrightarrow> length offers = length (ps_events p)"
    using assms(1) Some r facts by (auto simp: join_schedule_def ended_ok_def split: schedule_end.splits)
  ultimately show ?thesis using Some by blast
qed

lemma session_loop_flag:
  "session_loop parse session started turns incoming = Some (LoopOver, started', frames) \<Longrightarrow>
     \<exists>turn \<in> set turns. fst (fst turn) \<or> snd (fst turn)"
proof (induction turns arbitrary: started incoming started' frames)
  case Nil
  then show ?case by simp
next
  case (Cons turn turns)
  obtain stop d polls where turn: "turn = ((stop, d), polls)" by (metis prod.collapse)
  show ?case
  proof (cases "stop \<or> d")
    case True
    then show ?thesis using turn by auto
  next
    case False
    then have "\<exists>st fs incoming'. session_loop parse session st turns incoming' = Some (LoopOver, started', fs)"
      using Cons.prems unfolding turn
      by (auto split: option.splits prod.splits sum.splits client_frame.splits if_splits)
    then show ?thesis using Cons.IH by fastforce
  qed
qed

lemma run_session_trace:
  assumes "run_session parse io env connection_id p incoming c = Some c'" "sorted (map ev_due_us (ps_events p))"
    and "cn_trace c = [Replied (PreparedFrame (ps_session_id p) (length (ps_events p)))]"
  shows "\<exists>replies offers releases final. trace_parts env p (cn_trace c') replies offers releases final
    \<and> (\<forall>x \<in> set offers. frame_source (so_frame x) = playback_source (ps_song p))
    \<and> PreparedFrame (ps_session_id p) (length (ps_events p)) \<in> set replies"
proof -
  obtain exit started frames where l: "session_loop parse (ps_session_id p) None (ce_turns env) incoming
      = Some (exit, started, frames)"
    using assms(1) by (auto simp: run_session_def split: option.splits)
  define c1 where "c1 = (if started \<noteq> None
      then c\<lparr>cn_world := (cn_world c)\<lparr>pw_active := Some (connection_id, ps_session_id p)\<rparr>\<rparr> else c)"
  define c2 where "c2 = (if exit = PeerUnexpected
      then snd (reply io (ErrorFrame (Some (ps_session_id p)) UnexpectedFrame) c1) else c1)"
  define replies where "replies = PreparedFrame (ps_session_id p) (length (ps_events p))
      # (if exit = PeerUnexpected then [ErrorFrame (Some (ps_session_id p)) UnexpectedFrame] else [])"
  have t2: "cn_trace c2 = map Replied replies" by (simp add: c2_def c1_def replies_def assms(3))
  have "run_session parse io env connection_id p incoming c = (case join_schedule env p started c2 of
      None \<Rightarrow> None
    | Some (completion, c) \<Rightarrow> Some (end_session io env connection_id p exit (started \<noteq> None) completion c))"
    by (simp only: run_session_def l option.case prod.case Let_def c1_def c2_def)
  then obtain completion c3 where j: "join_schedule env p started c2 = Some (completion, c3)"
    and c': "c' = end_session io env connection_id p exit (started \<noteq> None) completion c3"
    using assms(1) by (auto split: option.splits)
  from join_schedule_trace [OF j assms(2)] obtain offers where o: "cn_trace c3 = cn_trace c2 @ map Offered offers"
    "\<forall>x \<in> set offers. frame_source (so_frame x) = playback_source (ps_song p)"
    "started = None \<longrightarrow> offers = [] \<and> completion = None"
    "completion \<noteq> None \<longrightarrow> length offers = length (ps_events p)" by blast
  have "\<exists>releases final. trace_parts env p (cn_trace c') replies offers releases final"
    unfolding c'
    by (rule end_session_trace)
      (use o t2 session_loop_flag l in \<open>auto simp: replies_def\<close>)
  then obtain releases final where parts: "trace_parts env p (cn_trace c') replies offers releases final" by blast
  show ?thesis using parts o(2) by (intro exI [of _ replies] exI conjI) (auto simp: replies_def)
qed


text \<open>
  C6: a playback connection cleans up after itself. Whatever the peer, the clocks and the pipeline do, the
  connection's last act follows everything its schedule offered: it says Stopped only after releasing
  the pedals and notes of all sixteen channels, it says Completed only when as many events were offered
  as it had announced, and when events were offered and nothing is released, the schedule ended
  by itself or the server is stopping, which releases once for all.
\<close>

theorem playback_cleans_up:
  assumes "handle_connection parse io env incoming c = Some c'" "cn_trace c = []"
  shows "\<exists>song replies offers releases final.
      cn_trace c' = map Replied replies @ map Offered offers @ map NotesOff releases @ map Replied final
    \<and> (\<forall>x \<in> set (offers @ releases). frame_source (so_frame x) = ''ReliablePLV:'' @ song)
    \<and> (releases = [] \<or> map (\<lambda>x. frame_data (so_frame x)) releases = all_notes_off)
    \<and> (\<forall>sid. StoppedFrame sid \<in> set (replies @ final) \<longrightarrow> StoppedFrame sid \<in> set final \<and> releases \<noteq> [])
    \<and> (\<forall>sid a b k. CompletedFrame sid a b k \<in> set (replies @ final) \<longrightarrow> PreparedFrame sid (length offers) \<in> set replies)
    \<and> (offers \<noteq> [] \<and> releases = [] \<longrightarrow> ce_stopping env
        \<or> (\<exists>turn \<in> set (ce_turns env). fst (fst turn) \<or> snd (fst turn)))"
proof -
  have quiet: ?thesis if "cn_trace c' = map Replied replies" "\<forall>r \<in> set replies. (\<exists>sid e. r = ErrorFrame sid e)
      \<or> (\<exists>sid n. r = PreparedFrame sid n)" for replies
    by (rule exI, rule exI [of _ replies], rule exI [of _ "[]"], rule exI [of _ "[]"], rule exI [of _ "[]"])
      (use that in auto)
  have session: ?thesis if "run_session parse io env connection_id p incoming' c1 = Some c'"
      "validate_prepare version session song count events = Inr p"
      "cn_trace c1 = [Replied (PreparedFrame (ps_session_id p) (length (ps_events p)))]"
    for connection_id p incoming' c1 version session song count events
  proof -
    from run_session_trace [OF that(1) prepared_events(1) [OF that(2)] that(3)]
    obtain replies offers releases final where t: "trace_parts env p (cn_trace c') replies offers releases final"
      "\<forall>x \<in> set offers. frame_source (so_frame x) = playback_source (ps_song p)"
      "PreparedFrame (ps_session_id p) (length (ps_events p)) \<in> set replies" by blast
    show ?thesis
      by (rule exI [of _ "ps_song p"], rule exI [of _ replies], rule exI [of _ offers], rule exI [of _ releases],
          rule exI [of _ final])
        (use t in \<open>auto simp: trace_parts_def playback_source_def\<close>)
  qed
  let ?w = "cn_world c"
  let ?c = "c\<lparr>cn_world := ?w\<lparr>pw_next_connection := pw_next_connection ?w + 1\<rparr>\<rparr>"
  show ?thesis
  proof (cases "ce_timeout_ok env \<and> ce_clone_ok env")
    case False
    then have "cn_trace c' = map Replied []" using assms
      by (cases "ce_timeout_ok env") (auto simp: handle_connection_def Let_def)
    then show ?thesis by (rule quiet) simp
  next
    case True
    obtain r incoming' polls where rd: "read_frame parse False False True incoming (ce_handshake env)
        = Some (r, incoming', polls)"
      using assms(1) True by (auto simp: handle_connection_def Let_def split: option.splits)
    note run = assms(1) [unfolded handle_connection_def Let_def connection.simps, unfolded rd]
    show ?thesis
    proof (cases r)
      case (Inl e)
      then have "cn_trace c' = map Replied [ErrorFrame None (ReadFailed e)]"
        using run True assms(2) by (auto simp: reply_trace)
      then show ?thesis by (rule quiet) simp
    next
      case (Inr f)
      show ?thesis
      proof (cases f)
        case (PrepareFrame version session song count events)
        show ?thesis
        proof (cases "validate_prepare version session song count events")
          case (Inl x)
          then have "cn_trace c' = map Replied [ErrorFrame (fst x) (PrepareRefused (snd x))]"
            using run True Inr PrepareFrame assms(2) by (cases x) auto
          then show ?thesis by (rule quiet) simp
        next
          case p: (Inr p)
          let ?d = "?c\<lparr>cn_world := (cn_world ?c)\<lparr>pw_messages_in := pw_messages_in (cn_world ?c)
              + of_nat (length (ps_events p))\<rparr>\<rparr>"
          obtain sent c1 where s: "reply io (PreparedFrame (ps_session_id p) (length (ps_events p))) ?d = (sent, c1)"
            by fastforce
          have t1: "cn_trace c1 = map Replied [PreparedFrame (ps_session_id p) (length (ps_events p))]"
            using reply_trace(1) [of io "PreparedFrame (ps_session_id p) (length (ps_events p))" ?d] assms(2)
            unfolding s by simp
          show ?thesis
          proof (cases sent)
            case False
            then have "c' = c1" using run True Inr PrepareFrame p s by simp
            then show ?thesis
              using t1 by (intro quiet [of "[PreparedFrame (ps_session_id p) (length (ps_events p))]"]) simp_all
          next
            case sent: True
            then have "run_session parse io env (pw_next_connection ?w) p incoming' c1 = Some c'"
              using run True Inr PrepareFrame p s by simp
            then show ?thesis using t1 by (intro session [OF _ p]) simp_all
          qed
        qed
      qed (use run True Inr assms(2) quiet [of "[ErrorFrame None NotPrepared]"] in \<open>auto\<close>)
    qed
  qed
qed


text \<open>A client that prepares one event and stops.\<close>

definition sample_client :: "bytes \<Rightarrow> string + client_frame" where
  "sample_client data =
     (if data = [0x50] then Inr (PrepareFrame 1 ''id'' ''song'' 1 sample_events)
      else if data = [0x53] then Inr (StopFrame ''id'') else Inl ''expected value'')"

definition sample_connection_env :: connection_env where
  "sample_connection_env = \<lparr>ce_timeout_ok = True, ce_clone_ok = True,
     ce_handshake = [sample_poll (Got 4), sample_poll (Got 4)],
     ce_turns = [((False, False), [sample_poll (Got 4), sample_poll (Got 4)])],
     ce_groups = sample_group_env, ce_events = sample_event_env, ce_start = 0, ce_joined = (\<lambda>w. w),
     ce_stopping = False, ce_releases = sample_event_env, ce_ticks = (\<lambda>_. 0)\<rparr>"

definition sample_connection :: "bytes list connection" where
  "sample_connection = \<lparr>cn_world = sample_playback_world, cn_writer = [], cn_trace = []\<rparr>"

definition sample_io :: "bytes list reply_io" where
  "sample_io = ((\<lambda>_. Inr [0x21]), \<lparr>fw_write_all = (\<lambda>data w. (Inr (), w @ [data])), fw_flush = (\<lambda>w. (Inr (), w))\<rparr>)"

theorem playback_cleans_up_witness:
  "\<exists>c'. handle_connection sample_client sample_io sample_connection_env [0, 0, 0, 1, 0x50, 0, 0, 0, 1, 0x53]
       sample_connection = Some c'
     \<and> Replied (StoppedFrame ''id'') \<in> set (cn_trace c') \<and> (\<exists>x. NotesOff x \<in> set (cn_trace c'))"
proof -
  let ?p = "\<lparr>ps_session_id = ''id'', ps_song = ''song'',
    ps_events = [\<lparr>ev_seq = 0, ev_due_us = 5, ev_data = [0x80, 60, 0]\<rparr>]\<rparr>"
  have n: "normalize_message [0x90, 60, 0] = (True, [0x80, 60, 0])"
    by (simp add: normalize_message_def message_len_def)
  have p: "validate_prepare 1 ''id'' ''song'' 1 sample_events = Inr ?p"
    by (simp add: validate_prepare_def PROTOCOL_VERSION_def sample_events_def n MAX_EVENT_BYTES_def)
  have one: "from_be_bytes [0, 0, 0, 1] = (1 :: u32)" by code_simp
  have rd: "read_frame sample_client watch idle deadline ([0, 0, 0, 1, x] @ rest) [sample_poll (Got 4), sample_poll (Got 4)]
      = Some (case sample_client [x] of Inl e \<Rightarrow> Inl (BadJson e) | Inr f \<Rightarrow> Inr f, rest, [])" for watch idle deadline x rest
    by (simp add: read_frame_def read_exact_preserving_progress.simps read_turn_def sample_poll_def
        Let_def MAX_FRAME_BYTES_def one)
  have first: "read_frame sample_client False False True [0, 0, 0, 1, 0x50, 0, 0, 0, 1, 0x53] (ce_handshake sample_connection_env)
      = Some (Inr (PrepareFrame 1 ''id'' ''song'' 1 sample_events), [0, 0, 0, 1, 0x53], [])"
    using rd [of False False True "0x50" "[0, 0, 0, 1, 0x53]"] by (simp add: sample_client_def sample_connection_env_def)
  have loop: "session_loop sample_client ''id'' None (ce_turns sample_connection_env) [0, 0, 0, 1, 0x53]
      = Some (StopRequested, None, [StopFrame ''id''])"
    using rd [of True True False "0x53" "[]"] by (simp add: sample_client_def sample_connection_env_def)
  have fst_io: "fst sample_io f = Inr [0x21]" for f by (simp add: sample_io_def)
  have snd_io: "fw_write_all (snd sample_io) d w = (Inr (), w @ [d])" "fw_flush (snd sample_io) w = (Inr (), w)"
    for d w by (simp_all add: sample_io_def)
  have socket: "ce_timeout_ok sample_connection_env" "ce_clone_ok sample_connection_env"
    "pw_next_connection (cn_world sample_connection) = 1"
    by (simp_all add: sample_connection_env_def sample_connection_def sample_playback_world_def)
  have "\<exists>c1. handle_connection sample_client sample_io sample_connection_env
      [0, 0, 0, 1, 0x50, 0, 0, 0, 1, 0x53] sample_connection
      = run_session sample_client sample_io sample_connection_env 1 ?p [0, 0, 0, 1, 0x53] c1"
    by (simp add: handle_connection_def Let_def first p [unfolded One_nat_def] socket reply_def send_server_frame_def fst_io snd_io)
      (rule exI, rule refl)
  then obtain c1 where c1: "handle_connection sample_client sample_io sample_connection_env
      [0, 0, 0, 1, 0x50, 0, 0, 0, 1, 0x53] sample_connection
      = run_session sample_client sample_io sample_connection_env 1 ?p [0, 0, 0, 1, 0x53] c1" by blast
  have "run_session sample_client sample_io sample_connection_env 1 ?p [0, 0, 0, 1, 0x53] c1
      = Some (end_session sample_io sample_connection_env 1 ?p StopRequested False None c1)"
    by (simp add: run_session_def loop join_schedule_def)
  then have run: "handle_connection sample_client sample_io sample_connection_env
      [0, 0, 0, 1, 0x50, 0, 0, 0, 1, 0x53] sample_connection
      = Some (end_session sample_io sample_connection_env 1 ?p StopRequested False None c1)" (is "_ = Some ?c'")
    using c1 by simp
  have stopped: "Replied (StoppedFrame ''id'') \<in> set (cn_trace ?c')"
    by (simp add: end_session_def sample_connection_env_def)
  have "cn_trace sample_connection = []" by (simp add: sample_connection_def)
  from playback_cleans_up [OF run this] obtain replies offers releases final where
    "cn_trace ?c' = map Replied replies @ map Offered offers @ map NotesOff releases @ map Replied final"
    "\<forall>sid. StoppedFrame sid \<in> set (replies @ final) \<longrightarrow> StoppedFrame sid \<in> set final \<and> releases \<noteq> []" by blast
  then have "\<exists>x. NotesOff x \<in> set (cn_trace ?c')" using stopped by (cases releases) auto
  then show ?thesis using run stopped by blast
qed

end
