(* ===== verification/State_Codec.thy ===== *)
theory State_Codec
  imports Settings
begin

text \<open>
  The file format of saved plugin states (\<open>audio/state_codec.rs\<close>): the versioned, checksummed document,
  its writer and its reader, and the two older formats. The CRC of the crate \<open>crc32fast\<close> is a parameter;
  the FNV checksum of version 2 is the code's own. Every field of the format meets one contract, the
  locale \<open>state_field\<close>: what the reader accepts is what the writer prints, and nothing else.
\<close>

section \<open>Documents\<close>

definition STATE_MAGIC :: bytes where "STATE_MAGIC = as_bytes ''OSVS''"
definition STATE_VERSION_V1 :: u8 where "STATE_VERSION_V1 = 1"
definition STATE_VERSION_V2 :: u8 where "STATE_VERSION_V2 = 2"
definition STATE_VERSION_V3 :: u8 where "STATE_VERSION_V3 = 3"
definition STATE_KIND_CHUNK :: u8 where "STATE_KIND_CHUNK = 0"
definition STATE_KIND_PARAMS :: u8 where "STATE_KIND_PARAMS = 1"
definition FORMAT_VST2 :: u8 where "FORMAT_VST2 = 2"
definition FORMAT_VST3 :: u8 where "FORMAT_VST3 = 3"
definition ARCH_X86 :: u8 where "ARCH_X86 = 1"
definition ARCH_X64 :: u8 where "ARCH_X64 = 2"
definition VST3_PARAMETER_IS_READ_ONLY :: u32 where "VST3_PARAMETER_IS_READ_ONLY = push_bit 1 1"
definition MAX_STATE_BYTES :: nat where "MAX_STATE_BYTES = 256 * 1024 * 1024"
definition MAX_PARAMETERS :: nat where "MAX_PARAMETERS = 65536"
definition MAX_TEXT_BYTES :: nat where "MAX_TEXT_BYTES = 64 * 1024"

datatype state_policy = NativePreferred | TrackedParametersOnly | StateUnsupported | LegacyFullSnapshot

text \<open>\<open>policy as u16\<close> and \<open>StatePolicy::from_u16\<close>.\<close>

fun policy_code :: "state_policy \<Rightarrow> u16" where
  "policy_code NativePreferred = 0"
| "policy_code TrackedParametersOnly = 1"
| "policy_code StateUnsupported = 2"
| "policy_code LegacyFullSnapshot = 3"

definition policy_from_u16 :: "u16 \<Rightarrow> state_policy option" where
  "policy_from_u16 value =
     (if value = 0 then Some NativePreferred
      else if value = 1 then Some TrackedParametersOnly
      else if value = 2 then Some StateUnsupported
      else if value = 3 then Some LegacyFullSnapshot
      else None)"

record state_parameter =
  sp_id :: u32
  sp_index :: u32
  sp_flags :: u32
  sp_name :: string
  sp_value :: f32

record state_document =
  sd_state_version :: u8
  sd_state_policy :: state_policy
  sd_plugin_id :: string
  sd_class_uid :: string
  sd_format :: u8
  sd_architecture :: u8
  sd_file_modified_ms :: u64
  sd_file_size :: u64
  sd_program :: i32
  sd_vst2_bank :: bytes
  sd_vst2_preset :: bytes
  sd_vst3_state :: bytes
  sd_parameters :: "state_parameter list"

datatype saved_state =
    StateInvalid | StateRaw bytes | StateChunk bytes | StateParams "f32 list" | StateV2 state_document

definition fnv1a64 :: "bytes \<Rightarrow> u64" where
  "fnv1a64 bytes = foldl (\<lambda>hash byte. (hash XOR ucast byte) * 0x100000001b3) 0xcbf29ce484222325 bytes"

section \<open>The writer\<close>

definition push_u16 :: "bytes \<Rightarrow> u16 \<Rightarrow> bytes" where "push_u16 out value = out @ to_le_bytes 2 value"
definition push_u32 :: "bytes \<Rightarrow> u32 \<Rightarrow> bytes" where "push_u32 out value = out @ to_le_bytes 4 value"
definition push_u64 :: "bytes \<Rightarrow> u64 \<Rightarrow> bytes" where "push_u64 out value = out @ to_le_bytes 8 value"

definition push_blob :: "bytes \<Rightarrow> bytes \<Rightarrow> bytes" where
  "push_blob out value = push_u32 out (of_nat (min (length value) (2 ^ 32 - 1))) @ value"

definition push_text :: "bytes \<Rightarrow> string \<Rightarrow> bytes" where
  "push_text out value = push_blob out (as_bytes value)"

definition out_name :: "bytes \<Rightarrow> bytes \<Rightarrow> bytes" where
  "out_name out name = out @ take (min (length name) (2 ^ 16 - 1)) name"

definition push_parameter :: "bytes \<Rightarrow> state_parameter \<Rightarrow> bytes" where
  "push_parameter body parameter =
     (let body = push_u32 body (sp_id parameter);
          body = push_u32 body (sp_index parameter);
          body = push_u32 body (sp_flags parameter);
          body = body @ to_le_bytes 4 (sp_value parameter);
          name = as_bytes (sp_name parameter);
          body = push_u16 body (of_nat (min (length name) (2 ^ 16 - 1)))
      in out_name body name)"

definition encode_body :: "state_document \<Rightarrow> bytes" where
  "encode_body document =
     (let body = [sd_format document, sd_architecture document];
          body = push_u16 body (policy_code (sd_state_policy document));
          body = push_u64 body (sd_file_modified_ms document);
          body = push_u64 body (sd_file_size document);
          body = body @ to_le_bytes 4 (sd_program document);
          body = push_text body (sd_plugin_id document);
          body = push_text body (sd_class_uid document);
          body = push_blob body (sd_vst2_bank document);
          body = push_blob body (sd_vst2_preset document);
          body = push_blob body (sd_vst3_state document);
          body = push_u32 body (of_nat (min (length (sd_parameters document)) (2 ^ 32 - 1)))
      in foldl push_parameter body (sd_parameters document))"

definition encode_state_document :: "(bytes \<Rightarrow> u32) \<Rightarrow> state_document \<Rightarrow> bytes" where
  "encode_state_document crc32 document =
     (let body = encode_body document;
          out = STATE_MAGIC @ [STATE_VERSION_V3];
          out = push_u32 out (of_nat (min (length body) (2 ^ 32 - 1))) @ body
      in push_u64 out (ucast (crc32 body)))"

text \<open>The writers of version 1, which the code keeps for its tests.\<close>

definition encode_state_chunk :: "bytes \<Rightarrow> bytes" where
  "encode_state_chunk data = STATE_MAGIC @ [STATE_VERSION_V1] @ [STATE_KIND_CHUNK] @ data"

definition encode_state_params :: "f32 list \<Rightarrow> bytes" where
  "encode_state_params params =
     STATE_MAGIC @ [STATE_VERSION_V1] @ [STATE_KIND_PARAMS] @ to_le_bytes 4 (of_nat (length params) :: u32)
     @ concat (map (to_le_bytes 4) params)"

section \<open>The reader\<close>

text \<open>
  A \<open>StateReader\<close> and its operations, which fail with \<open>None\<close>. A slice is shorter than
  \<open>2 ^ 63\<close> bytes, so an end position that overflows \<open>usize\<close> is also outside the slice. \<open>reader_bind\<close>
  is the \<open>?\<close> operator.
\<close>

record state_reader =
  sr_data :: bytes
  sr_offset :: nat

type_synonym 'a reading = "state_reader \<Rightarrow> ('a \<times> state_reader) option"

definition reader_new :: "bytes \<Rightarrow> state_reader" where
  "reader_new data = \<lparr>sr_data = data, sr_offset = 0\<rparr>"

definition reader_bind :: "'a reading \<Rightarrow> ('a \<Rightarrow> 'b reading) \<Rightarrow> 'b reading" where
  "reader_bind p f reader = (case p reader of None \<Rightarrow> None | Some (x, reader') \<Rightarrow> f x reader')"

definition reader_return :: "'a \<Rightarrow> 'a reading" where
  "reader_return x reader = Some (x, reader)"

definition reader_lift :: "'a option \<Rightarrow> 'a reading" where
  "reader_lift x reader = (case x of None \<Rightarrow> None | Some y \<Rightarrow> Some (y, reader))"

definition sr_take :: "nat \<Rightarrow> bytes reading" where
  "sr_take count reader =
     (let stop = sr_offset reader + count
      in if stop \<le> length (sr_data reader)
         then Some (take count (drop (sr_offset reader) (sr_data reader)), reader\<lparr>sr_offset := stop\<rparr>)
         else None)"

definition sr_u8 :: "u8 reading" where
  "sr_u8 = reader_bind (sr_take 1) (\<lambda>b. reader_lift (case b of [] \<Rightarrow> None | x # _ \<Rightarrow> Some x))"

definition sr_le :: "nat \<Rightarrow> 'a::len word reading" where
  "sr_le width = reader_bind (sr_take width) (\<lambda>b. reader_return (from_le_bytes b))"

definition sr_u16 :: "u16 reading" where "sr_u16 = sr_le 2"
definition sr_u32 :: "u32 reading" where "sr_u32 = sr_le 4"
definition sr_u64 :: "u64 reading" where "sr_u64 = sr_le 8"
definition sr_i32 :: "i32 reading" where "sr_i32 = sr_le 4"
definition sr_f32 :: "f32 reading" where "sr_f32 = sr_le 4"

definition sr_blob :: "nat \<Rightarrow> bytes reading" where
  "sr_blob limit =
     reader_bind sr_u32 (\<lambda>len. if unat len \<le> limit then sr_take (unat len) else (\<lambda>_. None))"

definition sr_text :: "string reading" where
  "sr_text = reader_bind (sr_blob MAX_TEXT_BYTES) (\<lambda>b. reader_lift (from_utf8 b))"

definition sr_parameter :: "state_parameter reading" where
  "sr_parameter =
     reader_bind sr_u32 (\<lambda>ident. reader_bind sr_u32 (\<lambda>index. reader_bind sr_u32 (\<lambda>flags.
     reader_bind sr_f32 (\<lambda>value. if \<not> f32_is_finite value then (\<lambda>_. None) else
     reader_bind sr_u16 (\<lambda>name_len. reader_bind (sr_take (unat name_len)) (\<lambda>b.
     reader_bind (reader_lift (from_utf8 b)) (\<lambda>name.
     reader_return \<lparr>sp_id = ident, sp_index = index, sp_flags = flags, sp_name = name,
                    sp_value = value\<rparr>)))))))"

fun sr_parameters :: "nat \<Rightarrow> state_parameter list reading" where
  "sr_parameters 0 = reader_return []"
| "sr_parameters (Suc n) =
     reader_bind sr_parameter (\<lambda>p. reader_bind (sr_parameters n) (\<lambda>ps. reader_return (p # ps)))"

definition sr_document :: "u8 \<Rightarrow> state_document reading" where
  "sr_document state_version =
     reader_bind sr_u8 (\<lambda>format. reader_bind sr_u8 (\<lambda>architecture.
     reader_bind sr_u16 (\<lambda>encoded_policy.
     reader_bind (reader_lift (if state_version = STATE_VERSION_V2 then Some LegacyFullSnapshot
                               else policy_from_u16 encoded_policy)) (\<lambda>state_policy.
     reader_bind sr_u64 (\<lambda>file_modified_ms. reader_bind sr_u64 (\<lambda>file_size.
     reader_bind sr_i32 (\<lambda>program. reader_bind sr_text (\<lambda>plugin_id.
     reader_bind sr_text (\<lambda>class_uid. reader_bind (sr_blob MAX_STATE_BYTES) (\<lambda>vst2_bank.
     reader_bind (sr_blob MAX_STATE_BYTES) (\<lambda>vst2_preset.
     reader_bind (sr_blob MAX_STATE_BYTES) (\<lambda>vst3_state.
     reader_bind sr_u32 (\<lambda>parameter_count.
     if unat parameter_count > MAX_PARAMETERS then (\<lambda>_. None) else
     reader_bind (sr_parameters (unat parameter_count)) (\<lambda>parameters.
     reader_return
       \<lparr>sd_state_version = state_version, sd_state_policy = state_policy, sd_plugin_id = plugin_id,
        sd_class_uid = class_uid, sd_format = format, sd_architecture = architecture,
        sd_file_modified_ms = file_modified_ms, sd_file_size = file_size, sd_program = program,
        sd_vst2_bank = vst2_bank, sd_vst2_preset = vst2_preset, sd_vst3_state = vst3_state,
        sd_parameters = parameters\<rparr>))))))))))))))"

definition decode_document :: "(bytes \<Rightarrow> u32) \<Rightarrow> bytes \<Rightarrow> state_document option" where
  "decode_document crc32 data =
     (if length data < 17 \<or> take 4 data \<noteq> STATE_MAGIC
         \<or> \<not> (data ! 4 = STATE_VERSION_V2 \<or> data ! 4 = STATE_VERSION_V3) then None
      else
        let state_version = data ! 4;
            body_len = unat (from_le_bytes (take 4 (drop 5 data)) :: u32)
        in if body_len > MAX_STATE_BYTES \<or> length data \<noteq> 9 + body_len + 8 then None
           else
             let body = take body_len (drop 9 data);
                 checksum = from_le_bytes (drop (9 + body_len) data) :: u64;
                 checksum_matches =
                   (if state_version = STATE_VERSION_V2 then fnv1a64 body = checksum
                    else ucast (crc32 body) = checksum \<or> fnv1a64 body = checksum)
             in if \<not> checksum_matches then None
                else case sr_document state_version (reader_new body) of
                  None \<Rightarrow> None
                | Some (document, reader) \<Rightarrow>
                    if sr_offset reader \<noteq> length body then None else Some document)"

text \<open>The older formats: \<open>chunks_exact(4)\<close> of the values of version 1, and anything without the magic.\<close>

fun chunks4 :: "bytes \<Rightarrow> bytes list" where
  "chunks4 (a # b # c # d # rest) = [a, b, c, d] # chunks4 rest"
| "chunks4 _ = []"

definition decode_state :: "(bytes \<Rightarrow> u32) \<Rightarrow> bytes \<Rightarrow> saved_state" where
  "decode_state crc32 data =
     (case decode_document crc32 data of
        Some document \<Rightarrow> StateV2 document
      | None \<Rightarrow>
          if length data < 4 \<or> take 4 data \<noteq> STATE_MAGIC then StateRaw data
          else if length data < 6 \<or> data ! 4 \<noteq> STATE_VERSION_V1 then StateInvalid
          else if data ! 5 = STATE_KIND_CHUNK then StateChunk (drop 6 data)
          else if data ! 5 = STATE_KIND_PARAMS then
            (if length data < 10 then StateInvalid
             else
               let count = unat (from_le_bytes [data ! 6, data ! 7, data ! 8, data ! 9] :: u32);
                   expected = 10 + count * 4
               in if count > MAX_PARAMETERS \<or> length data \<noteq> expected then StateInvalid
                  else
                    let values = map from_le_bytes (chunks4 (drop 10 data))
                    in if \<exists>value \<in> set values. \<not> f32_is_finite value then StateInvalid
                       else StateParams values)
          else StateInvalid)"

section \<open>The contract of a field\<close>

text \<open>A reader that stands after \<open>pre\<close> and before \<open>rest\<close>.\<close>

definition reader_at :: "bytes \<Rightarrow> bytes \<Rightarrow> state_reader" where
  "reader_at pre rest = \<lparr>sr_data = pre @ rest, sr_offset = length pre\<rparr>"

lemma reader_new_at: "reader_new data = reader_at [] data"
  by (simp add: reader_new_def reader_at_def)

lemma reader_at_end: "sr_offset (reader_at pre rest) = length pre"
  by (simp add: reader_at_def)

lemma reader_at_inject: "reader_at pre a = reader_at pre b \<longleftrightarrow> a = b"
  by (simp add: reader_at_def)

lemma sr_take_at:
  "sr_take n (reader_at pre rest) = Some (x, r') \<longleftrightarrow>
     length x = n \<and> (\<exists>rest'. rest = x @ rest' \<and> r' = reader_at (pre @ x) rest')"
proof
  assume "sr_take n (reader_at pre rest) = Some (x, r')"
  then have n: "n \<le> length rest" and x: "x = take n rest"
    and r: "r' = (reader_at pre rest)\<lparr>sr_offset := length pre + n\<rparr>"
    by (auto simp: sr_take_def reader_at_def Let_def split: if_splits)
  have "rest = x @ drop n rest" by (simp add: x)
  moreover have "r' = reader_at (pre @ x) (drop n rest)" using n by (simp add: r x reader_at_def)
  ultimately show "length x = n \<and> (\<exists>rest'. rest = x @ rest' \<and> r' = reader_at (pre @ x) rest')"
    using n x by (intro conjI exI [of _ "drop n rest"]) simp_all
qed (auto simp: sr_take_def reader_at_def Let_def)

locale state_field =
  fixes reads :: "'a reading" and prints :: "'a \<Rightarrow> bytes" and ok :: "'a \<Rightarrow> bool"
  assumes read_iff: "reads (reader_at pre rest) = Some (x, r') \<longleftrightarrow>
    ok x \<and> (\<exists>rest'. rest = prints x @ rest' \<and> r' = reader_at (pre @ prints x) rest')"
begin

lemma read_written [simp]:
  "ok x \<Longrightarrow> reads (reader_at pre (prints x @ rest)) = Some (x, reader_at (pre @ prints x) rest)"
  by (simp add: read_iff)

lemma read_only_written:
  assumes "reads (reader_at pre rest) = Some (x, r')"
  obtains rest' where "ok x" and "rest = prints x @ rest'" and "r' = reader_at (pre @ prints x) rest'"
  using assms by (auto simp: read_iff)

lemma bind_iff:
  "reader_bind reads f (reader_at pre rest) = Some (y, r') \<longleftrightarrow>
    (\<exists>x rest'. ok x \<and> rest = prints x @ rest' \<and> f x (reader_at (pre @ prints x) rest') = Some (y, r'))"
    (is "?l \<longleftrightarrow> ?r")
proof
  assume ?l
  then show ?r
    by (auto simp: reader_bind_def read_iff split: option.splits prod.splits)
next
  assume ?r
  then obtain x rest' where "reads (reader_at pre rest) = Some (x, reader_at (pre @ prints x) rest')"
    and "f x (reader_at (pre @ prints x) rest') = Some (y, r')" by auto
  then show ?l by (simp add: reader_bind_def)
qed

lemma bind_read:
  "ok x \<Longrightarrow> reader_bind reads f (reader_at pre (prints x @ rest)) = f x (reader_at (pre @ prints x) rest)"
  by (simp add: reader_bind_def)

end


lemma to_from_le_bytes:
  assumes n: "LENGTH('a) = 8 * length bs"
  shows "to_le_bytes (length bs) (from_le_bytes bs :: 'a::len word) = bs"
proof (rule nth_equalityI)
  fix i assume "i < length (to_le_bytes (length bs) (from_le_bytes bs :: 'a word))"
  then have i: "i < length bs" by simp
  show "to_le_bytes (length bs) (from_le_bytes bs :: 'a word) ! i = bs ! i"
  proof (rule bit_word_eqI)
    fix k assume k: "k < LENGTH(8)"
    have "(8 * i + k) div 8 = i" and "(8 * i + k) mod 8 = k" using k by simp_all
    moreover have "8 * i + k < LENGTH('a)" using n i k by simp
    ultimately show "bit (to_le_bytes (length bs) (from_le_bytes bs :: 'a word) ! i) k \<longleftrightarrow> bit (bs ! i) k"
      using i k by (simp add: to_le_bytes_def bit_ucast_iff bit_drop_bit_eq bit_from_le_bytes)
  qed
qed simp

lemma as_bytes_of_str [simp]: "as_bytes (str_of_bytes bs) = bs"
proof (induction bs)
  case (Cons b bs)
  have "unat b < 256" using unsigned_less [of b] by simp
  with Cons show ?case by (simp add: as_bytes_def str_of_bytes_def)
qed (simp add: as_bytes_def str_of_bytes_def)

lemma length_text_bytes [simp]: "length (as_bytes s) = length s"
  by (simp add: as_bytes_def)

lemma from_utf8_eq_Some: "from_utf8 b = Some s \<longleftrightarrow> b = as_bytes s \<and> utf8_valid (as_bytes s)"
  by (auto simp: from_utf8_def)

text \<open>Fields made of fields: what follows a \<open>?\<close> starts where the field stopped.\<close>

lemma take_bind_iff:
  "reader_bind (sr_take n) f (reader_at pre rest) = Some (y, r') \<longleftrightarrow>
    (\<exists>x rest'. length x = n \<and> rest = x @ rest' \<and> f x (reader_at (pre @ x) rest') = Some (y, r'))"
    (is "?l \<longleftrightarrow> ?r")
proof
  assume ?l
  then show ?r by (auto simp: reader_bind_def sr_take_at split: option.splits prod.splits)
next
  assume ?r
  then obtain x rest' where "sr_take n (reader_at pre rest) = Some (x, reader_at (pre @ x) rest')"
    and "f x (reader_at (pre @ x) rest') = Some (y, r')" by (auto simp: sr_take_at)
  then show ?l by (simp add: reader_bind_def)
qed

lemma take_bind:
  assumes "length x = n"
  shows "reader_bind (sr_take n) f (reader_at pre (x @ rest)) = f x (reader_at (pre @ x) rest)"
proof -
  have "sr_take n (reader_at pre (x @ rest)) = Some (x, reader_at (pre @ x) rest)"
    using assms by (simp add: sr_take_at)
  then show ?thesis by (simp add: reader_bind_def)
qed

lemma lift_bind: "reader_bind (reader_lift (Some v)) f r = f v r"
  by (simp add: reader_bind_def reader_lift_def)

lemma lift_bind_iff:
  "reader_bind (reader_lift v) f r = Some (y, r') \<longleftrightarrow> (\<exists>x. v = Some x \<and> f x r = Some (y, r'))"
  by (auto simp: reader_bind_def reader_lift_def split: option.splits)

lemma lift_iff: "reader_lift v r = Some (y, r') \<longleftrightarrow> v = Some y \<and> r' = r"
  by (auto simp: reader_lift_def split: option.splits)

lemma return_iff: "reader_return x r = Some (y, r') \<longleftrightarrow> y = x \<and> r' = r"
  by (auto simp: reader_return_def)

section \<open>Each field meets the contract\<close>

lemma sr_le_iff:
  assumes n: "LENGTH('a) = 8 * n"
  shows "sr_le n (reader_at pre rest) = Some (w :: 'a::len word, r') \<longleftrightarrow>
    (\<exists>rest'. rest = to_le_bytes n w @ rest' \<and> r' = reader_at (pre @ to_le_bytes n w) rest')"
    (is "?l \<longleftrightarrow> ?r")
proof
  assume ?l
  then obtain b where b: "sr_take n (reader_at pre rest) = Some (b, r')" and w: "w = from_le_bytes b"
    by (auto simp: sr_le_def reader_bind_def reader_return_def split: option.splits prod.splits)
  moreover have "b = to_le_bytes n w" if "length b = n"
    using to_from_le_bytes [where 'a = 'a, of b] n that by (simp add: w)
  ultimately show ?r by (auto simp: sr_take_at)
next
  assume ?r
  then have "sr_take n (reader_at pre rest) = Some (to_le_bytes n w, r')" by (auto simp: sr_take_at)
  then show ?l by (simp add: sr_le_def reader_bind_def reader_return_def from_to_le_bytes n)
qed

interpretation field_u8: state_field sr_u8 "\<lambda>b. [b]" "\<lambda>_. True"
proof unfold_locales
  fix pre rest x r'
  show "sr_u8 (reader_at pre rest) = Some (x, r') \<longleftrightarrow>
    True \<and> (\<exists>rest'. rest = [x] @ rest' \<and> r' = reader_at (pre @ [x]) rest')" (is "?l \<longleftrightarrow> ?r")
  proof
    assume ?l
    then show ?r unfolding sr_u8_def take_bind_iff lift_iff by (auto simp: length_Suc_conv)
  next
    assume ?r
    then show ?l by (auto simp: sr_u8_def reader_lift_def take_bind [of "[x]" "Suc 0", simplified])
  qed
qed

interpretation field_u16: state_field sr_u16 "to_le_bytes 2" "\<lambda>_. True"
  by unfold_locales (simp add: sr_u16_def sr_le_iff)

interpretation field_u32: state_field sr_u32 "to_le_bytes 4" "\<lambda>_. True"
  by unfold_locales (simp add: sr_u32_def sr_le_iff)

interpretation field_u64: state_field sr_u64 "to_le_bytes 8" "\<lambda>_. True"
  by unfold_locales (simp add: sr_u64_def sr_le_iff)

interpretation field_i32: state_field sr_i32 "to_le_bytes 4" "\<lambda>_. True"
  by unfold_locales (simp add: sr_i32_def sr_le_iff)

interpretation field_f32: state_field sr_f32 "to_le_bytes 4" "\<lambda>_. True"
  by unfold_locales (simp add: sr_f32_def sr_le_iff)


definition blob_bytes :: "bytes \<Rightarrow> bytes" where
  "blob_bytes value = push_blob [] value"

definition text_fits :: "string \<Rightarrow> bool" where
  "text_fits s \<longleftrightarrow> utf8_valid (as_bytes s) \<and> length s \<le> MAX_TEXT_BYTES"

definition parameter_fits :: "state_parameter \<Rightarrow> bool" where
  "parameter_fits p \<longleftrightarrow>
     f32_is_finite (sp_value p) \<and> utf8_valid (as_bytes (sp_name p)) \<and> length (sp_name p) < 2 ^ 16"

lemma blob_bytes_eq: "length v < 2 ^ 32 \<Longrightarrow> blob_bytes v = to_le_bytes 4 (of_nat (length v) :: u32) @ v"
  by (simp add: blob_bytes_def push_blob_def push_u32_def min_absorb1)

lemma field_blob:
  assumes limit: "limit < 2 ^ 32"
  shows "state_field (sr_blob limit) blob_bytes (\<lambda>v. length v \<le> limit)"
proof unfold_locales
  fix pre rest x :: bytes and r'
  have len: "unat len = length x \<longleftrightarrow> len = of_nat (length x)" if "length x \<le> limit" for len :: u32
    using that limit by (auto simp: word_unat_eq_iff unat_of_nat)
  show "sr_blob limit (reader_at pre rest) = Some (x, r') \<longleftrightarrow>
    length x \<le> limit \<and> (\<exists>rest'. rest = blob_bytes x @ rest' \<and> r' = reader_at (pre @ blob_bytes x) rest')"
    (is "?l \<longleftrightarrow> ?r")
  proof
    assume ?l
    then show ?r
      using limit by (auto simp: sr_blob_def field_u32.bind_iff sr_take_at blob_bytes_eq split: if_splits)
  next
    assume ?r
    then show ?l
      using limit len by (auto simp: sr_blob_def field_u32.bind_read sr_take_at blob_bytes_eq unat_of_nat)
  qed
qed

interpretation field_state_blob: state_field "sr_blob MAX_STATE_BYTES" blob_bytes
  "\<lambda>v. length v \<le> MAX_STATE_BYTES"
  by (rule field_blob) (simp add: MAX_STATE_BYTES_def)

interpretation field_text_blob: state_field "sr_blob MAX_TEXT_BYTES" blob_bytes
  "\<lambda>v. length v \<le> MAX_TEXT_BYTES"
  by (rule field_blob) (simp add: MAX_TEXT_BYTES_def)

interpretation field_text: state_field sr_text "\<lambda>s. blob_bytes (as_bytes s)" text_fits
proof unfold_locales
  fix pre rest x r'
  show "sr_text (reader_at pre rest) = Some (x, r') \<longleftrightarrow> text_fits x \<and>
    (\<exists>rest'. rest = blob_bytes (as_bytes x) @ rest' \<and> r' = reader_at (pre @ blob_bytes (as_bytes x)) rest')"
    (is "?l \<longleftrightarrow> ?r")
  proof
    assume ?l
    then show ?r
      by (auto simp: sr_text_def field_text_blob.bind_iff lift_iff from_utf8_eq_Some text_fits_def)
  next
    assume ?r
    then show ?l
      by (auto simp: sr_text_def field_text_blob.bind_read lift_iff from_utf8_eq_Some text_fits_def)
  qed
qed

lemma push_parameter_eq: "push_parameter body p = body @ push_parameter [] p"
  by (simp add: push_parameter_def push_u32_def push_u16_def out_name_def)

lemma push_parameter_bytes:
  "length (sp_name p) < 2 ^ 16 \<Longrightarrow> push_parameter [] p =
    to_le_bytes 4 (sp_id p) @ to_le_bytes 4 (sp_index p) @ to_le_bytes 4 (sp_flags p)
    @ to_le_bytes 4 (sp_value p) @ to_le_bytes 2 (of_nat (length (sp_name p)) :: u16) @ as_bytes (sp_name p)"
  by (simp add: push_parameter_def push_u32_def push_u16_def out_name_def min_absorb1)

interpretation field_parameter: state_field sr_parameter "push_parameter []" parameter_fits
proof unfold_locales
  fix pre rest and p :: state_parameter and r'
  show "sr_parameter (reader_at pre rest) = Some (p, r') \<longleftrightarrow> parameter_fits p \<and>
    (\<exists>rest'. rest = push_parameter [] p @ rest' \<and> r' = reader_at (pre @ push_parameter [] p) rest')"
    (is "?l \<longleftrightarrow> ?r")
  proof
    have u16_less: "unat (w :: u16) < 65536" for w using unsigned_less [of w] by simp
    assume ?l
    then show ?r
      unfolding sr_parameter_def
      by (auto simp: field_u32.bind_iff field_f32.bind_iff field_u16.bind_iff take_bind_iff lift_bind_iff
          return_iff from_utf8_eq_Some parameter_fits_def push_parameter_bytes u16_less split: if_splits)
  next
    assume r: ?r
    then have name: "from_utf8 (as_bytes (sp_name p)) = Some (sp_name p)"
      by (simp add: from_utf8_eq_Some parameter_fits_def)
    from r show ?l
      unfolding sr_parameter_def
      by (auto simp: field_u32.bind_read field_f32.bind_read field_u16.bind_read take_bind lift_bind
          return_iff name parameter_fits_def push_parameter_bytes unat_of_nat)
  qed
qed


lemma parameters_iff:
  "sr_parameters n (reader_at pre rest) = Some (ps, r') \<longleftrightarrow>
    (length ps = n \<and> list_all parameter_fits ps)
    \<and> (\<exists>rest'. rest = concat (map (push_parameter []) ps) @ rest'
         \<and> r' = reader_at (pre @ concat (map (push_parameter []) ps)) rest')"
proof (induction n arbitrary: pre rest ps r')
  case 0
  then show ?case by (auto simp: return_iff)
next
  case (Suc n)
  show ?case (is "?l \<longleftrightarrow> ?r")
  proof
    assume ?l
    then show ?r
      by (auto simp: field_parameter.bind_iff reader_bind_def [of "sr_parameters n"] return_iff Suc.IH
          split: option.splits prod.splits)
  next
    assume ?r
    then obtain p ps' rest' where ps: "ps = p # ps'" "length ps' = n" "parameter_fits p"
      and rest: "rest = push_parameter [] p @ concat (map (push_parameter []) ps') @ rest'"
      and r': "r' = reader_at (pre @ push_parameter [] p @ concat (map (push_parameter []) ps')) rest'"
      and fits: "list_all parameter_fits ps'"
      by (auto simp: length_Suc_conv)
    have "sr_parameters n (reader_at (pre @ push_parameter [] p) (concat (map (push_parameter []) ps') @ rest'))
        = Some (ps', r')"
      using ps fits by (auto simp: Suc.IH r')
    then show ?l by (simp add: rest ps field_parameter.bind_read reader_bind_def [of "sr_parameters n"] return_iff)
  qed
qed

interpretation field_parameters: state_field "sr_parameters n" "\<lambda>ps. concat (map (push_parameter []) ps)"
  "\<lambda>ps. length ps = n \<and> list_all parameter_fits ps" for n
  by unfold_locales (rule parameters_iff)

section \<open>Documents that fit\<close>

text \<open>
  The limits of the reader: what a document must satisfy to be read back. A \<open>String\<close> is always
  valid UTF-8; its length, those of the blobs and the number of parameters are the limits that matter.
\<close>

definition document_fits :: "state_document \<Rightarrow> bool" where
  "document_fits d \<longleftrightarrow>
     text_fits (sd_plugin_id d) \<and> text_fits (sd_class_uid d)
     \<and> length (sd_vst2_bank d) \<le> MAX_STATE_BYTES \<and> length (sd_vst2_preset d) \<le> MAX_STATE_BYTES
     \<and> length (sd_vst3_state d) \<le> MAX_STATE_BYTES
     \<and> length (sd_parameters d) \<le> MAX_PARAMETERS \<and> list_all parameter_fits (sd_parameters d)"

text \<open>The body with the policy field \<open>policy\<close> (a reader of version 2 ignores it).\<close>

definition body_bytes :: "u16 \<Rightarrow> state_document \<Rightarrow> bytes" where
  "body_bytes policy d =
     [sd_format d] @ [sd_architecture d] @ to_le_bytes 2 policy @ to_le_bytes 8 (sd_file_modified_ms d)
     @ to_le_bytes 8 (sd_file_size d) @ to_le_bytes 4 (sd_program d)
     @ blob_bytes (as_bytes (sd_plugin_id d)) @ blob_bytes (as_bytes (sd_class_uid d))
     @ blob_bytes (sd_vst2_bank d) @ blob_bytes (sd_vst2_preset d) @ blob_bytes (sd_vst3_state d)
     @ to_le_bytes 4 (of_nat (length (sd_parameters d)) :: u32)
     @ concat (map (push_parameter []) (sd_parameters d))"

lemma push_blob_eq: "push_blob out v = out @ blob_bytes v"
  by (simp add: blob_bytes_def push_blob_def push_u32_def)

lemma fold_push_parameter:
  "foldl push_parameter body ps = body @ concat (map (push_parameter []) ps)"
proof (induction ps arbitrary: body)
  case (Cons p ps)
  then show ?case using push_parameter_eq [of body p] by simp
qed simp

lemma encode_body_eq:
  assumes "length (sd_parameters d) < 2 ^ 32"
  shows "encode_body d = body_bytes (policy_code (sd_state_policy d)) d"
  using assms
  by (simp add: encode_body_def body_bytes_def Let_def push_u16_def push_u32_def push_u64_def push_text_def
      push_blob_eq fold_push_parameter min_absorb1)

lemma policy_from_code [simp]: "policy_from_u16 (policy_code p) = Some p"
  by (cases p) (simp_all add: policy_from_u16_def)

lemma policy_from_u16_eq_Some: "policy_from_u16 c = Some p \<longleftrightarrow> c = policy_code p"
  by (cases p) (auto simp: policy_from_u16_def split: if_splits)


text \<open>Reading a body: exactly the bodies of the documents that fit, in both directions.\<close>

definition policy_written :: "u8 \<Rightarrow> u16 \<Rightarrow> state_policy \<Rightarrow> bool" where
  "policy_written version code policy \<longleftrightarrow>
     (if version = STATE_VERSION_V2 then policy = LegacyFullSnapshot else code = policy_code policy)"

lemmas field_binds =
  field_u8.bind_read field_u16.bind_read field_u32.bind_read field_u64.bind_read field_i32.bind_read
  field_text.bind_read field_state_blob.bind_read field_parameters.bind_read lift_bind

lemmas field_splits =
  field_u8.bind_iff field_u16.bind_iff field_u32.bind_iff field_u64.bind_iff field_i32.bind_iff
  field_text.bind_iff field_state_blob.bind_iff field_parameters.bind_iff lift_bind_iff

lemma sr_document_read:
  assumes fits: "document_fits d" and version: "sd_state_version d = version"
    and policy: "policy_written version code (sd_state_policy d)"
  shows "sr_document version (reader_at pre (body_bytes code d @ rest))
    = Some (d, reader_at (pre @ body_bytes code d) rest)"
proof -
  have policy': "(if version = STATE_VERSION_V2 then Some LegacyFullSnapshot else policy_from_u16 code)
      = Some (sd_state_policy d)"
    using policy by (simp add: policy_written_def split: if_splits)
  have count: "unat (of_nat (length (sd_parameters d)) :: u32) = length (sd_parameters d)"
    using fits by (simp add: document_fits_def MAX_PARAMETERS_def unat_of_nat)
  have u8: "reader_bind sr_u8 f (reader_at p (b # r)) = f b (reader_at (p @ [b]) r)" for f p b r
    using field_u8.bind_read [of f p b r] by simp
  show ?thesis
    using fits version
    unfolding sr_document_def body_bytes_def document_fits_def
    by (simp add: u8 field_binds policy' count reader_return_def)
qed

lemma sr_document_only_read:
  assumes "sr_document version (reader_at pre rest) = Some (d, r')"
  shows "document_fits d \<and> sd_state_version d = version
    \<and> (\<exists>code rest'. rest = body_bytes code d @ rest' \<and> r' = reader_at (pre @ body_bytes code d) rest'
         \<and> policy_written version code (sd_state_policy d))"
proof -
  have count: "of_nat (unat n) = n" for n :: u32 by simp
  show ?thesis
    using assms unfolding sr_document_def
    by (auto simp: field_splits return_iff policy_from_u16_eq_Some policy_written_def document_fits_def
        body_bytes_def count split: if_splits)
qed


section \<open>The format\<close>

lemma length_STATE_MAGIC [simp]: "length STATE_MAGIC = 4"
  by (simp add: STATE_MAGIC_def)

lemma body_bytes_version [simp]: "body_bytes code (d\<lparr>sd_state_version := v\<rparr>) = body_bytes code d"
  by (simp add: body_bytes_def)

lemma document_fits_version [simp]: "document_fits (d\<lparr>sd_state_version := v\<rparr>) = document_fits d"
  by (simp add: document_fits_def)

text \<open>A file with a checksum: header, body and checksum.\<close>

definition document_file :: "u8 \<Rightarrow> bytes \<Rightarrow> u64 \<Rightarrow> bytes" where
  "document_file version body checksum =
     STATE_MAGIC @ version # to_le_bytes 4 (of_nat (length body) :: u32) @ body @ to_le_bytes 8 checksum"

definition checksum_accepted :: "(bytes \<Rightarrow> u32) \<Rightarrow> u8 \<Rightarrow> bytes \<Rightarrow> u64 \<Rightarrow> bool" where
  "checksum_accepted crc32 version body checksum \<longleftrightarrow>
     fnv1a64 body = checksum \<or> version \<noteq> STATE_VERSION_V2 \<and> ucast (crc32 body) = checksum"

lemma document_file_parts:
  assumes "length body < 2 ^ 32"
  shows "length (document_file v body c) = 9 + length body + 8" "take 4 (document_file v body c) = STATE_MAGIC"
    "document_file v body c ! 4 = v"
    "unat (from_le_bytes (take 4 (drop 5 (document_file v body c))) :: u32) = length body"
    "take (length body) (drop 9 (document_file v body c)) = body"
    "from_le_bytes (drop (9 + length body) (document_file v body c)) = c"
proof -
  let ?front = "STATE_MAGIC @ [v] @ to_le_bytes 4 (of_nat (length body) :: u32) @ body"
  have "drop (9 + length body) (document_file v body c) = drop (length ?front) (?front @ to_le_bytes 8 c)"
    by (simp add: document_file_def)
  also have "\<dots> = to_le_bytes 8 c" by (metis append_eq_conv_conj)
  finally show "from_le_bytes (drop (9 + length body) (document_file v body c)) = c"
    by (simp add: from_to_le_bytes)
qed (use assms in \<open>simp_all add: document_file_def nth_append from_to_le_bytes unat_of_nat\<close>)

lemma encode_is_file:
  assumes "length (encode_body d) < 2 ^ 32"
  shows "encode_state_document crc32 d
    = document_file STATE_VERSION_V3 (encode_body d) (ucast (crc32 (encode_body d)))"
  using assms
  by (simp add: encode_state_document_def document_file_def Let_def push_u32_def push_u64_def min_absorb1)

lemma file_of_parts:
  assumes "take 4 data = STATE_MAGIC" and "data ! 4 = v"
    and "length data = 9 + length body + 8" and "length body < 2 ^ 32"
    and "unat (from_le_bytes (take 4 (drop 5 data)) :: u32) = length body"
    and "take (length body) (drop 9 data) = body"
    and "from_le_bytes (drop (9 + length body) data) = (c :: u64)"
  shows "data = document_file v body c"
proof -
  have "drop 4 data = data ! 4 # drop 5 data"
    using Cons_nth_drop_Suc [of 4 data] assms(3) by simp
  moreover have "drop 5 data = take 4 (drop 5 data) @ drop 9 data"
    using append_take_drop_id [of 4 "drop 5 data"] by simp
  moreover have "drop 9 data = take (length body) (drop 9 data) @ drop (9 + length body) data"
    using append_take_drop_id [of "length body" "drop 9 data"] by (simp add: add.commute)
  moreover have "drop (9 + length body) data = to_le_bytes 8 c"
    using to_from_le_bytes [where 'a = 64, of "drop (9 + length body) data"] assms(3,7) by simp
  moreover have "take 4 (drop 5 data) = to_le_bytes 4 (of_nat (length body) :: u32)"
  proof -
    have "of_nat (length body) = (from_le_bytes (take 4 (drop 5 data)) :: u32)"
      unfolding assms(5) [symmetric] by simp
    then show ?thesis
      using to_from_le_bytes [where 'a = 32, of "take 4 (drop 5 data)"] assms(3) by simp
  qed
  ultimately show ?thesis
    using append_take_drop_id [of 4 data] assms(1,2,6) by (simp add: document_file_def)
qed

lemma decode_document_file:
  assumes fits: "document_fits d" and v: "sd_state_version d \<in> {STATE_VERSION_V2, STATE_VERSION_V3}"
    and small: "length (body_bytes code d) \<le> MAX_STATE_BYTES"
    and sums: "checksum_accepted crc32 (sd_state_version d) (body_bytes code d) checksum"
    and policy: "policy_written (sd_state_version d) code (sd_state_policy d)"
  shows "decode_document crc32 (document_file (sd_state_version d) (body_bytes code d) checksum) = Some d"
proof -
  have len: "length (body_bytes code d) < 2 ^ 32" using small by (simp add: MAX_STATE_BYTES_def)
  have read: "sr_document (sd_state_version d) (reader_new (body_bytes code d))
      = Some (d, reader_at (body_bytes code d) [])"
    using sr_document_read [OF fits refl policy, of "[]" "[]"] by (simp add: reader_new_at)
  have sums': "(if sd_state_version d = STATE_VERSION_V2 then fnv1a64 (body_bytes code d) = checksum
      else ucast (crc32 (body_bytes code d)) = checksum \<or> fnv1a64 (body_bytes code d) = checksum)"
    using sums by (auto simp: checksum_accepted_def)
  show ?thesis
    using v small
    unfolding decode_document_def document_file_parts [OF len] Let_def
    by (simp add: sums' read reader_at_end)
qed

lemma decode_document_only:
  assumes "decode_document crc32 data = Some d"
  obtains code checksum where "document_fits d" "sd_state_version d \<in> {STATE_VERSION_V2, STATE_VERSION_V3}"
    "length (body_bytes code d) \<le> MAX_STATE_BYTES"
    "data = document_file (sd_state_version d) (body_bytes code d) checksum"
    "checksum_accepted crc32 (sd_state_version d) (body_bytes code d) checksum"
    "policy_written (sd_state_version d) code (sd_state_policy d)"
proof -
  define body_len where "body_len = unat (from_le_bytes (take 4 (drop 5 data)) :: u32)"
  define body where "body = take body_len (drop 9 data)"
  define checksum where "checksum = (from_le_bytes (drop (9 + body_len) data) :: u64)"
  note step = assms [unfolded decode_document_def Let_def, folded body_len_def, folded body_def,
      folded checksum_def]
  have header: "take 4 data = STATE_MAGIC" "data ! 4 \<in> {STATE_VERSION_V2, STATE_VERSION_V3}"
    using step by (auto split: if_split_asm)
  have len: "body_len \<le> MAX_STATE_BYTES" "length data = 9 + body_len + 8"
    using step by (auto split: if_split_asm)
  have sums: "checksum_accepted crc32 (data ! 4) body checksum"
    using step by (auto simp: checksum_accepted_def split: if_split_asm)
  obtain reader where "sr_document (data ! 4) (reader_new body) = Some (d, reader)"
    and offset: "sr_offset reader = length body"
    using step by (auto split: if_split_asm option.split_asm)
  from sr_document_only_read [OF this(1) [unfolded reader_new_at]]
  obtain code rest' where d: "document_fits d" "sd_state_version d = data ! 4"
    and body: "body = body_bytes code d @ rest'" and reader: "reader = reader_at (body_bytes code d) rest'"
    and policy: "policy_written (data ! 4) code (sd_state_policy d)" by auto
  have whole: "body = body_bytes code d" using offset body by (simp add: reader reader_at_end)
  have blen: "length body = body_len" using len by (simp add: body_def)
  have data: "data = document_file (data ! 4) body checksum"
  proof (rule file_of_parts [OF header(1) refl])
    show "length data = 9 + length body + 8" using len blen by simp
    show "length body < 2 ^ 32" using len blen by (simp add: MAX_STATE_BYTES_def)
    show "unat (from_le_bytes (take 4 (drop 5 data)) :: u32) = length body"
      unfolding blen by (simp add: body_len_def)
    show "take (length body) (drop 9 data) = body" unfolding blen by (simp add: body_def)
    show "from_le_bytes (drop (9 + length body) data) = checksum" unfolding blen by (simp add: checksum_def)
  qed
  show ?thesis
  proof (rule that [of code checksum])
    show "length (body_bytes code d) \<le> MAX_STATE_BYTES" using len blen whole by simp
  qed (use d header sums policy data whole in simp_all)
qed


section \<open>Properties\<close>

lemma decode_encoded:
  assumes "document_fits d" and "length (encode_body d) \<le> MAX_STATE_BYTES"
  shows "decode_document crc32 (encode_state_document crc32 d) = Some (d\<lparr>sd_state_version := STATE_VERSION_V3\<rparr>)"
proof -
  let ?d = "d\<lparr>sd_state_version := STATE_VERSION_V3\<rparr>"
  have count: "length (sd_parameters d) < 2 ^ 32"
    using assms(1) by (simp add: document_fits_def MAX_PARAMETERS_def)
  have body: "encode_body d = body_bytes (policy_code (sd_state_policy d)) ?d"
    by (simp add: encode_body_eq [OF count])
  have "length (encode_body d) < 2 ^ 32" using assms(2) by (simp add: MAX_STATE_BYTES_def)
  note saved = encode_is_file [OF this, of crc32]
  have "decode_document crc32 (document_file (sd_state_version ?d) (body_bytes (policy_code (sd_state_policy d)) ?d)
      (ucast (crc32 (body_bytes (policy_code (sd_state_policy d)) ?d)))) = Some ?d"
    by (rule decode_document_file)
      (use assms body in \<open>simp_all add: checksum_accepted_def policy_written_def STATE_VERSION_V2_def
        STATE_VERSION_V3_def\<close>)
  then show ?thesis by (simp add: saved body)
qed

text \<open>
  C30: A plugin state survives saving and loading: every document within the limits of the format is read
  back with all its fields, only its version set to the current one.
\<close>
theorem state_document_round_trip:
  assumes "document_fits d" and "length (encode_body d) \<le> MAX_STATE_BYTES"
  shows "decode_state crc32 (encode_state_document crc32 d) = StateV2 (d\<lparr>sd_state_version := STATE_VERSION_V3\<rparr>)"
  using assms by (simp add: decode_state_def decode_encoded)

definition example_document :: state_document where
  "example_document =
     \<lparr>sd_state_version = 3, sd_state_policy = TrackedParametersOnly, sd_plugin_id = ''vst-1'',
      sd_class_uid = ''AB'', sd_format = FORMAT_VST3, sd_architecture = ARCH_X64,
      sd_file_modified_ms = 1700000000000, sd_file_size = 4096, sd_program = - 1, sd_vst2_bank = [],
      sd_vst2_preset = [1, 2], sd_vst3_state = [0xF0],
      sd_parameters = [\<lparr>sp_id = 7, sp_index = 0, sp_flags = 1, sp_name = ''Gain'', sp_value = 0x3F000000\<rparr>]\<rparr>"

lemma example_fits: "document_fits example_document" "length (encode_body example_document) \<le> MAX_STATE_BYTES"
proof -
  have "utf8_valid (as_bytes ''vst-1'')" "utf8_valid (as_bytes ''AB'')" "utf8_valid (as_bytes ''Gain'')"
    "f32_is_finite 0x3F000000" by code_simp+
  then show "document_fits example_document"
    by (simp add: document_fits_def example_document_def text_fits_def parameter_fits_def MAX_TEXT_BYTES_def
        MAX_STATE_BYTES_def MAX_PARAMETERS_def)
  show "length (encode_body example_document) \<le> MAX_STATE_BYTES"
    by (simp add: encode_body_eq body_bytes_def example_document_def blob_bytes_eq push_parameter_bytes
        MAX_STATE_BYTES_def)
qed

theorem state_document_round_trip_witness:
  "decode_state (\<lambda>_. 0xCAFE) (encode_state_document (\<lambda>_. 0xCAFE) example_document) = StateV2 example_document"
  using state_document_round_trip [OF example_fits, of "\<lambda>_. 0xCAFE"]
  by (simp add: example_document_def STATE_VERSION_V3_def)

text \<open>
  C33: The reader takes nothing but the format: a decoded document respects every limit (finite parameter
  values, valid UTF-8, bounded texts, blobs and lists), the file consists of its header, the bytes of the
  document's own fields and an accepted checksum, with nothing left over; and a current file with a CRC is
  byte for byte what saving the document writes.
\<close>
theorem decoded_document_canonical:
  assumes "decode_document crc32 data = Some d"
  shows "document_fits d
    \<and> (\<exists>code checksum. data = document_file (sd_state_version d) (body_bytes code d) checksum
         \<and> checksum_accepted crc32 (sd_state_version d) (body_bytes code d) checksum
         \<and> (sd_state_version d = STATE_VERSION_V3 \<and> checksum = ucast (crc32 (body_bytes code d))
              \<longrightarrow> data = encode_state_document crc32 d))"
  using assms
proof (rule decode_document_only)
  fix code checksum
  assume fits: "document_fits d" and small: "length (body_bytes code d) \<le> MAX_STATE_BYTES"
    and data: "data = document_file (sd_state_version d) (body_bytes code d) checksum"
    and sums: "checksum_accepted crc32 (sd_state_version d) (body_bytes code d) checksum"
    and policy: "policy_written (sd_state_version d) code (sd_state_policy d)"
  have "data = encode_state_document crc32 d"
    if v: "sd_state_version d = STATE_VERSION_V3" and c: "checksum = ucast (crc32 (body_bytes code d))"
  proof -
    have "code = policy_code (sd_state_policy d)"
      using policy v by (simp add: policy_written_def STATE_VERSION_V2_def STATE_VERSION_V3_def)
    then have "encode_body d = body_bytes code d"
      using fits by (simp add: encode_body_eq document_fits_def MAX_PARAMETERS_def)
    then show ?thesis using small v c data by (simp add: encode_is_file MAX_STATE_BYTES_def)
  qed
  then show ?thesis using fits data sums by blast
qed

theorem decoded_document_canonical_witness:
  "document_fits example_document \<and> f32_is_finite (sp_value (hd (sd_parameters example_document)))"
  using decoded_document_canonical
    [of "\<lambda>_. 0xCAFE" "encode_state_document (\<lambda>_. 0xCAFE) example_document" example_document]
    decode_encoded [OF example_fits, of "\<lambda>_. 0xCAFE"]
  by (simp add: example_document_def STATE_VERSION_V3_def document_fits_def parameter_fits_def)


text \<open>A decoded file has the length its header announces, so no proper prefix of a written file is one.\<close>

lemma prefix_not_decoded:
  assumes "length (encode_body d) < 2 ^ 32" and n: "n < length (encode_state_document crc32 d)"
  shows "decode_document crc32' (take n (encode_state_document crc32 d)) = None"
proof (cases "n < 17")
  case False
  let ?file = "encode_state_document crc32 d"
  note saved = encode_is_file [OF assms(1), of crc32]
  note parts = document_file_parts [OF assms(1), folded saved]
  have "take 4 (drop 5 (take n ?file)) = take 4 (drop 5 ?file)" using False by (simp add: drop_take min_def)
  then have "unat (from_le_bytes (take 4 (drop 5 (take n ?file))) :: u32) = length (encode_body d)"
    unfolding saved using parts(4) by (simp add: saved)
  moreover have "length (take n ?file) \<noteq> 9 + length (encode_body d) + 8"
    using n by (simp add: saved document_file_parts [OF assms(1)])
  ultimately show ?thesis by (simp add: decode_document_def Let_def)
next
  case True
  then have "length (take n (encode_state_document crc32 d)) < 17" by simp
  then show ?thesis by (simp only: decode_document_def simp_thms if_True)
qed

text \<open>
  A state file cut short is never taken for another state: every proper prefix of a written file is
  invalid, or, with fewer than the four bytes of the magic, not a file of the format at all.
\<close>
theorem truncated_state_is_invalid:
  assumes small: "length (encode_body d) \<le> MAX_STATE_BYTES"
    and n: "n < length (encode_state_document crc32 d)"
  shows "decode_state crc32' (take n (encode_state_document crc32 d))
    = (if n < 4 then StateRaw (take n STATE_MAGIC) else StateInvalid)"
proof -
  have len: "length (encode_body d) < 2 ^ 32" using small by (simp add: MAX_STATE_BYTES_def)
  note saved = encode_is_file [OF len, of crc32]
  note none = prefix_not_decoded [OF len n, of crc32']
  have n': "n < 17 + length (encode_body d)" using n by (simp add: saved document_file_parts [OF len])
  show ?thesis
  proof (cases "n < 4")
    case True
    then have "take n (encode_state_document crc32 d) = take n STATE_MAGIC"
      by (simp add: saved document_file_def)
    with none True show ?thesis by (simp add: decode_state_def)
  next
    case False
    then have "take 4 (take n (encode_state_document crc32 d)) = STATE_MAGIC"
      using document_file_parts(2) [OF len] by (simp add: saved min_absorb1)
    moreover have "take n (encode_state_document crc32 d) ! 4 = STATE_VERSION_V3" if "5 \<le> n"
      using that document_file_parts(3) [OF len] by (simp add: saved)
    ultimately show ?thesis
      using none False n'
      by (auto simp: decode_state_def saved document_file_parts [OF len] STATE_VERSION_V1_def STATE_VERSION_V3_def)
  qed
qed

theorem truncated_state_is_invalid_witness:
  "decode_state (\<lambda>_. 0xCAFE) (take 40 (encode_state_document (\<lambda>_. 0xCAFE) example_document)) = StateInvalid"
proof -
  have "40 < length (encode_state_document (\<lambda>_. 0xCAFE) example_document)"
    by (simp add: encode_state_document_def push_u32_def push_u64_def encode_body_eq body_bytes_def
        example_document_def blob_bytes_eq push_parameter_bytes Let_def)
  from truncated_state_is_invalid [OF example_fits(2) this] show ?thesis by simp
qed

text \<open>
  The FNV step loses no information: the multiplier is odd, hence invertible modulo \<open>2 ^ 64\<close>.
\<close>

abbreviation fnv_step :: "u64 \<Rightarrow> u8 \<Rightarrow> u64" where
  "fnv_step hash byte \<equiv> (hash XOR ucast byte) * 0x100000001b3"

lemma fnv_prime_inverse: "(0x100000001b3 :: u64) * 0xce965057aff6957b = 1"
  by simp

lemma invertible_mult_inject:
  assumes "p * q = 1"
  shows "a * p = b * p \<longleftrightarrow> a = (b :: u64)"
proof
  assume "a * p = b * p"
  then have "a * p * q = b * p * q" by (rule arg_cong)
  then show "a = b" by (simp only: mult.assoc assms mult_1_right)
qed (rule arg_cong)

lemmas fnv_mult_inject = invertible_mult_inject [OF fnv_prime_inverse]

lemma xor_cancel_right: "a XOR c = b XOR c \<longleftrightarrow> a = (b :: u64)"
proof
  assume "a XOR c = b XOR c"
  then have "(a XOR c) XOR c = (b XOR c) XOR c" by (rule arg_cong)
  then show "a = b" by (simp only: xor.assoc xor_self_eq xor.right_neutral)
qed (rule arg_cong)

lemma xor_cancel_left: "c XOR a = c XOR b \<longleftrightarrow> a = (b :: u64)"
  by (simp only: xor.commute [of c] xor_cancel_right)

lemma fnv_step_inject: "fnv_step h b = fnv_step h' b \<longleftrightarrow> h = h'"
  unfolding fnv_mult_inject by (rule xor_cancel_right)

lemma fnv_foldl_inject: "foldl fnv_step h bs = foldl fnv_step h' bs \<longleftrightarrow> h = h'"
proof (induction bs arbitrary: h h')
  case (Cons b bs)
  show ?case unfolding foldl_Cons Cons.IH by (rule fnv_step_inject)
qed simp

lemma ucast_u8_inject: "(ucast a :: u64) = ucast b \<longleftrightarrow> a = (b :: u8)"
proof
  assume eq: "(ucast a :: u64) = ucast b"
  show "a = b"
  proof (rule bit_word_eqI)
    fix n assume "n < LENGTH(8)"
    then show "bit a n \<longleftrightarrow> bit b n"
      using arg_cong [OF eq, of "\<lambda>w. bit w n"] by (simp add: bit_ucast_iff)
  qed
qed simp

lemma fnv_one_byte:
  assumes "a \<noteq> b"
  shows "fnv1a64 (pre @ a # post) \<noteq> fnv1a64 (pre @ b # post)"
proof
  assume "fnv1a64 (pre @ a # post) = fnv1a64 (pre @ b # post)"
  then have "foldl fnv_step (fnv_step (foldl fnv_step 0xcbf29ce484222325 pre) a) post
      = foldl fnv_step (fnv_step (foldl fnv_step 0xcbf29ce484222325 pre) b) post"
    by (simp only: fnv1a64_def foldl_append foldl_Cons)
  then have "foldl fnv_step 0xcbf29ce484222325 pre XOR ucast a
      = foldl fnv_step 0xcbf29ce484222325 pre XOR ucast b"
    unfolding fnv_foldl_inject fnv_mult_inject .
  then have "(ucast a :: u64) = ucast b"
    unfolding xor_cancel_left .
  with assms show False by (simp only: ucast_u8_inject)
qed

text \<open>
  A version 2 file with one changed byte in its body is refused: the FNV checksum of the code separates
  any two bodies that differ in a single byte, so the file is invalid rather than read as another state.
\<close>
theorem changed_byte_is_refused:
  assumes "a \<noteq> b" and "length pre + length post < MAX_STATE_BYTES"
  shows "decode_state crc32
      (document_file STATE_VERSION_V2 (pre @ b # post) (fnv1a64 (pre @ a # post))) = StateInvalid"
proof -
  let ?body = "pre @ b # post" and ?sum = "fnv1a64 (pre @ a # post)"
  have len: "length ?body < 2 ^ 32" using assms(2) by (simp add: MAX_STATE_BYTES_def)
  note parts = document_file_parts [OF len, where v = STATE_VERSION_V2 and c = ?sum]
  have "fnv1a64 ?body \<noteq> ?sum" using fnv_one_byte [OF assms(1), of pre post] by simp
  then have "decode_document crc32 (document_file STATE_VERSION_V2 ?body ?sum) = None"
    unfolding decode_document_def Let_def parts by simp
  then show ?thesis
    unfolding decode_state_def parts by (simp add: STATE_VERSION_V1_def STATE_VERSION_V2_def)
qed

theorem changed_byte_is_refused_witness:
  "decode_state (\<lambda>_. 0) (document_file STATE_VERSION_V2 [2, 9, 0] (fnv1a64 [2, 1, 0])) = StateInvalid"
  using changed_byte_is_refused [of 1 9 "[2]" "[0]" "\<lambda>_. 0"] by (simp add: MAX_STATE_BYTES_def)


text \<open>The older formats, and files that are none.\<close>

lemma chunks4_concat: "chunks4 (concat (map (to_le_bytes 4) (vs :: f32 list))) = map (to_le_bytes 4) vs"
proof (induction vs)
  case (Cons v vs)
  have "to_le_bytes 4 v = [to_le_bytes 4 v ! 0, to_le_bytes 4 v ! 1, to_le_bytes 4 v ! 2, to_le_bytes 4 v ! 3]"
    by (simp add: to_le_bytes_def upt_rec)
  then show ?case using Cons.IH by (metis append_Cons append_Nil chunks4.simps(1) concat.simps(2) list.map(2))
qed simp

lemma v1_not_a_document:
  assumes "data ! 4 = STATE_VERSION_V1"
  shows "decode_document crc32 data = None"
  using assms by (simp add: decode_document_def STATE_VERSION_V1_def STATE_VERSION_V2_def STATE_VERSION_V3_def)

lemma v1_magic: "take 4 (STATE_MAGIC @ rest) = STATE_MAGIC" "(STATE_MAGIC @ v # rest) ! 4 = v"
  "(STATE_MAGIC @ v # k # rest) ! 5 = k"
  by (simp_all add: nth_append)

lemma decode_state_chunk: "decode_state crc32 (encode_state_chunk data) = StateChunk data"
  using v1_not_a_document [of "encode_state_chunk data" crc32]
  by (simp add: encode_state_chunk_def decode_state_def v1_magic)

lemma decode_state_params:
  assumes finite: "list_all f32_is_finite values" and count: "length values \<le> MAX_PARAMETERS"
  shows "decode_state crc32 (encode_state_params values) = StateParams values"
proof -
  let ?count = "to_le_bytes 4 (of_nat (length values) :: u32)"
  let ?data = "encode_state_params values"
  have data: "?data = STATE_MAGIC @ STATE_VERSION_V1 # STATE_KIND_PARAMS # ?count
      @ concat (map (to_le_bytes 4) values)" by (simp add: encode_state_params_def)
  have "?count = [?count ! 0, ?count ! 1, ?count ! 2, ?count ! 3]"
    by (simp add: to_le_bytes_def upt_rec)
  moreover have "[?data ! 6, ?data ! 7, ?data ! 8, ?data ! 9] = [?count ! 0, ?count ! 1, ?count ! 2, ?count ! 3]"
    by (simp add: data nth_append)
  ultimately have head: "[?data ! 6, ?data ! 7, ?data ! 8, ?data ! 9] = ?count" by (rule trans [OF _ sym, rotated])
  have "unat (from_le_bytes ?count :: u32) = length values"
    using count by (simp add: from_to_le_bytes unat_of_nat MAX_PARAMETERS_def)
  moreover have "length ?data = 10 + length values * 4"
    by (simp add: data length_concat comp_def sum_list_triv)
  moreover have "drop 10 ?data = concat (map (to_le_bytes 4) values)" by (simp add: data)
  moreover have "map from_le_bytes (map (to_le_bytes 4) values) = values"
    by (simp add: from_to_le_bytes comp_def)
  moreover have "take 4 ?data = STATE_MAGIC" "?data ! 4 = STATE_VERSION_V1" "?data ! 5 = STATE_KIND_PARAMS"
    unfolding data by (rule v1_magic)+
  ultimately show ?thesis
    using v1_not_a_document [of ?data crc32] finite count
    unfolding decode_state_def head Let_def
    by (simp add: chunks4_concat STATE_KIND_CHUNK_def STATE_KIND_PARAMS_def list_all_iff)
qed

text \<open>
  The older formats stay readable: a version 1 chunk is read as that chunk, a version 1 list of finite
  values as those values, and a file without the magic as raw plugin data, whatever its contents.
\<close>
theorem old_states_are_read:
  "decode_state crc32 (encode_state_chunk data) = StateChunk data
    \<and> (list_all f32_is_finite values \<and> length values \<le> MAX_PARAMETERS
         \<longrightarrow> decode_state crc32 (encode_state_params values) = StateParams values)
    \<and> (take 4 raw \<noteq> STATE_MAGIC \<longrightarrow> decode_state crc32 raw = StateRaw raw)"
  by (simp add: decode_state_chunk decode_state_params) (simp add: decode_state_def decode_document_def)

theorem old_states_are_read_witness:
  "decode_state (\<lambda>_. 0) (encode_state_params [0x3F800000]) = StateParams [0x3F800000]"
proof -
  have "f32_is_finite 0x3F800000" by code_simp
  then show ?thesis
    using old_states_are_read [of "\<lambda>_. 0" "[]" "[0x3F800000]" "[]"] by (simp add: MAX_PARAMETERS_def)
qed

text \<open>
  The writer cuts a parameter name after 65535 bytes, possibly inside a character: such a name is not
  valid UTF-8 any more, and the reader refuses the whole file.
\<close>

lemma cut_character: "\<not> utf8_valid (replicate n 0x61 @ [0xC3])"
  by (induction n) simp_all

lemma cut_parameter_unreadable:
  assumes name: "as_bytes (sp_name p) = replicate (2 ^ 16 - 2) 0x61 @ [0xC3, 0xA9]"
  shows "sr_parameter (reader_at pre (push_parameter [] p @ rest)) = None"
proof (rule ccontr)
  define cut where "cut = replicate (2 ^ 16 - 2) 0x61 @ [0xC3 :: u8]"
  assume "sr_parameter (reader_at pre (push_parameter [] p @ rest)) \<noteq> None"
  then obtain q r' where read: "sr_parameter (reader_at pre (push_parameter [] p @ rest)) = Some (q, r')" by auto
  have len: "length cut = 65535" by (simp add: cut_def)
  have "length (as_bytes (sp_name p)) = 2 ^ 16" unfolding name by simp
  moreover have "take (2 ^ 16 - 1) (as_bytes (sp_name p)) = cut" unfolding name cut_def by (simp add: take_Cons')
  ultimately have "push_parameter [] p = to_le_bytes 4 (sp_id p) @ to_le_bytes 4 (sp_index p)
      @ to_le_bytes 4 (sp_flags p) @ to_le_bytes 4 (sp_value p) @ to_le_bytes 2 (of_nat (2 ^ 16 - 1) :: u16) @ cut"
    by (simp add: push_parameter_def push_u32_def push_u16_def out_name_def min_absorb2 del: length_text_bytes)
  with read have "from_utf8 cut \<noteq> None"
    unfolding sr_parameter_def
    by (auto simp: field_u32.bind_read field_f32.bind_read field_u16.bind_read take_bind len lift_bind_iff
        split: if_splits)
  then show False using cut_character [of "2 ^ 16 - 2"] by (simp add: from_utf8_def cut_def)
qed

lemma cut_document_unreadable:
  assumes one: "sd_parameters d = [p]" and name: "as_bytes (sp_name p) = replicate (2 ^ 16 - 2) 0x61 @ [0xC3, 0xA9]"
    and texts: "text_fits (sd_plugin_id d)" "text_fits (sd_class_uid d)"
    and blobs: "length (sd_vst2_bank d) \<le> MAX_STATE_BYTES" "length (sd_vst2_preset d) \<le> MAX_STATE_BYTES"
      "length (sd_vst3_state d) \<le> MAX_STATE_BYTES"
  shows "sr_document STATE_VERSION_V3 (reader_at [] (body_bytes (policy_code (sd_state_policy d)) d)) = None"
proof -
  have policy: "(if STATE_VERSION_V3 = STATE_VERSION_V2 then Some LegacyFullSnapshot
      else policy_from_u16 (policy_code (sd_state_policy d))) = Some (sd_state_policy d)"
    by (simp add: STATE_VERSION_V2_def STATE_VERSION_V3_def)
  have u8: "reader_bind sr_u8 f (reader_at pre (b # r)) = f b (reader_at (pre @ [b]) r)" for f pre b r
    using field_u8.bind_read [of f pre b r] by simp
  have "reader_bind (sr_parameters (Suc 0)) f (reader_at pre (push_parameter [] p)) = None" for f pre
    using cut_parameter_unreadable [OF name, of pre "[]"] by (simp add: reader_bind_def)
  then show ?thesis
    using texts blobs
    unfolding sr_document_def body_bytes_def one
    by (simp add: u8 field_binds policy MAX_PARAMETERS_def del: sr_parameters.simps)
qed

text \<open>
  A parameter name over the limit can lose the whole state: when the writer's cut after 65535 bytes
  falls inside a character, the file it has just written is invalid for the reader.
\<close>
theorem cut_name_loses_the_state:
  assumes one: "sd_parameters d = [p]" and name: "as_bytes (sp_name p) = replicate (2 ^ 16 - 2) 0x61 @ [0xC3, 0xA9]"
    and texts: "text_fits (sd_plugin_id d)" "text_fits (sd_class_uid d)"
    and small: "length (encode_body d) \<le> MAX_STATE_BYTES"
  shows "decode_state crc32 (encode_state_document crc32 d) = StateInvalid"
proof -
  have body: "encode_body d = body_bytes (policy_code (sd_state_policy d)) d" by (simp add: encode_body_eq one)
  have len: "length (encode_body d) < 2 ^ 32" using small by (simp add: MAX_STATE_BYTES_def)
  note saved = encode_is_file [OF len, of crc32]
  note parts = document_file_parts [OF len, folded saved]
  have blobs: "length (sd_vst2_bank d) \<le> MAX_STATE_BYTES" "length (sd_vst2_preset d) \<le> MAX_STATE_BYTES"
      "length (sd_vst3_state d) \<le> MAX_STATE_BYTES"
    using small unfolding body body_bytes_def blob_bytes_def push_blob_def by simp_all
  have "decode_document crc32 (encode_state_document crc32 d) = None"
    using cut_document_unreadable [OF one name texts blobs]
    unfolding decode_document_def saved document_file_parts [OF len] Let_def
    by (simp add: reader_new_at body)
  then show ?thesis
    unfolding decode_state_def saved document_file_parts [OF len]
    by (simp add: STATE_VERSION_V1_def STATE_VERSION_V3_def)
qed

definition cut_document :: state_document where
  "cut_document =
     \<lparr>sd_state_version = 3, sd_state_policy = NativePreferred, sd_plugin_id = [], sd_class_uid = [],
      sd_format = FORMAT_VST3, sd_architecture = ARCH_X64, sd_file_modified_ms = 0, sd_file_size = 0,
      sd_program = 0, sd_vst2_bank = [], sd_vst2_preset = [], sd_vst3_state = [],
      sd_parameters =
        [\<lparr>sp_id = 0, sp_index = 0, sp_flags = 0,
          sp_name = str_of_bytes (replicate (2 ^ 16 - 2) 0x61 @ [0xC3, 0xA9]), sp_value = 0\<rparr>]\<rparr>"

theorem cut_name_loses_the_state_witness:
  "decode_state (\<lambda>_. 0) (encode_state_document (\<lambda>_. 0) cut_document) = StateInvalid"
proof (rule cut_name_loses_the_state)
  show "sd_parameters cut_document = [hd (sd_parameters cut_document)]" by (simp add: cut_document_def)
  show "as_bytes (sp_name (hd (sd_parameters cut_document))) = replicate (2 ^ 16 - 2) 0x61 @ [0xC3, 0xA9]"
    unfolding cut_document_def state_document.select_convs list.sel state_parameter.select_convs
    by (rule as_bytes_of_str)
  show "length (encode_body cut_document) \<le> MAX_STATE_BYTES"
    by (simp add: encode_body_eq body_bytes_def cut_document_def blob_bytes_eq push_parameter_def push_u32_def
        push_u16_def out_name_def MAX_STATE_BYTES_def Let_def)
qed (simp_all add: cut_document_def text_fits_def as_bytes_def)

end
