(* ===== verification/State_Restore.thy ===== *)
theory State_Restore
  imports State_Codec
begin

text \<open>
  Capturing a plugin's state into a document and restoring it (\<open>audio/state_codec.rs\<close>): the policy for
  plugins whose native state is not safe, the choice among the files a state may be in, the assignment of
  saved values to the parameters of the plugin at hand. A plugin is a state with the operations of its
  library as parameters; the file system is a map from paths to contents.
\<close>

section \<open>Strings and floats\<close>

definition to_ascii_lower :: "char \<Rightarrow> char" where
  "to_ascii_lower c =
     (let n = of_char c :: nat in if 65 \<le> n \<and> n \<le> 90 then char_of (n + 32) else c)"

definition eq_ignore_ascii_case :: "string \<Rightarrow> string \<Rightarrow> bool" where
  "eq_ignore_ascii_case s t \<longleftrightarrow> map to_ascii_lower s = map to_ascii_lower t"

definition ends_with :: "string \<Rightarrow> string \<Rightarrow> bool" where
  "ends_with s suffix \<longleftrightarrow> length suffix \<le> length s \<and> drop (length s - length suffix) s = suffix"

definition contains :: "string \<Rightarrow> string \<Rightarrow> bool" where
  "contains s part \<longleftrightarrow> rfind part s \<noteq> None"

text \<open>\<open>value.abs() <= f32::EPSILON\<close> and \<open>value.clamp(0.0, 1.0)\<close>.\<close>

definition f32_zero_like :: "f32 \<Rightarrow> bool" where
  "f32_zero_like value \<longleftrightarrow> \<bar>f32_key value\<bar> \<le> 0x34000000"

definition clamp01 :: "f32 \<Rightarrow> f32" where
  "clamp01 value = f32_clamp value 0 0x3F800000"

section \<open>Entries and policy\<close>

text \<open>The fields of a \<open>VstPluginEntry\<close> the state code reads.\<close>

record plugin_entry =
  pe_id :: string
  pe_path :: string
  pe_format :: string
  pe_architecture :: string
  pe_class_uid :: "string option"
  pe_file_modified_ms :: "u64 option"
  pe_file_size :: "u64 option"

definition UPRIGHT_PIANO_VST3_CLASS_UID :: string where
  "UPRIGHT_PIANO_VST3_CLASS_UID = ''5653545F474B64757072696768742070''"
definition UPRIGHT_PIANO_UNSAFE_STATE_FILE_SIZE :: u64 where
  "UPRIGHT_PIANO_UNSAFE_STATE_FILE_SIZE = 4173312"

text \<open>
  \<open>vst3_native_state_requires_parameter_fallback\<close>. The code lower-cases the whole path; no character
  outside ASCII has a lower case among the letters of \<open>sforzando.vst3\<close>, so ASCII lower-casing decides
  the same paths.
\<close>

definition native_vst3_state_is_disabled :: "plugin_entry \<Rightarrow> bool" where
  "native_vst3_state_is_disabled entry =
     (let normalized = map to_ascii_lower (pe_path entry)
      in if ends_with normalized ''sforzando.vst3'' \<or> contains normalized (CHR 0x5C # ''sforzando.vst3'') then True
         else (case pe_class_uid entry of None \<Rightarrow> False
               | Some uid \<Rightarrow> eq_ignore_ascii_case uid UPRIGHT_PIANO_VST3_CLASS_UID)
              \<and> pe_file_size entry = Some UPRIGHT_PIANO_UNSAFE_STATE_FILE_SIZE)"

definition state_policy_for_entry :: "plugin_entry \<Rightarrow> state_policy" where
  "state_policy_for_entry entry =
     (if \<not> eq_ignore_ascii_case (pe_format entry) ''VST3'' then NativePreferred
      else if native_vst3_state_is_disabled entry then TrackedParametersOnly
      else NativePreferred)"

definition entry_format :: "plugin_entry \<Rightarrow> u8" where
  "entry_format entry = (if eq_ignore_ascii_case (pe_format entry) ''VST3'' then FORMAT_VST3 else FORMAT_VST2)"

definition entry_architecture :: "plugin_entry \<Rightarrow> u8" where
  "entry_architecture entry = (if eq_ignore_ascii_case (pe_architecture entry) ''x86'' then ARCH_X86 else ARCH_X64)"

text \<open>\<open>legacy_id\<close> is the identity older versions derived from the path of the plugin.\<close>

definition state_document_matches_entry :: "string \<Rightarrow> state_document \<Rightarrow> plugin_entry \<Rightarrow> bool" where
  "state_document_matches_entry legacy_id document entry =
     (if sd_plugin_id document = [] \<or> sd_plugin_id document = pe_id entry then True
      else
        let intrinsic_identity_matches =
          (case pe_class_uid entry of None \<Rightarrow> False
           | Some class_uid \<Rightarrow>
               class_uid \<noteq> [] \<and> eq_ignore_ascii_case (sd_class_uid document) class_uid
               \<and> sd_format document = entry_format entry
               \<and> sd_architecture document = entry_architecture entry)
        in intrinsic_identity_matches \<or> sd_plugin_id document = legacy_id)"

definition unsafe_dense_zero_values :: "nat \<Rightarrow> nat \<Rightarrow> bool" where
  "unsafe_dense_zero_values count zero_like \<longleftrightarrow> count \<ge> 512 \<and> zero_like * 10 \<ge> count * 9"

definition unsafe_legacy_parameter_snapshot :: "state_document \<Rightarrow> plugin_entry \<Rightarrow> bool" where
  "unsafe_legacy_parameter_snapshot document entry =
     (if state_policy_for_entry entry \<noteq> TrackedParametersOnly
         \<or> sd_state_policy document \<noteq> LegacyFullSnapshot
         \<or> sd_vst3_state document \<noteq> []
         \<or> length (sd_parameters document) < 512 then False
      else unsafe_dense_zero_values (length (sd_parameters document))
             (length (filter (\<lambda>p. f32_zero_like (sp_value p)) (sd_parameters document))))"

definition unsafe_legacy_parameter_values :: "f32 list \<Rightarrow> plugin_entry \<Rightarrow> bool" where
  "unsafe_legacy_parameter_values values entry \<longleftrightarrow>
     state_policy_for_entry entry = TrackedParametersOnly
     \<and> unsafe_dense_zero_values (length values) (length (filter f32_zero_like values))"

section \<open>Plugins\<close>

text \<open>
  The operations of a VST2 and of a VST3 instance. Reading does not change the plugin's state; a \<open>bool\<close>
  is the success of an operation.
\<close>

record parameter_info =
  pi_id :: u32
  pi_flags :: u32
  pi_name :: string

record 'p vst2_instance =
  v2_parameters :: "'p \<Rightarrow> i32"
  v2_presets :: "'p \<Rightarrow> i32"
  v2_preset_chunks :: "'p \<Rightarrow> bool"
  v2_get_parameter :: "nat \<Rightarrow> 'p \<Rightarrow> f32"
  v2_get_parameter_name :: "nat \<Rightarrow> 'p \<Rightarrow> string"
  v2_get_preset_num :: "'p \<Rightarrow> i32"
  v2_get_bank_data :: "'p \<Rightarrow> bytes"
  v2_get_preset_data :: "'p \<Rightarrow> bytes"
  v2_set_parameter :: "nat \<Rightarrow> f32 \<Rightarrow> 'p \<Rightarrow> 'p"
  v2_change_preset :: "i32 \<Rightarrow> 'p \<Rightarrow> 'p"
  v2_load_bank_data :: "bytes \<Rightarrow> 'p \<Rightarrow> bool \<times> 'p"
  v2_load_preset_data :: "bytes \<Rightarrow> 'p \<Rightarrow> bool \<times> 'p"

record 'p vst3_instance =
  v3_parameter_count :: "'p \<Rightarrow> nat"
  v3_parameter_info :: "nat \<Rightarrow> 'p \<Rightarrow> parameter_info option"
  v3_get_parameter :: "nat \<Rightarrow> 'p \<Rightarrow> f32 option"
  v3_get_state :: "'p \<Rightarrow> bytes option"
  v3_tracked_parameters :: "'p \<Rightarrow> (u32 \<times> f32) list option"
  v3_set_parameter :: "nat \<Rightarrow> f32 \<Rightarrow> 'p \<Rightarrow> bool \<times> 'p"
  v3_set_state :: "bytes \<Rightarrow> 'p \<Rightarrow> (string + unit) \<times> 'p"

datatype 'p plugin_backend = Vst2 "'p vst2_instance" | Vst3 "'p vst3_instance" | Remote

definition i32_max0 :: "i32 \<Rightarrow> nat" where
  "i32_max0 n = nat (max (sint n) 0)"

section \<open>Capturing\<close>

definition capture_vst2_state_parameters :: "'p vst2_instance \<Rightarrow> 'p \<Rightarrow> state_parameter list" where
  "capture_vst2_state_parameters inst p =
     List.map_filter (\<lambda>index.
       let value = v2_get_parameter inst index p
       in if f32_is_finite value
          then Some \<lparr>sp_id = of_nat index, sp_index = of_nat index, sp_flags = 0,
                     sp_name = v2_get_parameter_name inst index p, sp_value = clamp01 value\<rparr>
          else None) [0..<i32_max0 (v2_parameters inst p)]"

definition capture_all_vst3_parameters :: "'p vst3_instance \<Rightarrow> 'p \<Rightarrow> state_parameter list" where
  "capture_all_vst3_parameters inst p =
     List.map_filter (\<lambda>index.
       case v3_parameter_info inst index p of None \<Rightarrow> None
       | Some info \<Rightarrow>
           if pi_flags info AND VST3_PARAMETER_IS_READ_ONLY \<noteq> 0 then None
           else case v3_get_parameter inst index p of None \<Rightarrow> None
           | Some value \<Rightarrow>
               if f32_is_finite value
               then Some \<lparr>sp_id = pi_id info, sp_index = of_nat index, sp_flags = pi_flags info,
                          sp_name = pi_name info, sp_value = clamp01 value\<rparr>
               else None) [0..<v3_parameter_count inst p]"

text \<open>The readable parameters with their index; \<open>find\<close> picks the first one with a given id.\<close>

definition current_parameters :: "'p vst3_instance \<Rightarrow> 'p \<Rightarrow> (nat \<times> parameter_info) list" where
  "current_parameters inst p =
     List.map_filter (\<lambda>index. case v3_parameter_info inst index p of None \<Rightarrow> None
                     | Some info \<Rightarrow> Some (index, info)) [0..<v3_parameter_count inst p]"

definition capture_tracked :: "(nat \<times> parameter_info) list \<Rightarrow> (u32 \<times> f32) list \<Rightarrow> state_parameter list" where
  "capture_tracked metadata tracked =
     List.map_filter (\<lambda>(ident, value).
       case List.find (\<lambda>(_, info). pi_id info = ident) metadata of None \<Rightarrow> None
       | Some (index, info) \<Rightarrow>
           if pi_flags info AND VST3_PARAMETER_IS_READ_ONLY = 0 \<and> f32_is_finite value
           then Some \<lparr>sp_id = ident, sp_index = of_nat index, sp_flags = pi_flags info,
                      sp_name = pi_name info, sp_value = clamp01 value\<rparr>
           else None) tracked"

definition entry_document :: "plugin_entry \<Rightarrow> state_document" where
  "entry_document entry =
     \<lparr>sd_state_version = STATE_VERSION_V3, sd_state_policy = state_policy_for_entry entry,
      sd_plugin_id = pe_id entry,
      sd_class_uid = (case pe_class_uid entry of None \<Rightarrow> [] | Some uid \<Rightarrow> uid),
      sd_format = entry_format entry, sd_architecture = entry_architecture entry,
      sd_file_modified_ms = (case pe_file_modified_ms entry of None \<Rightarrow> 0 | Some ms \<Rightarrow> ms),
      sd_file_size = (case pe_file_size entry of None \<Rightarrow> 0 | Some n \<Rightarrow> n),
      sd_program = - 1, sd_vst2_bank = [], sd_vst2_preset = [], sd_vst3_state = [], sd_parameters = []\<rparr>"

definition capture_document :: "'p plugin_backend \<Rightarrow> 'p \<Rightarrow> plugin_entry \<Rightarrow> state_document option" where
  "capture_document plugin p entry =
     (let document = entry_document entry;
          keep = (\<lambda>d. if sd_parameters d \<noteq> [] \<or> sd_vst2_bank d \<noteq> [] \<or> sd_vst2_preset d \<noteq> []
                         \<or> sd_vst3_state d \<noteq> [] then Some d else None)
      in case plugin of
        Vst2 inst \<Rightarrow>
          let d = document\<lparr>sd_parameters := capture_vst2_state_parameters inst p,
                           sd_program := v2_get_preset_num inst p\<rparr>
          in keep (if v2_preset_chunks inst p
                   then d\<lparr>sd_vst2_bank := v2_get_bank_data inst p,
                          sd_vst2_preset := v2_get_preset_data inst p\<rparr> else d)
      | Vst3 inst \<Rightarrow>
          (case sd_state_policy document of
             TrackedParametersOnly \<Rightarrow>
               (case v3_tracked_parameters inst p of None \<Rightarrow> keep document
                | Some tracked \<Rightarrow>
                    keep (document\<lparr>sd_parameters :=
                            capture_tracked (current_parameters inst p) tracked\<rparr>))
           | StateUnsupported \<Rightarrow> keep document
           | _ \<Rightarrow>
               let d = document\<lparr>sd_parameters := capture_all_vst3_parameters inst p\<rparr>
               in keep (case v3_get_state inst p of None \<Rightarrow> d
                        | Some state \<Rightarrow> d\<lparr>sd_vst3_state := state\<rparr>))
      | Remote \<Rightarrow> None)"

section \<open>Restoring\<close>

definition apply_vst2_state_parameter :: "'p vst2_instance \<Rightarrow> 'p \<Rightarrow> state_parameter \<Rightarrow> 'p" where
  "apply_vst2_state_parameter inst p saved =
     (let index = unat (sp_index saved)
      in if index \<ge> i32_max0 (v2_parameters inst p) \<or> \<not> f32_is_finite (sp_value saved) then p
         else if sp_name saved \<noteq> [] \<and> v2_get_parameter_name inst index p \<noteq> []
                 \<and> \<not> eq_ignore_ascii_case (v2_get_parameter_name inst index p) (sp_name saved) then p
         else v2_set_parameter inst index (clamp01 (sp_value saved)) p)"

definition apply_vst2_state_parameters :: "'p vst2_instance \<Rightarrow> state_parameter list \<Rightarrow> 'p \<Rightarrow> 'p" where
  "apply_vst2_state_parameters inst values p = foldl (apply_vst2_state_parameter inst) p values"

definition indexed_parameters :: "bool \<Rightarrow> f32 list \<Rightarrow> state_parameter list" where
  "indexed_parameters with_id values =
     map (\<lambda>(index, value). \<lparr>sp_id = if with_id then of_nat index else 0, sp_index = of_nat index,
            sp_flags = 0, sp_name = [], sp_value = value\<rparr>) (enumerate 0 values)"

definition apply_vst2_parameters :: "'p vst2_instance \<Rightarrow> f32 list \<Rightarrow> 'p \<Rightarrow> 'p" where
  "apply_vst2_parameters inst values p = apply_vst2_state_parameters inst (indexed_parameters True values) p"

text \<open>Which parameter of the plugin a saved one stands for, and the values to set.\<close>

definition select_parameter ::
  "(nat \<times> parameter_info) list \<Rightarrow> bool \<Rightarrow> state_parameter \<Rightarrow> (nat \<times> parameter_info) option" where
  "select_parameter current by_index_only parameter =
     (if by_index_only
      then List.find (\<lambda>(index, _). index = unat (sp_index parameter)) current
      else case List.find (\<lambda>(_, info). pi_id info = sp_id parameter) current of
        Some found \<Rightarrow> Some found
      | None \<Rightarrow>
          List.find (\<lambda>(index, info). index = unat (sp_index parameter)
             \<and> (sp_name parameter = [] \<or> eq_ignore_ascii_case (pi_name info) (sp_name parameter))) current)"

definition resolve_vst3_parameter_assignments ::
  "(nat \<times> parameter_info) list \<Rightarrow> state_parameter list \<Rightarrow> bool \<Rightarrow> (nat \<times> f32) list" where
  "resolve_vst3_parameter_assignments current saved by_index_only =
     List.map_filter (\<lambda>parameter.
       case select_parameter current by_index_only parameter of None \<Rightarrow> None
       | Some (index, info) \<Rightarrow>
           if pi_flags info AND VST3_PARAMETER_IS_READ_ONLY \<noteq> 0 \<or> \<not> f32_is_finite (sp_value parameter)
           then None else Some (index, clamp01 (sp_value parameter))) saved"

text \<open>A failed assignment is logged; the others are still made.\<close>

definition apply_vst3_parameters_internal ::
  "'p vst3_instance \<Rightarrow> state_parameter list \<Rightarrow> bool \<Rightarrow> 'p \<Rightarrow> 'p" where
  "apply_vst3_parameters_internal inst saved by_index_only p =
     foldl (\<lambda>p (index, value). snd (v3_set_parameter inst index value p)) p
       (resolve_vst3_parameter_assignments (current_parameters inst p) saved by_index_only)"

definition apply_vst3_parameters :: "'p vst3_instance \<Rightarrow> state_parameter list \<Rightarrow> 'p \<Rightarrow> 'p" where
  "apply_vst3_parameters inst saved p = apply_vst3_parameters_internal inst saved False p"

definition apply_legacy_indexed_parameters :: "'p vst3_instance \<Rightarrow> f32 list \<Rightarrow> 'p \<Rightarrow> 'p" where
  "apply_legacy_indexed_parameters inst values p =
     apply_vst3_parameters_internal inst (indexed_parameters False values) True p"

definition change_saved_program :: "'p vst2_instance \<Rightarrow> i32 \<Rightarrow> i32 \<Rightarrow> 'p \<Rightarrow> 'p" where
  "change_saved_program inst presets program p =
     (if sint program \<ge> 0 \<and> sint program < max (sint presets) 0 then v2_change_preset inst program p else p)"

definition restore_vst2 :: "'p vst2_instance \<Rightarrow> state_document \<Rightarrow> 'p \<Rightarrow> bool \<times> 'p" where
  "restore_vst2 inst document p =
     (let presets = v2_presets inst p
      in if v2_preset_chunks inst p then
           let (bank_restored, p) =
                 (if sd_vst2_bank document = [] then (False, p)
                  else v2_load_bank_data inst (sd_vst2_bank document) p);
               p = change_saved_program inst presets (sd_program document) p
           in if sd_vst2_preset document \<noteq> [] then v2_load_preset_data inst (sd_vst2_preset document) p
              else (bank_restored, p)
         else (False, change_saved_program inst presets (sd_program document) p))"

definition restore_document :: "'p plugin_backend \<Rightarrow> state_document \<Rightarrow> plugin_entry \<Rightarrow> 'p \<Rightarrow> 'p" where
  "restore_document plugin document entry p =
     (case plugin of
        Vst2 inst \<Rightarrow>
          let (native_restored, p) = restore_vst2 inst document p
          in if \<not> native_restored then apply_vst2_state_parameters inst (sd_parameters document) p else p
      | Vst3 inst \<Rightarrow>
          let (native_restored, p) =
            (if sd_vst3_state document \<noteq> [] \<and> state_policy_for_entry entry = NativePreferred
             then map_prod is_ok (\<lambda>p. p) (v3_set_state inst (sd_vst3_state document) p) else (False, p))
          in if \<not> native_restored then apply_vst3_parameters inst (sd_parameters document) p else p
      | Remote \<Rightarrow> p)"

text \<open>\<open>restore_vst3_state_file_for_diagnostic\<close>, on what reading the file gave.\<close>

definition set_native_state :: "string \<Rightarrow> 'p vst3_instance \<Rightarrow> bytes \<Rightarrow> 'p \<Rightarrow> (string + nat) \<times> 'p" where
  "set_native_state failure inst state p =
     (case v3_set_state inst state p of
        (Inl e, p) \<Rightarrow> (Inl (failure @ e), p)
      | (Inr _, p) \<Rightarrow> (Inr 0, p))"

definition restore_legacy_native ::
  "'p vst3_instance \<Rightarrow> plugin_entry \<Rightarrow> bytes \<Rightarrow> 'p \<Rightarrow> (string + nat) \<times> 'p" where
  "restore_legacy_native inst entry state p =
     (if state_policy_for_entry entry \<noteq> NativePreferred
      then (Inl ''legacy native state is disabled by the compatibility profile'', p)
      else set_native_state ''legacy native state restore failed: '' inst state p)"

definition restore_vst3_state_file_for_diagnostic ::
  "(bytes \<Rightarrow> u32) \<Rightarrow> string \<Rightarrow> 'p vst3_instance \<Rightarrow> plugin_entry \<Rightarrow> string + bytes \<Rightarrow> 'p \<Rightarrow> (string + nat) \<times> 'p" where
  "restore_vst3_state_file_for_diagnostic crc32 legacy_id inst entry contents p =
     (case contents of Inl e \<Rightarrow> (Inl (''failed to read state file: '' @ e), p)
      | Inr data \<Rightarrow>
        (case decode_state crc32 data of
           StateV2 document \<Rightarrow>
             if \<not> state_document_matches_entry legacy_id document entry
             then (Inl ''state belongs to a different plug-in identity'', p)
             else if unsafe_legacy_parameter_snapshot document entry
             then (Inl ''unsafe exhaustive legacy parameter snapshot rejected'', p)
             else if sd_vst3_state document \<noteq> [] \<and> state_policy_for_entry entry = NativePreferred
             then set_native_state ''native state restore failed: '' inst (sd_vst3_state document) p
             else (Inr (length (sd_parameters document)), apply_vst3_parameters inst (sd_parameters document) p)
         | StateParams values \<Rightarrow>
             if unsafe_legacy_parameter_values values entry
             then (Inl ''unsafe exhaustive legacy parameter snapshot rejected'', p)
             else (Inr (length values), apply_legacy_indexed_parameters inst values p)
         | StateChunk state \<Rightarrow> restore_legacy_native inst entry state p
         | StateRaw state \<Rightarrow> restore_legacy_native inst entry state p
         | StateInvalid \<Rightarrow> (Inl ''state envelope is corrupt or unsupported'', p)))"

section \<open>The files a state may be in\<close>

text \<open>
  What the functions ask of the system: \<open>str::to_lowercase\<close>, the operations of \<open>Path\<close>, the directory of
  states, and the operations on files that may fail.
\<close>

record state_env =
  se_crc32 :: "bytes \<Rightarrow> u32"
  se_lowercase :: "string \<Rightarrow> string"
  se_canonicalize :: "string \<Rightarrow> string option"
  se_file_name :: "string \<Rightarrow> string option"
  se_extension :: "string \<Rightarrow> string option"
  se_with_extension :: "string \<Rightarrow> string \<Rightarrow> string"
  se_join :: "string \<Rightarrow> string \<Rightarrow> string"
  se_state_dir :: "string option"
  se_read_dir :: "string list option"
  se_modified :: "string \<Rightarrow> nat option"
  se_timestamp :: string
  se_can_rename :: "string \<Rightarrow> bool"
  se_can_write :: "string \<Rightarrow> bool"
  se_legacy_path_plugin_id :: "plugin_entry \<Rightarrow> string"

type_synonym files = "string \<rightharpoonup> bytes"

definition hex_digit :: "nat \<Rightarrow> char" where
  "hex_digit d = char_of (if d < 10 then 48 + d else 87 + d)"

definition hex16 :: "u64 \<Rightarrow> string" where
  "hex16 hash = map (\<lambda>i. hex_digit (unat (drop_bit (4 * (15 - i)) hash AND 0xF))) [0..<16]"

definition is_vst3_path :: "state_env \<Rightarrow> string \<Rightarrow> bool" where
  "is_vst3_path env path =
     (case se_extension env path of None \<Rightarrow> False | Some ext \<Rightarrow> eq_ignore_ascii_case ext ''vst3'')"

definition old_stable_identity :: "state_env \<Rightarrow> string \<Rightarrow> string option \<Rightarrow> string" where
  "old_stable_identity env vst_path uid =
     (let canonical = (case se_canonicalize env vst_path of None \<Rightarrow> vst_path | Some c \<Rightarrow> c);
          format = (if is_vst3_path env vst_path then ''vst3'' else ''vst2'');
          base = format @ '':'' @ se_lowercase env canonical
      in case uid of None \<Rightarrow> base | Some uid \<Rightarrow> base @ '':'' @ uid)"

definition state_file :: "state_env \<Rightarrow> string \<Rightarrow> string \<Rightarrow> string option" where
  "state_file env file_name suffix =
     (case se_state_dir env of None \<Rightarrow> None | Some dir \<Rightarrow> Some (se_join env dir (file_name @ suffix @ ''.state'')))"

definition legacy_state_path_for_plugin :: "state_env \<Rightarrow> string \<Rightarrow> string option" where
  "legacy_state_path_for_plugin env vst_path =
     (case se_file_name env vst_path of None \<Rightarrow> None | Some file_name \<Rightarrow> state_file env file_name [])"

definition old_state_path :: "state_env \<Rightarrow> string \<Rightarrow> string option \<Rightarrow> string option" where
  "old_state_path env vst_path uid =
     (case se_file_name env vst_path of None \<Rightarrow> None
      | Some file_name \<Rightarrow>
          let hash = fnv1a64 (as_bytes (old_stable_identity env vst_path uid))
          in state_file env file_name (''-'' @ hex16 hash))"

definition state_path_for_plugin :: "state_env \<Rightarrow> plugin_entry \<Rightarrow> string option" where
  "state_path_for_plugin env entry =
     (case se_file_name env (pe_path entry) of None \<Rightarrow> None
      | Some file_name \<Rightarrow>
          let hash = fnv1a64 (as_bytes (pe_id entry)) in state_file env file_name (''-'' @ hex16 hash))"

text \<open>
  The candidates: the current path, then the historical ones that exist, files of unknown age first and
  then the newest first, each once. \<open>sort_by_key\<close> is stable and \<open>None\<close> sorts before every \<open>Reverse\<close> age.
\<close>

definition age_key :: "nat option \<Rightarrow> int" where
  "age_key modified = (case modified of None \<Rightarrow> - (2 ^ 128) | Some t \<Rightarrow> - int t)"

definition directory_candidates :: "state_env \<Rightarrow> string \<Rightarrow> string list" where
  "directory_candidates env path =
     (case (se_state_dir env, se_file_name env path) of
        (Some dir, Some file_name) \<Rightarrow>
          (case se_read_dir env of None \<Rightarrow> []
           | Some candidates \<Rightarrow>
               filter (\<lambda>c. (case se_file_name env c of None \<Rightarrow> False
                              | Some name \<Rightarrow> starts_with (file_name @ ''-'') name)
                           \<and> se_extension env c = Some ''state'') candidates)
      | _ \<Rightarrow> [])"

definition push_option :: "'a option \<Rightarrow> 'a list" where
  "push_option x = (case x of None \<Rightarrow> [] | Some y \<Rightarrow> [y])"

definition add_candidate :: "(string \<times> bool) list \<Rightarrow> string \<Rightarrow> (string \<times> bool) list" where
  "add_candidate candidates c =
     (if \<exists>(path, _) \<in> set candidates. path = c then candidates else candidates @ [(c, True)])"

definition candidate_state_paths :: "state_env \<Rightarrow> files \<Rightarrow> plugin_entry \<Rightarrow> (string \<times> bool) list" where
  "candidate_state_paths env files entry =
     (case state_path_for_plugin env entry of None \<Rightarrow> []
      | Some primary \<Rightarrow>
          let historical =
                push_option (old_state_path env (pe_path entry) (pe_class_uid entry))
                @ push_option (old_state_path env (pe_path entry) None)
                @ push_option (legacy_state_path_for_plugin env (pe_path entry))
                @ directory_candidates env (pe_path entry);
              historical = filter (\<lambda>c. c \<noteq> primary \<and> files c \<noteq> None) historical;
              historical = remdups_adj (sort_key (\<lambda>c. age_key (se_modified env c)) historical)
          in foldl add_candidate [(primary, False)] historical)"

text \<open>\<open>archive_invalid_state\<close> renames a file; when that fails it stays where it is.\<close>

definition archived_path :: "state_env \<Rightarrow> string \<Rightarrow> string" where
  "archived_path env path = se_with_extension env path (''state.invalid-'' @ se_timestamp env)"

definition archive_invalid_state :: "state_env \<Rightarrow> string \<Rightarrow> files \<Rightarrow> files" where
  "archive_invalid_state env path files =
     (let archived = archived_path env path
      in if se_can_rename env path then (files(path := None))(archived := files path) else files)"

text \<open>The first candidate that can be used; the unusable ones met before are archived.\<close>

definition judge_state :: "state_env \<Rightarrow> plugin_entry \<Rightarrow> saved_state \<Rightarrow> bool \<times> bool" where
  "judge_state env entry state =
     (case state of
        StateInvalid \<Rightarrow> (False, True)
      | StateV2 document \<Rightarrow>
          if \<not> state_document_matches_entry (se_legacy_path_plugin_id env entry) document entry
          then (False, False)
          else if unsafe_legacy_parameter_snapshot document entry then (False, True)
          else (True, False)
      | StateParams values \<Rightarrow> if unsafe_legacy_parameter_values values entry then (False, True) else (True, False)
      | _ \<Rightarrow> (True, False))"

fun select_state ::
  "state_env \<Rightarrow> plugin_entry \<Rightarrow> (string \<times> bool) list \<Rightarrow> files
     \<Rightarrow> (string \<times> bool \<times> saved_state) option \<times> files" where
  "select_state env entry [] files = (None, files)"
| "select_state env entry ((path, migrate) # rest) files =
     (case files path of
        None \<Rightarrow> select_state env entry rest files
      | Some data \<Rightarrow>
          let state = decode_state (se_crc32 env) data;
              (usable, archive) = judge_state env entry state;
              files = (if archive then archive_invalid_state env path files else files)
          in if usable then (Some (path, migrate, state), files)
             else select_state env entry rest files)"

definition apply_saved_state :: "'p plugin_backend \<Rightarrow> plugin_entry \<Rightarrow> saved_state \<Rightarrow> 'p \<Rightarrow> 'p" where
  "apply_saved_state plugin entry state p =
     (let native = (\<lambda>chunk. case plugin of
            Vst2 inst \<Rightarrow> snd (v2_load_bank_data inst chunk p)
          | Vst3 inst \<Rightarrow> if \<not> native_vst3_state_is_disabled entry then snd (v3_set_state inst chunk p) else p
          | Remote \<Rightarrow> p)
      in case state of
        StateV2 document \<Rightarrow> restore_document plugin document entry p
      | StateChunk chunk \<Rightarrow> native chunk
      | StateRaw chunk \<Rightarrow> native chunk
      | StateParams values \<Rightarrow>
          (case plugin of
             Vst2 inst \<Rightarrow> apply_vst2_parameters inst values p
           | Vst3 inst \<Rightarrow> apply_legacy_indexed_parameters inst values p
           | Remote \<Rightarrow> p)
      | StateInvalid \<Rightarrow> p)"

definition write_atomically :: "state_env \<Rightarrow> string \<Rightarrow> bytes \<Rightarrow> files \<Rightarrow> bool \<times> files" where
  "write_atomically env path data files =
     (if se_can_write env path then (True, files(path \<mapsto> data)) else (False, files))"

definition load_vst_state ::
  "state_env \<Rightarrow> 'p plugin_backend \<Rightarrow> plugin_entry \<Rightarrow> files \<times> 'p \<Rightarrow> files \<times> 'p" where
  "load_vst_state env plugin entry = (\<lambda>(files, p).
     case state_path_for_plugin env entry of None \<Rightarrow> (files, p)
     | Some primary_path \<Rightarrow>
         (case select_state env entry (candidate_state_paths env files entry) files of
            (None, files) \<Rightarrow> (files, p)
          | (Some (path, migrate, state), files) \<Rightarrow>
              let p = apply_saved_state plugin entry state p;
                  migrated = (if migrate then capture_document plugin p entry else None)
              in (case migrated of None \<Rightarrow> (files, p)
                  | Some document \<Rightarrow>
                      (snd (write_atomically env primary_path
                              (encode_state_document (se_crc32 env) document) files), p))))"

text \<open>
  \<open>save_vst_state_checked\<close>: \<open>remote_save\<close> is the answer of a remote plugin, \<open>can_remove\<close> whether the
  sidecar file can be removed.
\<close>

definition remove_sidecar :: "state_env \<Rightarrow> (string \<Rightarrow> bool) \<Rightarrow> string \<Rightarrow> files \<Rightarrow> (string + unit) \<times> files" where
  "remove_sidecar env can_remove path files =
     (let sidecar = se_with_extension env path ''live.json''
      in if files sidecar = None then (Inr (), files)
         else if can_remove sidecar then (Inr (), files(sidecar := None))
         else (Inl ''remove failed'', files))"

definition save_vst_state_checked ::
  "state_env \<Rightarrow> (string + unit) \<Rightarrow> (string \<Rightarrow> bool) \<Rightarrow> 'p plugin_backend \<Rightarrow> plugin_entry \<Rightarrow> 'p \<Rightarrow> files
     \<Rightarrow> (string + unit) \<times> files" where
  "save_vst_state_checked env remote_save can_remove plugin entry p files =
     (case plugin of
        Remote \<Rightarrow>
          (case remote_save of Inl e \<Rightarrow> (Inl e, files)
           | Inr _ \<Rightarrow>
               (case state_path_for_plugin env entry of None \<Rightarrow> (Inr (), files)
                | Some path \<Rightarrow> remove_sidecar env can_remove path files))
      | _ \<Rightarrow>
          (case state_path_for_plugin env entry of None \<Rightarrow> (Inl ''VST state unavailable'', files)
           | Some state_path \<Rightarrow>
               (case capture_document plugin p entry of None \<Rightarrow> (Inl ''VST state unavailable'', files)
                | Some document \<Rightarrow>
                    (case write_atomically env state_path
                            (encode_state_document (se_crc32 env) document) files of
                       (False, files) \<Rightarrow> (Inl ''write failed'', files)
                     | (True, files) \<Rightarrow> remove_sidecar env can_remove state_path files))))"


section \<open>What is set\<close>

lemma clamp01_bounds:
  assumes "f32_is_finite v"
  shows "f32_is_finite (clamp01 v) \<and> 0 \<le> f32_key (clamp01 v) \<and> f32_key (clamp01 v) \<le> f32_key 0x3F800000"
proof -
  have keys: "f32_key 0 = 0" "f32_key 0x3F800000 = 0x3F800000" by code_simp+
  show ?thesis
    using assms
    by (auto simp: clamp01_def f32_clamp_def Let_def f32_lt_def f32_is_nan_def f32_is_finite_def keys)
qed

lemma f32_key_clamp01_idem: "f32_is_finite v \<Longrightarrow> clamp01 (clamp01 v) = clamp01 v"
  using clamp01_bounds [of v]
  by (auto simp: clamp01_def [of "clamp01 v"] f32_clamp_def Let_def f32_lt_def)

lemma map_filter_Some_set: "y \<in> set (List.map_filter f xs) \<longleftrightarrow> (\<exists>x \<in> set xs. f x = Some y)"
  by (force simp: List.map_filter_def)

lemma find_SomeD: "List.find P xs = Some x \<Longrightarrow> x \<in> set xs \<and> P x"
  by (auto simp: find_Some_iff)

lemma select_parameter_set: "select_parameter current byi s = Some found \<Longrightarrow> found \<in> set current"
  by (auto simp: select_parameter_def dest!: find_SomeD split: if_splits option.splits)

text \<open>
  Restoring parameters only ever sets parameters the plugin has, never a read-only one, and only to finite
  values between 0 and 1, whatever the saved state holds.
\<close>
theorem assignments_are_safe:
  assumes "(index, value) \<in> set (resolve_vst3_parameter_assignments (current_parameters inst p) saved by_index)"
  shows "\<exists>info. v3_parameter_info inst index p = Some info \<and> index < v3_parameter_count inst p
    \<and> pi_flags info AND VST3_PARAMETER_IS_READ_ONLY = 0
    \<and> f32_is_finite value \<and> 0 \<le> f32_key value \<and> f32_key value \<le> f32_key 0x3F800000"
proof -
  from assms obtain s info where sel: "select_parameter (current_parameters inst p) by_index s = Some (index, info)"
    and w: "pi_flags info AND VST3_PARAMETER_IS_READ_ONLY = 0" and v: "f32_is_finite (sp_value s)"
    and val: "value = clamp01 (sp_value s)"
    by (auto simp: resolve_vst3_parameter_assignments_def map_filter_Some_set split: option.splits if_splits)
  have "(index, info) \<in> set (current_parameters inst p)" using sel by (rule select_parameter_set)
  then have "v3_parameter_info inst index p = Some info" "index < v3_parameter_count inst p"
    by (auto simp: current_parameters_def map_filter_Some_set split: option.splits)
  with w clamp01_bounds [OF v] val show ?thesis by auto
qed


definition example_vst3 :: "(nat \<Rightarrow> f32) vst3_instance" where
  "example_vst3 =
     \<lparr>v3_parameter_count = (\<lambda>_. 3),
      v3_parameter_info = (\<lambda>i _. if i < 3 then Some \<lparr>pi_id = 10 + of_nat i, pi_flags = if i = 1 then 2 else 0,
                                                  pi_name = ''P''\<rparr> else None),
      v3_get_parameter = (\<lambda>i p. Some (p i)), v3_get_state = (\<lambda>_. None),
      v3_tracked_parameters = (\<lambda>_. Some []), v3_set_parameter = (\<lambda>i v p. (True, p(i := v))),
      v3_set_state = (\<lambda>_ p. (Inr (), p))\<rparr>"

definition example_saved :: "state_parameter list" where
  "example_saved =
     [\<lparr>sp_id = 11, sp_index = 1, sp_flags = 2, sp_name = ''P'', sp_value = 0\<rparr>,
      \<lparr>sp_id = 12, sp_index = 2, sp_flags = 0, sp_name = ''P'', sp_value = 0x40000000\<rparr>]"

lemma example_assignments:
  "resolve_vst3_parameter_assignments (current_parameters example_vst3 (\<lambda>_. 0)) example_saved False = [(2, 0x3F800000)]"
  by code_simp

theorem assignments_are_safe_witness:
  "\<exists>info. v3_parameter_info example_vst3 2 (\<lambda>_. 0) = Some info
    \<and> pi_flags info AND VST3_PARAMETER_IS_READ_ONLY = 0 \<and> f32_is_finite 0x3F800000"
  using assignments_are_safe [of 2 "0x3F800000" example_vst3 "\<lambda>_. 0" example_saved False]
  by (simp add: example_assignments) blast

text \<open>
  What was captured is what is assigned: a saved parameter goes to the parameter of the same id.
\<close>

lemma find_by_id:
  assumes "distinct (map (\<lambda>(_, info). pi_id info) current)" and "(index, info) \<in> set current"
  shows "List.find (\<lambda>(_, other). pi_id other = pi_id info) current = Some (index, info)"
  using assms by (induction current) force+

definition writable_values :: "'p vst3_instance \<Rightarrow> 'p \<Rightarrow> (nat \<times> f32) list" where
  "writable_values inst p =
     List.map_filter (\<lambda>index.
       case v3_parameter_info inst index p of None \<Rightarrow> None
       | Some info \<Rightarrow>
           if pi_flags info AND VST3_PARAMETER_IS_READ_ONLY \<noteq> 0 then None
           else case v3_get_parameter inst index p of None \<Rightarrow> None
           | Some value \<Rightarrow> if f32_is_finite value then Some (index, clamp01 value) else None)
       [0..<v3_parameter_count inst p]"

lemma map_filter_map_filter:
  "List.map_filter g (List.map_filter f xs) = List.map_filter (\<lambda>x. case f x of None \<Rightarrow> None | Some y \<Rightarrow> g y) xs"
  by (induction xs) (auto simp: List.map_filter_def split: option.splits)

lemma map_filter_eqI: "(\<And>x. x \<in> set xs \<Longrightarrow> f x = g x) \<Longrightarrow> List.map_filter f xs = List.map_filter g xs"
  by (induction xs) (simp_all add: List.map_filter_def)

lemma resolve_captured:
  assumes "distinct (map (\<lambda>(_, info). pi_id info) (current_parameters inst p))"
  shows "resolve_vst3_parameter_assignments (current_parameters inst p) (capture_all_vst3_parameters inst p) False
    = writable_values inst p"
  unfolding resolve_vst3_parameter_assignments_def capture_all_vst3_parameters_def map_filter_map_filter
    writable_values_def
proof (rule map_filter_eqI, goal_cases)
  case (1 index)
  then have "(index, info) \<in> set (current_parameters inst p)"
    if "v3_parameter_info inst index p = Some info" for info
    using that by (auto simp: current_parameters_def map_filter_Some_set split: option.splits intro!: bexI [of _ index])
  note found = find_by_id [OF assms this]
  show ?case
    by (auto simp: select_parameter_def found f32_key_clamp01_idem clamp01_bounds split: option.splits)
qed


text \<open>
  What a saved state holds, read off the plugin: the native state, with the policy that allows it, and the values. A plugin
  with the compatibility profile is asked for the parameters that were set, by their ids.
\<close>

definition native_state :: "'p vst3_instance \<Rightarrow> plugin_entry \<Rightarrow> 'p \<Rightarrow> bytes" where
  "native_state inst entry p =
     (if state_policy_for_entry entry = NativePreferred
      then case v3_get_state inst p of None \<Rightarrow> [] | Some state \<Rightarrow> state else [])"

definition tracked_values :: "'p vst3_instance \<Rightarrow> 'p \<Rightarrow> (nat \<times> f32) list" where
  "tracked_values inst p =
     List.map_filter (\<lambda>(ident, value).
       case List.find (\<lambda>(_, info). pi_id info = ident) (current_parameters inst p) of None \<Rightarrow> None
       | Some (index, info) \<Rightarrow>
           if pi_flags info AND VST3_PARAMETER_IS_READ_ONLY \<noteq> 0 \<or> \<not> f32_is_finite value then None
           else Some (index, clamp01 value))
       (case v3_tracked_parameters inst p of None \<Rightarrow> [] | Some tracked \<Rightarrow> tracked)"

definition saved_values :: "'p vst3_instance \<Rightarrow> plugin_entry \<Rightarrow> 'p \<Rightarrow> (nat \<times> f32) list" where
  "saved_values inst entry p =
     (if state_policy_for_entry entry = NativePreferred then writable_values inst p else tracked_values inst p)"

definition set_values :: "'p vst3_instance \<Rightarrow> (nat \<times> f32) list \<Rightarrow> 'p \<Rightarrow> 'p" where
  "set_values inst assignments p = foldl (\<lambda>p (index, value). snd (v3_set_parameter inst index value p)) p assignments"

lemma resolve_tracked:
  "resolve_vst3_parameter_assignments current (capture_tracked current tracked) False
    = List.map_filter (\<lambda>(ident, value).
       case List.find (\<lambda>(_, info). pi_id info = ident) current of None \<Rightarrow> None
       | Some (index, info) \<Rightarrow>
           if pi_flags info AND VST3_PARAMETER_IS_READ_ONLY \<noteq> 0 \<or> \<not> f32_is_finite value then None
           else Some (index, clamp01 value)) tracked"
  unfolding resolve_vst3_parameter_assignments_def capture_tracked_def map_filter_map_filter
proof (rule map_filter_eqI, goal_cases)
  case (1 entry)
  obtain ident v where e: "entry = (ident, v)" by fastforce
  show ?case
  proof (cases "List.find (\<lambda>(_, info). pi_id info = ident) current")
    case None
    then show ?thesis by (simp add: e)
  next
    case (Some found)
    obtain index info where found: "found = (index, info)" by fastforce
    show ?thesis
      using Some by (simp add: e found select_parameter_def f32_key_clamp01_idem clamp01_bounds)
  qed
qed

lemma entry_policies: "state_policy_for_entry entry \<in> {NativePreferred, TrackedParametersOnly}"
  by (simp add: state_policy_for_entry_def)

lemma capture_vst3:
  "state_policy_for_entry entry = NativePreferred \<Longrightarrow> capture_document (Vst3 inst) p entry = Some d \<Longrightarrow>
     d = (let e = entry_document entry\<lparr>sd_parameters := capture_all_vst3_parameters inst p\<rparr>
          in case v3_get_state inst p of None \<Rightarrow> e | Some state \<Rightarrow> e\<lparr>sd_vst3_state := state\<rparr>)"
  "state_policy_for_entry entry = TrackedParametersOnly \<Longrightarrow> capture_document (Vst3 inst) p entry = Some d \<Longrightarrow>
     d = (case v3_tracked_parameters inst p of None \<Rightarrow> entry_document entry
          | Some tracked \<Rightarrow> entry_document entry\<lparr>sd_parameters := capture_tracked (current_parameters inst p) tracked\<rparr>)"
  by (auto simp: capture_document_def entry_document_def Let_def split: if_splits option.splits)

lemma capture_tracked_none: "capture_tracked current [] = []"
  by (simp add: capture_tracked_def List.map_filter_def)

text \<open>The document that was captured, and what it assigns to a plugin with the same parameters.\<close>

lemma captured_document:
  assumes "capture_document (Vst3 inst) p entry = Some d"
    and "distinct (map (\<lambda>(_, info). pi_id info) (current_parameters inst p))"
  shows "sd_plugin_id d = pe_id entry" "sd_state_policy d = state_policy_for_entry entry"
    and "sd_vst3_state d = native_state inst entry p"
    and "resolve_vst3_parameter_assignments (current_parameters inst p) (sd_parameters d) False = saved_values inst entry p"
proof -
  have fields: "sd_plugin_id d = pe_id entry \<and> sd_state_policy d = state_policy_for_entry entry
      \<and> sd_vst3_state d = native_state inst entry p"
    and params: "sd_parameters d = (if state_policy_for_entry entry = NativePreferred
      then capture_all_vst3_parameters inst p
      else capture_tracked (current_parameters inst p) (case v3_tracked_parameters inst p of None \<Rightarrow> [] | Some t \<Rightarrow> t))"
    using capture_vst3 [OF _ assms(1)] entry_policies [of entry]
    by (auto simp: entry_document_def Let_def native_state_def capture_tracked_none split: option.split)
  from fields show "sd_plugin_id d = pe_id entry" "sd_state_policy d = state_policy_for_entry entry"
    "sd_vst3_state d = native_state inst entry p" by simp_all
  show "resolve_vst3_parameter_assignments (current_parameters inst p) (sd_parameters d) False = saved_values inst entry p"
    unfolding params
    by (simp add: saved_values_def tracked_values_def resolve_captured [OF assms(2)] resolve_tracked)
qed

lemma restored_document:
  assumes "sd_vst3_state d = native_state inst entry p" and "\<And>q. current_parameters inst q = current_parameters inst p"
    and "resolve_vst3_parameter_assignments (current_parameters inst p) (sd_parameters d) False = saved_values inst entry p"
  shows "restore_document (Vst3 inst) d entry q =
    (if native_state inst entry p = [] then set_values inst (saved_values inst entry p) q
     else case v3_set_state inst (native_state inst entry p) q of
       (Inr _, q') \<Rightarrow> q'
     | (Inl _, q') \<Rightarrow> set_values inst (saved_values inst entry p) q')"
proof -
  have "apply_vst3_parameters inst (sd_parameters d) q' = set_values inst (saved_values inst entry p) q'" for q'
    by (simp add: apply_vst3_parameters_def apply_vst3_parameters_internal_def assms(2) [of q'] assms(3) set_values_def)
  moreover have "state_policy_for_entry entry = NativePreferred" if "native_state inst entry p \<noteq> []"
    using that by (simp add: native_state_def split: if_splits)
  ultimately show ?thesis
    by (auto simp: restore_document_def assms(1) split: prod.splits sum.splits)
qed

definition example_entry :: plugin_entry where
  "example_entry =
     \<lparr>pe_id = ''vst-1'', pe_path = ''a.vst3'', pe_format = ''VST3'', pe_architecture = ''x64'',
      pe_class_uid = None, pe_file_modified_ms = None, pe_file_size = None\<rparr>"

lemma example_policy: "state_policy_for_entry example_entry = NativePreferred"
  by code_simp

lemma example_captured:
  "capture_all_vst3_parameters example_vst3 (\<lambda>_. 0)
    = [\<lparr>sp_id = 10, sp_index = 0, sp_flags = 0, sp_name = ''P'', sp_value = 0\<rparr>,
       \<lparr>sp_id = 12, sp_index = 2, sp_flags = 0, sp_name = ''P'', sp_value = 0\<rparr>]"
  by code_simp

text \<open>A plugin whose native state is disabled: its \<open>set_state\<close> does not matter.\<close>

lemma same_operations:
  "v3_parameter_count (inst\<lparr>v3_set_state := g\<rparr>) = v3_parameter_count inst"
  "v3_parameter_info (inst\<lparr>v3_set_state := g\<rparr>) = v3_parameter_info inst"
  "v3_get_parameter (inst\<lparr>v3_set_state := g\<rparr>) = v3_get_parameter inst"
  "v3_get_state (inst\<lparr>v3_set_state := g\<rparr>) = v3_get_state inst"
  "v3_tracked_parameters (inst\<lparr>v3_set_state := g\<rparr>) = v3_tracked_parameters inst"
  "v3_set_parameter (inst\<lparr>v3_set_state := g\<rparr>) = v3_set_parameter inst"
  by simp_all

lemma other_operations:
  "current_parameters (inst\<lparr>v3_set_state := g\<rparr>) p = current_parameters inst p"
  "capture_all_vst3_parameters (inst\<lparr>v3_set_state := g\<rparr>) p = capture_all_vst3_parameters inst p"
  unfolding current_parameters_def capture_all_vst3_parameters_def same_operations by (rule refl)+

lemma other_applications:
  "apply_vst3_parameters (inst\<lparr>v3_set_state := g\<rparr>) saved p = apply_vst3_parameters inst saved p"
  "apply_legacy_indexed_parameters (inst\<lparr>v3_set_state := g\<rparr>) values p
     = apply_legacy_indexed_parameters inst values p"
  unfolding apply_vst3_parameters_def apply_legacy_indexed_parameters_def apply_vst3_parameters_internal_def
    other_operations same_operations by (rule refl)+

lemma other_capture:
  "capture_document (Vst3 (inst\<lparr>v3_set_state := g\<rparr>)) p entry = capture_document (Vst3 inst) p entry"
  unfolding capture_document_def plugin_backend.case other_operations same_operations by (rule refl)

lemma apply_without_native:
  assumes "native_vst3_state_is_disabled entry" and "state_policy_for_entry entry = TrackedParametersOnly"
  shows "apply_saved_state (Vst3 (inst\<lparr>v3_set_state := g\<rparr>)) entry state p = apply_saved_state (Vst3 inst) entry state p"
  using assms
  by (cases state) (simp_all add: apply_saved_state_def restore_document_def other_applications)

lemma disabled_policy:
  assumes "native_vst3_state_is_disabled entry" and "eq_ignore_ascii_case (pe_format entry) ''VST3''"
  shows "state_policy_for_entry entry = TrackedParametersOnly"
  using assms by (simp add: state_policy_for_entry_def)

text \<open>
  A VST3 plugin with the compatibility profile never receives native state, from no file whatsoever:
  neither loading nor the diagnostic restore depends on what its \<open>set_state\<close> would do.
\<close>
theorem disabled_native_state_never_set:
  assumes "native_vst3_state_is_disabled entry" and "eq_ignore_ascii_case (pe_format entry) ''VST3''"
  shows "load_vst_state env (Vst3 (inst\<lparr>v3_set_state := g\<rparr>)) entry w = load_vst_state env (Vst3 inst) entry w
    \<and> restore_vst3_state_file_for_diagnostic crc32 legacy_id (inst\<lparr>v3_set_state := g\<rparr>) entry contents p
      = restore_vst3_state_file_for_diagnostic crc32 legacy_id inst entry contents p"
proof
  note policy = disabled_policy [OF assms]
  show "load_vst_state env (Vst3 (inst\<lparr>v3_set_state := g\<rparr>)) entry w = load_vst_state env (Vst3 inst) entry w"
    unfolding load_vst_state_def apply_without_native [OF assms(1) policy] other_capture by (rule refl)
  show "restore_vst3_state_file_for_diagnostic crc32 legacy_id (inst\<lparr>v3_set_state := g\<rparr>) entry contents p
      = restore_vst3_state_file_for_diagnostic crc32 legacy_id inst entry contents p"
    by (simp add: restore_vst3_state_file_for_diagnostic_def restore_legacy_native_def policy
        other_applications split: sum.split saved_state.split)
qed

theorem disabled_native_state_never_set_witness:
  "restore_vst3_state_file_for_diagnostic (\<lambda>_. 0) [] (example_vst3\<lparr>v3_set_state := \<lambda>_ p. (Inl [], \<lambda>_. 1)\<rparr>)
      (example_entry\<lparr>pe_path := ''C:Sforzando.vst3''\<rparr>) (Inr [1, 2, 3]) (\<lambda>_. 0)
    = restore_vst3_state_file_for_diagnostic (\<lambda>_. 0) [] example_vst3
      (example_entry\<lparr>pe_path := ''C:Sforzando.vst3''\<rparr>) (Inr [1, 2, 3]) (\<lambda>_. 0)"
proof -
  have "native_vst3_state_is_disabled (example_entry\<lparr>pe_path := ''C:Sforzando.vst3''\<rparr>)"
    "eq_ignore_ascii_case (pe_format (example_entry\<lparr>pe_path := ''C:Sforzando.vst3''\<rparr>)) ''VST3''" by code_simp+
  from disabled_native_state_never_set [OF this] show ?thesis by (rule conjunct2)
qed

section \<open>Which file is used, and what happens to the others\<close>

definition usable :: "state_env \<Rightarrow> plugin_entry \<Rightarrow> bytes \<Rightarrow> bool" where
  "usable env entry data = fst (judge_state env entry (decode_state (se_crc32 env) data))"

text \<open>
  The archive names of the candidates are new: no candidate, no file that exists, and no two alike.
\<close>

definition archive_fresh :: "state_env \<Rightarrow> string list \<Rightarrow> files \<Rightarrow> bool" where
  "archive_fresh env paths files \<longleftrightarrow>
     distinct (map (archived_path env) paths)
     \<and> list_all (\<lambda>c. files (archived_path env c) = None \<and> archived_path env c \<notin> set paths) paths"

lemma archive_keeps:
  assumes "files path = Some data" and "files (archived_path env q) = None"
  shows "archive_invalid_state env q files path = Some data
    \<or> path = q \<and> archive_invalid_state env q files (archived_path env q) = Some data"
  using assms by (auto simp: archive_invalid_state_def Let_def)

lemma archive_other:
  "c \<noteq> q \<Longrightarrow> c \<noteq> archived_path env q \<Longrightarrow> archive_invalid_state env q files c = files c"
  by (simp add: archive_invalid_state_def Let_def)

lemma archive_step_fresh:
  assumes "archive_fresh env (q # rest) files" and "distinct (q # rest)"
  shows "archive_fresh env rest (archive_invalid_state env q files)"
    and "c \<in> set rest \<Longrightarrow> archive_invalid_state env q files c = files c"
proof -
  have other: "archived_path env c \<noteq> archived_path env q" "archived_path env c \<noteq> q"
    "c \<noteq> archived_path env q" if "c \<in> set rest" for c
    using assms that by (auto simp: archive_fresh_def list_all_iff image_iff)
  show "archive_fresh env rest (archive_invalid_state env q files)"
    using assms other by (auto simp: archive_fresh_def list_all_iff archive_other)
  show "archive_invalid_state env q files c = files c" if "c \<in> set rest"
    by (rule archive_other) (use assms(2) other(3) [OF that] that in auto)
qed

lemma usable_not_archived: "fst (judge_state env entry st) \<Longrightarrow> \<not> snd (judge_state env entry st)"
  by (auto simp: judge_state_def split: saved_state.splits if_splits)

text \<open>The scan as a search, and the files it leaves.\<close>

definition usable_file :: "state_env \<Rightarrow> plugin_entry \<Rightarrow> files \<Rightarrow> string \<Rightarrow> bool" where
  "usable_file env entry files c = (case files c of None \<Rightarrow> False | Some data \<Rightarrow> usable env entry data)"

lemma select_state_step:
  obtains (missing) "files c = None"
      "select_state env entry ((c, m) # rest) files = select_state env entry rest files"
  | (used) data where "files c = Some data" "usable env entry data"
      "select_state env entry ((c, m) # rest) files = (Some (c, m, decode_state (se_crc32 env) data), files)"
  | (left) data where "files c = Some data" "\<not> usable env entry data"
      "select_state env entry ((c, m) # rest) files = select_state env entry rest files"
  | (archived) data where "files c = Some data" "\<not> usable env entry data"
      "select_state env entry ((c, m) # rest) files
         = select_state env entry rest (archive_invalid_state env c files)"
proof (cases "files c")
  case None
  then show ?thesis using missing by simp
next
  case (Some data)
  obtain u a where j: "judge_state env entry (decode_state (se_crc32 env) data) = (u, a)" by fastforce
  then have "u \<Longrightarrow> \<not> a" using usable_not_archived [of env entry "decode_state (se_crc32 env) data"] by simp
  then show ?thesis
    using used [OF Some] left [OF Some] archived [OF Some] j
    by (cases u; cases a) (simp_all add: usable_def Some)
qed

lemma select_state_first:
  assumes "distinct (map fst cands)" and "archive_fresh env (map fst cands) files"
  shows "fst (select_state env entry cands files)
    = map_option (\<lambda>(c, m). (c, m, decode_state (se_crc32 env) (the (files c))))
        (List.find (\<lambda>(c, _). usable_file env entry files c) cands)"
  using assms
proof (induction cands arbitrary: files)
  case (Cons cm rest)
  obtain c m where cm: "cm = (c, m)" by fastforce
  have fresh: "archive_fresh env (c # map fst rest) files" "distinct (c # map fst rest)"
    using Cons.prems by (simp_all add: cm)
  then have rest: "archive_fresh env (map fst rest) files" "distinct (map fst rest)"
    by (auto simp: archive_fresh_def list_all_iff)
  show ?case
  proof (cases rule: select_state_step [of files c env entry m rest])
    case (archived data)
    note step = archive_step_fresh [OF fresh]
    have same: "archive_invalid_state env c files d = files d" if "(d, k) \<in> set rest" for d k
      using that by (intro step(2)) force
    then have "List.find (\<lambda>(c', _). usable_file env entry (archive_invalid_state env c files) c') rest
        = List.find (\<lambda>(c', _). usable_file env entry files c') rest"
      by (intro find_cong) (auto simp: usable_file_def)
    with archived Cons.IH [OF rest(2) step(1)] same show ?thesis
      by (auto simp: cm usable_file_def map_option_case split: option.splits dest!: find_SomeD)
  qed (use Cons.IH [OF rest(2,1)] in \<open>simp_all add: cm usable_file_def\<close>)
qed simp

lemma select_state_keeps:
  assumes "distinct (map fst cands)" and "archive_fresh env (map fst cands) files" and "files path = Some data"
  shows "snd (select_state env entry cands files) path = Some data
    \<or> path \<in> fst ` set cands \<and> snd (select_state env entry cands files) (archived_path env path) = Some data"
  using assms
proof (induction cands arbitrary: files path)
  case (Cons cm rest)
  obtain c m where cm: "cm = (c, m)" by fastforce
  have fresh: "archive_fresh env (c # map fst rest) files" "distinct (c # map fst rest)"
    using Cons.prems by (simp_all add: cm)
  then have rest: "archive_fresh env (map fst rest) files" "distinct (map fst rest)"
    by (auto simp: archive_fresh_def list_all_iff)
  show ?case
  proof (cases rule: select_state_step [of files c env entry m rest])
    case (archived data')
    let ?files = "archive_invalid_state env c files"
    note IH = Cons.IH [OF rest(2) archive_step_fresh(1) [OF fresh]]
    have free: "files (archived_path env c) = None" "archived_path env c \<notin> fst ` set rest"
      using fresh(1) by (auto simp: archive_fresh_def)
    consider "?files path = Some data" | "path = c" "?files (archived_path env c) = Some data"
      using archive_keeps [OF Cons.prems(3) free(1)] by auto
    then show ?thesis
    proof cases
      case 1
      then show ?thesis using IH [of path] archived by (auto simp: cm)
    next
      case 2
      then show ?thesis using IH [OF 2(2)] free archived by (auto simp: cm)
    qed
  qed (use Cons.IH [OF rest(2,1) Cons.prems(3)] Cons.prems(3) in \<open>auto simp: cm\<close>)
qed simp


text \<open>The candidates: the current path first, every path once.\<close>

lemma fold_add_candidate:
  assumes "distinct (map fst acc)"
  shows "distinct (map fst (foldl add_candidate acc cs))
    \<and> (\<exists>more. foldl add_candidate acc cs = acc @ map (\<lambda>c. (c, True)) more \<and> set more \<subseteq> set cs
         \<and> fst ` set acc \<union> set cs = fst ` set acc \<union> set more)"
  using assms
proof (induction cs arbitrary: acc)
  case (Cons c cs)
  show ?case
  proof (cases "c \<in> fst ` set acc")
    case True
    then have "add_candidate acc c = acc" by (force simp: add_candidate_def)
    with Cons.IH [OF Cons.prems] True show ?thesis by auto
  next
    case False
    then have step: "add_candidate acc c = acc @ [(c, True)]" by (force simp: add_candidate_def)
    have "distinct (map fst (acc @ [(c, True)]))" using Cons.prems False by simp
    from Cons.IH [OF this] obtain more where more: "distinct (map fst (foldl add_candidate (acc @ [(c, True)]) cs))"
      "foldl add_candidate (acc @ [(c, True)]) cs = acc @ map (\<lambda>c. (c, True)) (c # more)"
      "set more \<subseteq> set cs" "insert c (fst ` set acc \<union> set cs) = insert c (fst ` set acc \<union> set more)"
      by auto
    show ?thesis
      by (intro conjI exI [of _ "c # more"]) (use more in \<open>auto simp: step\<close>)
  qed
qed auto

lemma candidate_state_paths_shape:
  assumes "state_path_for_plugin env entry = Some primary"
  obtains more where
    "candidate_state_paths env files entry = (primary, False) # map (\<lambda>c. (c, True)) more"
    "distinct (primary # more)" "list_all (\<lambda>c. files c \<noteq> None) more"
proof -
  define historical where "historical =
    remdups_adj (sort_key (\<lambda>c. age_key (se_modified env c)) (filter (\<lambda>c. c \<noteq> primary \<and> files c \<noteq> None)
      (push_option (old_state_path env (pe_path entry) (pe_class_uid entry))
       @ push_option (old_state_path env (pe_path entry) None)
       @ push_option (legacy_state_path_for_plugin env (pe_path entry))
       @ directory_candidates env (pe_path entry))))"
  have hist: "list_all (\<lambda>c. files c \<noteq> None) historical"
    by (auto simp: historical_def list_all_iff)
  have eq: "candidate_state_paths env files entry = foldl add_candidate [(primary, False)] historical"
    unfolding candidate_state_paths_def assms historical_def Let_def option.case ..
  from fold_add_candidate [of "[(primary, False)]" historical]
  obtain more where "distinct (map fst (candidate_state_paths env files entry))"
    "candidate_state_paths env files entry = (primary, False) # map (\<lambda>c. (c, True)) more" "set more \<subseteq> set historical"
    by (auto simp: eq)
  then show ?thesis using that [of more] hist by (auto simp: list_all_iff comp_def)
qed

text \<open>
  Loading restores the plugin from one file at most, the first usable one: the current file when it is
  intact, not of another plugin and not a snapshot known to be unsafe, else the next of the historical files
  in their order; with no usable file the plugin is left as it is.
\<close>
theorem load_uses_first_usable:
  assumes "state_path_for_plugin env entry = Some primary"
    and "archive_fresh env (map fst (candidate_state_paths env files entry)) files"
  shows "(\<exists>more. candidate_state_paths env files entry = (primary, False) # map (\<lambda>c. (c, True)) more
        \<and> distinct (primary # more) \<and> list_all (\<lambda>c. files c \<noteq> None) more)
    \<and> snd (load_vst_state env plugin entry (files, p))
      = (case List.find (\<lambda>(c, _). usable_file env entry files c) (candidate_state_paths env files entry) of
           None \<Rightarrow> p
         | Some (c, _) \<Rightarrow> apply_saved_state plugin entry (decode_state (se_crc32 env) (the (files c))) p)"
proof -
  obtain more where shape: "candidate_state_paths env files entry = (primary, False) # map (\<lambda>c. (c, True)) more"
    "distinct (primary # more)" "list_all (\<lambda>c. files c \<noteq> None) more"
    using candidate_state_paths_shape [OF assms(1)] by blast
  then have "distinct (map fst (candidate_state_paths env files entry))" by (simp add: comp_def)
  note first = select_state_first [OF this assms(2), of entry]
  have "snd (load_vst_state env plugin entry (files, p))
      = (case fst (select_state env entry (candidate_state_paths env files entry) files) of
           None \<Rightarrow> p | Some (_, _, state) \<Rightarrow> apply_saved_state plugin entry state p)"
    by (simp add: load_vst_state_def assms(1) Let_def split: option.split prod.split)
  also have "\<dots> = (case List.find (\<lambda>(c, _). usable_file env entry files c) (candidate_state_paths env files entry) of
           None \<Rightarrow> p
         | Some (c, _) \<Rightarrow> apply_saved_state plugin entry (decode_state (se_crc32 env) (the (files c))) p)"
    unfolding first by (simp split: option.split prod.split)
  finally show ?thesis using shape by blast
qed

definition example_env :: state_env where
  "example_env =
     \<lparr>se_crc32 = (\<lambda>_. 7), se_lowercase = (\<lambda>s. s), se_canonicalize = (\<lambda>_. None), se_file_name = (\<lambda>p. Some p),
      se_extension = (\<lambda>_. None), se_with_extension = (\<lambda>p e. p @ e), se_join = (\<lambda>_ _. ''s''),
      se_state_dir = Some ''d'', se_read_dir = None, se_modified = (\<lambda>_. None), se_timestamp = ''1'',
      se_can_rename = (\<lambda>_. True), se_can_write = (\<lambda>_. True), se_legacy_path_plugin_id = (\<lambda>_. [])\<rparr>"

lemma example_env_candidates:
  "state_path_for_plugin example_env example_entry = Some ''s''"
  "candidate_state_paths example_env files example_entry = [(''s'', False)]"
proof -
  show primary: "state_path_for_plugin example_env example_entry = Some ''s''"
    by (simp add: state_path_for_plugin_def state_file_def example_env_def Let_def)
  show "candidate_state_paths example_env files example_entry = [(''s'', False)]"
    unfolding candidate_state_paths_def primary
    by (simp add: old_state_path_def legacy_state_path_for_plugin_def directory_candidates_def state_file_def
        push_option_def example_env_def Let_def)
qed

lemma example_fresh: "archive_fresh example_env [''s''] [''s'' \<mapsto> [1, 2]]"
  by (simp add: archive_fresh_def archived_path_def example_env_def)

lemma example_usable: "usable example_env example_entry [1, 2]"
  by (simp add: usable_def judge_state_def decode_state_def decode_document_def)

theorem load_uses_first_usable_witness:
  "snd (load_vst_state example_env (Vst3 example_vst3) example_entry ([''s'' \<mapsto> [1, 2]], \<lambda>_. 5))
    = apply_saved_state (Vst3 example_vst3) example_entry (StateRaw [1, 2]) (\<lambda>_. 5)"
  using load_uses_first_usable [OF example_env_candidates(1), of "[''s'' \<mapsto> [1, 2]]", unfolded example_env_candidates(2),
      simplified, OF example_fresh, of "Vst3 example_vst3" "\<lambda>_. 5"] example_usable
  by (simp add: usable_file_def decode_state_def decode_document_def)

text \<open>A name that is neither a candidate nor the archive of one is not touched by the scan.\<close>

lemma select_state_other:
  assumes "c \<notin> fst ` set cands" and "c \<notin> archived_path env ` fst ` set cands"
  shows "snd (select_state env entry cands files) c = files c"
  using assms
proof (induction cands arbitrary: files)
  case (Cons qm rest)
  obtain q m where qm: "qm = (q, m)" by fastforce
  show ?case
    by (cases rule: select_state_step [of files q env entry m rest])
      (use Cons archive_other [of c q] in \<open>auto simp: qm\<close>)
qed simp

lemma current_file_left:
  assumes "archive_fresh env (primary # map fst rest) files" and "distinct (primary # map fst rest)"
    and "files primary = Some data" and "\<not> usable env entry data"
    and left: "snd (select_state env entry ((primary, m) # rest) files) primary \<noteq> None"
  shows "\<not> snd (judge_state env entry (decode_state (se_crc32 env) data)) \<or> \<not> se_can_rename env primary"
proof (rule ccontr)
  assume moved: "\<not> ?thesis"
  then have "judge_state env entry (decode_state (se_crc32 env) data) = (False, True)"
    using assms(4) by (metis prod.collapse usable_def)
  then have "select_state env entry ((primary, m) # rest) files
      = select_state env entry rest (archive_invalid_state env primary files)" by (simp add: assms(3))
  moreover have "archive_invalid_state env primary files primary = None"
    using assms(1) moved by (auto simp: archive_invalid_state_def archive_fresh_def)
  moreover have "primary \<notin> fst ` set rest" "primary \<notin> archived_path env ` fst ` set rest"
    using assms(1,2) by (auto simp: archive_fresh_def list_all_iff)
  ultimately show False using left select_state_other [of primary rest env entry] by simp
qed



section \<open>What comes back\<close>

text \<open>
  C31: Saving a VST3 plugin and loading it again brings its state back. The file that was written is the one that is
  read, nothing else is written, and with the native state captured and accepted by the plugin it is the native state that is
  set. Without one, or when the plugin refuses it, every saved value is set to the parameter it was read from, in order, and nothing else:
  the writable parameters with a finite value, each under its own index; for a plugin with the compatibility profile, whose native
  state is never captured or set, the values of its tracked parameters, each at the parameter with its id. The
  parameter ids are distinct, the list of parameters does not change, and the document fits the limits of the reader.
\<close>
theorem saved_parameters_come_back:
  assumes "capture_document (Vst3 inst) p entry = Some d" and "document_fits d" and "length (encode_body d) \<le> MAX_STATE_BYTES"
    and "distinct (map (\<lambda>(_, info). pi_id info) (current_parameters inst p))"
    and stable: "\<And>q. current_parameters inst q = current_parameters inst p"
    and "state_path_for_plugin env entry = Some path" and "se_with_extension env path ''live.json'' \<noteq> path"
    and save: "save_vst_state_checked env remote_save can_remove (Vst3 inst) entry p files = (Inr (), files')"
  shows "load_vst_state env (Vst3 inst) entry (files', q) =
    (files',
     if native_state inst entry p = [] then set_values inst (saved_values inst entry p) q
     else case v3_set_state inst (native_state inst entry p) q of
       (Inr _, q') \<Rightarrow> q'
     | (Inl _, q') \<Rightarrow> set_values inst (saved_values inst entry p) q')"
proof -
  let ?d = "d\<lparr>sd_state_version := STATE_VERSION_V3\<rparr>"
  note captured = captured_document [OF assms(1,4)]
  have written: "files' path = Some (encode_state_document (se_crc32 env) d)"
    using save assms(1,6,7)
    by (auto simp: save_vst_state_checked_def write_atomically_def remove_sidecar_def Let_def split: if_splits)
  have decoded: "decode_state (se_crc32 env) (encode_state_document (se_crc32 env) d) = StateV2 ?d"
    using assms(2,3) by (simp add: decode_state_def decode_encoded)
  have "judge_state env entry (StateV2 ?d) = (True, False)"
    using captured(1,2) entry_policies [of entry]
    by (auto simp: judge_state_def state_document_matches_entry_def unsafe_legacy_parameter_snapshot_def)
  moreover obtain more where "candidate_state_paths env files' entry = (path, False) # map (\<lambda>c. (c, True)) more"
    using candidate_state_paths_shape [OF assms(6)] by blast
  ultimately have "load_vst_state env (Vst3 inst) entry (files', q) = (files', restore_document (Vst3 inst) ?d entry q)"
    by (simp add: load_vst_state_def assms(6) written decoded apply_saved_state_def)
  moreover have "sd_vst3_state ?d = native_state inst entry p"
    "resolve_vst3_parameter_assignments (current_parameters inst p) (sd_parameters ?d) False = saved_values inst entry p"
    using captured(3,4) by simp_all
  ultimately show ?thesis using restored_document [OF _ stable] by simp
qed

text \<open>The example plugin has no native state: the two writable parameters are set.\<close>

theorem saved_parameters_come_back_witness:
  "load_vst_state example_env (Vst3 example_vst3) example_entry
     (snd (save_vst_state_checked example_env (Inr ()) (\<lambda>_. True) (Vst3 example_vst3) example_entry (\<lambda>_. 0) Map.empty), \<lambda>_. 5)
    = (snd (save_vst_state_checked example_env (Inr ()) (\<lambda>_. True) (Vst3 example_vst3) example_entry (\<lambda>_. 0) Map.empty),
       (\<lambda>_. 5)(0 := 0, 2 := 0))"
proof -
  obtain d where d: "capture_document (Vst3 example_vst3) (\<lambda>_. 0) example_entry = Some d"
    and d_eq: "d = entry_document example_entry\<lparr>sd_parameters := capture_all_vst3_parameters example_vst3 (\<lambda>_. 0)\<rparr>"
    by (simp add: capture_document_def example_policy entry_document_def example_captured)
      (simp add: example_vst3_def)
  have ids: "distinct (map (\<lambda>(_, info). pi_id info) (current_parameters example_vst3 (\<lambda>_. 0)))"
    and "writable_values example_vst3 (\<lambda>_. 0) = [(0, 0), (2, 0)]" by code_simp+
  then have held: "saved_values example_vst3 example_entry (\<lambda>_. 0) = [(0, 0), (2, 0)]"
    "native_state example_vst3 example_entry (\<lambda>_. 0) = []"
    by (simp_all add: saved_values_def native_state_def example_policy example_vst3_def)
  have "utf8_valid (as_bytes ''vst-1'')" "utf8_valid (as_bytes ''P'')" "utf8_valid (as_bytes [])" "f32_is_finite 0"
    by code_simp+
  then have fits: "document_fits d"
    by (simp add: document_fits_def d_eq entry_document_def example_captured text_fits_def parameter_fits_def
        example_entry_def MAX_TEXT_BYTES_def MAX_STATE_BYTES_def MAX_PARAMETERS_def)
  have small: "length (encode_body d) \<le> MAX_STATE_BYTES"
    by (simp add: encode_body_eq body_bytes_def d_eq entry_document_def example_captured example_entry_def
        blob_bytes_eq push_parameter_bytes MAX_STATE_BYTES_def)
  have stable: "current_parameters example_vst3 q = current_parameters example_vst3 (\<lambda>_. 0)" for q
    by (simp add: current_parameters_def example_vst3_def)
  have other: "se_with_extension example_env ''s'' ''live.json'' \<noteq> ''s''" by (simp add: example_env_def)
  obtain files' where save: "save_vst_state_checked example_env (Inr ()) (\<lambda>_. True) (Vst3 example_vst3) example_entry
      (\<lambda>_. 0) Map.empty = (Inr (), files')"
    by (simp add: save_vst_state_checked_def example_env_candidates(1) d write_atomically_def)
      (simp add: example_env_def remove_sidecar_def Let_def)
  have "set_values example_vst3 [(0, 0), (2, 0)] (\<lambda>_. 5) = (\<lambda>_. 5)(0 := 0, 2 := 0)"
    by (simp add: set_values_def example_vst3_def)
  then show ?thesis
    using saved_parameters_come_back [OF d fits small ids stable example_env_candidates(1) other save] held
    by (simp add: save)
qed

end
