(* ===== verification/Rtp_Output.thy ===== *)
theory Rtp_Output
  imports Frame_Handler
begin

text \<open>
  The task that writes to an RTP-MIDI session (\<open>run\<close>, \<open>send_midi_panic\<close> and \<open>send_bytes\<close> of
  \<open>rtp/rtp_output.rs\<close>). The session and the parser of the vendored crate \<open>rtpmidi\<close> are parameters. A
  history of what was handed to the session is kept beside the task's own state.
\<close>

section \<open>Messages\<close>

text \<open>The commands of the crate the task builds itself; any other command is \<open>RtpMessage\<close>.\<close>

datatype rtp_command = SysEx bytes | SysExSegment u8 bytes u8 | RtpMessage bytes

fun chunks :: "nat \<Rightarrow> bytes \<Rightarrow> bytes list" where
  "chunks n xs = (if xs = [] \<or> n = 0 then [] else take n xs # chunks n (drop n xs))"

declare chunks.simps [simp del]

definition div_ceil :: "nat \<Rightarrow> nat \<Rightarrow> nat" where
  "div_ceil a b = (a + b - 1) div b"

definition sysex_fragments :: "bytes \<Rightarrow> rtp_command list" where
  "sysex_fragments payload =
     (let count = div_ceil (length payload) 1024
      in map (\<lambda>(index, data).
             SysExSegment (if index = 0 then 0xF0 else 0xF7) data (if index + 1 = count then 0xF7 else 0xF0))
           (enumerate 0 (chunks 1024 payload)))"

text \<open>A session is a state with a fallible \<open>send_midi\<close>; \<open>?\<close> stops at the first error.\<close>

fun send_commands ::
  "(rtp_command \<Rightarrow> 'w \<Rightarrow> (string + unit) \<times> 'w) \<Rightarrow> rtp_command list \<Rightarrow> 'w \<Rightarrow> (string + unit) \<times> 'w" where
  "send_commands send_midi [] w = (Inr (), w)"
| "send_commands send_midi (c # cs) w =
     (case send_midi c w of (Inl e, w) \<Rightarrow> (Inl e, w) | (Inr _, w) \<Rightarrow> send_commands send_midi cs w)"

definition send_bytes ::
  "(bytes \<Rightarrow> string + rtp_command) \<Rightarrow> (rtp_command \<Rightarrow> 'w \<Rightarrow> (string + unit) \<times> 'w) \<Rightarrow> bytes \<Rightarrow> 'w
     \<Rightarrow> (string + unit) \<times> 'w" where
  "send_bytes parse_complete send_midi bytes w =
     (case parse_complete bytes of
        Inl e \<Rightarrow> (Inl e, w)
      | Inr (SysEx payload) \<Rightarrow>
          if length payload > 65536 then (Inl ''SysEx exceeds 64 KiB payload limit'', w)
          else if length payload > 1024 then send_commands send_midi (sysex_fragments payload) w
          else send_midi (SysEx payload) w
      | Inr command \<Rightarrow> send_midi command w)"

text \<open>The panic: four controllers on each of the sixteen channels, as MIDI bytes.\<close>

definition panic_commands :: "bytes list" where
  "panic_commands =
     map (\<lambda>index. [0xB0 OR of_nat (index div 4), [64, 120, 121, 123] ! (index mod 4), 0]) [0..<64]"

section \<open>The task\<close>

datatype rtp_event = PanicSent bool | FrameSent outgoing_frame bool

record rtp_task =
  rt_generation :: u64
  rt_route_generation :: u64
  rt_pending :: "outgoing_frame option"
  rt_used :: bool
  rt_reset_pending :: bool
  rt_history :: "rtp_event list"

record rtp_shared =
  rs_generation :: u64
  rs_input :: "outgoing_frame async_queue"

abbreviation rs_route :: "rtp_shared \<Rightarrow> u64" where
  "rs_route sh \<equiv> rec_generation (aq_recovery (rs_input sh))"

text \<open>
  One turn: what the other threads do to the shared state before each reading, whether a panic and a frame
  got through within their 100 ms, which branch of \<open>select!\<close> is ready first, whether all senders are gone.
\<close>

datatype rtp_wake = WakeStop | WakeTick | WakeFrame

record rtp_turn =
  tu_moves :: "nat \<Rightarrow> rtp_shared \<Rightarrow> rtp_shared"
  tu_panic_ok :: bool
  tu_wake :: rtp_wake
  tu_senders_gone :: bool
  tu_frame_ok :: bool
  tu_frequency :: u64
  tu_qpc :: u64

definition record_event :: "rtp_event \<Rightarrow> rtp_task \<Rightarrow> rtp_task" where
  "record_event e t = t\<lparr>rt_history := rt_history t @ [e]\<rparr>"

definition rtp_generations :: "rtp_turn \<Rightarrow> rtp_task \<Rightarrow> rtp_shared \<Rightarrow> rtp_task \<times> rtp_shared" where
  "rtp_generations tu t sh =
     (let sh = tu_moves tu 0 sh in
      if rt_generation t \<noteq> rs_generation sh \<or> rt_route_generation t \<noteq> rs_route sh then
        let sh = tu_moves tu 1 sh;
            t = t\<lparr>rt_route_generation := rs_route sh\<rparr>;
            sh = tu_moves tu 2 sh
        in (t\<lparr>rt_generation := rs_generation sh, rt_reset_pending := rt_reset_pending t \<or> rt_used t\<rparr>, sh)
      else (t, sh))"

text \<open>A received frame. The first result of this and of the next definition says whether the loop goes on.\<close>

definition rtp_frame :: "rtp_turn \<Rightarrow> outgoing_frame \<Rightarrow> rtp_task \<Rightarrow> rtp_shared \<Rightarrow> rtp_task \<times> rtp_shared" where
  "rtp_frame tu frame t sh =
     (let sh = tu_moves tu 3 sh in
      case generation_action (og_generation frame, og_route_generation frame)
             (rt_generation t, rt_route_generation t) (rs_generation sh, rs_route sh) of
        Discard \<Rightarrow> (t, sh)
      | Defer \<Rightarrow> (t\<lparr>rt_pending := Some frame\<rparr>, sh)
      | Ready \<Rightarrow>
          let t = record_event (FrameSent frame (tu_frame_ok tu)) (t\<lparr>rt_used := True\<rparr>);
              sh = tu_moves tu 4 sh
          in (t, if \<not> tu_frame_ok tu then sh\<lparr>rs_input := reset_sender (rs_input sh)\<rparr> else sh))"

definition rtp_select :: "rtp_turn \<Rightarrow> rtp_task \<Rightarrow> rtp_shared \<Rightarrow> bool \<times> rtp_task \<times> rtp_shared" where
  "rtp_select tu t sh =
     (case tu_wake tu of
        WakeStop \<Rightarrow> (False, t, sh)
      | WakeTick \<Rightarrow> (True, t, sh)
      | WakeFrame \<Rightarrow>
          (case rt_pending t of
             Some frame \<Rightarrow> (True, rtp_frame tu frame (t\<lparr>rt_pending := None\<rparr>) sh)
           | None \<Rightarrow>
               (case async_try_recv (tu_frequency tu) (tu_qpc tu) (rs_input sh) of
                  (Some frame, input) \<Rightarrow> (True, rtp_frame tu frame t (sh\<lparr>rs_input := input\<rparr>))
                | (None, _) \<Rightarrow> (\<not> tu_senders_gone tu, t, sh))))"

definition rtp_turn_step :: "rtp_turn \<Rightarrow> rtp_task \<Rightarrow> rtp_shared \<Rightarrow> bool \<times> rtp_task \<times> rtp_shared" where
  "rtp_turn_step tu t sh =
     (let (t, sh) = rtp_generations tu t sh in
      if rt_reset_pending t then
        if tu_panic_ok tu then
          rtp_select tu (record_event (PanicSent True) (t\<lparr>rt_used := False, rt_reset_pending := False\<rparr>)) sh
        else (tu_wake tu \<noteq> WakeStop, record_event (PanicSent False) t, sh)
      else rtp_select tu t sh)"

fun rtp_turns :: "rtp_turn list \<Rightarrow> rtp_task \<Rightarrow> rtp_shared \<Rightarrow> bool \<times> rtp_task \<times> rtp_shared" where
  "rtp_turns [] t sh = (True, t, sh)"
| "rtp_turns (tu # tus) t sh =
     (case rtp_turn_step tu t sh of
        (False, t, sh) \<Rightarrow> (False, t, sh)
      | (True, t, sh) \<Rightarrow> rtp_turns tus t sh)"

definition rtp_start :: "rtp_shared \<Rightarrow> rtp_task" where
  "rtp_start sh =
     \<lparr>rt_generation = rs_generation sh, rt_route_generation = rs_route sh, rt_pending = None,
      rt_used = False, rt_reset_pending = False, rt_history = []\<rparr>"

text \<open>\<open>run\<close>: when the loop ends, a last panic if anything was sent; \<open>None\<close> while it is still looping.\<close>

definition rtp_run :: "rtp_turn list \<Rightarrow> bool \<Rightarrow> rtp_shared \<Rightarrow> rtp_event list option" where
  "rtp_run turns last_panic_ok sh =
     (case rtp_turns turns (rtp_start sh) sh of
        (True, _) \<Rightarrow> None
      | (False, t, _) \<Rightarrow>
          Some (rt_history (if rt_used t then record_event (PanicSent last_panic_ok) t else t)))"


section \<open>What the remote side has to hold\<close>

abbreviation frame_generations :: "outgoing_frame \<Rightarrow> u64 \<times> u64" where
  "frame_generations f \<equiv> (og_generation f, og_route_generation f)"

text \<open>The frames sent since the last panic that got through, with their success.\<close>

definition open_step :: "(outgoing_frame \<times> bool) list \<Rightarrow> rtp_event \<Rightarrow> (outgoing_frame \<times> bool) list" where
  "open_step acc e =
     (case e of PanicSent ok \<Rightarrow> if ok then [] else acc | FrameSent f ok \<Rightarrow> acc @ [(f, ok)])"

definition open_frames :: "rtp_event list \<Rightarrow> (outgoing_frame \<times> bool) list" where
  "open_frames h = foldl open_step [] h"

lemma open_frames_snoc [simp]:
  "open_frames [] = []"
  "open_frames (h @ [PanicSent ok]) = (if ok then [] else open_frames h)"
  "open_frames (h @ [FrameSent f ok]) = open_frames h @ [(f, ok)]"
  by (simp_all add: open_frames_def open_step_def)

lemma open_frames_survive:
  "PanicSent True \<notin> set mid \<Longrightarrow> set (open_frames h) \<subseteq> set (open_frames (h @ mid))"
proof (induction mid rule: rev_induct)
  case (snoc e mid)
  then show ?case by (cases e) (auto simp flip: append_assoc)
qed simp

definition separated :: "rtp_event list \<Rightarrow> bool" where
  "separated h \<longleftrightarrow> (\<forall>pre f ok post. h = pre @ FrameSent f ok # post
     \<longrightarrow> (\<forall>(g, k) \<in> set (open_frames pre). frame_generations g = frame_generations f \<and> k))"

lemma separated_Nil [simp]: "separated []"
  by (simp add: separated_def)

lemma separated_snoc:
  assumes "separated h"
    and "\<And>f ok. e = FrameSent f ok \<Longrightarrow>
      \<forall>(g, k) \<in> set (open_frames h). frame_generations g = frame_generations f \<and> k"
  shows "separated (h @ [e])"
proof (unfold separated_def, intro allI impI)
  fix pre g k post
  assume eq: "h @ [e] = pre @ FrameSent g k # post"
  show "\<forall>(g', k') \<in> set (open_frames pre). frame_generations g' = frame_generations g \<and> k'"
  proof (cases post rule: rev_cases)
    case Nil
    with eq assms(2) [of g k] show ?thesis by simp
  next
    case (snoc post' e')
    with eq have "h = pre @ FrameSent g k # post'" by simp
    with assms(1) show ?thesis unfolding separated_def by blast
  qed
qed

lemma separated_panic: "separated h \<Longrightarrow> separated (h @ [PanicSent ok])"
  by (rule separated_snoc) simp_all

section \<open>The invariant of the task\<close>

definition open_ok :: "rtp_task \<Rightarrow> bool" where
  "open_ok t \<longleftrightarrow>
     (rt_used t \<longleftrightarrow> open_frames (rt_history t) \<noteq> []) \<and> separated (rt_history t)
     \<and> (rt_reset_pending t \<or> (\<forall>(f, ok) \<in> set (open_frames (rt_history t)).
          frame_generations f = (rt_generation t, rt_route_generation t) \<and> ok))"

definition rtp_inv :: "rtp_task \<Rightarrow> rtp_shared \<Rightarrow> bool" where
  "rtp_inv t sh \<longleftrightarrow>
     (rt_used t \<longleftrightarrow> open_frames (rt_history t) \<noteq> []) \<and> separated (rt_history t)
     \<and> (rt_reset_pending t \<or> (\<forall>(f, ok) \<in> set (open_frames (rt_history t)).
          frame_generations f = (rt_generation t, rt_route_generation t)
          \<and> (ok \<or> (\<exists>d. 0 < d \<and> d < 2 ^ 34 \<and> rs_route sh = rt_route_generation t + of_nat d))))"

definition raises_little :: "rtp_turn \<Rightarrow> bool" where
  "raises_little tu \<longleftrightarrow> (\<forall>n sh. \<exists>k < 2 ^ 32. rs_route (tu_moves tu n sh) = rs_route sh + of_nat k)"

lemma rtp_inv_start: "rtp_inv (rtp_start sh) sh"
  by (simp add: rtp_inv_def rtp_start_def)

lemma of_nat_u64_eq_0:
  assumes "(of_nat n :: u64) = 0" and "n < 2 ^ 64"
  shows "n = 0"
proof -
  have "unat (of_nat n :: u64) = n" unfolding unat_of_nat using assms(2) by simp
  with assms(1) show ?thesis by simp
qed

lemma route_raised:
  assumes "raises_little tu" and "0 < d" and "d < 2 ^ 34" and "rs_route sh = r + of_nat d"
  shows "rs_route (tu_moves tu n sh) \<noteq> r"
proof
  obtain k where k: "k < 2 ^ 32" "rs_route (tu_moves tu n sh) = rs_route sh + of_nat k"
    using assms(1) unfolding raises_little_def by blast
  have small: "d + k < 2 ^ 64" using assms(3) k(1) by simp
  assume "rs_route (tu_moves tu n sh) = r"
  then have "r + of_nat d + of_nat k = r" by (simp only: k(2) assms(4))
  then have "(of_nat (d + k) :: u64) = 0" by (simp only: add.assoc add_cancel_left_right of_nat_add)
  from of_nat_u64_eq_0 [OF this small] show False using assms(2) by simp
qed

lemma rtp_generations_ok:
  assumes inv: "rtp_inv t sh" and tu: "raises_little tu" and step: "rtp_generations tu t sh = (t', sh')"
  shows "open_ok t' \<and> rt_history t' = rt_history t"
proof (cases "rt_generation t \<noteq> rs_generation (tu_moves tu 0 sh) \<or> rt_route_generation t \<noteq> rs_route (tu_moves tu 0 sh)")
  case True
  then show ?thesis
    using inv step by (auto simp: rtp_generations_def Let_def rtp_inv_def open_ok_def)
next
  case False
  then have t': "t' = t" using step by (simp add: rtp_generations_def Let_def)
  have "frame_generations f = (rt_generation t, rt_route_generation t) \<and> ok"
    if "(f, ok) \<in> set (open_frames (rt_history t))" and clear: "\<not> rt_reset_pending t" for f ok
  proof -
    from inv that have gens: "frame_generations f = (rt_generation t, rt_route_generation t)"
      and "ok \<or> (\<exists>d. 0 < d \<and> d < 2 ^ 34 \<and> rs_route sh = rt_route_generation t + of_nat d)"
      unfolding rtp_inv_def by auto
    from this(2) have ok
    proof
      assume "\<exists>d. 0 < d \<and> d < 2 ^ 34 \<and> rs_route sh = rt_route_generation t + of_nat d"
      with route_raised [OF tu, of _ sh "rt_route_generation t" 0] False show ok by auto
    qed
    with gens show ?thesis by blast
  qed
  then show ?thesis using inv unfolding t' rtp_inv_def open_ok_def by blast
qed

lemma rec_generation_consumed [simp]: "rec_generation (consumed fr now q r) = rec_generation r"
  by (simp add: consumed_def Let_def)

lemma rtp_frame_inv:
  assumes ok: "open_ok t" and clear: "\<not> rt_reset_pending t" and tu: "raises_little tu"
    and step: "rtp_frame tu frame t sh = (t', sh')"
  shows "rtp_inv t' sh'"
proof -
  let ?sh = "tu_moves tu 3 sh"
  let ?action = "generation_action (frame_generations frame) (rt_generation t, rt_route_generation t)
    (rs_generation ?sh, rs_route ?sh)"
  have keep: "rtp_inv t sh'" for sh' using ok clear by (auto simp: open_ok_def rtp_inv_def)
  show ?thesis
  proof (cases ?action)
    case Ready
    then have same: "frame_generations frame = (rt_generation t, rt_route_generation t)"
      "rt_route_generation t = rs_route ?sh"
      by (auto simp: generation_action_def split: if_splits)
    obtain k where k: "k < 2 ^ 32" "rs_route (tu_moves tu 4 ?sh) = rs_route ?sh + of_nat k"
      using tu unfolding raises_little_def by blast
    have sep: "separated (rt_history t @ [FrameSent frame (tu_frame_ok tu)])"
      by (rule separated_snoc) (use ok clear same in \<open>auto simp: open_ok_def\<close>)
    have t': "t' = record_event (FrameSent frame (tu_frame_ok tu)) (t\<lparr>rt_used := True\<rparr>)"
      and sh': "sh' = (if \<not> tu_frame_ok tu then (tu_moves tu 4 ?sh)\<lparr>rs_input := reset_sender (rs_input (tu_moves tu 4 ?sh))\<rparr>
        else tu_moves tu 4 ?sh)"
      using step Ready by (simp_all add: rtp_frame_def Let_def)
    have raised: "\<exists>d. 0 < d \<and> d < 2 ^ 34 \<and> rs_route sh' = rt_route_generation t + of_nat d" if "\<not> tu_frame_ok tu"
      by (rule exI [of _ "k + 1"]) (use that k same(2) in
          \<open>simp add: sh' reset_sender_def request_reset_def add.commute add.left_commute\<close>)
    show ?thesis
      using ok clear same(1) sep raised
      by (auto simp: rtp_inv_def open_ok_def t' record_event_def)
  next
    case Discard
    then show ?thesis using step keep by (simp add: rtp_frame_def Let_def)
  next
    case Defer
    then have "t' = t\<lparr>rt_pending := Some frame\<rparr>" using step by (simp add: rtp_frame_def Let_def)
    then show ?thesis using keep by (simp add: rtp_inv_def)
  qed
qed


lemma rtp_select_inv:
  assumes ok: "open_ok t" and clear: "\<not> rt_reset_pending t" and tu: "raises_little tu"
    and step: "rtp_select tu t sh = (loops, t', sh')"
  shows "rtp_inv t' sh'"
proof -
  have keep: "rtp_inv t sh'" for sh' using ok clear by (auto simp: open_ok_def rtp_inv_def)
  have taken: "open_ok (t\<lparr>rt_pending := None\<rparr>)" "\<not> rt_reset_pending (t\<lparr>rt_pending := None\<rparr>)"
    using ok clear by (simp_all add: open_ok_def)
  show ?thesis
    using step keep rtp_frame_inv [OF ok clear tu] rtp_frame_inv [OF taken tu]
    unfolding rtp_select_def
    by (cases "tu_wake tu"; cases "rt_pending t";
        cases "async_try_recv (tu_frequency tu) (tu_qpc tu) (rs_input sh)") (auto split: option.splits)
qed

lemma rtp_turn_inv:
  assumes inv: "rtp_inv t sh" and tu: "raises_little tu" and step: "rtp_turn_step tu t sh = (loops, t', sh')"
  shows "rtp_inv t' sh'"
proof -
  obtain t1 sh1 where gens: "rtp_generations tu t sh = (t1, sh1)" by fastforce
  note ok = rtp_generations_ok [OF inv tu gens, THEN conjunct1]
  show ?thesis
  proof (cases "rt_reset_pending t1")
    case False
    with step gens show ?thesis by (intro rtp_select_inv [OF ok False tu]) (simp add: rtp_turn_step_def)
  next
    case pending: True
    show ?thesis
    proof (cases "tu_panic_ok tu")
      case True
      let ?t = "record_event (PanicSent True) (t1\<lparr>rt_used := False, rt_reset_pending := False\<rparr>)"
      have "open_ok ?t" using ok by (simp add: open_ok_def record_event_def separated_panic)
      then show ?thesis
        by (rule rtp_select_inv [OF _ _ tu]) (use step gens pending True in \<open>simp_all add: rtp_turn_step_def record_event_def\<close>)
    next
      case False
      with step gens pending have "t' = record_event (PanicSent False) t1"
        by (simp add: rtp_turn_step_def)
      then show ?thesis using ok pending by (simp add: rtp_inv_def open_ok_def record_event_def separated_panic)
    qed
  qed
qed

lemma rtp_turns_inv:
  assumes "rtp_inv t sh" and "list_all raises_little turns" and "rtp_turns turns t sh = (loops, t', sh')"
  shows "rtp_inv t' sh'"
  using assms
proof (induction turns arbitrary: t sh)
  case (Cons tu tus)
  obtain m t1 sh1 where step: "rtp_turn_step tu t sh = (m, t1, sh1)" by (metis prod_cases3)
  have "rtp_inv t1 sh1" by (rule rtp_turn_inv [OF Cons.prems(1) _ step]) (use Cons.prems(2) in simp)
  then show ?case using Cons step by (cases m) auto
qed simp

lemma frame_before_end:
  assumes "h = pre @ FrameSent f ok # post" and "PanicSent True \<notin> set post"
  shows "(f, ok) \<in> set (open_frames h)"
  using open_frames_survive [OF assms(2), of "pre @ [FrameSent f ok]"] by (auto simp: assms(1))

text \<open>
  C32: The remote side never keeps a note across a reset: between two frames the task sends there is a complete
  panic, unless both were admitted under the same generations and the first one got through; no frame of a
  later generation and nothing after a failed frame precedes the panic. When the task ends, every frame it
  sent is followed by a panic.
\<close>
theorem remote_reset_between_generations:
  assumes "list_all raises_little turns" and "rtp_run turns last_ok sh = Some h"
  shows "(\<forall>pre f ok mid g k post.
        h = pre @ FrameSent f ok # mid @ FrameSent g k # post \<and> PanicSent True \<notin> set mid
          \<longrightarrow> frame_generations f = frame_generations g \<and> ok)
    \<and> (\<forall>pre f ok post. h = pre @ FrameSent f ok # post \<longrightarrow> (\<exists>b. PanicSent b \<in> set post))"
proof -
  from assms(2) obtain t sh' where turns: "rtp_turns turns (rtp_start sh) sh = (False, t, sh')"
    and h: "h = (if rt_used t then rt_history t @ [PanicSent last_ok] else rt_history t)"
    by (auto simp: rtp_run_def record_event_def split: prod.splits bool.splits)
  note inv = rtp_turns_inv [OF rtp_inv_start assms(1) turns]
  have sep: "separated h" using inv by (auto simp: h rtp_inv_def separated_panic)
  have "frame_generations f = frame_generations g \<and> ok"
    if "h = pre @ FrameSent f ok # mid @ FrameSent g k # post" "PanicSent True \<notin> set mid" for pre f ok mid g k post
  proof -
    have "h = (pre @ FrameSent f ok # mid) @ FrameSent g k # post" using that(1) by simp
    moreover have "(f, ok) \<in> set (open_frames (pre @ FrameSent f ok # mid))"
      by (rule frame_before_end [OF refl that(2)])
    ultimately show ?thesis using sep unfolding separated_def by fast
  qed
  moreover have "\<exists>b. PanicSent b \<in> set post" if split: "h = pre @ FrameSent f ok # post" for pre f ok post
  proof (cases "rt_used t")
    case True
    then have "h = rt_history t @ [PanicSent last_ok]" by (simp add: h)
    with split show ?thesis by (cases post rule: rev_cases) auto
  next
    case False
    then have "open_frames h = []" using inv by (simp add: h rtp_inv_def)
    with frame_before_end [OF split] show ?thesis by force
  qed
  ultimately show ?thesis by blast
qed


definition example_outgoing :: "u64 \<Rightarrow> outgoing_frame" where
  "example_outgoing g =
     \<lparr>og_frame = \<lparr>frame_generation = g, frame_ingress_qpc = 0, frame_data = [0x90, 60, 100],
                   frame_capacity = 32, frame_source = ''K''\<rparr>,
      og_generation = g, og_route_generation = 0\<rparr>"

definition example_rtp :: rtp_shared where
  "example_rtp =
     \<lparr>rs_generation = 0,
      rs_input = (async_channel ''rtp'' 8)\<lparr>aq_entries :=
        [\<lparr>queued_qpc = 0, entry_value = example_outgoing 0, entry_permit = True\<rparr>,
         \<lparr>queued_qpc = 0, entry_value = example_outgoing 1, entry_permit = True\<rparr>]\<rparr>\<rparr>"

definition example_turn :: "(rtp_shared \<Rightarrow> rtp_shared) \<Rightarrow> rtp_wake \<Rightarrow> rtp_turn" where
  "example_turn first wake =
     \<lparr>tu_moves = (\<lambda>n sh. if n = 0 then first sh else sh), tu_panic_ok = True, tu_wake = wake,
      tu_senders_gone = False, tu_frame_ok = True, tu_frequency = 1, tu_qpc = 0\<rparr>"

lemma example_raises: "raises_little (example_turn (\<lambda>sh. sh) w)"
  "raises_little (example_turn (\<lambda>sh. sh\<lparr>rs_generation := 1\<rparr>) w)"
  by (auto simp: raises_little_def example_turn_def intro: exI [of _ 0])

theorem remote_reset_between_generations_witness:
  "let turns = [example_turn (\<lambda>sh. sh) WakeFrame, example_turn (\<lambda>sh. sh\<lparr>rs_generation := 1\<rparr>) WakeFrame,
        example_turn (\<lambda>sh. sh) WakeStop]
   in \<exists>mid post. rtp_run turns True example_rtp
       = Some ([FrameSent (example_outgoing 0) True] @ mid @ [FrameSent (example_outgoing 1) True] @ post)
     \<and> PanicSent True \<in> set mid"
proof -
  let ?turns = "[example_turn (\<lambda>sh. sh) WakeFrame, example_turn (\<lambda>sh. sh\<lparr>rs_generation := 1\<rparr>) WakeFrame,
        example_turn (\<lambda>sh. sh) WakeStop]"
  have run: "rtp_run ?turns True example_rtp
      = Some ([] @ FrameSent (example_outgoing 0) True # [PanicSent True] @ FrameSent (example_outgoing 1) True # [PanicSent True])"
    by code_simp
  have "list_all raises_little ?turns" by (simp add: example_raises)
  note spec = remote_reset_between_generations [OF this run]
  have "PanicSent True \<in> set [PanicSent True]"
  proof (rule ccontr)
    assume "PanicSent True \<notin> set [PanicSent True]"
    with spec have "frame_generations (example_outgoing 0) = frame_generations (example_outgoing 1)" by blast
    then show False by (simp add: example_outgoing_def)
  qed
  with run show ?thesis
    unfolding Let_def
    by (intro exI [of _ "[PanicSent True]"] conjI) simp_all
qed


section \<open>Large SysEx messages\<close>

lemma chunks_concat: "0 < n \<Longrightarrow> concat (chunks n xs) = xs"
proof (induction n xs rule: chunks.induct)
  case (1 n xs)
  then show ?case by (subst chunks.simps) auto
qed

lemma chunks_bounded: "0 < n \<Longrightarrow> \<forall>c \<in> set (chunks n xs). c \<noteq> [] \<and> length c \<le> n"
proof (induction n xs rule: chunks.induct)
  case (1 n xs)
  then show ?case by (subst chunks.simps) auto
qed

lemma length_chunks: "0 < n \<Longrightarrow> length (chunks n xs) = div_ceil (length xs) n"
proof (induction n xs rule: chunks.induct)
  case (1 n xs)
  show ?case
  proof (cases "xs = []")
    case True
    then show ?thesis using 1(2) by (subst chunks.simps) (simp add: div_ceil_def)
  next
    case False
    then have "length (chunks n (drop n xs)) = div_ceil (length xs - n) n" using 1 by simp
    moreover have "div_ceil (length xs) n = Suc (div_ceil (length xs - n) n)"
    proof (cases "n \<le> length xs")
      case True
      have "length xs + n - 1 = (length xs - n + n - 1) + n" using True 1(2) by simp
      then show ?thesis using 1(2) unfolding div_ceil_def by (metis Suc_eq_plus1 div_add_self2 less_numeral_extra(3))
    next
      case small: False
      have "(length xs + n - 1) div n = 1"
        using False small by (cases xs) (auto intro!: div_nat_eqI)
      then show ?thesis using small 1(2) by (simp add: div_ceil_def)
    qed
    ultimately show ?thesis using False 1(2) by (subst chunks.simps) simp
  qed
qed

fun segment_data :: "rtp_command \<Rightarrow> bytes" where
  "segment_data (SysExSegment head data tail) = data"
| "segment_data _ = []"

text \<open>The segments of one SysEx as the receiver joins them: started, continued and ended exactly once.\<close>

fun joins :: "bool \<Rightarrow> rtp_command list \<Rightarrow> bytes option" where
  "joins first [SysExSegment head data tail] =
     (if head = (if first then 0xF0 else 0xF7) \<and> tail = 0xF7 then Some data else None)"
| "joins first (SysExSegment head data tail # rest) =
     (if head = (if first then 0xF0 else 0xF7) \<and> tail = 0xF0
      then map_option ((@) data) (joins False rest) else None)"
| "joins first _ = None"

lemma joins_fragments:
  assumes "cs \<noteq> []" and "count = i + length cs"
  shows "joins (i = 0) (map (\<lambda>(index, data).
       SysExSegment (if index = 0 then 0xF0 else 0xF7) data (if index + 1 = count then 0xF7 else 0xF0))
     (enumerate i cs)) = Some (concat cs)"
  using assms
proof (induction cs arbitrary: i)
  case (Cons c cs)
  show ?case
  proof (cases cs)
    case Nil
    then show ?thesis using Cons.prems by simp
  next
    case (Cons d ds)
    then show ?thesis using Cons.IH [of "Suc i"] Cons.prems by simp
  qed
qed simp

text \<open>
  A large SysEx arrives whole: on a session that accepts everything, the segments handed to it join to
  exactly the payload, each holding between one and 1024 bytes; a payload over 64 KiB is refused before
  anything is sent.
\<close>
theorem sysex_is_fragmented_exactly:
  assumes parsed: "parse_complete bytes = Inr (SysEx payload)" and large: "1024 < length payload"
  shows "send_bytes parse_complete (\<lambda>c sent. (Inr (), sent @ [c])) bytes []
      = (if length payload > 65536 then (Inl ''SysEx exceeds 64 KiB payload limit'', [])
         else (Inr (), sysex_fragments payload))
    \<and> joins True (sysex_fragments payload) = Some payload
    \<and> list_all (\<lambda>c. segment_data c \<noteq> [] \<and> length (segment_data c) \<le> 1024) (sysex_fragments payload)"
proof -
  have sent: "send_commands (\<lambda>c sent. (Inr (), sent @ [c])) cs w = (Inr (), w @ cs)" for cs w
    by (induction cs arbitrary: w) simp_all
  have "chunks 1024 payload \<noteq> []" using large by (subst chunks.simps) auto
  from joins_fragments [OF this, of "div_ceil (length payload) 1024" 0]
  have "joins True (sysex_fragments payload) = Some payload"
    by (simp add: sysex_fragments_def length_chunks chunks_concat Let_def)
  moreover have "list_all (\<lambda>c. segment_data c \<noteq> [] \<and> length (segment_data c) \<le> 1024) (sysex_fragments payload)"
    using chunks_bounded [of 1024 payload]
    by (auto simp: sysex_fragments_def list_all_iff Let_def in_set_enumerate_eq split: prod.split)
  ultimately show ?thesis using large by (simp add: send_bytes_def parsed sent)
qed

theorem sysex_is_fragmented_exactly_witness:
  "send_bytes (\<lambda>b. Inr (SysEx b)) (\<lambda>c sent. (Inr (), sent @ [c])) (replicate 2000 1) []
    = (Inr (), sysex_fragments (replicate 2000 1))"
  using sysex_is_fragmented_exactly [of "\<lambda>b. Inr (SysEx b)" "replicate 2000 1" "replicate 2000 1"] by simp

text \<open>The panic addresses every channel with the four controllers, value 0.\<close>

lemma panic_commands_complete:
  "length panic_commands = 64 \<and> list_all (\<lambda>ch. list_all (\<lambda>c. [0xB0 OR of_nat ch, c, 0] \<in> set panic_commands)
     [64, 120, 121, 123]) [0..<16]"
  by code_simp

end
