(* ===== verification/Audio_Midi.thy ===== *)
theory Audio_Midi
  imports Midi_Queue "HOL-Library.Sublist"
begin

text \<open>
  MIDI in the audio callback (\<open>audio/midi_playback.rs\<close>, \<open>audio/callback_midi.rs\<close> and the MIDI part of
  \<open>audio/runtime_state.rs\<close>): the packets of the ring, the bounded backlog that never gives up a release
  for a note, the clock that places each event inside an audio block, and the batches handed to the plugin.
  A \<open>usize\<close> that counts frames or messages is a \<open>nat\<close>.
\<close>

section \<open>Packets\<close>

definition MAX_PENDING_MIDI :: nat where "MAX_PENDING_MIDI = 8192"
definition MIDI_DRAIN_BUDGET_PER_CALLBACK :: nat where "MIDI_DRAIN_BUDGET_PER_CALLBACK = 512"
definition MIDI_EVENT_BATCH_CAPACITY :: nat where "MIDI_EVENT_BATCH_CAPACITY = 512"

record midi_packet =
  mp_worker_qpc :: u64
  mp_generation :: u64
  mp_data :: bytes
  mp_len :: u8
  mp_timestamp_us :: u64
  mp_ingress_qpc :: u64

text \<open>\<open>from_bytes_with_age\<close>; the three clock readings are arguments.\<close>

definition packet_from_bytes :: "u64 \<Rightarrow> u64 \<Rightarrow> u64 \<Rightarrow> bytes \<Rightarrow> u64 \<Rightarrow> midi_packet option" where
  "packet_from_bytes worker_qpc now_us ingress_qpc bytes age_us =
     (if bytes = [] \<or> length bytes > 3 \<or> bytes ! 0 = 0xF0 then None
      else
        let data = bytes @ replicate (3 - length bytes) 0;
            len = length bytes;
            (ok, data') = normalize_prefix len data
        in if \<not> ok then None
           else Some \<lparr>mp_worker_qpc = worker_qpc, mp_generation = 0, mp_data = data',
                      mp_len = of_nat len, mp_timestamp_us = saturating_sub now_us age_us,
                      mp_ingress_qpc = ingress_qpc\<rparr>)"

definition packet_status :: "midi_packet \<Rightarrow> u8" where
  "packet_status p = mp_data p ! 0"

definition is_note_on :: "midi_packet \<Rightarrow> bool" where
  "is_note_on p \<longleftrightarrow> mp_len p \<ge> 3 \<and> packet_status p AND 0xF0 = 0x90 \<and> mp_data p ! 2 > 0"

definition is_note_off :: "midi_packet \<Rightarrow> bool" where
  "is_note_off p \<longleftrightarrow>
     packet_status p AND 0xF0 = 0x80
     \<or> mp_len p \<ge> 3 \<and> packet_status p AND 0xF0 = 0x90 \<and> mp_data p ! 2 = 0"

definition is_cc64_off :: "midi_packet \<Rightarrow> bool" where
  "is_cc64_off p \<longleftrightarrow>
     mp_len p \<ge> 3 \<and> packet_status p AND 0xF0 = 0xB0 \<and> mp_data p ! 1 = 64 \<and> mp_data p ! 2 < 64"

definition packet_critical :: "midi_packet \<Rightarrow> bool" where
  "packet_critical p \<longleftrightarrow>
     is_note_off p \<or> is_cc64_off p \<or> is_critical_release_message (take (unat (mp_len p)) (mp_data p))"

definition packet_age_us :: "midi_packet \<Rightarrow> u64 \<Rightarrow> u64" where
  "packet_age_us p now_us = saturating_sub now_us (mp_timestamp_us p)"

section \<open>The playback clock\<close>

record block_timing =
  bt_start_us :: u64
  bt_end_us :: u64
  bt_now_us :: u64
  bt_frames :: u64
  bt_last_offset :: u32

definition timing_new :: "nat \<Rightarrow> u32 \<Rightarrow> u64 \<Rightarrow> block_timing" where
  "timing_new frames sample_rate now_us =
     (let frames = of_nat (max frames 1) :: u64;
          period_us = saturating_mul frames 1000000 div ucast (max sample_rate 1)
      in \<lparr>bt_start_us = saturating_sub now_us (max period_us 1), bt_end_us = now_us, bt_now_us = now_us,
          bt_frames = frames, bt_last_offset = 0\<rparr>)"

definition timing_contains :: "block_timing \<Rightarrow> u64 \<Rightarrow> bool" where
  "timing_contains t timestamp_us \<longleftrightarrow> timestamp_us \<le> bt_end_us t"

definition raw_offset :: "block_timing \<Rightarrow> u64 \<Rightarrow> u32" where
  "raw_offset t timestamp_us =
     (let since = saturating_mul (saturating_sub timestamp_us (bt_start_us t)) (bt_frames t);
          offset = since div max (saturating_sub (bt_end_us t) (bt_start_us t)) 1
      in ucast (min (min offset (saturating_sub (bt_frames t) 1)) (ucast (- 1 :: u32))))"

definition timing_offset :: "block_timing \<Rightarrow> u64 \<Rightarrow> u32 \<times> block_timing" where
  "timing_offset t timestamp_us =
     (let last = max (bt_last_offset t) (raw_offset t timestamp_us)
      in (last, t\<lparr>bt_last_offset := last\<rparr>))"

text \<open>The clock is its cursor.\<close>

definition begin_block :: "u64 option \<Rightarrow> nat \<Rightarrow> u32 \<Rightarrow> u64 \<Rightarrow> u64 option \<Rightarrow> block_timing" where
  "begin_block cursor frames sample_rate now_us oldest_us =
     (let block = timing_new frames sample_rate now_us;
          start = (case cursor of Some c \<Rightarrow> c
                   | None \<Rightarrow> (case oldest_us of Some t \<Rightarrow> t | None \<Rightarrow> bt_start_us block))
      in if start < bt_start_us block then
           let period = max (saturating_sub now_us (bt_start_us block)) 1
           in block\<lparr>bt_start_us := start,
                    bt_end_us := min (saturating_add start (saturating_mul period 2)) now_us\<rparr>
         else block)"

definition commit_block :: "block_timing \<Rightarrow> u64 option \<Rightarrow> u64 option" where
  "commit_block block next_us =
     (let cursor = (case next_us of None \<Rightarrow> bt_end_us block | Some t \<Rightarrow> min t (bt_end_us block))
      in if cursor < bt_now_us block then Some (max cursor (bt_start_us block)) else None)"

section \<open>The backlog\<close>

text \<open>
  What the callback shares with other threads (the generation, the flag that asks for a reset, the ring),
  and the part of its state that holds MIDI. \<open>last_output\<close> is the audio that a missed block would replay.
\<close>

record audio_shared =
  au_generation :: u64
  au_emergency :: bool
  au_ring :: "midi_packet list"

record callback_midi =
  cb_midi_generation :: u64
  cb_pending :: "midi_packet list"
  cb_playback :: "u64 option"
  cb_needs_reset :: bool
  cb_recovering :: bool
  cb_last_output :: "f32 list"
  cb_drop_count :: u32
  cb_queue_depth :: u32
  cb_queue_max_depth :: u32
  cb_oldest_us :: u64

definition silence_output :: "'z callback_midi_scheme \<Rightarrow> 'z callback_midi_scheme" where
  "silence_output st = st\<lparr>cb_last_output := map (\<lambda>_. 0) (cb_last_output st), cb_recovering := True\<rparr>"

definition observe_midi_generation :: "u64 \<Rightarrow> 'z callback_midi_scheme \<Rightarrow> 'z callback_midi_scheme" where
  "observe_midi_generation generation st =
     (if generation \<noteq> cb_midi_generation st
      then silence_output (st\<lparr>cb_midi_generation := generation, cb_pending := [], cb_playback := None,
             cb_needs_reset := True\<rparr>)
      else st)"

definition count_drops :: "nat \<Rightarrow> 'z callback_midi_scheme \<Rightarrow> 'z callback_midi_scheme" where
  "count_drops n st = st\<lparr>cb_drop_count := cb_drop_count st + of_nat n\<rparr>"

text \<open>Removing the first message with a property (\<open>position\<close> and \<open>remove\<close>).\<close>

fun remove_first :: "('a \<Rightarrow> bool) \<Rightarrow> 'a list \<Rightarrow> 'a list option" where
  "remove_first P [] = None"
| "remove_first P (x # xs) = (if P x then Some xs else map_option ((#) x) (remove_first P xs))"

definition enqueue_midi :: "midi_packet \<Rightarrow> 'z callback_midi_scheme \<Rightarrow> 'z callback_midi_scheme" where
  "enqueue_midi msg st =
     (let pending = cb_pending st;
          critical = packet_critical msg
      in if \<not> critical \<and> length pending \<ge> MAX_PENDING_MIDI - reserve MAX_PENDING_MIDI then count_drops 1 st
         else if length pending < MAX_PENDING_MIDI then st\<lparr>cb_pending := pending @ [msg]\<rparr>
         else case remove_first is_note_on pending of
           Some rest \<Rightarrow> count_drops 1 (st\<lparr>cb_pending := rest @ [msg]\<rparr>)
         | None \<Rightarrow>
             if \<not> critical then count_drops 1 st
             else case remove_first (\<lambda>m. \<not> packet_critical m) pending of
               Some rest \<Rightarrow> count_drops 1 (st\<lparr>cb_pending := rest @ [msg]\<rparr>)
             | None \<Rightarrow>
                 count_drops (length pending)
                   (st\<lparr>cb_pending := [msg], cb_playback := None, cb_needs_reset := True\<rparr>))"

text \<open>
  \<open>drain_midi\<close>. \<open>moves\<close> is what the other threads do to the shared state before each look at it.
\<close>

fun drain_ring ::
  "(nat \<Rightarrow> audio_shared \<Rightarrow> audio_shared) \<Rightarrow> nat \<Rightarrow> 'z callback_midi_scheme \<Rightarrow> audio_shared
     \<Rightarrow> 'z callback_midi_scheme \<times> audio_shared" where
  "drain_ring moves 0 st sh = (st, sh)"
| "drain_ring moves (Suc k) st sh =
     (let sh = moves (2 * k) sh in
      case au_ring sh of
        [] \<Rightarrow> (st, sh)
      | msg # ring \<Rightarrow>
          let sh = moves (2 * k + 1) (sh\<lparr>au_ring := ring\<rparr>);
              st = observe_midi_generation (au_generation sh) st;
              st = (if mp_generation msg = cb_midi_generation st then enqueue_midi msg st else st)
          in drain_ring moves k st sh)"

definition take_emergency :: "'z callback_midi_scheme \<Rightarrow> audio_shared \<Rightarrow> 'z callback_midi_scheme \<times> audio_shared" where
  "take_emergency st sh =
     (if au_emergency sh
      then (silence_output (st\<lparr>cb_needs_reset := True, cb_pending := [], cb_playback := None\<rparr>),
            sh\<lparr>au_emergency := False, au_generation := au_generation sh + 1\<rparr>)
      else (st, sh))"

definition drain_midi ::
  "(nat \<Rightarrow> audio_shared \<Rightarrow> audio_shared) \<Rightarrow> u64 \<Rightarrow> 'z callback_midi_scheme \<Rightarrow> audio_shared
     \<Rightarrow> 'z callback_midi_scheme \<times> audio_shared" where
  "drain_midi moves now_us st sh =
     (let (st, sh) = take_emergency st sh;
          sh = moves (2 * MIDI_DRAIN_BUDGET_PER_CALLBACK) sh;
          st = observe_midi_generation (au_generation sh) st;
          (st, sh) = drain_ring moves MIDI_DRAIN_BUDGET_PER_CALLBACK st sh;
          depth = of_nat (min (length (cb_pending st) + length (au_ring sh)) (2 ^ 32 - 1)) :: u32;
          oldest = (case cb_pending st of [] \<Rightarrow> 0 | p # _ \<Rightarrow> packet_age_us p now_us)
      in (st\<lparr>cb_queue_depth := depth, cb_queue_max_depth := max (cb_queue_max_depth st) depth,
             cb_oldest_us := oldest\<rparr>, sh))"

definition next_midi_timestamp_us :: "'z callback_midi_scheme \<Rightarrow> audio_shared \<Rightarrow> u64 option" where
  "next_midi_timestamp_us st sh =
     (case cb_pending st @ au_ring sh of [] \<Rightarrow> None | p # _ \<Rightarrow> Some (mp_timestamp_us p))"

section \<open>The batches for the plugin\<close>

datatype rack_event_kind =
    NoteOff u8 u8 u8 | NoteOn u8 u8 u8 | PolyphonicAftertouch u8 u8 u8 | ControlChange u8 u8 u8
  | ProgramChange u8 u8 | ChannelAftertouch u8 u8 | PitchBend u16 u8

record rack_event =
  re_sample_offset :: u32
  re_kind :: rack_event_kind

definition midi_to_rack_event :: "bytes \<Rightarrow> rack_event option" where
  "midi_to_rack_event data =
     (let status = data ! 0;
          channel = status AND 0x0F;
          event = (\<lambda>kind. Some \<lparr>re_sample_offset = 0, re_kind = kind\<rparr>)
      in if status AND 0xF0 = 0x80 then event (NoteOff (data ! 1) (data ! 2) channel)
         else if status AND 0xF0 = 0x90 then
           (if data ! 2 = 0 then event (NoteOff (data ! 1) 0 channel)
            else event (NoteOn (data ! 1) (data ! 2) channel))
         else if status AND 0xF0 = 0xA0 then event (PolyphonicAftertouch (data ! 1) (data ! 2) channel)
         else if status AND 0xF0 = 0xB0 then event (ControlChange (data ! 1) (data ! 2) channel)
         else if status AND 0xF0 = 0xC0 then event (ProgramChange (data ! 1) channel)
         else if status AND 0xF0 = 0xD0 then event (ChannelAftertouch (data ! 1) channel)
         else if status AND 0xF0 = 0xE0 then
           event (PitchBend (push_bit 7 (ucast (data ! 2)) OR ucast (data ! 1)) channel)
         else None)"

text \<open>
  VST3: the messages from the front of the backlog that are due and fit the batch. The first result is the
  batch, the second how many messages were consumed.
\<close>

fun collect_vst3 ::
  "nat \<Rightarrow> midi_packet list \<Rightarrow> block_timing \<Rightarrow> rack_event list \<Rightarrow> rack_event list \<times> nat \<times> block_timing" where
  "collect_vst3 event_limit [] timing events = (events, 0, timing)"
| "collect_vst3 event_limit (msg # msgs) timing events =
     (if \<not> timing_contains timing (mp_timestamp_us msg) then (events, 0, timing)
      else case midi_to_rack_event (mp_data msg) of
        None \<Rightarrow>
          (case collect_vst3 event_limit msgs timing events of (es, n, t) \<Rightarrow> (es, Suc n, t))
      | Some event \<Rightarrow>
          if length events = event_limit then (events, 0, timing)
          else
            let (offset, timing) = timing_offset timing (mp_timestamp_us msg)
            in case collect_vst3 event_limit msgs timing (events @ [event\<lparr>re_sample_offset := offset\<rparr>]) of
                 (es, n, t) \<Rightarrow> (es, Suc n, t))"

text \<open>The call of the plugin is a parameter; a rejected batch leaves everything as it was.\<close>

definition submit_pending_vst3_midi_at ::
  "(rack_event list \<Rightarrow> 'p \<Rightarrow> bool \<times> 'p) \<Rightarrow> nat \<Rightarrow> nat \<Rightarrow> u32 \<Rightarrow> u64 \<Rightarrow> audio_shared
     \<Rightarrow> 'z callback_midi_scheme \<Rightarrow> 'p \<Rightarrow> bool \<times> 'z callback_midi_scheme \<times> 'p" where
  "submit_pending_vst3_midi_at send available last_frames sample_rate now_us sh st p =
     (let oldest = (case cb_pending st of [] \<Rightarrow> None | m # _ \<Rightarrow> Some (mp_timestamp_us m));
          timing = begin_block (cb_playback st) last_frames sample_rate now_us oldest;
          event_limit = min available MIDI_EVENT_BATCH_CAPACITY;
          (events, consumed, timing) =
            collect_vst3 event_limit (take MIDI_EVENT_BATCH_CAPACITY (cb_pending st)) timing [];
          (ok, p) = (if events \<noteq> [] then send events p else (True, p))
      in if \<not> ok then (False, st, p)
         else
           let st = st\<lparr>cb_pending := drop consumed (cb_pending st)\<rparr>
           in (True, st\<lparr>cb_playback := commit_block timing (next_midi_timestamp_us st sh)\<rparr>, p))"

text \<open>VST2: the same from the other side, a message at a time into the preallocated batch.\<close>

fun collect_vst2 ::
  "midi_packet list \<Rightarrow> block_timing \<Rightarrow> (u32 \<times> bytes) list
     \<Rightarrow> (u32 \<times> bytes) list \<times> midi_packet list \<times> block_timing" where
  "collect_vst2 [] timing events = (events, [], timing)"
| "collect_vst2 (msg # msgs) timing events =
     (if length events \<ge> MIDI_EVENT_BATCH_CAPACITY \<or> \<not> timing_contains timing (mp_timestamp_us msg)
      then (events, msg # msgs, timing)
      else
        let (delta_frames, timing) = timing_offset timing (mp_timestamp_us msg)
        in collect_vst2 msgs timing (events @ [(delta_frames, mp_data msg)]))"

definition prepare_pending_vst2_midi ::
  "nat \<Rightarrow> u32 \<Rightarrow> u64 \<Rightarrow> audio_shared \<Rightarrow> 'z callback_midi_scheme
     \<Rightarrow> (u32 \<times> bytes) list \<times> 'z callback_midi_scheme" where
  "prepare_pending_vst2_midi last_frames sample_rate now_us sh st =
     (let oldest = (case cb_pending st of [] \<Rightarrow> None | m # _ \<Rightarrow> Some (mp_timestamp_us m));
          timing = begin_block (cb_playback st) last_frames sample_rate now_us oldest;
          (events, pending, timing) = collect_vst2 (cb_pending st) timing [];
          st = st\<lparr>cb_pending := pending\<rparr>
      in (events, st\<lparr>cb_playback := commit_block timing (next_midi_timestamp_us st sh)\<rparr>))"

definition reset_messages_for_channel :: "u8 \<Rightarrow> bytes list" where
  "reset_messages_for_channel ch =
     [[0xB0 OR ch, 64, 0], [0xB0 OR ch, 120, 0], [0xB0 OR ch, 121, 0], [0xB0 OR ch, 123, 0]]"


section \<open>Timing of one block\<close>

text \<open>What every block satisfies, and what stays true while offsets are taken from it.\<close>

definition timing_ok :: "nat \<Rightarrow> u64 \<Rightarrow> block_timing \<Rightarrow> bool" where
  "timing_ok frames now_us t \<longleftrightarrow>
     bt_start_us t \<le> bt_end_us t \<and> bt_end_us t \<le> now_us \<and> bt_now_us t = now_us
     \<and> unat (bt_frames t) = max frames 1 \<and> unat (bt_last_offset t) < max frames 1"

lemma timing_new_ok: "frames < 2 ^ 64 \<Longrightarrow> timing_ok frames now_us (timing_new frames sample_rate now_us)"
  by (simp add: timing_ok_def timing_new_def Let_def saturating_sub_le unat_of_nat)

lemma begin_block_ok:
  assumes "frames < 2 ^ 64"
  shows "timing_ok frames now_us (begin_block cursor frames sample_rate now_us oldest_us)
    \<and> bt_last_offset (begin_block cursor frames sample_rate now_us oldest_us) = 0"
proof -
  note fresh = timing_new_ok [OF assms, of now_us sample_rate]
  have end_: "bt_end_us (timing_new frames sample_rate now_us) = now_us"
    "bt_last_offset (timing_new frames sample_rate now_us) = 0" by (simp_all add: timing_new_def Let_def)
  show ?thesis
    using fresh end_ unfolding begin_block_def Let_def timing_ok_def
    by (auto simp: le_saturating_add intro: order.trans less_imp_le split: option.splits)
qed

lemma raw_offset_bound:
  assumes "timing_ok frames now_us t"
  shows "unat (raw_offset t stamp) < max frames 1"
proof -
  let ?f = "unat (bt_frames t)"
  define m where "m = min (saturating_mul (saturating_sub stamp (bt_start_us t)) (bt_frames t)
    div max (saturating_sub (bt_end_us t) (bt_start_us t)) 1) (saturating_sub (bt_frames t) 1)"
  define n where "n = min m (ucast (- 1 :: u32))"
  have "n \<le> m" by (simp add: n_def)
  also have "m \<le> saturating_sub (bt_frames t) 1" by (simp add: m_def)
  finally have "unat n \<le> ?f - 1" by (simp add: word_le_nat_alt unat_saturating_sub)
  moreover have "unat (ucast n :: u32) \<le> unat n"
    by (simp add: unsigned_ucast_eq unsigned_take_bit_eq take_bit_nat_less_eq_self)
  moreover have "raw_offset t stamp = ucast n" by (simp add: raw_offset_def Let_def n_def m_def)
  moreover have "0 < ?f" using assms by (simp add: timing_ok_def)
  ultimately show ?thesis using assms by (simp add: timing_ok_def)
qed

lemma timing_offset_ok:
  assumes "timing_ok frames now_us t" and "timing_offset t stamp = (offset, t')"
  shows "timing_ok frames now_us t' \<and> bt_last_offset t' = offset \<and> bt_last_offset t \<le> offset
    \<and> bt_end_us t' = bt_end_us t \<and> unat offset < max frames 1"
proof -
  have eqs: "offset = max (bt_last_offset t) (raw_offset t stamp)" "t' = t\<lparr>bt_last_offset := offset\<rparr>"
    using assms(2) by (auto simp: timing_offset_def Let_def)
  have "offset = bt_last_offset t \<or> offset = raw_offset t stamp" by (simp add: eqs(1) max_def)
  then have "unat offset < max frames 1"
    using raw_offset_bound [OF assms(1), of stamp] assms(1) unfolding timing_ok_def by metis
  then show ?thesis using assms(1) by (simp add: eqs(2) timing_ok_def) (simp add: eqs(1))
qed

section \<open>One batch\<close>

abbreviation rack_kinds :: "midi_packet list \<Rightarrow> rack_event_kind list" where
  "rack_kinds msgs \<equiv> List.map_filter (\<lambda>m. map_option re_kind (midi_to_rack_event (mp_data m))) msgs"

definition batch_ok :: "nat \<Rightarrow> nat \<Rightarrow> u32 \<Rightarrow> rack_event list \<Rightarrow> bool" where
  "batch_ok frames event_limit last_offset events \<longleftrightarrow>
     sorted (map (\<lambda>e. unat (re_sample_offset e)) events)
     \<and> list_all (\<lambda>e. unat (re_sample_offset e) < max frames 1 \<and> re_sample_offset e \<le> last_offset) events
     \<and> length events \<le> event_limit"

lemma batch_ok_snoc:
  assumes "batch_ok frames limit l events" and "l \<le> offset" and "unat offset < max frames 1"
    and "length events < limit"
  shows "batch_ok frames limit offset (events @ [e\<lparr>re_sample_offset := offset\<rparr>])"
  using assms
  by (auto simp: batch_ok_def sorted_append list_all_iff word_le_nat_alt intro: order.trans)

lemma collect_vst3_exact:
  assumes "timing_ok frames now_us t" and "batch_ok frames limit (bt_last_offset t) events"
    and "collect_vst3 limit msgs t events = (events', n, t')"
  shows "n \<le> length msgs
    \<and> (\<exists>more. events' = events @ more \<and> map re_kind more = rack_kinds (take n msgs))
    \<and> list_all (\<lambda>m. mp_timestamp_us m \<le> bt_end_us t) (take n msgs)
    \<and> timing_ok frames now_us t' \<and> bt_end_us t' = bt_end_us t
    \<and> batch_ok frames limit (bt_last_offset t') events'
    \<and> (n < length msgs \<longrightarrow> bt_end_us t < mp_timestamp_us (msgs ! n)
         \<or> length events' = limit \<and> midi_to_rack_event (mp_data (msgs ! n)) \<noteq> None)"
  using assms
proof (induction msgs arbitrary: t events events' n)
  case (Cons msg msgs)
  show ?case
  proof (cases "timing_contains t (mp_timestamp_us msg)")
    case False
    then show ?thesis using Cons.prems by (auto simp: timing_contains_def List.map_filter_def)
  next
    case due: True
    show ?thesis
    proof (cases "midi_to_rack_event (mp_data msg)")
      case None
      obtain k where k: "collect_vst3 limit msgs t events = (events', k, t')" "n = Suc k"
        using Cons.prems(3) due None by (auto split: prod.splits)
      from Cons.IH [OF Cons.prems(1,2) k(1)] show ?thesis
        using due None by (auto simp: k(2) timing_contains_def List.map_filter_def)
    next
      case (Some event)
      show ?thesis
      proof (cases "length events = limit")
        case True
        then show ?thesis using Cons.prems due Some by (auto simp: List.map_filter_def)
      next
        case room: False
        obtain offset t1 where off: "timing_offset t (mp_timestamp_us msg) = (offset, t1)" by fastforce
        note o = timing_offset_ok [OF Cons.prems(1) off]
        let ?e = "event\<lparr>re_sample_offset := offset\<rparr>"
        obtain k where k: "collect_vst3 limit msgs t1 (events @ [?e]) = (events', k, t')" "n = Suc k"
          using Cons.prems(3) due Some room off by (auto split: prod.splits)
        have "batch_ok frames limit (bt_last_offset t1) (events @ [?e])"
          using batch_ok_snoc [OF Cons.prems(2), of offset event] o room Cons.prems(2)
          by (simp add: batch_ok_def)
        from Cons.IH [OF _ this k(1)] o show ?thesis
          using due Some by (auto simp: k(2) timing_contains_def List.map_filter_def)
      qed
    qed
  qed
qed (auto simp: List.map_filter_def)


text \<open>
  A VST3 batch is exact: whatever the backlog and the clock, the events handed to the plugin are those of
  a prefix of the backlog, in order and none left out, their sample offsets lie in the block and never go
  backwards, no message from the future is played, the batch fits the plugin; exactly the prefix leaves the
  backlog, and when the plugin rejects the batch nothing does.
\<close>

theorem vst3_batch_exact:
  assumes frames: "last_frames < 2 ^ 64"
    and submit: "submit_pending_vst3_midi_at send available last_frames sample_rate now_us sh st p = (ok, st', p')"
  shows "\<exists>events consumed.
      map re_kind events = rack_kinds (take consumed (cb_pending st))
    \<and> list_all (\<lambda>m. mp_timestamp_us m \<le> now_us) (take consumed (cb_pending st))
    \<and> sorted (map (\<lambda>e. unat (re_sample_offset e)) events)
    \<and> list_all (\<lambda>e. unat (re_sample_offset e) < max last_frames 1) events
    \<and> length events \<le> min available MIDI_EVENT_BATCH_CAPACITY
    \<and> (ok, p') = (if events = [] then (True, p) else send events p)
    \<and> (if ok then cb_pending st' = drop consumed (cb_pending st) else st' = st)"
proof -
  define oldest where "oldest = (case cb_pending st of [] \<Rightarrow> None | m # _ \<Rightarrow> Some (mp_timestamp_us m))"
  define t where "t = begin_block (cb_playback st) last_frames sample_rate now_us oldest"
  let ?limit = "min available MIDI_EVENT_BATCH_CAPACITY"
  obtain events n t' where collect: "collect_vst3 ?limit (take MIDI_EVENT_BATCH_CAPACITY (cb_pending st)) t [] = (events, n, t')"
    by (metis prod_cases3)
  have t: "timing_ok last_frames now_us t" unfolding t_def using begin_block_ok [OF frames] by blast
  have "batch_ok last_frames ?limit (bt_last_offset t) []" by (simp add: batch_ok_def)
  note exact = collect_vst3_exact [OF t this collect]
  have take: "take n (take MIDI_EVENT_BATCH_CAPACITY (cb_pending st)) = take n (cb_pending st)"
    using exact by (simp add: min_absorb1)
  have due: "list_all (\<lambda>m. mp_timestamp_us m \<le> now_us) (take n (cb_pending st))"
    using exact t unfolding take timing_ok_def by (auto simp: list_all_iff)
  have out: "(ok, p') = (if events = [] then (True, p) else send events p)"
    "if ok then cb_pending st' = drop n (cb_pending st) else st' = st"
    using submit collect
    by (auto simp: submit_pending_vst3_midi_at_def oldest_def [symmetric] t_def [symmetric] Let_def
        split: prod.splits if_splits)
  show ?thesis
    by (rule exI [of _ events], rule exI [of _ n])
      (use exact due out take in \<open>auto simp: batch_ok_def list_all_iff\<close>)
qed

definition example_packet :: "u64 \<Rightarrow> bytes \<Rightarrow> midi_packet" where
  "example_packet stamp data =
     \<lparr>mp_worker_qpc = 0, mp_generation = 0, mp_data = data, mp_len = 3, mp_timestamp_us = stamp,
      mp_ingress_qpc = 0\<rparr>"

definition example_backlog :: callback_midi where
  "example_backlog =
     \<lparr>cb_midi_generation = 0,
      cb_pending = [example_packet 1001000 [0x90, 60, 100], example_packet 1000990 [0x80, 60, 0],
                    example_packet 2000000 [0x90, 61, 100]],
      cb_playback = None, cb_needs_reset = False, cb_recovering = False, cb_last_output = [],
      cb_drop_count = 0, cb_queue_depth = 0, cb_queue_max_depth = 0, cb_oldest_us = 0\<rparr>"

theorem vst3_batch_exact_witness:
  "\<exists>events consumed. map re_kind events = rack_kinds (take consumed (cb_pending example_backlog))
    \<and> list_all (\<lambda>m. mp_timestamp_us m \<le> 1010000) (take consumed (cb_pending example_backlog))
    \<and> sorted (map (\<lambda>e. unat (re_sample_offset e)) events)
    \<and> snd (snd (submit_pending_vst3_midi_at (\<lambda>es _. (True, es)) 512 1000 100000 1010000
        \<lparr>au_generation = 0, au_emergency = False, au_ring = []\<rparr> example_backlog [])) = events"
proof -
  let ?sh = "\<lparr>au_generation = 0, au_emergency = False, au_ring = []\<rparr>"
  obtain ok st' p' where "submit_pending_vst3_midi_at (\<lambda>es _. (True, es)) 512 1000 100000 1010000 ?sh example_backlog []
      = (ok, st', p')" by (metis prod_cases3)
  from vst3_batch_exact [OF _ this] this show ?thesis by (fastforce split: if_splits)
qed

text \<open>The MIDI message an event of a VST3 batch stands for, and what a message of the backlog says.\<close>

definition rack_message :: "rack_event_kind \<Rightarrow> bytes" where
  "rack_message kind =
     (case kind of
        NoteOff n v ch \<Rightarrow> [0x80 OR ch, n, v] | NoteOn n v ch \<Rightarrow> [0x90 OR ch, n, v]
      | PolyphonicAftertouch n p ch \<Rightarrow> [0xA0 OR ch, n, p] | ControlChange c v ch \<Rightarrow> [0xB0 OR ch, c, v]
      | ProgramChange p ch \<Rightarrow> [0xC0 OR ch, p] | ChannelAftertouch p ch \<Rightarrow> [0xD0 OR ch, p]
      | PitchBend v ch \<Rightarrow> [0xE0 OR ch, ucast (v AND 0x7F), ucast (drop_bit 7 v)])"

definition played_message :: "bytes \<Rightarrow> bytes" where
  "played_message d =
     (if d ! 0 AND 0xF0 = 0xC0 \<or> d ! 0 AND 0xF0 = 0xD0 then List.take 2 d
      else if d ! 0 AND 0xF0 = 0x90 \<and> d ! 2 = 0 then [0x80 OR (d ! 0 AND 0x0F), d ! 1, 0]
      else d)"

definition channel_data :: "bytes \<Rightarrow> bool" where
  "channel_data d \<longleftrightarrow> length d = 3 \<and> d ! 0 AND 0xF0 \<in> {0x80, 0x90, 0xA0, 0xB0, 0xC0, 0xD0, 0xE0}
     \<and> d ! 1 < 0x80 \<and> d ! 2 < 0x80"

lemma status_value: "s AND 0xF0 = (h :: u8) \<Longrightarrow> h OR (s AND 0x0F) = s"
proof -
  have "(s AND 0xF0) OR (s AND 0x0F) = s AND (0xF0 OR 0x0F)" by (rule bit.conj_disj_distrib [symmetric])
  also have "(0xF0 OR 0x0F :: u8) = - 1" by simp
  finally show "s AND 0xF0 = h \<Longrightarrow> h OR (s AND 0x0F) = s" by simp
qed

lemma bend_bytes:
  fixes b c :: u8
  assumes "b < 0x80"
  defines "v \<equiv> push_bit 7 (ucast c) OR ucast b :: u16"
  shows "ucast (v AND 0x7F) = b" and "ucast (drop_bit 7 v) = c"
proof -
  have self: "take_bit 7 b = b"
    using assms(1) by (simp add: take_bit_eq_mod word_unat_eq_iff unat_mod word_less_nat_alt)
  have low: "n < 7" if "bit b n" for n
  proof -
    have "bit (take_bit 7 b) n" using that by (simp only: self)
    then show ?thesis by (simp only: bit_take_bit_iff)
  qed
  have m: "(0x7F :: u16) = mask 7" by (simp add: mask_eq_exp_minus_1)
  show "ucast (v AND 0x7F) = b"
    unfolding v_def m by (rule bit_word_eqI) (auto simp: bit_simps dest: low)
  show "ucast (drop_bit 7 v) = c"
    unfolding v_def by (rule bit_word_eqI) (auto simp: bit_simps dest: low)
qed

lemma rack_event_message:
  assumes "channel_data d"
  shows "\<exists>event. midi_to_rack_event d = Some event \<and> rack_message (re_kind event) = played_message d"
proof -
  obtain s b c where d: "d = [s, b, c]" "b < 0x80"
    using assms by (auto simp: channel_data_def numeral_3_eq_3 length_Suc_conv)
  have "s AND 0xF0 \<in> {0x80, 0x90, 0xA0, 0xB0, 0xC0, 0xD0, 0xE0}" using assms d by (simp add: channel_data_def)
  then show ?thesis
    by (elim insertE emptyE)
      (simp_all add: d(1) midi_to_rack_event_def played_message_def rack_message_def status_value bend_bytes(1) [OF d(2)]
        bend_bytes(2) [OF d(2), unfolded drop_bit_or])
qed

text \<open>The two backends agree on when which message sounds.\<close>

abbreviation rack_played :: "rack_event list \<Rightarrow> (u32 \<times> bytes) list" where
  "rack_played events \<equiv> map (\<lambda>e. (re_sample_offset e, rack_message (re_kind e))) events"

abbreviation batch_played :: "(u32 \<times> bytes) list \<Rightarrow> (u32 \<times> bytes) list" where
  "batch_played events \<equiv> map (\<lambda>(offset, data). (offset, played_message data)) events"

lemma collect_agree:
  assumes "list_all (\<lambda>m. channel_data (mp_data m)) msgs" and "rack_played events3 = batch_played events2"
    and "collect_vst3 MIDI_EVENT_BATCH_CAPACITY msgs t events3 = (es3, n, t3)"
    and "collect_vst2 msgs t events2 = (es2, rest, t2)" and "length events2 \<le> MIDI_EVENT_BATCH_CAPACITY"
  shows "rack_played es3 = batch_played es2 \<and> map snd es2 = map snd events2 @ map mp_data (take n msgs)
    \<and> rest = drop n msgs \<and> t2 = t3 \<and> n \<le> length msgs"
  using assms
proof (induction msgs arbitrary: t events3 events2 n)
  case (Cons msg msgs)
  have len: "length events3 = length events2" using arg_cong [OF Cons.prems(2), of length] by simp
  from Cons.prems(1) obtain event where ev: "midi_to_rack_event (mp_data msg) = Some event"
    "rack_message (re_kind event) = played_message (mp_data msg)"
    using rack_event_message [of "mp_data msg"] by auto
  show ?case
  proof (cases "timing_contains t (mp_timestamp_us msg) \<and> length events2 < MIDI_EVENT_BATCH_CAPACITY")
    case False
    then show ?thesis using Cons.prems ev len by (auto split: if_splits)
  next
    case True
    obtain offset t1 where off: "timing_offset t (mp_timestamp_us msg) = (offset, t1)" by fastforce
    obtain k where k: "collect_vst3 MIDI_EVENT_BATCH_CAPACITY msgs t1
        (events3 @ [event\<lparr>re_sample_offset := offset\<rparr>]) = (es3, k, t3)" "n = Suc k"
      using Cons.prems(3) True ev off len by (auto split: prod.splits)
    have "collect_vst2 msgs t1 (events2 @ [(offset, mp_data msg)]) = (es2, rest, t2)"
      using Cons.prems(4) True off by simp
    from Cons.IH [OF _ _ k(1) this] Cons.prems(1,2) ev(2) True show ?thesis by (auto simp: k(2))
  qed
qed auto


lemma collect_vst2_prefix:
  "collect_vst2 msgs t events =
    (case collect_vst2 (take (MIDI_EVENT_BATCH_CAPACITY - length events) msgs) t events of
       (es, rest, t') \<Rightarrow> (es, rest @ drop (MIDI_EVENT_BATCH_CAPACITY - length events) msgs, t'))"
proof (induction msgs arbitrary: t events)
  case (Cons msg msgs)
  show ?case
  proof (cases "timing_contains t (mp_timestamp_us msg) \<and> length events < MIDI_EVENT_BATCH_CAPACITY")
    case False
    then show ?thesis
      by (cases "MIDI_EVENT_BATCH_CAPACITY - length events") auto
  next
    case True
    obtain offset t1 where off: "timing_offset t (mp_timestamp_us msg) = (offset, t1)" by fastforce
    from True have "MIDI_EVENT_BATCH_CAPACITY - length events
        = Suc (MIDI_EVENT_BATCH_CAPACITY - length (events @ [(offset, mp_data msg)]))" by auto
    then show ?thesis
      using Cons.IH [of t1 "events @ [(offset, mp_data msg)]"] True off by simp
  qed
qed simp

text \<open>
  C29: VST2 and VST3 plugins hear the same performance: with a backlog of channel messages and a plugin that
  accepts the batch, both paths take the same messages from the front of the backlog, each once and in order. The VST2 batch
  carries their bytes as they are. Read back as MIDI messages, the VST3 events are these messages at the same sample offsets: a
  Note On with velocity zero is a Note Off, program changes and channel pressure have no third byte. Both
  leave the same backlog and the same clock.
\<close>

theorem backends_agree:
  assumes "list_all (\<lambda>m. channel_data (mp_data m)) (cb_pending st)"
    and "MIDI_EVENT_BATCH_CAPACITY \<le> available"
    and "submit_pending_vst3_midi_at (\<lambda>es _. (True, es)) available last_frames sample_rate now_us sh st [] = (ok, st3, es3)"
    and "prepare_pending_vst2_midi last_frames sample_rate now_us sh st = (es2, st2)"
  shows "map (\<lambda>e. (re_sample_offset e, rack_message (re_kind e))) es3
      = map (\<lambda>(offset, data). (offset, played_message data)) es2
    \<and> map snd es2 @ map mp_data (cb_pending st2) = map mp_data (cb_pending st)
    \<and> st3 = st2"
proof -
  define oldest where "oldest = (case cb_pending st of [] \<Rightarrow> None | m # _ \<Rightarrow> Some (mp_timestamp_us m))"
  define t where "t = begin_block (cb_playback st) last_frames sample_rate now_us oldest"
  let ?C = MIDI_EVENT_BATCH_CAPACITY
  let ?front = "take ?C (cb_pending st)"
  obtain e3 n t3 where c3: "collect_vst3 ?C ?front t [] = (e3, n, t3)" by (metis prod_cases3)
  obtain e2 rest t2 where c2: "collect_vst2 ?front t [] = (e2, rest, t2)" by (metis prod_cases3)
  have "list_all (\<lambda>m. channel_data (mp_data m)) ?front"
    using assms(1) by (auto simp: list_all_iff dest: in_set_takeD)
  from collect_agree [OF this _ c3 c2]
  have agree: "rack_played e3 = batch_played e2" "rest = drop n ?front" "t2 = t3"
    "map snd e2 = map mp_data (take n ?front)" and n: "n \<le> length ?front"
    by simp_all
  have limit: "min available ?C = ?C" using assms(2) by simp
  have out2: "collect_vst2 (cb_pending st) t [] = (e2, rest @ drop ?C (cb_pending st), t2)"
    using collect_vst2_prefix [of "cb_pending st" t "[]"] c2 by simp
  have left: "rest @ drop ?C (cb_pending st) = drop n (cb_pending st)"
  proof -
    have "drop n (cb_pending st) = drop n (?front @ drop ?C (cb_pending st))" by simp
    also have "\<dots> = drop n ?front @ drop (n - length ?front) (drop ?C (cb_pending st))" by (rule drop_append)
    also have "n - length ?front = 0" using n by simp
    finally show ?thesis by (simp add: agree(2))
  qed
  have "es3 = e3" "st3 = st\<lparr>cb_pending := drop n (cb_pending st),
      cb_playback := commit_block t3 (next_midi_timestamp_us (st\<lparr>cb_pending := drop n (cb_pending st)\<rparr>) sh)\<rparr>"
    using assms(3) c3 limit
    by (auto simp: submit_pending_vst3_midi_at_def oldest_def [symmetric] t_def [symmetric] Let_def split: if_splits)
  moreover have "es2 = e2" "st2 = st\<lparr>cb_pending := drop n (cb_pending st),
      cb_playback := commit_block t2 (next_midi_timestamp_us (st\<lparr>cb_pending := drop n (cb_pending st)\<rparr>) sh)\<rparr>"
    using assms(4) out2
    by (auto simp: prepare_pending_vst2_midi_def oldest_def [symmetric] t_def [symmetric] Let_def left)
  moreover have "map snd e2 @ map mp_data (drop n (cb_pending st)) = map mp_data (cb_pending st)"
    using n by (simp add: agree(4) min_absorb1 flip: map_append)
  ultimately show ?thesis using agree(1,3) by simp
qed


theorem backends_agree_witness:
  "let sh = \<lparr>au_generation = 0, au_emergency = False, au_ring = []\<rparr>
   in map (\<lambda>(offset, data). (offset, played_message data))
        (fst (prepare_pending_vst2_midi 1000 100000 1010000 sh example_backlog))
     = map (\<lambda>e. (re_sample_offset e, rack_message (re_kind e)))
        (snd (snd (submit_pending_vst3_midi_at (\<lambda>es _. (True, es)) 512 1000 100000 1010000 sh example_backlog [])))"
proof -
  let ?sh = "\<lparr>au_generation = 0, au_emergency = False, au_ring = []\<rparr>"
  have pending: "list_all (\<lambda>m. channel_data (mp_data m)) (cb_pending example_backlog)" by code_simp
  obtain ok st3 es3 where vst3: "submit_pending_vst3_midi_at (\<lambda>es _. (True, es)) 512 1000 100000 1010000 ?sh example_backlog []
      = (ok, st3, es3)" by (metis prod_cases3)
  obtain es2 st2 where vst2: "prepare_pending_vst2_midi 1000 100000 1010000 ?sh example_backlog = (es2, st2)" by fastforce
  have "rack_played es3 = batch_played es2"
    using backends_agree [OF pending _ vst3 vst2] by (simp add: MIDI_EVENT_BATCH_CAPACITY_def)
  with vst2 vst3 show ?thesis by (simp add: Let_def)
qed

section \<open>Catching up\<close>

text \<open>Blocks every \<open>step\<close> microseconds while nothing is left unsubmitted: the cursor after each.\<close>

fun play_blocks :: "nat \<Rightarrow> nat \<Rightarrow> u32 \<Rightarrow> u64 \<Rightarrow> u64 \<Rightarrow> u64 option \<Rightarrow> u64 option" where
  "play_blocks 0 frames sample_rate step now_us cursor = cursor"
| "play_blocks (Suc k) frames sample_rate step now_us cursor =
     play_blocks k frames sample_rate step (now_us + step)
       (commit_block (begin_block cursor frames sample_rate now_us None) None)"

definition block_period_us :: "nat \<Rightarrow> u32 \<Rightarrow> u64" where
  "block_period_us frames sample_rate =
     max (saturating_mul (of_nat (max frames 1)) 1000000 div ucast (max sample_rate 1)) 1"

lemma timing_new_start: "bt_start_us (timing_new frames sample_rate now_us)
    = saturating_sub now_us (block_period_us frames sample_rate)"
  by (simp add: timing_new_def block_period_us_def Let_def)

lemma caught_up_stays: "play_blocks k frames sample_rate step now_us None = None"
  by (induction k arbitrary: now_us)
    (simp_all add: begin_block_def commit_block_def timing_new_def Let_def)

lemma late_step:
  assumes "c \<le> now_us"
  shows "commit_block (begin_block (Some c) frames sample_rate now_us None) None
    = (if unat c + 2 * unat (block_period_us frames sample_rate) < unat now_us
       then Some (of_nat (unat c + 2 * unat (block_period_us frames sample_rate))) else None)"
proof -
  let ?P = "block_period_us frames sample_rate"
  let ?fresh = "saturating_sub now_us ?P"
  have P: "1 \<le> unat ?P"
    using max.cobounded2 [of 1 "saturating_mul (of_nat (max frames 1)) 1000000 div ucast (max sample_rate 1) :: u64"]
    unfolding block_period_us_def word_le_nat_alt by simp
  show ?thesis
  proof (cases "c < ?fresh")
    case False
    then have "unat now_us \<le> unat c + unat ?P" by (simp add: word_less_nat_alt unat_saturating_sub)
    with False show ?thesis
      by (simp add: begin_block_def commit_block_def timing_new_start Let_def) (simp add: timing_new_def Let_def)
  next
    case True
    then have late: "unat c + unat ?P < unat now_us" by (simp add: word_less_nat_alt unat_saturating_sub)
    have period: "max (saturating_sub now_us ?fresh) 1 = ?P"
    proof -
      have "unat (saturating_sub now_us ?fresh) = unat ?P" using late by (simp add: unat_saturating_sub)
      then have "saturating_sub now_us ?fresh = ?P" by (simp add: word_unat_eq_iff)
      moreover have "1 \<le> ?P" by (simp add: block_period_us_def)
      ultimately show ?thesis by (simp only: max_absorb1)
    qed
    define e where "e = min (saturating_add c (saturating_mul ?P 2)) now_us"
    have e: "unat e = min (unat c + 2 * unat ?P) (unat now_us)"
      using unat_le_max [of now_us]
      by (simp add: e_def min_def word_le_nat_alt unat_saturating_add unat_saturating_mul)
    have "commit_block (begin_block (Some c) frames sample_rate now_us None) None
        = (if e < now_us then Some (max e c) else None)"
      using True period
      by (simp add: begin_block_def commit_block_def timing_new_start Let_def e_def) (simp add: timing_new_def Let_def)
    moreover have "unat c \<le> unat e" using late unfolding e by simp
    then have "max e c = e" by (simp add: max_absorb1 word_le_nat_alt)
    moreover have "e < now_us \<longleftrightarrow> unat c + 2 * unat ?P < unat now_us"
      unfolding word_less_nat_alt e min_less_iff_disj by simp
    moreover have "e = of_nat (unat c + 2 * unat ?P)" if "e < now_us"
    proof -
      from that e have "unat c + 2 * unat ?P = unat e" unfolding word_less_nat_alt by linarith
      then show ?thesis by simp
    qed
    ultimately show ?thesis by auto
  qed
qed

lemma catches_up:
  assumes "unat step \<le> unat (block_period_us frames sample_rate)"
    and "cursor \<le> now_us" and "unat now_us - unat cursor \<le> k * unat (block_period_us frames sample_rate)"
    and "unat now_us + Suc k * unat step < 2 ^ 64" and "k < n"
  shows "play_blocks n frames sample_rate step now_us (Some cursor) = None"
  using assms(2-)
proof (induction k arbitrary: n now_us cursor)
  case 0
  then obtain m where n: "n = Suc m" by (cases n) auto
  have "cursor = now_us" using 0 by (simp add: word_le_nat_alt word_unat_eq_iff)
  then show ?case by (simp add: n late_step caught_up_stays)
next
  case (Suc k)
  let ?P = "unat (block_period_us frames sample_rate)"
  obtain m where n: "n = Suc m" "k < m" using Suc.prems(4) by (cases n) auto
  show ?case
  proof (cases "unat cursor + 2 * ?P < unat now_us")
    case False
    then show ?thesis using Suc.prems(1) by (simp add: n late_step caught_up_stays)
  next
    case True
    let ?c = "of_nat (unat cursor + 2 * ?P) :: u64"
    have c: "unat ?c = unat cursor + 2 * ?P"
      using True unat_le_max [of now_us] unfolding unat_of_nat by simp
    have now: "unat (now_us + step) = unat now_us + unat step"
      using Suc.prems(3) by (simp add: unat_word_ariths)
    have "play_blocks m frames sample_rate step (now_us + step) (Some ?c) = None"
    proof (rule Suc.IH)
      show "?c \<le> now_us + step" using True c now by (simp only: word_le_nat_alt)
      have "unat now_us - unat cursor \<le> k * ?P + ?P" using Suc.prems(2) by simp
      then show "unat (now_us + step) - unat ?c \<le> k * ?P" unfolding c now using assms(1) by linarith
      show "unat (now_us + step) + Suc k * unat step < 2 ^ 64" unfolding now using Suc.prems(3) by simp
    qed (rule n(2))
    then show ?thesis using Suc.prems(1) True by (simp add: n late_step)
  qed
qed

text \<open>
  A late clock catches up: when blocks come at least once per period and every due message is submitted,
  the playback window, which replays late messages at twice the speed, reaches the present after at most one
  block per period of delay and one more, and stays there.
\<close>

theorem late_clock_catches_up:
  assumes "unat step \<le> unat (block_period_us frames sample_rate)"
    and "cursor \<le> now_us" and "unat now_us - unat cursor \<le> k * unat (block_period_us frames sample_rate)"
    and "unat now_us + Suc k * unat step < 2 ^ 64" and "k < n"
  shows "play_blocks n frames sample_rate step now_us (Some cursor) = None"
  using catches_up assms by blast


theorem late_clock_catches_up_witness:
  "play_blocks 12 480 48000 10000 1000000 (Some 900000) = None"
proof -
  have P: "unat (block_period_us 480 48000) = 10000"
    by (simp add: block_period_us_def saturating_mul_def)
  show ?thesis
    by (rule late_clock_catches_up [where k = 10]) (simp_all add: P)
qed


section \<open>What the backlog keeps\<close>

definition packet_ok :: "midi_packet \<Rightarrow> bool" where
  "packet_ok p \<longleftrightarrow> length (mp_data p) = 3 \<and> mp_len p \<le> 3"

lemma packet_from_bytes_ok:
  assumes "packet_from_bytes worker_qpc now_us ingress_qpc bytes age_us = Some p"
  shows "packet_ok p"
proof -
  obtain ok data where n: "normalize_prefix (length bytes) (bytes @ replicate (3 - length bytes) 0) = (ok, data)" by fastforce
  from assms n have b: "bytes \<noteq> []" "length bytes \<le> 3" and p: "mp_data p = data" "mp_len p = of_nat (length bytes)"
    by (auto simp: packet_from_bytes_def Let_def split: if_splits)
  obtain front where front: "normalize_message bytes = (True, front)" "data = front @ replicate (3 - length bytes) 0"
    using n assms by (auto simp: packet_from_bytes_def normalize_prefix_def split: prod.splits if_splits)
  have "length data = 3"
    using normalized_length [OF front(1)] b by (simp add: front(2))
  moreover have "mp_len p \<le> 3"
    using b unfolding p word_le_nat_alt by (simp add: unat_of_nat)
  ultimately show ?thesis by (simp add: packet_ok_def p)
qed

lemma note_on_not_critical:
  assumes "packet_ok p" and "is_note_on p"
  shows "\<not> packet_critical p"
proof -
  have three: "mp_len p = 3" using assms by (auto simp: packet_ok_def is_note_on_def word_le_nat_alt word_unat_eq_iff)
  obtain a b c where d: "mp_data p = [a, b, c]"
    using assms(1) by (auto simp: packet_ok_def numeral_3_eq_3 length_Suc_conv)
  show ?thesis
    using assms(2) by (auto simp: is_note_on_def packet_critical_def packet_status_def is_note_off_def is_cc64_off_def d three
        is_critical_release_message_def)
qed

lemma remove_first_Some:
  assumes "remove_first P xs = Some rest"
  obtains as x bs where "xs = as @ x # bs" "P x" "list_all (\<lambda>y. \<not> P y) as" "rest = as @ bs"
  using assms
proof (induction xs arbitrary: rest thesis)
  case (Cons y ys)
  show ?case
  proof (cases "P y")
    case True
    with Cons.prems(2) show ?thesis by (intro Cons.prems(1) [of "[]" y ys]) auto
  next
    case False
    then obtain r where r: "remove_first P ys = Some r" "rest = y # r" using Cons.prems(2) by auto
    obtain as x bs where "ys = as @ x # bs" "P x" "list_all (\<lambda>y. \<not> P y) as" "r = as @ bs"
      by (rule Cons.IH [OF _ r(1)])
    with False r show ?thesis by (intro Cons.prems(1) [of "y # as" x bs]) auto
  qed
qed simp

lemma remove_first_None: "remove_first P xs = None \<longleftrightarrow> list_all (\<lambda>x. \<not> P x) xs"
  by (induction xs) auto

text \<open>Every branch of \<open>enqueue_midi\<close>.\<close>

lemma enqueue_midi_cases:
  assumes "length (cb_pending st) \<le> MAX_PENDING_MIDI"
  obtains
    (refused) "\<not> packet_critical msg" "enqueue_midi msg st = count_drops 1 st"
  | (stored) "length (cb_pending st) < MAX_PENDING_MIDI"
      "enqueue_midi msg st = st\<lparr>cb_pending := cb_pending st @ [msg]\<rparr>"
  | (evicted) as x bs where "cb_pending st = as @ x # bs" "is_note_on x \<or> packet_critical msg \<and> \<not> packet_critical x"
      "enqueue_midi msg st = count_drops 1 (st\<lparr>cb_pending := as @ bs @ [msg]\<rparr>)"
  | (flooded) "packet_critical msg" "list_all packet_critical (cb_pending st)"
      "length (cb_pending st) = MAX_PENDING_MIDI"
      "enqueue_midi msg st = count_drops (length (cb_pending st))
         (st\<lparr>cb_pending := [msg], cb_playback := None, cb_needs_reset := True\<rparr>)"
proof -
  let ?pending = "cb_pending st"
  consider "\<not> packet_critical msg \<and> length ?pending \<ge> MAX_PENDING_MIDI - reserve MAX_PENDING_MIDI"
    | "packet_critical msg \<or> length ?pending < MAX_PENDING_MIDI - reserve MAX_PENDING_MIDI" "length ?pending < MAX_PENDING_MIDI"
    | "packet_critical msg" "length ?pending = MAX_PENDING_MIDI"
    using assms by fastforce
  then show thesis
  proof cases
    case 1
    then show thesis by (intro refused) (auto simp: enqueue_midi_def Let_def)
  next
    case 2
    then show thesis by (intro stored) (auto simp: enqueue_midi_def Let_def)
  next
    case full: 3
    show thesis
    proof (cases "remove_first is_note_on ?pending")
      case (Some rest)
      show thesis
        by (rule remove_first_Some [OF Some], rule evicted) (use full Some in \<open>auto simp: enqueue_midi_def Let_def\<close>)
    next
      case no_note: None
      show thesis
      proof (cases "remove_first (\<lambda>m. \<not> packet_critical m) ?pending")
        case (Some rest)
        show thesis
          by (rule remove_first_Some [OF Some], rule evicted)
            (use full no_note Some in \<open>auto simp: enqueue_midi_def Let_def\<close>)
      next
        case None
        then show thesis
          by (intro flooded)
            (use full no_note None remove_first_None [of "\<lambda>m. \<not> packet_critical m" "cb_pending st"]
              in \<open>auto simp: enqueue_midi_def Let_def\<close>)
      qed
    qed
  qed
qed


text \<open>
  C13: The backlog never loses a release quietly: it never exceeds its capacity, keeps the order of what it
  keeps, counts every message it gives up, ends with the new message when that is critical, and gives up a
  release (a note off, a pedal or sound off) only when it is full of releases alone; then it asks for a
  reset of the plugin, which silences every note, before the new message plays.
\<close>

theorem backlog_keeps_releases:
  assumes "length (cb_pending st) \<le> MAX_PENDING_MIDI" and "list_all packet_ok (cb_pending st)"
  shows "length (cb_pending (enqueue_midi msg st)) \<le> MAX_PENDING_MIDI
    \<and> subseq (cb_pending (enqueue_midi msg st)) (cb_pending st @ [msg])
    \<and> cb_drop_count (enqueue_midi msg st)
        = cb_drop_count st + of_nat (Suc (length (cb_pending st)) - length (cb_pending (enqueue_midi msg st)))
    \<and> (packet_critical msg \<longrightarrow> suffix [msg] (cb_pending (enqueue_midi msg st)))
    \<and> (filter packet_critical (cb_pending (enqueue_midi msg st)) = filter packet_critical (cb_pending st @ [msg])
       \<or> list_all packet_critical (cb_pending st) \<and> length (cb_pending st) = MAX_PENDING_MIDI
         \<and> cb_needs_reset (enqueue_midi msg st))"
  using assms(1)
proof (cases rule: enqueue_midi_cases [where msg = msg])
  case refused
  moreover have "subseq (cb_pending st) (cb_pending st @ [msg])"
    using list_emb_prefix [OF subseq_order.refl, of "cb_pending st" "[msg]"] by simp
  ultimately show ?thesis using assms(1) by (simp add: count_drops_def)
next
  case stored
  then show ?thesis by (simp add: suffix_def)
next
  case (evicted as x bs)
  have "\<not> packet_critical x"
    using evicted(2) note_on_not_critical assms(2) by (auto simp: evicted(1))
  moreover have "subseq (as @ bs @ [msg]) (as @ x # bs @ [msg])"
    by (rule list_emb_append_mono [OF _ list_emb_Cons]) simp_all
  moreover have "suffix [msg] (as @ bs @ [msg])" using suffixI [of "as @ bs @ [msg]" "as @ bs" "[msg]"] by simp
  ultimately show ?thesis using assms(1) by (simp add: evicted(1,3) count_drops_def)
next
  case flooded
  moreover have "subseq [msg] (cb_pending st @ [msg])"
    by (rule suffix_imp_subseq) (simp add: suffix_def)
  ultimately show ?thesis by (simp add: count_drops_def suffix_def MAX_PENDING_MIDI_def)
qed

theorem backlog_keeps_releases_witness:
  "cb_pending (enqueue_midi (example_packet 5 [0x80, 61, 0]) example_backlog) \<noteq> []"
proof -
  have c: "packet_critical (example_packet 5 [0x80, 61, 0])" by code_simp
  have ok: "list_all packet_ok (cb_pending example_backlog)" by code_simp
  have len: "length (cb_pending example_backlog) \<le> MAX_PENDING_MIDI"
    by (simp add: example_backlog_def MAX_PENDING_MIDI_def)
  from backlog_keeps_releases [OF len ok, of "example_packet 5 [0x80, 61, 0]"] c show ?thesis by auto
qed

text \<open>
  The state of the callback's MIDI is sound: the backlog is bounded, its packets are whole, and each belongs
  to the generation the callback is in.
\<close>

definition midi_state_ok :: "'z callback_midi_scheme \<Rightarrow> bool" where
  "midi_state_ok st \<longleftrightarrow> length (cb_pending st) \<le> MAX_PENDING_MIDI \<and> list_all packet_ok (cb_pending st)
     \<and> list_all (\<lambda>m. mp_generation m = cb_midi_generation st) (cb_pending st)"

lemma enqueue_midi_ok:
  assumes "midi_state_ok st" and "packet_ok msg" and "mp_generation msg = cb_midi_generation st"
  shows "midi_state_ok (enqueue_midi msg st)" and "cb_midi_generation (enqueue_midi msg st) = cb_midi_generation st"
    and "cb_needs_reset st \<Longrightarrow> cb_needs_reset (enqueue_midi msg st)"
proof -
  have len: "length (cb_pending st) \<le> MAX_PENDING_MIDI" using assms(1) by (simp add: midi_state_ok_def)
  show "midi_state_ok (enqueue_midi msg st)"
    using len by (cases rule: enqueue_midi_cases [where msg = msg])
      (use assms in \<open>auto simp: midi_state_ok_def count_drops_def MAX_PENDING_MIDI_def list_all_iff\<close>)
  show "cb_midi_generation (enqueue_midi msg st) = cb_midi_generation st"
    using len by (cases rule: enqueue_midi_cases [where msg = msg]) (simp_all add: count_drops_def)
  show "cb_needs_reset (enqueue_midi msg st)" if "cb_needs_reset st"
    using len by (cases rule: enqueue_midi_cases [where msg = msg]) (simp_all add: count_drops_def that)
qed

lemma observe_ok:
  "midi_state_ok st \<Longrightarrow> midi_state_ok (observe_midi_generation g st)"
  "cb_midi_generation (observe_midi_generation g st) = g"
  "cb_needs_reset (observe_midi_generation g st) \<longleftrightarrow> cb_needs_reset st \<or> g \<noteq> cb_midi_generation st"
  by (auto simp: observe_midi_generation_def midi_state_ok_def silence_output_def)

text \<open>What the other threads may do: they push whole packets and never take from the ring.\<close>

definition moves_ok :: "(nat \<Rightarrow> audio_shared \<Rightarrow> audio_shared) \<Rightarrow> bool" where
  "moves_ok moves \<longleftrightarrow> (\<forall>i sh. list_all packet_ok (au_ring sh) \<longrightarrow> list_all packet_ok (au_ring (moves i sh)))"

lemma drain_ring_ok:
  assumes "moves_ok moves" and "midi_state_ok st" and "list_all packet_ok (au_ring sh)"
    and "drain_ring moves k st sh = (st', sh')"
  shows "midi_state_ok st' \<and> (cb_needs_reset st \<longrightarrow> cb_needs_reset st')
    \<and> (cb_midi_generation st' = cb_midi_generation st \<or> cb_needs_reset st')"
  using assms(2-)
proof (induction k arbitrary: st sh)
  case (Suc k)
  define sh1 where "sh1 = moves (2 * k) sh"
  have sh1: "list_all packet_ok (au_ring sh1)" using assms(1) Suc.prems(2) by (simp add: sh1_def moves_ok_def)
  show ?case
  proof (cases "au_ring sh1")
    case Nil
    then show ?thesis using Suc.prems by (simp add: sh1_def Let_def)
  next
    case (Cons msg ring)
    define sh2 where "sh2 = moves (2 * k + 1) (sh1\<lparr>au_ring := ring\<rparr>)"
    define st1 where "st1 = observe_midi_generation (au_generation sh2) st"
    define st2 where "st2 = (if mp_generation msg = cb_midi_generation st1 then enqueue_midi msg st1 else st1)"
    have "list_all packet_ok (au_ring sh2)" using assms(1) sh1 Cons by (simp add: sh2_def moves_ok_def)
    moreover have st1: "midi_state_ok st1" "cb_needs_reset st \<longrightarrow> cb_needs_reset st1"
        "cb_midi_generation st1 = cb_midi_generation st \<or> cb_needs_reset st1"
      using Suc.prems(1) by (auto simp: st1_def observe_ok)
    moreover have "midi_state_ok st2" "cb_needs_reset st1 \<longrightarrow> cb_needs_reset st2"
        "cb_midi_generation st2 = cb_midi_generation st1"
      using enqueue_midi_ok [of st1 msg] st1(1) sh1 Cons by (auto simp: st2_def)
    moreover have "drain_ring moves k st2 sh2 = (st', sh')"
      using Suc.prems(3) Cons by (simp add: sh1_def sh2_def st1_def st2_def Let_def cong: if_cong split del: if_split)
    ultimately show ?thesis using Suc.IH [of st2 sh2] by metis
  qed
qed simp

text \<open>
  C12: After a drain only the current performance can sound: every message left in the backlog belongs to the
  generation the callback is in, the backlog is within its capacity, and when that generation is not the one
  of the previous block, or an emergency reset was asked for, the plugin is reset first. Nothing that arrives
  meanwhile on another thread changes this.
\<close>

theorem drained_messages_are_current:
  assumes "moves_ok moves" and "midi_state_ok st" and "list_all packet_ok (au_ring sh)"
    and "drain_midi moves now_us st sh = (st', sh')"
  shows "midi_state_ok st'
    \<and> (cb_needs_reset st \<or> au_emergency sh \<or> cb_midi_generation st' \<noteq> cb_midi_generation st
       \<longrightarrow> cb_needs_reset st')"
proof -
  obtain st1 sh1 where e: "take_emergency st sh = (st1, sh1)" by fastforce
  define sh2 where "sh2 = moves (2 * MIDI_DRAIN_BUDGET_PER_CALLBACK) sh1"
  define st2 where "st2 = observe_midi_generation (au_generation sh2) st1"
  obtain st3 sh3 where d: "drain_ring moves MIDI_DRAIN_BUDGET_PER_CALLBACK st2 sh2 = (st3, sh3)" by fastforce
  have st1: "midi_state_ok st1" "cb_needs_reset st \<or> au_emergency sh \<longrightarrow> cb_needs_reset st1"
      "cb_midi_generation st1 = cb_midi_generation st" "au_ring sh1 = au_ring sh"
    using e assms(2) by (auto simp: take_emergency_def silence_output_def midi_state_ok_def split: if_splits)
  have st2: "midi_state_ok st2" "cb_needs_reset st1 \<longrightarrow> cb_needs_reset st2"
      "cb_midi_generation st2 = cb_midi_generation st1 \<or> cb_needs_reset st2"
    using st1(1) by (auto simp: st2_def observe_ok)
  have ring: "list_all packet_ok (au_ring sh2)"
    using assms(1,3) st1(4) by (simp add: sh2_def moves_ok_def)
  have st3: "midi_state_ok st3 \<and> (cb_needs_reset st2 \<longrightarrow> cb_needs_reset st3)
      \<and> (cb_midi_generation st3 = cb_midi_generation st2 \<or> cb_needs_reset st3)"
    by (rule drain_ring_ok [OF assms(1) st2(1) ring d])
  have "midi_state_ok st' = midi_state_ok st3" "cb_needs_reset st' = cb_needs_reset st3"
      "cb_midi_generation st' = cb_midi_generation st3"
    using assms(4) e d by (auto simp: drain_midi_def sh2_def st2_def Let_def midi_state_ok_def)
  then show ?thesis using st1 st2 st3 by auto
qed

theorem drained_messages_are_current_witness:
  "cb_needs_reset (fst (drain_midi (\<lambda>_ sh. sh) 7 example_backlog
     \<lparr>au_generation = 4, au_emergency = True, au_ring = []\<rparr>))"
proof -
  let ?sh = "\<lparr>au_generation = 4, au_emergency = True, au_ring = []\<rparr>"
  obtain st' sh' where d: "drain_midi (\<lambda>_ sh. sh) 7 example_backlog ?sh = (st', sh')" by fastforce
  have "midi_state_ok example_backlog"
    by (simp add: midi_state_ok_def example_backlog_def MAX_PENDING_MIDI_def packet_ok_def example_packet_def)
  from drained_messages_are_current [OF _ this _ d] show ?thesis by (simp add: d moves_ok_def)
qed

end
