(* ===== verification/Render_Ahead.thy ===== *)
theory Render_Ahead
  imports Settings
begin

text \<open>
  The audio rendered ahead of the driver (\<open>audio/render_ahead.rs\<close>): a fixed set of blocks that circulates
  between the thread that runs the plugin and the callback of the audio driver, over two rings. One
  \<open>render_rig\<close> holds what the two threads and the control thread share, the rings, and the part each side
  keeps for itself. The operations of the other threads are the \<open>rig_action\<close>s; the driver's callback is
  written with the points at which the other threads may act in between. The arithmetic of samples is a
  parameter (\<open>sample_ops\<close>).
\<close>

section \<open>State\<close>

record 'd sample_ops =
  so_ratio :: "nat \<Rightarrow> nat \<Rightarrow> f32"
  so_fade :: "nat \<Rightarrow> nat \<Rightarrow> f32"
  so_times :: "f32 \<Rightarrow> f32 \<Rightarrow> f32"
  so_device :: "f32 \<Rightarrow> 'd"

text \<open>
  \<open>so_ratio a b\<close> is \<open>a as f32 / b as f32\<close>, \<open>so_fade a b\<close> is \<open>1.0 - a as f32 / b as f32\<close>, \<open>so_times\<close> the product,
  \<open>so_device\<close> the conversion \<open>device_sample\<close> to the format of the device.
\<close>

definition one_f32 :: f32 where "one_f32 = 0x3F800000"

record render_request =
  rr_frames :: nat
  rr_source_end_us :: u64

record audio_block =
  ab_samples :: "f32 list"
  ab_request :: render_request
  ab_generation :: u64
  ab_prime_index :: "nat option"

text \<open>The phases are 0 paused, 1 priming, 2 active, 3 stopped.\<close>

record render_rig =
  rg_phase :: u8
  rg_anchor_us :: u64
  rg_frames :: nat
  rg_channels :: nat
  rg_max_frames :: nat
  rg_sample_rate :: u32
  rg_blocks :: nat
  rg_gate_closed :: bool
  rg_midi_generation :: u64
  rg_emergency :: bool
  rg_running :: bool
  rg_ahead_samples :: u32
  rg_queue_frames :: u64
  rg_underflows :: u64
  rg_missing_frames :: u64
  rg_reset_silence_frames :: u64
  rg_fatal_error :: u32
  rg_recovery_requests :: u32
  rg_free :: "audio_block list"
  rg_ready :: "audio_block list"
  rp_pending :: "audio_block option"
  rp_waiting_for_source :: bool
  rp_rendering :: "audio_block option"
  ao_current :: "audio_block option"
  ao_offset :: nat
  ao_last :: "f32 list"
  ao_recovering :: bool
  ao_last_endpoint :: u64
  ao_generation :: u64

text \<open>\<open>channel\<close>: the generation, the reset flag and the gate belong to the caller's telemetry.\<close>

definition render_channel ::
  "nat \<Rightarrow> nat \<Rightarrow> nat \<Rightarrow> u32 \<Rightarrow> u32 \<Rightarrow> u64 \<Rightarrow> bool \<Rightarrow> bool \<Rightarrow> render_rig option" where
  "render_channel frames channels max_frames sample_rate blocks generation emergency gate_closed =
     (if \<not> (1 \<le> blocks \<and> blocks \<le> 2) \<or> frames = 0 \<or> frames > max_frames \<or> channels = 0 \<or> sample_rate = 0
      then None
      else Some
        \<lparr>rg_phase = 0, rg_anchor_us = 0, rg_frames = frames, rg_channels = channels, rg_max_frames = max_frames,
         rg_sample_rate = sample_rate, rg_blocks = unat blocks, rg_gate_closed = gate_closed,
         rg_midi_generation = generation, rg_emergency = emergency, rg_running = False, rg_ahead_samples = 0,
         rg_queue_frames = 0, rg_underflows = 0, rg_missing_frames = 0, rg_reset_silence_frames = 0,
         rg_fatal_error = 0, rg_recovery_requests = 0,
         rg_free = map (\<lambda>index. \<lparr>ab_samples = replicate (max_frames * channels) 0,
             ab_request = \<lparr>rr_frames = frames, rr_source_end_us = 0\<rparr>, ab_generation = 0,
             ab_prime_index = Some index\<rparr>) [0..<unat blocks],
         rg_ready = [], rp_pending = None, rp_waiting_for_source = False, rp_rendering = None,
         ao_current = None, ao_offset = 0, ao_last = replicate channels 0, ao_recovering = False,
         ao_last_endpoint = 0, ao_generation = 0\<rparr>)"

section \<open>Control\<close>

definition set_frames :: "nat \<Rightarrow> render_rig \<Rightarrow> render_rig" where
  "set_frames frames r =
     (if frames > 0 \<and> frames \<le> rg_max_frames r
      then r\<lparr>rg_frames := frames, rg_ahead_samples := of_nat (frames * rg_blocks r)\<rparr> else r)"

definition prime_at :: "u64 \<Rightarrow> render_rig \<Rightarrow> render_rig" where
  "prime_at now_us r = (set_frames (rg_frames r) (r\<lparr>rg_anchor_us := now_us\<rparr>))\<lparr>rg_phase := 1\<rparr>"

definition activate :: "render_rig \<Rightarrow> render_rig" where
  "activate r = r\<lparr>rg_phase := 2, rg_running := True\<rparr>"

definition stop_rendering :: "render_rig \<Rightarrow> render_rig" where
  "stop_rendering r = r\<lparr>rg_phase := 3, rg_running := False\<rparr>"

section \<open>The rendering thread\<close>

definition idle_wait :: "u64 \<Rightarrow> render_rig \<Rightarrow> u64" where
  "idle_wait now_us r =
     (if rp_waiting_for_source r then
        min (case rp_pending r of None \<Rightarrow> 0
             | Some block \<Rightarrow> saturating_sub (rr_source_end_us (ab_request block)) now_us) 2000
      else 2000)"

definition period_us :: "nat \<Rightarrow> render_rig \<Rightarrow> u64" where
  "period_us frames r = of_nat frames * 1000000 div ucast (rg_sample_rate r)"

definition prime_block :: "audio_block \<Rightarrow> render_rig \<Rightarrow> audio_block" where
  "prime_block block r =
     (case ab_prime_index block of
        None \<Rightarrow> block
      | Some index \<Rightarrow>
          block\<lparr>ab_prime_index := None,
                ab_request := \<lparr>rr_frames = rg_frames r,
                  rr_source_end_us = saturating_sub (rg_anchor_us r)
                    (of_nat (rg_blocks r - index) * period_us (rg_frames r) r)\<rparr>\<rparr>)"

text \<open>
  \<open>render_next_at\<close> up to the call of the renderer: the block it takes is then in \<open>rp_rendering\<close>. The rings
  hold \<open>rg_blocks\<close> blocks.
\<close>

definition render_begin :: "u64 \<Rightarrow> render_rig \<Rightarrow> render_rig" where
  "render_begin now_us r =
     (let r = r\<lparr>rp_waiting_for_source := False\<rparr> in
      if \<not> (1 \<le> rg_phase r \<and> rg_phase r \<le> 2) \<or> rg_gate_closed r \<or> length (rg_ready r) \<ge> rg_blocks r then r
      else
        let (taken, r) =
          (case rp_pending r of
             Some block \<Rightarrow> (Some block, r\<lparr>rp_pending := None\<rparr>)
           | None \<Rightarrow> (case rg_free r of
               [] \<Rightarrow> (None, r)
             | block # rest \<Rightarrow> (Some block, r\<lparr>rg_free := rest\<rparr>)))
        in case taken of
             None \<Rightarrow> r
           | Some block \<Rightarrow>
               let block = prime_block block r
               in if rr_source_end_us (ab_request block) > now_us
                  then r\<lparr>rp_waiting_for_source := True, rp_pending := Some block\<rparr>
                  else r\<lparr>rp_rendering := Some block\<rparr>)"

text \<open>
  The rest of \<open>render_next_at\<close>: \<open>rendered\<close> is what the renderer left in the samples, \<open>generation\<close> its result.
\<close>

definition render_finish :: "(nat \<Rightarrow> f32) \<Rightarrow> u64 option \<Rightarrow> render_rig \<Rightarrow> bool \<times> render_rig" where
  "render_finish rendered generation r =
     (case rp_rendering r of
        None \<Rightarrow> (False, r)
      | Some block \<Rightarrow>
          let r = r\<lparr>rp_rendering := None\<rparr>;
              count = rr_frames (ab_request block) * rg_channels r;
              block = block\<lparr>ab_samples := map rendered [0..<count] @ drop count (ab_samples block)\<rparr>
          in case generation of
               None \<Rightarrow> (False, r\<lparr>rp_pending := Some block\<rparr>)
             | Some generation \<Rightarrow>
                 if generation \<noteq> rg_midi_generation r \<or> rg_emergency r
                 then (False, r\<lparr>rp_pending := Some block\<rparr>)
                 else
                   let block = block\<lparr>ab_generation := generation\<rparr>;
                       queued = rg_queue_frames r + of_nat (rr_frames (ab_request block))
                   in if length (rg_ready r) \<ge> rg_blocks r
                      then (False, r\<lparr>rg_queue_frames := queued - of_nat (rr_frames (ab_request block)),
                              rp_pending := Some block\<rparr>)
                      else (True, r\<lparr>rg_queue_frames := queued, rg_ready := rg_ready r @ [block]\<rparr>))"

section \<open>What the other threads do\<close>

datatype rig_action =
    Begin u64 | Finish "nat \<Rightarrow> f32" "u64 option" | Set_frames nat | Prime_at u64 | Activate | Stop
  | New_generation | Take_emergency | Ask_reset | Gate bool

text \<open>
  \<open>Take_emergency\<close> is the renderer's \<open>drain_midi\<close>, which takes the reset flag and opens a new generation.
\<close>

fun act :: "rig_action \<Rightarrow> render_rig \<Rightarrow> render_rig" where
  "act (Begin now_us) r = (if rp_rendering r = None then render_begin now_us r else r)"
| "act (Finish rendered generation) r = snd (render_finish rendered generation r)"
| "act (Set_frames frames) r = set_frames frames r"
| "act (Prime_at now_us) r = prime_at now_us r"
| "act Activate r = activate r"
| "act Stop r = stop_rendering r"
| "act New_generation r = r\<lparr>rg_midi_generation := rg_midi_generation r + 1\<rparr>"
| "act Take_emergency r =
     (if rg_emergency r then r\<lparr>rg_emergency := False, rg_midi_generation := rg_midi_generation r + 1\<rparr> else r)"
| "act Ask_reset r = r\<lparr>rg_emergency := True\<rparr>"
| "act (Gate closed) r = r\<lparr>rg_gate_closed := closed\<rparr>"

definition acts :: "rig_action list \<Rightarrow> render_rig \<Rightarrow> render_rig" where
  "acts = fold act"

section \<open>The driver's callback\<close>

definition return_current :: "u64 \<Rightarrow> nat \<Rightarrow> nat \<Rightarrow> render_rig \<Rightarrow> bool \<times> render_rig" where
  "return_current now_us written all_frames r =
     (case ao_current r of
        None \<Rightarrow> (True, r)
      | Some block \<Rightarrow>
          let frames = rg_frames r;
              period = period_us frames r;
              endpoint = saturating_sub now_us (period_us (all_frames - written) r);
              previous = max (ao_last_endpoint r) (saturating_sub (rg_anchor_us r) period);
              minimum = (if ao_last_endpoint r = 0 \<and> rg_anchor_us r < period then 0
                         else saturating_add previous period);
              r = r\<lparr>ao_last_endpoint := max endpoint minimum\<rparr>;
              block = block\<lparr>ab_request := \<lparr>rr_frames = frames, rr_source_end_us = ao_last_endpoint r\<rparr>\<rparr>
          in if length (rg_free r) \<ge> rg_blocks r
             then (False, r\<lparr>ao_current := Some block, rg_fatal_error := 14\<rparr>)
             else (True, r\<lparr>ao_current := None, rg_free := rg_free r @ [block], ao_offset := 0\<rparr>))"

definition take_ready :: "render_rig \<Rightarrow> render_rig" where
  "take_ready r =
     (case ao_current r of
        Some _ \<Rightarrow> r
      | None \<Rightarrow>
          (case rg_ready r of
             [] \<Rightarrow> r\<lparr>ao_offset := 0\<rparr>
           | block # ready \<Rightarrow> r\<lparr>ao_current := Some block, ao_offset := 0, rg_ready := ready\<rparr>))"

text \<open>The samples of a run of frames with their gain.\<close>

definition played_samples :: "'d sample_ops \<Rightarrow> audio_block \<Rightarrow> nat \<Rightarrow> nat \<Rightarrow> nat \<Rightarrow> nat \<Rightarrow> render_rig \<Rightarrow> f32 list" where
  "played_samples ops block frames written all_frames channels r =
     map (\<lambda>i. so_times ops (ab_samples block ! (ao_offset r * channels + i))
                (if ao_recovering r then so_ratio ops (written + i div channels + 1) all_frames else one_f32))
       [0..<frames * channels]"

definition overwrite :: "nat \<Rightarrow> 'd list \<Rightarrow> 'd list \<Rightarrow> 'd list" where
  "overwrite at new data = take at data @ new @ drop (at + length new) data"

text \<open>
  One turn of the loop. The result says whether to go on. \<open>moves\<close> are the actions of the other threads before
  the pop, before the check of the block and before the block is returned.
\<close>

definition copy_turn ::
  "'d sample_ops \<Rightarrow> (nat \<Rightarrow> rig_action list) \<Rightarrow> nat \<Rightarrow> u64 \<Rightarrow> nat \<Rightarrow> 'd list \<Rightarrow> nat \<Rightarrow> nat \<Rightarrow> render_rig
     \<Rightarrow> bool \<times> 'd list \<times> nat \<times> nat \<times> render_rig" where
  "copy_turn ops moves k now_us all_frames data written discarded r =
     (let r = take_ready (acts (moves (3 * k)) r);
          r = acts (moves (3 * k + 1)) r
      in case ao_current r of
           None \<Rightarrow> (False, data, written, discarded, r)
         | Some block \<Rightarrow>
             if ab_generation block \<noteq> rg_midi_generation r \<or> rg_emergency r then
               let r = r\<lparr>rg_queue_frames := rg_queue_frames r - of_nat (rr_frames (ab_request block) - ao_offset r),
                         ao_offset := rr_frames (ab_request block)\<rparr>;
                   (returned, r) = return_current now_us written all_frames (acts (moves (3 * k + 2)) r)
               in if \<not> returned then (False, data, written, discarded, r)
                  else
                    let r = r\<lparr>ao_recovering := True, ao_last := map (\<lambda>_. 0) (ao_last r)\<rparr>
                    in (discarded + 1 < rg_blocks r, data, written, discarded + 1, r)
             else
               let frames = min (rr_frames (ab_request block) - ao_offset r) (all_frames - written);
                   channels = rg_channels r;
                   played = played_samples ops block frames written all_frames channels r;
                   data = overwrite (written * channels) (map (so_device ops) played) data;
                   r = r\<lparr>ao_last := (if frames = 0 then ao_last r else drop ((frames - 1) * channels) played),
                         ao_offset := ao_offset r + frames,
                         rg_queue_frames := rg_queue_frames r - of_nat frames\<rparr>;
                   written = written + frames;
                   r = acts (moves (3 * k + 2)) r
               in if ao_offset r = rr_frames (ab_request block) then
                    let (returned, r) = return_current now_us written all_frames r
                    in (returned, data, written, discarded, r)
                  else (True, data, written, discarded, r))"

text \<open>\<open>while written < total\<close>, with fuel.\<close>

fun copy_loop ::
  "'d sample_ops \<Rightarrow> (nat \<Rightarrow> rig_action list) \<Rightarrow> nat \<Rightarrow> u64 \<Rightarrow> nat \<Rightarrow> 'd list \<Rightarrow> nat \<Rightarrow> nat \<Rightarrow> render_rig
     \<Rightarrow> ('d list \<times> nat \<times> nat \<times> render_rig) option" where
  "copy_loop ops moves fuel now_us all_frames data written discarded r =
     (if written \<ge> all_frames then Some (data, written, discarded, r)
      else case fuel of
        0 \<Rightarrow> None
      | Suc k \<Rightarrow>
          (case copy_turn ops moves k now_us all_frames data written discarded r of
             (continue, data, written, discarded, r) \<Rightarrow>
               if continue then copy_loop ops moves k now_us all_frames data written discarded r
               else Some (data, written, discarded, r)))"

declare copy_loop.simps [simp del]

text \<open>After the loop: the missing frames fade from the last sample to silence.\<close>

definition finish_copy ::
  "'d sample_ops \<Rightarrow> nat \<Rightarrow> bool \<Rightarrow> 'd list \<Rightarrow> nat \<Rightarrow> nat \<Rightarrow> render_rig \<Rightarrow> nat \<times> 'd list \<times> render_rig" where
  "finish_copy ops all_frames resetting data written discarded r =
     (let missing = all_frames - written in
      if missing > 0 then
        let channels = rg_channels r;
            fade = map (\<lambda>i. so_device ops (so_times ops (ao_last r ! (i mod channels))
                                (so_fade ops (i div channels + 1) missing))) [0..<missing * channels];
            data = overwrite (written * channels) fade data;
            r = r\<lparr>ao_last := map (\<lambda>_. 0) (ao_last r), ao_recovering := True\<rparr>;
            r = (if resetting \<or> discarded > 0
                 then r\<lparr>rg_reset_silence_frames := rg_reset_silence_frames r + of_nat missing\<rparr>
                 else r\<lparr>rg_underflows := rg_underflows r + 1,
                        rg_missing_frames := rg_missing_frames r + of_nat missing\<rparr>)
        in (missing, data, r)
      else (missing, data, r\<lparr>ao_recovering := False\<rparr>))"

definition copy_into ::
  "'d sample_ops \<Rightarrow> (nat \<Rightarrow> rig_action list) \<Rightarrow> nat \<Rightarrow> u64 \<Rightarrow> nat \<Rightarrow> render_rig
     \<Rightarrow> (nat \<times> 'd list \<times> render_rig) option" where
  "copy_into ops moves fuel now_us data_len r =
     (let data = replicate data_len (so_device ops 0);
          all_frames = data_len div rg_channels r
      in if rg_phase r \<noteq> 2 then Some (0, data, r)
         else if rg_gate_closed r then Some (0, data, r\<lparr>ao_recovering := True\<rparr>)
         else if all_frames > rg_max_frames r then
           let r = (if rg_fatal_error r = 0
                    then r\<lparr>rg_fatal_error := 13, rg_recovery_requests := rg_recovery_requests r + 1\<rparr> else r)
           in Some (all_frames, data, r\<lparr>rg_emergency := True\<rparr>)
         else if all_frames = 0 then Some (0, data, r)
         else
           let generation = rg_midi_generation r;
               resetting = generation \<noteq> ao_generation r \<or> rg_emergency r;
               r = r\<lparr>ao_generation := generation\<rparr>;
               r = (if resetting then r\<lparr>ao_last := map (\<lambda>_. 0) (ao_last r), ao_recovering := True\<rparr> else r);
               r = r\<lparr>rg_frames := all_frames, rg_ahead_samples := of_nat (all_frames * rg_blocks r)\<rparr>
           in map_option
                (\<lambda>(data, written, discarded, r). finish_copy ops all_frames resetting data written discarded r)
                (copy_loop ops moves fuel now_us all_frames data 0 0 r))"


section \<open>Where the blocks are\<close>

definition of_option :: "'a option \<Rightarrow> 'a list" where
  "of_option x = (case x of None \<Rightarrow> [] | Some a \<Rightarrow> [a])"

lemma of_option_simps [simp]: "of_option None = []" "of_option (Some a) = [a]"
  by (simp_all add: of_option_def)

definition rig_blocks :: "render_rig \<Rightarrow> audio_block list" where
  "rig_blocks r = rg_free r @ rg_ready r @ of_option (rp_pending r) @ of_option (rp_rendering r)
     @ of_option (ao_current r)"

definition block_frames :: "audio_block \<Rightarrow> nat" where
  "block_frames block = rr_frames (ab_request block)"

text \<open>What is left of the block being played.\<close>

fun rest_frames :: "audio_block option \<Rightarrow> nat \<Rightarrow> nat" where
  "rest_frames None offset = 0"
| "rest_frames (Some block) offset = block_frames block - offset"

fun offset_ok :: "audio_block option \<Rightarrow> nat \<Rightarrow> bool" where
  "offset_ok None offset = True"
| "offset_ok (Some block) offset \<longleftrightarrow> offset \<le> block_frames block"

definition queued_frames :: "render_rig \<Rightarrow> nat" where
  "queued_frames r = sum_list (map block_frames (rg_ready r)) + rest_frames (ao_current r) (ao_offset r)"

definition block_ok :: "render_rig \<Rightarrow> audio_block \<Rightarrow> bool" where
  "block_ok r block \<longleftrightarrow> 0 < block_frames block \<and> block_frames block \<le> rg_max_frames r
     \<and> length (ab_samples block) = rg_max_frames r * rg_channels r"

definition rig_shape :: "render_rig \<Rightarrow> bool" where
  "rig_shape r \<longleftrightarrow> 1 \<le> rg_blocks r \<and> 0 < rg_channels r \<and> 0 < rg_frames r \<and> rg_frames r \<le> rg_max_frames r
     \<and> length (ao_last r) = rg_channels r \<and> rg_fatal_error r \<noteq> 14"

definition rig_ok :: "render_rig \<Rightarrow> bool" where
  "rig_ok r \<longleftrightarrow> rig_shape r \<and> length (rig_blocks r) = rg_blocks r
     \<and> list_all (block_ok r) (rig_blocks r)
     \<and> (rp_rendering r = None \<or> rp_pending r = None)
     \<and> offset_ok (ao_current r) (ao_offset r) \<and> rg_queue_frames r = of_nat (queued_frames r)"

lemmas rig_defs = rig_ok_def rig_shape_def rig_blocks_def queued_frames_def block_ok_def block_frames_def

text \<open>What no action of another thread touches.\<close>

definition output_view ::
  "render_rig \<Rightarrow> audio_block option \<times> nat \<times> f32 list \<times> bool \<times> u64 \<times> u64 \<times> nat \<times> nat \<times> nat \<times> u32" where
  "output_view r = (ao_current r, ao_offset r, ao_last r, ao_recovering r, ao_last_endpoint r, ao_generation r,
     rg_channels r, rg_max_frames r, rg_blocks r, rg_sample_rate r)"

lemma prime_block_ok [simp]:
  "rig_shape r \<Longrightarrow> block_ok r block \<Longrightarrow> block_ok r (prime_block block r)"
  by (auto simp: prime_block_def block_ok_def rig_shape_def block_frames_def split: option.split)

text \<open>Every outcome of \<open>render_begin\<close>.\<close>

lemma render_begin_cases:
  obtains
    (idle) "render_begin now_us r = r\<lparr>rp_waiting_for_source := False\<rparr>"
  | (again) block where "rp_pending r = Some block"
      "rr_source_end_us (ab_request (prime_block block r)) \<le> now_us"
      "render_begin now_us r = r\<lparr>rp_waiting_for_source := False, rp_pending := None,
         rp_rendering := Some (prime_block block r)\<rparr>"
  | (fresh) block rest where "rp_pending r = None" "rg_free r = block # rest"
      "rr_source_end_us (ab_request (prime_block block r)) \<le> now_us"
      "render_begin now_us r = r\<lparr>rp_waiting_for_source := False, rg_free := rest,
         rp_rendering := Some (prime_block block r)\<rparr>"
  | (early) block where "rp_pending r = Some block" "now_us < rr_source_end_us (ab_request (prime_block block r))"
      "render_begin now_us r = r\<lparr>rp_waiting_for_source := True, rp_pending := Some (prime_block block r)\<rparr>"
  | (early_fresh) block rest where "rp_pending r = None" "rg_free r = block # rest"
      "now_us < rr_source_end_us (ab_request (prime_block block r))"
      "render_begin now_us r = r\<lparr>rp_waiting_for_source := True, rg_free := rest,
         rp_pending := Some (prime_block block r)\<rparr>"
proof -
  have pb: "prime_block b (r\<lparr>rp_waiting_for_source := x, rp_pending := y\<rparr>) = prime_block b r"
    "prime_block b (r\<lparr>rp_waiting_for_source := x, rg_free := z\<rparr>) = prime_block b r" for b x y z
    by (simp_all add: prime_block_def period_us_def split: option.split)
  show thesis
  proof (cases "\<not> (1 \<le> rg_phase r \<and> rg_phase r \<le> 2) \<or> rg_gate_closed r \<or> length (rg_ready r) \<ge> rg_blocks r")
    case True
    then have "render_begin now_us r = r\<lparr>rp_waiting_for_source := False\<rparr>" by (auto simp: render_begin_def Let_def)
    then show thesis by (rule idle)
  next
    case ready: False
    show thesis
    proof (cases "rp_pending r")
      case (Some block)
      note step = render_begin_def [of now_us r] Let_def Some pb
      show thesis
      proof (cases "now_us < rr_source_end_us (ab_request (prime_block block r))")
        case True
        then show thesis using ready by (intro early [OF Some True]) (simp add: step)
      next
        case False
        then show thesis using ready by (intro again [OF Some]) (simp_all add: step)
      qed
    next
      case pending: None
      show thesis
      proof (cases "rg_free r")
        case Nil
        have "render_begin now_us r = r\<lparr>rp_waiting_for_source := False\<rparr>"
          using ready pending Nil by (simp add: render_begin_def Let_def)
        then show thesis by (rule idle)
      next
        case (Cons block rest)
        note step = render_begin_def [of now_us r] Let_def pending Cons pb
        show thesis
        proof (cases "now_us < rr_source_end_us (ab_request (prime_block block r))")
          case True
          then show thesis using ready by (intro early_fresh [OF pending Cons True]) (simp add: step)
        next
          case False
          then show thesis using ready by (intro fresh [OF pending Cons]) (simp_all add: step)
        qed
      qed
    qed
  qed
qed

lemma render_begin_ok:
  assumes "rig_ok r" and "rp_rendering r = None"
  shows "rig_ok (render_begin now_us r)" and "output_view (render_begin now_us r) = output_view r"
    and "rg_emergency (render_begin now_us r) = rg_emergency r"
proof -
  have shape: "rig_shape r" using assms(1) by (simp add: rig_ok_def)
  note primed = prime_block_ok [OF shape]
  show "rig_ok (render_begin now_us r)"
    by (cases rule: render_begin_cases [of now_us r])
      (use assms primed in \<open>auto simp: rig_ok_def rig_shape_def rig_blocks_def queued_frames_def list_all_iff block_ok_def\<close>)
  show "output_view (render_begin now_us r) = output_view r"
    by (cases rule: render_begin_cases [of now_us r]) (simp_all add: output_view_def)
  show "rg_emergency (render_begin now_us r) = rg_emergency r"
    by (cases rule: render_begin_cases [of now_us r]) simp_all
qed

lemma render_finish_ok:
  assumes "rig_ok r"
  shows "rig_ok (snd (render_finish rendered generation r))"
    and "output_view (snd (render_finish rendered generation r)) = output_view r"
    and "rg_emergency (snd (render_finish rendered generation r)) = rg_emergency r"
proof -
  show "rig_ok (snd (render_finish rendered generation r))"
    using assms
    by (auto simp: render_finish_def Let_def rig_defs list_all_iff add_ac split: option.splits)
  show "output_view (snd (render_finish rendered generation r)) = output_view r"
    by (simp add: render_finish_def output_view_def Let_def split: option.split)
  show "rg_emergency (snd (render_finish rendered generation r)) = rg_emergency r"
    by (simp add: render_finish_def Let_def split: option.split)
qed

lemma act_ok:
  assumes "rig_ok r"
  shows "rig_ok (act a r)" and "output_view (act a r) = output_view r"
proof -
  note simple = set_frames_def prime_at_def activate_def stop_rendering_def rig_ok_def rig_shape_def rig_blocks_def
    queued_frames_def block_ok_def output_view_def
  show "rig_ok (act a r)"
    using assms render_begin_ok(1) render_finish_ok(1)
    by (cases a) (simp_all, auto simp: simple cong: list.pred_cong)
  show "output_view (act a r) = output_view r"
    using assms
    by (cases a) (simp_all add: render_begin_ok(2) render_finish_ok(2), simp_all add: output_view_def
        set_frames_def prime_at_def activate_def stop_rendering_def)
qed

lemma acts_ok:
  assumes "rig_ok r"
  shows "rig_ok (acts as r) \<and> output_view (acts as r) = output_view r"
  using assms
proof (induction as arbitrary: r)
  case (Cons a as)
  then show ?case using act_ok [of r a] by (simp add: acts_def)
qed (simp add: acts_def)


section \<open>The callback keeps the rig in order\<close>

lemma acts_rig [simp]: "rig_ok r \<Longrightarrow> rig_ok (acts as r)"
  using acts_ok by blast

lemma acts_view [simp]: "rig_ok r \<Longrightarrow> output_view (acts as r) = output_view r"
  using acts_ok by blast

lemma output_view_fields:
  assumes "output_view r' = output_view r"
  shows "ao_current r' = ao_current r" "ao_offset r' = ao_offset r" "ao_last r' = ao_last r"
    "ao_recovering r' = ao_recovering r" "rg_channels r' = rg_channels r" "rg_max_frames r' = rg_max_frames r"
    "rg_blocks r' = rg_blocks r" "ao_generation r' = ao_generation r"
  using assms by (simp_all add: output_view_def)

text \<open>The sizes fixed at creation.\<close>

definition rig_sizes :: "render_rig \<Rightarrow> nat \<times> nat \<times> nat" where
  "rig_sizes r = (rg_channels r, rg_max_frames r, rg_blocks r)"

fun open_offset :: "audio_block option \<Rightarrow> nat \<Rightarrow> bool" where
  "open_offset None offset = True"
| "open_offset (Some block) offset \<longleftrightarrow> offset < block_frames block"

lemma rig_ok_blockD: "rig_ok r \<Longrightarrow> block \<in> set (rig_blocks r) \<Longrightarrow> block_ok r block"
  by (simp add: rig_ok_def list_all_iff)

lemma current_block_ok: "rig_ok r \<Longrightarrow> ao_current r = Some block \<Longrightarrow> block_ok r block"
  by (rule rig_ok_blockD) (simp_all add: rig_blocks_def)

lemma take_ready_ok:
  assumes "rig_ok r" and "open_offset (ao_current r) (ao_offset r)"
  shows "rig_ok (take_ready r)" and "rig_sizes (take_ready r) = rig_sizes r"
    and "open_offset (ao_current (take_ready r)) (ao_offset (take_ready r))"
    and "ao_last (take_ready r) = ao_last r" and "ao_recovering (take_ready r) = ao_recovering r"
    and "queued_frames (take_ready r) = queued_frames r"
proof -
  have "open_offset (Some b) 0" if "b \<in> set (rg_ready r)" for b
    using rig_ok_blockD [OF assms(1), of b] that by (simp add: rig_blocks_def block_ok_def)
  then show "open_offset (ao_current (take_ready r)) (ao_offset (take_ready r))"
    using assms(2) by (cases "ao_current r") (auto simp: take_ready_def split: list.split)
  show "rig_ok (take_ready r)"
    using assms(1) by (auto simp: take_ready_def rig_ok_def rig_shape_def rig_blocks_def queued_frames_def block_ok_def
        list_all_iff split: option.split list.split)
qed (auto simp: take_ready_def rig_sizes_def queued_frames_def split: option.split list.split)

lemma return_current_ok:
  assumes "rig_ok r" and "ao_current r = Some block" and "ao_offset r = block_frames block"
  obtains r' where "return_current now_us written all_frames r = (True, r')" "rig_ok r'"
    "rig_sizes r' = rig_sizes r" "ao_current r' = None" "ao_offset r' = 0" "rg_ready r' = rg_ready r"
    "ao_last r' = ao_last r" "ao_recovering r' = ao_recovering r" "rg_emergency r' = rg_emergency r"
    "rg_midi_generation r' = rg_midi_generation r"
proof -
  have room: "length (rg_free r) < rg_blocks r"
    using assms(1,2) by (simp add: rig_ok_def rig_blocks_def)
  define e where "e = ao_last_endpoint (snd (return_current now_us written all_frames r))"
  define b where "b = block\<lparr>ab_request := \<lparr>rr_frames = rg_frames r, rr_source_end_us = e\<rparr>\<rparr>"
  define r' where "r' = r\<lparr>ao_last_endpoint := e, ao_current := None, rg_free := rg_free r @ [b], ao_offset := 0\<rparr>"
  have step: "return_current now_us written all_frames r = (True, r')"
    using room assms(2) by (simp add: r'_def b_def e_def return_current_def Let_def)
  have "block_ok r block" by (rule current_block_ok [OF assms(1,2)])
  then have "block_ok r b"
    using assms(1) by (simp add: b_def block_ok_def block_frames_def rig_ok_def rig_shape_def)
  then have "rig_ok r'"
    using assms
    by (simp add: r'_def rig_ok_def rig_shape_def rig_blocks_def queued_frames_def block_ok_def list_all_iff)
  with step show thesis by (rule that) (simp_all add: r'_def rig_sizes_def)
qed

lemma length_overwrite: "at + length new \<le> length data \<Longrightarrow> length (overwrite at new data) = length data"
  by (simp add: overwrite_def)

text \<open>
  The two halves of a turn: a block that must not be heard is dropped whole, and frames of a good one are
  copied.
\<close>

definition drop_current :: "audio_block \<Rightarrow> render_rig \<Rightarrow> render_rig" where
  "drop_current block r =
     r\<lparr>rg_queue_frames := rg_queue_frames r - of_nat (rr_frames (ab_request block) - ao_offset r),
       ao_offset := rr_frames (ab_request block)\<rparr>"

definition advance_current :: "f32 list \<Rightarrow> nat \<Rightarrow> render_rig \<Rightarrow> render_rig" where
  "advance_current played frames r =
     r\<lparr>ao_last := (if frames = 0 then ao_last r else drop ((frames - 1) * rg_channels r) played),
       ao_offset := ao_offset r + frames, rg_queue_frames := rg_queue_frames r - of_nat frames\<rparr>"

lemma drop_current_ok:
  assumes "rig_ok r" and "ao_current r = Some block"
  shows "rig_ok (drop_current block r)" and "rig_sizes (drop_current block r) = rig_sizes r"
  using assms
  by (simp_all add: drop_current_def rig_ok_def rig_shape_def rig_blocks_def queued_frames_def block_ok_def
      block_frames_def list_all_iff rig_sizes_def)

lemma advance_current_ok:
  assumes "rig_ok r" and "ao_current r = Some block" and "ao_offset r + frames \<le> block_frames block"
    and "length played = frames * rg_channels r"
  shows "rig_ok (advance_current played frames r)" and "rig_sizes (advance_current played frames r) = rig_sizes r"
proof -
  have "length (drop ((frames - 1) * rg_channels r) played) = rg_channels r" if "frames \<noteq> 0"
    using assms(4) that by (cases frames) simp_all
  moreover have "(of_nat (block_frames block - ao_offset r) :: u64) - of_nat frames
      = of_nat (block_frames block - (ao_offset r + frames))"
    using assms(3) by (simp add: of_nat_diff)
  ultimately show "rig_ok (advance_current played frames r)"
    using assms(1-3)
    by (simp add: advance_current_def rig_ok_def rig_shape_def rig_blocks_def queued_frames_def block_ok_def
        list_all_iff)
qed (simp add: advance_current_def rig_sizes_def)

text \<open>Every outcome of a turn, from the rig with the next block at hand.\<close>

lemma copy_turn_cases:
  assumes "rig_ok r" and "open_offset (ao_current r) (ao_offset r)"
    and "copy_turn ops moves k now_us all_frames data written discarded r = (go, data', written', discarded', r')"
    and r1_eq: "r1 = acts (moves (3 * k + 1)) (take_ready (acts (moves (3 * k)) r))"
  obtains
    (none_left) "ao_current r1 = None" "\<not> go" "data' = data" "written' = written" "discarded' = discarded" "r' = r1"
  | (dropped) block r2 where "ao_current r1 = Some block"
      "ab_generation block \<noteq> rg_midi_generation r1 \<or> rg_emergency r1"
      "return_current now_us written all_frames (acts (moves (3 * k + 2)) (drop_current block r1)) = (True, r2)"
      "rig_ok r2" "rig_sizes r2 = rig_sizes r" "ao_current r2 = None"
      "go = (discarded + 1 < rg_blocks r)" "data' = data" "written' = written" "discarded' = discarded + 1"
      "r' = r2\<lparr>ao_recovering := True, ao_last := map (\<lambda>_. 0) (ao_last r2)\<rparr>"
  | (copied) block frames played r2 where "ao_current r1 = Some block"
      "ab_generation block = rg_midi_generation r1" "\<not> rg_emergency r1"
      "frames = min (block_frames block - ao_offset r1) (all_frames - written)"
      "played = played_samples ops block frames written all_frames (rg_channels r1) r1"
      "ao_offset r1 + frames \<le> block_frames block" "length played = frames * rg_channels r1"
      "r2 = acts (moves (3 * k + 2)) (advance_current played frames r1)"
      "rig_ok r2" "rig_sizes r2 = rig_sizes r" "ao_current r2 = Some block" "ao_offset r2 = ao_offset r1 + frames"
      "data' = overwrite (written * rg_channels r1) (map (so_device ops) played) data"
      "written' = written + frames" "discarded' = discarded" "go"
      "if ao_offset r2 = block_frames block
       then return_current now_us (written + frames) all_frames r2 = (True, r')
         \<and> rig_ok r' \<and> rig_sizes r' = rig_sizes r \<and> ao_current r' = None
       else r' = r2"
proof -
  define r0 where "r0 = acts (moves (3 * k)) r"
  have r0: "rig_ok r0" "output_view r0 = output_view r" using assms(1) by (simp_all add: r0_def)
  note v0 = output_view_fields [OF r0(2)]
  have open0: "open_offset (ao_current r0) (ao_offset r0)" using assms(2) by (simp add: v0)
  note t = take_ready_ok [OF r0(1) open0]
  have r1_def: "r1 = acts (moves (3 * k + 1)) (take_ready r0)" by (simp add: r1_eq r0_def)
  have r1: "rig_ok r1" "output_view r1 = output_view (take_ready r0)"
    unfolding r1_def using t(1) by (rule acts_rig, rule acts_view)
  note v1 = output_view_fields [OF r1(2)]
  have sizes: "rig_sizes r1 = rig_sizes r" using t(2) v0 v1 by (simp add: rig_sizes_def)
  have opn: "open_offset (ao_current r1) (ao_offset r1)" using t(3) by (simp add: v1)
  note step = assms(3) [unfolded copy_turn_def, folded r0_def, unfolded Let_def, folded r1_def]
  show thesis
  proof (cases "ao_current r1")
    case None
    show thesis by (rule none_left) (use step None in simp_all)
  next
    case (Some block)
    show thesis
    proof (cases "ab_generation block \<noteq> rg_midi_generation r1 \<or> rg_emergency r1")
      case True
      let ?d = "acts (moves (3 * k + 2)) (drop_current block r1)"
      have d: "rig_ok (drop_current block r1)" by (rule drop_current_ok(1) [OF r1(1) Some])
      have vd: "output_view ?d = output_view (drop_current block r1)" using d by simp
      have cur: "ao_current ?d = Some block" "ao_offset ?d = block_frames block"
        unfolding output_view_fields [OF vd] using Some by (simp_all add: drop_current_def block_frames_def)
      obtain r2 where r2: "return_current now_us written all_frames ?d = (True, r2)" "rig_ok r2"
          "rig_sizes r2 = rig_sizes ?d" "ao_current r2 = None"
        using return_current_ok [OF acts_rig [OF d] cur] by metis
      have s2: "rig_sizes r2 = rig_sizes r"
        using r2(3) output_view_fields [OF vd] drop_current_ok(2) [OF r1(1) Some] sizes by (simp add: rig_sizes_def)
      show thesis
        by (rule dropped [OF Some True r2(1,2) s2 r2(4)])
          (use step Some True r2(1) s2 in \<open>auto simp: drop_current_def rig_sizes_def\<close>)
    next
      case False
      define frames where "frames = min (block_frames block - ao_offset r1) (all_frames - written)"
      define played where "played = played_samples ops block frames written all_frames (rg_channels r1) r1"
      define r2 where "r2 = acts (moves (3 * k + 2)) (advance_current played frames r1)"
      have off: "ao_offset r1 + frames \<le> block_frames block" using opn Some by (simp add: frames_def)
      have len: "length played = frames * rg_channels r1" by (simp add: played_def played_samples_def)
      note adv = advance_current_ok [OF r1(1) Some off len]
      have v2: "output_view r2 = output_view (advance_current played frames r1)" using adv(1) by (simp add: r2_def)
      note v2 = output_view_fields [OF v2]
      have r2: "rig_ok r2" "rig_sizes r2 = rig_sizes r" "ao_current r2 = Some block"
        using adv sizes Some v2 by (simp_all add: r2_def rig_sizes_def) (simp add: advance_current_def)
      note step' = step [unfolded Some option.case if_not_P [OF False]
          block_frames_def [symmetric] frames_def [symmetric] played_def [symmetric]
          advance_current_def [symmetric] r2_def [symmetric]]
      have go: "(go, data', written', discarded') = (True, overwrite (written * rg_channels r1)
            (map (so_device ops) played) data, written + frames, discarded)
          \<and> (if ao_offset r2 = block_frames block
             then return_current now_us (written + frames) all_frames r2 = (True, r')
               \<and> rig_ok r' \<and> rig_sizes r' = rig_sizes r \<and> ao_current r' = None
             else r' = r2)"
      proof (cases "ao_offset r2 = block_frames block")
        case True
        obtain r3 where r3: "return_current now_us (written + frames) all_frames r2 = (True, r3)" "rig_ok r3"
            "rig_sizes r3 = rig_sizes r2" "ao_current r3 = None"
          using return_current_ok [OF r2(1,3) True] by metis
        then show ?thesis using step' True r2(2) by simp
      next
        case False
        then show ?thesis using step' by simp
      qed
      show thesis
        by (rule copied [OF Some _ _ frames_def played_def off len r2_def r2(1-3)])
          (use False go v2 in \<open>simp_all add: advance_current_def\<close>)
    qed
  qed
qed

lemma rig_after_turn:
  assumes "rig_ok r" and "open_offset (ao_current r) (ao_offset r)"
  shows "rig_ok (acts as (take_ready (acts bs r)))" and "rig_sizes (acts as (take_ready (acts bs r))) = rig_sizes r"
    and "open_offset (ao_current (acts as (take_ready (acts bs r)))) (ao_offset (acts as (take_ready (acts bs r))))"
    and "ao_last (acts as (take_ready (acts bs r))) = ao_last r"
    and "ao_recovering (acts as (take_ready (acts bs r))) = ao_recovering r"
proof -
  let ?r = "acts as (take_ready (acts bs r))"
  have b: "rig_ok (acts bs r)" using assms(1) by simp
  note v = output_view_fields [OF acts_view [OF assms(1), of bs]]
  note t = take_ready_ok [OF b, unfolded v, OF assms(2)]
  note w = output_view_fields [OF acts_view [OF t(1), of as]]
  show "rig_ok ?r" using t(1) by simp
  show "rig_sizes ?r = rig_sizes r" using t(2) by (simp add: rig_sizes_def w v)
  show "open_offset (ao_current ?r) (ao_offset ?r)" using t(3) by (simp add: w)
  show "ao_last ?r = ao_last r" "ao_recovering ?r = ao_recovering r" using t(4,5) by (simp_all add: w v)
qed

lemma copy_turn_ok:
  assumes "rig_ok r" and "open_offset (ao_current r) (ao_offset r)" and "written < all_frames"
    and "all_frames * rg_channels r \<le> length data" and "discarded < rg_blocks r"
    and "copy_turn ops moves k now_us all_frames data written discarded r = (go, data', written', discarded', r')"
  shows "rig_ok r' \<and> rig_sizes r' = rig_sizes r \<and> open_offset (ao_current r') (ao_offset r')
    \<and> length data' = length data \<and> written' \<le> all_frames
    \<and> (go \<longrightarrow> written + discarded < written' + discarded' \<and> discarded' < rg_blocks r)"
proof -
  define r1 where "r1 = acts (moves (3 * k + 1)) (take_ready (acts (moves (3 * k)) r))"
  note r1 = rig_after_turn [OF assms(1,2), of "moves (3 * k + 1)" "moves (3 * k)", folded r1_def]
  show ?thesis
    using assms(1,2,6) r1_def
  proof (cases rule: copy_turn_cases)
    case none_left
    then show ?thesis using r1 assms(3) by simp
  next
    case (dropped block r2)
    have "rig_ok r'"
      using dropped(4) unfolding dropped(11)
      by (simp add: rig_ok_def rig_shape_def rig_blocks_def queued_frames_def block_ok_def list_all_iff)
    moreover have "rig_sizes r' = rig_sizes r" "ao_current r' = None"
      using dropped(5,6) by (simp_all add: dropped(11) rig_sizes_def)
    ultimately show ?thesis using dropped(7-10) assms(3) by simp
  next
    case (copied block frames played r2)
    have frames_le: "0 < frames" "written + frames \<le> all_frames"
      using r1(3) copied(1) assms(3) by (auto simp: copied(4))
    have ch: "rg_channels r1 = rg_channels r" using r1(2) by (simp add: rig_sizes_def)
    have "(written + frames) * rg_channels r1 \<le> length data"
      unfolding ch using mult_le_mono1 [OF frames_le(2)] assms(4) by (rule le_trans)
    then have "length data' = length data"
      unfolding copied(13) by (intro length_overwrite) (simp add: copied(7) add_mult_distrib)
    moreover have "rig_ok r' \<and> rig_sizes r' = rig_sizes r \<and> open_offset (ao_current r') (ao_offset r')"
      using copied(6,9-12,17) by (auto split: if_splits)
    ultimately show ?thesis using frames_le assms(5) by (simp add: copied(14,15))
  qed
qed

text \<open>The loop ends within its fuel and keeps the rig in order.\<close>

lemma copy_loop_ok:
  assumes "rig_ok r" and "open_offset (ao_current r) (ao_offset r)" and "written \<le> all_frames"
    and "all_frames * rg_channels r \<le> length data" and "discarded < rg_blocks r"
    and "all_frames + rg_blocks r \<le> fuel + written + discarded"
  shows "\<exists>data' written' discarded' r'.
    copy_loop ops moves fuel now_us all_frames data written discarded r = Some (data', written', discarded', r')
    \<and> rig_ok r' \<and> rig_sizes r' = rig_sizes r \<and> open_offset (ao_current r') (ao_offset r')
    \<and> length data' = length data \<and> written' \<le> all_frames"
  using assms
proof (induction fuel arbitrary: data written discarded r)
  case 0
  then show ?case by (subst copy_loop.simps) simp
next
  case (Suc k)
  show ?case
  proof (cases "all_frames \<le> written")
    case True
    then show ?thesis using Suc.prems by (subst copy_loop.simps) simp
  next
    case False
    then have less: "written < all_frames" by simp
    obtain go data1 written1 discarded1 r1
      where t: "copy_turn ops moves k now_us all_frames data written discarded r = (go, data1, written1, discarded1, r1)"
      by (metis prod_cases5)
    note ok = copy_turn_ok [OF Suc.prems(1,2) less Suc.prems(4,5) t]
    have loop: "copy_loop ops moves (Suc k) now_us all_frames data written discarded r
      = (if go then copy_loop ops moves k now_us all_frames data1 written1 discarded1 r1
         else Some (data1, written1, discarded1, r1))"
      using False t by (subst copy_loop.simps) simp
    have same: "rg_channels r1 = rg_channels r" "rg_blocks r1 = rg_blocks r"
      using ok by (auto simp: rig_sizes_def)
    show ?thesis
    proof (cases go)
      case True
      have "\<exists>data' written' discarded' r'.
        copy_loop ops moves k now_us all_frames data1 written1 discarded1 r1 = Some (data', written', discarded', r')
        \<and> rig_ok r' \<and> rig_sizes r' = rig_sizes r1 \<and> open_offset (ao_current r') (ao_offset r')
        \<and> length data' = length data1 \<and> written' \<le> all_frames"
        by (rule Suc.IH) (use ok True same Suc.prems(4,6) in auto)
      then show ?thesis using ok True by (simp add: loop)
    next
      case False
      then show ?thesis using ok by (simp add: loop)
    qed
  qed
qed


text \<open>Counters and flags the order of the rig does not depend on.\<close>

lemma rig_ok_fields [simp]:
  "rig_ok (r\<lparr>ao_recovering := b\<rparr>) = rig_ok r" "rig_ok (r\<lparr>ao_generation := g\<rparr>) = rig_ok r"
  "rig_ok (r\<lparr>rg_underflows := g\<rparr>) = rig_ok r" "rig_ok (r\<lparr>rg_missing_frames := g\<rparr>) = rig_ok r"
  "rig_ok (r\<lparr>rg_reset_silence_frames := g\<rparr>) = rig_ok r" "rig_ok (r\<lparr>rg_emergency := b\<rparr>) = rig_ok r"
  "rig_ok (r\<lparr>rg_ahead_samples := n\<rparr>) = rig_ok r" "rig_ok (r\<lparr>rg_recovery_requests := n\<rparr>) = rig_ok r"
  by (simp_all add: rig_ok_def rig_shape_def rig_blocks_def queued_frames_def block_ok_def list_all_iff)

lemma rig_ok_frames: "rig_ok r \<Longrightarrow> 0 < n \<Longrightarrow> n \<le> rg_max_frames r \<Longrightarrow> rig_ok (r\<lparr>rg_frames := n\<rparr>)"
  by (simp add: rig_ok_def rig_shape_def rig_blocks_def queued_frames_def block_ok_def list_all_iff)

lemma rig_ok_last: "rig_ok r \<Longrightarrow> length l = length (ao_last r) \<Longrightarrow> rig_ok (r\<lparr>ao_last := l\<rparr>)"
  by (simp add: rig_ok_def rig_shape_def rig_blocks_def queued_frames_def block_ok_def list_all_iff)

lemma rig_ok_oversized: "rig_ok r \<Longrightarrow> rig_ok (r\<lparr>rg_fatal_error := 13\<rparr>)"
  by (simp add: rig_ok_def rig_shape_def rig_blocks_def queued_frames_def block_ok_def list_all_iff)

lemma finish_copy_ok:
  assumes "rig_ok r" and "open_offset (ao_current r) (ao_offset r)" and "written \<le> all_frames"
    and "all_frames * rg_channels r \<le> length data"
    and "finish_copy ops all_frames resetting data written discarded r = (missing, data', r')"
  shows "rig_ok r' \<and> rig_sizes r' = rig_sizes r \<and> open_offset (ao_current r') (ao_offset r')
    \<and> length data' = length data \<and> missing = all_frames - written"
proof -
  have "length data' = length data"
  proof (cases "all_frames - written > 0")
    case True
    have "written * rg_channels r + (all_frames - written) * rg_channels r = all_frames * rg_channels r"
      using assms(3) by (simp flip: add_mult_distrib)
    then show ?thesis
      using assms(4,5) True by (auto simp: finish_copy_def Let_def intro!: length_overwrite split: if_splits)
  next
    case False
    then show ?thesis using assms(5) by (simp add: finish_copy_def)
  qed
  moreover have "rig_ok r' \<and> rig_sizes r' = rig_sizes r \<and> open_offset (ao_current r') (ao_offset r')
      \<and> missing = all_frames - written"
    using assms(1,2,5)
    by (auto simp: finish_copy_def Let_def rig_sizes_def intro!: rig_ok_last split: if_splits)
  ultimately show ?thesis by blast
qed

text \<open>The rig when the loop starts.\<close>

definition start_copy :: "nat \<Rightarrow> render_rig \<Rightarrow> bool \<times> render_rig" where
  "start_copy all_frames r =
     (let generation = rg_midi_generation r;
          resetting = generation \<noteq> ao_generation r \<or> rg_emergency r;
          r = r\<lparr>ao_generation := generation\<rparr>;
          r = (if resetting then r\<lparr>ao_last := map (\<lambda>_. 0) (ao_last r), ao_recovering := True\<rparr> else r)
      in (resetting, r\<lparr>rg_frames := all_frames, rg_ahead_samples := of_nat (all_frames * rg_blocks r)\<rparr>))"

lemma copy_into_eq:
  "copy_into ops moves fuel now_us data_len r =
     (let data = replicate data_len (so_device ops 0);
          all_frames = data_len div rg_channels r
      in if rg_phase r \<noteq> 2 then Some (0, data, r)
         else if rg_gate_closed r then Some (0, data, r\<lparr>ao_recovering := True\<rparr>)
         else if all_frames > rg_max_frames r then
           let r = (if rg_fatal_error r = 0
                    then r\<lparr>rg_fatal_error := 13, rg_recovery_requests := rg_recovery_requests r + 1\<rparr> else r)
           in Some (all_frames, data, r\<lparr>rg_emergency := True\<rparr>)
         else if all_frames = 0 then Some (0, data, r)
         else
           case start_copy all_frames r of
             (resetting, r) \<Rightarrow>
               map_option
                (\<lambda>(data, written, discarded, r). finish_copy ops all_frames resetting data written discarded r)
                (copy_loop ops moves fuel now_us all_frames data 0 0 r))"
  by (simp add: copy_into_def start_copy_def Let_def)

lemma start_copy_ok:
  assumes "rig_ok r" and "0 < all_frames" and "all_frames \<le> rg_max_frames r"
  shows "rig_ok (snd (start_copy all_frames r))" and "rig_sizes (snd (start_copy all_frames r)) = rig_sizes r"
    and "ao_current (snd (start_copy all_frames r)) = ao_current r"
    and "ao_offset (snd (start_copy all_frames r)) = ao_offset r"
  using assms by (auto simp: start_copy_def Let_def rig_sizes_def intro!: rig_ok_frames rig_ok_last)

lemma copy_into_ok:
  assumes "rig_ok r" and "open_offset (ao_current r) (ao_offset r)"
    and "data_len div rg_channels r + rg_blocks r \<le> fuel"
  shows "\<exists>missing data r'. copy_into ops moves fuel now_us data_len r = Some (missing, data, r')
    \<and> length data = data_len \<and> rig_ok r' \<and> open_offset (ao_current r') (ao_offset r')
    \<and> rig_sizes r' = rig_sizes r"
proof -
  define all_frames where "all_frames = data_len div rg_channels r"
  define silence where "silence = replicate data_len (so_device ops 0)"
  have blocks: "0 < rg_blocks r" using assms(1) by (simp add: rig_ok_def rig_shape_def)
  consider "rg_phase r \<noteq> 2 \<or> rg_gate_closed r \<or> all_frames > rg_max_frames r \<or> all_frames = 0"
    | "rg_phase r = 2" "\<not> rg_gate_closed r" "all_frames \<le> rg_max_frames r" "0 < all_frames" by linarith
  then show ?thesis
  proof cases
    case 1
    then show ?thesis
      using assms(1,2) by (auto simp: copy_into_def Let_def all_frames_def [symmetric] rig_sizes_def
          intro!: rig_ok_oversized)
  next
    case 2
    obtain resetting s where s: "start_copy all_frames r = (resetting, s)" by fastforce
    note start = start_copy_ok [OF assms(1) 2(4,3), unfolded s snd_conv]
    have same: "rg_channels s = rg_channels r" "rg_blocks s = rg_blocks r"
      using start(2) by (auto simp: rig_sizes_def)
    have "all_frames * rg_channels s \<le> length silence"
      by (simp add: same all_frames_def silence_def)
    then obtain data written discarded t
      where loop: "copy_loop ops moves fuel now_us all_frames silence 0 0 s = Some (data, written, discarded, t)"
        and t: "rig_ok t" "rig_sizes t = rig_sizes s" "open_offset (ao_current t) (ao_offset t)"
          "length data = length silence" "written \<le> all_frames"
      using copy_loop_ok [OF start(1), of 0 all_frames silence 0 fuel ops moves now_us] start(3,4) same assms(2,3) blocks
      by (auto simp: all_frames_def [symmetric])
    obtain missing data' r' where f: "finish_copy ops all_frames resetting data written discarded t = (missing, data', r')"
      by (metis prod_cases3)
    have "all_frames * rg_channels t \<le> length data"
      using t(2,4) start(2) by (simp add: rig_sizes_def all_frames_def silence_def)
    note fin = finish_copy_ok [OF t(1,3,5) this f]
    have "copy_into ops moves fuel now_us data_len r = Some (missing, data', r')"
      using 2 s loop f by (simp add: copy_into_eq Let_def all_frames_def [symmetric] silence_def [symmetric])
    then show ?thesis using fin t start by (simp add: silence_def)
  qed
qed


section \<open>Runs\<close>

datatype rig_event = Other rig_action | Callback u64 nat "nat \<Rightarrow> rig_action list"

fun rig_run :: "'d sample_ops \<Rightarrow> rig_event list \<Rightarrow> render_rig \<Rightarrow> render_rig option" where
  "rig_run ops [] r = Some r"
| "rig_run ops (Other a # events) r = rig_run ops events (act a r)"
| "rig_run ops (Callback now_us data_len moves # events) r =
     (case copy_into ops moves (data_len div rg_channels r + rg_blocks r) now_us data_len r of
        None \<Rightarrow> None
      | Some (missing, data, r) \<Rightarrow> rig_run ops events r)"

lemma rig_run_ok:
  assumes "rig_ok r" and "open_offset (ao_current r) (ao_offset r)"
  shows "\<exists>r'. rig_run ops events r = Some r' \<and> rig_ok r' \<and> rig_sizes r' = rig_sizes r"
  using assms
proof (induction events arbitrary: r)
  case (Cons e events)
  show ?case
  proof (cases e)
    case (Other a)
    have v: "rig_ok (act a r)" "output_view (act a r) = output_view r" using act_ok Cons.prems(1) by blast+
    show ?thesis
      using Cons.IH [OF v(1)] Cons.prems(2) output_view_fields [OF v(2)] by (simp add: Other rig_sizes_def)
  next
    case (Callback now_us data_len moves)
    obtain missing data r1 where c: "copy_into ops moves (data_len div rg_channels r + rg_blocks r) now_us data_len r
          = Some (missing, data, r1)" "rig_ok r1" "open_offset (ao_current r1) (ao_offset r1)" "rig_sizes r1 = rig_sizes r"
      using copy_into_ok [OF Cons.prems order.refl] by blast
    show ?thesis using Cons.IH [OF c(2,3)] c(1,4) by (simp add: Callback)
  qed
qed simp

lemma render_channel_ok:
  assumes "render_channel frames channels max_frames sample_rate blocks generation emergency gate = Some r"
  shows "rig_ok r" and "ao_current r = None" and "rg_blocks r = unat blocks" and "rg_channels r = channels"
    and "rg_max_frames r = max_frames"
  using assms
  by (auto simp: render_channel_def rig_ok_def rig_shape_def rig_blocks_def queued_frames_def block_ok_def
      block_frames_def list_all_iff word_le_nat_alt split: if_splits)

text \<open>
  C18: The callback of the audio driver always returns: whatever the other threads do between its steps, it
  needs at most one turn of its loop for each frame it was asked for and one for each block of the pool. It
  fills exactly the buffer it was given.
\<close>

theorem copy_into_returns:
  assumes "rig_ok r" and "open_offset (ao_current r) (ao_offset r)"
    and "data_len div rg_channels r + rg_blocks r \<le> fuel"
  shows "\<exists>missing data r'. copy_into ops moves fuel now_us data_len r = Some (missing, data, r')
    \<and> length data = data_len \<and> rig_sizes r' = rig_sizes r"
  using copy_into_ok [OF assms] by blast

definition example_ops :: "f32 sample_ops" where
  "example_ops = \<lparr>so_ratio = \<lambda>_ _. one_f32, so_fade = \<lambda>_ _. 0, so_times = (\<lambda>a b. if b = one_f32 then a else 0),
     so_device = id\<rparr>"

definition example_rig :: render_rig where
  "example_rig = activate (the (render_channel 2 1 4 1000 2 0 False False))"

lemma example_rig_ok: "rig_ok example_rig" "ao_current example_rig = None"
  by (simp_all add: example_rig_def activate_def render_channel_def rig_ok_def rig_shape_def rig_blocks_def
      queued_frames_def block_ok_def block_frames_def list_all_iff)

theorem copy_into_returns_witness:
  "copy_into example_ops (\<lambda>_. [Begin 5, Finish (\<lambda>_. 1) (Some 0)]) 10 100 4 example_rig \<noteq> None"
proof -
  have "4 div rg_channels example_rig + rg_blocks example_rig \<le> 10"
    by (simp add: example_rig_def activate_def render_channel_def)
  from copy_into_returns [OF example_rig_ok(1) _ this] show ?thesis
    by (fastforce simp: example_rig_ok(2))
qed

text \<open>
  C10: No block of audio is ever lost, duplicated or freed in the driver's callback: from the creation of the
  rig, through any operations of the control thread, the rendering thread and the driver's callback in any
  interleaving, the run goes on, the blocks in the rings and in the hands of the two sides are exactly those
  created, each within its storage, the queue length shown is the number of frames waiting, and the error for
  a lost block is never raised.
\<close>

theorem blocks_conserved:
  assumes "render_channel frames channels max_frames sample_rate blocks generation emergency gate = Some r0"
  shows "\<exists>r. rig_run ops events r0 = Some r \<and> length (rig_blocks r) = unat blocks
    \<and> list_all (\<lambda>b. 0 < block_frames b \<and> block_frames b * channels \<le> length (ab_samples b)) (rig_blocks r)
    \<and> rg_queue_frames r = of_nat (queued_frames r) \<and> rg_fatal_error r \<noteq> 14"
proof -
  note r0 = render_channel_ok [OF assms]
  obtain r where r: "rig_run ops events r0 = Some r" "rig_ok r" "rig_sizes r = rig_sizes r0"
    using rig_run_ok [OF r0(1)] r0(2) by fastforce
  then have sizes: "rg_channels r = channels" "rg_blocks r = unat blocks"
    using r0 by (simp_all add: rig_sizes_def)
  have "list_all (\<lambda>b. 0 < block_frames b \<and> block_frames b * channels \<le> length (ab_samples b)) (rig_blocks r)"
    using r(2) sizes by (auto simp: rig_ok_def block_ok_def list_all_iff)
  then show ?thesis using r(1,2) sizes by (simp add: rig_ok_def rig_shape_def)
qed

theorem blocks_conserved_witness:
  "\<exists>r. rig_run example_ops [Other (Prime_at 9), Other (Begin 9), Callback 10 3 (\<lambda>_. [])]
      (the (render_channel 2 1 4 1000 2 0 False False)) = Some r \<and> length (rig_blocks r) = 2"
proof -
  have "render_channel 2 1 4 1000 2 0 False False = Some (the (render_channel 2 1 4 1000 2 0 False False))"
    by (simp add: render_channel_def)
  from blocks_conserved [OF this] show ?thesis by fastforce
qed


section \<open>A reset silences the device at once\<close>

definition keeps_reset :: "(nat \<Rightarrow> rig_action list) \<Rightarrow> bool" where
  "keeps_reset moves \<longleftrightarrow> (\<forall>i. Take_emergency \<notin> set (moves i))"

lemma act_reset: "rig_ok r \<Longrightarrow> a \<noteq> Take_emergency \<Longrightarrow> rg_emergency r \<Longrightarrow> rg_emergency (act a r)"
  using render_begin_ok(3) render_finish_ok(3)
  by (cases a) (simp_all add: set_frames_def prime_at_def activate_def stop_rendering_def)

lemma acts_reset:
  assumes "rig_ok r" and "Take_emergency \<notin> set as" and "rg_emergency r"
  shows "rg_emergency (acts as r)"
  using assms
proof (induction as arbitrary: r)
  case (Cons a as)
  then show ?case using act_reset [of r a] act_ok(1) [of r a] by (auto simp: acts_def)
qed (simp add: acts_def)

lemma take_ready_reset [simp]: "rg_emergency (take_ready r) = rg_emergency r"
  by (simp add: take_ready_def split: option.split list.split)

lemma drop_current_reset [simp]: "rg_emergency (drop_current block r) = rg_emergency r"
  by (simp add: drop_current_def)

lemma return_current_reset:
  "return_current now_us written all_frames r = (ok, r') \<Longrightarrow> rg_emergency r' = rg_emergency r \<and> ao_last r' = ao_last r"
  by (auto simp: return_current_def Let_def split: option.splits if_splits)

lemma copy_turn_reset:
  assumes "rig_ok r" and "open_offset (ao_current r) (ao_offset r)" and "rg_emergency r" and "keeps_reset moves"
    and "set (ao_last r) \<subseteq> {0}"
    and "copy_turn ops moves k now_us all_frames data written discarded r = (go, data', written', discarded', r')"
  shows "data' = data \<and> written' = written \<and> set (ao_last r') \<subseteq> {0} \<and> rg_emergency r'"
proof -
  define r1 where "r1 = acts (moves (3 * k + 1)) (take_ready (acts (moves (3 * k)) r))"
  note r1 = rig_after_turn [OF assms(1,2), of "moves (3 * k + 1)" "moves (3 * k)", folded r1_def]
  have moves: "Take_emergency \<notin> set (moves i)" for i using assms(4) by (simp add: keeps_reset_def)
  have rr: "rig_ok (take_ready (acts (moves (3 * k)) r))"
    by (rule take_ready_ok(1)) (use assms(1,2) output_view_fields [OF acts_view [OF assms(1)]] in simp_all)
  have "rg_emergency (acts (moves (3 * k)) r)" by (rule acts_reset [OF assms(1) moves assms(3)])
  then have e1: "rg_emergency r1"
    unfolding r1_def by (intro acts_reset [OF rr moves]) simp
  show ?thesis
    using assms(1,2,6) r1_def
  proof (cases rule: copy_turn_cases)
    case none_left
    then show ?thesis using e1 r1(4) assms(5) by simp
  next
    case (dropped block r2)
    have d: "rig_ok (drop_current block r1)" by (rule drop_current_ok(1) [OF r1(1) dropped(1)])
    then have "rg_emergency (acts (moves (3 * k + 2)) (drop_current block r1))"
      by (rule acts_reset [OF _ moves]) (simp add: e1)
    then show ?thesis using return_current_reset [OF dropped(3)] dropped by auto
  next
    case (copied block frames played r2)
    then show ?thesis using e1 by simp
  qed
qed

lemma copy_loop_reset:
  assumes "rig_ok r" and "open_offset (ao_current r) (ao_offset r)" and "written \<le> all_frames"
    and "all_frames * rg_channels r \<le> length data" and "discarded < rg_blocks r"
    and "rg_emergency r" and "keeps_reset moves" and "set (ao_last r) \<subseteq> {0}"
    and "copy_loop ops moves fuel now_us all_frames data written discarded r = Some (data', written', discarded', r')"
  shows "data' = data \<and> written' = written \<and> set (ao_last r') \<subseteq> {0} \<and> rig_sizes r' = rig_sizes r
    \<and> length (ao_last r') = rg_channels r"
  using assms
proof (induction fuel arbitrary: data written discarded r)
  case 0
  then show ?case by (subst (asm) copy_loop.simps)
      (auto simp: rig_ok_def rig_shape_def split: if_splits)
next
  case (Suc k)
  show ?case
  proof (cases "all_frames \<le> written")
    case True
    then show ?thesis using Suc.prems by (subst (asm) copy_loop.simps) (auto simp: rig_ok_def rig_shape_def)
  next
    case False
    then have less: "written < all_frames" by simp
    obtain go data1 written1 discarded1 r1
      where t: "copy_turn ops moves k now_us all_frames data written discarded r = (go, data1, written1, discarded1, r1)"
      by (metis prod_cases5)
    note ok = copy_turn_ok [OF Suc.prems(1,2) less Suc.prems(4,5) t]
    note same = copy_turn_reset [OF Suc.prems(1,2,6,7,8) t]
    have ch: "rg_channels r1 = rg_channels r" "rg_blocks r1 = rg_blocks r" "length (ao_last r1) = rg_channels r1"
      using ok by (auto simp: rig_sizes_def rig_ok_def rig_shape_def)
    have loop: "(if go then copy_loop ops moves k now_us all_frames data1 written1 discarded1 r1
         else Some (data1, written1, discarded1, r1)) = Some (data', written', discarded', r')"
      using Suc.prems(9) False t by (subst (asm) copy_loop.simps) simp
    show ?thesis
    proof (cases go)
      case True
      have "data' = data1 \<and> written' = written1 \<and> set (ao_last r') \<subseteq> {0} \<and> rig_sizes r' = rig_sizes r1
          \<and> length (ao_last r') = rg_channels r1"
        by (rule Suc.IH [OF _ _ _ _ _ _ Suc.prems(7)])
          (use ok same loop ch True Suc.prems(4) in auto)
      then show ?thesis using same ok ch by simp
    next
      case False
      then show ?thesis using loop same ok ch by simp
    qed
  qed
qed

text \<open>
  C11: A reset silences the device at once: while one is asked for and not yet taken by the renderer, nothing
  rendered before or meanwhile reaches the driver, whatever blocks are queued and whatever the other threads
  do. The whole buffer is silence, scaled by the gains of the fade, and the next sound fades in.
\<close>

theorem reset_silences_output:
  assumes "rig_ok r" and "open_offset (ao_current r) (ao_offset r)" and "rg_emergency r" and "keeps_reset moves"
    and "copy_into ops moves fuel now_us data_len r = Some (missing, data, r')"
  shows "set data \<subseteq> insert (so_device ops 0) (range (\<lambda>gain. so_device ops (so_times ops 0 gain)))
    \<and> (missing > 0 \<and> missing \<le> rg_max_frames r \<longrightarrow> ao_recovering r' \<and> missing = data_len div rg_channels r)"
proof -
  define all_frames where "all_frames = data_len div rg_channels r"
  define silence where "silence = replicate data_len (so_device ops 0)"
  have blocks: "0 < rg_blocks r" "0 < rg_channels r" using assms(1) by (simp_all add: rig_ok_def rig_shape_def)
  consider "rg_phase r \<noteq> 2 \<or> rg_gate_closed r \<or> all_frames > rg_max_frames r \<or> all_frames = 0"
    | "rg_phase r = 2" "\<not> rg_gate_closed r" "all_frames \<le> rg_max_frames r" "0 < all_frames" by linarith
  then show ?thesis
  proof cases
    case 1
    then have "data = silence \<and> (missing = 0 \<or> missing > rg_max_frames r)"
      using assms(5) by (auto simp: copy_into_def Let_def all_frames_def [symmetric] silence_def split: if_splits)
    then show ?thesis by (auto simp: silence_def)
  next
    case 2
    obtain resetting s where s: "start_copy all_frames r = (resetting, s)" by fastforce
    note start = start_copy_ok [OF assms(1) 2(4,3), unfolded s snd_conv]
    have same: "rg_channels s = rg_channels r" "rg_blocks s = rg_blocks r"
      using start(2) by (auto simp: rig_sizes_def)
    have e: "rg_emergency s" "set (ao_last s) \<subseteq> {0}"
      using s assms(3) by (auto simp: start_copy_def Let_def)
    have len: "all_frames * rg_channels s \<le> length silence"
      by (simp add: same all_frames_def silence_def)
    obtain data1 written discarded t
      where loop: "copy_loop ops moves fuel now_us all_frames silence 0 0 s = Some (data1, written, discarded, t)"
        and f: "finish_copy ops all_frames resetting data1 written discarded t = (missing, data, r')"
      using assms(5) 2 s by (auto simp: copy_into_eq Let_def all_frames_def [symmetric] silence_def [symmetric])
    have t: "data1 = silence" "written = 0" "set (ao_last t) \<subseteq> {0}" "rg_channels t = rg_channels r"
        "length (ao_last t) = rg_channels r"
      using copy_loop_reset [OF start(1) _ _ len _ e(1) assms(4) e(2) loop] start assms(2) blocks same
      by (auto simp: rig_sizes_def)
    have zero: "ao_last t ! (i mod rg_channels r) = 0" for i
    proof -
      have "i mod rg_channels r < length (ao_last t)" using t(5) blocks(2) by simp
      from nth_mem [OF this] t(3) show ?thesis by blast
    qed
    have "data = overwrite 0 (map (\<lambda>i. so_device ops (so_times ops 0 (so_fade ops (i div rg_channels r + 1) all_frames)))
          [0..<all_frames * rg_channels r]) silence" "missing = all_frames" "ao_recovering r'"
      using f 2(4) by (auto simp: finish_copy_def Let_def t zero split: if_splits)
    then show ?thesis
      by (auto simp: overwrite_def silence_def all_frames_def)
  qed
qed

theorem reset_silences_output_witness:
  "\<exists>missing data r'. copy_into example_ops (\<lambda>_. [Begin 5, Finish (\<lambda>_. 1) (Some 0)]) 10 100 4 (act Ask_reset example_rig)
     = Some (missing, data, r') \<and> set data \<subseteq> {0}"
proof -
  have ok: "rig_ok (act Ask_reset example_rig)" "open_offset (ao_current (act Ask_reset example_rig)) (ao_offset (act Ask_reset example_rig))"
    "rg_emergency (act Ask_reset example_rig)" "keeps_reset (\<lambda>_. [Begin 5, Finish (\<lambda>_. 1) (Some 0)])"
    using example_rig_ok by (simp_all add: keeps_reset_def)
  have "4 div rg_channels (act Ask_reset example_rig) + rg_blocks (act Ask_reset example_rig) \<le> 10"
    by (simp add: example_rig_def activate_def render_channel_def)
  from copy_into_ok [OF ok(1,2) this] obtain missing data r' where c:
    "copy_into example_ops (\<lambda>_. [Begin 5, Finish (\<lambda>_. 1) (Some 0)]) 10 100 4 (act Ask_reset example_rig) = Some (missing, data, r')"
    by blast
  from reset_silences_output [OF ok c] c show ?thesis by (auto simp: example_ops_def)
qed


section \<open>Gapless playback\<close>

definition live_samples :: "nat \<Rightarrow> audio_block \<Rightarrow> f32 list" where
  "live_samples channels block = take (block_frames block * channels) (ab_samples block)"

fun rest_samples :: "nat \<Rightarrow> audio_block option \<Rightarrow> nat \<Rightarrow> f32 list" where
  "rest_samples channels None offset = []"
| "rest_samples channels (Some block) offset = drop (offset * channels) (live_samples channels block)"

definition queued_samples :: "render_rig \<Rightarrow> f32 list" where
  "queued_samples r = rest_samples (rg_channels r) (ao_current r) (ao_offset r)
     @ concat (map (live_samples (rg_channels r)) (rg_ready r))"

definition in_generation :: "render_rig \<Rightarrow> bool" where
  "in_generation r \<longleftrightarrow> \<not> rg_emergency r
     \<and> list_all (\<lambda>b. ab_generation b = rg_midi_generation r) (rg_ready r @ of_option (ao_current r))"

lemma length_live: "block_ok r b \<Longrightarrow> length (live_samples (rg_channels r) b) = block_frames b * rg_channels r"
  by (auto simp: live_samples_def block_ok_def)

lemma length_queued_samples:
  assumes "rig_ok r"
  shows "length (queued_samples r) = queued_frames r * rg_channels r"
proof -
  have ready: "length (concat (map (live_samples (rg_channels r)) bs)) = sum_list (map block_frames bs) * rg_channels r"
    if "set bs \<subseteq> set (rg_ready r)" for bs
    using that
  proof (induction bs)
    case (Cons b bs)
    then have "block_ok r b" using rig_ok_blockD [OF assms, of b] by (simp add: rig_blocks_def)
    with Cons show ?case by (simp add: length_live add_mult_distrib)
  qed simp
  have rest: "length (rest_samples (rg_channels r) (ao_current r) (ao_offset r))
      = rest_frames (ao_current r) (ao_offset r) * rg_channels r"
    using current_block_ok [OF assms]
    by (cases "ao_current r") (simp_all add: length_live diff_mult_distrib)
  show ?thesis by (simp add: queued_samples_def queued_frames_def ready rest add_mult_distrib)
qed

lemma overwrite_twice:
  assumes "at + length xs \<le> length data"
  shows "overwrite (at + length xs) ys (overwrite at xs data) = overwrite at (xs @ ys) data"
  using assms by (simp add: overwrite_def add_ac)

lemma overwrite_Nil [simp]: "overwrite at [] data = data"
  by (simp add: overwrite_def)

lemma played_steady:
  assumes "\<not> ao_recovering r" and "ao_offset r + frames \<le> block_frames block" and "block_ok r block"
  shows "played_samples ops block frames written all_frames (rg_channels r) r
    = map (\<lambda>s. so_times ops s one_f32)
        (take (frames * rg_channels r) (drop (ao_offset r * rg_channels r) (live_samples (rg_channels r) block)))"
proof (rule nth_equalityI)
  have le: "ao_offset r * rg_channels r + frames * rg_channels r \<le> block_frames block * rg_channels r"
    using mult_le_mono1 [OF assms(2), of "rg_channels r"] by (simp add: add_mult_distrib)
  have len: "length (live_samples (rg_channels r) block) = block_frames block * rg_channels r"
    by (rule length_live [OF assms(3)])
  have le_len: "ao_offset r * rg_channels r \<le> length (live_samples (rg_channels r) block)"
    using le unfolding len by linarith
  show "length (played_samples ops block frames written all_frames (rg_channels r) r)
    = length (map (\<lambda>s. so_times ops s one_f32)
        (take (frames * rg_channels r) (drop (ao_offset r * rg_channels r) (live_samples (rg_channels r) block))))"
    using le by (simp add: played_samples_def len)
  fix i
  assume "i < length (played_samples ops block frames written all_frames (rg_channels r) r)"
  then have i: "i < frames * rg_channels r" by (simp add: played_samples_def)
  have "ab_samples block ! (ao_offset r * rg_channels r + i)
      = live_samples (rg_channels r) block ! (ao_offset r * rg_channels r + i)"
    using i le by (simp add: live_samples_def)
  then show "played_samples ops block frames written all_frames (rg_channels r) r ! i
    = map (\<lambda>s. so_times ops s one_f32)
        (take (frames * rg_channels r) (drop (ao_offset r * rg_channels r) (live_samples (rg_channels r) block))) ! i"
    using i le assms(1) nth_drop [OF le_len, of i] by (simp add: played_samples_def len)
qed

lemma return_current_keeps:
  assumes "return_current now_us written all_frames r = (True, r')" and "ao_current r = Some block"
  shows "ao_current r' = None" and "rg_ready r' = rg_ready r" and "rg_midi_generation r' = rg_midi_generation r"
    and "rg_emergency r' = rg_emergency r" and "ao_recovering r' = ao_recovering r" and "rg_channels r' = rg_channels r"
  using assms by (auto simp: return_current_def Let_def split: if_splits)

lemma take_ready_samples:
  assumes "rig_ok r"
  shows "queued_samples (take_ready r) = queued_samples r" and "in_generation (take_ready r) = in_generation r"
    and "ao_current (take_ready r) = None \<Longrightarrow> queued_samples r = []"
  using assms
  by (auto simp: take_ready_def queued_samples_def in_generation_def split: option.splits list.splits)

text \<open>A turn without interference.\<close>

lemma steady_turn:
  assumes "rig_ok r" and "open_offset (ao_current r) (ao_offset r)" and "written < all_frames"
    and "in_generation r" and "\<not> ao_recovering r"
    and "copy_turn ops (\<lambda>_. []) k now_us all_frames data written discarded r = (go, data', written', discarded', r')"
  obtains
    (out) "\<not> go" "data' = data" "written' = written" "discarded' = discarded"
      "queued_samples r = []" "queued_samples r' = []" "queued_frames r = 0"
  | (more) frames where "go" "0 < frames" "frames \<le> queued_frames r" "written' = written + frames"
      "written' \<le> all_frames" "discarded' = discarded"
      "data' = overwrite (written * rg_channels r)
         (map (\<lambda>s. so_device ops (so_times ops s one_f32)) (take (frames * rg_channels r) (queued_samples r))) data"
      "queued_samples r' = drop (frames * rg_channels r) (queued_samples r)"
      "queued_frames r' = queued_frames r - frames" "in_generation r'" "\<not> ao_recovering r'"
proof -
  define r1 where "r1 = acts [] (take_ready (acts [] r))"
  have r1_eq: "r1 = take_ready r" by (simp add: r1_def acts_def)
  note r1 = rig_after_turn [OF assms(1,2), of "[]" "[]", folded r1_def]
  note q = take_ready_samples [OF assms(1), folded r1_eq]
  have ch: "rg_channels r1 = rg_channels r" using r1(2) by (simp add: rig_sizes_def)
  have frames_r1: "queued_frames r1 = queued_frames r" using take_ready_ok(6) [OF assms(1,2)] by (simp add: r1_eq)
  have gen: "in_generation r1" using q(2) assms(4) by simp
  show thesis
    using assms(1,2,6) r1_def
  proof (cases rule: copy_turn_cases)
    case none_left
    have "queued_samples r = []" by (rule q(3) [OF none_left(1)])
    moreover have "0 < rg_channels r" using assms(1) by (simp add: rig_ok_def rig_shape_def)
    ultimately have "queued_frames r = 0" using length_queued_samples [OF assms(1)] by simp
    with none_left q(1) \<open>queued_samples r = []\<close> show thesis by (intro out) simp_all
  next
    case (dropped block r2)
    then show thesis using gen by (simp add: in_generation_def)
  next
    case (copied block frames played r2)
    have b: "block_ok r1 block" by (rule current_block_ok [OF r1(1) copied(1)])
    have not_rec: "\<not> ao_recovering r1" using r1(5) assms(5) by simp
    have r2: "r2 = advance_current played frames r1" using copied(8) by (simp add: acts_def)
    have pos: "0 < frames" "written + frames \<le> all_frames"
      using r1(3) copied(1) assms(3) by (auto simp: copied(4))
    have rest: "queued_samples r = drop (ao_offset r1 * rg_channels r) (live_samples (rg_channels r) block)
        @ concat (map (live_samples (rg_channels r)) (rg_ready r1))"
      using q(1) copied(1) by (simp add: queued_samples_def ch)
    have len: "length (live_samples (rg_channels r) block) = block_frames block * rg_channels r"
      using length_live [OF b] by (simp add: ch)
    have fit: "ao_offset r1 * rg_channels r + frames * rg_channels r \<le> block_frames block * rg_channels r"
      using mult_le_mono1 [OF copied(6), of "rg_channels r"] by (simp add: add_mult_distrib)
    have played: "played = map (\<lambda>s. so_times ops s one_f32) (take (frames * rg_channels r) (queued_samples r))"
      using played_steady [OF not_rec copied(6) b, of ops written all_frames] fit
      by (simp add: copied(5) rest ch len)
    have state: "queued_samples r' = drop (frames * rg_channels r) (queued_samples r)
        \<and> queued_frames r' = queued_frames r - frames \<and> in_generation r' \<and> \<not> ao_recovering r'"
    proof (cases "ao_offset r2 = block_frames block")
      case True
      then have ret: "return_current now_us (written + frames) all_frames r2 = (True, r')" using copied(17) by simp
      note keep = return_current_keeps [OF ret copied(11)]
      have "ao_offset r1 + frames = block_frames block" using True copied(12) by simp
      then have whole: "ao_offset r1 * rg_channels r + frames * rg_channels r = block_frames block * rg_channels r"
        by (simp flip: add_mult_distrib)
      have "queued_frames r' = queued_frames r - frames"
        using keep True copied(1,12) frames_r1 by (simp add: queued_frames_def r2 advance_current_def)
      moreover have "queued_samples r' = concat (map (live_samples (rg_channels r)) (rg_ready r1))"
        using keep by (simp add: queued_samples_def r2 advance_current_def ch)
      then have "queued_samples r' = drop (frames * rg_channels r) (queued_samples r)"
        unfolding rest using whole by (simp add: len)
      ultimately show ?thesis
        using keep gen not_rec by (simp add: in_generation_def r2 advance_current_def)
    next
      case False
      then have "r' = r2" using copied(17) by simp
      moreover have "queued_samples r2 = drop (frames * rg_channels r) (queued_samples r)"
        unfolding rest using copied(1) fit
        by (simp add: queued_samples_def r2 advance_current_def ch len add_mult_distrib add_ac)
      moreover have "queued_frames r2 = queued_frames r - frames"
        using copied(1,6) frames_r1 by (simp add: queued_frames_def r2 advance_current_def)
      ultimately show ?thesis
        using gen not_rec by (simp add: in_generation_def r2 advance_current_def)
    qed
    have "frames \<le> queued_frames r"
      unfolding frames_r1 [symmetric] using copied(1,6) by (simp add: queued_frames_def)
    then show thesis
      by (intro more [of frames]) (use pos state copied(13-16) in \<open>simp_all add: ch played comp_def\<close>)
  qed
qed


lemma steady_loop:
  assumes "rig_ok r" and "open_offset (ao_current r) (ao_offset r)" and "written \<le> all_frames"
    and "all_frames * rg_channels r \<le> length data" and "discarded < rg_blocks r"
    and "in_generation r" and "\<not> ao_recovering r"
    and "copy_loop ops (\<lambda>_. []) fuel now_us all_frames data written discarded r = Some (data', written', discarded', r')"
  shows "written' = written + min (all_frames - written) (queued_frames r) \<and> discarded' = discarded
    \<and> data' = overwrite (written * rg_channels r)
        (map (\<lambda>s. so_device ops (so_times ops s one_f32))
          (take ((all_frames - written) * rg_channels r) (queued_samples r))) data
    \<and> queued_samples r' = drop ((all_frames - written) * rg_channels r) (queued_samples r)"
  using assms
proof (induction fuel arbitrary: data written discarded r)
  case 0
  then show ?case by (subst (asm) copy_loop.simps) (auto split: if_splits)
next
  case (Suc k)
  show ?case
  proof (cases "all_frames \<le> written")
    case True
    then show ?thesis using Suc.prems by (subst (asm) copy_loop.simps) auto
  next
    case False
    then have less: "written < all_frames" by simp
    let ?dev = "\<lambda>s. so_device ops (so_times ops s one_f32)"
    obtain go data1 written1 discarded1 r1
      where t: "copy_turn ops (\<lambda>_. []) k now_us all_frames data written discarded r = (go, data1, written1, discarded1, r1)"
      by (metis prod_cases5)
    have loop: "(if go then copy_loop ops (\<lambda>_. []) k now_us all_frames data1 written1 discarded1 r1
         else Some (data1, written1, discarded1, r1)) = Some (data', written', discarded', r')"
      using Suc.prems(8) False t by (subst (asm) copy_loop.simps) simp
    note ok = copy_turn_ok [OF Suc.prems(1,2) less Suc.prems(4,5) t]
    from Suc.prems(1,2) less Suc.prems(6,7) t show ?thesis
    proof (cases rule: steady_turn)
      case out
      then show ?thesis using loop by simp
    next
      case (more frames)
      have same: "rg_channels r1 = rg_channels r" "rg_blocks r1 = rg_blocks r" "length data1 = length data"
        using ok by (auto simp: rig_sizes_def)
      let ?c = "rg_channels r"
      have len: "length (queued_samples r) = queued_frames r * ?c" by (rule length_queued_samples [OF Suc.prems(1)])
      have le: "frames * ?c \<le> queued_frames r * ?c" using more(3) by simp
      have fit: "written * ?c + length (map ?dev (take (frames * ?c) (queued_samples r))) \<le> length data"
        using mult_le_mono1 [OF more(5), of ?c] Suc.prems(4) le by (simp add: len more(4) add_mult_distrib)
      have at: "written1 * ?c = written * ?c + length (map ?dev (take (frames * ?c) (queued_samples r)))"
        using le by (simp add: more(4) len add_mult_distrib)
      have split: "(all_frames - written) * ?c = frames * ?c + (all_frames - written1) * ?c"
        using more(4,5) by (simp flip: add_mult_distrib)
      have IH: "written' = written1 + min (all_frames - written1) (queued_frames r1) \<and> discarded' = discarded1
        \<and> data' = overwrite (written1 * rg_channels r1)
            (map ?dev (take ((all_frames - written1) * rg_channels r1) (queued_samples r1))) data1
        \<and> queued_samples r' = drop ((all_frames - written1) * rg_channels r1) (queued_samples r1)"
        by (rule Suc.IH) (use ok more same loop Suc.prems(4) in auto)
      have "data' = overwrite (written * ?c) (map ?dev (take (frames * ?c) (queued_samples r))
          @ map ?dev (take ((all_frames - written1) * ?c) (drop (frames * ?c) (queued_samples r)))) data"
        using IH unfolding same more(7,8) at overwrite_twice [OF fit] by blast
      also have "map ?dev (take (frames * ?c) (queued_samples r))
          @ map ?dev (take ((all_frames - written1) * ?c) (drop (frames * ?c) (queued_samples r)))
          = map ?dev (take ((all_frames - written) * ?c) (queued_samples r))"
        unfolding split by (simp only: take_add map_append)
      finally have data: "data' = overwrite (written * ?c)
          (map ?dev (take ((all_frames - written) * ?c) (queued_samples r))) data" .
      have "queued_samples r' = drop ((all_frames - written) * ?c) (queued_samples r)"
        using IH unfolding same more(8) split by (simp add: add.commute)
      moreover have "written' = written + min (all_frames - written) (queued_frames r)"
        using IH more(3-5,9) by auto
      ultimately show ?thesis using IH data more(6) by blast
    qed
  qed
qed

text \<open>
  Playback is gapless: with the queued blocks of the current performance, and no interference, the
  callback hands the driver exactly the next frames of the queue, in order and at full level, across the
  boundaries of the blocks, and keeps the rest for the next call. Only when the queue runs short are frames
  missing, exactly as many as it is short.
\<close>

theorem playback_is_gapless:
  assumes "rig_ok r" and "open_offset (ao_current r) (ao_offset r)" and "in_generation r" and "\<not> ao_recovering r"
    and "rg_phase r = 2" and "\<not> rg_gate_closed r" and "ao_generation r = rg_midi_generation r"
    and "0 < data_len div rg_channels r" and "data_len div rg_channels r \<le> rg_max_frames r"
    and "data_len div rg_channels r + rg_blocks r \<le> fuel"
  shows "\<exists>missing data r'. copy_into ops (\<lambda>_. []) fuel now_us data_len r = Some (missing, data, r')
    \<and> missing = data_len div rg_channels r - queued_frames r
    \<and> take ((data_len div rg_channels r - missing) * rg_channels r) data
      = map (\<lambda>s. so_device ops (so_times ops s one_f32))
          (take (data_len div rg_channels r * rg_channels r) (queued_samples r))
    \<and> queued_samples r' = drop (data_len div rg_channels r * rg_channels r) (queued_samples r)"
proof -
  define all_frames where "all_frames = data_len div rg_channels r"
  define silence where "silence = replicate data_len (so_device ops 0)"
  have blocks: "0 < rg_blocks r" using assms(1) by (simp add: rig_ok_def rig_shape_def)
  have pos: "0 < all_frames" "all_frames \<le> rg_max_frames r" using assms(8,9) by (simp_all add: all_frames_def)
  obtain s where s: "start_copy all_frames r = (False, s)"
    using assms(3,7) by (simp add: start_copy_def Let_def in_generation_def)
  note start = start_copy_ok [OF assms(1) pos, unfolded s snd_conv]
  have same: "rg_channels s = rg_channels r" "rg_blocks s = rg_blocks r" "in_generation s" "\<not> ao_recovering s"
      "queued_samples s = queued_samples r" "queued_frames s = queued_frames r"
    using s assms(3,4,7) by (auto simp: start_copy_def Let_def in_generation_def queued_samples_def queued_frames_def)
  have len: "all_frames * rg_channels s \<le> length silence" by (simp add: same all_frames_def silence_def)
  obtain data written discarded t
    where loop: "copy_loop ops (\<lambda>_. []) fuel now_us all_frames silence 0 0 s = Some (data, written, discarded, t)"
      and t: "rig_ok t" "rig_sizes t = rig_sizes s" "open_offset (ao_current t) (ao_offset t)" "written \<le> all_frames"
        "length data = length silence"
    using copy_loop_ok [OF start(1), of 0 all_frames silence 0 fuel ops "\<lambda>_. []" now_us] start(3,4) same len blocks assms(2,10)
    by (auto simp: all_frames_def [symmetric])
  note steady = steady_loop [OF start(1) _ _ len _ same(3,4) loop, unfolded same(1,5,6)]
  have w: "written = min all_frames (queued_frames r)"
      "data = overwrite 0 (map (\<lambda>s. so_device ops (so_times ops s one_f32))
        (take (all_frames * rg_channels r) (queued_samples r))) silence"
      "queued_samples t = drop (all_frames * rg_channels r) (queued_samples r)" "discarded = 0"
    using steady start(3,4) assms(2) blocks same(2) by simp_all
  obtain missing data' r' where f: "finish_copy ops all_frames False data written discarded t = (missing, data', r')"
    by (metis prod_cases3)
  have cs: "rg_channels t = rg_channels s" using t(2) by (simp add: rig_sizes_def)
  have "written * rg_channels t \<le> length data"
    unfolding cs t(5) using mult_le_mono1 [OF t(4)] len by (rule le_trans)
  then have r': "missing = all_frames - written" "queued_samples r' = queued_samples t"
      "take (written * rg_channels t) data' = take (written * rg_channels t) data"
    using f by (auto simp: finish_copy_def Let_def overwrite_def queued_samples_def min_def split: if_splits)
  have ch: "rg_channels t = rg_channels r" using t(2) same(1) by (simp add: rig_sizes_def)
  have lenq: "length (queued_samples r) = queued_frames r * rg_channels r" by (rule length_queued_samples [OF assms(1)])
  have "take (written * rg_channels r) data = map (\<lambda>s. so_device ops (so_times ops s one_f32))
        (take (all_frames * rg_channels r) (queued_samples r))"
    by (cases "all_frames \<le> queued_frames r") (simp_all add: w(1,2) overwrite_def lenq take_map min_def)
  moreover have "copy_into ops (\<lambda>_. []) fuel now_us data_len r = Some (missing, data', r')"
    using assms(5,6) pos s loop f
    by (simp add: copy_into_eq Let_def all_frames_def [symmetric] silence_def [symmetric])
  moreover have "all_frames - missing = written" "missing = all_frames - queued_frames r"
    using r'(1) t(4) w(1) by simp_all
  ultimately show ?thesis
    using r' w(3) ch by (simp add: all_frames_def [symmetric])
qed


theorem playback_is_gapless_witness:
  "let r = the (rig_run example_ops [Other (Prime_at 0), Other (Begin 9), Other (Finish (\<lambda>i. of_nat (i + 1)) (Some 0)),
       Other Activate] (the (render_channel 2 1 4 1000 2 0 False False)))
   in \<exists>missing data r'. copy_into example_ops (\<lambda>_. []) 10 100 3 r = Some (missing, data, r')
     \<and> missing = 1 \<and> take 2 data = [1, 2]"
proof -
  define r where "r = the (rig_run example_ops [Other (Prime_at 0), Other (Begin 9),
      Other (Finish (\<lambda>i. of_nat (i + 1)) (Some 0)), Other Activate] (the (render_channel 2 1 4 1000 2 0 False False)))"
  have eq: "rg_phase r = 2" "rg_gate_closed r = False" "ao_generation r = 0" "rg_midi_generation r = 0" "ao_recovering r = False"
      "rg_channels r = 1" "rg_max_frames r = 4" "rg_blocks r = 2" "ao_current r = None" "in_generation r"
      "queued_frames r = 2" "queued_samples r = [1, 2]"
    unfolding r_def by code_simp+
  have "rig_ok r"
  proof -
    have c: "render_channel 2 1 4 1000 2 0 False False = Some (the (render_channel 2 1 4 1000 2 0 False False))"
      by (simp add: render_channel_def)
    have "open_offset (ao_current (the (render_channel 2 1 4 1000 2 0 False False)))
        (ao_offset (the (render_channel 2 1 4 1000 2 0 False False)))"
      unfolding render_channel_ok(2) [OF c] by simp
    from rig_run_ok [OF render_channel_ok(1) [OF c] this] show ?thesis
      unfolding r_def by (metis option.sel)
  qed
  from playback_is_gapless [OF this, of 3 10 example_ops 100] show ?thesis
    unfolding r_def [symmetric] Let_def by (simp add: eq) (auto simp: example_ops_def)
qed


section \<open>The thread of the renderer\<close>

text \<open>
  \<open>DspWorkerGuard\<close>: the thread counts the blocks it rendered until the pool is primed, and reports that once.
  The clock readings around the call of the renderer and the elapsed time are arguments.
\<close>

record worker_state =
  ws_initial :: nat
  ws_signals :: nat
  ws_busy_since_qpc :: u64
  ws_last_completed_qpc :: u64
  ws_block_max_us :: u32
  ws_over_budget :: u64

definition observe_render :: "u64 \<Rightarrow> u32 \<Rightarrow> nat \<Rightarrow> u32 \<Rightarrow> bool \<Rightarrow> worker_state \<Rightarrow> worker_state" where
  "observe_render completed_qpc elapsed_us frames sample_rate produced w =
     (let w = w\<lparr>ws_busy_since_qpc := 0\<rparr> in
      if \<not> produced then w
      else
        let w = w\<lparr>ws_last_completed_qpc := completed_qpc, ws_block_max_us := max (ws_block_max_us w) elapsed_us\<rparr>
        in if ucast elapsed_us > (of_nat frames * 1000000 div ucast sample_rate :: u64)
           then w\<lparr>ws_over_budget := ws_over_budget w + 1\<rparr> else w)"

definition note_rendered :: "nat \<Rightarrow> bool \<Rightarrow> worker_state \<Rightarrow> worker_state" where
  "note_rendered blocks rendered w =
     (if rendered \<and> ws_initial w < blocks then
        let w = w\<lparr>ws_initial := ws_initial w + 1\<rparr>
        in if ws_initial w = blocks then w\<lparr>ws_signals := ws_signals w + 1\<rparr> else w
      else w)"

definition guard_prime :: "nat option \<Rightarrow> u64 \<Rightarrow> bool \<Rightarrow> render_rig \<Rightarrow> bool \<times> render_rig" where
  "guard_prime frames now_us primed r =
     (let r = (case frames of None \<Rightarrow> r | Some frames \<Rightarrow> set_frames frames r);
          r = prime_at now_us r
      in if primed then (True, activate r) else (False, r))"

lemma primed_once:
  assumes "0 < blocks" and "ws_initial w = 0" and "ws_signals w = 0"
  shows "ws_signals (fold (note_rendered blocks) turns w) = (if blocks \<le> length (filter id turns) then 1 else 0)"
proof -
  have "ws_initial (fold (note_rendered blocks) turns w) = min blocks (length (filter id turns))
      \<and> ws_signals (fold (note_rendered blocks) turns w) = (if blocks \<le> length (filter id turns) then 1 else 0)"
    using assms by (induction turns rule: rev_induct) (auto simp: note_rendered_def Let_def)
  then show ?thesis ..
qed

end
