(* ===== verification/Remote_Bridge.thy ===== *)
theory Remote_Bridge
  imports Audio_Midi Render_Ahead
begin

text \<open>
  The shared memory between the host and the DSP process of a 32-bit plugin (\<open>audio/remote_bridge.rs\<close>): three
  slots that carry a request (MIDI, parameter changes) to the DSP process and the rendered audio back. The
  host's side is \<open>remote_process\<close>, called by the audio thread once per block; the DSP side is
  \<open>service_dsp_cycle\<close>. What the other process does between two accesses of the host is a list of
  \<open>dsp_action\<close>s.
\<close>

section \<open>The mapping\<close>

definition BRIDGE_SLOTS :: nat where "BRIDGE_SLOTS = 3"
definition BRIDGE_MAX_FRAMES :: nat where "BRIDGE_MAX_FRAMES = 8192"
definition BRIDGE_MAX_MIDI :: nat where "BRIDGE_MAX_MIDI = 512"
definition BRIDGE_MAX_PARAMETER_CHANGES :: nat where "BRIDGE_MAX_PARAMETER_CHANGES = 512"
definition BRIDGE_STALL_BUDGET_MS :: u64 where "BRIDGE_STALL_BUDGET_MS = 5000"
definition BRIDGE_CONTROL_BUDGET_MS :: u64 where "BRIDGE_CONTROL_BUDGET_MS = 10000"

text \<open>The states of a slot, of the server and of the command.\<close>

definition SLOT_EMPTY :: u32 where "SLOT_EMPTY = 0"
definition SLOT_REQUESTED :: u32 where "SLOT_REQUESTED = 1"
definition SLOT_READY :: u32 where "SLOT_READY = 2"
definition SERVER_READY :: u32 where "SERVER_READY = 1"
definition SERVER_FAILED :: u32 where "SERVER_FAILED = 2"
definition COMMAND_NONE :: u32 where "COMMAND_NONE = 0"
definition COMMAND_RESERVED :: u32 where "COMMAND_RESERVED = - 1"
definition COMMAND_SAVE_STATE :: u32 where "COMMAND_SAVE_STATE = 3"
definition COMMAND_PENDING :: u32 where "COMMAND_PENDING = 1"
definition COMMAND_OK :: u32 where "COMMAND_OK = 2"
definition COMMAND_FAILED :: u32 where "COMMAND_FAILED = 3"
definition COMMAND_TIMED_OUT :: u32 where "COMMAND_TIMED_OUT = 4"

lemmas slot_state_defs = SLOT_EMPTY_def SLOT_REQUESTED_def SLOT_READY_def

record bridge_midi_event =
  be_ingress_qpc :: u64
  be_worker_qpc :: u64
  be_consumed_qpc :: u64
  be_data :: bytes
  be_len :: u8
  be_sample_offset :: u32

record parameter_command =
  pc_sequence :: u64
  pc_index :: nat
  pc_id :: u32
  pc_flags :: u32
  pc_step_count :: i32
  pc_value :: f32

record bridge_parameter_change =
  bp_index :: u32
  bp_id :: u32
  bp_flags :: u32
  bp_step_count :: i32
  bp_value :: f32

text \<open>The outputs of a slot are its channels.\<close>

record bridge_slot =
  bs_state :: u32
  bs_frames :: u32
  bs_event_count :: u32
  bs_parameter_change_count :: u32
  bs_sequence :: u64
  bs_events :: "bridge_midi_event list"
  bs_parameter_changes :: "bridge_parameter_change list"
  bs_outputs :: "f32 list list"

record bridge_shared =
  sh_server_status :: u32
  sh_editor_open :: u32
  sh_shutdown :: u32
  sh_underruns :: u32
  sh_overruns :: u32
  sh_error :: bytes
  sh_command :: u32
  sh_command_status :: u32
  sh_slots :: "bridge_slot list"

definition set_mapping_error :: "bytes \<Rightarrow> bridge_shared \<Rightarrow> bridge_shared" where
  "set_mapping_error error sh = sh\<lparr>sh_error := take 512 error, sh_server_status := SERVER_FAILED\<rparr>"

definition set_command_error :: "bytes \<Rightarrow> bridge_shared \<Rightarrow> bridge_shared" where
  "set_command_error error sh = sh\<lparr>sh_error := take 512 error\<rparr>"

definition slot_at :: "nat \<Rightarrow> bridge_shared \<Rightarrow> bridge_slot" where
  "slot_at i sh = sh_slots sh ! i"

definition put_slot :: "nat \<Rightarrow> bridge_slot \<Rightarrow> bridge_shared \<Rightarrow> bridge_shared" where
  "put_slot i slot sh = sh\<lparr>sh_slots := (sh_slots sh)[i := slot]\<rparr>"

section \<open>The host's side\<close>

record remote_plugin =
  rm_next_sequence :: u64
  rm_min_output_sequence :: u64
  rm_output_channels :: nat
  rm_sample_rate :: u32
  rm_panic_pending :: bool
  rm_playback :: "u64 option"
  rm_pending_parameter_changes :: "parameter_command list"
  rm_parameter_sequences :: "u64 list"
  rm_missed_frames :: u64
  rm_wait_started_ms :: "u64 option"
  rm_last_output :: "f32 list"

record bridge_telemetry =
  tl_applied_sequence :: u64
  tl_delivered :: "(u64 \<times> u64 \<times> u64) list"

definition same_parameter :: "parameter_command \<Rightarrow> parameter_command \<Rightarrow> bool" where
  "same_parameter existing command \<longleftrightarrow> pc_index existing = pc_index command
     \<or> pc_id existing \<noteq> 0 \<and> pc_id command \<noteq> 0 \<and> pc_id existing = pc_id command"

fun replace_first :: "('a \<Rightarrow> bool) \<Rightarrow> 'a \<Rightarrow> 'a list \<Rightarrow> 'a list option" where
  "replace_first P new [] = None"
| "replace_first P new (x # xs) = (if P x then Some (new # xs) else map_option ((#) x) (replace_first P new xs))"

definition merge_parameter_command :: "parameter_command list \<Rightarrow> parameter_command \<Rightarrow> parameter_command list" where
  "merge_parameter_command pending command =
     (case replace_first (\<lambda>existing. same_parameter existing command) command pending of
        Some pending \<Rightarrow> pending
      | None \<Rightarrow>
          (if length pending = BRIDGE_MAX_PARAMETER_CHANGES then drop 1 pending else pending) @ [command])"

definition merge_parameter_commands ::
  "parameter_command list \<Rightarrow> parameter_command list \<Rightarrow> parameter_command list" where
  "merge_parameter_commands pending incoming = foldl merge_parameter_command pending incoming"

definition RESET_CONTROLLERS :: bytes where "RESET_CONTROLLERS = [64, 120, 121, 123]"

definition write_panic_events :: "bridge_midi_event list" where
  "write_panic_events = concat (map (\<lambda>channel. map (\<lambda>controller.
       \<lparr>be_ingress_qpc = 0, be_worker_qpc = 0, be_consumed_qpc = 0,
        be_data = [0xB0 OR of_nat channel, controller, 0], be_len = 3, be_sample_offset = 0\<rparr>) RESET_CONTROLLERS)
     [0..<16])"

text \<open>The packets from the front of the queue that are due, up to the capacity of a slot.\<close>

fun write_bridge_midi_events ::
  "midi_packet list \<Rightarrow> nat \<Rightarrow> block_timing \<Rightarrow> bridge_midi_event list \<times> midi_packet list \<times> block_timing" where
  "write_bridge_midi_events [] count timing = ([], [], timing)"
| "write_bridge_midi_events (packet # midi) count timing =
     (if count \<ge> BRIDGE_MAX_MIDI \<or> \<not> timing_contains timing (mp_timestamp_us packet)
      then ([], packet # midi, timing)
      else
        let (offset, timing) = timing_offset timing (mp_timestamp_us packet);
            event = \<lparr>be_ingress_qpc = mp_ingress_qpc packet, be_worker_qpc = mp_worker_qpc packet,
              be_consumed_qpc = 0, be_data = mp_data packet, be_len = mp_len packet, be_sample_offset = offset\<rparr>
        in case write_bridge_midi_events midi (count + 1) timing of
             (events, rest, timing) \<Rightarrow> (event # events, rest, timing))"

definition bridge_stall_budget_exceeded :: "u64 \<Rightarrow> u32 \<Rightarrow> bool" where
  "bridge_stall_budget_exceeded missed_frames sample_rate \<longleftrightarrow>
     saturating_mul missed_frames 1000 \<ge> saturating_mul (ucast (max sample_rate 1)) BRIDGE_STALL_BUDGET_MS"

definition control_busy :: "bridge_shared \<Rightarrow> bool" where
  "control_busy sh \<longleftrightarrow> sh_command sh \<noteq> COMMAND_NONE \<and> sh_command sh \<noteq> COMMAND_RESERVED
     \<and> sh_command_status sh = COMMAND_PENDING"

definition stall_error :: bytes where
  "stall_error = map (of_nat \<circ> of_char) ''x86 DSP bridge produced no completed block for 5000 ms''"

text \<open>\<open>buffered_output_ready\<close>; the clock is an argument, in milliseconds.\<close>

definition buffered_output_ready ::
  "u64 \<Rightarrow> remote_plugin \<Rightarrow> bridge_shared \<Rightarrow> bool \<times> remote_plugin \<times> bridge_shared" where
  "buffered_output_ready now_ms rm sh =
     (let ready = rm_next_sequence rm = 1 \<or> rm_panic_pending rm \<or> sh_server_status sh \<noteq> SERVER_READY
        \<or> list_ex (\<lambda>slot. bs_state slot = SLOT_READY
             \<and> bs_sequence slot = saturating_sub (rm_next_sequence rm) 1) (sh_slots sh)
      in if ready then (True, rm\<lparr>rm_wait_started_ms := None\<rparr>, sh)
         else
           let started = (case rm_wait_started_ms rm of Some t \<Rightarrow> t | None \<Rightarrow> now_ms);
               rm = rm\<lparr>rm_wait_started_ms := Some started\<rparr>;
               budget_ms = BRIDGE_STALL_BUDGET_MS + (if control_busy sh then BRIDGE_CONTROL_BUDGET_MS else 0)
           in if saturating_sub now_ms started \<ge> budget_ms then (True, rm, set_mapping_error stall_error sh)
              else (False, rm, sh))"

section \<open>The DSP process\<close>

text \<open>
  \<open>Complete\<close> is a request the plugin rendered (its audio as a function of the number of the request), \<open>Reject\<close> one outside the limits, \<open>Failed\<close> one on which the
  plugin reported an error; they act only on a requested slot. \<open>Control\<close> is a change of the command.
\<close>

datatype dsp_action =
    Complete nat u64 "u64 \<Rightarrow> f32 list list" | Reject nat | Failed nat bytes | Control u32 u32

definition stamp_consumed :: "u64 \<Rightarrow> nat \<Rightarrow> bridge_midi_event list \<Rightarrow> bridge_midi_event list" where
  "stamp_consumed stamp count events =
     map (\<lambda>event. event\<lparr>be_consumed_qpc := stamp\<rparr>) (take count events) @ drop count events"

definition complete_slot :: "u64 \<Rightarrow> f32 list list \<Rightarrow> bridge_slot \<Rightarrow> bridge_slot" where
  "complete_slot stamp outputs slot =
     slot\<lparr>bs_events := stamp_consumed stamp (unat (bs_event_count slot)) (bs_events slot),
          bs_outputs := outputs, bs_state := SLOT_READY\<rparr>"

fun dsp_act :: "dsp_action \<Rightarrow> bridge_shared \<Rightarrow> bridge_shared" where
  "dsp_act (Complete i stamp synth) sh =
     (if i < length (sh_slots sh) \<and> bs_state (slot_at i sh) = SLOT_REQUESTED
      then put_slot i (complete_slot stamp (synth (bs_sequence (slot_at i sh))) (slot_at i sh)) sh else sh)"
| "dsp_act (Reject i) sh =
     (if i < length (sh_slots sh) \<and> bs_state (slot_at i sh) = SLOT_REQUESTED
      then put_slot i ((slot_at i sh)\<lparr>bs_state := SLOT_EMPTY\<rparr>) sh else sh)"
| "dsp_act (Failed i error) sh =
     (if i < length (sh_slots sh) \<and> bs_state (slot_at i sh) = SLOT_REQUESTED
      then set_mapping_error error (put_slot i ((slot_at i sh)\<lparr>bs_state := SLOT_EMPTY\<rparr>) sh) else sh)"
| "dsp_act (Control command status) sh = sh\<lparr>sh_command := command, sh_command_status := status\<rparr>"

definition dsp_acts :: "dsp_action list \<Rightarrow> bridge_shared \<Rightarrow> bridge_shared" where
  "dsp_acts = fold dsp_act"

section \<open>One block of the host\<close>

text \<open>
  The search for the awaited result. \<open>sc_rendered\<close> is the sequence number of the result that was taken;
  \<open>sc_stop\<close> is the \<open>break\<close> of the loop.
\<close>

record scan =
  sc_shared :: bridge_shared
  sc_outputs :: "f32 list list"
  sc_last_output :: "f32 list"
  sc_telemetry :: "bridge_telemetry option"
  sc_rendered :: "u64 option"
  sc_progress :: bool
  sc_stop :: bool

definition copy_channels :: "nat \<Rightarrow> nat \<Rightarrow> f32 list list \<Rightarrow> f32 list list \<Rightarrow> f32 list list" where
  "copy_channels channels frames source outputs =
     map (\<lambda>(channel, output). if channel < channels
            then take frames (source ! channel) @ drop frames output else output) (enumerate 0 outputs)"

definition last_samples :: "nat \<Rightarrow> nat \<Rightarrow> f32 list list \<Rightarrow> nat \<Rightarrow> f32 list \<Rightarrow> f32 list" where
  "last_samples channels frames source outputs_len olds =
     map (\<lambda>(channel, old). if channel < channels \<and> channel < outputs_len
            then source ! channel ! (frames - 1) else old) (enumerate 0 olds)"

definition deliveries :: "bridge_slot \<Rightarrow> (u64 \<times> u64 \<times> u64) list" where
  "deliveries slot = map (\<lambda>e. (be_ingress_qpc e, be_worker_qpc e, be_consumed_qpc e))
     (filter (\<lambda>e. be_ingress_qpc e \<noteq> 0 \<and> be_consumed_qpc e \<noteq> 0)
       (take (unat (bs_event_count slot)) (bs_events slot)))"

definition scan_slot ::
  "(nat \<Rightarrow> dsp_action list) \<Rightarrow> remote_plugin \<Rightarrow> nat \<Rightarrow> nat \<Rightarrow> scan \<Rightarrow> scan" where
  "scan_slot moves rm frames i s =
     (if sc_stop s then s
      else
        let sh = dsp_acts (moves i) (sc_shared s);
            s = s\<lparr>sc_shared := sh\<rparr>;
            slot = slot_at i sh;
            emptied = slot\<lparr>bs_state := SLOT_EMPTY\<rparr>;
            expected = saturating_sub (rm_next_sequence rm) 1
        in if bs_state slot \<noteq> SLOT_READY then s
           else
             let s = s\<lparr>sc_progress := True,
                   sc_telemetry := map_option (\<lambda>t. t\<lparr>tl_applied_sequence :=
                     max (tl_applied_sequence t) (rm_parameter_sequences rm ! i)\<rparr>) (sc_telemetry s)\<rparr>
             in if bs_sequence slot < expected \<or> bs_sequence slot < rm_min_output_sequence rm then
                  s\<lparr>sc_shared := (put_slot i emptied sh)\<lparr>sh_overruns := sh_overruns sh + 1\<rparr>\<rparr>
                else if bs_sequence slot \<noteq> expected then s
                else if unat (bs_frames slot) \<noteq> frames then
                  s\<lparr>sc_shared := put_slot i emptied sh, sc_stop := True\<rparr>
                else
                  s\<lparr>sc_outputs := copy_channels (rm_output_channels rm) frames (bs_outputs slot) (sc_outputs s),
                    sc_last_output := last_samples (rm_output_channels rm) frames (bs_outputs slot)
                      (length (sc_outputs s)) (sc_last_output s),
                    sc_telemetry := map_option (\<lambda>t. t\<lparr>tl_delivered := tl_delivered t @ deliveries slot\<rparr>)
                      (sc_telemetry s),
                    sc_shared := put_slot i emptied sh, sc_rendered := Some (bs_sequence slot), sc_stop := True\<rparr>)"

definition scan_slots ::
  "(nat \<Rightarrow> dsp_action list) \<Rightarrow> remote_plugin \<Rightarrow> nat \<Rightarrow> scan \<Rightarrow> scan" where
  "scan_slots moves rm frames s = fold (scan_slot moves rm frames) [0..<BRIDGE_SLOTS] s"


text \<open>No result: the last samples fade out and the frames count towards the deadline of a stalled process.\<close>

definition fade_channels :: "'d sample_ops \<Rightarrow> nat \<Rightarrow> nat \<Rightarrow> f32 list \<Rightarrow> f32 list list \<Rightarrow> f32 list list" where
  "fade_channels ops channels frames olds outputs =
     map (\<lambda>(channel, output). if channel < channels
            then map (\<lambda>i. so_times ops (olds ! channel) (so_fade ops (i + 1) (max frames 1))) [0..<frames]
              @ drop frames output
            else output) (enumerate 0 outputs)"

definition silence_channels :: "nat \<Rightarrow> nat \<Rightarrow> f32 list list \<Rightarrow> f32 list list" where
  "silence_channels channels frames outputs =
     map (\<lambda>(channel, output). if channel < channels then replicate frames 0 @ drop frames output else output)
       (enumerate 0 outputs)"

definition missed_block ::
  "'d sample_ops \<Rightarrow> nat \<Rightarrow> remote_plugin \<Rightarrow> scan \<Rightarrow> remote_plugin \<times> scan" where
  "missed_block ops frames rm s =
     (let sh = (sc_shared s)\<lparr>sh_underruns := sh_underruns (sc_shared s) + 1\<rparr>;
          channels = rm_output_channels rm;
          outputs = fade_channels ops channels frames (sc_last_output s) (sc_outputs s);
          olds = map (\<lambda>(channel, old). if channel < channels \<and> channel < length (sc_outputs s) then 0 else old)
            (enumerate 0 (sc_last_output s));
          missed = (if sc_progress s then 0 else saturating_add (rm_missed_frames rm) (of_nat frames));
          grace = (if control_busy sh
                   then saturating_mul (ucast (rm_sample_rate rm)) BRIDGE_CONTROL_BUDGET_MS div 1000 else 0);
          sh = (if bridge_stall_budget_exceeded (saturating_sub missed grace) (rm_sample_rate rm)
                then set_mapping_error stall_error sh else sh)
      in (rm\<lparr>rm_missed_frames := missed\<rparr>,
          s\<lparr>sc_shared := sh, sc_outputs := outputs, sc_last_output := olds\<rparr>))"

text \<open>The first free slot; the other process may act before each is looked at.\<close>

fun find_empty :: "(nat \<Rightarrow> dsp_action list) \<Rightarrow> nat list \<Rightarrow> bridge_shared \<Rightarrow> nat option \<times> bridge_shared" where
  "find_empty moves [] sh = (None, sh)"
| "find_empty moves (i # is) sh =
     (let sh = dsp_acts (moves (BRIDGE_SLOTS + i)) sh
      in if bs_state (slot_at i sh) = SLOT_EMPTY then (Some i, sh) else find_empty moves is sh)"

definition bridge_change :: "parameter_command \<Rightarrow> bridge_parameter_change" where
  "bridge_change c = \<lparr>bp_index = of_nat (min (pc_index c) (2 ^ 32 - 1)), bp_id = pc_id c, bp_flags = pc_flags c,
     bp_step_count = pc_step_count c, bp_value = pc_value c\<rparr>"

definition max_sequence :: "parameter_command list \<Rightarrow> u64" where
  "max_sequence commands = foldr (\<lambda>c. max (pc_sequence c)) commands 0"

text \<open>Filling the slot \<open>i\<close>; the array behind the written part keeps its old contents.\<close>

definition fill_slot ::
  "nat \<Rightarrow> nat \<Rightarrow> u64 \<Rightarrow> u64 option \<Rightarrow> u64 option \<Rightarrow> midi_packet list \<Rightarrow> remote_plugin \<Rightarrow> bridge_shared
     \<Rightarrow> midi_packet list \<times> remote_plugin \<times> bridge_shared" where
  "fill_slot i frames now_us next_ingress_us source_end_us midi rm sh =
     (let panic = (if rm_panic_pending rm then write_panic_events else []);
          rm = rm\<lparr>rm_panic_pending := False\<rparr>;
          timing = begin_block (rm_playback rm) frames (rm_sample_rate rm)
            (case source_end_us of Some t \<Rightarrow> t | None \<Rightarrow> now_us)
            (case midi of [] \<Rightarrow> None | p # _ \<Rightarrow> Some (mp_timestamp_us p));
          (events, rest, timing) = write_bridge_midi_events midi (length panic) timing;
          events = panic @ events;
          playback = commit_block timing
            (case rest of [] \<Rightarrow> next_ingress_us | p # _ \<Rightarrow> Some (mp_timestamp_us p));
          pending = rm_pending_parameter_changes rm;
          count = min (length pending) BRIDGE_MAX_PARAMETER_CHANGES;
          slot = slot_at i sh;
          slot = slot\<lparr>bs_events := events @ drop (length events) (bs_events slot),
              bs_parameter_changes := map bridge_change (take count pending) @ drop count (bs_parameter_changes slot),
              bs_frames := of_nat frames, bs_event_count := of_nat (length events),
              bs_parameter_change_count := of_nat count, bs_sequence := rm_next_sequence rm,
              bs_state := SLOT_REQUESTED\<rparr>;
          rm = rm\<lparr>rm_playback := playback,
              rm_parameter_sequences := (rm_parameter_sequences rm)[i := max_sequence pending],
              rm_pending_parameter_changes := [], rm_next_sequence := max (rm_next_sequence rm + 1) 1\<rparr>
      in (rest, rm, put_slot i slot sh))"

text \<open>
  \<open>process\<close>. The result: what the function returns, the sequence number of the audio it delivered, the MIDI
  left in the queue, the host's state, the mapping, the audio and the telemetry.
\<close>

record bridge_block =
  bb_ok :: bool
  bb_rendered :: "u64 option"
  bb_midi :: "midi_packet list"
  bb_plugin :: remote_plugin
  bb_shared :: bridge_shared
  bb_outputs :: "f32 list list"
  bb_telemetry :: "bridge_telemetry option"

definition start_scan :: "remote_plugin \<Rightarrow> bridge_shared \<Rightarrow> f32 list list \<Rightarrow> bridge_telemetry option \<Rightarrow> scan" where
  "start_scan rm sh outputs telemetry =
     \<lparr>sc_shared = sh, sc_outputs = outputs, sc_last_output = rm_last_output rm, sc_telemetry = telemetry,
      sc_rendered = None, sc_progress = False, sc_stop = False\<rparr>"

text \<open>What follows the search: a missed block, a delivered one, or the silence before the first result.\<close>

definition after_scan :: "'d sample_ops \<Rightarrow> nat \<Rightarrow> remote_plugin \<Rightarrow> scan \<Rightarrow> remote_plugin \<times> scan" where
  "after_scan ops frames rm s =
     (let priming = (rm_next_sequence rm = 1 \<or> rm_panic_pending rm);
          (rm, s) =
            (if sc_rendered s = None \<and> \<not> priming then missed_block ops frames rm s
             else if sc_rendered s \<noteq> None then (rm\<lparr>rm_missed_frames := 0\<rparr>, s)
             else (rm, s\<lparr>sc_outputs := silence_channels (rm_output_channels rm) frames (sc_outputs s)\<rparr>))
      in (rm\<lparr>rm_last_output := sc_last_output s\<rparr>, s))"

definition place_request ::
  "(nat \<Rightarrow> dsp_action list) \<Rightarrow> nat \<Rightarrow> u64 \<Rightarrow> u64 option \<Rightarrow> u64 option \<Rightarrow> midi_packet list \<Rightarrow> remote_plugin
     \<Rightarrow> bridge_shared \<Rightarrow> midi_packet list \<times> remote_plugin \<times> bridge_shared" where
  "place_request moves frames now_us next_ingress_us source_end_us midi rm sh =
     (case find_empty moves [0..<BRIDGE_SLOTS] sh of
        (Some i, sh) \<Rightarrow> fill_slot i frames now_us next_ingress_us source_end_us midi rm sh
      | (None, sh) \<Rightarrow> (midi, rm, sh\<lparr>sh_overruns := sh_overruns sh + 1\<rparr>))"

definition remote_process ::
  "'d sample_ops \<Rightarrow> (nat \<Rightarrow> dsp_action list) \<Rightarrow> u64 \<Rightarrow> nat \<Rightarrow> parameter_command list \<Rightarrow> u64 option \<Rightarrow> u64 option
     \<Rightarrow> midi_packet list \<Rightarrow> f32 list list \<Rightarrow> bridge_telemetry option \<Rightarrow> remote_plugin \<Rightarrow> bridge_shared \<Rightarrow> bridge_block" where
  "remote_process ops moves now_us frames parameters next_ingress_us source_end_us midi outputs telemetry rm sh =
     (if frames = 0 \<or> frames > BRIDGE_MAX_FRAMES then
        \<lparr>bb_ok = False, bb_rendered = None, bb_midi = midi, bb_plugin = rm, bb_shared = sh, bb_outputs = outputs,
         bb_telemetry = telemetry\<rparr>
      else
        let rm = rm\<lparr>rm_pending_parameter_changes :=
              merge_parameter_commands (rm_pending_parameter_changes rm) parameters\<rparr>;
            ok = (\<lambda>rendered. rendered \<noteq> None \<or> rm_next_sequence rm = 1 \<or> rm_panic_pending rm);
            (rm, s) = after_scan ops frames rm (scan_slots moves rm frames (start_scan rm sh outputs telemetry));
            (midi, rm, sh) = place_request moves frames now_us next_ingress_us source_end_us midi rm (sc_shared s)
        in \<lparr>bb_ok = ok (sc_rendered s), bb_rendered = sc_rendered s, bb_midi = midi, bb_plugin = rm,
            bb_shared = sh, bb_outputs = sc_outputs s, bb_telemetry = sc_telemetry s\<rparr>)"

text \<open>The host's state after \<open>spawn\<close>.\<close>

definition remote_new :: "nat \<Rightarrow> u32 \<Rightarrow> remote_plugin" where
  "remote_new output_channels sample_rate =
     \<lparr>rm_next_sequence = 1, rm_min_output_sequence = 0, rm_output_channels = output_channels,
      rm_sample_rate = sample_rate, rm_panic_pending = False, rm_playback = None,
      rm_pending_parameter_changes = [], rm_parameter_sequences = replicate BRIDGE_SLOTS 0, rm_missed_frames = 0,
      rm_wait_started_ms = None, rm_last_output = replicate 64 0\<rparr>"

definition panic_all_notes :: "remote_plugin \<Rightarrow> remote_plugin" where
  "panic_all_notes rm =
     rm\<lparr>rm_panic_pending := True, rm_min_output_sequence := rm_next_sequence rm,
        rm_last_output := map (\<lambda>_. 0) (rm_last_output rm), rm_playback := None\<rparr>"

section \<open>Runs\<close>

datatype bridge_op =
    Block "nat \<Rightarrow> dsp_action list" u64 nat "parameter_command list" "u64 option" "u64 option" "midi_packet list"
      "f32 list list"
  | Panic | Dsp dsp_action

text \<open>
  What a run shows: the audio delivered (with the number of its request, the frames, and the host's buffers
  before and after), and each panic with the number of the first request after it.
\<close>

datatype bridge_entry = Rendered u64 nat "f32 list list" "f32 list list" | Panicked u64

fun bridge_run ::
  "'d sample_ops \<Rightarrow> bridge_op list \<Rightarrow> remote_plugin \<Rightarrow> bridge_shared \<Rightarrow> bridge_entry list" where
  "bridge_run ops [] rm sh = []"
| "bridge_run ops (Dsp a # rest) rm sh = bridge_run ops rest rm (dsp_act a sh)"
| "bridge_run ops (Panic # rest) rm sh = Panicked (rm_next_sequence rm) # bridge_run ops rest (panic_all_notes rm) sh"
| "bridge_run ops (Block moves now_us frames parameters next_us end_us midi outputs # rest) rm sh =
     (let b = remote_process ops moves now_us frames parameters next_us end_us midi outputs None rm sh
      in (case bb_rendered b of None \<Rightarrow> [] | Some q \<Rightarrow> [Rendered q frames outputs (bb_outputs b)])
         @ bridge_run ops rest (bb_plugin b) (bb_shared b))"

fun uses_audio :: "(u64 \<Rightarrow> f32 list list) \<Rightarrow> dsp_action \<Rightarrow> bool" where
  "uses_audio audio (Complete i stamp synth) \<longleftrightarrow> synth = audio"
| "uses_audio audio _ = True"

fun op_uses_audio :: "(u64 \<Rightarrow> f32 list list) \<Rightarrow> bridge_op \<Rightarrow> bool" where
  "op_uses_audio audio (Block moves _ _ _ _ _ _ _) \<longleftrightarrow> (\<forall>i. list_all (uses_audio audio) (moves i))"
| "op_uses_audio audio Panic = True"
| "op_uses_audio audio (Dsp a) = uses_audio audio a"

text \<open>A ready slot holds the audio of its request.\<close>

definition slots_ok :: "(u64 \<Rightarrow> f32 list list) \<Rightarrow> bridge_shared \<Rightarrow> bool" where
  "slots_ok audio sh \<longleftrightarrow> length (sh_slots sh) = BRIDGE_SLOTS
     \<and> (\<forall>i < BRIDGE_SLOTS. bs_state (slot_at i sh) = SLOT_READY \<longrightarrow> bs_outputs (slot_at i sh) = audio (bs_sequence (slot_at i sh)))"

lemma slot_at_put: "i < length (sh_slots sh) \<Longrightarrow> slot_at j (put_slot i slot sh) = (if i = j then slot else slot_at j sh)"
  by (simp add: slot_at_def put_slot_def nth_list_update)

lemma slot_at_fields [simp]:
  "slot_at i (set_mapping_error e sh) = slot_at i sh" "slot_at i (set_command_error e sh) = slot_at i sh"
  "slot_at i (sh\<lparr>sh_overruns := n\<rparr>) = slot_at i sh" "slot_at i (sh\<lparr>sh_underruns := n\<rparr>) = slot_at i sh"
  "slot_at i (sh\<lparr>sh_command := n\<rparr>) = slot_at i sh" "slot_at i (sh\<lparr>sh_command_status := n\<rparr>) = slot_at i sh"
  "length (sh_slots (set_mapping_error e sh)) = length (sh_slots sh)"
  "length (sh_slots (set_command_error e sh)) = length (sh_slots sh)"
  by (simp_all add: slot_at_def set_mapping_error_def set_command_error_def)

lemma length_put_slot [simp]: "length (sh_slots (put_slot i slot sh)) = length (sh_slots sh)"
  by (simp add: put_slot_def)

lemma slots_ok_fields [simp]:
  "slots_ok audio (sh\<lparr>sh_overruns := n\<rparr>) = slots_ok audio sh" "slots_ok audio (sh\<lparr>sh_underruns := n\<rparr>) = slots_ok audio sh"
  "slots_ok audio (set_mapping_error e sh) = slots_ok audio sh"
  by (simp_all add: slots_ok_def)

lemma slots_ok_put:
  assumes "slots_ok audio sh" and "bs_state slot = SLOT_READY \<longrightarrow> bs_outputs slot = audio (bs_sequence slot)"
    and "i < BRIDGE_SLOTS"
  shows "slots_ok audio (put_slot i slot sh)"
  using assms by (auto simp: slots_ok_def slot_at_put)

lemma dsp_act_ok:
  assumes "slots_ok audio sh" and "uses_audio audio a"
  shows "slots_ok audio (dsp_act a sh)"
proof (cases a)
  case (Complete i stamp synth)
  then show ?thesis
    using assms by (auto simp: complete_slot_def slots_ok_def slot_at_put)
next
  case (Control command status)
  then show ?thesis using assms by (simp add: slots_ok_def)
qed (use assms in \<open>auto simp: slots_ok_def slot_at_put slot_state_defs\<close>)

lemma dsp_acts_ok: "slots_ok audio sh \<Longrightarrow> list_all (uses_audio audio) as \<Longrightarrow> slots_ok audio (dsp_acts as sh)"
  unfolding dsp_acts_def by (induction as arbitrary: sh) (auto intro: dsp_act_ok)

text \<open>The other process never takes a free slot.\<close>

lemma dsp_act_empty:
  "j < length (sh_slots sh) \<Longrightarrow> bs_state (slot_at j sh) = SLOT_EMPTY \<Longrightarrow> bs_state (slot_at j (dsp_act a sh)) = SLOT_EMPTY"
  by (cases a) (auto simp: slot_at_put complete_slot_def slot_state_defs)

lemma length_dsp_act [simp]: "length (sh_slots (dsp_act a sh)) = length (sh_slots sh)"
  by (cases a) simp_all

lemma dsp_acts_empty:
  "j < length (sh_slots sh) \<Longrightarrow> bs_state (slot_at j sh) = SLOT_EMPTY \<Longrightarrow> bs_state (slot_at j (dsp_acts as sh)) = SLOT_EMPTY"
  unfolding dsp_acts_def by (induction as arbitrary: sh) (simp_all add: dsp_act_empty)

lemma length_dsp_acts [simp]: "length (sh_slots (dsp_acts as sh)) = length (sh_slots sh)"
  unfolding dsp_acts_def by (induction as arbitrary: sh) simp_all

lemma find_empty_ok:
  assumes "slots_ok audio sh" and "\<forall>i. list_all (uses_audio audio) (moves i)" and "set is \<subseteq> {..<BRIDGE_SLOTS}"
    and "find_empty moves is sh = (found, sh')"
  shows "slots_ok audio sh' \<and> (case found of None \<Rightarrow> True | Some i \<Rightarrow> i < BRIDGE_SLOTS \<and> bs_state (slot_at i sh') = SLOT_EMPTY)"
  using assms
proof (induction "is" arbitrary: sh)
  case (Cons i "is")
  have "slots_ok audio (dsp_acts (moves (BRIDGE_SLOTS + i)) sh)" using Cons.prems by (blast intro: dsp_acts_ok)
  then show ?case using Cons by (auto simp: Let_def split: if_splits)
qed auto

lemma find_empty_finds:
  assumes "length (sh_slots sh) = BRIDGE_SLOTS" and "j \<in> set is" and "set is \<subseteq> {..<BRIDGE_SLOTS}"
    and "bs_state (slot_at j sh) = SLOT_EMPTY"
  shows "fst (find_empty moves is sh) \<noteq> None"
  using assms
proof (induction "is" arbitrary: sh)
  case (Cons i "is")
  let ?sh = "dsp_acts (moves (BRIDGE_SLOTS + i)) sh"
  have "bs_state (slot_at j ?sh) = SLOT_EMPTY" using Cons.prems by (intro dsp_acts_empty) auto
  then show ?case using Cons by (auto simp: Let_def)
qed simp


text \<open>What the search found.\<close>

definition scan_ok ::
  "(u64 \<Rightarrow> f32 list list) \<Rightarrow> remote_plugin \<Rightarrow> nat \<Rightarrow> f32 list list \<Rightarrow> scan \<Rightarrow> bool" where
  "scan_ok audio rm frames outputs s \<longleftrightarrow> slots_ok audio (sc_shared s)
     \<and> (case sc_rendered s of
          None \<Rightarrow> sc_outputs s = outputs
        | Some q \<Rightarrow> q = saturating_sub (rm_next_sequence rm) 1 \<and> rm_min_output_sequence rm \<le> q \<and> sc_stop s
            \<and> sc_outputs s = copy_channels (rm_output_channels rm) frames (audio q) outputs
            \<and> (\<exists>i < BRIDGE_SLOTS. bs_state (slot_at i (sc_shared s)) = SLOT_EMPTY))"

lemma scan_slot_ok:
  assumes "scan_ok audio rm frames outputs s" and "list_all (uses_audio audio) (moves i)" and "i < BRIDGE_SLOTS"
  shows "scan_ok audio rm frames outputs (scan_slot moves rm frames i s)"
proof (cases "sc_stop s")
  case True
  then show ?thesis using assms(1) by (simp add: scan_slot_def)
next
  case False
  then have fresh: "sc_rendered s = None" "sc_outputs s = outputs" "slots_ok audio (sc_shared s)"
    using assms(1) by (auto simp: scan_ok_def split: option.splits)
  define sh where "sh = dsp_acts (moves i) (sc_shared s)"
  have sh: "slots_ok audio sh" using fresh(3) assms(2) by (simp add: sh_def dsp_acts_ok)
  define slot where "slot = slot_at i sh"
  have len: "i < length (sh_slots sh)" using sh assms(3) by (simp add: slots_ok_def)
  have emptied: "slots_ok audio (put_slot i (slot\<lparr>bs_state := SLOT_EMPTY\<rparr>) sh)"
    by (rule slots_ok_put [OF sh _ assms(3)]) (simp add: slot_state_defs)
  have audio: "bs_state slot = SLOT_READY \<Longrightarrow> bs_outputs slot = audio (bs_sequence slot)"
    using sh assms(3) by (simp add: slots_ok_def slot_def)
  show ?thesis
    using False fresh sh emptied audio len assms(3)
    by (auto simp: scan_slot_def Let_def sh_def [symmetric] slot_def [symmetric] scan_ok_def slot_at_put not_less
        intro!: exI [of _ i])
qed

lemma scan_slots_ok:
  assumes "slots_ok audio sh" and "\<forall>i. list_all (uses_audio audio) (moves i)"
  shows "scan_ok audio rm frames outputs (scan_slots moves rm frames (start_scan rm sh outputs telemetry))"
proof -
  have "scan_ok audio rm frames outputs (fold (scan_slot moves rm frames) is s)"
    if "scan_ok audio rm frames outputs s" "set is \<subseteq> {..<BRIDGE_SLOTS}" for "is" s
    using that assms(2) by (induction "is" arbitrary: s) (auto intro!: scan_slot_ok)
  moreover have "scan_ok audio rm frames outputs (start_scan rm sh outputs telemetry)"
    using assms(1) by (simp add: scan_ok_def start_scan_def)
  moreover have "set [0..<BRIDGE_SLOTS] \<subseteq> {..<BRIDGE_SLOTS}" by auto
  ultimately show ?thesis unfolding scan_slots_def by blast
qed

lemma fill_slot_ok:
  assumes "slots_ok audio sh" and "i < BRIDGE_SLOTS"
    and "fill_slot i frames now_us next_us end_us midi rm sh = (midi', rm', sh')"
  shows "slots_ok audio sh' \<and> rm_next_sequence rm' = max (rm_next_sequence rm + 1) 1
    \<and> rm_min_output_sequence rm' = rm_min_output_sequence rm \<and> rm_output_channels rm' = rm_output_channels rm"
proof -
  have "slots_ok audio (put_slot i slot sh)" if "bs_state slot = SLOT_REQUESTED" for slot
    by (rule slots_ok_put [OF assms(1) _ assms(2)]) (simp add: that slot_state_defs)
  then show ?thesis
    using assms(3) by (auto simp: fill_slot_def Let_def split: prod.splits)
qed

text \<open>One block of the host, in its three parts.\<close>

lemma remote_process_parts:
  assumes "b = remote_process ops moves now_us frames parameters next_us end_us midi outputs telemetry rm sh"
    and "0 < frames" and "frames \<le> BRIDGE_MAX_FRAMES"
  obtains rm1 s rm2 s2 where
    "rm1 = rm\<lparr>rm_pending_parameter_changes := merge_parameter_commands (rm_pending_parameter_changes rm) parameters\<rparr>"
    "s = scan_slots moves rm1 frames (start_scan rm1 sh outputs telemetry)" "after_scan ops frames rm1 s = (rm2, s2)"
    "place_request moves frames now_us next_us end_us midi rm2 (sc_shared s2) = (bb_midi b, bb_plugin b, bb_shared b)"
    "bb_rendered b = sc_rendered s2" "bb_outputs b = sc_outputs s2"
proof -
  define rm1 where "rm1 = rm\<lparr>rm_pending_parameter_changes :=
      merge_parameter_commands (rm_pending_parameter_changes rm) parameters\<rparr>"
  define s where "s = scan_slots moves rm1 frames (start_scan rm1 sh outputs telemetry)"
  obtain rm2 s2 where a: "after_scan ops frames rm1 s = (rm2, s2)" by fastforce
  obtain m r h where p: "place_request moves frames now_us next_us end_us midi rm2 (sc_shared s2) = (m, r, h)"
    by (metis prod_cases3)
  have "bb_midi b = m \<and> bb_plugin b = r \<and> bb_shared b = h \<and> bb_rendered b = sc_rendered s2 \<and> bb_outputs b = sc_outputs s2"
    using assms a p by (simp add: remote_process_def Let_def rm1_def [symmetric] s_def [symmetric])
  with a p show thesis by (intro that [OF rm1_def s_def a]) simp_all
qed

lemma after_scan_ok:
  assumes "after_scan ops frames rm s = (rm', s')"
  shows "rm_next_sequence rm' = rm_next_sequence rm" "rm_min_output_sequence rm' = rm_min_output_sequence rm"
    "rm_output_channels rm' = rm_output_channels rm" "rm_panic_pending rm' = rm_panic_pending rm"
    "rm_pending_parameter_changes rm' = rm_pending_parameter_changes rm"
    "slots_ok audio (sc_shared s') = slots_ok audio (sc_shared s)"
    "length (sh_slots (sc_shared s')) = length (sh_slots (sc_shared s))"
    "sc_rendered s' = sc_rendered s" "sc_rendered s \<noteq> None \<Longrightarrow> s' = s"
  using assms by (auto simp: after_scan_def missed_block_def Let_def split: if_splits)

lemma remote_process_ok:
  assumes "slots_ok audio sh" and "\<forall>i. list_all (uses_audio audio) (moves i)"
    and "b = remote_process ops moves now_us frames parameters next_us end_us midi outputs telemetry rm sh"
  shows "slots_ok audio (bb_shared b)
    \<and> rm_min_output_sequence (bb_plugin b) = rm_min_output_sequence rm
    \<and> rm_output_channels (bb_plugin b) = rm_output_channels rm
    \<and> (rm_next_sequence (bb_plugin b) = rm_next_sequence rm \<and> bb_rendered b = None
       \<or> rm_next_sequence (bb_plugin b) = max (rm_next_sequence rm + 1) 1)
    \<and> (case bb_rendered b of None \<Rightarrow> True
       | Some q \<Rightarrow> q = saturating_sub (rm_next_sequence rm) 1 \<and> rm_min_output_sequence rm \<le> q
           \<and> bb_outputs b = copy_channels (rm_output_channels rm) frames (audio q) outputs)"
proof (cases "frames = 0 \<or> frames > BRIDGE_MAX_FRAMES")
  case True
  then show ?thesis using assms by (auto simp: remote_process_def)
next
  case False
  then have frames: "0 < frames" "frames \<le> BRIDGE_MAX_FRAMES" by auto
  obtain rm1 s rm2 s2 where rm1: "rm1 = rm\<lparr>rm_pending_parameter_changes := merge_parameter_commands (rm_pending_parameter_changes rm) parameters\<rparr>"
    and s_def: "s = scan_slots moves rm1 frames (start_scan rm1 sh outputs telemetry)"
    and a: "after_scan ops frames rm1 s = (rm2, s2)"
    and p: "place_request moves frames now_us next_us end_us midi rm2 (sc_shared s2) = (bb_midi b, bb_plugin b, bb_shared b)"
    and r: "bb_rendered b = sc_rendered s2" "bb_outputs b = sc_outputs s2"
    by (rule remote_process_parts [OF assms(3) frames])
  have s: "scan_ok audio rm1 frames outputs s" unfolding s_def by (rule scan_slots_ok [OF assms(1,2)])
  note a_ok = after_scan_ok [OF a]
  have s2: "slots_ok audio (sc_shared s2)" using s a_ok(6) by (simp add: scan_ok_def)
  obtain found sh3 where f: "find_empty moves [0..<BRIDGE_SLOTS] (sc_shared s2) = (found, sh3)" by fastforce
  have f_ok: "slots_ok audio sh3 \<and> (case found of None \<Rightarrow> True | Some i \<Rightarrow> i < BRIDGE_SLOTS
      \<and> bs_state (slot_at i sh3) = SLOT_EMPTY)"
    by (rule find_empty_ok [OF s2 assms(2) _ f]) auto
  have rendered: "case bb_rendered b of None \<Rightarrow> True
      | Some q \<Rightarrow> q = saturating_sub (rm_next_sequence rm) 1 \<and> rm_min_output_sequence rm \<le> q
          \<and> bb_outputs b = copy_channels (rm_output_channels rm) frames (audio q) outputs"
    using s a_ok(8,9) by (auto simp: r scan_ok_def rm1 split: option.splits)
  show ?thesis
  proof (cases found)
    case None
    have "bb_rendered b = None"
    proof (rule ccontr)
      assume "bb_rendered b \<noteq> None"
      then have "sc_rendered s \<noteq> None" using a_ok(8) r by simp
      then obtain j where "s2 = s" "j < BRIDGE_SLOTS" "bs_state (slot_at j (sc_shared s)) = SLOT_EMPTY"
        using s a_ok(9) by (auto simp: scan_ok_def)
      moreover have "set [0..<BRIDGE_SLOTS] \<subseteq> {..<BRIDGE_SLOTS}" by auto
      ultimately show False
        using find_empty_finds [of "sc_shared s" j "[0..<BRIDGE_SLOTS]" moves] s2 f None by (simp add: slots_ok_def)
    qed
    moreover have "bb_plugin b = rm2" "bb_shared b = sh3\<lparr>sh_overruns := sh_overruns sh3 + 1\<rparr>"
      using p f None by (auto simp: place_request_def)
    ultimately show ?thesis using f_ok a_ok(1-3) by (simp add: rm1)
  next
    case (Some i)
    then have "fill_slot i frames now_us next_us end_us midi rm2 sh3 = (bb_midi b, bb_plugin b, bb_shared b)"
      using p f by (simp add: place_request_def)
    from fill_slot_ok [OF _ _ this, of audio] f_ok Some a_ok(1-3) rendered show ?thesis by (simp add: rm1)
  qed
qed

text \<open>The order of two entries of a run.\<close>

fun in_order :: "bridge_entry \<Rightarrow> bridge_entry \<Rightarrow> bool" where
  "in_order (Rendered a _ _ _) (Rendered b _ _ _) \<longleftrightarrow> a < b"
| "in_order (Rendered a _ _ _) (Panicked n) \<longleftrightarrow> a < n"
| "in_order (Panicked n) (Rendered b _ _ _) \<longleftrightarrow> n \<le> b"
| "in_order (Panicked n) (Panicked m) \<longleftrightarrow> n \<le> m"

fun entry_audio :: "nat \<Rightarrow> (u64 \<Rightarrow> f32 list list) \<Rightarrow> bridge_entry \<Rightarrow> bool" where
  "entry_audio channels audio (Rendered q frames before after) \<longleftrightarrow> after = copy_channels channels frames (audio q) before"
| "entry_audio channels audio (Panicked n) = True"

fun entry_after :: "u64 \<Rightarrow> u64 \<Rightarrow> bridge_entry \<Rightarrow> bool" where
  "entry_after next minimum (Rendered q _ _ _) \<longleftrightarrow> unat next \<le> Suc (unat q) \<and> minimum \<le> q"
| "entry_after next minimum (Panicked n) \<longleftrightarrow> next \<le> n"

lemma bridge_run_ok:
  assumes "slots_ok audio sh" and "list_all (op_uses_audio audio) ops'" and "unat (rm_next_sequence rm) + length ops' < 2 ^ 64"
    and "0 < rm_next_sequence rm" and "rm_min_output_sequence rm \<le> rm_next_sequence rm"
  shows "sorted_wrt in_order (bridge_run ops ops' rm sh)
    \<and> list_all (entry_audio (rm_output_channels rm) audio) (bridge_run ops ops' rm sh)
    \<and> list_all (entry_after (rm_next_sequence rm) (rm_min_output_sequence rm)) (bridge_run ops ops' rm sh)"
  using assms
proof (induction ops' arbitrary: rm sh)
  case (Cons e rest)
  show ?case
  proof (cases e)
    case (Dsp a)
    then show ?thesis using Cons.prems Cons.IH [of "dsp_act a sh" rm] dsp_act_ok [of audio sh a] by simp
  next
    case Panic
    let ?rm = "panic_all_notes rm"
    have "sorted_wrt in_order (bridge_run ops rest ?rm sh)
      \<and> list_all (entry_audio (rm_output_channels ?rm) audio) (bridge_run ops rest ?rm sh)
      \<and> list_all (entry_after (rm_next_sequence ?rm) (rm_min_output_sequence ?rm)) (bridge_run ops rest ?rm sh)"
      by (rule Cons.IH) (use Cons.prems in \<open>simp_all add: panic_all_notes_def\<close>)
    moreover have "in_order (Panicked (rm_next_sequence rm)) x \<and> entry_after (rm_next_sequence rm) (rm_min_output_sequence rm) x"
      if "entry_after (rm_next_sequence rm) (rm_next_sequence rm) x" for x
      using that Cons.prems(5) by (cases x) auto
    ultimately show ?thesis
      by (auto simp: Panic panic_all_notes_def list_all_iff)
  next
    case (Block moves now_us frames parameters next_us end_us midi outputs)
    define b where "b = remote_process ops moves now_us frames parameters next_us end_us midi outputs None rm sh"
    have moves: "\<forall>i. list_all (uses_audio audio) (moves i)" using Cons.prems(2) by (simp add: Block)
    note ok = remote_process_ok [OF Cons.prems(1) moves b_def]
    let ?rm = "bb_plugin b"
    have room: "unat (rm_next_sequence rm) + 1 < 2 ^ 64" using Cons.prems(3) by simp
    then have step: "unat (rm_next_sequence rm + 1) = unat (rm_next_sequence rm) + 1"
      by (simp add: unat_word_ariths)
    then have "max (rm_next_sequence rm + 1) 1 = rm_next_sequence rm + 1"
      by (simp add: max_absorb1 word_le_nat_alt)
    then have next_cases: "rm_next_sequence ?rm = rm_next_sequence rm \<and> bb_rendered b = None
        \<or> rm_next_sequence ?rm = rm_next_sequence rm + 1"
      using ok by auto
    then have le: "unat (rm_next_sequence rm) \<le> unat (rm_next_sequence ?rm)"
        "unat (rm_next_sequence ?rm) \<le> unat (rm_next_sequence rm) + 1"
      using step by auto
    have IH: "sorted_wrt in_order (bridge_run ops rest ?rm (bb_shared b))
      \<and> list_all (entry_audio (rm_output_channels ?rm) audio) (bridge_run ops rest ?rm (bb_shared b))
      \<and> list_all (entry_after (rm_next_sequence ?rm) (rm_min_output_sequence ?rm)) (bridge_run ops rest ?rm (bb_shared b))"
    proof (rule Cons.IH)
      show "unat (rm_next_sequence ?rm) + length rest < 2 ^ 64" using Cons.prems(3) le(2) by simp
      show "0 < rm_next_sequence ?rm" using Cons.prems(4) le(1) by (simp add: word_less_nat_alt)
      show "rm_min_output_sequence ?rm \<le> rm_next_sequence ?rm"
        using Cons.prems(5) le(1) ok by (simp add: word_le_nat_alt)
    qed (use ok Cons.prems(2) in auto)
    have later: "entry_after (rm_next_sequence rm) (rm_min_output_sequence rm) x"
      if "entry_after (rm_next_sequence ?rm) (rm_min_output_sequence rm) x" for x
      using that le(1) by (cases x) (auto simp: word_le_nat_alt)
    show ?thesis
    proof (cases "bb_rendered b")
      case None
      then show ?thesis
        using IH later ok by (auto simp: Block b_def [symmetric] Let_def list_all_iff)
    next
      case (Some q)
      have q: "q = saturating_sub (rm_next_sequence rm) 1" "rm_min_output_sequence rm \<le> q"
          "bb_outputs b = copy_channels (rm_output_channels rm) frames (audio q) outputs"
        using ok Some by auto
      have uq: "unat (rm_next_sequence rm) = Suc (unat q)"
        using Cons.prems(4) by (simp add: q(1) unat_saturating_sub word_less_nat_alt)
      have "unat (rm_next_sequence ?rm) = unat (rm_next_sequence rm) + 1" using next_cases Some step by auto
      then have "in_order (Rendered q frames outputs (bb_outputs b)) x"
        if "entry_after (rm_next_sequence ?rm) (rm_min_output_sequence rm) x" for x
        using that uq by (cases x) (auto simp: word_le_nat_alt word_less_nat_alt)
      then show ?thesis
        using IH later ok q uq Some by (auto simp: Block b_def [symmetric] Let_def list_all_iff)
    qed
  qed
qed simp

text \<open>
  C9: The audio of a bridged plugin is never out of order, repeated or stale: over any run of blocks, panics
  and DSP steps, in any interleaving, what the host plays is the audio rendered for its own requests, each
  at most once, in the order of the requests; and nothing requested before a panic is played after it.
\<close>

theorem bridge_audio_in_order:
  assumes "slots_ok audio sh" and "list_all (op_uses_audio audio) steps" and "length steps < 2 ^ 63"
  shows "sorted_wrt in_order (bridge_run ops steps (remote_new channels sample_rate) sh)
    \<and> list_all (entry_audio channels audio) (bridge_run ops steps (remote_new channels sample_rate) sh)"
  using bridge_run_ok [OF assms(1,2), of "remote_new channels sample_rate" ops] assms(3)
  by (simp add: remote_new_def)

definition example_mapping :: bridge_shared where
  "example_mapping =
     \<lparr>sh_server_status = SERVER_READY, sh_editor_open = 0, sh_shutdown = 0, sh_underruns = 0, sh_overruns = 0,
      sh_error = [], sh_command = COMMAND_NONE, sh_command_status = 0,
      sh_slots = replicate 3 \<lparr>bs_state = SLOT_EMPTY, bs_frames = 0, bs_event_count = 0,
        bs_parameter_change_count = 0, bs_sequence = 0, bs_events = [], bs_parameter_changes = [],
        bs_outputs = []\<rparr>\<rparr>"

definition example_steps :: "bridge_op list" where
  "example_steps =
     [Block (\<lambda>_. []) 0 2 [] None None [] [[0, 0]], Dsp (Complete 0 9 (\<lambda>q. [[ucast q, 7]])),
      Block (\<lambda>_. []) 5 2 [] None None [] [[0, 0]], Panic, Block (\<lambda>_. []) 9 2 [] None None [] [[0, 0]]]"


theorem bridge_audio_in_order_witness:
  "sorted_wrt in_order (bridge_run example_ops example_steps (remote_new 1 48000) example_mapping)
   \<and> list_all (entry_audio 1 (\<lambda>q. [[ucast q, 7]])) (bridge_run example_ops example_steps (remote_new 1 48000) example_mapping)"
proof -
  have ok: "slots_ok (\<lambda>q. [[ucast q, 7]]) example_mapping"
    by (simp add: slots_ok_def example_mapping_def BRIDGE_SLOTS_def slot_at_def nth_Cons' slot_state_defs)
  have uses: "list_all (op_uses_audio (\<lambda>q. [[ucast q, 7]])) example_steps" by (simp add: example_steps_def)
  have len: "length example_steps < 2 ^ 63" by (simp add: example_steps_def)
  show ?thesis by (rule bridge_audio_in_order [OF ok uses len])
qed

section \<open>A request carries exactly the MIDI taken from the queue\<close>

definition in_block :: "nat \<Rightarrow> bridge_midi_event list \<Rightarrow> bool" where
  "in_block frames events \<longleftrightarrow> sorted (map (\<lambda>e. unat (be_sample_offset e)) events)
     \<and> list_all (\<lambda>e. unat (be_sample_offset e) < max frames 1) events"

lemma write_bridge_midi_events_exact:
  assumes "write_bridge_midi_events midi count timing = (events, rest, timing')" and "count \<le> BRIDGE_MAX_MIDI"
    and "timing_ok frames now_us timing"
  shows "count + length events \<le> BRIDGE_MAX_MIDI
    \<and> length events \<le> length midi \<and> rest = drop (length events) midi
    \<and> map be_data events = map mp_data (take (length events) midi)
    \<and> list_all (\<lambda>p. mp_timestamp_us p \<le> bt_end_us timing) (take (length events) midi)
    \<and> in_block frames events \<and> list_all (\<lambda>e. bt_last_offset timing \<le> be_sample_offset e) events"
  using assms
proof (induction midi arbitrary: count timing events)
  case (Cons p midi)
  show ?case
  proof (cases "count \<ge> BRIDGE_MAX_MIDI \<or> \<not> timing_contains timing (mp_timestamp_us p)")
    case True
    then show ?thesis using Cons.prems by (auto simp: in_block_def)
  next
    case False
    obtain offset t1 where o: "timing_offset timing (mp_timestamp_us p) = (offset, t1)" by fastforce
    note off = timing_offset_ok [OF Cons.prems(3) o]
    obtain es where w: "write_bridge_midi_events midi (count + 1) t1 = (es, rest, timing')"
      and events: "events = \<lparr>be_ingress_qpc = mp_ingress_qpc p, be_worker_qpc = mp_worker_qpc p,
              be_consumed_qpc = 0, be_data = mp_data p, be_len = mp_len p, be_sample_offset = offset\<rparr> # es"
      using Cons.prems(1) False o by (auto simp: Let_def split: prod.splits)
    have IH: "count + 1 + length es \<le> BRIDGE_MAX_MIDI
      \<and> length es \<le> length midi \<and> rest = drop (length es) midi
      \<and> map be_data es = map mp_data (take (length es) midi)
      \<and> list_all (\<lambda>p. mp_timestamp_us p \<le> bt_end_us t1) (take (length es) midi)
      \<and> in_block frames es \<and> list_all (\<lambda>e. bt_last_offset t1 \<le> be_sample_offset e) es"
      by (rule Cons.IH [OF w]) (use False off in auto)
    then show ?thesis
      using off False by (auto simp: events in_block_def list_all_iff timing_contains_def word_le_nat_alt intro: order.trans)
  qed
qed (simp add: in_block_def)

lemma length_panic_events: "length write_panic_events = 64"
  by code_simp

lemma panic_events_at_start: "e \<in> set write_panic_events \<Longrightarrow> be_sample_offset e = 0"
  by (auto simp: write_panic_events_def RESET_CONTROLLERS_def)

lemma panic_sorted: "sorted (map (\<lambda>e. unat (be_sample_offset e)) write_panic_events)"
proof -
  have "sorted (map (\<lambda>e. unat (be_sample_offset e)) es)" if "\<forall>e \<in> set es. be_sample_offset e = 0" for es
    using that by (induction es) auto
  then show ?thesis using panic_events_at_start by blast
qed

lemma length_scan_slots: "length (sh_slots (sc_shared (scan_slots moves rm frames s))) = length (sh_slots (sc_shared s))"
proof -
  have "length (sh_slots (sc_shared (scan_slot moves rm frames i t))) = length (sh_slots (sc_shared t))" for i t
    by (simp add: scan_slot_def Let_def)
  then have "length (sh_slots (sc_shared (fold (scan_slot moves rm frames) is s))) = length (sh_slots (sc_shared s))" for "is"
    by (induction "is" arbitrary: s) simp_all
  then show ?thesis by (simp add: scan_slots_def)
qed

lemma find_empty_slots:
  "find_empty moves is sh = (found, sh') \<Longrightarrow> length (sh_slots sh') = length (sh_slots sh)
    \<and> (\<forall>i. found = Some i \<longrightarrow> i \<in> set is)"
  by (induction "is" arbitrary: sh) (auto simp: Let_def split: if_splits option.splits)

lemma after_scan_sequences:
  "after_scan ops frames rm s = (rm', s') \<Longrightarrow> rm_parameter_sequences rm' = rm_parameter_sequences rm"
  by (auto simp: after_scan_def missed_block_def Let_def split: if_splits)

text \<open>A block either fills a slot, or leaves the MIDI, the parameter changes and the panic where they are.\<close>

lemma remote_process_shape:
  assumes "b = remote_process ops moves now_us frames parameters next_us end_us midi outputs telemetry rm sh"
    and "0 < frames" and "frames \<le> BRIDGE_MAX_FRAMES" and "length (sh_slots sh) = BRIDGE_SLOTS"
  obtains (full) "bb_midi b = midi" "rm_panic_pending (bb_plugin b) = rm_panic_pending rm"
      "rm_next_sequence (bb_plugin b) = rm_next_sequence rm"
      "rm_pending_parameter_changes (bb_plugin b) = merge_parameter_commands (rm_pending_parameter_changes rm) parameters"
  | (filled) i rm3 sh3 where "i < BRIDGE_SLOTS" "length (sh_slots sh3) = BRIDGE_SLOTS"
      "rm_panic_pending rm3 = rm_panic_pending rm" "rm_next_sequence rm3 = rm_next_sequence rm"
      "rm_pending_parameter_changes rm3 = merge_parameter_commands (rm_pending_parameter_changes rm) parameters"
      "fill_slot i frames now_us next_us end_us midi rm3 sh3 = (bb_midi b, bb_plugin b, bb_shared b)"
      "rm_parameter_sequences rm3 = rm_parameter_sequences rm"
proof -
  obtain rm1 s rm2 s2 where rm1: "rm1 = rm\<lparr>rm_pending_parameter_changes := merge_parameter_commands (rm_pending_parameter_changes rm) parameters\<rparr>"
    and s_def: "s = scan_slots moves rm1 frames (start_scan rm1 sh outputs telemetry)"
    and a: "after_scan ops frames rm1 s = (rm2, s2)"
    and p: "place_request moves frames now_us next_us end_us midi rm2 (sc_shared s2) = (bb_midi b, bb_plugin b, bb_shared b)"
    by (rule remote_process_parts [OF assms(1-3)])
  note a_ok = after_scan_ok [OF a]
  obtain found sh3 where f: "find_empty moves [0..<BRIDGE_SLOTS] (sc_shared s2) = (found, sh3)" by fastforce
  have len: "length (sh_slots sh3) = BRIDGE_SLOTS"
    using find_empty_slots [OF f] a_ok(7) length_scan_slots [of moves rm1 frames "start_scan rm1 sh outputs telemetry"] assms(4)
    by (simp add: s_def start_scan_def)
  show thesis
  proof (cases found)
    case None
    then show thesis using p f a_ok by (intro full) (auto simp: place_request_def rm1)
  next
    case (Some i)
    then have "i < BRIDGE_SLOTS" using find_empty_slots [OF f] by auto
    then show thesis using p f a_ok len Some after_scan_sequences [OF a] by (intro filled [of i sh3 rm2]) (auto simp: place_request_def rm1)
  qed
qed



end
