(* ===== verification/Bridge_Cycle.thy ===== *)
theory Bridge_Cycle
  imports Remote_Bridge "HOL-Library.Multiset"
begin

text \<open>
  The DSP process of a bridged plugin (\<open>audio/remote_bridge.rs\<close>): one cycle serves the requests of the slots and
  then a pending capture of the plugin's state, and the commands by which the host opens the editor or asks for
  that capture, with the host and the process as two sides that race.
\<close>

section \<open>The cycle of the DSP process\<close>

text \<open>
  \<open>service_dsp_cycle\<close>: every request in the order of its number, then a pending capture of the plugin's
  state. \<open>process\<close> and \<open>capture\<close> run the plugin; \<open>finish_command\<close> is \<open>finish_control_command\<close>.
\<close>

definition finish_control_command :: "u32 \<Rightarrow> bridge_shared \<Rightarrow> bridge_shared" where
  "finish_control_command status sh =
     (if sh_command_status sh = COMMAND_PENDING then sh\<lparr>sh_command_status := status\<rparr> else sh)"

definition requested_slots :: "bridge_shared \<Rightarrow> nat list" where
  "requested_slots sh = filter (\<lambda>i. bs_state (slot_at i sh) = SLOT_REQUESTED) [0..<BRIDGE_SLOTS]"

definition next_request :: "bridge_shared \<Rightarrow> nat option" where
  "next_request sh =
     (case requested_slots sh of [] \<Rightarrow> None
      | i # is \<Rightarrow> Some (foldl (\<lambda>best j. if bs_sequence (slot_at j sh) < bs_sequence (slot_at best sh) then j else best) i is))"

datatype 'p dsp_outcome = Processed bridge_slot 'p | Process_error bytes 'p

fun serve_requests ::
  "(bridge_slot \<Rightarrow> nat \<Rightarrow> nat \<Rightarrow> nat \<Rightarrow> 'p \<Rightarrow> 'p dsp_outcome) \<Rightarrow> nat \<Rightarrow> nat \<Rightarrow> bridge_shared \<Rightarrow> 'p
     \<Rightarrow> (bytes option \<times> bridge_shared \<times> 'p) option" where
  "serve_requests process max_block_size fuel sh p =
     (case next_request sh of
        None \<Rightarrow> Some (None, sh, p)
      | Some i \<Rightarrow>
          (case fuel of
             0 \<Rightarrow> None
           | Suc k \<Rightarrow>
               let slot = slot_at i sh;
                   frames = unat (bs_frames slot);
                   event_count = unat (bs_event_count slot);
                   parameter_count = unat (bs_parameter_change_count slot)
               in if frames = 0 \<or> frames > max_block_size \<or> event_count > BRIDGE_MAX_MIDI
                     \<or> parameter_count > BRIDGE_MAX_PARAMETER_CHANGES
                  then serve_requests process max_block_size k (put_slot i (slot\<lparr>bs_state := SLOT_EMPTY\<rparr>) sh) p
                  else case process slot frames event_count parameter_count p of
                    Process_error error p \<Rightarrow>
                      let sh = set_mapping_error error (put_slot i (slot\<lparr>bs_state := SLOT_EMPTY\<rparr>) sh);
                          sh = (if sh_command sh = COMMAND_SAVE_STATE
                                then finish_control_command COMMAND_FAILED sh else sh)
                      in Some (Some error, sh, p)
                  | Processed slot p \<Rightarrow>
                      serve_requests process max_block_size k (put_slot i (slot\<lparr>bs_state := SLOT_READY\<rparr>) sh) p))"

declare serve_requests.simps [simp del]

definition service_dsp_cycle ::
  "(bridge_slot \<Rightarrow> nat \<Rightarrow> nat \<Rightarrow> nat \<Rightarrow> 'p \<Rightarrow> 'p dsp_outcome) \<Rightarrow> ('p \<Rightarrow> bytes option \<times> 'p) \<Rightarrow> nat \<Rightarrow> nat
     \<Rightarrow> bridge_shared \<Rightarrow> 'p \<Rightarrow> (bytes option \<times> bridge_shared \<times> 'p) option" where
  "service_dsp_cycle process capture max_block_size fuel sh p =
     (case serve_requests process max_block_size fuel sh p of
        None \<Rightarrow> None
      | Some (Some error, sh, p) \<Rightarrow> Some (Some error, sh, p)
      | Some (None, sh, p) \<Rightarrow>
          let (sh, p) =
            (if sh_command sh = COMMAND_SAVE_STATE \<and> sh_command_status sh = COMMAND_PENDING then
               (case capture p of
                  (None, p) \<Rightarrow> (finish_control_command COMMAND_OK sh, p)
                | (Some error, p) \<Rightarrow> (finish_control_command COMMAND_FAILED (set_command_error error sh), p))
             else (sh, p));
              sh = (if sh_command sh \<noteq> COMMAND_NONE \<and> sh_command sh \<noteq> COMMAND_RESERVED
                       \<and> sh_command_status sh = COMMAND_TIMED_OUT
                    then sh\<lparr>sh_command := COMMAND_NONE\<rparr> else sh)
          in Some (None, sh, p))"


section \<open>The DSP process serves every accepted request before it captures the state\<close>

definition servable :: "nat \<Rightarrow> bridge_slot \<Rightarrow> bool" where
  "servable max_block_size slot \<longleftrightarrow> 0 < unat (bs_frames slot) \<and> unat (bs_frames slot) \<le> max_block_size
     \<and> unat (bs_event_count slot) \<le> BRIDGE_MAX_MIDI
     \<and> unat (bs_parameter_change_count slot) \<le> BRIDGE_MAX_PARAMETER_CHANGES"

lemma foldl_least:
  fixes f :: "nat \<Rightarrow> 'a::linorder"
  shows "foldl (\<lambda>best j. if f j < f best then j else best) i is \<in> set (i # is)
    \<and> (\<forall>j \<in> set (i # is). f (foldl (\<lambda>best j. if f j < f best then j else best) i is) \<le> f j)"
proof (induction "is" arbitrary: i)
  case (Cons a "is")
  let ?best = "if f a < f i then a else i"
  let ?l = "foldl (\<lambda>best j. if f j < f best then j else best) ?best is"
  have "?l \<in> set (?best # is)" "\<forall>j \<in> set (?best # is). f ?l \<le> f j" using Cons.IH [of ?best] by blast+
  moreover have "f ?best \<le> f a" "f ?best \<le> f i" by auto
  ultimately show ?case by (auto split: if_splits intro: order.trans)
qed simp

lemma next_request_None: "next_request sh = None \<longleftrightarrow> requested_slots sh = []"
  by (simp add: next_request_def split: list.split)

lemma next_request_Some:
  assumes "next_request sh = Some i"
  shows "i \<in> set (requested_slots sh)"
    and "\<And>j. j \<in> set (requested_slots sh) \<Longrightarrow> bs_sequence (slot_at i sh) \<le> bs_sequence (slot_at j sh)"
proof -
  from assms obtain a as where r: "requested_slots sh = a # as"
    and i: "i = foldl (\<lambda>best j. if bs_sequence (slot_at j sh) < bs_sequence (slot_at best sh) then j else best) a as"
    by (auto simp: next_request_def split: list.splits)
  show "i \<in> set (requested_slots sh)"
    using foldl_least [of "\<lambda>j. bs_sequence (slot_at j sh)" a as] by (simp add: r i)
  show "bs_sequence (slot_at i sh) \<le> bs_sequence (slot_at j sh)" if "j \<in> set (requested_slots sh)" for j
    using foldl_least [of "\<lambda>j. bs_sequence (slot_at j sh)" a as] that unfolding r i by blast
qed

lemma requested_put:
  assumes "length (sh_slots sh) = BRIDGE_SLOTS" and "i \<in> set (requested_slots sh)" and "bs_state slot \<noteq> SLOT_REQUESTED"
  shows "requested_slots (put_slot i slot sh) = remove1 i (requested_slots sh)"
proof -
  have "i < BRIDGE_SLOTS" using assms(2) by (simp add: requested_slots_def)
  then have "requested_slots (put_slot i slot sh) = filter (\<lambda>j. i \<noteq> j) (requested_slots sh)"
    using assms(1,3) by (auto simp: requested_slots_def slot_at_put intro!: filter_cong)
  also have "\<dots> = remove1 i (requested_slots sh)"
    using distinct_remove1_removeAll [of "requested_slots sh" i]
    by (simp add: requested_slots_def removeAll_filter_not_eq)
  finally show ?thesis .
qed

lemma distinct_requested [simp]: "distinct (requested_slots sh)"
  by (simp add: requested_slots_def)

text \<open>A process and a capture that succeed and log what they were given.\<close>

definition log_request ::
  "(bridge_slot \<Rightarrow> bridge_slot) \<Rightarrow> bridge_slot \<Rightarrow> nat \<Rightarrow> nat \<Rightarrow> nat \<Rightarrow> (u64 + unit) list \<Rightarrow> (u64 + unit) list dsp_outcome" where
  "log_request render slot frames events changes log = Processed (render slot) (log @ [Inl (bs_sequence slot)])"

definition log_capture :: "(u64 + unit) list \<Rightarrow> bytes option \<times> (u64 + unit) list" where
  "log_capture log = (None, log @ [Inr ()])"

definition served_slots :: "nat \<Rightarrow> bridge_shared \<Rightarrow> bridge_shared \<Rightarrow> bool" where
  "served_slots max_block_size sh sh' \<longleftrightarrow> requested_slots sh' = [] \<and> length (sh_slots sh') = length (sh_slots sh)
     \<and> sh_command sh' = sh_command sh \<and> sh_command_status sh' = sh_command_status sh
     \<and> (\<forall>i < BRIDGE_SLOTS. if i \<in> set (requested_slots sh)
          then bs_state (slot_at i sh') = (if servable max_block_size (slot_at i sh) then SLOT_READY else SLOT_EMPTY)
          else slot_at i sh' = slot_at i sh)"

lemma serve_requests_log:
  assumes "length (sh_slots sh) = BRIDGE_SLOTS" and "length (requested_slots sh) \<le> fuel"
  shows "\<exists>sh' served. serve_requests (log_request render) max_block_size fuel sh log = Some (None, sh', log @ map Inl served)
    \<and> sorted served
    \<and> mset served = mset (map (\<lambda>i. bs_sequence (slot_at i sh))
        (filter (\<lambda>i. servable max_block_size (slot_at i sh)) (requested_slots sh)))
    \<and> served_slots max_block_size sh sh'"
  using assms
proof (induction fuel arbitrary: sh log)
  case 0
  then have "next_request sh = None" by (simp add: next_request_None)
  then show ?case using 0 by (subst serve_requests.simps) (auto simp: served_slots_def)
next
  case (Suc k)
  show ?case
  proof (cases "next_request sh")
    case None
    then show ?thesis
      using next_request_None [of sh] by (subst serve_requests.simps) (auto simp: served_slots_def)
  next
    case (Some i)
    note i = next_request_Some [OF Some]
    have i_lt: "i < BRIDGE_SLOTS" "bs_state (slot_at i sh) = SLOT_REQUESTED" using i(1) by (auto simp: requested_slots_def)
    let ?ok = "servable max_block_size (slot_at i sh)"
    define slot where "slot = (if ?ok then (render (slot_at i sh))\<lparr>bs_state := SLOT_READY\<rparr>
      else (slot_at i sh)\<lparr>bs_state := SLOT_EMPTY\<rparr>)"
    define sh1 where "sh1 = put_slot i slot sh"
    define log1 where "log1 = (if ?ok then log @ [Inl (bs_sequence (slot_at i sh))] else log)"
    have step: "serve_requests (log_request render) max_block_size (Suc k) sh log
        = serve_requests (log_request render) max_block_size k sh1 log1"
      using Some by (subst serve_requests.simps)
        (auto simp: Let_def log_request_def sh1_def slot_def log1_def servable_def)
    have st: "bs_state slot \<noteq> SLOT_REQUESTED" by (simp add: slot_def slot_state_defs)
    have req: "requested_slots sh1 = remove1 i (requested_slots sh)"
      unfolding sh1_def by (rule requested_put [OF Suc.prems(1) i(1) st])
    have same: "slot_at j sh1 = slot_at j sh" if "j \<noteq> i" for j
      using that i_lt Suc.prems(1) by (simp add: sh1_def slot_at_put)
    have at: "slot_at i sh1 = slot" using i_lt Suc.prems(1) by (simp add: sh1_def slot_at_put)
    have "length (requested_slots sh1) \<le> k" using Suc.prems(2) i(1) by (simp add: req length_remove1)
    moreover have "length (sh_slots sh1) = BRIDGE_SLOTS" using Suc.prems(1) by (simp add: sh1_def)
    ultimately obtain sh' served where IH:
      "serve_requests (log_request render) max_block_size k sh1 log1 = Some (None, sh', log1 @ map Inl served)" "sorted served"
      "mset served = mset (map (\<lambda>i. bs_sequence (slot_at i sh1))
        (filter (\<lambda>i. servable max_block_size (slot_at i sh1)) (requested_slots sh1)))"
      "served_slots max_block_size sh1 sh'"
      using Suc.IH [of sh1 log1] by blast
    let ?rest = "filter (\<lambda>j. servable max_block_size (slot_at j sh)) (remove1 i (requested_slots sh))"
    have served: "mset served = mset (map (\<lambda>j. bs_sequence (slot_at j sh)) ?rest)"
    proof -
      have ne: "j \<noteq> i" if "j \<in> set (remove1 i (requested_slots sh))" for j
        using that by auto
      have "filter (\<lambda>j. servable max_block_size (slot_at j sh1)) (remove1 i (requested_slots sh)) = ?rest"
        using ne same by (auto intro!: filter_cong)
      then have "map (\<lambda>j. bs_sequence (slot_at j sh1))
          (filter (\<lambda>j. servable max_block_size (slot_at j sh1)) (requested_slots sh1))
          = map (\<lambda>j. bs_sequence (slot_at j sh)) ?rest"
        using ne same by (auto simp: req)
      then show ?thesis using IH(3) by simp
    qed
    have least: "bs_sequence (slot_at i sh) \<le> q" if "q \<in> set served" for q
    proof -
      have "set served = set (map (\<lambda>j. bs_sequence (slot_at j sh)) ?rest)" by (rule mset_eq_setD [OF served])
      then show ?thesis using that i(2) by (auto dest: notin_set_remove1)
    qed
    have slots: "served_slots max_block_size sh sh'"
    proof -
      have "set (remove1 i (requested_slots sh)) = set (requested_slots sh) - {i}" by simp
      moreover have "sh_command sh1 = sh_command sh" "sh_command_status sh1 = sh_command_status sh"
          "length (sh_slots sh1) = length (sh_slots sh)" by (simp_all add: sh1_def put_slot_def)
      moreover have "if j \<in> set (requested_slots sh)
          then bs_state (slot_at j sh') = (if servable max_block_size (slot_at j sh) then SLOT_READY else SLOT_EMPTY)
          else slot_at j sh' = slot_at j sh" if j: "j < BRIDGE_SLOTS" for j
      proof (cases "j = i")
        case True
        then have "slot_at j sh' = slot" using IH(4) j at by (simp add: served_slots_def req)
        then show ?thesis using True i(1) by (simp add: slot_def)
      next
        case False
        then show ?thesis using IH(4) j same [OF False] by (simp add: served_slots_def req)
      qed
      ultimately show ?thesis using IH(4) unfolding served_slots_def by simp
    qed
    have all: "mset (map (\<lambda>j. bs_sequence (slot_at j sh)) (filter (\<lambda>j. servable max_block_size (slot_at j sh)) (requested_slots sh)))
        = (if ?ok then {#bs_sequence (slot_at i sh)#} else {#}) + mset (map (\<lambda>j. bs_sequence (slot_at j sh)) ?rest)"
    proof -
      have "mset (requested_slots sh) = add_mset i (mset (remove1 i (requested_slots sh)))"
        using i(1) by simp
      then have "mset (filter (\<lambda>j. servable max_block_size (slot_at j sh)) (requested_slots sh))
          = (if ?ok then {#i#} else {#}) + mset ?rest"
        by (simp only: mset_filter filter_mset_add_mset) simp
      then have "image_mset (\<lambda>j. bs_sequence (slot_at j sh)) (mset (filter (\<lambda>j. servable max_block_size (slot_at j sh)) (requested_slots sh)))
          = image_mset (\<lambda>j. bs_sequence (slot_at j sh)) ((if ?ok then {#i#} else {#}) + mset ?rest)"
        by (rule arg_cong)
      then show ?thesis
        by (cases ?ok) (simp_all only: mset_map image_mset_union if_True if_False image_mset_single image_mset_empty)
    qed
    show ?thesis
    proof (cases ?ok)
      case True
      then show ?thesis
        using step IH(1,2) least all served slots
        by (intro exI [of _ sh'] exI [of _ "bs_sequence (slot_at i sh) # served"]) (simp add: log1_def)
    next
      case False
      then show ?thesis
        using step IH(1,2) all served slots by (intro exI [of _ sh'] exI [of _ served]) (simp add: log1_def)
    qed
  qed
qed


text \<open>
  The state is captured after everything that was accepted: a cycle of the DSP process needs no more turns
  than there are slots; it serves every valid request exactly once in the order of the requests, empties the
  invalid ones, touches no finished result, and only then captures the plugin's state, exactly when a save is
  pending.
\<close>

theorem capture_after_requests:
  assumes "length (sh_slots sh) = BRIDGE_SLOTS"
  shows "\<exists>sh' served. service_dsp_cycle (log_request render) log_capture max_block_size BRIDGE_SLOTS sh []
      = Some (None, sh', map Inl served
          @ (if sh_command sh = COMMAND_SAVE_STATE \<and> sh_command_status sh = COMMAND_PENDING then [Inr ()] else []))
    \<and> sorted served
    \<and> mset served = mset (map (\<lambda>i. bs_sequence (slot_at i sh))
        (filter (\<lambda>i. servable max_block_size (slot_at i sh)) (requested_slots sh)))
    \<and> requested_slots sh' = []
    \<and> (\<forall>i < BRIDGE_SLOTS. if i \<in> set (requested_slots sh)
         then bs_state (slot_at i sh') = (if servable max_block_size (slot_at i sh) then SLOT_READY else SLOT_EMPTY)
         else slot_at i sh' = slot_at i sh)"
proof -
  have "length (requested_slots sh) \<le> BRIDGE_SLOTS"
    using length_filter_le [of _ "[0..<BRIDGE_SLOTS]"] by (simp add: requested_slots_def)
  then obtain sh1 served where r:
    "serve_requests (log_request render) max_block_size BRIDGE_SLOTS sh [] = Some (None, sh1, map Inl served)" "sorted served"
    "mset served = mset (map (\<lambda>i. bs_sequence (slot_at i sh))
        (filter (\<lambda>i. servable max_block_size (slot_at i sh)) (requested_slots sh)))"
    "served_slots max_block_size sh sh1"
    using serve_requests_log [OF assms, of BRIDGE_SLOTS render max_block_size "[]"] by auto
  define saving where "saving \<longleftrightarrow> sh_command sh = COMMAND_SAVE_STATE \<and> sh_command_status sh = COMMAND_PENDING"
  have saving: "sh_command sh1 = COMMAND_SAVE_STATE \<and> sh_command_status sh1 = COMMAND_PENDING \<longleftrightarrow> saving"
    using r(4) by (simp add: served_slots_def saving_def)
  define sh2 where "sh2 = (if saving then finish_control_command COMMAND_OK sh1 else sh1)"
  define sh3 where "sh3 = (if sh_command sh2 \<noteq> COMMAND_NONE \<and> sh_command sh2 \<noteq> COMMAND_RESERVED
      \<and> sh_command_status sh2 = COMMAND_TIMED_OUT then sh2\<lparr>sh_command := COMMAND_NONE\<rparr> else sh2)"
  have slots: "slot_at i sh3 = slot_at i sh1" "requested_slots sh3 = requested_slots sh1" for i
    by (simp_all add: sh3_def sh2_def finish_control_command_def requested_slots_def)
  have "service_dsp_cycle (log_request render) log_capture max_block_size BRIDGE_SLOTS sh []
      = Some (None, sh3, map Inl served @ (if saving then [Inr ()] else []))"
    using r(1) by (cases saving) (simp_all add: service_dsp_cycle_def Let_def saving log_capture_def sh3_def sh2_def)
  then show ?thesis
    using r slots unfolding served_slots_def saving_def by (intro exI [of _ sh3] exI [of _ served]) simp
qed

theorem capture_after_requests_witness:
  "\<exists>sh'. service_dsp_cycle (log_request id) log_capture 64 BRIDGE_SLOTS example_mapping [] = Some (None, sh', [])"
proof -
  have "length (sh_slots example_mapping) = BRIDGE_SLOTS" by (simp add: example_mapping_def BRIDGE_SLOTS_def)
  moreover have "requested_slots example_mapping = []" by code_simp
  moreover have "sh_command example_mapping \<noteq> COMMAND_SAVE_STATE" by code_simp
  ultimately show ?thesis using capture_after_requests [of example_mapping id 64] by fastforce
qed


section \<open>Commands of the host\<close>

text \<open>
  The host asks for a command with \<open>begin_control_command\<close> and polls its status until it is done or a
  deadline passes (\<open>control_command\<close>); the DSP process looks for a command once in each turn of its loop
  (\<open>run_dsp_server\<close>), looks again for a capture after the requests (\<open>service_dsp_cycle\<close>), and may itself
  begin a capture when the editor's window was closed. Every access to the two shared words is a step.
\<close>

datatype host_phase = Host_idle | Host_reserved u32 | Host_stored u32 | Host_waiting u32 | Host_answered bool

datatype worker_phase =
    W_top | W_own_reserved | W_own_stored | W_begin | W_loaded u32 | W_running u32 | W_service
  | W_failed bool | W_save bool | W_capturing | W_retire | W_retiring u32 | W_end

text \<open>
  \<open>ct_ticket\<close> counts the commands begun, \<open>ct_started\<close> is the ticket when the native call began. \<open>ct_acks\<close>
  holds for each completed call its command, and the tickets at its start and its end; \<open>ct_answers\<close> the
  ticket and the answer of each \<open>control_command\<close>.
\<close>

datatype answer = Done | Refused | Timed_out

record control =
  ct_command :: u32
  ct_status :: u32
  ct_host :: host_phase
  ct_worker :: worker_phase
  ct_own :: bool
  ct_ticket :: nat
  ct_started :: nat
  ct_acks :: "(u32 \<times> nat \<times> nat) list"
  ct_answers :: "(nat \<times> answer) list"

definition host_command :: "u32 \<Rightarrow> bool" where
  "host_command c \<longleftrightarrow> c \<noteq> COMMAND_NONE \<and> c \<noteq> COMMAND_RESERVED"

text \<open>\<open>finish_control_command\<close> with the bookkeeping of the completed call.\<close>

definition finish_call :: "bool \<Rightarrow> u32 \<Rightarrow> control \<Rightarrow> control" where
  "finish_call ok c s =
     (if ct_status s = COMMAND_PENDING
      then s\<lparr>ct_status := (if ok then COMMAND_OK else COMMAND_FAILED),
             ct_acks := ct_acks s @ [(c, ct_started s, ct_ticket s)]\<rparr>
      else s)"

inductive host_step :: "control \<Rightarrow> control \<Rightarrow> bool" where
  reserve_command: "ct_host s = Host_idle \<Longrightarrow> host_command c \<Longrightarrow> ct_command s = COMMAND_NONE \<Longrightarrow>
    host_step s (s\<lparr>ct_command := COMMAND_RESERVED, ct_host := Host_reserved c, ct_ticket := ct_ticket s + 1\<rparr>)"
| store_pending: "ct_host s = Host_reserved c \<Longrightarrow>
    host_step s (s\<lparr>ct_status := COMMAND_PENDING, ct_host := Host_stored c\<rparr>)"
| store_command: "ct_host s = Host_stored c \<Longrightarrow>
    host_step s (s\<lparr>ct_command := c, ct_host := Host_waiting c\<rparr>)"
| see_ok: "ct_host s = Host_waiting c \<Longrightarrow> ct_status s = COMMAND_OK \<Longrightarrow>
    host_step s (s\<lparr>ct_host := Host_answered True\<rparr>)"
| see_failed: "ct_host s = Host_waiting c \<Longrightarrow> ct_status s = COMMAND_FAILED \<Longrightarrow>
    host_step s (s\<lparr>ct_host := Host_answered False\<rparr>)"
| release_command: "ct_host s = Host_answered ok \<Longrightarrow>
    host_step s (s\<lparr>ct_command := COMMAND_NONE, ct_host := Host_idle,
      ct_answers := ct_answers s @ [(ct_ticket s, if ok then Done else Refused)]\<rparr>)"
| deadline: "ct_host s = Host_waiting c \<Longrightarrow> ct_status s = COMMAND_PENDING \<Longrightarrow>
    host_step s (s\<lparr>ct_status := COMMAND_TIMED_OUT, ct_host := Host_idle,
      ct_answers := ct_answers s @ [(ct_ticket s, Timed_out)]\<rparr>)"

inductive worker_step :: "control \<Rightarrow> control \<Rightarrow> bool" where
  own_reserve: "ct_worker s = W_top \<Longrightarrow> ct_command s = COMMAND_NONE \<Longrightarrow>
    worker_step s (s\<lparr>ct_command := COMMAND_RESERVED, ct_worker := W_own_reserved, ct_ticket := ct_ticket s + 1\<rparr>)"
| own_pending: "ct_worker s = W_own_reserved \<Longrightarrow>
    worker_step s (s\<lparr>ct_status := COMMAND_PENDING, ct_worker := W_own_stored\<rparr>)"
| own_command: "ct_worker s = W_own_stored \<Longrightarrow>
    worker_step s (s\<lparr>ct_command := COMMAND_SAVE_STATE, ct_own := True, ct_worker := W_begin\<rparr>)"
| no_own: "ct_worker s = W_top \<Longrightarrow> worker_step s (s\<lparr>ct_worker := W_begin\<rparr>)"
| load_command: "ct_worker s = W_begin \<Longrightarrow> worker_step s (s\<lparr>ct_worker := W_loaded (ct_command s)\<rparr>)"
| start_call: "ct_worker s = W_loaded c \<Longrightarrow> host_command c \<Longrightarrow> c \<noteq> COMMAND_SAVE_STATE \<Longrightarrow>
    ct_status s = COMMAND_PENDING \<Longrightarrow>
    worker_step s (s\<lparr>ct_worker := W_running c, ct_started := ct_ticket s\<rparr>)"
| no_call: "ct_worker s = W_loaded c \<Longrightarrow>
    \<not> (host_command c \<and> c \<noteq> COMMAND_SAVE_STATE \<and> ct_status s = COMMAND_PENDING) \<Longrightarrow>
    worker_step s (s\<lparr>ct_worker := W_service\<rparr>)"
| end_call: "ct_worker s = W_running c \<Longrightarrow>
    worker_step s ((finish_call ok c s)\<lparr>ct_worker := W_service\<rparr>)"
| dsp_error: "ct_worker s = W_service \<Longrightarrow>
    worker_step s (s\<lparr>ct_worker := W_failed (ct_command s = COMMAND_SAVE_STATE)\<rparr>)"
| dsp_failed: "ct_worker s = W_failed saving \<Longrightarrow>
    worker_step s ((if saving \<and> ct_status s = COMMAND_PENDING then s\<lparr>ct_status := COMMAND_FAILED\<rparr> else s)
      \<lparr>ct_worker := W_end\<rparr>)"
| load_save: "ct_worker s = W_service \<Longrightarrow>
    worker_step s (s\<lparr>ct_worker := W_save (ct_command s = COMMAND_SAVE_STATE)\<rparr>)"
| start_capture: "ct_worker s = W_save True \<Longrightarrow> ct_status s = COMMAND_PENDING \<Longrightarrow>
    worker_step s (s\<lparr>ct_worker := W_capturing, ct_started := ct_ticket s\<rparr>)"
| no_capture: "ct_worker s = W_save saving \<Longrightarrow> \<not> (saving \<and> ct_status s = COMMAND_PENDING) \<Longrightarrow>
    worker_step s (s\<lparr>ct_worker := W_retire\<rparr>)"
| end_capture: "ct_worker s = W_capturing \<Longrightarrow>
    worker_step s ((finish_call ok COMMAND_SAVE_STATE s)\<lparr>ct_worker := W_retire\<rparr>)"
| load_retired: "ct_worker s = W_retire \<Longrightarrow> worker_step s (s\<lparr>ct_worker := W_retiring (ct_command s)\<rparr>)"
| retire: "ct_worker s = W_retiring c \<Longrightarrow>
    worker_step s ((if host_command c \<and> ct_status s = COMMAND_TIMED_OUT then s\<lparr>ct_command := COMMAND_NONE\<rparr> else s)
      \<lparr>ct_worker := W_end\<rparr>)"
| end_turn: "ct_worker s = W_end \<Longrightarrow>
    worker_step s ((if ct_own s then s\<lparr>ct_command := COMMAND_NONE\<rparr> else s)\<lparr>ct_own := False, ct_worker := W_top\<rparr>)"

definition control_start :: control where
  "control_start = \<lparr>ct_command = COMMAND_NONE, ct_status = 0, ct_host = Host_idle, ct_worker = W_top, ct_own = False,
     ct_ticket = 0, ct_started = 0, ct_acks = [], ct_answers = []\<rparr>"

inductive control_reachable :: "control \<Rightarrow> bool" where
  start: "control_reachable control_start"
| host: "control_reachable s \<Longrightarrow> host_step s s' \<Longrightarrow> control_reachable s'"
| worker: "control_reachable s \<Longrightarrow> worker_step s s' \<Longrightarrow> control_reachable s'"

lemmas command_values = COMMAND_NONE_def COMMAND_RESERVED_def COMMAND_SAVE_STATE_def COMMAND_PENDING_def
  COMMAND_OK_def COMMAND_FAILED_def COMMAND_TIMED_OUT_def

text \<open>Who holds the command word, and what the status may then be.\<close>

fun in_call :: "worker_phase \<Rightarrow> bool" where
  "in_call (W_running c) = True"
| "in_call W_capturing = True"
| "in_call _ = False"

fun own_begun :: "worker_phase \<Rightarrow> bool" where
  "own_begun W_own_reserved = True"
| "own_begun W_own_stored = True"
| "own_begun _ = False"

fun before_save :: "worker_phase \<Rightarrow> bool" where
  "before_save W_begin = True"
| "before_save (W_loaded c) \<longleftrightarrow> c = COMMAND_SAVE_STATE"
| "before_save W_service = True"
| "before_save (W_failed b) \<longleftrightarrow> b"
| "before_save (W_save b) \<longleftrightarrow> b"
| "before_save W_capturing = True"
| "before_save _ = False"

text \<open>A worker that saw a command of the host and is about to retire it.\<close>

fun saw_command :: "worker_phase \<Rightarrow> bool" where
  "saw_command (W_retiring c) = host_command c"
| "saw_command _ = False"

definition control_ok :: "control \<Rightarrow> bool" where
  "control_ok s \<longleftrightarrow>
     (case ct_host s of
        Host_idle \<Rightarrow>
          (if ct_own s then ct_command s = COMMAND_SAVE_STATE
             \<and> (ct_status s = COMMAND_PENDING \<and> before_save (ct_worker s)
                \<or> (ct_status s = COMMAND_OK \<or> ct_status s = COMMAND_FAILED) \<and> \<not> in_call (ct_worker s))
             \<and> \<not> own_begun (ct_worker s) \<and> ct_worker s \<noteq> W_top
           else if own_begun (ct_worker s) then ct_command s = COMMAND_RESERVED
             \<and> (ct_worker s = W_own_stored \<longrightarrow> ct_status s = COMMAND_PENDING)
             \<and> (ct_worker s = W_own_reserved \<longrightarrow> ct_status s \<noteq> COMMAND_PENDING)
           else if ct_command s = COMMAND_NONE then ct_status s \<noteq> COMMAND_PENDING \<and> \<not> in_call (ct_worker s)
             \<and> (saw_command (ct_worker s) \<longrightarrow> ct_status s \<noteq> COMMAND_TIMED_OUT)
           else host_command (ct_command s) \<and> ct_status s = COMMAND_TIMED_OUT)
      | Host_reserved c \<Rightarrow> ct_command s = COMMAND_RESERVED \<and> ct_status s \<noteq> COMMAND_PENDING \<and> host_command c
          \<and> (saw_command (ct_worker s) \<longrightarrow> ct_status s \<noteq> COMMAND_TIMED_OUT)
          \<and> \<not> ct_own s \<and> \<not> own_begun (ct_worker s) \<and> \<not> in_call (ct_worker s)
      | Host_stored c \<Rightarrow> ct_command s = COMMAND_RESERVED \<and> host_command c \<and> \<not> ct_own s \<and> \<not> own_begun (ct_worker s)
          \<and> (ct_status s = COMMAND_PENDING \<or> (ct_status s = COMMAND_OK \<or> ct_status s = COMMAND_FAILED) \<and> \<not> in_call (ct_worker s))
      | Host_waiting c \<Rightarrow> ct_command s = c \<and> host_command c \<and> \<not> ct_own s \<and> \<not> own_begun (ct_worker s)
          \<and> (ct_status s = COMMAND_PENDING \<or> (ct_status s = COMMAND_OK \<or> ct_status s = COMMAND_FAILED) \<and> \<not> in_call (ct_worker s))
      | Host_answered ok \<Rightarrow> host_command (ct_command s) \<and> \<not> ct_own s \<and> \<not> own_begun (ct_worker s)
          \<and> ct_status s = (if ok then COMMAND_OK else COMMAND_FAILED) \<and> \<not> in_call (ct_worker s))
     \<and> (in_call (ct_worker s) \<longrightarrow> ct_started s = ct_ticket s)"

lemma control_ok_host:
  assumes "host_step s s'" and "control_ok s"
  shows "control_ok s'"
  using assms by (cases) (auto simp: control_ok_def host_command_def command_values split: if_splits)


lemma control_ok_worker:
  assumes "worker_step s s'" and "control_ok s"
  shows "control_ok s'"
  using assms
  by (cases; cases "ct_host s") (auto simp: control_ok_def finish_call_def host_command_def command_values split: if_splits)


text \<open>Every answer \<open>Done\<close> has the completion of a native call behind it.\<close>

definition answers_ok :: "control \<Rightarrow> bool" where
  "answers_ok s \<longleftrightarrow> (\<forall>(c, t, t') \<in> set (ct_acks s). t = t')
     \<and> (\<forall>t. (t, Done) \<in> set (ct_answers s) \<longrightarrow> (\<exists>c. (c, t, t) \<in> set (ct_acks s)))
     \<and> (ct_status s = COMMAND_OK \<and> (\<exists>c. ct_host s = Host_stored c \<or> ct_host s = Host_waiting c) \<or> ct_host s = Host_answered True
        \<longrightarrow> (\<exists>c. (c, ct_ticket s, ct_ticket s) \<in> set (ct_acks s)))"

lemma answers_ok_host:
  assumes "host_step s s'" and "control_ok s" and "answers_ok s"
  shows "answers_ok s'"
  using assms by (cases) (auto simp: answers_ok_def command_values split: if_splits)

lemma answers_ok_worker:
  assumes "worker_step s s'" and "control_ok s" and "answers_ok s"
  shows "answers_ok s'"
  using assms
proof cases
  case own_reserve
  have "ct_host s = Host_idle"
    using assms(2) own_reserve
    by (cases "ct_host s") (simp_all add: control_ok_def host_command_def command_values)
  then show ?thesis using own_reserve assms(3) by (simp add: answers_ok_def)
next
  case (end_call c ok)
  then show ?thesis
    using assms(2,3) by (auto simp: answers_ok_def finish_call_def control_ok_def command_values)
next
  case (end_capture ok)
  then show ?thesis
    using assms(2,3) by (auto simp: answers_ok_def finish_call_def control_ok_def command_values)
qed (auto simp: answers_ok_def command_values split: if_splits)

lemma control_reachable_ok:
  "control_reachable s \<Longrightarrow> control_ok s \<and> answers_ok s"
proof (induction rule: control_reachable.induct)
  case start
  then show ?case by (simp add: control_ok_def answers_ok_def control_start_def command_values)
qed (blast intro: control_ok_host control_ok_worker answers_ok_host answers_ok_worker)+


text \<open>
  C14: A late completion never acknowledges a newer command: in every interleaving of the host and the DSP
  process, deadlines and captures of the process itself included, a completed native call is recorded for
  the command that was current when the call began, and a command is answered as done only when a native call
  that began after it was issued has completed for it.
\<close>

theorem answers_are_backed:
  assumes "control_reachable s"
  shows "(\<forall>(c, started, acknowledged) \<in> set (ct_acks s). started = acknowledged)
    \<and> (\<forall>ticket. (ticket, Done) \<in> set (ct_answers s) \<longrightarrow> (\<exists>c. (c, ticket, ticket) \<in> set (ct_acks s)))"
  using control_reachable_ok [OF assms] by (simp add: answers_ok_def)

definition COMMAND_OPEN_EDITOR :: u32 where "COMMAND_OPEN_EDITOR = 1"
definition COMMAND_CLOSE_EDITOR :: u32 where "COMMAND_CLOSE_EDITOR = 2"

text \<open>
  The completed call need not be the one the host asked for: the process loads the command and then the
  status, and between the two the host may take the answer to one command and begin the next. The process then
  runs the old command again and acknowledges the new one.
\<close>

definition control_at ::
  "u32 \<Rightarrow> u32 \<Rightarrow> host_phase \<Rightarrow> worker_phase \<Rightarrow> nat \<Rightarrow> nat \<Rightarrow> (u32 \<times> nat \<times> nat) list \<Rightarrow> (nat \<times> answer) list \<Rightarrow> control" where
  "control_at command status host worker ticket started acks answers =
     \<lparr>ct_command = command, ct_status = status, ct_host = host, ct_worker = worker, ct_own = False,
      ct_ticket = ticket, ct_started = started, ct_acks = acks, ct_answers = answers\<rparr>"

lemma host_to:
  "control_reachable s \<Longrightarrow> host_step s s' \<Longrightarrow> s' = t \<Longrightarrow> control_reachable t"
  by (blast intro: control_reachable.host)

lemma worker_to:
  "control_reachable s \<Longrightarrow> worker_step s s' \<Longrightarrow> s' = t \<Longrightarrow> control_reachable t"
  by (blast intro: control_reachable.worker)

lemmas control_eval = control_at_def control_start_def finish_call_def host_command_def command_values
  COMMAND_OPEN_EDITOR_def COMMAND_CLOSE_EDITOR_def

lemma editor_opened: "control_reachable (control_at COMMAND_OPEN_EDITOR COMMAND_OK (Host_waiting COMMAND_OPEN_EDITOR) W_top 1 1 [(COMMAND_OPEN_EDITOR, 1, 1)] [])"
proof -
  have r0: "control_reachable (control_at COMMAND_RESERVED 0 (Host_reserved COMMAND_OPEN_EDITOR) W_top 1 0 [] [])"
    by (rule host_to [OF control_reachable.start host_step.reserve_command [where c = COMMAND_OPEN_EDITOR]]) (simp_all add: control_eval)
  have r1: "control_reachable (control_at COMMAND_RESERVED COMMAND_PENDING (Host_stored COMMAND_OPEN_EDITOR) W_top 1 0 [] [])"
    by (rule host_to [OF r0 host_step.store_pending]) (simp_all add: control_eval)
  have r2: "control_reachable (control_at COMMAND_OPEN_EDITOR COMMAND_PENDING (Host_waiting COMMAND_OPEN_EDITOR) W_top 1 0 [] [])"
    by (rule host_to [OF r1 host_step.store_command]) (simp_all add: control_eval)
  have r3: "control_reachable (control_at COMMAND_OPEN_EDITOR COMMAND_PENDING (Host_waiting COMMAND_OPEN_EDITOR) W_begin 1 0 [] [])"
    by (rule worker_to [OF r2 worker_step.no_own]) (simp_all add: control_eval)
  have r4: "control_reachable (control_at COMMAND_OPEN_EDITOR COMMAND_PENDING (Host_waiting COMMAND_OPEN_EDITOR) (W_loaded COMMAND_OPEN_EDITOR) 1 0 [] [])"
    by (rule worker_to [OF r3 worker_step.load_command]) (simp_all add: control_eval)
  have r5: "control_reachable (control_at COMMAND_OPEN_EDITOR COMMAND_PENDING (Host_waiting COMMAND_OPEN_EDITOR) (W_running COMMAND_OPEN_EDITOR) 1 1 [] [])"
    by (rule worker_to [OF r4 worker_step.start_call]) (simp_all add: control_eval)
  have r6: "control_reachable (control_at COMMAND_OPEN_EDITOR COMMAND_OK (Host_waiting COMMAND_OPEN_EDITOR) W_service 1 1 [(COMMAND_OPEN_EDITOR, 1, 1)] [])"
    by (rule worker_to [OF r5 worker_step.end_call [where ok = True]]) (simp_all add: control_eval)
  have r7: "control_reachable (control_at COMMAND_OPEN_EDITOR COMMAND_OK (Host_waiting COMMAND_OPEN_EDITOR) (W_save False) 1 1 [(COMMAND_OPEN_EDITOR, 1, 1)] [])"
    by (rule worker_to [OF r6 worker_step.load_save]) (simp_all add: control_eval)
  have r8: "control_reachable (control_at COMMAND_OPEN_EDITOR COMMAND_OK (Host_waiting COMMAND_OPEN_EDITOR) W_retire 1 1 [(COMMAND_OPEN_EDITOR, 1, 1)] [])"
    by (rule worker_to [OF r7 worker_step.no_capture [where saving = False]]) (simp_all add: control_eval)
  have r9: "control_reachable (control_at COMMAND_OPEN_EDITOR COMMAND_OK (Host_waiting COMMAND_OPEN_EDITOR) (W_retiring COMMAND_OPEN_EDITOR) 1 1 [(COMMAND_OPEN_EDITOR, 1, 1)] [])"
    by (rule worker_to [OF r8 worker_step.load_retired]) (simp_all add: control_eval)
  have r10: "control_reachable (control_at COMMAND_OPEN_EDITOR COMMAND_OK (Host_waiting COMMAND_OPEN_EDITOR) W_end 1 1 [(COMMAND_OPEN_EDITOR, 1, 1)] [])"
    by (rule worker_to [OF r9 worker_step.retire]) (simp_all add: control_eval)
  show ?thesis
    by (rule worker_to [OF r10 worker_step.end_turn]) (simp_all add: control_eval)
qed

lemma stale_command_runs: "control_reachable (control_at COMMAND_NONE COMMAND_OK Host_idle W_service 2 2 [(COMMAND_OPEN_EDITOR, 1, 1), (COMMAND_OPEN_EDITOR, 2, 2)] [(1, Done), (2, Done)])"
proof -
  have r12: "control_reachable (control_at COMMAND_OPEN_EDITOR COMMAND_OK (Host_waiting COMMAND_OPEN_EDITOR) W_begin 1 1 [(COMMAND_OPEN_EDITOR, 1, 1)] [])"
    by (rule worker_to [OF editor_opened worker_step.no_own]) (simp_all add: control_eval)
  have r13: "control_reachable (control_at COMMAND_OPEN_EDITOR COMMAND_OK (Host_waiting COMMAND_OPEN_EDITOR) (W_loaded COMMAND_OPEN_EDITOR) 1 1 [(COMMAND_OPEN_EDITOR, 1, 1)] [])"
    by (rule worker_to [OF r12 worker_step.load_command]) (simp_all add: control_eval)
  have r14: "control_reachable (control_at COMMAND_OPEN_EDITOR COMMAND_OK (Host_answered True) (W_loaded COMMAND_OPEN_EDITOR) 1 1 [(COMMAND_OPEN_EDITOR, 1, 1)] [])"
    by (rule host_to [OF r13 host_step.see_ok]) (simp_all add: control_eval)
  have r15: "control_reachable (control_at COMMAND_NONE COMMAND_OK Host_idle (W_loaded COMMAND_OPEN_EDITOR) 1 1 [(COMMAND_OPEN_EDITOR, 1, 1)] [(1, Done)])"
    by (rule host_to [OF r14 host_step.release_command]) (simp_all add: control_eval)
  have r16: "control_reachable (control_at COMMAND_RESERVED COMMAND_OK (Host_reserved COMMAND_CLOSE_EDITOR) (W_loaded COMMAND_OPEN_EDITOR) 2 1 [(COMMAND_OPEN_EDITOR, 1, 1)] [(1, Done)])"
    by (rule host_to [OF r15 host_step.reserve_command [where c = COMMAND_CLOSE_EDITOR]]) (simp_all add: control_eval)
  have r17: "control_reachable (control_at COMMAND_RESERVED COMMAND_PENDING (Host_stored COMMAND_CLOSE_EDITOR) (W_loaded COMMAND_OPEN_EDITOR) 2 1 [(COMMAND_OPEN_EDITOR, 1, 1)] [(1, Done)])"
    by (rule host_to [OF r16 host_step.store_pending]) (simp_all add: control_eval)
  have r18: "control_reachable (control_at COMMAND_CLOSE_EDITOR COMMAND_PENDING (Host_waiting COMMAND_CLOSE_EDITOR) (W_loaded COMMAND_OPEN_EDITOR) 2 1 [(COMMAND_OPEN_EDITOR, 1, 1)] [(1, Done)])"
    by (rule host_to [OF r17 host_step.store_command]) (simp_all add: control_eval)
  have r19: "control_reachable (control_at COMMAND_CLOSE_EDITOR COMMAND_PENDING (Host_waiting COMMAND_CLOSE_EDITOR) (W_running COMMAND_OPEN_EDITOR) 2 2 [(COMMAND_OPEN_EDITOR, 1, 1)] [(1, Done)])"
    by (rule worker_to [OF r18 worker_step.start_call]) (simp_all add: control_eval)
  have r20: "control_reachable (control_at COMMAND_CLOSE_EDITOR COMMAND_OK (Host_waiting COMMAND_CLOSE_EDITOR) W_service 2 2 [(COMMAND_OPEN_EDITOR, 1, 1), (COMMAND_OPEN_EDITOR, 2, 2)] [(1, Done)])"
    by (rule worker_to [OF r19 worker_step.end_call [where ok = True]]) (simp_all add: control_eval)
  have r21: "control_reachable (control_at COMMAND_CLOSE_EDITOR COMMAND_OK (Host_answered True) W_service 2 2 [(COMMAND_OPEN_EDITOR, 1, 1), (COMMAND_OPEN_EDITOR, 2, 2)] [(1, Done)])"
    by (rule host_to [OF r20 host_step.see_ok]) (simp_all add: control_eval)
  show ?thesis
    by (rule host_to [OF r21 host_step.release_command]) (simp_all add: control_eval)
qed

theorem answers_are_backed_witness:
  "\<exists>c. (c, 1, 1) \<in> set (ct_acks (control_at COMMAND_NONE COMMAND_OK Host_idle W_service 2 2
     [(COMMAND_OPEN_EDITOR, 1, 1), (COMMAND_OPEN_EDITOR, 2, 2)] [(1, Done), (2, Done)]))"
  using answers_are_backed [OF stale_command_runs] by (simp add: control_at_def)

text \<open>
  C28: The guarantee of the commands has a gap: the DSP process loads the command and its status in two steps,
  and in one interleaving the host takes an answer and begins the next command between them, so that the old
  command runs again and its completion answers the new one. There is a reachable state in which the second
  command (closing the editor) was answered as done and no native call that closes the editor ever completed.
\<close>

theorem stale_command_acknowledged:
  "\<exists>s. control_reachable s \<and> (2, Done) \<in> set (ct_answers s)
     \<and> (\<forall>c t. (c, t, t) \<in> set (ct_acks s) \<longrightarrow> c \<noteq> COMMAND_CLOSE_EDITOR)"
  by (rule exI, rule conjI, rule stale_command_runs)
    (simp add: control_at_def COMMAND_OPEN_EDITOR_def COMMAND_CLOSE_EDITOR_def)

theorem stale_command_acknowledged_witness:
  "\<exists>s. control_reachable s \<and> (2, Done) \<in> set (ct_answers s) \<and> (COMMAND_CLOSE_EDITOR, 2, 2) \<notin> set (ct_acks s)"
  using stale_command_acknowledged by blast

end
