(* ===== verification/Worker_Pipe.thy ===== *)
theory Worker_Pipe
  imports Midi_Queue "HOL-Library.Sublist" "HOL-Library.Multiset"
begin

text \<open>
  MIDI on its way to the plugin process: the supervisor's side of the MIDI pipe (\<open>try_send_midi_at\<close>,
  \<open>request_emergency_reset\<close> and \<open>midi_writer\<close> of \<open>vst_worker/supervisor.rs\<close>) and the reading loop of the
  process (\<open>run_midi_channel\<close> of \<open>bin/vst_host_worker.rs\<close>). The writer runs beside the threads that send
  and that ask for a reset: what they do before each of its readings of the shared state is a function.
\<close>

section \<open>What the supervisor shares\<close>

text \<open>\<open>px_queue\<close> is the queue of the running session; \<open>px_route\<close> says whether it is published.\<close>

record pipe_shared =
  px_midi_generation :: u64
  px_emergency :: bool
  px_midi_sequence :: u64
  px_midi_drops :: u32
  px_route :: bool
  px_queue :: "midi_wire_frame async_queue"
  px_lifecycle :: u64
  px_transport_failed :: bool

definition next_midi_sequence :: "pipe_shared \<Rightarrow> u64 \<times> pipe_shared" where
  "next_midi_sequence sh = (px_midi_sequence sh, sh\<lparr>px_midi_sequence := px_midi_sequence sh + 1\<rparr>)"

definition request_emergency_reset :: "pipe_shared \<Rightarrow> pipe_shared" where
  "request_emergency_reset sh = sh\<lparr>px_midi_generation := px_midi_generation sh + 1, px_emergency := True\<rparr>"

text \<open>
  \<open>try_send_midi_at\<close>: the generation is read before the frame is queued, and other threads may act in
  between (\<open>moves\<close>); \<open>now\<close> is the clock of the queue.
\<close>

definition try_send_midi_at ::
  "(pipe_shared \<Rightarrow> pipe_shared) \<Rightarrow> u64 \<Rightarrow> bytes \<Rightarrow> u64 \<Rightarrow> pipe_shared \<Rightarrow> bool \<times> pipe_shared" where
  "try_send_midi_at moves now bytes ingress_qpc sh =
     (let (sequence, sh) = next_midi_sequence sh in
      case wire_new sequence ingress_qpc bytes of
        None \<Rightarrow> (False, sh)
      | Some frame \<Rightarrow>
          let frame = frame\<lparr>wf_generation := px_midi_generation sh\<rparr>;
              sh = moves sh;
              (sent, queue) =
                (if px_route sh then
                   (case async_try_send wire_critical now frame (px_queue sh) of (r, q) \<Rightarrow> (is_ok r, q))
                 else (False, px_queue sh));
              sh = sh\<lparr>px_queue := queue\<rparr>
          in (sent, if sent then sh else sh\<lparr>px_midi_drops := saturating_add (px_midi_drops sh) 1\<rparr>))"

section \<open>The writer\<close>

text \<open>
  The history of the pipe: resets (with the generation they are written for), batches of frames, each
  with whether the write succeeded in time, and frames given up.
\<close>

datatype pipe_event =
    Pipe_reset u64 midi_wire_frame bool
  | Pipe_frames "midi_wire_frame list" bool
  | Pipe_given_up midi_wire_frame

record pipe_writer =
  pw_generation :: u64
  pw_saved :: "midi_wire_frame option"
  pw_taken :: "midi_wire_frame list"
  pw_log :: "pipe_event list"

text \<open>
  One turn of the loop: what the other threads do before each reading, whether the reset and the batch are
  written within their half second, whether the notification of a reset is seen first, whether all senders
  are gone, and the clocks.
\<close>

record pipe_turn =
  pt_moves :: "nat \<Rightarrow> pipe_shared \<Rightarrow> pipe_shared"
  pt_reset_ok :: bool
  pt_write_ok :: bool
  pt_notified :: bool
  pt_senders_gone :: bool
  pt_qpc :: "nat \<Rightarrow> u64"
  pt_frequency :: u64

definition log_pipe :: "pipe_event \<Rightarrow> pipe_writer \<Rightarrow> pipe_writer" where
  "log_pipe e w = w\<lparr>pw_log := pw_log w @ [e]\<rparr>"

definition give_up :: "midi_wire_frame \<Rightarrow> pipe_writer \<Rightarrow> pipe_writer" where
  "give_up frame w = log_pipe (Pipe_given_up frame) w"

text \<open>The head of the loop; the first result says whether it goes on.\<close>

definition pipe_reset :: "pipe_turn \<Rightarrow> pipe_writer \<Rightarrow> pipe_shared \<Rightarrow> bool \<times> pipe_writer \<times> pipe_shared" where
  "pipe_reset tu w sh =
     (let sh = pt_moves tu 0 sh;
          pending = px_emergency sh;
          sh = pt_moves tu 1 (sh\<lparr>px_emergency := False\<rparr>)
      in if pending \<or> pw_generation w \<noteq> px_midi_generation sh then
           let sh = pt_moves tu 2 sh;
               w = w\<lparr>pw_generation := px_midi_generation sh\<rparr>;
               (sequence, sh) = next_midi_sequence sh;
               reset = the (wire_new sequence (pt_qpc tu 0) [0xFF])
           in (pt_reset_ok tu, log_pipe (Pipe_reset (pw_generation w) reset (pt_reset_ok tu)) w, sh)
         else (True, w, sh))"

text \<open>Taking a frame from the queue.\<close>

definition take_frame ::
  "pipe_turn \<Rightarrow> nat \<Rightarrow> pipe_writer \<Rightarrow> pipe_shared \<Rightarrow> midi_wire_frame option \<times> pipe_writer \<times> pipe_shared" where
  "take_frame tu n w sh =
     (case async_try_recv (pt_frequency tu) (pt_qpc tu n) (px_queue sh) of
        (None, _) \<Rightarrow> (None, w, sh)
      | (Some frame, queue) \<Rightarrow> (Some frame, w\<lparr>pw_taken := pw_taken w @ [frame]\<rparr>, sh\<lparr>px_queue := queue\<rparr>))"

text \<open>Up to 255 more frames join a batch; the first number counts down the frames that may still be taken.\<close>

fun fill_batch ::
  "pipe_turn \<Rightarrow> nat \<Rightarrow> pipe_writer \<Rightarrow> midi_wire_frame list \<Rightarrow> pipe_shared
     \<Rightarrow> pipe_writer \<times> midi_wire_frame list \<times> pipe_shared" where
  "fill_batch tu 0 w batch sh = (w, batch, sh)"
| "fill_batch tu (Suc k) w batch sh =
     (let sh = pt_moves tu (6 + k) sh in
      if px_emergency sh then (w, batch, sh)
      else case take_frame tu (6 + k) w (pt_moves tu (263 + k) sh) of
        (None, w, sh) \<Rightarrow> (w, batch, sh)
      | (Some frame, w, sh) \<Rightarrow>
          if wf_generation frame < pw_generation w then fill_batch tu k (give_up frame w) batch sh
          else if wf_generation frame > pw_generation w then (w\<lparr>pw_saved := Some frame\<rparr>, batch, sh)
          else fill_batch tu k w (batch @ [frame\<lparr>wf_pipe_qpc := pt_qpc tu (6 + k)\<rparr>]) sh)"

text \<open>Writing a batch, unless a reset was asked for meanwhile.\<close>

definition write_batch ::
  "pipe_turn \<Rightarrow> midi_wire_frame list \<Rightarrow> pipe_writer \<Rightarrow> pipe_shared \<Rightarrow> bool \<times> pipe_writer \<times> pipe_shared" where
  "write_batch tu batch w sh =
     (let sh1 = pt_moves tu 4 sh; sh2 = pt_moves tu 5 sh1 in
      if px_emergency sh1 then (True, fold give_up batch w, sh1)
      else if pw_generation w \<noteq> px_midi_generation sh2 then (True, fold give_up batch w, sh2)
      else (pt_write_ok tu, log_pipe (Pipe_frames batch (pt_write_ok tu)) w, sh2))"

definition pipe_frame ::
  "pipe_turn \<Rightarrow> midi_wire_frame \<Rightarrow> pipe_writer \<Rightarrow> pipe_shared \<Rightarrow> bool \<times> pipe_writer \<times> pipe_shared" where
  "pipe_frame tu frame w sh =
     (let frame = frame\<lparr>wf_pipe_qpc := pt_qpc tu 2\<rparr> in
      if wf_generation frame < pw_generation w then (True, give_up frame w, sh)
      else
        let sh = pt_moves tu 3 sh in
        if wf_generation frame > pw_generation w \<or> px_midi_generation sh \<noteq> pw_generation w
        then (True, w\<lparr>pw_saved := Some frame\<rparr>, sh)
        else case fill_batch tu 255 w [frame] sh of (w, batch, sh) \<Rightarrow> write_batch tu batch w sh)"

text \<open>
  \<open>select!\<close>, biased to the notification. A queue that stays empty keeps the writer waiting; \<open>None\<close> is a
  writer that waits for ever.
\<close>

definition pipe_select :: "pipe_turn \<Rightarrow> pipe_writer \<Rightarrow> pipe_shared \<Rightarrow> (bool \<times> pipe_writer \<times> pipe_shared) option" where
  "pipe_select tu w sh =
     (if pt_notified tu then Some (True, w, sh)
      else case pw_saved w of
        Some frame \<Rightarrow> Some (pipe_frame tu frame (w\<lparr>pw_saved := None\<rparr>) sh)
      | None \<Rightarrow>
          (case take_frame tu 1 w (pt_moves tu 262 sh) of
             (Some frame, w, sh) \<Rightarrow> Some (pipe_frame tu frame w sh)
           | (None, w, sh) \<Rightarrow> if pt_senders_gone tu then Some (False, w, sh) else None))"

text \<open>\<open>midi_writer\<close>; the first result is \<open>True\<close> while the loop is running or waiting.\<close>

fun pipe_turns :: "pipe_turn list \<Rightarrow> pipe_writer \<Rightarrow> pipe_shared \<Rightarrow> bool \<times> pipe_writer \<times> pipe_shared" where
  "pipe_turns [] w sh = (True, w, sh)"
| "pipe_turns (tu # tus) w sh =
     (case pipe_reset tu w sh of
        (False, w, sh) \<Rightarrow> (False, w, sh)
      | (True, w, sh) \<Rightarrow>
          (case pipe_select tu w sh of
             None \<Rightarrow> (True, w, sh)
           | Some (False, w, sh) \<Rightarrow> (False, w, sh)
           | Some (True, w, sh) \<Rightarrow> pipe_turns tus w sh))"

definition writer_start :: pipe_writer where
  "writer_start = \<lparr>pw_generation = 0, pw_saved = None, pw_taken = [], pw_log = []\<rparr>"

definition midi_writer ::
  "u64 \<Rightarrow> pipe_turn list \<Rightarrow> pipe_shared \<Rightarrow> bool \<times> pipe_writer \<times> pipe_shared" where
  "midi_writer lifecycle turns sh =
     (case pipe_turns turns writer_start sh of
        (True, w, sh) \<Rightarrow> (True, w, sh)
      | (False, w, sh) \<Rightarrow>
          (False, w, if lifecycle = px_lifecycle sh then sh\<lparr>px_transport_failed := True\<rparr> else sh))"

section \<open>What the plugin process has to hear\<close>

text \<open>The generation of the last reset of a history, and the frames given up since.\<close>

definition log_step :: "u64 \<times> midi_wire_frame list \<Rightarrow> pipe_event \<Rightarrow> u64 \<times> midi_wire_frame list" where
  "log_step acc e =
     (case e of
        Pipe_reset g _ _ \<Rightarrow> (g, [])
      | Pipe_frames _ _ \<Rightarrow> acc
      | Pipe_given_up f \<Rightarrow> (fst acc, snd acc @ [f]))"

definition log_state :: "pipe_event list \<Rightarrow> u64 \<times> midi_wire_frame list" where
  "log_state log = foldl log_step (0, []) log"

abbreviation "reset_generation log \<equiv> fst (log_state log)"
abbreviation "given_up_since log \<equiv> snd (log_state log)"

fun written :: "pipe_event \<Rightarrow> bool" where
  "written (Pipe_reset _ _ ok) = ok"
| "written (Pipe_frames _ ok) = ok"
| "written (Pipe_given_up _) = True"

fun pipe_resets :: "pipe_event \<Rightarrow> bool" where
  "pipe_resets (Pipe_reset _ _ _) = True"
| "pipe_resets _ = False"

lemma log_state_snoc [simp]:
  "log_state [] = (0, [])"
  "log_state (log @ [Pipe_reset g r ok]) = (g, [])"
  "log_state (log @ [Pipe_frames fs ok]) = log_state log"
  "log_state (log @ [Pipe_given_up f]) = (reset_generation log, given_up_since log @ [f])"
  by (simp_all add: log_state_def log_step_def)

lemma log_state_without_reset:
  assumes "\<forall>e \<in> set mid. \<not> pipe_resets e"
  shows "reset_generation (log @ mid) = reset_generation log
    \<and> set (given_up_since log) \<subseteq> set (given_up_since (log @ mid))"
  using assms
proof (induction mid rule: rev_induct)
  case (snoc e mid)
  then show ?case by (cases e) (auto simp flip: append_assoc)
qed simp

text \<open>The reset is a one-byte message the constructor accepts, so \<open>expect\<close> cannot fail.\<close>

lemma reset_frame_ok:
  "wire_ok (the (wire_new seq qpc [0xFF])) \<and> wire_bytes (the (wire_new seq qpc [0xFF])) = [0xFF]"
proof -
  have len: "message_len 255 = Some 1" by (simp add: message_len_def)
  have "\<exists>f. wire_new seq qpc [0xFF] = Some f"
    by (simp add: wire_new_def normalize_prefix_def normalize_message_def wire_consts len)
  then obtain f where f: "wire_new seq qpc [0xFF] = Some f" ..
  have "normalize_message [0xFF] = (True, [0xFF])" by (simp add: normalize_message_def len)
  then show ?thesis using wire_new_ok(1,6) [OF f] f by simp
qed

text \<open>Every event was allowed by what came before it.\<close>

definition event_ok :: "pipe_event list \<Rightarrow> pipe_event \<Rightarrow> bool" where
  "event_ok log e \<longleftrightarrow> list_all written log \<and>
     (case e of
        Pipe_reset g f _ \<Rightarrow> reset_generation log \<le> g \<and> wire_ok f \<and> wire_bytes f = [0xFF]
      | Pipe_frames fs _ \<Rightarrow> (\<forall>f \<in> set fs. wf_generation f = reset_generation log)
          \<and> (\<forall>f \<in> set (given_up_since log). wf_generation f < reset_generation log)
      | Pipe_given_up _ \<Rightarrow> True)"

definition pipe_log_ok :: "pipe_event list \<Rightarrow> bool" where
  "pipe_log_ok log \<longleftrightarrow> (\<forall>pre e post. log = pre @ e # post \<longrightarrow> event_ok pre e)"

lemma pipe_log_ok_Nil [simp]: "pipe_log_ok []"
  by (simp add: pipe_log_ok_def)

lemma pipe_log_ok_snoc [simp]: "pipe_log_ok (log @ [e]) \<longleftrightarrow> pipe_log_ok log \<and> event_ok log e"
proof
  assume ok: "pipe_log_ok (log @ [e])"
  have "event_ok pre e'" if "log = pre @ e' # post" for pre e' post
    using ok that unfolding pipe_log_ok_def by (metis append.assoc append_Cons)
  then show "pipe_log_ok log \<and> event_ok log e" using ok unfolding pipe_log_ok_def by blast
next
  assume ok: "pipe_log_ok log \<and> event_ok log e"
  show "pipe_log_ok (log @ [e])"
    unfolding pipe_log_ok_def
  proof (intro allI impI)
    fix pre e' post
    assume "log @ [e] = pre @ e' # post"
    then show "event_ok pre e'"
      using ok by (cases post rule: rev_cases) (auto simp: pipe_log_ok_def)
  qed
qed

text \<open>
  What the other threads may do: ask for resets, which raises the generation, and never take a request
  back. The generation is a 64-bit counter that does not wrap in any run.
\<close>

definition pipe_moves_ok :: "pipe_turn \<Rightarrow> bool" where
  "pipe_moves_ok tu \<longleftrightarrow> (\<forall>n sh. px_midi_generation sh \<le> px_midi_generation (pt_moves tu n sh)
     \<and> (px_emergency sh \<longrightarrow> px_emergency (pt_moves tu n sh)))"

definition writer_ok :: "pipe_writer \<Rightarrow> bool" where
  "writer_ok w \<longleftrightarrow> pipe_log_ok (pw_log w) \<and> list_all written (pw_log w)
     \<and> reset_generation (pw_log w) = pw_generation w"

definition clean :: "pipe_writer \<Rightarrow> bool" where
  "clean w \<longleftrightarrow> (\<forall>f \<in> set (given_up_since (pw_log w)). wf_generation f < pw_generation w)"

definition pipe_inv :: "pipe_writer \<Rightarrow> pipe_shared \<Rightarrow> bool" where
  "pipe_inv w sh \<longleftrightarrow> writer_ok w \<and> pw_generation w \<le> px_midi_generation sh
     \<and> (clean w \<or> px_emergency sh \<or> pw_generation w < px_midi_generation sh)"

lemma log_pipe_simps [simp]:
  "pw_log (log_pipe e w) = pw_log w @ [e]" "pw_generation (log_pipe e w) = pw_generation w"
  "pw_taken (log_pipe e w) = pw_taken w" "pw_saved (log_pipe e w) = pw_saved w"
  by (simp_all add: log_pipe_def)

lemma writer_ok_fields [simp]:
  "writer_ok (w\<lparr>pw_saved := s\<rparr>) = writer_ok w" "writer_ok (w\<lparr>pw_taken := t\<rparr>) = writer_ok w"
  "clean (w\<lparr>pw_saved := s\<rparr>) = clean w" "clean (w\<lparr>pw_taken := t\<rparr>) = clean w"
  by (simp_all add: writer_ok_def clean_def)

lemma writer_start_ok: "pipe_inv writer_start sh"
  by (simp add: pipe_inv_def writer_ok_def clean_def writer_start_def)

lemma pipe_move:
  assumes "pipe_moves_ok tu"
  shows "px_midi_generation sh \<le> px_midi_generation (pt_moves tu n sh)"
    and "px_emergency sh \<Longrightarrow> px_emergency (pt_moves tu n sh)"
  using assms unfolding pipe_moves_ok_def by blast+

lemma give_up_ok:
  assumes "writer_ok w"
  shows "writer_ok (give_up f w)" and "pw_generation (give_up f w) = pw_generation w"
    and "clean w \<Longrightarrow> wf_generation f < pw_generation w \<Longrightarrow> clean (give_up f w)"
  using assms by (auto simp: give_up_def writer_ok_def event_ok_def clean_def)

lemma fold_give_up_ok:
  "writer_ok w \<Longrightarrow> writer_ok (fold give_up fs w) \<and> pw_generation (fold give_up fs w) = pw_generation w"
  by (induction fs arbitrary: w) (simp_all add: give_up_ok)

lemma next_midi_sequence_fields:
  "next_midi_sequence sh = (n, sh') \<Longrightarrow> px_midi_generation sh' = px_midi_generation sh"
  "next_midi_sequence sh = (n, sh') \<Longrightarrow> px_emergency sh' = px_emergency sh"
  by (auto simp: next_midi_sequence_def)

lemma pipe_reset_ok:
  assumes inv: "pipe_inv w sh" and tu: "pipe_moves_ok tu" and step: "pipe_reset tu w sh = (loops, w', sh')"
  shows "pipe_log_ok (pw_log w')"
    and "loops \<Longrightarrow> writer_ok w' \<and> clean w' \<and> pw_generation w' \<le> px_midi_generation sh'"
proof -
  define sh0 where "sh0 = pt_moves tu 0 sh"
  define sh1 where "sh1 = pt_moves tu 1 (sh0\<lparr>px_emergency := False\<rparr>)"
  have up: "px_midi_generation sh \<le> px_midi_generation sh1"
    unfolding sh1_def
    by (rule order.trans [OF pipe_move(1) [OF tu, of _ 0] order.trans [OF _ pipe_move(1) [OF tu]]])
      (simp add: sh0_def)
  have "pipe_log_ok (pw_log w') \<and>
    (loops \<longrightarrow> writer_ok w' \<and> clean w' \<and> pw_generation w' \<le> px_midi_generation sh')"
  proof (cases "px_emergency sh0 \<or> pw_generation w \<noteq> px_midi_generation sh1")
    case True
    define sh2 where "sh2 = pt_moves tu 2 sh1"
    have "pw_generation w \<le> px_midi_generation sh2"
      unfolding sh2_def
      by (rule order.trans [OF order.trans [OF _ up] pipe_move(1) [OF tu]]) (use inv in \<open>simp add: pipe_inv_def\<close>)
    moreover obtain seq sh3 where seq: "next_midi_sequence sh2 = (seq, sh3)" by fastforce
    moreover have "w' = log_pipe (Pipe_reset (px_midi_generation sh2) (the (wire_new seq (pt_qpc tu 0) [0xFF])) loops)
        (w\<lparr>pw_generation := px_midi_generation sh2\<rparr>)" and sh': "sh' = sh3"
      using step True seq unfolding pipe_reset_def Let_def sh0_def [symmetric] sh1_def [symmetric] sh2_def [symmetric]
      by (simp_all, blast)
    moreover have "px_midi_generation sh' = px_midi_generation sh2" using next_midi_sequence_fields(1) [OF seq] sh' by simp
    ultimately show ?thesis
      using inv reset_frame_ok by (simp add: pipe_inv_def writer_ok_def event_ok_def clean_def)
  next
    case False
    then have "loops" "w' = w" "sh' = sh1"
      using step unfolding pipe_reset_def Let_def sh0_def [symmetric] sh1_def [symmetric] by simp_all
    moreover have "clean w"
    proof -
      have "\<not> px_emergency sh" using False pipe_move(2) [OF tu, of sh 0] by (auto simp: sh0_def)
      moreover have "\<not> pw_generation w < px_midi_generation sh"
        using up False by (simp add: not_less)
      ultimately show ?thesis using inv unfolding pipe_inv_def by blast
    qed
    ultimately show ?thesis using inv False by (simp add: pipe_inv_def writer_ok_def)
  qed
  then show "pipe_log_ok (pw_log w')"
    and "loops \<Longrightarrow> writer_ok w' \<and> clean w' \<and> pw_generation w' \<le> px_midi_generation sh'" by blast+
qed

lemma take_frame_ok:
  assumes "take_frame tu n w sh = (r, w', sh')"
  shows "(\<exists>t. w' = w\<lparr>pw_taken := t\<rparr>)" and "px_midi_generation sh' = px_midi_generation sh"
    and "px_emergency sh' = px_emergency sh"
proof -
  show "\<exists>t. w' = w\<lparr>pw_taken := t\<rparr>"
  proof (cases r)
    case None
    then have "w' = w\<lparr>pw_taken := pw_taken w\<rparr>"
      using assms by (auto simp: take_frame_def split: prod.splits option.splits)
    then show ?thesis ..
  next
    case (Some frame)
    then have "w' = w\<lparr>pw_taken := pw_taken w @ [frame]\<rparr>"
      using assms by (auto simp: take_frame_def split: prod.splits option.splits)
    then show ?thesis ..
  qed
qed (use assms in \<open>auto simp: take_frame_def split: prod.splits option.splits\<close>)

lemma fill_batch_ok:
  assumes "fill_batch tu k w batch sh = (w', batch', sh')" and tu: "pipe_moves_ok tu"
    and "writer_ok w" "clean w" "pw_generation w \<le> px_midi_generation sh"
    and "\<forall>f \<in> set batch. wf_generation f = pw_generation w"
  shows "writer_ok w' \<and> clean w' \<and> pw_generation w' \<le> px_midi_generation sh'
    \<and> (\<forall>f \<in> set batch'. wf_generation f = pw_generation w')"
  using assms(1,3-)
proof (induction k arbitrary: w batch sh)
  case (Suc k)
  define sh1 where "sh1 = pt_moves tu (6 + k) sh"
  define sh2 where "sh2 = pt_moves tu (263 + k) sh1"
  have up1: "pw_generation w \<le> px_midi_generation sh1"
    using Suc.prems(4) pipe_move(1) [OF tu, of sh "6 + k"] by (simp add: sh1_def)
  then have up2: "pw_generation w \<le> px_midi_generation sh2"
    using pipe_move(1) [OF tu, of sh1 "263 + k"] by (simp add: sh2_def)
  show ?case
  proof (cases "px_emergency sh1")
    case True
    then show ?thesis using Suc.prems up1 by (simp add: sh1_def Let_def)
  next
    case False
    obtain r w1 sh3 where t: "take_frame tu (6 + k) w sh2 = (r, w1, sh3)" by (metis prod_cases3)
    obtain taken where w1: "w1 = w\<lparr>pw_taken := taken\<rparr>" using take_frame_ok(1) [OF t] by blast
    have up3: "pw_generation w1 \<le> px_midi_generation sh3"
      using take_frame_ok(2) [OF t] up2 by (simp add: w1)
    have ok: "writer_ok w1" "clean w1" "\<forall>f \<in> set batch. wf_generation f = pw_generation w1"
      using Suc.prems by (simp_all add: w1)
    have step: "fill_batch tu (Suc k) w batch sh =
      (case r of None \<Rightarrow> (w1, batch, sh3)
       | Some frame \<Rightarrow>
           if wf_generation frame < pw_generation w1 then fill_batch tu k (give_up frame w1) batch sh3
           else if wf_generation frame > pw_generation w1 then (w1\<lparr>pw_saved := Some frame\<rparr>, batch, sh3)
           else fill_batch tu k w1 (batch @ [frame\<lparr>wf_pipe_qpc := pt_qpc tu (6 + k)\<rparr>]) sh3)"
      using False t by (simp add: sh1_def sh2_def Let_def split: option.splits)
    show ?thesis
    proof (cases r)
      case None
      then show ?thesis using Suc.prems(1) ok up3 unfolding step by simp
    next
      case (Some frame)
      consider (old) "wf_generation frame < pw_generation w1" | (new) "wf_generation frame > pw_generation w1"
        | (same) "wf_generation frame = pw_generation w1" by fastforce
      then show ?thesis
      proof cases
        case old
        then have "fill_batch tu k (give_up frame w1) batch sh3 = (w', batch', sh')"
          using Suc.prems(1) unfolding step Some by simp
        then show ?thesis
          by (rule Suc.IH) (use give_up_ok [OF ok(1), of frame] ok up3 old in simp_all)
      next
        case new
        then have "\<not> wf_generation frame < pw_generation w1" by simp
        then have "w' = w1\<lparr>pw_saved := Some frame\<rparr>" "batch' = batch" "sh' = sh3"
          using Suc.prems(1) new unfolding step Some by simp_all
        then show ?thesis using ok up3 by simp
      next
        case same
        then have "fill_batch tu k w1 (batch @ [frame\<lparr>wf_pipe_qpc := pt_qpc tu (6 + k)\<rparr>]) sh3 = (w', batch', sh')"
          using Suc.prems(1) unfolding step Some by simp
        then show ?thesis by (rule Suc.IH) (use ok up3 same in auto)
      qed
    qed
  qed
qed simp

lemma write_batch_ok:
  assumes step: "write_batch tu batch w sh = (loops, w', sh')" and tu: "pipe_moves_ok tu"
    and ok: "writer_ok w" "clean w" "pw_generation w \<le> px_midi_generation sh"
    and batch: "\<forall>f \<in> set batch. wf_generation f = pw_generation w"
  shows "pipe_log_ok (pw_log w') \<and> (loops \<longrightarrow> pipe_inv w' sh')"
proof -
  define sh1 where "sh1 = pt_moves tu 4 sh"
  define sh2 where "sh2 = pt_moves tu 5 sh1"
  have up1: "pw_generation w \<le> px_midi_generation sh1"
    using ok(3) pipe_move(1) [OF tu, of sh 4] by (simp add: sh1_def)
  then have up2: "pw_generation w \<le> px_midi_generation sh2"
    using pipe_move(1) [OF tu, of sh1 5] by (simp add: sh2_def)
  note given = fold_give_up_ok [OF ok(1), of batch]
  show ?thesis
  proof (cases "px_emergency sh1 \<or> pw_generation w \<noteq> px_midi_generation sh2")
    case True
    then have w': "w' = fold give_up batch w" and sh': "sh' = (if px_emergency sh1 then sh1 else sh2)"
      using step unfolding write_batch_def Let_def sh1_def [symmetric] sh2_def [symmetric]
      by (cases "px_emergency sh1"; simp)+
    have due: "px_emergency sh' \<or> pw_generation w < px_midi_generation sh'"
      using True up2 unfolding sh' by (cases "px_emergency sh1") (simp_all add: order.strict_iff_order)
    have "pw_generation w \<le> px_midi_generation sh'" using up1 up2 by (simp add: sh')
    then show ?thesis using given due unfolding w' pipe_inv_def by (simp add: writer_ok_def)
  next
    case False
    then have "w' = log_pipe (Pipe_frames batch (pt_write_ok tu)) w" "sh' = sh2" "loops = pt_write_ok tu"
      using step unfolding write_batch_def Let_def sh1_def [symmetric] sh2_def [symmetric] by auto
    then show ?thesis using ok batch up2 by (auto simp: pipe_inv_def writer_ok_def event_ok_def clean_def)
  qed
qed

lemma pipe_frame_ok:
  assumes step: "pipe_frame tu frame w sh = (loops, w', sh')" and tu: "pipe_moves_ok tu"
    and ok: "writer_ok w" "clean w" "pw_generation w \<le> px_midi_generation sh"
  shows "pipe_log_ok (pw_log w') \<and> (loops \<longrightarrow> pipe_inv w' sh')"
proof -
  define stamped where "stamped = frame\<lparr>wf_pipe_qpc := pt_qpc tu 2\<rparr>"
  define sh1 where "sh1 = pt_moves tu 3 sh"
  have up: "pw_generation w \<le> px_midi_generation sh1"
    using ok(3) pipe_move(1) [OF tu, of sh 3] by (simp add: sh1_def)
  consider (old) "wf_generation frame < pw_generation w"
    | (new) "\<not> wf_generation frame < pw_generation w"
        "wf_generation frame > pw_generation w \<or> px_midi_generation sh1 \<noteq> pw_generation w"
    | (same) "wf_generation frame = pw_generation w" "px_midi_generation sh1 = pw_generation w" by fastforce
  then show ?thesis
  proof cases
    case old
    then have "w' = give_up stamped w" "sh' = sh"
      using step by (simp_all add: pipe_frame_def stamped_def)
    then show ?thesis
      using give_up_ok [OF ok(1), of stamped] ok old by (auto simp: pipe_inv_def writer_ok_def stamped_def)
  next
    case new
    then have "w' = w\<lparr>pw_saved := Some stamped\<rparr>" "sh' = sh1"
      using step by (auto simp: pipe_frame_def stamped_def sh1_def Let_def)
    then show ?thesis using ok up by (auto simp: pipe_inv_def writer_ok_def)
  next
    case same
    obtain w1 batch sh2 where fill: "fill_batch tu 255 w [stamped] sh1 = (w1, batch, sh2)"
      by (metis prod_cases3)
    then have wrote: "write_batch tu batch w1 sh2 = (loops, w', sh')"
      using step same by (simp add: pipe_frame_def stamped_def sh1_def Let_def)
    have "\<forall>f \<in> set [stamped]. wf_generation f = pw_generation w" using same by (simp add: stamped_def)
    from fill_batch_ok [OF fill tu ok(1,2) up this] show ?thesis
      by (intro write_batch_ok [OF wrote tu]) blast+
  qed
qed

lemma pipe_select_ok:
  assumes step: "pipe_select tu w sh = Some (loops, w', sh')" and tu: "pipe_moves_ok tu"
    and ok: "writer_ok w" "clean w" "pw_generation w \<le> px_midi_generation sh"
  shows "pipe_log_ok (pw_log w') \<and> (loops \<longrightarrow> pipe_inv w' sh')"
proof -
  consider (notified) "pt_notified tu" | (saved) frame where "\<not> pt_notified tu" "pw_saved w = Some frame"
    | (queue) "\<not> pt_notified tu" "pw_saved w = None" by (cases "pw_saved w") auto
  then show ?thesis
  proof cases
    case notified
    then have "w' = w" "sh' = sh" using step by (simp_all add: pipe_select_def)
    then show ?thesis using ok by (simp add: pipe_inv_def writer_ok_def)
  next
    case saved
    then have "pipe_frame tu frame (w\<lparr>pw_saved := None\<rparr>) sh = (loops, w', sh')"
      using step by (simp add: pipe_select_def)
    from pipe_frame_ok [OF this tu] show ?thesis using ok by simp
  next
    case queue
    define sh0 where "sh0 = pt_moves tu 262 sh"
    obtain r w1 sh1 where t: "take_frame tu 1 w sh0 = (r, w1, sh1)" by (metis prod_cases3)
    obtain taken where w1: "w1 = w\<lparr>pw_taken := taken\<rparr>" using take_frame_ok(1) [OF t] by blast
    have up: "pw_generation w1 \<le> px_midi_generation sh1"
      using take_frame_ok(2) [OF t] ok(3) pipe_move(1) [OF tu, of sh 262] by (simp add: w1 sh0_def)
    show ?thesis
    proof (cases r)
      case None
      then show ?thesis
        using step queue t ok by (auto simp: pipe_select_def sh0_def w1 writer_ok_def split: if_splits)
    next
      case (Some frame)
      then have "pipe_frame tu frame w1 sh1 = (loops, w', sh')"
        using step queue t by (simp add: pipe_select_def sh0_def)
      from pipe_frame_ok [OF this tu] show ?thesis using ok up by (simp add: w1)
    qed
  qed
qed

lemma pipe_turns_ok:
  assumes "pipe_inv w sh" and "list_all pipe_moves_ok turns" and "pipe_turns turns w sh = (loops, w', sh')"
  shows "pipe_log_ok (pw_log w')"
  using assms
proof (induction turns arbitrary: w sh)
  case Nil
  then show ?case by (simp add: pipe_inv_def writer_ok_def)
next
  case (Cons tu tus)
  have tu: "pipe_moves_ok tu" using Cons.prems(2) by simp
  obtain l1 w1 sh1 where r: "pipe_reset tu w sh = (l1, w1, sh1)" by (metis prod_cases3)
  note reset = pipe_reset_ok [OF Cons.prems(1) tu r]
  show ?case
  proof (cases l1)
    case False
    then show ?thesis using Cons.prems(3) r reset(1) by simp
  next
    case l1: True
    then have ok: "writer_ok w1" "clean w1" "pw_generation w1 \<le> px_midi_generation sh1" using reset(2) by blast+
    show ?thesis
    proof (cases "pipe_select tu w1 sh1")
      case None
      then show ?thesis using Cons.prems(3) r l1 reset(1) by simp
    next
      case (Some res)
      obtain l2 w2 sh2 where res: "res = (l2, w2, sh2)" by (metis prod_cases3)
      note sel = pipe_select_ok [OF Some [unfolded res] tu ok]
      show ?thesis
      proof (cases l2)
        case True
        then show ?thesis using Cons.prems(2,3) r l1 Some res sel by (intro Cons.IH [of w2 sh2]) simp_all
      next
        case False
        then show ?thesis using Cons.prems(3) r l1 Some res sel by simp
      qed
    qed
  qed
qed

section \<open>Every frame is accounted for\<close>

abbreviation unstamped :: "midi_wire_frame \<Rightarrow> midi_wire_frame" where
  "unstamped f \<equiv> f\<lparr>wf_pipe_qpc := 0\<rparr>"

definition sent_frames :: "pipe_event list \<Rightarrow> midi_wire_frame list" where
  "sent_frames log = concat (map (\<lambda>e. case e of Pipe_frames fs _ \<Rightarrow> fs | _ \<Rightarrow> []) log)"

definition lost_frames :: "pipe_event list \<Rightarrow> midi_wire_frame list" where
  "lost_frames log = concat (map (\<lambda>e. case e of Pipe_given_up f \<Rightarrow> [f] | _ \<Rightarrow> []) log)"

lemma frames_of_log [simp]:
  "sent_frames [] = []" "lost_frames [] = []"
  "sent_frames (log @ [e]) = sent_frames log @ (case e of Pipe_frames fs _ \<Rightarrow> fs | _ \<Rightarrow> [])"
  "lost_frames (log @ [e]) = lost_frames log @ (case e of Pipe_given_up f \<Rightarrow> [f] | _ \<Rightarrow> [])"
  by (simp_all add: sent_frames_def lost_frames_def)

text \<open>\<open>fs\<close> are the frames the writer holds: the batch, then the frame put aside.\<close>

definition accounts :: "pipe_writer \<Rightarrow> midi_wire_frame list \<Rightarrow> bool" where
  "accounts w fs \<longleftrightarrow>
     mset (map unstamped (pw_taken w)) = mset (map unstamped (sent_frames (pw_log w) @ lost_frames (pw_log w) @ fs))
     \<and> subseq (map unstamped (sent_frames (pw_log w) @ fs)) (map unstamped (pw_taken w))"

abbreviation "saved_frames w \<equiv> (case pw_saved w of None \<Rightarrow> [] | Some f \<Rightarrow> [f])"

lemma accounts_fields [simp]:
  "accounts (w\<lparr>pw_saved := s\<rparr>) fs = accounts w fs" "accounts (w\<lparr>pw_generation := g\<rparr>) fs = accounts w fs"
  "accounts (log_pipe (Pipe_reset g r ok) w) fs = accounts w fs"
  by (simp_all add: accounts_def)

lemma accounts_frames_written:
  "accounts (log_pipe (Pipe_frames batch ok) w) fs = accounts w (batch @ fs)"
  by (simp add: accounts_def union_ac)

lemma accounts_stamp: "accounts w (fs @ f\<lparr>wf_pipe_qpc := q\<rparr> # gs) = accounts w (fs @ f # gs)"
  by (simp add: accounts_def)

lemma subseq_append_drop: "subseq (xs @ ys) (xs @ x # ys)"
  by (induction xs) auto

lemma subseq_snoc: "subseq xs ys \<Longrightarrow> subseq (xs @ [x]) (ys @ [x])"
  by (rule list_emb_append_mono) simp_all

lemma accounts_given_up:
  assumes "accounts w (fs @ f # gs)"
  shows "accounts (give_up f w) (fs @ gs)"
proof -
  have "subseq (map unstamped (sent_frames (pw_log w) @ fs @ gs)) (map unstamped (sent_frames (pw_log w) @ fs @ f # gs))"
    using subseq_append_drop [of "map unstamped (sent_frames (pw_log w) @ fs)"] by simp
  then show ?thesis
    using assms subseq_order.trans unfolding accounts_def give_up_def
    by (auto simp: union_ac)
qed

lemma accounts_fold_given_up: "accounts w (fs @ gs) \<Longrightarrow> accounts (fold give_up fs w) gs"
proof (induction fs arbitrary: w)
  case (Cons f fs)
  then show ?case using accounts_given_up [of w "[]" f "fs @ gs"] by simp
qed simp

lemma take_frame_accounts:
  assumes "take_frame tu n w sh = (r, w', sh')" and "accounts w fs"
  shows "accounts w' (fs @ (case r of None \<Rightarrow> [] | Some f \<Rightarrow> [f]))" and "pw_saved w' = pw_saved w"
    and "pw_generation w' = pw_generation w"
proof -
  have "r = None \<and> w' = w \<or> (\<exists>f. r = Some f \<and> w' = w\<lparr>pw_taken := pw_taken w @ [f]\<rparr>)"
    using assms(1) by (auto simp: take_frame_def split: prod.splits option.splits)
  then show "accounts w' (fs @ (case r of None \<Rightarrow> [] | Some f \<Rightarrow> [f]))" "pw_saved w' = pw_saved w"
    "pw_generation w' = pw_generation w"
    using assms(2) by (auto simp: accounts_def subseq_snoc union_ac simp flip: append_assoc)
qed

lemma give_up_fields [simp]:
  "pw_saved (give_up f w) = pw_saved w" "pw_generation (give_up f w) = pw_generation w"
  by (simp_all add: give_up_def)

lemma fold_give_up_fields [simp]: "pw_saved (fold give_up fs w) = pw_saved w"
  by (induction fs arbitrary: w) simp_all

lemma fill_batch_accounts:
  assumes "fill_batch tu k w batch sh = (w', batch', sh')" and "accounts w batch" and "pw_saved w = None"
  shows "accounts w' (batch' @ saved_frames w')"
  using assms
proof (induction k arbitrary: w batch sh)
  case (Suc k)
  show ?case
  proof (cases "px_emergency (pt_moves tu (6 + k) sh)")
    case True
    then show ?thesis using Suc.prems by (auto simp: Let_def)
  next
    case False
    obtain r w1 sh3 where t: "take_frame tu (6 + k) w (pt_moves tu (263 + k) (pt_moves tu (6 + k) sh)) = (r, w1, sh3)"
      by (metis prod_cases3)
    note taken = take_frame_accounts [OF t Suc.prems(2)]
    show ?thesis
    proof (cases r)
      case None
      then show ?thesis using Suc.prems t taken False by (auto simp: Let_def)
    next
      case (Some frame)
      then have acct: "accounts w1 (batch @ [frame])" using taken(1) by simp
      consider (old) "wf_generation frame < pw_generation w1" | (new) "\<not> wf_generation frame < pw_generation w1"
          "wf_generation frame > pw_generation w1"
        | (same) "\<not> wf_generation frame < pw_generation w1" "\<not> wf_generation frame > pw_generation w1" by blast
      then show ?thesis
      proof cases
        case old
        have "accounts (give_up frame w1) batch" using accounts_given_up [of w1 batch frame "[]"] acct by simp
        then show ?thesis
          by (rule Suc.IH [rotated]) (use Suc.prems t taken False Some old in \<open>simp_all add: Let_def\<close>)
      next
        case new
        then have "w' = w1\<lparr>pw_saved := Some frame\<rparr>" "batch' = batch"
          using Suc.prems(1) t False Some by (simp_all add: Let_def)
        then show ?thesis using acct by simp
      next
        case same
        have "accounts w1 (batch @ [frame\<lparr>wf_pipe_qpc := pt_qpc tu (6 + k)\<rparr>])"
          using accounts_stamp [where f = frame and gs = "[]"] acct by simp
        then show ?thesis
          by (rule Suc.IH [rotated]) (use Suc.prems t taken False Some same in \<open>simp_all add: Let_def\<close>)
      qed
    qed
  qed
qed simp

lemma write_batch_accounts:
  assumes "write_batch tu batch w sh = (loops, w', sh')" and "accounts w (batch @ saved_frames w)"
  shows "accounts w' (saved_frames w')"
proof -
  have "w' = fold give_up batch w \<or> w' = log_pipe (Pipe_frames batch (pt_write_ok tu)) w"
    using assms(1) by (auto simp: write_batch_def Let_def split: if_splits)
  then show ?thesis
    using assms(2) accounts_fold_given_up [OF assms(2)] by (auto simp: accounts_frames_written)
qed

lemma pipe_frame_accounts:
  assumes step: "pipe_frame tu frame w sh = (loops, w', sh')" and acct: "accounts w [frame]" and none: "pw_saved w = None"
  shows "accounts w' (saved_frames w')"
proof -
  define stamped where "stamped = frame\<lparr>wf_pipe_qpc := pt_qpc tu 2\<rparr>"
  have held: "accounts w [stamped]"
    using acct accounts_stamp [of w "[]" _ frame "[]"] by (simp add: stamped_def)
  define sh1 where "sh1 = pt_moves tu 3 sh"
  consider (old) "wf_generation frame < pw_generation w"
    | (new) "\<not> wf_generation frame < pw_generation w"
        "wf_generation frame > pw_generation w \<or> px_midi_generation sh1 \<noteq> pw_generation w"
    | (same) "\<not> wf_generation frame < pw_generation w" "\<not> wf_generation frame > pw_generation w"
        "px_midi_generation sh1 = pw_generation w" by blast
  then show ?thesis
  proof cases
    case old
    then have "w' = give_up stamped w" using step by (simp add: pipe_frame_def stamped_def)
    then show ?thesis using accounts_given_up [of w "[]" stamped "[]"] held none by simp
  next
    case new
    then have "w' = w\<lparr>pw_saved := Some stamped\<rparr>"
      using step by (auto simp: pipe_frame_def stamped_def sh1_def Let_def)
    then show ?thesis using held by simp
  next
    case same
    obtain w1 batch sh2 where fill: "fill_batch tu 255 w [stamped] sh1 = (w1, batch, sh2)"
      by (metis prod_cases3)
    then have "write_batch tu batch w1 sh2 = (loops, w', sh')"
      using step same by (simp add: pipe_frame_def stamped_def sh1_def Let_def)
    then show ?thesis by (rule write_batch_accounts) (rule fill_batch_accounts [OF fill held none])
  qed
qed

lemma pipe_reset_accounts:
  assumes "pipe_reset tu w sh = (loops, w', sh')"
  shows "accounts w' fs = accounts w fs" and "pw_saved w' = pw_saved w"
  using assms by (auto simp: pipe_reset_def Let_def split: if_splits prod.splits)

lemma pipe_select_accounts:
  assumes step: "pipe_select tu w sh = Some (loops, w', sh')" and acct: "accounts w (saved_frames w)"
  shows "accounts w' (saved_frames w')"
proof (cases "pt_notified tu")
  case True
  then show ?thesis using step acct by (simp add: pipe_select_def)
next
  case False
  show ?thesis
  proof (cases "pw_saved w")
    case (Some frame)
    then have "pipe_frame tu frame (w\<lparr>pw_saved := None\<rparr>) sh = (loops, w', sh')"
      using step False by (simp add: pipe_select_def)
    then show ?thesis by (rule pipe_frame_accounts) (use acct Some in simp_all)
  next
    case None
    obtain r w1 sh1 where t: "take_frame tu 1 w (pt_moves tu 262 sh) = (r, w1, sh1)" by (metis prod_cases3)
    have "accounts w []" using acct None by simp
    note taken = take_frame_accounts [OF t this]
    show ?thesis
    proof (cases r)
      case None': None
      then show ?thesis using step False None t taken by (auto simp: pipe_select_def split: if_splits)
    next
      case (Some frame)
      then have "pipe_frame tu frame w1 sh1 = (loops, w', sh')"
        using step False None t by (simp add: pipe_select_def)
      then show ?thesis by (rule pipe_frame_accounts) (use taken None Some in simp_all)
    qed
  qed
qed

lemma pipe_turns_accounts:
  assumes "accounts w (saved_frames w)" and "pipe_turns turns w sh = (loops, w', sh')"
  shows "accounts w' (saved_frames w')"
  using assms
proof (induction turns arbitrary: w sh)
  case (Cons tu tus)
  obtain l1 w1 sh1 where r: "pipe_reset tu w sh = (l1, w1, sh1)" by (metis prod_cases3)
  have w1: "accounts w1 (saved_frames w1)" using Cons.prems(1) pipe_reset_accounts [OF r] by simp
  show ?case
  proof (cases "l1 \<and> (\<exists>res. pipe_select tu w1 sh1 = Some res)")
    case False
    then show ?thesis using Cons.prems(2) r w1 by (cases l1; cases "pipe_select tu w1 sh1") auto
  next
    case True
    then obtain l2 w2 sh2 where sel: "pipe_select tu w1 sh1 = Some (l2, w2, sh2)" by (metis prod_cases3)
    note w2 = pipe_select_accounts [OF sel w1]
    show ?thesis
    proof (cases l2)
      case l2: True
      show ?thesis by (rule Cons.IH [OF w2, of sh2]) (use Cons.prems(2) r True sel l2 in simp)
    next
      case False
      then show ?thesis using Cons.prems(2) r True sel w2 by simp
    qed
  qed
qed simp

lemma midi_writer_log:
  assumes "midi_writer lifecycle turns sh = (loops, w, sh')"
  obtains sh1 where "pipe_turns turns writer_start sh = (loops, w, sh1)"
    and "px_transport_failed sh' = (px_transport_failed sh1 \<or> \<not> loops \<and> lifecycle = px_lifecycle sh1)"
proof -
  obtain l w1 sh1 where "pipe_turns turns writer_start sh = (l, w1, sh1)" by (metis prod_cases3)
  then show ?thesis using assms that by (auto simp: midi_writer_def split: bool.splits if_splits)
qed

lemma pipe_accounts_for_frames:
  assumes "midi_writer lifecycle turns sh = (loops, w, sh')"
  shows "mset (map unstamped (pw_taken w))
      = mset (map unstamped (sent_frames (pw_log w) @ lost_frames (pw_log w) @ saved_frames w))
    \<and> subseq (map unstamped (sent_frames (pw_log w))) (map unstamped (pw_taken w))"
proof -
  from assms obtain sh1 where turns: "pipe_turns turns writer_start sh = (loops, w, sh1)"
    by (rule midi_writer_log)
  have "accounts writer_start (saved_frames writer_start)" by (simp add: accounts_def writer_start_def)
  from pipe_turns_accounts [OF this turns]
  have "accounts w (saved_frames w)" .
  then have mset: "mset (map unstamped (pw_taken w))
      = mset (map unstamped (sent_frames (pw_log w) @ lost_frames (pw_log w) @ saved_frames w))"
    and sub: "subseq (map unstamped (sent_frames (pw_log w)) @ map unstamped (saved_frames w)) (map unstamped (pw_taken w))"
    unfolding accounts_def by simp_all
  have "subseq (map unstamped (sent_frames (pw_log w))) (map unstamped (pw_taken w))"
    by (rule subseq_order.trans [OF list_emb_prefix [OF subseq_order.refl] sub])
  with mset show ?thesis by blast
qed

section \<open>The process at the other end\<close>

text \<open>\<open>run_midi_channel\<close>: the engine is a parameter, as the two operations the loop calls.\<close>

record 'e midi_engine =
  me_emergency :: "'e \<Rightarrow> 'e"
  me_deliver :: "midi_wire_frame \<Rightarrow> 'e \<Rightarrow> 'e"

lemma read_midi_frame_shorter:
  "read_midi_frame stream = Inr (frame, stream') \<Longrightarrow> length stream' < length stream"
  by (auto simp: read_midi_frame_def read_exact_def wire_consts split: if_splits sum.splits)

function run_midi_channel :: "'e midi_engine \<Rightarrow> bytes \<Rightarrow> 'e \<Rightarrow> io_error \<times> 'e" where
  "run_midi_channel engine stream e =
     (case read_midi_frame stream of
        Inl err \<Rightarrow> (err, e)
      | Inr (frame, stream') \<Rightarrow>
          if wire_bytes frame = [0xFF] then run_midi_channel engine stream' (me_emergency engine e)
          else run_midi_channel engine stream' (me_deliver engine frame e))"
  by pat_completeness auto

termination by (relation "measure (\<lambda>(_, stream, _). length stream)") (auto dest: read_midi_frame_shorter)

declare run_midi_channel.simps [simp del]

text \<open>
  What a history puts on the pipe, and what the engine is then told. A write that fails or is given up after its
  half second ends the writer, and may have put a part of its bytes on the pipe: any number of them, \<open>part\<close>.
  Only the last event of a history can have failed.
\<close>

definition on_pipe :: "nat \<Rightarrow> bool \<Rightarrow> bytes \<Rightarrow> bytes" where
  "on_pipe part ok bs = (if ok then bs else List.take part bs)"

definition pipe_bytes :: "nat \<Rightarrow> pipe_event list \<Rightarrow> bytes" where
  "pipe_bytes part log = concat (map (\<lambda>e. case e of
     Pipe_reset _ f ok \<Rightarrow> on_pipe part ok (encode f)
   | Pipe_frames fs ok \<Rightarrow> on_pipe part ok (concat (map encode fs))
   | Pipe_given_up _ \<Rightarrow> []) log)"

definition hear :: "'e midi_engine \<Rightarrow> midi_wire_frame \<Rightarrow> 'e \<Rightarrow> 'e" where
  "hear engine f e =
     (if wire_bytes f = [0xFF] then me_emergency engine e else me_deliver engine (f\<lparr>wf_generation := 0\<rparr>) e)"

text \<open>Of a failed write the engine is told the frames that reached the pipe whole.\<close>

definition hear_event :: "nat \<Rightarrow> 'e midi_engine \<Rightarrow> pipe_event \<Rightarrow> 'e \<Rightarrow> 'e" where
  "hear_event part engine event e =
     (case event of
        Pipe_reset _ _ ok \<Rightarrow> if ok \<or> MIDI_FRAME_BYTES \<le> part then me_emergency engine e else e
      | Pipe_frames fs ok \<Rightarrow> fold (hear engine) (if ok then fs else List.take (part div MIDI_FRAME_BYTES) fs) e
      | Pipe_given_up _ \<Rightarrow> e)"

lemma run_midi_channel_frame:
  assumes "wire_ok f"
  shows "run_midi_channel engine (encode f @ rest) e = run_midi_channel engine rest (hear engine f e)"
  by (subst run_midi_channel.simps)
    (simp add: read_midi_frame_append [OF assms] hear_def wire_bytes_def)

lemma run_midi_channel_frames:
  "\<forall>f \<in> set fs. wire_ok f \<Longrightarrow>
     run_midi_channel engine (concat (map encode fs) @ rest) e = run_midi_channel engine rest (fold (hear engine) fs e)"
  by (induction fs arbitrary: e) (simp_all add: run_midi_channel_frame)

lemma run_midi_channel_end:
  assumes "length stream < MIDI_FRAME_BYTES"
  shows "run_midi_channel engine stream e = (IoError UnexpectedEof ''early eof'', e)"
  using assms by (subst run_midi_channel.simps) (simp add: read_midi_frame_def read_exact_def)

lemma run_midi_channel_torn:
  assumes "\<forall>f \<in> set fs. wire_ok f"
  shows "run_midi_channel engine (List.take part (concat (map encode fs))) e
    = (IoError UnexpectedEof ''early eof'', fold (hear engine) (List.take (part div MIDI_FRAME_BYTES) fs) e)"
  using assms
proof (induction fs arbitrary: part e)
  case Nil
  then show ?case by (simp add: run_midi_channel_end wire_consts)
next
  case (Cons f fs)
  then have f: "wire_ok f" and len: "length (encode f) = MIDI_FRAME_BYTES" by (simp_all add: length_encode)
  show ?case
  proof (cases "part < MIDI_FRAME_BYTES")
    case True
    then show ?thesis by (simp add: run_midi_channel_end)
  next
    case False
    then have "part div MIDI_FRAME_BYTES = Suc ((part - MIDI_FRAME_BYTES) div MIDI_FRAME_BYTES)"
      by (intro le_div_geq) (simp_all add: wire_consts)
    moreover have "List.take part (encode f) = encode f" using False len by simp
    ultimately show ?thesis
      using Cons.IH [of "part - MIDI_FRAME_BYTES"] Cons.prems len by (simp add: run_midi_channel_frame [OF f])
  qed
qed

lemma run_midi_channel_log:
  assumes "\<forall>event \<in> set log. case event of
      Pipe_reset _ f _ \<Rightarrow> wire_ok f \<and> wire_bytes f = [0xFF]
    | Pipe_frames fs _ \<Rightarrow> \<forall>f \<in> set fs. wire_ok f
    | Pipe_given_up _ \<Rightarrow> True"
    and "list_all written (butlast log)"
  shows "run_midi_channel engine (pipe_bytes part log) e
    = (IoError UnexpectedEof ''early eof'', fold (hear_event part engine) log e)"
  using assms
proof (induction log arbitrary: e)
  case Nil
  then show ?case by (simp add: pipe_bytes_def run_midi_channel_end wire_consts)
next
  case (Cons event log)
  have split: "pipe_bytes part (event # log) = pipe_bytes part [event] @ pipe_bytes part log"
    by (simp add: pipe_bytes_def)
  show ?case
  proof (cases "written event")
    case True
    then have "run_midi_channel engine (pipe_bytes part [event] @ pipe_bytes part log) e
        = run_midi_channel engine (pipe_bytes part log) (hear_event part engine event e)"
      using Cons.prems
      by (cases event)
        (simp_all add: pipe_bytes_def on_pipe_def hear_event_def run_midi_channel_frame run_midi_channel_frames hear_def)
    moreover have "list_all written (butlast log)" using Cons.prems(2) by (cases log) simp_all
    ultimately show ?thesis unfolding split using Cons by simp
  next
    case False
    then have "log = []" using Cons.prems(2) by (cases log) simp_all
    then show ?thesis
    proof (cases event)
      case (Pipe_reset g f ok)
      have "run_midi_channel engine (List.take part (encode f)) e
          = (IoError UnexpectedEof ''early eof'', if MIDI_FRAME_BYTES \<le> part then me_emergency engine e else e)"
        using run_midi_channel_torn [of "[f]" engine part e] Cons.prems(1) Pipe_reset
        by (auto simp: hear_def div_eq_0_iff take_Cons' wire_consts)
      then show ?thesis using Pipe_reset False \<open>log = []\<close> by (simp add: pipe_bytes_def on_pipe_def hear_event_def)
    next
      case (Pipe_frames fs ok)
      then show ?thesis
        using run_midi_channel_torn [of fs] Cons.prems(1) False \<open>log = []\<close>
        by (simp add: pipe_bytes_def on_pipe_def hear_event_def)
    next
      case (Pipe_given_up f)
      then show ?thesis using False by simp
    qed
  qed
qed

lemma sent_frames_set: "set (sent_frames log) = (\<Union>(fs, ok) \<in> {(fs, ok). Pipe_frames fs ok \<in> set log}. set fs)"
  by (induction log rule: rev_induct) (auto split: pipe_event.splits)

lemma wire_ok_fields: "wire_ok (f\<lparr>wf_pipe_qpc := q\<rparr>) = wire_ok f" "wire_ok (f\<lparr>wf_generation := g\<rparr>) = wire_ok f"
  by (simp_all add: wire_ok_def wire_bytes_def)

text \<open>
  C21: The plugin's process hears what the writer wrote: when the frames taken from the queue were made by
  \<open>MidiWireFrame::new\<close>, reading the bytes on the pipe tells the engine of every reset and every frame that was
  written, in order, and of a last write that failed or timed out after any number of bytes, the frames that reached the pipe
  whole, from the first on; it ends with the end of the stream, also in the middle of a frame. Of the frames taken from the
  queue, none is lost without a trace or duplicated, and those given to a write keep their order.
\<close>

theorem worker_hears_the_pipe:
  assumes "list_all pipe_moves_ok turns" and "midi_writer lifecycle turns sh = (loops, w, sh')"
    and valid: "\<forall>f \<in> set (pw_taken w). wire_ok f"
  shows "run_midi_channel engine (pipe_bytes part (pw_log w)) e
      = (IoError UnexpectedEof ''early eof'', fold (hear_event part engine) (pw_log w) e)
    \<and> list_all written (butlast (pw_log w))
    \<and> mset (map unstamped (pw_taken w))
      = mset (map unstamped (sent_frames (pw_log w) @ lost_frames (pw_log w) @ saved_frames w))
    \<and> subseq (map unstamped (sent_frames (pw_log w))) (map unstamped (pw_taken w))"
proof -
  note accounted = pipe_accounts_for_frames [OF assms(2)]
  from assms(2) obtain sh1 where turns: "pipe_turns turns writer_start sh = (loops, w, sh1)"
    by (rule midi_writer_log)
  have log: "pipe_log_ok (pw_log w)" by (rule pipe_turns_ok [OF writer_start_ok assms(1) turns])
  have sent: "wire_ok f" if "f \<in> set (sent_frames (pw_log w))" for f
  proof -
    have "set (map unstamped (pw_taken w))
        = set (map unstamped (sent_frames (pw_log w) @ lost_frames (pw_log w) @ saved_frames w))"
      by (rule mset_eq_setD [OF accounted [THEN conjunct1]])
    then have "unstamped f \<in> set (map unstamped (pw_taken w))" using that by simp
    then obtain g where "g \<in> set (pw_taken w)" "unstamped f = unstamped g" by auto
    then have "wire_ok (unstamped f)" using valid by (simp add: wire_ok_fields)
    then show ?thesis by (simp only: wire_ok_fields)
  qed
  have "case event of Pipe_reset _ f _ \<Rightarrow> wire_ok f \<and> wire_bytes f = [0xFF]
      | Pipe_frames fs _ \<Rightarrow> \<forall>f \<in> set fs. wire_ok f | Pipe_given_up _ \<Rightarrow> True"
    if event: "event \<in> set (pw_log w)" for event
  proof -
    obtain pre post where "pw_log w = pre @ event # post" using split_list [OF event] by blast
    then have "event_ok pre event" using log unfolding pipe_log_ok_def by blast
    then show ?thesis
      using event sent by (cases event) (auto simp: event_ok_def sent_frames_set)
  qed
  moreover have "list_all written (butlast (pw_log w))"
    using log by (cases "pw_log w" rule: rev_cases) (auto simp: event_ok_def)
  ultimately have "run_midi_channel engine (pipe_bytes part (pw_log w)) e
      = (IoError UnexpectedEof ''early eof'', fold (hear_event part engine) (pw_log w) e)"
    by (intro run_midi_channel_log ballI) blast+
  with accounted \<open>list_all written (butlast (pw_log w))\<close> show ?thesis by blast
qed

text \<open>
  C20: The plugin never plays across a reset, whatever the threads that send and ask for resets do meanwhile:
  two batches on the pipe with no reset between them hold frames of the same generation and the first of them
  was written completely; and a frame that was given up is older than every frame written before the next
  reset, so that a release is never missing without a reset.
\<close>

theorem pipe_resets_separate:
  assumes "list_all pipe_moves_ok turns" and "midi_writer lifecycle turns sh = (loops, w, sh')"
  shows "(\<forall>pre fs ok mid gs ok' post.
        pw_log w = pre @ Pipe_frames fs ok # mid @ Pipe_frames gs ok' # post \<and> (\<forall>e \<in> set mid. \<not> pipe_resets e)
          \<longrightarrow> ok \<and> (\<forall>f \<in> set fs. \<forall>g \<in> set gs. wf_generation f = wf_generation g))
    \<and> (\<forall>pre f mid gs ok post.
        pw_log w = pre @ Pipe_given_up f # mid @ Pipe_frames gs ok # post \<and> (\<forall>e \<in> set mid. \<not> pipe_resets e)
          \<longrightarrow> (\<forall>g \<in> set gs. wf_generation f < wf_generation g))"
proof -
  from assms(2) obtain sh1 where turns: "pipe_turns turns writer_start sh = (loops, w, sh1)"
    by (rule midi_writer_log)
  have log: "pipe_log_ok (pw_log w)" by (rule pipe_turns_ok [OF writer_start_ok assms(1) turns])
  have event: "event_ok pre e" if "pw_log w = pre @ e # post" for pre e post
    using log that unfolding pipe_log_ok_def by blast
  have "ok \<and> (\<forall>f \<in> set fs. \<forall>g \<in> set gs. wf_generation f = wf_generation g)"
    if split: "pw_log w = pre @ Pipe_frames fs ok # mid @ Pipe_frames gs ok' # post" "\<forall>e \<in> set mid. \<not> pipe_resets e"
    for pre fs ok mid gs ok' post
  proof -
    have first: "event_ok pre (Pipe_frames fs ok)" by (rule event [OF split(1)])
    have second: "event_ok ((pre @ [Pipe_frames fs ok]) @ mid) (Pipe_frames gs ok')"
      by (rule event [of _ _ post]) (simp add: split(1))
    from log_state_without_reset [OF split(2), of "pre @ [Pipe_frames fs ok]"] first second
    show ?thesis by (simp add: event_ok_def)
  qed
  moreover have "\<forall>g \<in> set gs. wf_generation f < wf_generation g"
    if split: "pw_log w = pre @ Pipe_given_up f # mid @ Pipe_frames gs ok # post" "\<forall>e \<in> set mid. \<not> pipe_resets e"
    for pre f mid gs ok post
  proof -
    have "event_ok ((pre @ [Pipe_given_up f]) @ mid) (Pipe_frames gs ok)"
      by (rule event [of _ _ post]) (simp add: split(1))
    with log_state_without_reset [OF split(2), of "pre @ [Pipe_given_up f]"]
    show ?thesis by (auto simp: event_ok_def)
  qed
  ultimately show ?thesis by blast
qed

text \<open>A run with two generations: a note, a reset asked for, and the note that was queued after it.\<close>

definition example_wire :: "u64 \<Rightarrow> u64 \<Rightarrow> bytes \<Rightarrow> midi_wire_frame" where
  "example_wire generation sequence data =
     \<lparr>wf_generation = generation, wf_pipe_qpc = 0, wf_sequence = sequence, wf_monotonic_qpc = 0,
      wf_len = 3, wf_data = data\<rparr>"

definition example_pipe :: pipe_shared where
  "example_pipe =
     \<lparr>px_midi_generation = 0, px_emergency = False, px_midi_sequence = 3, px_midi_drops = 0, px_route = True,
      px_queue = (async_channel ''vst'' 16)\<lparr>aq_entries :=
        [\<lparr>queued_qpc = 0, entry_value = example_wire 0 1 [0x90, 60, 100], entry_permit = False\<rparr>,
         \<lparr>queued_qpc = 0, entry_value = example_wire 1 2 [0x90, 62, 100], entry_permit = False\<rparr>]\<rparr>,
      px_lifecycle = 1, px_transport_failed = False\<rparr>"

definition quiet_turn :: pipe_turn where
  "quiet_turn = \<lparr>pt_moves = \<lambda>n sh. sh, pt_reset_ok = True, pt_write_ok = True, pt_notified = False,
     pt_senders_gone = False, pt_qpc = \<lambda>n. 7, pt_frequency = 1000\<rparr>"

definition reset_turn :: pipe_turn where
  "reset_turn = quiet_turn\<lparr>pt_moves :=
     \<lambda>n sh. if n = 0 \<and> px_midi_generation sh < 2 ^ 63 then request_emergency_reset sh else sh\<rparr>"

lemma example_turns_ok: "list_all pipe_moves_ok [quiet_turn, reset_turn]"
proof -
  have "px_midi_generation sh \<le> px_midi_generation sh + 1" if "px_midi_generation sh < 2 ^ 63" for sh
    using that by (simp add: word_less_nat_alt word_le_nat_alt unat_word_ariths)
  then show ?thesis
    by (auto simp: pipe_moves_ok_def quiet_turn_def reset_turn_def request_emergency_reset_def)
qed

lemma example_run:
  "midi_writer 1 [quiet_turn, reset_turn] example_pipe =
     (True, fst (snd (midi_writer 1 [quiet_turn, reset_turn] example_pipe)),
        snd (snd (midi_writer 1 [quiet_turn, reset_turn] example_pipe)))"
  "pw_log (fst (snd (midi_writer 1 [quiet_turn, reset_turn] example_pipe))) =
     [Pipe_frames [example_wire 0 1 [0x90, 60, 100]\<lparr>wf_pipe_qpc := 7\<rparr>] True,
      Pipe_reset 1 \<lparr>wf_generation = 0, wf_pipe_qpc = 0, wf_sequence = 3, wf_monotonic_qpc = 7,
        wf_len = 1, wf_data = [0xFF, 0, 0]\<rparr> True,
      Pipe_frames [example_wire 1 2 [0x90, 62, 100]\<lparr>wf_pipe_qpc := 7\<rparr>] True]"
  "pw_taken (fst (snd (midi_writer 1 [quiet_turn, reset_turn] example_pipe))) =
     [example_wire 0 1 [0x90, 60, 100], example_wire 1 2 [0x90, 62, 100]]"
  by code_simp+

text \<open>The two frames are told apart by the reset between them.\<close>

lemma example_valid: "\<forall>f \<in> set (pw_taken (fst (snd (midi_writer 1 [quiet_turn, reset_turn] example_pipe)))). wire_ok f"
  unfolding example_run(3) by code_simp

definition heard_engine :: "midi_wire_frame option list midi_engine" where
  "heard_engine = \<lparr>me_emergency = \<lambda>e. e @ [None], me_deliver = \<lambda>f e. e @ [Some f]\<rparr>"

theorem worker_hears_the_pipe_witness:
  "run_midi_channel heard_engine (pipe_bytes 20 (pw_log (fst (snd (midi_writer 1 [quiet_turn, reset_turn] example_pipe))))) []
    = (IoError UnexpectedEof ''early eof'',
       [Some (\<lparr>wf_generation = 0, wf_pipe_qpc = 7, wf_sequence = 1, wf_monotonic_qpc = 0, wf_len = 3,
          wf_data = [0x90, 60, 100]\<rparr>), None,
        Some (\<lparr>wf_generation = 0, wf_pipe_qpc = 7, wf_sequence = 2, wf_monotonic_qpc = 0, wf_len = 3,
          wf_data = [0x90, 62, 100]\<rparr>)])"
proof -
  have "fold (hear_event 20 heard_engine) (pw_log (fst (snd (midi_writer 1 [quiet_turn, reset_turn] example_pipe)))) []
    = [Some (\<lparr>wf_generation = 0, wf_pipe_qpc = 7, wf_sequence = 1, wf_monotonic_qpc = 0, wf_len = 3,
          wf_data = [0x90, 60, 100]\<rparr>), None,
        Some (\<lparr>wf_generation = 0, wf_pipe_qpc = 7, wf_sequence = 2, wf_monotonic_qpc = 0, wf_len = 3,
          wf_data = [0x90, 62, 100]\<rparr>)]"
    unfolding example_run(2) by code_simp
  then show ?thesis
    using worker_hears_the_pipe [OF example_turns_ok example_run(1) example_valid, of heard_engine 20 "[]"] by simp
qed

theorem pipe_resets_separate_witness:
  "pipe_resets (pw_log (fst (snd (midi_writer 1 [quiet_turn, reset_turn] example_pipe))) ! 1)"
proof (rule ccontr)
  let ?log = "pw_log (fst (snd (midi_writer 1 [quiet_turn, reset_turn] example_pipe)))"
  assume none: "\<not> pipe_resets (?log ! 1)"
  obtain f g where "wf_generation f = 0" "wf_generation g = 1"
    and log: "?log = [] @ Pipe_frames [f] True # [?log ! 1] @ Pipe_frames [g] True # []"
    unfolding example_run(2) by (force simp: example_wire_def)
  with pipe_resets_separate [OF example_turns_ok example_run(1), THEN conjunct1] none
  have "wf_generation f = wf_generation g" by (metis empty_set list.set_intros(1) list.simps(15) singletonD)
  with \<open>wf_generation f = 0\<close> \<open>wf_generation g = 1\<close> show False by simp
qed

end
