(* ===== verification/Audio_Ingress.thy ===== *)
theory Audio_Ingress
  imports Audio_Midi Frame_Handler Worker_Pipe
begin

text \<open>
  How MIDI enters the audio engine (\<open>MidiIngress\<close> and the MIDI part of \<open>AudioEngine\<close> in
  \<open>audio/engine.rs\<close>): through the ring of the engine of this process, or through the pipe to the plugin
  process. The ring is shared with the audio callback and with other senders; what they do between two
  readings is a function.
\<close>

section \<open>The ring\<close>

text \<open>\<open>ig_locked\<close>: another sender holds the producer; \<open>ig_generation\<close> and \<open>ig_drop_count\<close> are telemetry.\<close>

record midi_ingress =
  ig_ring :: "midi_packet list"
  ig_capacity :: nat
  ig_reserve :: nat
  ig_locked :: bool
  ig_generation :: u64
  ig_drop_count :: u32

definition ingress_new :: "nat \<Rightarrow> u64 \<Rightarrow> midi_ingress" where
  "ingress_new capacity generation =
     \<lparr>ig_ring = [], ig_capacity = capacity, ig_reserve = reserve capacity, ig_locked = False,
      ig_generation = generation, ig_drop_count = 0\<rparr>"

abbreviation ring_slots :: "midi_ingress \<Rightarrow> nat" where
  "ring_slots ing \<equiv> ig_capacity ing - length (ig_ring ing)"

definition try_push :: "midi_packet \<Rightarrow> midi_ingress \<Rightarrow> bool \<times> midi_ingress" where
  "try_push packet ing =
     (if ig_locked ing then (False, ing)
      else if \<not> packet_critical packet \<and> ring_slots ing \<le> ig_reserve ing then (False, ing)
      else if ring_slots ing = 0 then (False, ing)
      else (True, ing\<lparr>ig_ring := ig_ring ing @ [packet]\<rparr>))"

definition ingress_send ::
  "(nat \<Rightarrow> midi_ingress \<Rightarrow> midi_ingress) \<Rightarrow> midi_packet \<Rightarrow> midi_ingress \<Rightarrow> midi_send_outcome \<times> midi_ingress" where
  "ingress_send moves packet ing =
     (let ing = moves 0 ing in
      if mp_generation packet \<noteq> ig_generation ing then (AudioStopped, ing)
      else case try_push packet (moves 1 ing) of
        (True, ing) \<Rightarrow> (Sent, ing)
      | (False, ing) \<Rightarrow>
          let ing = moves 2 ing;
              ing = ing\<lparr>ig_drop_count := ig_drop_count ing + 1\<rparr>
          in if packet_critical packet then
               let ing = moves 3 ing in (CriticalFallbackReset, ing\<lparr>ig_generation := ig_generation ing + 1\<rparr>)
             else (AudioDroppedNonCritical, ing))"

section \<open>The engine's entry\<close>

record engine_midi =
  en_worker_enabled :: bool
  en_worker :: pipe_shared
  en_ingress :: "midi_ingress option"
  en_emergency :: bool
  en_pipe_wait_max_us :: u64

text \<open>The clocks of one call, and what other threads do during it.\<close>

record ingress_env =
  ie_qpc_frequency :: u64
  ie_qpc :: u64
  ie_worker_qpc :: u64
  ie_packet_qpc :: u64
  ie_now_us :: u64
  ie_ring_moves :: "nat \<Rightarrow> midi_ingress \<Rightarrow> midi_ingress"
  ie_pipe_moves :: "pipe_shared \<Rightarrow> pipe_shared"

definition request_emergency_midi_reset :: "engine_midi \<Rightarrow> engine_midi" where
  "request_emergency_midi_reset en =
     (if en_worker_enabled en then en\<lparr>en_worker := request_emergency_reset (en_worker en)\<rparr>
      else case en_ingress en of
        Some ing \<Rightarrow> en\<lparr>en_ingress := Some (ing\<lparr>ig_generation := ig_generation ing + 1\<rparr>)\<rparr>
      | None \<Rightarrow> en\<lparr>en_emergency := True\<rparr>)"

definition send_midi_packet_with_outcome ::
  "ingress_env \<Rightarrow> midi_packet \<Rightarrow> engine_midi \<Rightarrow> midi_send_outcome \<times> engine_midi" where
  "send_midi_packet_with_outcome env packet en =
     (case en_ingress en of
        None \<Rightarrow> (AudioStopped, en)
      | Some ing \<Rightarrow>
          (case ingress_send (ie_ring_moves env) (packet\<lparr>mp_generation := ig_generation ing\<rparr>) ing of
             (outcome, ing) \<Rightarrow> (outcome, en\<lparr>en_ingress := Some ing\<rparr>)))"

definition send_midi_at :: "ingress_env \<Rightarrow> bytes \<Rightarrow> u64 \<Rightarrow> engine_midi \<Rightarrow> midi_send_outcome \<times> engine_midi" where
  "send_midi_at env bytes ingress_qpc en =
     (if en_worker_enabled en then
        (case try_send_midi_at (ie_pipe_moves env) (ie_qpc env) bytes ingress_qpc (en_worker en) of
           (True, worker) \<Rightarrow> (Sent, en\<lparr>en_worker := worker\<rparr>)
         | (False, worker) \<Rightarrow>
             if is_critical_release_message bytes
             then (CriticalFallbackReset, en\<lparr>en_worker := request_emergency_reset worker\<rparr>)
             else (AudioDroppedNonCritical, en\<lparr>en_worker := worker\<rparr>))
      else
        let age_us = qpc_elapsed_us (ie_qpc_frequency env) ingress_qpc (ie_qpc env) in
        case packet_from_bytes (ie_worker_qpc env) (ie_now_us env) (ie_packet_qpc env) bytes 0 of
          None \<Rightarrow> (AudioDroppedNonCritical, en)
        | Some packet \<Rightarrow>
            send_midi_packet_with_outcome env
              (packet\<lparr>mp_timestamp_us := saturating_sub (mp_timestamp_us packet) age_us,
                      mp_ingress_qpc := ingress_qpc\<rparr>) en)"

text \<open>\<open>deliver_midi_wire\<close>: a frame of the pipe, in the plugin process.\<close>

definition deliver_midi_wire :: "ingress_env \<Rightarrow> midi_wire_frame \<Rightarrow> engine_midi \<Rightarrow> engine_midi" where
  "deliver_midi_wire env frame en =
     (let en = (if wf_pipe_qpc frame \<noteq> 0 \<and> en_ingress en \<noteq> None
                then en\<lparr>en_pipe_wait_max_us := max (en_pipe_wait_max_us en)
                       (qpc_elapsed_us (ie_qpc_frequency env) (wf_pipe_qpc frame) (ie_qpc env))\<rparr>
                else en);
          age = qpc_elapsed_us (ie_qpc_frequency env) (wf_monotonic_qpc frame) (ie_qpc env)
      in case packet_from_bytes (ie_worker_qpc env) (ie_now_us env) (ie_packet_qpc env) (wire_bytes frame) age of
           Some packet \<Rightarrow> snd (send_midi_packet_with_outcome env (packet\<lparr>mp_ingress_qpc := wf_monotonic_qpc frame\<rparr>) en)
         | None \<Rightarrow> en)"

text \<open>The engine of the plugin process, as the reader of the pipe uses it.\<close>

definition worker_engine :: "ingress_env \<Rightarrow> engine_midi midi_engine" where
  "worker_engine env = \<lparr>me_emergency = request_emergency_midi_reset, me_deliver = deliver_midi_wire env\<rparr>"

section \<open>What a sender can rely on\<close>

lemma packet_from_bytes_critical:
  assumes "packet_from_bytes worker_qpc now_us ingress_qpc bytes age_us = Some p"
    and "is_critical_release_message bytes"
  shows "packet_critical (p\<lparr>mp_timestamp_us := t, mp_ingress_qpc := q, mp_generation := g\<rparr>)"
proof -
  obtain front where front: "normalize_message bytes = (True, front)"
      "mp_data p = front @ replicate (3 - length bytes) 0" "mp_len p = of_nat (length bytes)" "length bytes \<le> 3"
    using assms(1) by (auto simp: packet_from_bytes_def normalize_prefix_def Let_def split: prod.splits if_splits)
  have "take (unat (mp_len p)) (mp_data p) = front"
    using normalized_length [OF front(1)] front by (simp add: unat_of_nat)
  moreover have "is_critical_release_message front" using normalized_critical [OF front(1)] assms(2) by simp
  ultimately show ?thesis by (simp add: packet_critical_def)
qed

lemma packet_from_bytes_carries:
  assumes "packet_from_bytes worker_qpc now_us ingress_qpc bytes age_us = Some p"
  shows "List.take (unat (mp_len p)) (mp_data p) = normalized bytes"
    and "mp_timestamp_us p = saturating_sub now_us age_us"
proof -
  obtain front where front: "normalize_message bytes = (True, front)"
      "mp_data p = front @ replicate (3 - length bytes) 0" "mp_len p = of_nat (length bytes)" "length bytes \<le> 3"
      "mp_timestamp_us p = saturating_sub now_us age_us"
    using assms(1) by (auto simp: packet_from_bytes_def normalize_prefix_def Let_def split: prod.splits if_splits)
  then show "List.take (unat (mp_len p)) (mp_data p) = normalized bytes"
    and "mp_timestamp_us p = saturating_sub now_us age_us"
    using normalized_length [OF front(1)] by (simp_all add: unat_of_nat)
qed

lemma packet_from_bytes_Some:
  assumes "valid_message bytes" "0 < length bytes" "length bytes \<le> 3" "bytes ! 0 \<noteq> 0xF0"
  obtains p where "packet_from_bytes worker_qpc now_us ingress_qpc bytes age_us = Some p"
  using assms
  by (cases "normalize_message bytes") (auto simp: packet_from_bytes_def normalize_prefix_def Let_def)

text \<open>What other threads do meanwhile raises the generation by less than \<open>2 ^ 32\<close> at a time.\<close>

definition ring_moves_ok :: "(nat \<Rightarrow> midi_ingress \<Rightarrow> midi_ingress) \<Rightarrow> bool" where
  "ring_moves_ok moves \<longleftrightarrow>
     (\<forall>n ing. \<exists>k < 2 ^ 32. ig_generation (moves n ing) = ig_generation ing + of_nat k)"

lemma raised_differs:
  assumes "0 < d" and "d < 2 ^ 64"
  shows "g + of_nat d \<noteq> (g :: u64)"
proof
  assume "g + of_nat d = g"
  then have "(of_nat d :: u64) = 0" by simp
  then have "unat (of_nat d :: u64) = 0" by simp
  then show False using assms by (simp add: unat_of_nat)
qed

lemma ingress_send_release:
  assumes "ring_moves_ok moves" and "packet_critical packet" and send: "ingress_send moves packet ing = (outcome, ing')"
  shows "outcome = Sent \<and> ig_ring ing' = ig_ring (moves 1 (moves 0 ing)) @ [packet]
      \<or> outcome = CriticalFallbackReset \<and> ig_generation ing' \<noteq> mp_generation packet
      \<or> outcome = AudioStopped \<and> ing' = moves 0 ing \<and> ig_generation ing' \<noteq> mp_generation packet"
proof -
  define i0 where "i0 = moves 0 ing"
  define i1 where "i1 = moves 1 i0"
  obtain pushed i2 where push: "try_push packet i1 = (pushed, i2)" by fastforce
  have step: "ingress_send moves packet ing =
    (if mp_generation packet \<noteq> ig_generation i0 then (AudioStopped, i0)
     else if pushed then (Sent, i2)
     else let i3 = (moves 2 i2)\<lparr>ig_drop_count := ig_drop_count (moves 2 i2) + 1\<rparr> in
       (CriticalFallbackReset, (moves 3 i3)\<lparr>ig_generation := ig_generation (moves 3 i3) + 1\<rparr>))"
    using push assms(2) unfolding ingress_send_def Let_def i0_def [symmetric] i1_def [symmetric]
    by (simp split: prod.splits bool.splits)
  show ?thesis
  proof (cases "mp_generation packet = ig_generation i0 \<and> \<not> pushed")
    case False
    moreover have "ig_ring i2 = ig_ring (moves 1 (moves 0 ing)) @ [packet]" if pushed
      using push that by (auto simp: try_push_def i0_def i1_def split: if_splits)
    ultimately show ?thesis using send unfolding step by (auto simp: i0_def split: if_splits)
  next
    case True
    define i3 where "i3 = (moves 2 i2)\<lparr>ig_drop_count := ig_drop_count (moves 2 i2) + 1\<rparr>"
    have i2: "i2 = i1" using push True by (simp add: try_push_def split: if_splits)
    have raises: "\<exists>k < 2 ^ 32. ig_generation (moves n i) = ig_generation i + of_nat k" for n i
      using assms(1) unfolding ring_moves_ok_def by blast
    obtain a where a: "a < 2 ^ 32" "ig_generation i1 = ig_generation i0 + of_nat a"
      using raises [of 1 i0] unfolding i1_def by blast
    obtain b where b: "b < 2 ^ 32" "ig_generation (moves 2 i2) = ig_generation i2 + of_nat b"
      using raises [of 2 i2] by blast
    obtain c where c: "c < 2 ^ 32" "ig_generation (moves 3 i3) = ig_generation i3 + of_nat c"
      using raises [of 3 i3] by blast
    have out: "outcome = CriticalFallbackReset" "ing' = (moves 3 i3)\<lparr>ig_generation := ig_generation (moves 3 i3) + 1\<rparr>"
      using send True unfolding step by (simp_all add: i3_def Let_def)
    have "ig_generation ing' = mp_generation packet + of_nat (a + b + c + 1)"
      using True a(2) b(2) c(2) by (simp add: out(2) i3_def i2)
    then show ?thesis using raised_differs [of "a + b + c + 1" "mp_generation packet"] out(1) a(1) b(1) c(1) by simp
  qed
qed

lemma try_send_midi_at_sent:
  assumes "try_send_midi_at moves now bytes qpc sh = (True, sh')"
  shows "\<exists>frame. wire_new (px_midi_sequence sh) qpc bytes = Some frame
    \<and> map entry_value (aq_entries (px_queue sh'))
      = map entry_value (aq_entries (px_queue (moves (snd (next_midi_sequence sh)))))
        @ [frame\<lparr>wf_generation := px_midi_generation sh\<rparr>]"
proof (cases "wire_new (px_midi_sequence sh) qpc bytes")
  case None
  then show ?thesis using assms by (simp add: try_send_midi_at_def next_midi_sequence_def)
next
  case (Some frame)
  let ?f = "frame\<lparr>wf_generation := px_midi_generation sh\<rparr>"
  let ?sh = "moves (sh\<lparr>px_midi_sequence := px_midi_sequence sh + 1\<rparr>)"
  obtain r q where send: "async_try_send wire_critical now ?f (px_queue ?sh) = (r, q)" by fastforce
  have step: "try_send_midi_at moves now bytes qpc sh =
    (if px_route ?sh \<and> is_ok r then (True, ?sh\<lparr>px_queue := q\<rparr>)
     else (False, ?sh\<lparr>px_queue := if px_route ?sh then q else px_queue ?sh,
       px_midi_drops := saturating_add (px_midi_drops ?sh) 1\<rparr>))"
    by (cases "px_route ?sh"; cases "is_ok r")
      (simp_all add: try_send_midi_at_def next_midi_sequence_def Some send Let_def)
  have ok: "is_ok r" and sh': "px_queue sh' = q"
    using assms unfolding step by (auto split: if_splits)
  have "map entry_value (aq_entries q) = map entry_value (aq_entries (px_queue ?sh)) @ [?f]"
    using send ok by (auto simp: async_try_send_def Let_def split: if_splits)
  then show ?thesis using Some sh' by (simp add: next_midi_sequence_def)
qed

text \<open>
  C25: A release offered to the engine enters it or resets it. When the call answers \<open>Sent\<close>, this release, and not another message,
  has been put at the end of the queue: with the plugin in its own process, a frame with the bytes offered (the status
  normalised), the next sequence number and the clock reading of the input; with the plugin in this process, a packet with those
  bytes, the time of the input and the generation of the ring. When it answers that it fell back to a
  reset, the reset is asked for; when it answers that the audio is stopped and there is a ring, the generation of the ring has
  changed since the release was stamped, so that the callback resets the plugin. With no ring, no plugin is being played: the release is
  not kept, nothing is reset and the engine is as it was, and the answer is that the audio is stopped. The call never
  answers that a release was merely dropped.
\<close>

theorem release_enters_or_resets:
  assumes "is_critical_release_message bytes" and "valid_message bytes" and "length bytes \<le> 3"
    and "bytes ! 0 \<noteq> 0xF0" and "ring_moves_ok (ie_ring_moves env)"
    and send: "send_midi_at env bytes ingress_qpc en = (outcome, en')"
  shows "case outcome of
      Sent \<Rightarrow> (if en_worker_enabled en
        then \<exists>frame. wire_bytes frame = normalized bytes \<and> wf_generation frame = px_midi_generation (en_worker en)
          \<and> wf_sequence frame = px_midi_sequence (en_worker en) \<and> wf_monotonic_qpc frame = ingress_qpc
          \<and> map entry_value (aq_entries (px_queue (en_worker en')))
            = map entry_value (aq_entries (px_queue (ie_pipe_moves env (snd (next_midi_sequence (en_worker en)))))) @ [frame]
        else \<exists>ing ing' p. en_ingress en = Some ing \<and> en_ingress en' = Some ing'
          \<and> ig_ring ing' = ig_ring (ie_ring_moves env 1 (ie_ring_moves env 0 ing)) @ [p]
          \<and> List.take (unat (mp_len p)) (mp_data p) = normalized bytes
          \<and> mp_timestamp_us p = saturating_sub (ie_now_us env) (qpc_elapsed_us (ie_qpc_frequency env) ingress_qpc (ie_qpc env))
          \<and> mp_ingress_qpc p = ingress_qpc \<and> mp_generation p = ig_generation ing)
    | CriticalFallbackReset \<Rightarrow> (if en_worker_enabled en then px_emergency (en_worker en')
        else \<exists>ing ing'. en_ingress en = Some ing \<and> en_ingress en' = Some ing' \<and> ig_generation ing' \<noteq> ig_generation ing)
    | AudioStopped \<Rightarrow> \<not> en_worker_enabled en
        \<and> (case en_ingress en of
             None \<Rightarrow> en' = en
           | Some ing \<Rightarrow> en_ingress en' = Some (ie_ring_moves env 0 ing)
               \<and> ig_generation (ie_ring_moves env 0 ing) \<noteq> ig_generation ing)
    | AudioDroppedNonCritical \<Rightarrow> False"
proof (cases "en_worker_enabled en")
  case True
  obtain sent worker where tried: "try_send_midi_at (ie_pipe_moves env) (ie_qpc env) bytes ingress_qpc (en_worker en) = (sent, worker)"
    by fastforce
  show ?thesis
  proof (cases sent)
    case False
    then have "outcome = CriticalFallbackReset" "en' = en\<lparr>en_worker := request_emergency_reset worker\<rparr>"
      using send True tried assms(1) by (auto simp: send_midi_at_def)
    then show ?thesis using True by (simp add: request_emergency_reset_def)
  next
    case sent: True
    then have out: "outcome = Sent" "en' = en\<lparr>en_worker := worker\<rparr>"
      using send True tried by (auto simp: send_midi_at_def)
    from try_send_midi_at_sent [of "ie_pipe_moves env" "ie_qpc env" bytes ingress_qpc "en_worker en" worker] tried sent
    obtain frame where frame: "wire_new (px_midi_sequence (en_worker en)) ingress_qpc bytes = Some frame"
      "map entry_value (aq_entries (px_queue worker))
        = map entry_value (aq_entries (px_queue (ie_pipe_moves env (snd (next_midi_sequence (en_worker en))))))
          @ [frame\<lparr>wf_generation := px_midi_generation (en_worker en)\<rparr>]"
      by auto
    note fields = wire_new_ok(2,3,6) [OF frame(1)]
    have "wire_bytes (frame\<lparr>wf_generation := g\<rparr>) = wire_bytes frame" for g by (simp add: wire_bytes_def)
    then show ?thesis using frame(2) fields True unfolding out by auto
  qed
next
  case False
  have "0 < length bytes" using assms(2) by (cases bytes) (simp_all add: normalize_message_def)
  then obtain p where p: "packet_from_bytes (ie_worker_qpc env) (ie_now_us env) (ie_packet_qpc env) bytes 0 = Some p"
    by (rule packet_from_bytes_Some [OF assms(2) _ assms(3,4)])
  show ?thesis
  proof (cases "en_ingress en")
    case None
    then show ?thesis using send False p by (auto simp: send_midi_at_def send_midi_packet_with_outcome_def)
  next
    case (Some ing)
    define packet where "packet = p\<lparr>mp_timestamp_us := saturating_sub (mp_timestamp_us p)
        (qpc_elapsed_us (ie_qpc_frequency env) ingress_qpc (ie_qpc env)),
      mp_ingress_qpc := ingress_qpc, mp_generation := ig_generation ing\<rparr>"
    obtain ing' where ring: "ingress_send (ie_ring_moves env) packet ing = (outcome, ing')"
      and en': "en_ingress en' = Some ing'"
      using send False p Some
      by (auto simp: send_midi_at_def send_midi_packet_with_outcome_def packet_def split: prod.splits)
    have critical: "packet_critical packet"
      using packet_from_bytes_critical [OF p assms(1)] by (simp add: packet_def)
    have carries: "List.take (unat (mp_len packet)) (mp_data packet) = normalized bytes"
      "mp_timestamp_us packet = saturating_sub (ie_now_us env) (qpc_elapsed_us (ie_qpc_frequency env) ingress_qpc (ie_qpc env))"
      "mp_ingress_qpc packet = ingress_qpc" "mp_generation packet = ig_generation ing"
      using packet_from_bytes_carries [OF p] by (simp_all add: packet_def saturating_sub_def)
    from ingress_send_release [OF assms(5) critical ring] show ?thesis
      using Some en' False carries by auto
  qed
qed

text \<open>A ring with no free slot: the release falls back to a reset.\<close>

definition example_ingress_env :: ingress_env where
  "example_ingress_env =
     \<lparr>ie_qpc_frequency = 1000, ie_qpc = 5, ie_worker_qpc = 5, ie_packet_qpc = 5, ie_now_us = 5000,
      ie_ring_moves = \<lambda>n ing. ing, ie_pipe_moves = \<lambda>sh. sh\<rparr>"

definition example_full_engine :: engine_midi where
  "example_full_engine =
     \<lparr>en_worker_enabled = False, en_worker = example_pipe, en_ingress = Some (ingress_new 0 7),
      en_emergency = False, en_pipe_wait_max_us = 0\<rparr>"

lemma example_full_send:
  "fst (send_midi_at example_ingress_env [0x80, 60, 0] 4 example_full_engine) = CriticalFallbackReset"
  "\<not> en_worker_enabled example_full_engine" "en_ingress example_full_engine = Some (ingress_new 0 7)"
  by code_simp+

theorem release_enters_or_resets_witness:
  "\<exists>ing. en_ingress (snd (send_midi_at example_ingress_env [0x80, 60, 0] 4 example_full_engine)) = Some ing
     \<and> ig_generation ing \<noteq> ig_generation (ingress_new 0 7)"
proof -
  have "is_critical_release_message [0x80, 60, 0]" "valid_message [0x80, 60, 0]" by code_simp+
  moreover have "length [0x80, 60, 0 :: u8] \<le> 3" "[0x80, 60, 0] ! 0 \<noteq> (0xF0 :: u8)" by simp_all
  moreover have "ring_moves_ok (ie_ring_moves example_ingress_env)"
    by (auto simp: ring_moves_ok_def example_ingress_env_def intro: exI [of _ 0])
  ultimately show ?thesis
    using release_enters_or_resets [of "[0x80, 60, 0]" example_ingress_env 4 example_full_engine, OF _ _ _ _ _ prod.collapse [symmetric]]
      example_full_send by auto
qed

end
