(* ===== verification/Worker_Session.thy ===== *)
theory Worker_Session
  imports Wire_Protocol "HOL-Library.Sublist" "HOL-Library.Multiset"
begin

text \<open>
  The supervisor of the plugin process while a session runs (\<open>run_session\<close>, its poll and its clean-up, and
  \<open>schedule_restart_after_fault\<close> of \<open>vst_worker/supervisor.rs\<close>). A session is a list of events, one per
  branch of its \<open>select!\<close>; an \<open>Instant\<close> is a number of nanoseconds. The pipes, the process and the task
  runtime are the source of the events. What other tasks do to the shared state before each time the session
  locks it is a function.
\<close>

section \<open>State\<close>

definition CONNECT_TIMEOUT :: nat where "CONNECT_TIMEOUT = 10 * 10 ^ 9"
definition LOAD_TIMEOUT :: nat where "LOAD_TIMEOUT = 45 * 10 ^ 9"
definition COMMAND_TIMEOUT :: nat where "COMMAND_TIMEOUT = 10 * 10 ^ 9"
definition HEARTBEAT_WARNING :: nat where "HEARTBEAT_WARNING = 1500 * 10 ^ 6"
definition HEARTBEAT_TIMEOUT :: nat where "HEARTBEAT_TIMEOUT = 5 * 10 ^ 9"
definition RESTART_WINDOW :: nat where "RESTART_WINDOW = 60 * 10 ^ 9"
definition MAX_RESTARTS_PER_WINDOW :: nat where "MAX_RESTARTS_PER_WINDOW = 3"

datatype vst_worker_state = Disabled | Starting | Loading | WorkerReady | Stopping | Faulted

definition as_str :: "vst_worker_state \<Rightarrow> string" where
  "as_str state =
     (case state of
        Disabled \<Rightarrow> ''disabled'' | Starting \<Rightarrow> ''starting'' | Loading \<Rightarrow> ''loading''
      | WorkerReady \<Rightarrow> ''ready'' | Stopping \<Rightarrow> ''stopping'' | Faulted \<Rightarrow> ''faulted'')"

text \<open>\<open>SupervisorSnapshot\<close> and \<open>SupervisorStatus\<close>.\<close>

record supervisor_snapshot =
  sn_state :: vst_worker_state
  sn_restarts :: u32
  sn_last_exit :: "string option"
  sn_status :: "worker_audio_status option"
  sn_metrics :: worker_metrics
  sn_midi_drops :: u32
  sn_editor_open :: bool
  sn_heartbeat_delayed :: bool
  sn_midi_transport_failed :: bool
  sn_callback_healthy :: bool

record supervisor_status =
  ss_snapshot :: supervisor_snapshot
  ss_last_heartbeat :: "nat option"
  ss_last_callback :: u64
  ss_callback_progress :: "nat option"
  ss_maintenance_started :: "nat option"

text \<open>
  \<open>SupervisorInner\<close>, without the MIDI pipe's own part. A session is known by its generation;
  \<open>sv_scheduled\<close> are the restarts that were spawned.
\<close>

record supervisor =
  sv_lifecycle :: u64
  sv_status :: supervisor_status
  sv_session :: "u64 option"
  sv_midi_route :: bool
  sv_midi_drops :: u32
  sv_request_sequence :: u64
  sv_state_generation :: u64
  sv_midi_transport_failed :: bool
  sv_last_load :: "(audio_settings \<times> string option) option"
  sv_restart_history :: "nat list"
  sv_scheduled :: "(audio_settings \<times> string option \<times> u64) list"

definition default_worker_metrics :: worker_metrics where
  "default_worker_metrics =
     \<lparr>wm_render_ahead_samples = 0, wm_render_queue_frames = 0, wm_render_underflows = 0,
      wm_render_missing_frames = 0, wm_render_reset_silence_frames = 0, wm_render_block_max_us = 0,
      wm_render_over_budget = 0, wm_callback_gap_count = 0, wm_limiter_enabled = None,
      wm_midi_transport_failed = False, wm_pipe_wait_max_us = 0, wm_audio_wait_max_us = 0,
      wm_midi_io_threads = [], wm_midi_delivery_max_us = 0, wm_midi_delivery_p99_us = 0,
      wm_callback_count = 0, wm_callback_interval_max_us = 0, wm_audio_mmcss_owned = None,
      wm_audio_mmcss_critical = None, wm_game_mode = False, wm_maintenance = False,
      wm_deferred_save = False, wm_deferred_editor = None, wm_editor_open = False,
      wm_audio_peak_l = 0, wm_audio_peak_r = 0, wm_audio_xruns = 0, wm_stream_recovery_requests = 0,
      wm_stream_route_changes = 0, wm_backend_latency_us = 0, wm_audio_midi_drops = 0,
      wm_audio_lock_misses = 0, wm_audio_emergency_resets = 0, wm_callback_last_us = 0,
      wm_callback_max_us = 0, wm_callback_over_budget_count = 0, wm_consecutive_deadline_misses = 0,
      wm_dsp_process_last_us = 0, wm_dsp_process_p95_us = 0, wm_dsp_process_p99_us = 0,
      wm_dsp_process_max_us = 0, wm_midi_queue_depth = 0, wm_midi_queue_max_depth = 0,
      wm_midi_oldest_us = 0, wm_x86_bridge_underruns = 0, wm_x86_bridge_overruns = 0,
      wm_x86_worker_alive = False\<rparr>"

text \<open>\<open>VstWorkerSupervisor::new\<close>.\<close>

definition supervisor_new :: supervisor where
  "supervisor_new =
     \<lparr>sv_lifecycle = 0,
      sv_status = \<lparr>ss_snapshot = \<lparr>sn_state = Disabled, sn_restarts = 0, sn_last_exit = None, sn_status = None,
          sn_metrics = default_worker_metrics, sn_midi_drops = 0, sn_editor_open = False,
          sn_heartbeat_delayed = False, sn_midi_transport_failed = False, sn_callback_healthy = False\<rparr>,
        ss_last_heartbeat = None, ss_last_callback = 0, ss_callback_progress = None,
        ss_maintenance_started = None\<rparr>,
      sv_session = None, sv_midi_route = False, sv_midi_drops = 0, sv_request_sequence = 1,
      sv_state_generation = 0, sv_midi_transport_failed = False, sv_last_load = None,
      sv_restart_history = [], sv_scheduled = []\<rparr>"

definition set_snapshot :: "(supervisor_snapshot \<Rightarrow> supervisor_snapshot) \<Rightarrow> supervisor \<Rightarrow> supervisor" where
  "set_snapshot f sv = sv\<lparr>sv_status := (sv_status sv)\<lparr>ss_snapshot := f (ss_snapshot (sv_status sv))\<rparr>\<rparr>"

abbreviation sv_state :: "supervisor \<Rightarrow> vst_worker_state" where
  "sv_state sv \<equiv> sn_state (ss_snapshot (sv_status sv))"

definition set_state :: "vst_worker_state \<Rightarrow> supervisor \<Rightarrow> supervisor" where
  "set_state state sv = set_snapshot (\<lambda>s. s\<lparr>sn_state := state\<rparr>) sv"

text \<open>\<open>fault\<close> and \<open>set_session_fault\<close>.\<close>

definition set_fault :: "string \<Rightarrow> supervisor \<Rightarrow> supervisor" where
  "set_fault error sv = set_snapshot (\<lambda>s. s\<lparr>sn_state := Faulted, sn_last_exit := Some error\<rparr>) sv"

definition supervisor_snapshot_at :: "nat \<Rightarrow> supervisor \<Rightarrow> supervisor_snapshot" where
  "supervisor_snapshot_at now sv =
     (let status = sv_status sv; s = ss_snapshot status in
      s\<lparr>sn_callback_healthy := ss_maintenance_started status \<noteq> None
          \<or> wm_callback_count (sn_metrics s) > 0
            \<and> (case ss_callback_progress status of None \<Rightarrow> False | Some seen \<Rightarrow> now - seen < HEARTBEAT_WARNING),
        sn_midi_drops := sv_midi_drops sv,
        sn_midi_transport_failed := sv_midi_transport_failed sv\<rparr>)"

section \<open>Restarts\<close>

text \<open>The budget: restarts older than the window are forgotten, and at most three may remain.\<close>

definition restart_allowed :: "nat \<Rightarrow> nat list \<Rightarrow> bool \<times> nat list" where
  "restart_allowed now history =
     (let history = dropWhile (\<lambda>started. now - started > RESTART_WINDOW) history in
      if length history \<ge> MAX_RESTARTS_PER_WINDOW then (False, history) else (True, history @ [now]))"

definition schedule_restart_after_fault :: "nat \<Rightarrow> u64 \<Rightarrow> supervisor \<Rightarrow> supervisor" where
  "schedule_restart_after_fault now generation sv =
     (if generation \<noteq> sv_lifecycle sv then sv
      else case restart_allowed now (sv_restart_history sv) of
        (False, history) \<Rightarrow>
          set_fault ''VST worker restart budget exhausted (3 restarts in 60 seconds)''
            (sv\<lparr>sv_restart_history := history\<rparr>)
      | (True, history) \<Rightarrow>
          let sv = sv\<lparr>sv_restart_history := history\<rparr> in
          (case sv_last_load sv of
             None \<Rightarrow> sv
           | Some (settings, class_uid) \<Rightarrow>
               let sv = set_snapshot (\<lambda>s. s\<lparr>sn_restarts := saturating_add (sn_restarts s) 1\<rparr>) sv
               in sv\<lparr>sv_scheduled := sv_scheduled sv @ [(settings, class_uid, generation)]\<rparr>))"

section \<open>The session\<close>

definition message_request_id :: "control_message \<Rightarrow> u64 option" where
  "message_request_id message =
     (case message of
        Load request_id _ _ _ \<Rightarrow> Some request_id
      | SetGameMode request_id _ \<Rightarrow> Some request_id
      | OpenEditor request_id \<Rightarrow> Some request_id
      | CloseEditor request_id \<Rightarrow> Some request_id
      | ListParameters request_id \<Rightarrow> Some request_id
      | SetParameter request_id _ _ \<Rightarrow> Some request_id
      | SetGain request_id _ \<Rightarrow> Some request_id
      | SetLimiter request_id _ \<Rightarrow> Some request_id
      | SetEq request_id _ \<Rightarrow> Some request_id
      | SaveState request_id \<Rightarrow> Some request_id
      | Panic request_id \<Rightarrow> Some request_id
      | Stop request_id \<Rightarrow> Some request_id
      | Ready request_id _ \<Rightarrow> Some request_id
      | Parameters request_id _ \<Rightarrow> Some request_id
      | Ack request_id \<Rightarrow> Some request_id
      | Stopped request_id \<Rightarrow> Some request_id
      | Error request_id _ _ \<Rightarrow> request_id
      | _ \<Rightarrow> None)"

text \<open>
  A request names its answer channel by a number. Beside the state of the code a history is kept: the
  requests taken from the queue, the answers, and the channels found closed.
\<close>

datatype session_command = Request control_message nat | Notify control_message | Shutdown

record session_task =
  ws_generation :: u64
  ws_pending :: "(u64, nat) hash_map"
  ws_written :: "control_message list"
  ws_requests :: "(control_message \<times> nat) list"
  ws_replies :: "(nat \<times> (string + control_message)) list"
  ws_closed :: "nat list"

datatype session_flow = Continue | Ended "string option"

definition reply :: "nat \<Rightarrow> string + control_message \<Rightarrow> session_task \<Rightarrow> session_task" where
  "reply channel result ws = ws\<lparr>ws_replies := ws_replies ws @ [(channel, result)]\<rparr>"

definition serve_command :: "session_command \<Rightarrow> bool \<Rightarrow> session_task \<Rightarrow> session_flow \<times> session_task" where
  "serve_command command closed ws =
     (case command of
        Request message channel \<Rightarrow>
          if closed then (Continue, ws)
          else
            let ws = ws\<lparr>ws_requests := ws_requests ws @ [(message, channel)]\<rparr> in
            (case message_request_id message of
               None \<Rightarrow> (Continue, reply channel (Inl ''request has no request ID'') ws)
             | Some request_id \<Rightarrow>
                 (Continue, ws\<lparr>ws_pending := AList.update request_id channel (ws_pending ws),
                               ws_written := ws_written ws @ [message]\<rparr>))
      | Notify message \<Rightarrow> (Continue, ws\<lparr>ws_written := ws_written ws @ [message]\<rparr>)
      | Shutdown \<Rightarrow> (Ended None, ws))"

text \<open>A heartbeat; \<open>get_or_insert\<close> keeps the time maintenance began, and its end counts as progress.\<close>

definition heartbeat :: "nat \<Rightarrow> worker_metrics \<Rightarrow> supervisor \<Rightarrow> supervisor" where
  "heartbeat now metrics sv =
     (let status = sv_status sv;
          status = status\<lparr>ss_last_heartbeat := Some now,
            ss_snapshot := (ss_snapshot status)\<lparr>sn_heartbeat_delayed := False\<rparr>\<rparr>;
          status = (if wm_callback_count metrics \<noteq> ss_last_callback status
                    then status\<lparr>ss_last_callback := wm_callback_count metrics, ss_callback_progress := Some now\<rparr>
                    else status);
          status = (if wm_maintenance metrics
                    then status\<lparr>ss_maintenance_started :=
                      (case ss_maintenance_started status of None \<Rightarrow> Some now | Some start \<Rightarrow> Some start)\<rparr>
                    else if ss_maintenance_started status \<noteq> None
                    then status\<lparr>ss_maintenance_started := None, ss_callback_progress := Some now\<rparr>
                    else status);
          s = (ss_snapshot status)\<lparr>sn_editor_open := wm_editor_open metrics\<rparr>;
          s = (case (sn_status s, wm_limiter_enabled metrics) of
                 (Some audio, Some enabled) \<Rightarrow> s\<lparr>sn_status := Some (audio\<lparr>was_limiter_enabled := enabled\<rparr>)\<rparr>
               | _ \<Rightarrow> s)
      in sv\<lparr>sv_status := status\<lparr>ss_snapshot := s\<lparr>sn_metrics := metrics\<rparr>\<rparr>\<rparr>)"

definition session_message ::
  "nat \<Rightarrow> control_message \<Rightarrow> session_task \<Rightarrow> supervisor \<Rightarrow> session_task \<times> supervisor" where
  "session_message now message ws sv =
     (case message of
        Heartbeat _ _ metrics \<Rightarrow> (ws, heartbeat now metrics sv)
      | EditorHidden \<Rightarrow> (ws, set_snapshot (\<lambda>s. s\<lparr>sn_editor_open := False\<rparr>) sv)
      | _ \<Rightarrow>
          (case message_request_id message of
             None \<Rightarrow> (ws, sv)
           | Some request_id \<Rightarrow>
               (case map_of (ws_pending ws) request_id of
                  None \<Rightarrow> (ws, sv)
                | Some channel \<Rightarrow>
                    (reply channel (Inr message) (ws\<lparr>ws_pending := AList.delete request_id (ws_pending ws)\<rparr>), sv))))"

text \<open>The poll: the clock is read again for each test, and \<open>moves\<close> is what others do before each lock.\<close>

datatype process_status = Exited string | QueryFailed string | StillRunning

record poll_reading =
  pr_now :: "nat \<Rightarrow> nat"
  pr_closed :: "nat list"
  pr_process :: process_status
  pr_moves :: "nat \<Rightarrow> supervisor \<Rightarrow> supervisor"

definition elapsed_at_least :: "nat \<Rightarrow> nat option \<Rightarrow> nat \<Rightarrow> bool" where
  "elapsed_at_least limit instant now = (case instant of None \<Rightarrow> False | Some seen \<Rightarrow> now - seen \<ge> limit)"

definition transport_failed :: "supervisor \<Rightarrow> bool" where
  "transport_failed sv \<longleftrightarrow> sv_state sv = WorkerReady
     \<and> (sv_midi_transport_failed sv \<or> wm_midi_transport_failed (sn_metrics (ss_snapshot (sv_status sv))))"

definition heartbeat_expired :: "nat \<Rightarrow> supervisor \<Rightarrow> bool" where
  "heartbeat_expired now sv \<longleftrightarrow> sv_state sv = WorkerReady
     \<and> elapsed_at_least HEARTBEAT_TIMEOUT (ss_last_heartbeat (sv_status sv)) now"

definition callback_stalled :: "nat \<Rightarrow> supervisor \<Rightarrow> bool" where
  "callback_stalled now sv \<longleftrightarrow> sv_state sv = WorkerReady
     \<and> \<not> wm_maintenance (sn_metrics (ss_snapshot (sv_status sv)))
     \<and> elapsed_at_least HEARTBEAT_TIMEOUT (ss_callback_progress (sv_status sv)) now"

definition maintenance_expired :: "nat \<Rightarrow> supervisor \<Rightarrow> bool" where
  "maintenance_expired now sv \<longleftrightarrow> elapsed_at_least COMMAND_TIMEOUT (ss_maintenance_started (sv_status sv)) now"

definition check_health :: "poll_reading \<Rightarrow> supervisor \<Rightarrow> session_flow \<times> supervisor" where
  "check_health pr sv =
     (let sv = pr_moves pr 1 sv;
          delayed = elapsed_at_least HEARTBEAT_WARNING (ss_last_heartbeat (sv_status sv)) (pr_now pr 0);
          sv = set_snapshot (\<lambda>s. s\<lparr>sn_heartbeat_delayed := delayed\<rparr>) sv;
          expired = heartbeat_expired (pr_now pr 1) sv;
          sv = pr_moves pr 2 sv;
          stalled = callback_stalled (pr_now pr 2) sv;
          sv = pr_moves pr 3 sv;
          maintenance = maintenance_expired (pr_now pr 3) sv
      in (if expired then Ended (Some ''worker heartbeat timed out after 5 seconds'')
          else if maintenance then Ended (Some ''worker maintenance exceeded 10 seconds'')
          else if stalled then Ended (Some ''worker audio callback stalled for 5 seconds'')
          else Continue, sv))"

definition retain_open :: "nat list \<Rightarrow> session_task \<Rightarrow> session_task" where
  "retain_open closed ws =
     ws\<lparr>ws_pending := filter (\<lambda>p. snd p \<notin> set closed) (ws_pending ws),
        ws_closed := ws_closed ws @ map snd (filter (\<lambda>p. snd p \<in> set closed) (ws_pending ws))\<rparr>"

definition session_poll :: "poll_reading \<Rightarrow> session_task \<Rightarrow> supervisor \<Rightarrow> session_flow \<times> session_task \<times> supervisor" where
  "session_poll pr ws sv =
     (let ws = retain_open (pr_closed pr) ws;
          sv = pr_moves pr 0 sv
      in if transport_failed sv then (Ended (Some ''worker MIDI transport failed''), ws, sv)
         else case pr_process pr of
           Exited status \<Rightarrow> (Ended (Some (''worker exited with '' @ status)), ws, sv)
         | QueryFailed error \<Rightarrow> (Ended (Some (''failed to query worker process: '' @ error)), ws, sv)
         | StillRunning \<Rightarrow> (case check_health pr sv of (flow, sv) \<Rightarrow> (flow, ws, sv)))"

text \<open>The branches of \<open>select!\<close>; \<open>None\<close> as an answer of a channel is its end.\<close>

datatype session_event =
    EvCommand session_command bool
  | EvCommandsGone
  | EvWriterUnavailable string
  | EvWriterExit "string option"
  | EvWriterFailed string
  | EvControl control_message nat "supervisor \<Rightarrow> supervisor"
  | EvControlError string
  | EvControlGone
  | EvPoll poll_reading

definition session_step :: "session_event \<Rightarrow> session_task \<Rightarrow> supervisor \<Rightarrow> session_flow \<times> session_task \<times> supervisor" where
  "session_step event ws sv =
     (case event of
        EvCommand command closed \<Rightarrow> (case serve_command command closed ws of (flow, ws) \<Rightarrow> (flow, ws, sv))
      | EvCommandsGone \<Rightarrow> (Ended None, ws, sv)
      | EvWriterUnavailable error \<Rightarrow> (Ended (Some (''worker control writer unavailable: '' @ error)), ws, sv)
      | EvWriterExit (Some error) \<Rightarrow> (Ended (Some error), ws, sv)
      | EvWriterExit None \<Rightarrow> (Ended (Some ''worker control writer exited''), ws, sv)
      | EvWriterFailed error \<Rightarrow> (Ended (Some (''worker control writer failed: '' @ error)), ws, sv)
      | EvControl message now moves \<Rightarrow> (case session_message now message ws (moves sv) of (ws, sv) \<Rightarrow> (Continue, ws, sv))
      | EvControlError error \<Rightarrow> (Ended (Some error), ws, sv)
      | EvControlGone \<Rightarrow> (Ended (Some ''worker control event channel closed''), ws, sv)
      | EvPoll pr \<Rightarrow> session_poll pr ws sv)"

fun session_events :: "session_event list \<Rightarrow> session_task \<Rightarrow> supervisor \<Rightarrow> session_flow \<times> session_task \<times> supervisor" where
  "session_events [] ws sv = (Continue, ws, sv)"
| "session_events (event # events) ws sv =
     (case session_step event ws sv of
        (Continue, ws, sv) \<Rightarrow> session_events events ws sv
      | (Ended e, ws, sv) \<Rightarrow> (Ended e, ws, sv))"

text \<open>After the loop: the state first, so that whoever is woken by an answer finds it clean.\<close>

definition publish_session_fault :: "nat \<Rightarrow> (supervisor \<Rightarrow> supervisor) \<Rightarrow> string \<Rightarrow> u64 \<Rightarrow> supervisor \<Rightarrow> supervisor" where
  "publish_session_fault now moves error generation sv =
     (if generation = sv_lifecycle sv then
        let sv = moves (sv\<lparr>sv_midi_route := False, sv_session := None\<rparr>) in
        if sv_state sv = Stopping \<or> sv_state sv = Disabled then sv
        else schedule_restart_after_fault now generation (set_fault error sv)
      else sv)"

definition finish_session ::
  "nat \<Rightarrow> (supervisor \<Rightarrow> supervisor) \<Rightarrow> string option \<Rightarrow> session_task \<Rightarrow> supervisor \<Rightarrow> session_task \<times> supervisor" where
  "finish_session now moves terminal ws sv =
     (case terminal of
        None \<Rightarrow> (ws\<lparr>ws_pending := []\<rparr>, sv)
      | Some error \<Rightarrow>
          (ws\<lparr>ws_pending := [],
              ws_replies := ws_replies ws @ map (\<lambda>(_, channel). (channel, Inl error)) (ws_pending ws)\<rparr>,
           publish_session_fault now moves error (ws_generation ws) sv))"

definition session_start :: "u64 \<Rightarrow> session_task" where
  "session_start generation = \<lparr>ws_generation = generation, ws_pending = [], ws_written = [],
     ws_requests = [], ws_replies = [], ws_closed = []\<rparr>"

text \<open>\<open>run_session\<close> once both pipes are connected and the process has said hello.\<close>

definition run_session ::
  "u64 \<Rightarrow> nat \<Rightarrow> (supervisor \<Rightarrow> supervisor) \<Rightarrow> session_event list \<Rightarrow> supervisor
     \<Rightarrow> session_flow \<times> session_task \<times> supervisor" where
  "run_session generation now moves events sv =
     (case session_events events (session_start generation) sv of
        (Continue, ws, sv) \<Rightarrow> (Continue, ws, sv)
      | (Ended terminal, ws, sv) \<Rightarrow>
          (case finish_session now moves terminal ws sv of (ws, sv) \<Rightarrow> (Ended terminal, ws, sv)))"

section \<open>The restart budget\<close>

text \<open>The faults at which a restart is allowed, for a supervisor that has remembered \<open>history\<close>.\<close>

fun restart_times :: "nat list \<Rightarrow> nat list \<Rightarrow> nat list" where
  "restart_times history [] = []"
| "restart_times history (t # ts) =
     (case restart_allowed t history of
        (True, history) \<Rightarrow> t # restart_times history ts
      | (False, history) \<Rightarrow> restart_times history ts)"

definition spread :: "nat list \<Rightarrow> bool" where
  "spread allowed \<longleftrightarrow> (\<forall>i. i + 3 < length allowed \<longrightarrow> allowed ! (i + 3) - allowed ! i > RESTART_WINDOW)"

definition remembers :: "nat \<Rightarrow> nat list \<Rightarrow> nat list \<Rightarrow> bool" where
  "remembers now allowed history \<longleftrightarrow>
     (\<exists>old. allowed = old @ history \<and> (\<forall>t \<in> set old. now - t > RESTART_WINDOW)) \<and> spread allowed"

lemma spread_snoc:
  "spread (allowed @ [t]) \<longleftrightarrow> spread allowed \<and> (3 \<le> length allowed \<longrightarrow> t - allowed ! (length allowed - 3) > RESTART_WINDOW)"
proof -
  have "(\<forall>i. i + 3 < length (allowed @ [t]) \<longrightarrow> (allowed @ [t]) ! (i + 3) - (allowed @ [t]) ! i > RESTART_WINDOW)
    \<longleftrightarrow> (\<forall>i. i + 3 < length allowed \<longrightarrow> allowed ! (i + 3) - allowed ! i > RESTART_WINDOW)
      \<and> (\<forall>i. i + 3 = length allowed \<longrightarrow> t - allowed ! i > RESTART_WINDOW)"
    by (auto simp: nth_append less_Suc_eq)
  moreover have "(\<forall>i. i + 3 = length allowed \<longrightarrow> t - allowed ! i > RESTART_WINDOW)
    \<longleftrightarrow> (3 \<le> length allowed \<longrightarrow> t - allowed ! (length allowed - 3) > RESTART_WINDOW)"
    by (metis add_diff_cancel_right' le_add2 le_add_diff_inverse2)
  ultimately show ?thesis unfolding spread_def by simp
qed

lemma remembers_forget:
  assumes "remembers before allowed history" and "before \<le> now"
  shows "remembers now allowed (dropWhile (\<lambda>t. now - t > RESTART_WINDOW) history)"
proof -
  let ?old = "takeWhile (\<lambda>t. now - t > RESTART_WINDOW) history"
  obtain old where old: "allowed = old @ history" "\<forall>t \<in> set old. before - t > RESTART_WINDOW" and sp: "spread allowed"
    using assms(1) unfolding remembers_def by blast
  have "\<forall>t \<in> set (old @ ?old). now - t > RESTART_WINDOW"
    using old(2) assms(2) by (force dest: set_takeWhileD)
  moreover have "allowed = (old @ ?old) @ dropWhile (\<lambda>t. now - t > RESTART_WINDOW) history"
    using old(1) by simp
  ultimately show ?thesis using sp unfolding remembers_def by blast
qed

lemma remembers_allowed:
  assumes "remembers now allowed history" and "length history < 3"
  shows "remembers now (allowed @ [now]) (history @ [now])"
proof -
  obtain old where old: "allowed = old @ history" "\<forall>t \<in> set old. now - t > RESTART_WINDOW" and sp: "spread allowed"
    using assms(1) unfolding remembers_def by blast
  have "now - allowed ! (length allowed - 3) > RESTART_WINDOW" if "3 \<le> length allowed"
  proof -
    have "length allowed - 3 < length old" using that assms(2) old(1) by simp
    then have "allowed ! (length allowed - 3) \<in> set old" using old(1) by (simp add: nth_append)
    with old(2) show ?thesis by blast
  qed
  then have "spread (allowed @ [now])" using sp by (simp add: spread_snoc)
  then show ?thesis using old unfolding remembers_def by auto
qed

lemma restart_times_spread:
  assumes "remembers before allowed history" and "sorted (before # ts)"
  shows "spread (allowed @ restart_times history ts)"
  using assms
proof (induction ts arbitrary: before allowed history)
  case Nil
  then show ?case by (simp add: remembers_def)
next
  case (Cons t ts)
  let ?kept = "dropWhile (\<lambda>started. t - started > RESTART_WINDOW) history"
  have kept: "remembers t allowed ?kept" by (rule remembers_forget [OF Cons.prems(1)]) (use Cons.prems(2) in simp)
  have later: "sorted (t # ts)" using Cons.prems(2) by simp
  show ?case
  proof (cases "length ?kept < 3")
    case True
    then have "restart_times history (t # ts) = t # restart_times (?kept @ [t]) ts"
      by (simp add: restart_allowed_def MAX_RESTARTS_PER_WINDOW_def)
    then show ?thesis using Cons.IH [OF remembers_allowed [OF kept True] later] by simp
  next
    case False
    then have "restart_times history (t # ts) = restart_times ?kept ts"
      by (simp add: restart_allowed_def MAX_RESTARTS_PER_WINDOW_def)
    then show ?thesis using Cons.IH [OF kept later] by simp
  qed
qed

text \<open>What is remembered after some faults.\<close>

fun history_after :: "nat list \<Rightarrow> nat list \<Rightarrow> nat list" where
  "history_after history [] = history"
| "history_after history (t # ts) = history_after (snd (restart_allowed t history)) ts"

lemma restart_times_append:
  "restart_times history (ts @ us) = restart_times history ts @ restart_times (history_after history ts) us"
  by (induction ts arbitrary: history) (auto split: prod.splits bool.splits)

lemma history_after_subseq:
  "subseq history past \<Longrightarrow> subseq (history_after history ts) (past @ ts)"
proof (induction ts arbitrary: history past)
  case (Cons t ts)
  let ?kept = "dropWhile (\<lambda>started. t - started > RESTART_WINDOW) history"
  have "subseq ?kept history" by (metis list_emb_append2 subseq_order.refl takeWhile_dropWhile_id)
  then have kept: "subseq ?kept past" using Cons.prems subseq_order.trans by blast
  have "snd (restart_allowed t history) = ?kept \<or> snd (restart_allowed t history) = ?kept @ [t]"
    by (simp add: restart_allowed_def Let_def)
  then have "subseq (snd (restart_allowed t history)) (past @ [t])"
    using kept list_emb_append_mono [OF kept, of "[t]" "[t]"] by (auto intro: list_emb_prefix)
  from Cons.IH [OF this] show ?case by simp
qed simp

lemma sorted_sub: "subseq xs ys \<Longrightarrow> sorted ys \<Longrightarrow> sorted (xs :: nat list)"
proof (induction rule: list_emb.induct)
  case (list_emb_Cons2 x y xs ys)
  then show ?case using list_emb_set [of "(=)" xs ys] by auto
qed auto

lemma kept_in_window:
  assumes "sorted history"
  shows "dropWhile (\<lambda>started. t - started > RESTART_WINDOW) history = filter (\<lambda>started. t - started \<le> RESTART_WINDOW) history"
  using assms
proof (induction history)
  case (Cons h hs)
  show ?case
  proof (cases "t - h > RESTART_WINDOW")
    case False
    then have "\<forall>x \<in> set hs. t - x \<le> RESTART_WINDOW" using Cons.prems by force
    then show ?thesis using False by (simp add: filter_id_conv)
  qed (use Cons in simp)
qed simp

text \<open>
  C24: A plugin that keeps crashing is restarted at most three times a minute: whatever the times of the
  faults, any four restarts the supervisor allows span more than the window of sixty seconds. And it is
  restarted whenever it may be: a fault with fewer than three faults in the window before it is answered by a
  restart.
\<close>

theorem restart_budget:
  assumes "sorted faults"
  shows "(\<forall>i. i + 3 < length (restart_times [] faults) \<longrightarrow>
      restart_times [] faults ! (i + 3) - restart_times [] faults ! i > RESTART_WINDOW)
    \<and> (\<forall>before t after. faults = before @ t # after
        \<and> length (filter (\<lambda>s. t - s \<le> RESTART_WINDOW) before) < 3 \<longrightarrow> t \<in> set (restart_times [] faults))"
proof
  have "spread (restart_times [] faults)"
  proof (cases faults)
    case Nil
    then show ?thesis by (simp add: spread_def)
  next
    case (Cons t ts)
    have "remembers t [] []" by (simp add: remembers_def spread_def)
    from restart_times_spread [OF this, of "t # ts"] assms Cons show ?thesis by simp
  qed
  then show "\<forall>i. i + 3 < length (restart_times [] faults) \<longrightarrow>
      restart_times [] faults ! (i + 3) - restart_times [] faults ! i > RESTART_WINDOW"
    by (simp only: spread_def)
next
  have "t \<in> set (restart_times [] faults)"
    if split: "faults = before @ t # after" and few: "length (filter (\<lambda>s. t - s \<le> RESTART_WINDOW) before) < 3"
    for before t after
  proof -
    let ?history = "history_after [] before"
    have sub: "subseq ?history before" using history_after_subseq [of "[]" "[]" before] by simp
    have "sorted before" using assms split by (simp add: sorted_append)
    then have "sorted ?history" by (rule sorted_sub [OF sub])
    then have "length (dropWhile (\<lambda>s. t - s > RESTART_WINDOW) ?history) \<le> length (filter (\<lambda>s. t - s \<le> RESTART_WINDOW) before)"
      using list_emb_length [OF subseq_filter [OF sub]] by (simp add: kept_in_window)
    then have "fst (restart_allowed t ?history)"
      using few by (simp add: restart_allowed_def MAX_RESTARTS_PER_WINDOW_def Let_def)
    then obtain history where "restart_allowed t ?history = (True, history)" by (metis prod.collapse)
    then show ?thesis unfolding split restart_times_append by simp
  qed
  then show "\<forall>before t after. faults = before @ t # after
      \<and> length (filter (\<lambda>s. t - s \<le> RESTART_WINDOW) before) < 3 \<longrightarrow> t \<in> set (restart_times [] faults)"
    by (intro allI impI) (elim conjE)
qed

theorem restart_budget_witness:
  "30 * 10 ^ 9 \<in> set (restart_times [] [0, 10 * 10 ^ 9, 30 * 10 ^ 9, 40 * 10 ^ 9, 70 * 10 ^ 9])"
  using restart_budget [of "[0, 10 * 10 ^ 9, 30 * 10 ^ 9, 40 * 10 ^ 9, 70 * 10 ^ 9]", THEN conjunct2,
      rule_format, of "[0, 10 * 10 ^ 9]" "30 * 10 ^ 9" "[40 * 10 ^ 9, 70 * 10 ^ 9]"]
  by simp

section \<open>Requests and their answers\<close>

text \<open>
  The channels the session knows of, each in one place only; no two requests share a channel or an rid, as the
  supervisor hands out new ones for each (\<open>next_request_id\<close>, \<open>oneshot::channel\<close>).
\<close>

definition request_ids :: "session_task \<Rightarrow> u64 list" where
  "request_ids ws = List.map_filter (\<lambda>(message, _). message_request_id message) (ws_requests ws)"

definition known_channels :: "session_task \<Rightarrow> nat list" where
  "known_channels ws = map snd (ws_pending ws) @ map fst (ws_replies ws) @ ws_closed ws"

definition requests_distinct :: "session_task \<Rightarrow> bool" where
  "requests_distinct ws \<longleftrightarrow> distinct (map snd (ws_requests ws)) \<and> distinct (request_ids ws)"

definition answers :: "control_message \<Rightarrow> string + control_message \<Rightarrow> bool" where
  "answers message result \<longleftrightarrow>
     (case result of Inl _ \<Rightarrow> True | Inr answer \<Rightarrow> message_request_id answer = message_request_id message)"

definition session_ok :: "session_task \<Rightarrow> bool" where
  "session_ok ws \<longleftrightarrow> keys_distinct (ws_pending ws)
     \<and> (\<forall>(rid, channel) \<in> set (ws_pending ws). \<exists>message. (message, channel) \<in> set (ws_requests ws)
          \<and> message_request_id message = Some rid)
     \<and> (\<forall>(channel, result) \<in> set (ws_replies ws). \<exists>message. (message, channel) \<in> set (ws_requests ws)
          \<and> answers message result)
     \<and> distinct (known_channels ws) \<and> set (known_channels ws) = snd ` set (ws_requests ws)"

lemma session_ok_written [simp]: "session_ok (ws\<lparr>ws_written := w\<rparr>) = session_ok ws"
  by (simp add: session_ok_def known_channels_def)

lemma session_start_ok: "session_ok (session_start generation)"
  by (simp add: session_ok_def session_start_def known_channels_def)

lemma request_ids_snoc:
  "request_ids (ws\<lparr>ws_requests := ws_requests ws @ [(message, channel)]\<rparr>)
     = request_ids ws @ (case message_request_id message of None \<Rightarrow> [] | Some rid \<Rightarrow> [rid])"
  by (simp add: request_ids_def List.map_filter_def split: option.splits)

lemma request_id_known:
  "(message, channel) \<in> set (ws_requests ws) \<Longrightarrow> message_request_id message = Some rid \<Longrightarrow> rid \<in> set (request_ids ws)"
  by (force simp: request_ids_def List.map_filter_def)

lemma update_absent: "k \<notin> fst ` set al \<Longrightarrow> AList.update k v al = al @ [(k, v)]"
  by (induction al) auto

lemma session_command_ok:
  assumes step: "serve_command command closed ws = (flow, ws')" and ok: "session_ok ws"
    and new: "requests_distinct ws'"
  shows "session_ok ws'"
proof (cases "\<exists>message channel. command = Request message channel \<and> \<not> closed")
  case False
  then have "ws' = ws \<or> (\<exists>message. ws' = ws\<lparr>ws_written := ws_written ws @ [message]\<rparr>)"
    using step by (cases command) (auto simp: serve_command_def split: if_splits)
  then show ?thesis using ok by (elim disjE exE) simp_all
next
  case True
  then obtain message channel where command: "command = Request message channel" "\<not> closed" by blast
  define ws1 where "ws1 = ws\<lparr>ws_requests := ws_requests ws @ [(message, channel)]\<rparr>"
  have requests: "ws_requests ws' = ws_requests ws @ [(message, channel)]"
    using step command by (auto simp: serve_command_def reply_def Let_def split: option.splits)
  then have fresh: "channel \<notin> snd ` set (ws_requests ws)"
    using new by (auto simp: requests_distinct_def)
  then have unknown: "channel \<notin> set (known_channels ws)" using ok by (auto simp: session_ok_def)
  show ?thesis
  proof (cases "message_request_id message")
    case None
    then have "ws' = reply channel (Inl ''request has no request ID'') ws1"
      using step command by (simp add: serve_command_def ws1_def Let_def)
    then show ?thesis
      using ok unknown by (auto simp: session_ok_def ws1_def reply_def known_channels_def answers_def)
  next
    case (Some rid)
    then have ws': "ws' = ws1\<lparr>ws_pending := AList.update rid channel (ws_pending ws), ws_written := ws_written ws @ [message]\<rparr>"
      using step command by (simp add: serve_command_def ws1_def Let_def)
    have "request_ids ws' = request_ids ws @ [rid]"
      using requests Some by (simp add: request_ids_def List.map_filter_def)
    then have "rid \<notin> set (request_ids ws)" using new by (simp add: requests_distinct_def)
    then have new_id: "rid \<notin> fst ` set (ws_pending ws)"
      using ok request_id_known unfolding session_ok_def by fastforce
    then have "AList.update rid channel (ws_pending ws) = ws_pending ws @ [(rid, channel)]"
      by (rule update_absent)
    then show ?thesis
      using ok unknown new_id Some by (auto simp: session_ok_def ws' ws1_def known_channels_def)
  qed
qed

lemma answered_ok:
  assumes ok: "session_ok ws" and pending: "map_of (ws_pending ws) rid = Some channel"
    and rid: "message_request_id answer = Some rid"
  shows "session_ok (reply channel (Inr answer) (ws\<lparr>ws_pending := AList.delete rid (ws_pending ws)\<rparr>))"
proof -
  have keys: "keys_distinct (ws_pending ws)" using ok by (simp add: session_ok_def)
  have mem: "(rid, channel) \<in> set (ws_pending ws)" using pending by (rule map_of_SomeD)
  then obtain as bs where split: "ws_pending ws = as @ (rid, channel) # bs" by (meson split_list)
  have "\<forall>p \<in> set (as @ bs). fst p \<noteq> rid" using keys unfolding split by force
  then have "filter (\<lambda>(key, _). rid \<noteq> key) as = as" "filter (\<lambda>(key, _). rid \<noteq> key) bs = bs"
    by (intro filter_True; force)+
  then have "AList.delete rid (ws_pending ws) = as @ bs"
    unfolding split AList.delete_eq by simp
  then show ?thesis
    using ok mem rid unfolding split
    by (fastforce simp: session_ok_def reply_def known_channels_def answers_def split)
qed

lemma session_message_ok:
  assumes "session_message now message ws sv = (ws', sv')" and "session_ok ws"
  shows "session_ok ws' \<and> ws_requests ws' = ws_requests ws"
proof -
  have "ws' = ws \<or> (\<exists>rid channel. message_request_id message = Some rid \<and> map_of (ws_pending ws) rid = Some channel
      \<and> ws' = reply channel (Inr message) (ws\<lparr>ws_pending := AList.delete rid (ws_pending ws)\<rparr>))"
    using assms(1) by (auto simp: session_message_def split: control_message.splits option.splits)
  then show ?thesis using assms(2) answered_ok by (auto simp: reply_def)
qed

lemma mset_map_partition: "mset (map f xs) = mset (map f (filter (\<lambda>x. \<not> P x) xs)) + mset (map f (filter P xs))"
  by (induction xs) auto

lemma session_poll_ok:
  assumes "session_poll pr ws sv = (flow, ws', sv')" and ok: "session_ok ws"
  shows "session_ok ws' \<and> ws_requests ws' = ws_requests ws"
proof -
  let ?gone = "\<lambda>p. snd p \<in> set (pr_closed pr)"
  have ws': "ws' = ws\<lparr>ws_pending := filter (\<lambda>p. \<not> ?gone p) (ws_pending ws),
      ws_closed := ws_closed ws @ map snd (filter ?gone (ws_pending ws))\<rparr>"
    using assms(1)
    by (auto simp: session_poll_def Let_def retain_open_def split: if_splits process_status.splits prod.splits)
  have split: "mset (map snd (ws_pending ws))
      = mset (map snd (filter (\<lambda>p. \<not> ?gone p) (ws_pending ws))) + mset (map snd (filter ?gone (ws_pending ws)))"
    by (rule mset_map_partition)
  have "mset (known_channels ws') = mset (known_channels ws)"
    unfolding known_channels_def mset_append split by (simp add: ws' union_ac)
  then have "distinct (known_channels ws') = distinct (known_channels ws)" "set (known_channels ws') = set (known_channels ws)"
    by (metis mset_eq_imp_distinct_iff, metis mset_eq_setD)
  then show ?thesis
    using ok by (auto simp: session_ok_def ws' distinct_map_filter)
qed

lemma session_event_ok:
  assumes step: "session_step event ws sv = (flow, ws', sv')" and ok: "session_ok ws"
    and new: "requests_distinct ws'"
  shows "session_ok ws'"
proof (cases event)
  case (EvCommand command closed)
  then have "serve_command command closed ws = (flow, ws')"
    using step by (simp add: session_step_def split: prod.splits)
  then show ?thesis by (rule session_command_ok [OF _ ok new])
next
  case (EvControl message now moves)
  then have "session_message now message ws (moves sv) = (ws', sv')"
    using step by (simp add: session_step_def split: prod.splits)
  from session_message_ok [OF this ok] show ?thesis by blast
next
  case (EvPoll pr)
  then have "session_poll pr ws sv = (flow, ws', sv')" using step by (simp add: session_step_def)
  from session_poll_ok [OF this ok] show ?thesis by blast
qed (use step ok in \<open>auto simp: session_step_def split: option.splits\<close>)

lemma session_event_requests:
  assumes "session_step event ws sv = (flow, ws', sv')"
  shows "prefix (ws_requests ws) (ws_requests ws')"
proof (cases event)
  case (EvCommand command closed)
  then show ?thesis
    using assms
    by (auto simp: session_step_def serve_command_def reply_def Let_def
        split: session_command.splits option.splits if_splits)
next
  case (EvControl message now moves)
  then have "session_message now message ws (moves sv) = (ws', sv')"
    using assms by (simp add: session_step_def split: prod.splits)
  then have "ws_requests ws' = ws_requests ws"
    by (auto simp: session_message_def reply_def split: control_message.splits option.splits)
  then show ?thesis by simp
next
  case (EvPoll pr)
  then have "ws_requests ws' = ws_requests ws"
    using assms
    by (auto simp: session_step_def session_poll_def Let_def retain_open_def
        split: if_splits process_status.splits prod.splits)
  then show ?thesis by simp
qed (use assms in \<open>auto simp: session_step_def split: option.splits\<close>)

lemma requests_distinct_prefix:
  assumes "requests_distinct ws'" and "prefix (ws_requests ws) (ws_requests ws')"
  shows "requests_distinct ws"
  using assms by (auto simp: requests_distinct_def request_ids_def prefix_def List.map_filter_def)

lemma session_events_ok:
  assumes "session_events events ws sv = (flow, ws', sv')" and "session_ok ws" and "requests_distinct ws'"
  shows "session_ok ws' \<and> prefix (ws_requests ws) (ws_requests ws')"
  using assms
proof (induction events arbitrary: ws sv)
  case (Cons event events)
  obtain flow1 ws1 sv1 where step: "session_step event ws sv = (flow1, ws1, sv1)" by (metis prod_cases3)
  note grows = session_event_requests [OF step]
  show ?case
  proof (cases flow1)
    case (Ended e)
    then have "ws' = ws1" using Cons.prems(1) step by simp
    then show ?thesis using session_event_ok [OF step Cons.prems(2)] Cons.prems(3) grows by simp
  next
    case Continue
    then have rest: "session_events events ws1 sv1 = (flow, ws', sv')" using Cons.prems(1) step by simp
    have "prefix (ws_requests ws1) (ws_requests ws')"
      using rest by (induction events arbitrary: ws1 sv1)
        (auto split: prod.splits session_flow.splits dest: session_event_requests intro: prefix_order.trans)
    then have "requests_distinct ws1" by (rule requests_distinct_prefix [OF Cons.prems(3)])
    then have "session_ok ws1" by (rule session_event_ok [OF step Cons.prems(2)])
    from Cons.IH [OF rest this Cons.prems(3)] show ?thesis using grows prefix_order.trans by blast
  qed
qed simp

text \<open>
  C22: Every request is answered exactly once: when the channels and ids of the requests are fresh, no request
  is answered twice, an answer of the process goes to the request whose id it carries, and when the session
  ends with an error every request it had taken has been answered or its caller had gone. While the session
  runs the others are pending.
\<close>

theorem requests_answered_once:
  assumes "run_session generation now moves events sv = (flow, ws, sv')" and "requests_distinct ws"
  shows "distinct (map fst (ws_replies ws))
    \<and> (\<forall>(channel, result) \<in> set (ws_replies ws).
         \<exists>message. (message, channel) \<in> set (ws_requests ws) \<and> answers message result)
    \<and> (flow \<noteq> Ended None \<longrightarrow> (\<forall>(message, channel) \<in> set (ws_requests ws).
         channel \<in> set (map fst (ws_replies ws)) \<or> channel \<in> set (ws_closed ws)
         \<or> flow = Continue \<and> channel \<in> set (map snd (ws_pending ws))))"
proof -
  obtain flow1 ws1 sv1 where run: "session_events events (session_start generation) sv = (flow1, ws1, sv1)"
    by (metis prod_cases3)
  have same: "flow1 = flow" "ws_requests ws1 = ws_requests ws" "ws_closed ws1 = ws_closed ws"
    using assms(1) run
    by (auto simp: run_session_def finish_session_def split: session_flow.splits option.splits prod.splits)
  have "requests_distinct ws1" using assms(2) same by (simp add: requests_distinct_def request_ids_def)
  from session_events_ok [OF run session_start_ok this]
  have ok: "session_ok ws1" by blast
  have replies: "ws_replies ws = ws_replies ws1 \<and> ws_pending ws = ws_pending ws1 \<and> flow = Continue
      \<or> ws_replies ws = ws_replies ws1 \<and> flow = Ended None
      \<or> (\<exists>error. ws_replies ws = ws_replies ws1 @ map (\<lambda>(_, channel). (channel, Inl error)) (ws_pending ws1)
          \<and> flow = Ended (Some error))"
    using assms(1) run
    by (auto simp: run_session_def finish_session_def split: session_flow.splits option.splits prod.splits)
  have fsts: "map fst (map (\<lambda>(_, channel). (channel, Inl error :: string + control_message)) (ws_pending ws1))
      = map snd (ws_pending ws1)" for error
    by (simp add: case_prod_beta comp_def)
  from ok have parts: "distinct (map snd (ws_pending ws1))" "distinct (map fst (ws_replies ws1))"
    "snd ` set (ws_pending ws1) \<inter> fst ` set (ws_replies ws1) = {}"
    "snd ` set (ws_requests ws) = snd ` set (ws_pending ws1) \<union> fst ` set (ws_replies ws1) \<union> set (ws_closed ws)"
    using same by (auto simp: session_ok_def known_channels_def)
  have known: "\<exists>message. (message, channel) \<in> set (ws_requests ws) \<and> answers message result"
    if "(channel, result) \<in> set (ws_replies ws1)" for channel result
    using ok that same unfolding session_ok_def by fastforce
  have known': "\<exists>message. (message, channel) \<in> set (ws_requests ws) \<and> answers message (Inl error)"
    if "(rid, channel) \<in> set (ws_pending ws1)" for rid channel error
    using ok that same unfolding session_ok_def answers_def by fastforce
  have placed: "channel \<in> snd ` set (ws_pending ws1) \<union> fst ` set (ws_replies ws1) \<union> set (ws_closed ws)"
    if "(message, channel) \<in> set (ws_requests ws)" for message channel
    using that parts(4) by force
  from replies show ?thesis
  proof (elim disjE conjE exE)
    assume eqs: "ws_replies ws = ws_replies ws1" "ws_pending ws = ws_pending ws1" "flow = Continue"
    show ?thesis using parts known placed unfolding eqs by (auto; blast)
  next
    assume eqs: "ws_replies ws = ws_replies ws1" "flow = Ended None"
    show ?thesis using parts known unfolding eqs by auto
  next
    fix error
    assume eqs: "ws_replies ws = ws_replies ws1 @ map (\<lambda>(_, channel). (channel, Inl error)) (ws_pending ws1)"
      "flow = Ended (Some error)"
    have "distinct (map fst (ws_replies ws))" unfolding eqs map_append fsts using parts by auto
    moreover have "\<forall>(channel, result) \<in> set (ws_replies ws).
        \<exists>message. (message, channel) \<in> set (ws_requests ws) \<and> answers message result"
      unfolding eqs using known known' by auto
    moreover have "set (map fst (ws_replies ws)) = snd ` set (ws_pending ws1) \<union> fst ` set (ws_replies ws1)"
      unfolding eqs map_append fsts by auto
    then have "channel \<in> set (map fst (ws_replies ws)) \<or> channel \<in> set (ws_closed ws)"
      if "(message, channel) \<in> set (ws_requests ws)" for message channel
      using placed [OF that] by simp
    then have "\<forall>(message, channel) \<in> set (ws_requests ws).
        channel \<in> set (map fst (ws_replies ws)) \<or> channel \<in> set (ws_closed ws)"
      by auto
    ultimately show ?thesis by blast
  qed
qed

text \<open>A request, a heartbeat, its answer; then the process exits while another request waits.\<close>

definition example_requests :: "session_event list" where
  "example_requests =
     [EvCommand (Request (SaveState 4) 10) False, EvCommand (Request (Panic 5) 11) False,
      EvControl (Ack 4) 3 (\<lambda>sv. sv), EvControlError ''closed'']"

theorem requests_answered_once_witness:
  "\<exists>ws. run_session 1 9 (\<lambda>sv. sv) example_requests supervisor_new
      = (Ended (Some ''closed''), ws, supervisor_new)
    \<and> ws_replies ws = [(10, Inr (Ack 4)), (11, Inl ''closed'')] \<and> distinct (map fst (ws_replies ws))"
proof -
  define ws where "ws = fst (snd (run_session 1 9 (\<lambda>sv. sv) example_requests supervisor_new))"
  have run: "run_session 1 9 (\<lambda>sv. sv) example_requests supervisor_new
      = (Ended (Some ''closed''), ws, supervisor_new)"
    and vals: "ws_replies ws = [(10, Inr (Ack 4)), (11, Inl ''closed'')]" "requests_distinct ws"
    by (simp_all add: ws_def example_requests_def supervisor_new_def run_session_def session_start_def
        session_step_def serve_command_def session_message_def message_request_id_def reply_def
        finish_session_def publish_session_fault_def requests_distinct_def request_ids_def List.map_filter_def)
  from requests_answered_once [OF run vals(2)] run vals(1) show ?thesis by blast
qed

section \<open>No false alarm\<close>

text \<open>Other tasks leave alone what the poll looks at; they may set the state.\<close>

definition health :: "supervisor \<Rightarrow> nat option \<times> u64 \<times> nat option \<times> nat option \<times> worker_metrics \<times> bool" where
  "health sv = (ss_last_heartbeat (sv_status sv), ss_last_callback (sv_status sv), ss_callback_progress (sv_status sv),
     ss_maintenance_started (sv_status sv), sn_metrics (ss_snapshot (sv_status sv)), sv_midi_transport_failed sv)"

definition keeps_health :: "(supervisor \<Rightarrow> supervisor) \<Rightarrow> bool" where
  "keeps_health moves \<longleftrightarrow> (\<forall>sv. health (moves sv) = health sv)"

text \<open>
  A process in order, since its last heartbeat at \<open>t\<close> with callback count \<open>n\<close>: each heartbeat shows progress
  of the audio callback, no maintenance and a working MIDI pipe; each poll finds the process running and comes
  less than five seconds after a heartbeat; both pipes work.
\<close>

fun steady :: "nat \<Rightarrow> u64 \<Rightarrow> session_event list \<Rightarrow> bool" where
  "steady t n [] = True"
| "steady t n (EvCommand command closed # es) = (command \<noteq> Shutdown \<and> steady t n es)"
| "steady t n (EvControl message now moves # es) =
     (keeps_health moves \<and>
      (case message of
         Heartbeat _ _ metrics \<Rightarrow> \<not> wm_maintenance metrics \<and> \<not> wm_midi_transport_failed metrics
           \<and> wm_callback_count metrics \<noteq> n \<and> steady now (wm_callback_count metrics) es
       | _ \<Rightarrow> steady t n es))"
| "steady t n (EvPoll pr # es) =
     (pr_process pr = StillRunning \<and> (\<forall>k < 4. pr_now pr k < t + HEARTBEAT_TIMEOUT)
      \<and> (\<forall>k < 4. keeps_health (pr_moves pr k)) \<and> steady t n es)"
| "steady t n (_ # es) = False"

definition in_health :: "nat \<Rightarrow> u64 \<Rightarrow> supervisor \<Rightarrow> bool" where
  "in_health t n sv \<longleftrightarrow> ss_last_heartbeat (sv_status sv) = Some t \<and> ss_last_callback (sv_status sv) = n
     \<and> ss_callback_progress (sv_status sv) \<in> {None, Some t} \<and> ss_maintenance_started (sv_status sv) = None
     \<and> \<not> wm_maintenance (sn_metrics (ss_snapshot (sv_status sv)))
     \<and> \<not> wm_midi_transport_failed (sn_metrics (ss_snapshot (sv_status sv))) \<and> \<not> sv_midi_transport_failed sv"

lemma in_health_moves: "keeps_health moves \<Longrightarrow> in_health t n sv \<Longrightarrow> in_health t n (moves sv)"
  unfolding keeps_health_def by (auto simp: health_def in_health_def dest: spec [of _ sv])

lemma in_health_snapshot:
  assumes "in_health t n sv" and "\<And>s. sn_metrics (f s) = sn_metrics s"
  shows "in_health t n (set_snapshot f sv)"
  using assms by (simp add: in_health_def set_snapshot_def)

lemma in_health_heartbeat:
  assumes "in_health t n sv" and "\<not> wm_maintenance metrics" and "\<not> wm_midi_transport_failed metrics"
    and "wm_callback_count metrics \<noteq> n"
  shows "in_health now (wm_callback_count metrics) (heartbeat now metrics sv)"
  using assms by (simp add: in_health_def heartbeat_def Let_def split: option.splits)

lemma check_health_ok:
  assumes sv: "in_health t n sv" and time: "\<forall>k < 4. pr_now pr k < t + HEARTBEAT_TIMEOUT"
    and moves: "\<forall>k < 4. keeps_health (pr_moves pr k)"
  shows "\<exists>sv'. check_health pr sv = (Continue, sv') \<and> in_health t n sv'"
proof -
  define sv1 where "sv1 = pr_moves pr 1 sv"
  define sv2 where "sv2 = set_snapshot (\<lambda>s. s\<lparr>sn_heartbeat_delayed :=
    elapsed_at_least HEARTBEAT_WARNING (ss_last_heartbeat (sv_status sv1)) (pr_now pr 0)\<rparr>) sv1"
  define sv3 where "sv3 = pr_moves pr 2 sv2"
  define sv4 where "sv4 = pr_moves pr 3 sv3"
  have kept: "keeps_health (pr_moves pr 1)" "keeps_health (pr_moves pr 2)" "keeps_health (pr_moves pr 3)"
    using moves by simp_all
  have "in_health t n sv1" unfolding sv1_def by (rule in_health_moves [OF kept(1) sv])
  then have ok2: "in_health t n sv2" unfolding sv2_def by (rule in_health_snapshot) simp
  then have ok3: "in_health t n sv3" unfolding sv3_def by (rule in_health_moves [OF kept(2)])
  then have ok4: "in_health t n sv4" unfolding sv4_def by (rule in_health_moves [OF kept(3)])
  have young: "pr_now pr 1 - t < HEARTBEAT_TIMEOUT" "pr_now pr 2 - t < HEARTBEAT_TIMEOUT"
    using time [rule_format, of 1] time [rule_format, of 2] by (simp_all add: HEARTBEAT_TIMEOUT_def)
  have "\<not> heartbeat_expired (pr_now pr 1) sv2" "\<not> callback_stalled (pr_now pr 2) sv3"
    "\<not> maintenance_expired (pr_now pr 3) sv4"
    using ok2 ok3 ok4 young
    by (auto simp: heartbeat_expired_def callback_stalled_def maintenance_expired_def elapsed_at_least_def in_health_def)
  moreover have "check_health pr sv =
    (if heartbeat_expired (pr_now pr 1) sv2 then Ended (Some ''worker heartbeat timed out after 5 seconds'')
     else if maintenance_expired (pr_now pr 3) sv4 then Ended (Some ''worker maintenance exceeded 10 seconds'')
     else if callback_stalled (pr_now pr 2) sv3 then Ended (Some ''worker audio callback stalled for 5 seconds'')
     else Continue, sv4)"
    unfolding check_health_def Let_def sv1_def sv2_def sv3_def sv4_def ..
  ultimately show ?thesis using ok4 by simp
qed

text \<open>
  A plugin process in order is never declared dead: from a state in which its last heartbeat is at time
  \<open>t\<close>, a session goes on as long as the pipes work, every heartbeat shows that the audio callback advances,
  and every poll finds the process running and comes less than five seconds after the latest heartbeat,
  whatever requests are served meanwhile.
\<close>

theorem healthy_session_continues:
  assumes "in_health t n sv" and "steady t n events"
  shows "fst (session_events events ws sv) = Continue"
  using assms
proof (induction events arbitrary: t n ws sv rule: list.induct)
  case (Cons event events)
  show ?case
  proof (cases event)
    case (EvCommand command closed)
    have "fst (serve_command command closed ws) = Continue"
      using Cons.prems(2) EvCommand
      by (auto simp: serve_command_def Let_def split: session_command.splits option.splits)
    then obtain ws1 where "serve_command command closed ws = (Continue, ws1)" by (metis prod.collapse)
    then show ?thesis using Cons EvCommand by (simp add: session_step_def)
  next
    case (EvControl message now moves)
    have kept: "in_health t n (moves sv)" by (rule in_health_moves [OF _ Cons.prems(1)]) (use Cons.prems(2) EvControl in simp)
    obtain ws1 sv1 where step: "session_message now message ws (moves sv) = (ws1, sv1)" by fastforce
    have "\<exists>t n. in_health t n sv1 \<and> steady t n events"
    proof (cases "\<exists>a b metrics. message = Heartbeat a b metrics")
      case True
      then obtain a b metrics where message: "message = Heartbeat a b metrics" by blast
      then have "sv1 = heartbeat now metrics (moves sv)" using step by (simp add: session_message_def)
      then have "in_health now (wm_callback_count metrics) sv1"
        using in_health_heartbeat [OF kept, of metrics now] Cons.prems(2) EvControl message by simp
      then show ?thesis using Cons.prems(2) EvControl message by auto
    next
      case False
      then have "sv1 = moves sv \<or> sv1 = set_snapshot (\<lambda>s. s\<lparr>sn_editor_open := False\<rparr>) (moves sv)"
        using step by (auto simp: session_message_def split: control_message.splits option.splits)
      then have "in_health t n sv1" using kept in_health_snapshot [OF kept] by auto
      moreover have "steady t n events" using Cons.prems(2) EvControl False by (cases message) auto
      ultimately show ?thesis by blast
    qed
    then show ?thesis using Cons.IH EvControl step by (auto simp: session_step_def)
  next
    case (EvPoll pr)
    have kept: "in_health t n (pr_moves pr 0 sv)"
      by (rule in_health_moves [OF _ Cons.prems(1)]) (use Cons.prems(2) EvPoll in simp)
    have time: "\<forall>k < 4. pr_now pr k < t + HEARTBEAT_TIMEOUT" "\<forall>k < 4. keeps_health (pr_moves pr k)"
      using Cons.prems(2) EvPoll by simp_all
    obtain sv1 where "check_health pr (pr_moves pr 0 sv) = (Continue, sv1)" "in_health t n sv1"
      using check_health_ok [OF kept time] by blast
    moreover have "\<not> transport_failed (pr_moves pr 0 sv)" using kept by (simp add: transport_failed_def in_health_def)
    ultimately show ?thesis
      using Cons EvPoll by (simp add: session_step_def session_poll_def)
  qed (use Cons.prems(2) in simp_all)
qed simp

text \<open>Two heartbeats, a request between them, and polls within the limit.\<close>

definition example_heartbeat :: "nat \<Rightarrow> u64 \<Rightarrow> session_event" where
  "example_heartbeat now callbacks =
     EvControl (Heartbeat 1 0 (default_worker_metrics\<lparr>wm_callback_count := callbacks\<rparr>)) now (\<lambda>sv. sv)"

definition example_poll :: "nat \<Rightarrow> session_event" where
  "example_poll now = EvPoll \<lparr>pr_now = \<lambda>_. now, pr_closed = [], pr_process = StillRunning, pr_moves = \<lambda>_ sv. sv\<rparr>"

definition example_running :: supervisor where
  "example_running = supervisor_new\<lparr>sv_status := (sv_status supervisor_new)\<lparr>ss_last_heartbeat := Some 0\<rparr>\<rparr>"

theorem healthy_session_continues_witness:
  "fst (session_events [example_poll (10 ^ 9), example_heartbeat (2 * 10 ^ 9) 5,
      EvCommand (Request (Panic 5) 11) False, example_poll (6 * 10 ^ 9), example_heartbeat (6 * 10 ^ 9) 9,
      example_poll (10 * 10 ^ 9)] (session_start 1) (set_state WorkerReady example_running)) = Continue"
proof (rule healthy_session_continues)
  show "in_health 0 0 (set_state WorkerReady example_running)"
    by (simp add: in_health_def set_state_def set_snapshot_def example_running_def supervisor_new_def
        default_worker_metrics_def)
  show "steady 0 0 [example_poll (10 ^ 9), example_heartbeat (2 * 10 ^ 9) 5,
      EvCommand (Request (Panic 5) 11) False, example_poll (6 * 10 ^ 9), example_heartbeat (6 * 10 ^ 9) 9,
      example_poll (10 * 10 ^ 9)]"
    by (simp add: example_poll_def example_heartbeat_def keeps_health_def default_worker_metrics_def HEARTBEAT_TIMEOUT_def)
qed

end
