(* ===== verification/Worker_Lifecycle.thy ===== *)
theory Worker_Lifecycle
  imports Worker_Session
begin

text \<open>
  Starting, stopping and commanding the plugin process (the public operations of \<open>VstWorkerSupervisor\<close> in
  \<open>vst_worker/supervisor.rs\<close>). The lifecycle mutex lets one of them run at a time; what the session's task and
  the callers that only raise the generation do meanwhile is a function before each access to the shared state.
  How the pipes, the process and the session's task answer is part of the environment of a call.
\<close>

section \<open>Requests\<close>

datatype request_outcome = NotSent | TimedOut | ResponseClosed | Answered "string + control_message"

record request_env =
  rq_outcome :: request_outcome
  rq_moves :: "nat \<Rightarrow> supervisor \<Rightarrow> supervisor"
  rq_debug :: "control_message \<Rightarrow> string"

definition next_request_id :: "supervisor \<Rightarrow> u64 \<times> supervisor" where
  "next_request_id sv = (sv_request_sequence sv, sv\<lparr>sv_request_sequence := sv_request_sequence sv + 1\<rparr>)"

abbreviation superseded :: string where
  "superseded \<equiv> ''VST worker command superseded by a lifecycle change''"

text \<open>The message itself is built before; a timeout is reported before the generation is compared again.\<close>

definition request_with_timeout :: "request_env \<Rightarrow> supervisor \<Rightarrow> (string + control_message) \<times> supervisor" where
  "request_with_timeout env sv =
     (let sv = rq_moves env 0 sv in
      case sv_session sv of
        None \<Rightarrow> (Inl ''VST worker is not connected'', sv)
      | Some generation \<Rightarrow>
          let sv = rq_moves env 1 sv in
          if generation \<noteq> sv_lifecycle sv then (Inl superseded, sv)
          else
            let sv = rq_moves env 2 sv in
            (case rq_outcome env of
               TimedOut \<Rightarrow> (Inl ''VST worker command timed out'', sv)
             | outcome \<Rightarrow>
                 if generation \<noteq> sv_lifecycle sv then (Inl superseded, sv)
                 else (case outcome of
                         NotSent \<Rightarrow> Inl ''VST worker control channel is closed''
                       | ResponseClosed \<Rightarrow> Inl ''VST worker response channel closed''
                       | TimedOut \<Rightarrow> Inl ''VST worker command timed out''
                       | Answered response \<Rightarrow> response, sv)))"

definition expect_ack :: "request_env \<Rightarrow> supervisor \<Rightarrow> (string + unit) \<times> supervisor" where
  "expect_ack env sv =
     (case request_with_timeout env sv of
        (Inl e, sv) \<Rightarrow> (Inl e, sv)
      | (Inr message, sv) \<Rightarrow>
          (case message of
             Ack _ \<Rightarrow> Inr ()
           | Error _ _ text \<Rightarrow> Inl text
           | other \<Rightarrow> Inl (''unexpected worker acknowledgement: '' @ rq_debug env other), sv))"

text \<open>\<open>control_lifecycle\<close>: the generation is read, then the mutex awaited.\<close>

definition control_lifecycle ::
  "(supervisor \<Rightarrow> supervisor) \<Rightarrow> bool \<Rightarrow> supervisor \<Rightarrow> (string + unit) \<times> supervisor" where
  "control_lifecycle moves in_time sv =
     (let generation = sv_lifecycle sv; sv = moves sv in
      if \<not> in_time then (Inl ''VST worker lifecycle operation timed out'', sv)
      else if generation \<noteq> sv_lifecycle sv then (Inl superseded, sv)
      else (Inr (), sv))"

section \<open>Stopping\<close>

datatype join_outcome = Joined | JoinFailed string | JoinTimedOut

record stop_env =
  st_outcome :: request_outcome
  st_join :: join_outcome
  st_moves :: "nat \<Rightarrow> supervisor \<Rightarrow> supervisor"
  st_debug :: "control_message \<Rightarrow> string"

definition stop_reply :: "stop_env \<Rightarrow> string + unit" where
  "stop_reply env =
     (case st_outcome env of
        NotSent \<Rightarrow> Inl ''worker control channel is closed''
      | TimedOut \<Rightarrow> Inl ''worker did not stop within 10 seconds''
      | ResponseClosed \<Rightarrow> Inl ''worker stop response channel closed''
      | Answered (Inl e) \<Rightarrow> Inl e
      | Answered (Inr (Stopped _)) \<Rightarrow> Inr ()
      | Answered (Inr other) \<Rightarrow> Inl (''Unexpected worker stop response: '' @ st_debug env other))"

definition join_reply :: "stop_env \<Rightarrow> string + unit \<Rightarrow> string + unit" where
  "join_reply env result =
     (case st_join env of
        Joined \<Rightarrow> result
      | JoinFailed error \<Rightarrow> if is_ok result then Inl (''worker session join failed: '' @ error) else result
      | JoinTimedOut \<Rightarrow> Inl ''worker session did not terminate within 10 seconds'')"

definition stop_session :: "stop_env \<Rightarrow> supervisor \<Rightarrow> (string + unit) \<times> supervisor" where
  "stop_session env sv =
     (let sv = set_state Stopping (st_moves env 0 (sv\<lparr>sv_midi_route := False\<rparr>));
          sv = st_moves env 1 sv;
          session = sv_session sv;
          sv = sv\<lparr>sv_session := None\<rparr>;
          (result, sv) =
            (case session of
               None \<Rightarrow> (Inr (), sv)
             | Some _ \<Rightarrow>
                 (case next_request_id sv of (request_id, sv) \<Rightarrow> (join_reply env (stop_reply env), st_moves env 2 sv)))
      in (result, set_state (if is_ok result then Disabled else Faulted) sv))"

definition stop_worker :: "stop_env \<Rightarrow> (supervisor \<Rightarrow> supervisor) \<Rightarrow> supervisor \<Rightarrow> (string + unit) \<times> supervisor" where
  "stop_worker env moves sv =
     stop_session env (moves (sv\<lparr>sv_lifecycle := sv_lifecycle sv + 1, sv_midi_route := False\<rparr>))"

section \<open>Starting\<close>

datatype connection = Connected | Refused string | TaskExited | ConnectTimedOut

definition connection_error :: "connection \<Rightarrow> string option" where
  "connection_error c =
     (case c of
        Connected \<Rightarrow> None
      | Refused error \<Rightarrow> Some error
      | TaskExited \<Rightarrow> Some ''worker connection task exited before authentication''
      | ConnectTimedOut \<Rightarrow> Some ''timed out authenticating VST worker'')"

text \<open>\<open>sa_pipes\<close>: the first error in making the control pipe, the MIDI runtime and the MIDI pipe.\<close>

record start_env =
  sa_moves :: "nat \<Rightarrow> supervisor \<Rightarrow> supervisor"
  sa_stop :: stop_env
  sa_stop_again :: stop_env
  sa_pipes :: "string + unit"
  sa_spawn :: "string + unit"
  sa_connection :: connection
  sa_load :: request_env
  sa_now :: nat

definition publish_ready :: "bool \<Rightarrow> nat \<Rightarrow> worker_audio_status \<Rightarrow> supervisor \<Rightarrow> supervisor" where
  "publish_ready game_mode now status sv =
     sv\<lparr>sv_status := (sv_status sv)\<lparr>
        ss_snapshot := (ss_snapshot (sv_status sv))\<lparr>sn_status := Some status, sn_state := WorkerReady,
          sn_metrics := (sn_metrics (ss_snapshot (sv_status sv)))\<lparr>wm_game_mode := game_mode\<rparr>\<rparr>,
        ss_callback_progress := Some now, ss_last_callback := 0, ss_maintenance_started := None\<rparr>\<rparr>"

definition abandon_start :: "start_env \<Rightarrow> string \<Rightarrow> supervisor \<Rightarrow> (string + worker_audio_status) \<times> supervisor" where
  "abandon_start env error sv = (Inl error, set_fault error (snd (stop_session (sa_stop_again env) sv)))"

definition load_worker :: "start_env \<Rightarrow> audio_settings \<Rightarrow> supervisor \<Rightarrow> (string + worker_audio_status) \<times> supervisor" where
  "load_worker env settings sv =
     (case next_request_id (sa_moves env 4 sv) of (request_id, sv) \<Rightarrow>
      (case request_with_timeout (sa_load env) sv of
         (Inl error, sv) \<Rightarrow> abandon_start env error sv
       | (Inr response, sv) \<Rightarrow>
           let sv = sa_moves env 5 sv in
           (case response of
              Ready _ status \<Rightarrow> (Inr status, publish_ready (as_game_mode settings) (sa_now env) status sv)
            | Error _ _ message \<Rightarrow> abandon_start env message sv
            | other \<Rightarrow> abandon_start env (''unexpected worker load response: '' @ rq_debug (sa_load env) other) sv)))"

definition start_generation ::
  "start_env \<Rightarrow> audio_settings \<Rightarrow> string option \<Rightarrow> u64 \<Rightarrow> supervisor
     \<Rightarrow> (string + worker_audio_status) \<times> supervisor" where
  "start_generation env settings class_uid generation sv =
     (let sv = sa_moves env 0 sv in
      if generation \<noteq> sv_lifecycle sv
      then (Inl ''Worker start superseded by another lifecycle request'', sv)
      else
        let sv = sa_moves env 1 (snd (stop_session (sa_stop env) sv));
            sv = set_state Starting
              (sv\<lparr>sv_last_load := Some (settings, class_uid), sv_midi_transport_failed := False\<rparr>)
        in case sa_pipes env of
             Inl error \<Rightarrow> (Inl error, sv)
           | Inr _ \<Rightarrow>
               (case sa_spawn env of
                  Inl error \<Rightarrow> (Inl error, set_fault error sv)
                | Inr _ \<Rightarrow>
                    let sv = sa_moves env 2 sv in
                    (case connection_error (sa_connection env) of
                       Some error \<Rightarrow> (Inl error, set_fault error (sa_moves env 3 sv))
                     | None \<Rightarrow>
                         load_worker env settings
                           (set_state Loading (sv\<lparr>sv_session := Some generation, sv_midi_route := True\<rparr>)))))"

definition start_worker ::
  "start_env \<Rightarrow> audio_settings \<Rightarrow> string option \<Rightarrow> supervisor \<Rightarrow> (string + worker_audio_status) \<times> supervisor" where
  "start_worker env settings class_uid sv =
     start_generation env settings class_uid (sv_lifecycle sv + 1) (sv\<lparr>sv_lifecycle := sv_lifecycle sv + 1\<rparr>)"

text \<open>A scheduled restart, a tenth of a second later.\<close>

definition run_restart :: "start_env \<Rightarrow> (supervisor \<Rightarrow> supervisor) \<Rightarrow> audio_settings \<times> string option \<times> u64 \<Rightarrow> supervisor \<Rightarrow> supervisor" where
  "run_restart env moves scheduled sv =
     (case scheduled of (settings, class_uid, generation) \<Rightarrow>
       (case start_generation env settings class_uid generation sv of
          (Inr _, sv) \<Rightarrow> sv
        | (Inl error, sv) \<Rightarrow>
            let sv = moves sv in
            if generation = sv_lifecycle sv then set_fault (''VST worker restart failed: '' @ error) sv else sv))"

section \<open>Commands\<close>

record command_env =
  co_lifecycle :: "supervisor \<Rightarrow> supervisor"
  co_in_time :: bool
  co_request :: request_env
  co_publish :: "supervisor \<Rightarrow> supervisor"
  co_save :: request_env

text \<open>
  A command under the lifecycle mutex: a request for an acknowledgement, then \<open>publish\<close>. Between the last look at the
  generation and the publication other tasks may act, \<open>co_publish\<close>.
\<close>

definition run_command ::
  "command_env \<Rightarrow> (supervisor \<Rightarrow> supervisor) \<Rightarrow> supervisor \<Rightarrow> (string + unit) \<times> supervisor" where
  "run_command env publish sv =
     (case control_lifecycle (co_lifecycle env) (co_in_time env) sv of
        (Inl e, sv) \<Rightarrow> (Inl e, sv)
      | (Inr _, sv) \<Rightarrow>
          (case expect_ack (co_request env) (snd (next_request_id sv)) of
             (Inl e, sv) \<Rightarrow> (Inl e, sv)
           | (Inr _, sv) \<Rightarrow> (Inr (), publish (co_publish env sv))))"

definition publish_game_mode :: "bool \<Rightarrow> supervisor \<Rightarrow> supervisor" where
  "publish_game_mode enabled sv =
     (let sv = set_snapshot (\<lambda>s. s\<lparr>sn_metrics := (sn_metrics s)\<lparr>wm_game_mode := enabled\<rparr>\<rparr>) sv;
          sv = sv\<lparr>sv_last_load := map_option (\<lambda>(settings, uid). (settings\<lparr>as_game_mode := enabled\<rparr>, uid)) (sv_last_load sv)\<rparr>
      in if enabled then set_snapshot (\<lambda>s. s\<lparr>sn_editor_open := False\<rparr>) sv else sv)"

definition set_game_mode :: "command_env \<Rightarrow> bool \<Rightarrow> supervisor \<Rightarrow> (string + unit) \<times> supervisor" where
  "set_game_mode env enabled sv = run_command env (publish_game_mode enabled) sv"

definition open_editor :: "command_env \<Rightarrow> supervisor \<Rightarrow> (string + unit) \<times> supervisor" where
  "open_editor env sv =
     run_command env (set_snapshot (\<lambda>s. s\<lparr>sn_editor_open := \<not> wm_game_mode (sn_metrics s)\<rparr>)) sv"

definition save_state :: "request_env \<Rightarrow> supervisor \<Rightarrow> (string + unit) \<times> supervisor" where
  "save_state env sv = expect_ack env (snd (next_request_id sv))"

definition close_editor :: "command_env \<Rightarrow> supervisor \<Rightarrow> (string + unit) \<times> supervisor" where
  "close_editor env sv =
     (case run_command env (set_snapshot (\<lambda>s. s\<lparr>sn_editor_open := False\<rparr>)) sv of
        (Inl e, sv) \<Rightarrow> (Inl e, sv)
      | (Inr _, sv) \<Rightarrow> save_state (co_save env) sv)"

definition set_parameter :: "command_env \<Rightarrow> supervisor \<Rightarrow> (string + unit) \<times> supervisor" where
  "set_parameter env sv = run_command env (\<lambda>sv. sv\<lparr>sv_state_generation := sv_state_generation sv + 1\<rparr>) sv"

text \<open>The autosave two seconds after a parameter was set, unless another was set meanwhile.\<close>

definition autosave :: "request_env \<Rightarrow> u64 \<Rightarrow> supervisor \<Rightarrow> (string + unit) option \<times> supervisor" where
  "autosave env generation sv =
     (if sv_state_generation sv \<noteq> generation \<or> sv_state sv \<noteq> WorkerReady then (None, sv)
      else case save_state env sv of (result, sv) \<Rightarrow> (Some result, sv))"

text \<open>\<open>try_notify\<close> and the settings that are sent without waiting; \<open>admitted\<close> is the queue's answer.\<close>

definition try_notify :: "bool \<Rightarrow> supervisor \<Rightarrow> bool" where
  "try_notify admitted sv = (case sv_session sv of None \<Rightarrow> False | Some generation \<Rightarrow> generation = sv_lifecycle sv \<and> admitted)"

definition try_set_audio :: "(audio_settings \<Rightarrow> audio_settings) \<Rightarrow> bool \<Rightarrow> supervisor \<Rightarrow> bool \<times> supervisor" where
  "try_set_audio f admitted sv =
     (let sv = snd (next_request_id sv) in
      if try_notify admitted sv
      then (True, sv\<lparr>sv_last_load := map_option (\<lambda>(settings, uid). (f settings, uid)) (sv_last_load sv)\<rparr>)
      else (False, sv))"

definition try_set_gain :: "f32 \<Rightarrow> bool \<Rightarrow> supervisor \<Rightarrow> bool \<times> supervisor" where
  "try_set_gain gain_db = try_set_audio (\<lambda>settings. settings\<lparr>as_gain_db := gain_db\<rparr>)"

definition try_set_limiter_enabled :: "bool \<Rightarrow> bool \<Rightarrow> supervisor \<Rightarrow> bool \<times> supervisor" where
  "try_set_limiter_enabled enabled = try_set_audio (\<lambda>settings. settings\<lparr>as_limiter_enabled := enabled\<rparr>)"

definition try_set_eq :: "vst_eq_settings \<Rightarrow> bool \<Rightarrow> supervisor \<Rightarrow> bool \<times> supervisor" where
  "try_set_eq eq = try_set_audio (\<lambda>settings. settings\<lparr>as_vst_eq := eq\<rparr>)"

definition list_parameters :: "request_env \<Rightarrow> supervisor \<Rightarrow> (string + vst_parameter list) \<times> supervisor" where
  "list_parameters env sv =
     (case request_with_timeout env (snd (next_request_id sv)) of
        (Inl e, sv) \<Rightarrow> (Inl e, sv)
      | (Inr message, sv) \<Rightarrow>
          (case message of
             Parameters _ parameters \<Rightarrow> Inr parameters
           | Error _ _ text \<Rightarrow> Inl text
           | other \<Rightarrow> Inl (''unexpected parameter response: '' @ rq_debug env other), sv))"

definition panic_all_notes :: "request_env \<Rightarrow> supervisor \<Rightarrow> (string + unit) \<times> supervisor" where
  "panic_all_notes env sv = expect_ack env (snd (next_request_id sv))"


section \<open>Who is let in\<close>

definition VST_HOST_ABI_VERSION :: u32 where "VST_HOST_ABI_VERSION = 14"

text \<open>\<open>authenticate_worker\<close>; the two numbers in the message are formatted by the library.\<close>

definition authenticate_worker ::
  "(u32 \<Rightarrow> string) \<Rightarrow> string \<Rightarrow> string \<Rightarrow> string + control_message \<Rightarrow> string + unit" where
  "authenticate_worker show_u32 expected_session expected_token hello =
     (case hello of
        Inl error \<Rightarrow> Inl (''Failed to read worker hello: '' @ error)
      | Inr (Hello version abi session tok _) \<Rightarrow>
          if version = CONTROL_PROTOCOL_VERSION \<and> abi = VST_HOST_ABI_VERSION
            \<and> session = expected_session \<and> tok = expected_token then Inr ()
          else Inl (''worker authentication/protocol mismatch (protocol='' @ show_u32 version
            @ '', ABI='' @ show_u32 abi @ '')'')
      | Inr _ \<Rightarrow> Inl ''worker did not send an authenticated hello'')"

section \<open>What a start leaves behind\<close>

text \<open>
  While the mutex is held nobody else installs a session or publishes a route; the session's own task may take
  both away.
\<close>

definition only_removes :: "(nat \<Rightarrow> supervisor \<Rightarrow> supervisor) \<Rightarrow> bool" where
  "only_removes moves \<longleftrightarrow> (\<forall>n sv. sv_session (moves n sv) \<in> {None, sv_session sv}
     \<and> (sv_midi_route (moves n sv) \<longrightarrow> sv_midi_route sv))"

definition without_session :: "supervisor \<Rightarrow> bool" where
  "without_session sv \<longleftrightarrow> sv_session sv = None \<and> \<not> sv_midi_route sv"

lemma without_session_moves: "only_removes moves \<Longrightarrow> without_session sv \<Longrightarrow> without_session (moves n sv)"
  unfolding only_removes_def without_session_def by (metis insertE singletonD)

lemma without_session_state [simp]:
  "without_session (set_state state sv) = without_session sv"
  "without_session (set_fault error sv) = without_session sv"
  "sv_state (set_state state sv) = state" "sv_state (set_fault error sv) = Faulted"
  "sn_last_exit (ss_snapshot (sv_status (set_fault error sv))) = Some error"
  by (simp_all add: without_session_def set_state_def set_fault_def set_snapshot_def)

lemma stop_session_leaves:
  assumes "only_removes (st_moves env)"
  shows "without_session (snd (stop_session env sv))"
proof -
  define sv0 where "sv0 = set_state Stopping (st_moves env 0 (sv\<lparr>sv_midi_route := False\<rparr>))"
  define sv1 where "sv1 = (st_moves env 1 sv0)\<lparr>sv_session := None\<rparr>"
  have "sv_midi_route (st_moves env 0 (sv\<lparr>sv_midi_route := False\<rparr>)) \<longrightarrow> sv_midi_route (sv\<lparr>sv_midi_route := False\<rparr>)"
    using assms unfolding only_removes_def by blast
  then have closed: "\<not> sv_midi_route sv0" by (simp add: sv0_def set_state_def set_snapshot_def)
  then have "\<not> sv_midi_route (st_moves env 1 sv0)" using assms unfolding only_removes_def by blast
  then have gone: "without_session sv1" by (simp add: sv1_def without_session_def)
  then have "without_session (sv1\<lparr>sv_request_sequence := n\<rparr>)" for n by (simp add: without_session_def)
  then have "without_session (st_moves env 2 (sv1\<lparr>sv_request_sequence := n\<rparr>))" for n
    by (rule without_session_moves [OF assms])
  then show ?thesis
    using gone unfolding stop_session_def Let_def sv0_def [symmetric] sv1_def [symmetric] next_request_id_def
    by (cases "sv_session (st_moves env 1 sv0)") simp_all
qed

lemma abandon_start_leaves:
  assumes "only_removes (st_moves (sa_stop_again env))" and "abandon_start env error sv = (Inl e, sv')"
  shows "without_session sv' \<and> sv_state sv' = Faulted \<and> sn_last_exit (ss_snapshot (sv_status sv')) = Some e"
  using assms stop_session_leaves [OF assms(1)] by (auto simp: abandon_start_def)

definition quiet_start :: "start_env \<Rightarrow> bool" where
  "quiet_start env \<longleftrightarrow> only_removes (sa_moves env) \<and> only_removes (st_moves (sa_stop env))
     \<and> only_removes (st_moves (sa_stop_again env)) \<and> only_removes (rq_moves (sa_load env))"

lemma load_worker_outcome:
  assumes quiet: "quiet_start env" and load: "load_worker env settings sv = (result, sv')"
  shows "case result of
      Inl e \<Rightarrow> without_session sv' \<and> sv_state sv' = Faulted \<and> sn_last_exit (ss_snapshot (sv_status sv')) = Some e
    | Inr status \<Rightarrow> sv_state sv' = WorkerReady \<and> sn_status (ss_snapshot (sv_status sv')) = Some status
        \<and> wm_game_mode (sn_metrics (ss_snapshot (sv_status sv'))) = as_game_mode settings"
proof -
  have stop: "only_removes (st_moves (sa_stop_again env))" using quiet by (simp add: quiet_start_def)
  have shape: "(\<exists>error sv1. abandon_start env error sv1 = (result, sv'))
      \<or> (\<exists>status sv1. (result, sv') = (Inr status, publish_ready (as_game_mode settings) (sa_now env) status sv1))"
    using load
    by (auto simp: load_worker_def Let_def next_request_id_def split: prod.splits sum.splits control_message.splits)
  then show ?thesis
  proof (elim disjE exE)
    fix error sv1
    assume gave_up: "abandon_start env error sv1 = (result, sv')"
    moreover from gave_up have "result = Inl error" by (simp add: abandon_start_def)
    ultimately show ?thesis using abandon_start_leaves [OF stop, of error sv1] by simp
  next
    fix status sv1
    assume "(result, sv') = (Inr status, publish_ready (as_game_mode settings) (sa_now env) status sv1)"
    then show ?thesis by (simp add: publish_ready_def)
  qed
qed

text \<open>
  C26: Starting the plugin process succeeds or leaves nothing behind: when \<open>start\<close> answers with a status, that
  status is published and the state is \<open>Ready\<close>; when it answers with an error there is no session and no MIDI
  route, and the state is \<open>Faulted\<close> with that error, unless another lifecycle request superseded the call, or a
  pipe or the runtime could not be made: then the state stays \<open>Starting\<close>.
\<close>

theorem start_leaves_nothing_behind:
  assumes quiet: "quiet_start env" and start: "start_worker env settings class_uid sv = (result, sv')"
  shows "case result of
      Inr status \<Rightarrow> sv_state sv' = WorkerReady \<and> sn_status (ss_snapshot (sv_status sv')) = Some status
        \<and> wm_game_mode (sn_metrics (ss_snapshot (sv_status sv'))) = as_game_mode settings
    | Inl e \<Rightarrow> e = ''Worker start superseded by another lifecycle request''
        \<or> without_session sv'
          \<and> (sv_state sv' = Faulted \<and> sn_last_exit (ss_snapshot (sv_status sv')) = Some e
             \<or> sv_state sv' = Starting \<and> sa_pipes env = Inl e)"
proof -
  define generation where "generation = sv_lifecycle sv + 1"
  define sv0 where "sv0 = sa_moves env 0 (sv\<lparr>sv_lifecycle := generation\<rparr>)"
  define sv1 where "sv1 = sa_moves env 1 (snd (stop_session (sa_stop env) sv0))"
  define sv2 where "sv2 = set_state Starting
    (sv1\<lparr>sv_last_load := Some (settings, class_uid), sv_midi_transport_failed := False\<rparr>)"
  define sv3 where "sv3 = sa_moves env 2 sv2"
  have moves: "only_removes (sa_moves env)" "only_removes (st_moves (sa_stop env))"
    using quiet by (simp_all add: quiet_start_def)
  have "without_session sv1"
    unfolding sv1_def by (rule without_session_moves [OF moves(1) stop_session_leaves [OF moves(2)]])
  then have "without_session sv2" by (simp add: sv2_def) (simp add: without_session_def)
  moreover from this have "without_session sv3" unfolding sv3_def by (rule without_session_moves [OF moves(1)])
  ultimately have gone: "without_session sv2" "without_session (sa_moves env 3 sv3)"
    using without_session_moves [OF moves(1)] by blast+
  have step: "start_worker env settings class_uid sv =
    (if generation \<noteq> sv_lifecycle sv0 then (Inl ''Worker start superseded by another lifecycle request'', sv0)
     else case sa_pipes env of
       Inl error \<Rightarrow> (Inl error, sv2)
     | Inr _ \<Rightarrow>
         (case sa_spawn env of
            Inl error \<Rightarrow> (Inl error, set_fault error sv2)
          | Inr _ \<Rightarrow>
              (case connection_error (sa_connection env) of
                 Some error \<Rightarrow> (Inl error, set_fault error (sa_moves env 3 sv3))
               | None \<Rightarrow> load_worker env settings
                   (set_state Loading (sv3\<lparr>sv_session := Some generation, sv_midi_route := True\<rparr>)))))"
    unfolding start_worker_def start_generation_def Let_def sv0_def sv1_def sv2_def sv3_def generation_def ..
  show ?thesis
  proof (cases "generation \<noteq> sv_lifecycle sv0 \<or> (\<exists>e. sa_pipes env = Inl e) \<or> (\<exists>e. sa_spawn env = Inl e)
      \<or> connection_error (sa_connection env) \<noteq> None")
    case True
    then show ?thesis
      using start gone unfolding step
      by (auto simp: sv2_def split: if_splits sum.splits option.splits)
  next
    case False
    then have "load_worker env settings (set_state Loading (sv3\<lparr>sv_session := Some generation, sv_midi_route := True\<rparr>))
        = (result, sv')"
      using start unfolding step by (auto split: sum.splits option.splits)
    from load_worker_outcome [OF quiet this] show ?thesis by (simp split: sum.splits)
  qed
qed

text \<open>A process that dies while it loads; the session's own task has already reported it.\<close>

definition quiet_request :: "request_outcome \<Rightarrow> request_env" where
  "quiet_request outcome = \<lparr>rq_outcome = outcome, rq_moves = \<lambda>_ sv. sv, rq_debug = \<lambda>_. ''message''\<rparr>"

definition quiet_stop :: stop_env where
  "quiet_stop = \<lparr>st_outcome = NotSent, st_join = Joined, st_moves = \<lambda>_ sv. sv, st_debug = \<lambda>_. ''message''\<rparr>"

definition example_start :: "request_outcome \<Rightarrow> (nat \<Rightarrow> supervisor \<Rightarrow> supervisor) \<Rightarrow> start_env" where
  "example_start load moves =
     \<lparr>sa_moves = moves, sa_stop = quiet_stop, sa_stop_again = quiet_stop, sa_pipes = Inr (), sa_spawn = Inr (),
      sa_connection = Connected, sa_load = quiet_request load, sa_now = 5\<rparr>"

lemma example_start_quiet: "only_removes moves \<Longrightarrow> quiet_start (example_start load moves)"
  by (simp add: quiet_start_def example_start_def quiet_stop_def quiet_request_def only_removes_def)

theorem start_leaves_nothing_behind_witness:
  "\<exists>sv. start_worker (example_start (Answered (Inl ''worker exited'')) (\<lambda>_ sv. sv)) default_audio_settings None supervisor_new
      = (Inl ''worker exited'', sv) \<and> without_session sv \<and> sv_state sv = Faulted"
proof -
  let ?env = "example_start (Answered (Inl ''worker exited'')) (\<lambda>_ sv. sv)"
  obtain result sv where run: "start_worker ?env default_audio_settings None supervisor_new = (result, sv)" by fastforce
  moreover from this have "result = Inl ''worker exited''"
    by (auto simp: start_worker_def start_generation_def example_start_def quiet_stop_def quiet_request_def
        load_worker_def abandon_start_def stop_session_def request_with_timeout_def next_request_id_def
        connection_error_def supervisor_new_def set_state_def set_snapshot_def Let_def)
  moreover have "quiet_start ?env" by (rule example_start_quiet) (simp add: only_removes_def)
  note start_leaves_nothing_behind [OF this run]
  ultimately show ?thesis by (auto simp: example_start_def)
qed

section \<open>What a command publishes\<close>

text \<open>
  Other tasks raise the generation, without wrapping, and a session is of a generation that was reached. They may write
  what they like to the status and to the settings of the next start.
\<close>

definition session_known :: "supervisor \<Rightarrow> bool" where
  "session_known sv \<longleftrightarrow> (\<forall>generation. sv_session sv = Some generation \<longrightarrow> generation \<le> sv_lifecycle sv)"

definition only_raises :: "(supervisor \<Rightarrow> supervisor) \<Rightarrow> bool" where
  "only_raises moves \<longleftrightarrow>
     (\<forall>sv. sv_lifecycle sv \<le> sv_lifecycle (moves sv) \<and> (session_known sv \<longrightarrow> session_known (moves sv)))"

text \<open>Under the mutex nobody installs a session; while it is awaited anybody may.\<close>

definition quiet_command :: "command_env \<Rightarrow> bool" where
  "quiet_command env \<longleftrightarrow> only_raises (co_lifecycle env) \<and> (\<forall>n. only_raises (rq_moves (co_request env) n))
     \<and> only_removes (rq_moves (co_request env))"

text \<open>
  What the other tasks have left of a state at the points of a command: when the mutex is obtained or given up, when the
  session is read, when the request is admitted and when its answer is looked at. The command itself has only drawn its number.
\<close>

definition at_admission :: "command_env \<Rightarrow> supervisor \<Rightarrow> supervisor" where
  "at_admission env sv = co_lifecycle env sv"

definition at_routing :: "command_env \<Rightarrow> supervisor \<Rightarrow> supervisor" where
  "at_routing env sv = rq_moves (co_request env) 0 (snd (next_request_id (at_admission env sv)))"

definition at_sending :: "command_env \<Rightarrow> supervisor \<Rightarrow> supervisor" where
  "at_sending env sv = rq_moves (co_request env) 1 (at_routing env sv)"

definition at_answer :: "command_env \<Rightarrow> supervisor \<Rightarrow> supervisor" where
  "at_answer env sv = rq_moves (co_request env) 2 (at_sending env sv)"

definition left_alone :: "command_env \<Rightarrow> supervisor \<Rightarrow> supervisor \<Rightarrow> bool" where
  "left_alone env sv sv' \<longleftrightarrow> sv' \<in> {at_admission env sv, at_routing env sv, at_sending env sv, at_answer env sv}"

definition acknowledged_in :: "command_env \<Rightarrow> supervisor \<Rightarrow> bool" where
  "acknowledged_in env sv \<longleftrightarrow> co_in_time env \<and> sv_lifecycle (at_admission env sv) = sv_lifecycle sv
     \<and> sv_session (at_routing env sv) = Some (sv_lifecycle sv) \<and> sv_lifecycle (at_answer env sv) = sv_lifecycle sv
     \<and> (\<exists>request. rq_outcome (co_request env) = Answered (Inr (Ack request)))"

lemma request_answers:
  assumes request: "request_with_timeout env sv = (result, sv')"
  shows "sv' \<in> {rq_moves env 0 sv, rq_moves env 1 (rq_moves env 0 sv), rq_moves env 2 (rq_moves env 1 (rq_moves env 0 sv))}
    \<and> (\<forall>message. result = Inr message \<longrightarrow> rq_outcome env = Answered (Inr message)
        \<and> sv' = rq_moves env 2 (rq_moves env 1 (rq_moves env 0 sv))
        \<and> sv_session (rq_moves env 0 sv) = Some (sv_lifecycle sv'))"
proof -
  define sv0 where "sv0 = rq_moves env 0 sv"
  define sv1 where "sv1 = rq_moves env 1 sv0"
  define sv2 where "sv2 = rq_moves env 2 sv1"
  show ?thesis
  proof (cases "sv_session sv0")
    case None
    then have "sv' = sv0 \<and> result = Inl ''VST worker is not connected''"
      using request by (simp add: request_with_timeout_def sv0_def [symmetric] Let_def)
    then show ?thesis by (simp add: sv0_def)
  next
    case (Some generation)
    then have step: "request_with_timeout env sv =
      (if generation \<noteq> sv_lifecycle sv1 then (Inl superseded, sv1)
       else case rq_outcome env of
         TimedOut \<Rightarrow> (Inl ''VST worker command timed out'', sv2)
       | outcome \<Rightarrow>
           if generation \<noteq> sv_lifecycle sv2 then (Inl superseded, sv2)
           else (case outcome of
                   NotSent \<Rightarrow> Inl ''VST worker control channel is closed''
                 | ResponseClosed \<Rightarrow> Inl ''VST worker response channel closed''
                 | TimedOut \<Rightarrow> Inl ''VST worker command timed out''
                 | Answered response \<Rightarrow> response, sv2))"
      unfolding request_with_timeout_def sv0_def [symmetric] sv1_def [symmetric] sv2_def [symmetric] Let_def by simp
    show ?thesis
      using request Some unfolding step sv0_def [symmetric] sv1_def [symmetric] sv2_def [symmetric]
      by (cases "rq_outcome env") (auto split: if_splits)
  qed
qed

text \<open>Any command: an error leaves alone, \<open>Ok\<close> publishes on what the other tasks have left at that moment.\<close>

lemma run_command_result:
  assumes quiet: "quiet_command env" and known: "session_known sv" and run: "run_command env publish sv = (result, sv')"
  shows "case result of
      Inl _ \<Rightarrow> left_alone env sv sv'
    | Inr _ \<Rightarrow> acknowledged_in env sv \<and> sv' = publish (co_publish env (at_answer env sv))"
proof (cases "co_in_time env \<and> sv_lifecycle sv = sv_lifecycle (at_admission env sv)")
  case False
  then have "(\<exists>e. result = Inl e) \<and> sv' = at_admission env sv"
    using run by (cases "co_in_time env") (auto simp: run_command_def control_lifecycle_def at_admission_def Let_def)
  then show ?thesis by (auto simp: left_alone_def)
next
  case True
  define sv1 where "sv1 = snd (next_request_id (at_admission env sv))"
  have points: "at_routing env sv = rq_moves (co_request env) 0 sv1"
    "at_sending env sv = rq_moves (co_request env) 1 (rq_moves (co_request env) 0 sv1)"
    "at_answer env sv = rq_moves (co_request env) 2 (rq_moves (co_request env) 1 (rq_moves (co_request env) 0 sv1))"
    by (simp_all add: at_routing_def at_sending_def at_answer_def sv1_def)
  obtain answer sv2 where request: "request_with_timeout (co_request env) sv1 = (answer, sv2)" by fastforce
  note answered = request_answers [OF this, folded points]
  have step: "run_command env publish sv =
    (case expect_ack (co_request env) sv1 of
       (Inl e, sv) \<Rightarrow> (Inl e, sv)
     | (Inr _, sv) \<Rightarrow> (Inr (), publish (co_publish env sv)))"
    using True by (simp add: run_command_def control_lifecycle_def sv1_def at_admission_def Let_def)
  show ?thesis
  proof (cases "\<exists>id. answer = Inr (Ack id)")
    case False
    then have "(\<exists>e. result = Inl e) \<and> sv' = sv2"
      using run unfolding step by (auto simp: expect_ack_def request split: sum.splits control_message.splits)
    then show ?thesis using answered by (auto simp: left_alone_def)
  next
    case acked: True
    then have final: "result = Inr ()" "sv' = publish (co_publish env sv2)"
      using run unfolding step by (auto simp: expect_ack_def request)
    have at: "sv2 = at_answer env sv" "sv_session (at_routing env sv) = Some (sv_lifecycle sv2)"
      "\<exists>request. rq_outcome (co_request env) = Answered (Inr (Ack request))"
      using acked answered by auto
    have raises: "sv_lifecycle s \<le> sv_lifecycle (rq_moves (co_request env) n s)" for s n
      using quiet by (simp add: quiet_command_def only_raises_def)
    have "sv_lifecycle sv1 \<le> sv_lifecycle sv2"
      unfolding at(1) points by (meson raises order.trans)
    moreover have "sv_lifecycle sv1 = sv_lifecycle sv" using True by (simp add: sv1_def next_request_id_def)
    moreover have "session_known (at_admission env sv)"
      using quiet known by (simp add: quiet_command_def only_raises_def at_admission_def)
    then have "session_known sv1" by (simp add: session_known_def sv1_def next_request_id_def)
    moreover have "sv_session (at_routing env sv) \<in> {None, sv_session sv1}"
      using quiet unfolding quiet_command_def only_removes_def points by blast
    ultimately have "sv_lifecycle sv2 = sv_lifecycle sv" using at(2) by (auto simp: session_known_def dest: sym)
    then show ?thesis using final at True by (simp add: acknowledged_in_def)
  qed
qed

text \<open>
  C27: A command that was overtaken by a stop or a start publishes nothing. This is stated for the four commands that run under
  the lifecycle mutex, whatever the other tasks write meanwhile. When one answers an error, what is recorded is what the
  other tasks left: the command has written none of it. When it answers \<open>Ok\<close>, the generation of
  the lifecycle was the same at the call, when the mutex was obtained and when the answer was looked at, and the session that
  acknowledged is the one of this generation; only then is the effect written, each field on what the other tasks have
  left of it at that moment, which may be after a stop has raised the generation again and waits for the mutex: the game mode for the status and for the next restart, with the
  editor closed when it is on; an open editor unless the game mode is on; a closed editor, followed by a request to save; the
  number of the next autosave.
\<close>

theorem superseded_command_publishes_nothing:
  assumes "quiet_command env" and "session_known sv"
  shows "(case set_game_mode env enabled sv of
      (Inl _, sv') \<Rightarrow> left_alone env sv sv'
    | (Inr _, sv') \<Rightarrow> acknowledged_in env sv \<and> (let before = co_publish env (at_answer env sv) in
        sn_metrics (ss_snapshot (sv_status sv')) = (sn_metrics (ss_snapshot (sv_status before)))\<lparr>wm_game_mode := enabled\<rparr>
        \<and> sv_last_load sv' = map_option (\<lambda>(settings, uid). (settings\<lparr>as_game_mode := enabled\<rparr>, uid)) (sv_last_load before)
        \<and> sn_editor_open (ss_snapshot (sv_status sv')) = (\<not> enabled \<and> sn_editor_open (ss_snapshot (sv_status before)))))
    \<and> (case open_editor env sv of
      (Inl _, sv') \<Rightarrow> left_alone env sv sv'
    | (Inr _, sv') \<Rightarrow> acknowledged_in env sv \<and> sn_editor_open (ss_snapshot (sv_status sv'))
        = (\<not> wm_game_mode (sn_metrics (ss_snapshot (sv_status (co_publish env (at_answer env sv)))))))
    \<and> (\<exists>result sv1. (case result of
        Inl _ \<Rightarrow> left_alone env sv sv1 \<and> close_editor env sv = (result, sv1)
      | Inr _ \<Rightarrow> acknowledged_in env sv \<and> \<not> sn_editor_open (ss_snapshot (sv_status sv1))
          \<and> close_editor env sv = save_state (co_save env) sv1))
    \<and> (case set_parameter env sv of
      (Inl _, sv') \<Rightarrow> left_alone env sv sv'
    | (Inr _, sv') \<Rightarrow> acknowledged_in env sv
        \<and> sv_state_generation sv' = sv_state_generation (co_publish env (at_answer env sv)) + 1)"
proof -
  note command = run_command_result [OF assms]
  obtain r1 s1 where mode: "run_command env (publish_game_mode enabled) sv = (r1, s1)" by fastforce
  have mode_ok: "case set_game_mode env enabled sv of
      (Inl _, sv') \<Rightarrow> left_alone env sv sv'
    | (Inr _, sv') \<Rightarrow> acknowledged_in env sv \<and> (let before = co_publish env (at_answer env sv) in
        sn_metrics (ss_snapshot (sv_status sv')) = (sn_metrics (ss_snapshot (sv_status before)))\<lparr>wm_game_mode := enabled\<rparr>
        \<and> sv_last_load sv' = map_option (\<lambda>(settings, uid). (settings\<lparr>as_game_mode := enabled\<rparr>, uid)) (sv_last_load before)
        \<and> sn_editor_open (ss_snapshot (sv_status sv')) = (\<not> enabled \<and> sn_editor_open (ss_snapshot (sv_status before))))"
    using command [OF mode] mode
    by (auto simp: set_game_mode_def publish_game_mode_def set_snapshot_def Let_def split: sum.splits)
  obtain r2 s2 where editor: "run_command env (set_snapshot (\<lambda>s. s\<lparr>sn_editor_open := \<not> wm_game_mode (sn_metrics s)\<rparr>)) sv
      = (r2, s2)" by fastforce
  have editor_ok: "case open_editor env sv of
      (Inl _, sv') \<Rightarrow> left_alone env sv sv'
    | (Inr _, sv') \<Rightarrow> acknowledged_in env sv \<and> sn_editor_open (ss_snapshot (sv_status sv'))
        = (\<not> wm_game_mode (sn_metrics (ss_snapshot (sv_status (co_publish env (at_answer env sv))))))"
    using command [OF editor] editor by (auto simp: open_editor_def set_snapshot_def split: sum.splits)
  obtain r3 s3 where closing: "run_command env (set_snapshot (\<lambda>s. s\<lparr>sn_editor_open := False\<rparr>)) sv = (r3, s3)" by fastforce
  have closing_ok: "\<exists>result sv1. (case result of
        Inl _ \<Rightarrow> left_alone env sv sv1 \<and> close_editor env sv = (result, sv1)
      | Inr _ \<Rightarrow> acknowledged_in env sv \<and> \<not> sn_editor_open (ss_snapshot (sv_status sv1))
          \<and> close_editor env sv = save_state (co_save env) sv1)"
    using command [OF closing] closing
    by (intro exI [of _ r3] exI [of _ s3]) (auto simp: close_editor_def set_snapshot_def split: sum.splits)
  obtain r4 s4 where parameter: "run_command env (\<lambda>sv. sv\<lparr>sv_state_generation := sv_state_generation sv + 1\<rparr>) sv
      = (r4, s4)" by fastforce
  have parameter_ok: "case set_parameter env sv of
      (Inl _, sv') \<Rightarrow> left_alone env sv sv'
    | (Inr _, sv') \<Rightarrow> acknowledged_in env sv
        \<and> sv_state_generation sv' = sv_state_generation (co_publish env (at_answer env sv)) + 1"
    using command [OF parameter] parameter by (auto simp: set_parameter_def split: sum.splits)
  show ?thesis using mode_ok editor_ok closing_ok parameter_ok by blast
qed

text \<open>
  A session that acknowledges; between the last look at the generation and the publication a stop raises it.
\<close>

definition example_command :: command_env where
  "example_command =
     \<lparr>co_lifecycle = \<lambda>sv. sv, co_in_time = True, co_request = quiet_request (Answered (Inr (Ack 1))),
      co_publish = \<lambda>sv. sv\<lparr>sv_lifecycle := sv_lifecycle sv + 1\<rparr>, co_save = quiet_request (Answered (Inr (Ack 2)))\<rparr>"

definition example_loaded :: supervisor where
  "example_loaded = supervisor_new\<lparr>sv_session := Some 0, sv_last_load := Some (default_audio_settings, None)\<rparr>"

theorem superseded_command_publishes_nothing_witness:
  "\<exists>sv. set_game_mode example_command True example_loaded = (Inr (), sv)
     \<and> sv_last_load sv = Some (default_audio_settings\<lparr>as_game_mode := True\<rparr>, None) \<and> sv_lifecycle sv = 1"
proof -
  obtain result sv where run: "set_game_mode example_command True example_loaded = (result, sv)" by fastforce
  have "quiet_command example_command"
    by (simp add: quiet_command_def example_command_def quiet_request_def only_raises_def only_removes_def)
  moreover have "session_known example_loaded" by (simp add: session_known_def example_loaded_def supervisor_new_def)
  moreover have result: "result = Inr ()" "sv_lifecycle sv = 1"
    using run
    by (auto simp: set_game_mode_def run_command_def control_lifecycle_def example_command_def quiet_request_def
        expect_ack_def request_with_timeout_def next_request_id_def example_loaded_def supervisor_new_def Let_def
        publish_game_mode_def set_snapshot_def)
  moreover have "sv_last_load (co_publish example_command (at_answer example_command example_loaded))
      = Some (default_audio_settings, None)"
    by (simp add: at_answer_def at_sending_def at_routing_def at_admission_def next_request_id_def example_command_def
        quiet_request_def example_loaded_def)
  ultimately show ?thesis
    using superseded_command_publishes_nothing [of example_command example_loaded True] run by (simp add: Let_def)
qed

section \<open>A gap between the answer and its publication\<close>

text \<open>
  The session's task, between \<open>start\<close> receiving the answer to \<open>Load\<close> and publishing it: the process has exited, and
  three restarts were used up in the last minute.
\<close>

definition exits_after_ready :: "nat \<Rightarrow> supervisor \<Rightarrow> supervisor" where
  "exits_after_ready n sv =
     (if n = 5 then publish_session_fault 30 (\<lambda>sv. sv) ''worker exited'' (sv_lifecycle sv) sv else sv)"

definition restarted_thrice :: supervisor where
  "restarted_thrice = supervisor_new\<lparr>sv_restart_history := [0, 10, 20]\<rparr>"

text \<open>
  \<open>start\<close> can announce a process that is gone: it publishes \<open>Ready\<close> without looking whether its session is
  still there. When the process exits between the answer and its publication and the restart budget is used
  up, \<open>start\<close> answers \<open>Ok\<close> and the state is \<open>Ready\<close> with no session, no MIDI route and no restart scheduled.
\<close>

theorem ready_without_session:
  "\<exists>sv. start_worker (example_start (Answered (Inr (Ready 1 status))) exits_after_ready) default_audio_settings None
        restarted_thrice = (Inr status, sv)
     \<and> sv_state sv = WorkerReady \<and> without_session sv \<and> sv_scheduled sv = []"
  by (simp add: start_worker_def start_generation_def example_start_def quiet_stop_def quiet_request_def
      load_worker_def stop_session_def request_with_timeout_def next_request_id_def connection_error_def
      restarted_thrice_def supervisor_new_def set_state_def set_snapshot_def Let_def exits_after_ready_def
      publish_session_fault_def schedule_restart_after_fault_def restart_allowed_def RESTART_WINDOW_def
      MAX_RESTARTS_PER_WINDOW_def set_fault_def publish_ready_def without_session_def)

end
