(* ===== verification/Worker_Process.thy ===== *)
theory Worker_Process
  imports Worker_Lifecycle
begin

text \<open>
  The plugin process itself: its control loop (\<open>worker_session\<close> of \<open>bin/vst_host_worker.rs\<close>). The audio engine of
  the process is a parameter, as the operations the loop calls; its state is of any type. The pipe's writer
  answers each response with whether it was written.
\<close>

section \<open>The engine\<close>

definition MAX_CACHED_PARAMETERS :: nat where "MAX_CACHED_PARAMETERS = 2048"

text \<open>What \<open>ready_status\<close> asks the engine.\<close>

record engine_facts =
  ef_backend :: "string option"
  ef_device :: "string option"
  ef_device_id :: "string option"
  ef_sample_rate :: "u32 option"
  ef_requested_buffer :: "u32 option"
  ef_stream_buffer :: "u32 option"
  ef_plugin_latency :: "u32 option"
  ef_bridge_latency :: "u32 option"
  ef_hosting_mode :: "string option"
  ef_vst_midi_compatible :: "bool option"
  ef_limiter :: "bool option"
  ef_mmcss :: "bool option"
  ef_throttling_disabled :: "bool option"

definition unwrap_or :: "'a option \<Rightarrow> 'a \<Rightarrow> 'a" where
  "unwrap_or x d = (case x of None \<Rightarrow> d | Some v \<Rightarrow> v)"

definition ready_status :: "engine_facts \<Rightarrow> string option \<Rightarrow> string + worker_audio_status" where
  "ready_status ef class_uid =
     (case ef_backend ef of None \<Rightarrow> Inl ''worker audio backend unavailable'' | Some backend \<Rightarrow>
      case ef_device ef of None \<Rightarrow> Inl ''worker audio device unavailable'' | Some device \<Rightarrow>
      case ef_sample_rate ef of None \<Rightarrow> Inl ''worker sample rate unavailable'' | Some sample_rate \<Rightarrow>
        Inr \<lparr>was_backend = backend, was_device = device, was_device_id = ef_device_id ef,
             was_sample_rate = sample_rate, was_requested_buffer_size = unwrap_or (ef_requested_buffer ef) 0,
             was_stream_buffer_size = unwrap_or (ef_stream_buffer ef) 0,
             was_plugin_latency_samples = unwrap_or (ef_plugin_latency ef) 0,
             was_bridge_latency_samples = unwrap_or (ef_bridge_latency ef) 0,
             was_hosting_mode = unwrap_or (ef_hosting_mode ef) ''directX64'',
             was_vst_midi_compatible = unwrap_or (ef_vst_midi_compatible ef) False,
             was_limiter_enabled = unwrap_or (ef_limiter ef) False,
             was_mmcss_enabled = unwrap_or (ef_mmcss ef) False,
             was_power_throttling_disabled = unwrap_or (ef_throttling_disabled ef) False,
             was_class_uid = class_uid\<rparr>)"

type_synonym 'e engine_op = "'e \<Rightarrow> (string + unit) \<times> 'e"

record 'e engine_ops =
  eo_start :: "audio_settings \<Rightarrow> 'e engine_op"
  eo_facts :: "'e \<Rightarrow> engine_facts"
  eo_open_ui :: "'e engine_op"
  eo_close_ui :: "'e engine_op"
  eo_list_parameters :: "'e \<Rightarrow> string + vst_parameter list"
  eo_set_parameter :: "u64 \<Rightarrow> f32 \<Rightarrow> 'e engine_op"
  eo_set_gain :: "f32 \<Rightarrow> 'e engine_op"
  eo_set_limiter :: "bool \<Rightarrow> 'e engine_op"
  eo_set_eq :: "vst_eq_settings \<Rightarrow> 'e engine_op"
  eo_panic :: "'e engine_op"
  eo_set_game_mode :: "bool \<Rightarrow> 'e engine_op"
  eo_checkpoint :: "'e engine_op"
  eo_stop :: "'e engine_op"
  eo_stream_fault :: "'e \<Rightarrow> string option"
  eo_x86_alive :: "'e \<Rightarrow> bool"
  eo_x86_fault :: "'e \<Rightarrow> string option"

section \<open>Commands\<close>

text \<open>The state of the loop: the limiter as published with the heartbeats, and each command with its response.\<close>

record 'e worker_loop =
  wl_engine :: 'e
  wl_applied_limiter :: bool
  wl_answered :: "(control_message \<times> control_message) list"
  wl_sent :: "control_message list"

text \<open>An operation that answers with an acknowledgement or with an error of the given code.\<close>

definition ack_or_error :: "u64 \<Rightarrow> string \<Rightarrow> 'e engine_op \<Rightarrow> 'e worker_loop \<Rightarrow> control_message \<times> 'e worker_loop" where
  "ack_or_error request_id code operation wl =
     (case operation (wl_engine wl) of
        (Inr _, e) \<Rightarrow> (Ack request_id, wl\<lparr>wl_engine := e\<rparr>)
      | (Inl message, e) \<Rightarrow> (Error (Some request_id) code message, wl\<lparr>wl_engine := e\<rparr>))"

definition load_response ::
  "'e engine_ops \<Rightarrow> u64 \<Rightarrow> audio_settings \<Rightarrow> string option \<Rightarrow> 'e worker_loop \<Rightarrow> control_message \<times> 'e worker_loop" where
  "load_response ops request_id settings class_uid wl =
     (case eo_start ops settings (wl_engine wl) of
        (Inl message, e) \<Rightarrow> (Error (Some request_id) ''worker.load-failed'' message, wl\<lparr>wl_engine := e\<rparr>)
      | (Inr _, e) \<Rightarrow>
          (case ready_status (eo_facts ops e) class_uid of
             Inr status \<Rightarrow>
               (Ready request_id status, wl\<lparr>wl_engine := e, wl_applied_limiter := was_limiter_enabled status\<rparr>)
           | Inl message \<Rightarrow> (Error (Some request_id) ''worker.ready-failed'' message, wl\<lparr>wl_engine := e\<rparr>)))"

definition limiter_response :: "'e engine_ops \<Rightarrow> u64 \<Rightarrow> bool \<Rightarrow> 'e worker_loop \<Rightarrow> control_message \<times> 'e worker_loop" where
  "limiter_response ops request_id enabled wl =
     (case ack_or_error request_id ''worker.limiter-failed'' (eo_set_limiter ops enabled) wl of
        (Ack rid, wl) \<Rightarrow> (Ack rid, wl\<lparr>wl_applied_limiter := enabled\<rparr>)
      | other \<Rightarrow> other)"

definition parameters_response :: "'e engine_ops \<Rightarrow> u64 \<Rightarrow> 'e worker_loop \<Rightarrow> control_message" where
  "parameters_response ops request_id wl =
     (case eo_list_parameters ops (wl_engine wl) of
        Inr parameters \<Rightarrow> Parameters request_id (take MAX_CACHED_PARAMETERS parameters)
      | Inl error \<Rightarrow> Error (Some request_id) ''worker.parameters-failed'' error)"

text \<open>Every command but \<open>Stop\<close>.\<close>

definition command_response :: "'e engine_ops \<Rightarrow> control_message \<Rightarrow> 'e worker_loop \<Rightarrow> control_message \<times> 'e worker_loop" where
  "command_response ops message wl =
     (case message of
        Load request_id settings class_uid _ \<Rightarrow> load_response ops request_id settings class_uid wl
      | OpenEditor request_id \<Rightarrow> ack_or_error request_id ''worker.editor-open-failed'' (eo_open_ui ops) wl
      | CloseEditor request_id \<Rightarrow> ack_or_error request_id ''worker.editor-close-failed'' (eo_close_ui ops) wl
      | ListParameters request_id \<Rightarrow> (parameters_response ops request_id wl, wl)
      | SetParameter request_id index new_value \<Rightarrow>
          ack_or_error request_id ''worker.parameter-set-failed'' (eo_set_parameter ops index new_value) wl
      | SetGain request_id gain_db \<Rightarrow> ack_or_error request_id ''worker.gain-failed'' (eo_set_gain ops gain_db) wl
      | SetLimiter request_id enabled \<Rightarrow> limiter_response ops request_id enabled wl
      | SetEq request_id settings \<Rightarrow> ack_or_error request_id ''worker.eq-failed'' (eo_set_eq ops settings) wl
      | Panic request_id \<Rightarrow> ack_or_error request_id ''worker.panic-failed'' (eo_panic ops) wl
      | Ping sequence \<Rightarrow> (Pong sequence, wl)
      | SetGameMode request_id enabled \<Rightarrow>
          ack_or_error request_id ''worker.game-mode-failed'' (eo_set_game_mode ops enabled) wl
      | SaveState request_id \<Rightarrow> ack_or_error request_id ''worker.state-save-failed'' (eo_checkpoint ops) wl
      | _ \<Rightarrow> (Error None ''worker.invalid-direction'' ''Message is not a supervisor command'', wl))"

section \<open>The loop\<close>

datatype worker_flow = Serving | Finished "string + unit"

text \<open>\<open>send_response\<close>: the response, then whether it was written; the error of the call is prefixed.\<close>

definition send_response :: "string \<Rightarrow> string + unit \<Rightarrow> control_message \<Rightarrow> 'e worker_loop \<Rightarrow> worker_flow \<times> 'e worker_loop" where
  "send_response what written response wl =
     (case written of
        Inl error \<Rightarrow> (Finished (Inl (what @ error)), wl)
      | Inr _ \<Rightarrow> (Serving, wl\<lparr>wl_sent := wl_sent wl @ [response]\<rparr>))"

definition handle_command ::
  "'e engine_ops \<Rightarrow> string + unit \<Rightarrow> control_message \<Rightarrow> 'e worker_loop \<Rightarrow> worker_flow \<times> 'e worker_loop" where
  "handle_command ops written message wl =
     (case message of
        Stop request_id \<Rightarrow>
          (case eo_stop ops (wl_engine wl) of
             (Inl error, e) \<Rightarrow> (Finished (Inl error), wl\<lparr>wl_engine := e\<rparr>)
           | (Inr _, e) \<Rightarrow>
               (case send_response ''Failed to acknowledge stop: '' written (Stopped request_id)
                       (wl\<lparr>wl_engine := e, wl_answered := wl_answered wl @ [(message, Stopped request_id)]\<rparr>) of
                  (Serving, wl) \<Rightarrow> (Finished (Inr ()), wl)
                | other \<Rightarrow> other))
      | _ \<Rightarrow>
          (case command_response ops message wl of (response, wl) \<Rightarrow>
             send_response ''Failed to send worker response: '' written response
               (wl\<lparr>wl_answered := wl_answered wl @ [(message, response)]\<rparr>)))"

text \<open>The tick: a faulted stream or a dead x86 bridge ends the process, the first after a checkpoint.\<close>

definition health_tick :: "'e engine_ops \<Rightarrow> 'e worker_loop \<Rightarrow> worker_flow \<times> 'e worker_loop" where
  "health_tick ops wl =
     (let e = wl_engine wl in
      case eo_stream_fault ops e of
        Some reason \<Rightarrow>
          (Finished (Inl (''Audio stream recovery requested: '' @ reason)), wl\<lparr>wl_engine := snd (eo_checkpoint ops e)\<rparr>)
      | None \<Rightarrow>
          if ef_hosting_mode (eo_facts ops e) = Some ''bridgedX86'' \<and> \<not> eo_x86_alive ops e
          then (Finished (Inl (''Nested x86 DSP worker failed: ''
                  @ unwrap_or (eo_x86_fault ops e) ''health check failed without a bridge diagnostic'')), wl)
          else (Serving, wl))"

datatype worker_event =
    WeTick
  | WeControl "(string + control_message) option" "string + unit"
  | WeEditorHidden bool "string + unit"

definition worker_turn :: "'e engine_ops \<Rightarrow> worker_event \<Rightarrow> 'e worker_loop \<Rightarrow> worker_flow \<times> 'e worker_loop" where
  "worker_turn ops event wl =
     (case event of
        WeTick \<Rightarrow> health_tick ops wl
      | WeControl None _ \<Rightarrow> (Finished (Inl ''Control pipe reader exited''), wl)
      | WeControl (Some (Inl error)) _ \<Rightarrow> (Finished (Inl error), wl)
      | WeControl (Some (Inr message)) written \<Rightarrow> handle_command ops written message wl
      | WeEditorHidden gone written \<Rightarrow>
          if gone then (Serving, wl)
          else send_response ''Failed to report hidden editor: '' written EditorHidden
                 (wl\<lparr>wl_engine := snd (eo_checkpoint ops (wl_engine wl))\<rparr>))"

fun worker_session :: "'e engine_ops \<Rightarrow> worker_event list \<Rightarrow> 'e worker_loop \<Rightarrow> worker_flow \<times> 'e worker_loop" where
  "worker_session ops [] wl = (Serving, wl)"
| "worker_session ops (event # events) wl =
     (case worker_turn ops event wl of
        (Serving, wl) \<Rightarrow> worker_session ops events wl
      | (Finished result, wl) \<Rightarrow> (Finished result, wl))"

section \<open>Every command is answered\<close>

text \<open>The messages a supervisor sends, and the answers it understands (\<open>start_generation\<close>, \<open>expect_ack\<close>, ...).\<close>

definition understands :: "control_message \<Rightarrow> control_message \<Rightarrow> bool" where
  "understands command response \<longleftrightarrow>
     (case (command, response) of
        (Load rid _ _ _, Ready rid' _) \<Rightarrow> rid' = rid
      | (ListParameters rid, Parameters rid' parameters) \<Rightarrow> rid' = rid \<and> length parameters \<le> MAX_CACHED_PARAMETERS
      | (Stop rid, Stopped rid') \<Rightarrow> rid' = rid
      | (Load _ _ _ _, Ack _) \<Rightarrow> False
      | (ListParameters _, Ack _) \<Rightarrow> False
      | (Stop _, Ack _) \<Rightarrow> False
      | (_, Ack rid') \<Rightarrow> message_request_id command = Some rid'
      | (_, Error rid' _ _) \<Rightarrow> rid' = message_request_id command
      | _ \<Rightarrow> False)"

definition supervisor_command :: "control_message \<Rightarrow> bool" where
  "supervisor_command message \<longleftrightarrow>
     (case message of
        Load _ _ _ _ \<Rightarrow> True | SetGameMode _ _ \<Rightarrow> True | OpenEditor _ \<Rightarrow> True | CloseEditor _ \<Rightarrow> True
      | ListParameters _ \<Rightarrow> True | SetParameter _ _ _ \<Rightarrow> True | SetGain _ _ \<Rightarrow> True | SetLimiter _ _ \<Rightarrow> True
      | SetEq _ _ \<Rightarrow> True | SaveState _ \<Rightarrow> True | Panic _ \<Rightarrow> True | Stop _ \<Rightarrow> True
      | _ \<Rightarrow> False)"

lemma ack_or_error_answers:
  "(r, wl') = ack_or_error rid code operation wl \<Longrightarrow>
     (r = Ack rid \<or> (\<exists>text. r = Error (Some rid) code text))
     \<and> wl_answered wl' = wl_answered wl \<and> wl_sent wl' = wl_sent wl"
  by (auto simp: ack_or_error_def split: prod.splits sum.splits)

lemma command_response_answers:
  assumes "command_response ops message wl = (r, wl')"
  shows "wl_answered wl' = wl_answered wl \<and> wl_sent wl' = wl_sent wl
    \<and> (supervisor_command message \<and> (\<forall>rid. message \<noteq> Stop rid) \<longrightarrow> understands message r)"
proof (cases message)
  case (Load rid settings uid warmup)
  then show ?thesis
    using assms
    by (auto simp: command_response_def load_response_def understands_def message_request_id_def
        split: prod.splits sum.splits)
next
  case (SetLimiter rid enabled)
  obtain r1 wl1 where "ack_or_error rid ''worker.limiter-failed'' (eo_set_limiter ops enabled) wl = (r1, wl1)" by fastforce
  then show ?thesis
    using assms SetLimiter ack_or_error_answers [of r1 wl1 rid "''worker.limiter-failed''" "eo_set_limiter ops enabled" wl]
    by (auto simp: command_response_def limiter_response_def understands_def message_request_id_def)
next
  case (ListParameters rid)
  then show ?thesis
    using assms
    by (auto simp: command_response_def parameters_response_def understands_def message_request_id_def split: sum.splits)
next
  case (Stop rid)
  then show ?thesis using assms by (auto simp: command_response_def)
qed (use assms in \<open>auto simp: command_response_def supervisor_command_def understands_def message_request_id_def
      dest!: ack_or_error_answers [OF sym]\<close>)

definition replied :: "'e worker_loop \<Rightarrow> bool" where
  "replied wl \<longleftrightarrow> (\<forall>(c, r) \<in> set (wl_answered wl). supervisor_command c \<longrightarrow> understands c r)"

abbreviation plain :: "control_message list \<Rightarrow> control_message list" where
  "plain ms \<equiv> filter (\<lambda>m. m \<noteq> EditorHidden) ms"

fun received :: "worker_event list \<Rightarrow> control_message list" where
  "received [] = []"
| "received (WeControl (Some (Inr message)) _ # es) = message # received es"
| "received (_ # es) = received es"

lemma received_append: "received (es @ fs) = received es @ received fs"
  by (induction es rule: received.induct) simp_all

lemma response_not_hidden: "command_response ops message wl = (r, wl') \<Longrightarrow> r \<noteq> EditorHidden"
  by (auto simp: command_response_def load_response_def limiter_response_def parameters_response_def
      dest!: ack_or_error_answers [OF sym] split: control_message.splits prod.splits sum.splits)

lemma worker_event_answers:
  assumes event: "worker_turn ops event wl = (flow, wl')" and ok: "replied wl" "plain (wl_sent wl) = map snd (wl_answered wl)"
  shows "replied wl' \<and> prefix (plain (wl_sent wl')) (map snd (wl_answered wl'))
    \<and> (flow = Serving \<longrightarrow> plain (wl_sent wl') = map snd (wl_answered wl')
        \<and> map fst (wl_answered wl') = map fst (wl_answered wl) @ received [event])
    \<and> (flow = Finished (Inr ()) \<longrightarrow> plain (wl_sent wl') = map snd (wl_answered wl')
        \<and> (\<exists>rid. last (wl_answered wl') = (Stop rid, Stopped rid)))"
proof (cases "\<exists>message written. event = WeControl (Some (Inr message)) written")
  case False
  then have "wl_answered wl' = wl_answered wl \<and> plain (wl_sent wl') = plain (wl_sent wl) \<and> received [event] = []
    \<and> flow \<noteq> Finished (Inr ())"
    using event
    by (auto simp: worker_turn_def health_tick_def send_response_def Let_def
        split: worker_event.splits option.splits sum.splits if_splits)
  then show ?thesis using ok by (simp add: replied_def)
next
  case True
  then obtain message written where ev: "event = WeControl (Some (Inr message)) written" by blast
  show ?thesis
  proof (cases "\<exists>rid. message = Stop rid")
    case True
    then show ?thesis
      using event ok
      by (auto simp: ev worker_turn_def handle_command_def send_response_def replied_def understands_def
          split: prod.splits sum.splits)
  next
    case False
    obtain r wl1 where response: "command_response ops message wl = (r, wl1)" by fastforce
    note answers = command_response_answers [OF response]
    have "(flow, wl') = send_response ''Failed to send worker response: '' written r
        (wl1\<lparr>wl_answered := wl_answered wl1 @ [(message, r)]\<rparr>)"
      using event False response by (simp add: ev worker_turn_def handle_command_def split: control_message.splits)
    then show ?thesis
      using ok answers False response_not_hidden [OF response]
      by (cases written) (auto simp: ev send_response_def replied_def)
  qed
qed

text \<open>
  C23: The plugin process answers every command: whatever the engine's operations return, each message it reads
  gets exactly one response, in order, before the next is read; to a command of the supervisor it is an answer the
  caller understands, with the request's id and of the right kind, or an error with that id; and the process
  ends well only after it has confirmed a stop.
\<close>

theorem every_command_is_answered:
  assumes "worker_session ops events wl = (flow, wl')" and "wl_answered wl = []" and "wl_sent wl = []"
  shows "(\<forall>(c, r) \<in> set (wl_answered wl'). supervisor_command c \<longrightarrow> understands c r)
    \<and> prefix (filter (\<lambda>m. m \<noteq> EditorHidden) (wl_sent wl')) (map snd (wl_answered wl'))
    \<and> (flow = Serving \<longrightarrow> filter (\<lambda>m. m \<noteq> EditorHidden) (wl_sent wl') = map snd (wl_answered wl')
        \<and> map fst (wl_answered wl') = received events)
    \<and> (flow = Finished (Inr ()) \<longrightarrow> filter (\<lambda>m. m \<noteq> EditorHidden) (wl_sent wl') = map snd (wl_answered wl')
        \<and> (\<exists>rid. last (wl_answered wl') = (Stop rid, Stopped rid)))"
proof -
  have "replied wl' \<and> prefix (plain (wl_sent wl')) (map snd (wl_answered wl'))
    \<and> (flow = Serving \<longrightarrow> plain (wl_sent wl') = map snd (wl_answered wl')
        \<and> map fst (wl_answered wl') = map fst (wl_answered wl) @ received events)
    \<and> (flow = Finished (Inr ()) \<longrightarrow> plain (wl_sent wl') = map snd (wl_answered wl')
        \<and> (\<exists>rid. last (wl_answered wl') = (Stop rid, Stopped rid)))"
    if "worker_session ops events wl = (flow, wl')" "replied wl" "plain (wl_sent wl) = map snd (wl_answered wl)" for wl
    using that
  proof (induction events arbitrary: wl)
    case (Cons event events)
    obtain flow1 wl1 where step: "worker_turn ops event wl = (flow1, wl1)" by fastforce
    note one = worker_event_answers [OF step Cons.prems(2,3)]
    show ?case
    proof (cases flow1)
      case Serving
      then have "worker_session ops events wl1 = (flow, wl')" using Cons.prems(1) step by simp
      from Cons.IH [OF this] one Serving show ?thesis
        using received_append [of "[event]" events] by simp
    next
      case (Finished result)
      then have "flow = flow1" "wl' = wl1" using Cons.prems(1) step by simp_all
      then show ?thesis using one Finished by simp
    qed
  qed (simp add: replied_def)
  from this [OF assms(1)] assms(2,3) show ?thesis by (simp add: replied_def)
qed

text \<open>An engine that starts, refuses a gain and stops.\<close>

definition example_facts :: engine_facts where
  "example_facts =
     \<lparr>ef_backend = Some ''ASIO'', ef_device = Some ''Device'', ef_device_id = None, ef_sample_rate = Some 48000,
      ef_requested_buffer = Some 256, ef_stream_buffer = Some 256, ef_plugin_latency = None, ef_bridge_latency = None,
      ef_hosting_mode = None, ef_vst_midi_compatible = Some True, ef_limiter = Some True, ef_mmcss = None,
      ef_throttling_disabled = None\<rparr>"

definition example_ops :: "nat engine_ops" where
  "example_ops =
     \<lparr>eo_start = \<lambda>_ e. (Inr (), e + 1), eo_facts = \<lambda>_. example_facts, eo_open_ui = \<lambda>e. (Inr (), e),
      eo_close_ui = \<lambda>e. (Inr (), e), eo_list_parameters = \<lambda>_. Inr [], eo_set_parameter = \<lambda>_ _ e. (Inr (), e),
      eo_set_gain = \<lambda>_ e. (Inl ''no stream'', e), eo_set_limiter = \<lambda>_ e. (Inr (), e), eo_set_eq = \<lambda>_ e. (Inr (), e),
      eo_panic = \<lambda>e. (Inr (), e), eo_set_game_mode = \<lambda>_ e. (Inr (), e), eo_checkpoint = \<lambda>e. (Inr (), e),
      eo_stop = \<lambda>e. (Inr (), 0), eo_stream_fault = \<lambda>_. None, eo_x86_alive = \<lambda>_. True, eo_x86_fault = \<lambda>_. None\<rparr>"

definition example_commands :: "worker_event list" where
  "example_commands =
     [WeControl (Some (Inr (Load 1 default_audio_settings None 500))) (Inr ()), WeTick,
      WeControl (Some (Inr (SetGain 2 0))) (Inr ()), WeEditorHidden False (Inr ()),
      WeControl (Some (Inr (Stop 3))) (Inr ())]"

theorem every_command_is_answered_witness:
  "\<exists>wl status. worker_session example_ops example_commands
        \<lparr>wl_engine = 0, wl_applied_limiter = False, wl_answered = [], wl_sent = []\<rparr> = (Finished (Inr ()), wl)
     \<and> filter (\<lambda>m. m \<noteq> EditorHidden) (wl_sent wl) = map snd (wl_answered wl)
     \<and> map snd (wl_answered wl)
        = [Ready 1 status, Error (Some 2) ''worker.gain-failed'' ''no stream'', Stopped 3]"
proof -
  obtain flow wl where run: "worker_session example_ops example_commands
      \<lparr>wl_engine = 0, wl_applied_limiter = False, wl_answered = [], wl_sent = []\<rparr> = (flow, wl)" by fastforce
  then have "flow = Finished (Inr ())"
    and "\<exists>status. map snd (wl_answered wl)
        = [Ready 1 status, Error (Some 2) ''worker.gain-failed'' ''no stream'', Stopped 3]"
    by (auto simp: example_commands_def example_ops_def example_facts_def worker_turn_def handle_command_def
        command_response_def load_response_def ready_status_def ack_or_error_def send_response_def health_tick_def
        unwrap_or_def)
  then show ?thesis using every_command_is_answered [OF run] run by auto
qed

end
