(* ===== verification/Callback_Gate.thy ===== *)
theory Callback_Gate
  imports Prelude
begin

text \<open>
  The gate in front of the plugin (\<open>audio/callback_gate.rs\<close>). The audio callback and the rendering thread
  enter it for a block; the control thread closes it, waits until it is empty and then owns the plugin.
  One atomic word holds the number of entrants and, in its top bit, whether the gate is closed. Every
  atomic access of the code is a step, so that the steps of the threads interleave in any order.
\<close>

section \<open>The gate and its users\<close>

definition CLOSED :: u64 where "CLOSED = push_bit 63 1"

text \<open>
  A callback is outside, in the loop of \<open>try_enter\<close> with the value it expects, or inside. The control
  thread leaves the gate open, waits in \<open>close_and_wait\<close>, owns the plugin (the call returned true) or has
  given up (it returned false).
\<close>

datatype callback_phase = Outside | Expecting u64 | Inside

datatype control_phase = Gate_Open | Waiting | Owning | Gave_Up

record gate =
  gt_word :: u64
  gt_callbacks :: "callback_phase list"
  gt_control :: control_phase

definition new_gate :: "nat \<Rightarrow> gate" where
  "new_gate n = \<lparr>gt_word = 0, gt_callbacks = replicate n Outside, gt_control = Gate_Open\<rparr>"

definition gate_closed :: "gate \<Rightarrow> bool" where
  "gate_closed g \<longleftrightarrow> gt_word g AND CLOSED \<noteq> 0"

definition set_callback :: "nat \<Rightarrow> callback_phase \<Rightarrow> gate \<Rightarrow> gate" where
  "set_callback i phase g = g\<lparr>gt_callbacks := (gt_callbacks g)[i := phase]\<rparr>"

text \<open>
  \<open>try_enter\<close>: each turn of the loop tests the value it has and then exchanges it. The exchange is a weak one: it may fail
  (\<open>spurious\<close>) although the value is the expected one. A refused callback is outside again.
\<close>

definition expect :: "nat \<Rightarrow> u64 \<Rightarrow> gate \<Rightarrow> gate" where
  "expect i state g = set_callback i (if state AND CLOSED \<noteq> 0 then Outside else Expecting state) g"

definition enter_load :: "nat \<Rightarrow> gate \<Rightarrow> gate" where
  "enter_load i g = expect i (gt_word g) g"

definition enter_exchange :: "bool \<Rightarrow> nat \<Rightarrow> u64 \<Rightarrow> gate \<Rightarrow> gate" where
  "enter_exchange spurious i state g =
     (if gt_word g = state \<and> \<not> spurious
      then set_callback i Inside (g\<lparr>gt_word := state + 1\<rparr>)
      else expect i (gt_word g) g)"

definition drop_admission :: "nat \<Rightarrow> gate \<Rightarrow> gate" where
  "drop_admission i g = set_callback i Outside (g\<lparr>gt_word := gt_word g - 1\<rparr>)"

text \<open>\<open>close_and_wait\<close>: the first access, and one turn of the loop with the comparison of the clock.\<close>

definition close_gate :: "gate \<Rightarrow> gate" where
  "close_gate g = g\<lparr>gt_word := gt_word g OR CLOSED, gt_control := Waiting\<rparr>"

definition poll_gate :: "bool \<Rightarrow> gate \<Rightarrow> gate" where
  "poll_gate deadline_passed g =
     (if gt_word g = CLOSED then g\<lparr>gt_control := Owning\<rparr>
      else if deadline_passed then g\<lparr>gt_control := Gave_Up\<rparr>
      else g)"

definition reopen :: "gate \<Rightarrow> gate" where
  "reopen g = g\<lparr>gt_word := gt_word g AND NOT CLOSED, gt_control := Gate_Open\<rparr>"

text \<open>
  One atomic step of any thread. The control thread may close a gate that is closed already, and reopens it only after
  \<open>close_and_wait\<close> has returned.
\<close>

inductive gate_step :: "gate \<Rightarrow> gate \<Rightarrow> bool" where
  load: "i < length (gt_callbacks g) \<Longrightarrow> gt_callbacks g ! i = Outside \<Longrightarrow> gate_step g (enter_load i g)"
| exchange: "i < length (gt_callbacks g) \<Longrightarrow> gt_callbacks g ! i = Expecting state
    \<Longrightarrow> gate_step g (enter_exchange spurious i state g)"
| leave: "i < length (gt_callbacks g) \<Longrightarrow> gt_callbacks g ! i = Inside \<Longrightarrow> gate_step g (drop_admission i g)"
| close: "gt_control g \<noteq> Waiting \<Longrightarrow> gate_step g (close_gate g)"
| poll: "gt_control g = Waiting \<Longrightarrow> gate_step g (poll_gate deadline_passed g)"
| reopen: "gt_control g \<noteq> Waiting \<Longrightarrow> gate_step g (reopen g)"

inductive gate_reachable :: "nat \<Rightarrow> gate \<Rightarrow> bool" for n where
  start: "gate_reachable n (new_gate n)"
| step: "gate_reachable n g \<Longrightarrow> gate_step g g' \<Longrightarrow> gate_reachable n g'"

inductive_cases gate_stepE: "gate_step g g'"

section \<open>The word counts the callbacks\<close>

definition entrants :: "gate \<Rightarrow> nat" where
  "entrants g = length (filter (\<lambda>c. c = Inside) (gt_callbacks g))"

lemma filter_update_same:
  assumes "i < length xs" "P (xs ! i) = P y"
  shows "length (filter P (xs[i := y])) = length (filter P xs)"
  using assms
proof (induction xs arbitrary: i)
  case (Cons x xs)
  then show ?case by (cases i) auto
qed simp

lemma filter_update_gain:
  assumes "i < length xs" "\<not> P (xs ! i)" "P y"
  shows "length (filter P (xs[i := y])) = Suc (length (filter P xs))"
  using assms
proof (induction xs arbitrary: i)
  case (Cons x xs)
  then show ?case by (cases i) auto
qed simp

lemma filter_update_loss:
  assumes "i < length xs" "P (xs ! i)" "\<not> P y"
  shows "Suc (length (filter P (xs[i := y]))) = length (filter P xs)"
  using assms
proof (induction xs arbitrary: i)
  case (Cons x xs)
  then show ?case by (cases i) auto
qed simp

lemma entrants_bound: "entrants g \<le> length (gt_callbacks g)"
  by (simp add: entrants_def)

text \<open>The top bit and the count do not mix as long as the count is below it.\<close>

lemma bit_CLOSED: "bit CLOSED n \<longleftrightarrow> n = 63"
  unfolding CLOSED_def by (auto simp add: bit_push_bit_iff bit_1_iff possible_bit_word simp del: push_bit_of_1 push_bit_numeral)

lemma not_bit_nat_of_less: "(k :: nat) < 2 ^ n \<Longrightarrow> \<not> bit k n"
  by (simp add: bit_iff_odd)

lemma small_not_bit63: "k < 2 ^ 63 \<Longrightarrow> \<not> bit (of_nat k :: u64) 63"
  using not_bit_nat_of_less [of k 63] by (simp add: bit_of_nat_iff)

definition gate_value :: "bool \<Rightarrow> nat \<Rightarrow> u64" where
  "gate_value closed k = (if closed then CLOSED else 0) + of_nat k"

lemma gate_value_or:
  assumes "k < 2 ^ 63"
  shows "CLOSED + of_nat k = CLOSED OR (of_nat k :: u64)"
  using small_not_bit63 [OF assms] by (intro disjunctive_add) (auto simp: bit_CLOSED)

lemma gate_value_closed:
  assumes "k < 2 ^ 63"
  shows "gate_value closed k AND CLOSED \<noteq> 0 \<longleftrightarrow> closed"
  using small_not_bit63 [OF assms] gate_value_or [OF assms]
  by (auto simp: gate_value_def word_eq_0_iff_bits bit_and_iff bit_or_iff bit_CLOSED)

lemma gate_value_close:
  assumes "k < 2 ^ 63"
  shows "gate_value closed k OR CLOSED = gate_value True k"
  using gate_value_or [OF assms] by (simp add: gate_value_def or.commute or.left_commute)

lemma gate_value_reopen:
  assumes "k < 2 ^ 63"
  shows "gate_value closed k AND NOT CLOSED = gate_value False k"
proof (rule bit_eqI)
  fix n
  show "bit (gate_value closed k AND NOT CLOSED) n = bit (gate_value False k) n"
    using small_not_bit63 [OF assms] gate_value_or [OF assms]
    by (auto simp: gate_value_def bit_and_iff bit_not_iff bit_or_iff bit_CLOSED dest: bit_imp_possible_bit)
qed

lemma gate_value_empty:
  assumes "k < 2 ^ 63"
  shows "gate_value True k = CLOSED \<longleftrightarrow> k = 0"
proof -
  have "(of_nat k :: u64) = 0 \<longleftrightarrow> k = 0" using assms by (auto simp: word_of_nat_eq_0_iff dest: dvd_imp_le)
  then show ?thesis by (simp add: gate_value_def)
qed

lemma gate_value_Suc: "gate_value closed k + 1 = gate_value closed (Suc k)"
  "gate_value closed (Suc k) - 1 = gate_value closed k"
  by (simp_all add: gate_value_def)

definition expects_open :: "callback_phase \<Rightarrow> bool" where
  "expects_open c \<longleftrightarrow> (case c of Expecting state \<Rightarrow> state AND CLOSED = 0 | _ \<Rightarrow> True)"

lemma list_all_update: "list_all P xs \<Longrightarrow> P y \<Longrightarrow> list_all P (xs[i := y])"
  using set_update_subset_insert [of xs i y] by (auto simp: list_all_iff)

definition gate_ok :: "nat \<Rightarrow> gate \<Rightarrow> bool" where
  "gate_ok n g \<longleftrightarrow>
     length (gt_callbacks g) = n
     \<and> gt_word g = gate_value (gt_control g \<noteq> Gate_Open) (entrants g)
     \<and> list_all expects_open (gt_callbacks g)
     \<and> (gt_control g = Owning \<longrightarrow> entrants g = 0)"

lemma gate_okD:
  assumes "gate_ok n g" "n < 2 ^ 63"
  shows "entrants g < 2 ^ 63" "gate_closed g \<longleftrightarrow> gt_control g \<noteq> Gate_Open"
    "gt_word g = CLOSED \<longleftrightarrow> gt_control g \<noteq> Gate_Open \<and> entrants g = 0"
proof -
  show bound: "entrants g < 2 ^ 63"
    using entrants_bound [of g] assms by (simp add: gate_ok_def)
  show closed: "gate_closed g \<longleftrightarrow> gt_control g \<noteq> Gate_Open"
    using assms(1) gate_value_closed [OF bound] by (simp add: gate_closed_def gate_ok_def)
  show "gt_word g = CLOSED \<longleftrightarrow> gt_control g \<noteq> Gate_Open \<and> entrants g = 0"
  proof (cases "gt_control g = Gate_Open")
    case True
    then have "gt_word g AND CLOSED = 0" using closed by (simp add: gate_closed_def)
    moreover have "CLOSED \<noteq> 0" by (simp add: CLOSED_def)
    ultimately show ?thesis using True by auto
  next
    case False
    then show ?thesis using assms(1) gate_value_empty [OF bound] by (simp add: gate_ok_def)
  qed
qed

lemma new_gate_ok: "gate_ok n (new_gate n)"
  by (simp add: gate_ok_def new_gate_def entrants_def gate_value_def expects_open_def list_all_iff)

text \<open>A callback that does not pass the gate changes neither the word nor the count.\<close>

lemma set_callback_ok:
  assumes "gate_ok n g" "i < n" "gt_callbacks g ! i \<noteq> Inside" "phase \<noteq> Inside" "expects_open phase"
  shows "gate_ok n (set_callback i phase g)"
proof -
  have "entrants (set_callback i phase g) = entrants g"
    unfolding entrants_def set_callback_def
    using assms(1-4) by (simp add: gate_ok_def filter_update_same)
  then show ?thesis using assms(1,5) list_all_update [of expects_open "gt_callbacks g" phase i]
    by (simp add: gate_ok_def set_callback_def)
qed

lemma expect_ok:
  assumes "gate_ok n g" "i < n" "gt_callbacks g ! i \<noteq> Inside"
  shows "gate_ok n (expect i state g)"
  unfolding expect_def by (rule set_callback_ok [OF assms]) (simp_all add: expects_open_def)

lemma enter_ok:
  assumes "gate_ok n g" "i < n" "gt_callbacks g ! i \<noteq> Inside" "gt_control g = Gate_Open"
  shows "gate_ok n (set_callback i Inside (g\<lparr>gt_word := gt_word g + 1\<rparr>))"
proof -
  have "length (filter (\<lambda>c. c = Inside) ((gt_callbacks g)[i := Inside])) = Suc (entrants g)"
    unfolding entrants_def using assms(1-3) by (intro filter_update_gain) (simp_all add: gate_ok_def)
  then show ?thesis
    using assms(1,4) list_all_update [of expects_open "gt_callbacks g" Inside i]
    by (simp add: gate_ok_def set_callback_def entrants_def gate_value_Suc expects_open_def)
qed

lemma leave_ok:
  assumes "gate_ok n g" "i < n" "gt_callbacks g ! i = Inside"
  shows "gate_ok n (drop_admission i g)"
proof -
  have "Suc (length (filter (\<lambda>c. c = Inside) ((gt_callbacks g)[i := Outside]))) = entrants g"
    unfolding entrants_def using assms by (intro filter_update_loss) (simp_all add: gate_ok_def)
  then have count: "entrants g = Suc (length (filter (\<lambda>c. c = Inside) ((gt_callbacks g)[i := Outside])))" by simp
  show ?thesis
    using assms(1) list_all_update [of expects_open "gt_callbacks g" Outside i]
    unfolding gate_ok_def count gate_value_Suc
    by (simp add: drop_admission_def set_callback_def entrants_def gate_value_Suc expects_open_def)
qed

lemma gate_step_ok:
  assumes "gate_step g g'" "gate_ok n g" "n < 2 ^ 63"
  shows "gate_ok n g'"
  using assms(1)
proof cases
  case (load i)
  then show ?thesis using assms(2) expect_ok [OF assms(2), of i "gt_word g"] by (simp add: enter_load_def gate_ok_def)
next
  case (exchange i state spurious)
  have i: "i < n" using exchange assms(2) by (simp add: gate_ok_def)
  show ?thesis
  proof (cases "gt_word g = state \<and> \<not> spurious")
    case False
    then have "g' = expect i (gt_word g) g" using exchange(1) by (simp only: enter_exchange_def if_False)
    then show ?thesis using expect_ok [OF assms(2) i] exchange by simp
  next
    case True
    have "expects_open (gt_callbacks g ! i)" using assms(2) i by (simp add: gate_ok_def list_all_length)
    then have "gt_word g AND CLOSED = 0" using exchange(3) True by (simp add: expects_open_def)
    then have opened: "gt_control g = Gate_Open"
      using gate_okD(2) [OF assms(2,3)] by (simp add: gate_closed_def)
    have "g' = set_callback i Inside (g\<lparr>gt_word := gt_word g + 1\<rparr>)"
      using exchange(1) True by (simp add: enter_exchange_def)
    then show ?thesis using enter_ok [OF assms(2) i _ opened] exchange(3) by simp
  qed
next
  case (leave i)
  then show ?thesis using leave_ok [OF assms(2)] assms(2) by (simp add: gate_ok_def)
next
  case close
  then show ?thesis
    using assms(2) gate_value_close [OF gate_okD(1) [OF assms(2,3)]]
    by (simp add: gate_ok_def close_gate_def entrants_def)
next
  case (poll deadline_passed)
  then show ?thesis
    using assms(2) gate_okD(3) [OF assms(2,3)] unfolding gate_ok_def poll_gate_def
    by (simp add: entrants_def)
next
  case reopen
  then show ?thesis
    using assms(2) gate_value_reopen [OF gate_okD(1) [OF assms(2,3)]]
    by (simp add: gate_ok_def reopen_def entrants_def)
qed

lemma gate_reachable_ok:
  assumes "gate_reachable n g" "n < 2 ^ 63"
  shows "gate_ok n g"
  using assms(1)
proof induction
  case start
  show ?case by (rule new_gate_ok)
next
  case (step g g')
  then show ?case using gate_step_ok assms(2) by blast
qed

section \<open>The owner is alone\<close>

text \<open>Once the gate is closed nobody enters any more: the number of callbacks inside only falls.\<close>

lemma closed_only_leave:
  assumes "gate_step g g'" "gate_ok n g" "n < 2 ^ 63" "gt_control g \<noteq> Gate_Open"
  shows "entrants g' \<le> entrants g"
  using assms(1)
proof cases
  case (exchange i state spurious)
  have i: "i < n" using exchange assms(2) by (simp add: gate_ok_def)
  have "expects_open (gt_callbacks g ! i)" using assms(2) i by (simp add: gate_ok_def list_all_length)
  then have "gt_word g \<noteq> state"
    using exchange(3) gate_okD(2) [OF assms(2,3)] assms(4) by (auto simp: expects_open_def gate_closed_def)
  then have "g' = expect i (gt_word g) g" using exchange(1) by (simp add: enter_exchange_def)
  then show ?thesis
    using exchange(2,3) filter_update_same [of i "gt_callbacks g" "\<lambda>c. c = Inside"]
    by (simp add: expect_def set_callback_def entrants_def)
next
  case (load i)
  then show ?thesis
    using filter_update_same [of i "gt_callbacks g" "\<lambda>c. c = Inside"]
    by (simp add: enter_load_def expect_def set_callback_def entrants_def)
next
  case (leave i)
  then show ?thesis
    using filter_update_loss [of i "gt_callbacks g" "\<lambda>c. c = Inside" Outside]
    by (simp add: drop_admission_def set_callback_def entrants_def)
qed (simp_all add: close_gate_def poll_gate_def reopen_def entrants_def)

text \<open>
  C15: The gate excludes the audio threads from the plugin while the control thread works on it. In every state that
  the atomic steps of the callbacks and the control thread can reach, in any order and with weak exchanges that fail for no reason,
  no callback is inside when \<open>close_and_wait\<close> has returned true; as long as the gate stays closed the number of callbacks inside never grows; and a turn of the waiting loop
  succeeds exactly when the last one has left.
\<close>

theorem maintenance_excludes_callbacks:
  assumes "gate_reachable n g" "n < 2 ^ 63"
  shows "(gt_control g = Owning \<longrightarrow> Inside \<notin> set (gt_callbacks g))
    \<and> (gate_step g g' \<and> gt_control g \<noteq> Gate_Open \<longrightarrow>
        length (filter (\<lambda>c. c = Inside) (gt_callbacks g')) \<le> length (filter (\<lambda>c. c = Inside) (gt_callbacks g)))
    \<and> (gt_control g = Waiting \<longrightarrow>
        (gt_control (poll_gate deadline_passed g) = Owning \<longleftrightarrow> Inside \<notin> set (gt_callbacks g)))"
proof -
  note ok = gate_reachable_ok [OF assms]
  have none: "entrants g = 0 \<longleftrightarrow> Inside \<notin> set (gt_callbacks g)"
    by (auto simp: entrants_def filter_empty_conv)
  have "gt_control g = Owning \<longrightarrow> Inside \<notin> set (gt_callbacks g)"
    using ok none by (simp add: gate_ok_def)
  moreover have "gate_step g g' \<and> gt_control g \<noteq> Gate_Open \<longrightarrow>
      length (filter (\<lambda>c. c = Inside) (gt_callbacks g')) \<le> length (filter (\<lambda>c. c = Inside) (gt_callbacks g))"
    using closed_only_leave [OF _ ok assms(2)] by (simp add: entrants_def)
  moreover have "gt_control g = Waiting \<longrightarrow>
      (gt_control (poll_gate deadline_passed g) = Owning \<longleftrightarrow> Inside \<notin> set (gt_callbacks g))"
    using gate_okD(3) [OF ok assms(2)] none by (simp add: poll_gate_def)
  ultimately show ?thesis by blast
qed

text \<open>A callback is inside when the gate closes, a second one is refused, the first leaves, and the control thread owns the plugin.\<close>

definition example_gate :: gate where
  "example_gate =
     poll_gate False (drop_admission 0 (enter_load 1 (close_gate
       (enter_exchange False 0 0 (enter_load 0 (new_gate 2))))))"

lemma example_gate_reachable: "gate_reachable 2 example_gate"
proof -
  have a: "gate_reachable 2 (enter_load 0 (new_gate 2))"
    by (rule gate_reachable.step [OF gate_reachable.start gate_step.load]) (simp_all add: new_gate_def)
  have b: "gate_reachable 2 (enter_exchange False 0 0 (enter_load 0 (new_gate 2)))"
    by (rule gate_reachable.step [OF a gate_step.exchange])
      (simp_all add: new_gate_def enter_load_def expect_def set_callback_def)
  have c: "gate_reachable 2 (close_gate (enter_exchange False 0 0 (enter_load 0 (new_gate 2))))"
    by (rule gate_reachable.step [OF b gate_step.close])
      (simp add: new_gate_def enter_load_def expect_def set_callback_def enter_exchange_def)
  have d: "gate_reachable 2 (enter_load 1 (close_gate (enter_exchange False 0 0 (enter_load 0 (new_gate 2)))))"
    by (rule gate_reachable.step [OF c gate_step.load])
      (simp_all add: new_gate_def enter_load_def expect_def set_callback_def enter_exchange_def close_gate_def)
  have e: "gate_reachable 2 (drop_admission 0 (enter_load 1 (close_gate
      (enter_exchange False 0 0 (enter_load 0 (new_gate 2))))))"
    by (rule gate_reachable.step [OF d gate_step.leave])
      (simp_all add: new_gate_def enter_load_def expect_def set_callback_def enter_exchange_def close_gate_def)
  show ?thesis unfolding example_gate_def
    by (rule gate_reachable.step [OF e gate_step.poll])
      (simp add: new_gate_def enter_load_def expect_def set_callback_def enter_exchange_def close_gate_def
        drop_admission_def)
qed

theorem maintenance_excludes_callbacks_witness:
  "gt_control example_gate = Owning \<and> Inside \<notin> set (gt_callbacks example_gate)"
proof -
  have "gt_control example_gate = Owning"
    by (simp add: example_gate_def new_gate_def enter_load_def expect_def set_callback_def enter_exchange_def
        close_gate_def drop_admission_def poll_gate_def CLOSED_def)
  then show ?thesis
    using maintenance_excludes_callbacks [OF example_gate_reachable, of undefined False] by simp
qed

end
