(* ===== verification/Audio_Callback.thy ===== *)
theory Audio_Callback
  imports Remote_Bridge Callback_Gate
begin

text \<open>
  One block in the audio callback (\<open>audio/callback.rs\<close>, \<open>audio/callback_render.rs\<close> and the rest of
  \<open>audio/runtime_state.rs\<close>): admission, the drained MIDI, the parameter changes, the call of the plugin,
  the mix into the format of the device, and what is played when the plugin cannot be called. A plugin in
  the same process is a state with the operations of its library (\<open>native_calls\<close>); one behind the bridge
  is \<open>remote_process\<close>. The equalizer and the arithmetic of samples are parameters.
\<close>

section \<open>State\<close>

definition OVERSIZED_CALLBACK_ERROR :: u32 where "OVERSIZED_CALLBACK_ERROR = 13"

text \<open>
  The operations of a plugin in this process. A boolean result is false when the call returned an error or
  panicked. \<open>nc_process p inputs frames\<close> yields the sample of each channel at each position.
\<close>

record 'p native_calls =
  nc_set_parameter :: "nat \<Rightarrow> f32 \<Rightarrow> 'p \<Rightarrow> bool \<times> 'p"
  nc_process_events :: "(u32 \<times> bytes) list \<Rightarrow> 'p \<Rightarrow> bool \<times> 'p"
  nc_remaining_midi_capacity :: "'p \<Rightarrow> nat"
  nc_send_midi :: "rack_event list \<Rightarrow> 'p \<Rightarrow> bool \<times> 'p"
  nc_request_midi_reset :: "'p \<Rightarrow> 'p"
  nc_midi_reset_pending :: "'p \<Rightarrow> bool"
  nc_process :: "nat \<Rightarrow> nat \<Rightarrow> 'p \<Rightarrow> bool \<times> (nat \<Rightarrow> nat \<Rightarrow> f32) \<times> 'p"

datatype 'p plugin_backend =
    Vst2_Plugin 'p u64
  | Vst3_Plugin 'p nat nat
  | Remote_Plugin remote_plugin bridge_shared

record 'q eq_ops =
  eo_begin_block :: "'q \<Rightarrow> 'q"
  eo_process_stereo :: "f32 \<Rightarrow> f32 \<Rightarrow> 'q \<Rightarrow> (f32 \<times> f32) \<times> 'q"
  eo_process_mono :: "f32 \<Rightarrow> 'q \<Rightarrow> f32 \<times> 'q"

record 'q audio_callback = callback_midi +
  ac_render_source_end_us :: "u64 option"
  ac_parameter_commands :: "parameter_command list"
  ac_outputs :: "f32 list list"
  ac_plugin_inputs :: nat
  ac_plugin_outputs :: nat
  ac_max_frames :: nat
  ac_equalizer :: 'q
  ac_sample_rate :: u32
  ac_last_frames :: nat
  ac_error_count :: u32

text \<open>
  What the callback shares: the ring and the reset flag, the channel of parameters, the controls, and of the
  telemetry what other parts act on. Counters that only feed the diagnostic display (intervals between
  callbacks, histograms, the latency of the driver) are left out, as are the preallocated pointers and event arrays of the state.
\<close>

record audio_world =
  aw_midi :: audio_shared
  aw_parameters :: "parameter_command list"
  aw_gain :: f32
  aw_limiter :: bool
  aw_bridge :: bridge_telemetry
  aw_failed_sequence :: u64
  aw_stream_fatal_error :: u32
  aw_recovery_requests :: u32
  aw_route_changes :: u32
  aw_xruns :: u32
  aw_lock_misses :: u32
  aw_emergency_resets :: u32
  aw_meter_left :: f32
  aw_meter_right :: f32
  aw_editor_open :: bool
  aw_x86_health :: "u32 \<times> u32 \<times> bool"
  aw_callback_last_us :: u32
  aw_callback_max_us :: u32
  aw_over_budget :: u32
  aw_consecutive_misses :: u32

text \<open>What happens around one block: the clocks, the gate, the lock on the plugin, and the other threads.\<close>

record block_inputs =
  bi_moves :: "nat \<Rightarrow> audio_shared \<Rightarrow> audio_shared"
  bi_admitted :: bool
  bi_lock_free :: bool
  bi_dsp :: "nat \<Rightarrow> dsp_action list"
  bi_now_us :: u64
  bi_now_ms :: u64
  bi_elapsed_us :: u32

section \<open>Samples for the device\<close>

definition f32_abs :: "f32 \<Rightarrow> f32" where "f32_abs x = x AND 0x7FFFFFFF"

definition SAMPLE_LIMIT :: f32 where "SAMPLE_LIMIT = 0x3F7AE148"
definition minus_SAMPLE_LIMIT :: f32 where "minus_SAMPLE_LIMIT = 0xBF7AE148"

definition limit_sample :: "f32 \<Rightarrow> f32" where
  "limit_sample sample = f32_clamp sample minus_SAMPLE_LIMIT SAMPLE_LIMIT"

definition output_sample :: "'d sample_ops \<Rightarrow> f32 \<Rightarrow> f32 \<Rightarrow> bool \<Rightarrow> f32" where
  "output_sample ops sample gain limiter =
     (let scaled = so_times ops sample gain in
      if \<not> f32_is_finite scaled then 0
      else if limiter then limit_sample scaled else scaled)"

text \<open>\<open>device_sample\<close> for a format that is a float or not; \<open>from_sample\<close> is the conversion of the sample library.\<close>

definition minus_one_f32 :: f32 where "minus_one_f32 = 0xBF800000"
definition below_one_f32 :: f32 where "below_one_f32 = one_f32 - 1"

definition device_sample :: "bool \<Rightarrow> (f32 \<Rightarrow> 'd) \<Rightarrow> f32 \<Rightarrow> 'd" where
  "device_sample is_float from_sample sample =
     (let sample = if f32_is_finite sample then sample else 0;
          sample = if is_float then sample else f32_clamp sample minus_one_f32 below_one_f32
      in from_sample sample)"

definition set_meters :: "f32 \<Rightarrow> f32 \<Rightarrow> audio_world \<Rightarrow> audio_world" where
  "set_meters l r w = w\<lparr>aw_meter_left := l, aw_meter_right := r\<rparr>"

definition peak :: "f32 list \<Rightarrow> f32" where
  "peak samples = foldl (\<lambda>p s. f32_max p (f32_abs s)) 0 samples"

text \<open>\<open>replay_last_output_or_silence\<close>: the last block, faded to silence, and never a second time.\<close>

definition replay_samples :: "'d sample_ops \<Rightarrow> nat \<Rightarrow> nat \<Rightarrow> f32 list \<Rightarrow> f32 list" where
  "replay_samples ops len channels last_output =
     (let frames = len div channels;
          ramp = (\<lambda>idx. if frames > 1 then so_fade ops (min (idx div channels) (frames - 1)) (frames - 1) else 0)
      in map (\<lambda>idx. so_times ops (if idx < length last_output then last_output ! idx else 0) (ramp idx)) [0..<len])"

definition replay_last_output_or_silence ::
  "'d sample_ops \<Rightarrow> nat \<Rightarrow> nat \<Rightarrow> 'q audio_callback \<Rightarrow> audio_world \<Rightarrow> 'd list \<times> 'q audio_callback \<times> audio_world" where
  "replay_last_output_or_silence ops len channels st w =
     (if cb_last_output st = [] \<or> channels = 0 then
        (replicate len (so_device ops 0), st, set_meters 0 0 w)
      else
        let samples = replay_samples ops len channels (cb_last_output st);
            channel = (\<lambda>c. map ((!) samples) (filter (\<lambda>idx. idx mod channels = c) [0..<len]));
            peak_l = peak (channel 0);
            peak_r = (if channels = 1 then peak_l else peak (channel 1))
        in (map (so_device ops) samples, silence_output st,
            set_meters (f32_min peak_l one_f32) (f32_min peak_r one_f32) w))"

section \<open>Timing\<close>

definition finish_driver_timing :: "nat \<Rightarrow> u32 \<Rightarrow> u32 \<Rightarrow> audio_world \<Rightarrow> audio_world" where
  "finish_driver_timing frames sample_rate elapsed_us w =
     (let w = w\<lparr>aw_callback_last_us := elapsed_us, aw_callback_max_us := max (aw_callback_max_us w) elapsed_us\<rparr>
      in if frames > 0 \<and> sample_rate > 0 then
           let budget_us = (ucast (of_nat frames * 1000000 div (ucast sample_rate :: u64)) :: u32)
           in if budget_us > 0 \<and> elapsed_us > budget_us
              then w\<lparr>aw_over_budget := aw_over_budget w + 1, aw_consecutive_misses := aw_consecutive_misses w + 1\<rparr>
              else w\<lparr>aw_consecutive_misses := 0\<rparr>
         else w)"

definition finish_callback_timing :: "'q audio_callback \<Rightarrow> nat \<Rightarrow> u32 \<Rightarrow> audio_world \<Rightarrow> audio_world" where
  "finish_callback_timing st frames elapsed_us w =
     (if ac_render_source_end_us st = None then finish_driver_timing frames (ac_sample_rate st) elapsed_us w else w)"

section \<open>Parameters\<close>

text \<open>
  \<open>drain_parameter_commands_limit\<close>: at most \<open>limit\<close> commands leave the channel; a later one for the same
  parameter replaces the earlier one in its place.
\<close>

definition coalesce :: "parameter_command list \<Rightarrow> parameter_command \<Rightarrow> parameter_command list" where
  "coalesce commands command =
     (case replace_first (\<lambda>existing. pc_index existing = pc_index command) command commands of
        Some commands \<Rightarrow> commands
      | None \<Rightarrow> commands @ [command])"

definition drain_parameter_commands_limit ::
  "nat \<Rightarrow> 'q audio_callback \<Rightarrow> audio_world \<Rightarrow> 'q audio_callback \<times> audio_world" where
  "drain_parameter_commands_limit limit st w =
     (let n = min limit MIDI_EVENT_BATCH_CAPACITY
      in (st\<lparr>ac_parameter_commands := foldl coalesce [] (take n (aw_parameters w))\<rparr>,
          w\<lparr>aw_parameters := drop n (aw_parameters w)\<rparr>))"

definition raise_applied :: "u64 \<Rightarrow> audio_world \<Rightarrow> audio_world" where
  "raise_applied sequence w =
     w\<lparr>aw_bridge := (aw_bridge w)\<lparr>tl_applied_sequence := max (tl_applied_sequence (aw_bridge w)) sequence\<rparr>\<rparr>"

definition raise_failed :: "u64 \<Rightarrow> audio_world \<Rightarrow> audio_world" where
  "raise_failed sequence w = w\<lparr>aw_failed_sequence := max (aw_failed_sequence w) sequence\<rparr>"

definition acknowledge_parameters :: "'q audio_callback \<Rightarrow> audio_world \<Rightarrow> audio_world" where
  "acknowledge_parameters st w =
     (if ac_parameter_commands st = [] then w
      else raise_applied (max_sequence (ac_parameter_commands st)) w)"

definition fail_parameters :: "'q audio_callback \<Rightarrow> audio_world \<Rightarrow> audio_world" where
  "fail_parameters st w =
     (if ac_parameter_commands st = [] then w
      else raise_failed (max_sequence (ac_parameter_commands st)) w)"

section \<open>Before the plugin\<close>

definition prepare_block :: "nat \<Rightarrow> 'q audio_callback \<Rightarrow> audio_world \<Rightarrow> bool \<times> 'q audio_callback \<times> audio_world" where
  "prepare_block frames st w =
     (if frames > ac_max_frames st then
        let w = (if aw_stream_fatal_error w = 0
                 then w\<lparr>aw_stream_fatal_error := OVERSIZED_CALLBACK_ERROR,
                        aw_recovery_requests := aw_recovery_requests w + 1\<rparr>
                 else w)
        in (False, st, w\<lparr>aw_midi := (aw_midi w)\<lparr>au_emergency := True\<rparr>\<rparr>)
      else
        (True, st\<lparr>ac_outputs := map (\<lambda>out. replicate frames 0 @ drop frames out) (ac_outputs st)\<rparr>, w))"

text \<open>\<open>send_reset_messages\<close>; the result of the library's call is not looked at.\<close>

definition reset_events :: "(u32 \<times> bytes) list" where
  "reset_events = map (Pair 0) (concat (map reset_messages_for_channel (map of_nat [0..<16])))"

definition send_reset_messages :: "'p native_calls \<Rightarrow> 'p plugin_backend \<Rightarrow> 'p plugin_backend" where
  "send_reset_messages calls plugin =
     (case plugin of
        Vst2_Plugin p position \<Rightarrow> Vst2_Plugin (snd (nc_process_events calls reset_events p)) position
      | Vst3_Plugin p inputs outputs \<Rightarrow> Vst3_Plugin (nc_request_midi_reset calls p) inputs outputs
      | Remote_Plugin rm sh \<Rightarrow> Remote_Plugin (panic_all_notes rm) sh)"

section \<open>Calling the plugin\<close>

definition store_outputs :: "nat \<Rightarrow> nat \<Rightarrow> (nat \<Rightarrow> nat \<Rightarrow> f32) \<Rightarrow> f32 list list \<Rightarrow> f32 list list" where
  "store_outputs channels frames rendered outputs =
     map (\<lambda>c. if c < channels
              then map (\<lambda>i. if i < frames then rendered c i else outputs ! c ! i) [0..<length (outputs ! c)]
              else outputs ! c) [0..<length outputs]"

definition midi_now :: "block_inputs \<Rightarrow> 'q audio_callback \<Rightarrow> u64" where
  "midi_now bi st = (case ac_render_source_end_us st of Some t \<Rightarrow> t | None \<Rightarrow> bi_now_us bi)"

text \<open>The setters of a VST2 plugin run until one panics; the panic is caught and forgotten.\<close>

fun set_vst2_parameters :: "'p native_calls \<Rightarrow> parameter_command list \<Rightarrow> 'p \<Rightarrow> 'p" where
  "set_vst2_parameters calls [] p = p"
| "set_vst2_parameters calls (c # cs) p =
     (case nc_set_parameter calls (pc_index c) (pc_value c) p of
        (ok, p) \<Rightarrow> if ok then set_vst2_parameters calls cs p else p)"

definition render_vst2 ::
  "'p native_calls \<Rightarrow> block_inputs \<Rightarrow> nat \<Rightarrow> 'q audio_callback \<Rightarrow> audio_world \<Rightarrow> 'p \<Rightarrow> u64
     \<Rightarrow> bool \<times> 'q audio_callback \<times> 'p \<times> u64" where
  "render_vst2 calls bi frames st w p position =
     (let (events, st) = prepare_pending_vst2_midi (ac_last_frames st) (ac_sample_rate st) (midi_now bi st) (aw_midi w) st;
          (ok, p) = (if events \<noteq> [] then nc_process_events calls events p else (True, p))
      in if \<not> ok then (False, st, p, position)
         else
           let (ok, rendered, p) = nc_process calls (ac_plugin_inputs st) frames p
           in if \<not> ok then (False, st, p, position)
              else (True,
                    st\<lparr>ac_outputs := store_outputs (ac_plugin_outputs st) frames rendered (ac_outputs st)\<rparr>,
                    p, position + of_nat frames))"

text \<open>A setter of a VST3 plugin that fails is counted, and the others are still called.\<close>

fun set_vst3_parameters ::
  "'p native_calls \<Rightarrow> parameter_command list \<Rightarrow> audio_world \<Rightarrow> 'p \<Rightarrow> audio_world \<times> 'p" where
  "set_vst3_parameters calls [] w p = (w, p)"
| "set_vst3_parameters calls (c # cs) w p =
     (case nc_set_parameter calls (pc_index c) (pc_value c) p of
        (ok, p) \<Rightarrow>
          set_vst3_parameters calls cs
            (if ok then w else raise_failed (pc_sequence c) (w\<lparr>aw_xruns := aw_xruns w + 1\<rparr>)) p)"

definition render_vst3 ::
  "'p native_calls \<Rightarrow> block_inputs \<Rightarrow> nat \<Rightarrow> 'q audio_callback \<Rightarrow> audio_world \<Rightarrow> 'p \<Rightarrow> nat \<Rightarrow> nat
     \<Rightarrow> bool \<times> 'q audio_callback \<times> 'p" where
  "render_vst3 calls bi frames st w p inputs outputs =
     (let (ok, st, p) = submit_pending_vst3_midi_at (nc_send_midi calls) (nc_remaining_midi_capacity calls p)
            (ac_last_frames st) (ac_sample_rate st) (midi_now bi st) (aw_midi w) st p
      in if \<not> ok then (False, st, p)
         else
           let (ok, rendered, p) = nc_process calls inputs frames p
           in if \<not> ok then (False, st, p)
              else (True, st\<lparr>ac_outputs := store_outputs outputs frames rendered (ac_outputs st)\<rparr>, p))"

text \<open>
  The three arms of the \<open>match\<close>. The result is false when the block has to be replayed.
\<close>

definition missed :: "'q audio_callback \<Rightarrow> audio_world \<Rightarrow> 'q audio_callback \<times> audio_world" where
  "missed st w =
     (st\<lparr>ac_error_count := ac_error_count st + 1\<rparr>, (fail_parameters st w)\<lparr>aw_xruns := aw_xruns w + 1\<rparr>)"

definition run_vst2 ::
  "'p native_calls \<Rightarrow> block_inputs \<Rightarrow> nat \<Rightarrow> 'q audio_callback \<Rightarrow> audio_world \<Rightarrow> 'p \<Rightarrow> u64
     \<Rightarrow> bool \<times> 'q audio_callback \<times> audio_world \<times> 'p plugin_backend" where
  "run_vst2 calls bi frames st w p position =
     (let (st, w) = drain_parameter_commands_limit MIDI_EVENT_BATCH_CAPACITY st w;
          p = set_vst2_parameters calls (ac_parameter_commands st) p;
          (ok, st, p, position) = render_vst2 calls bi frames (st\<lparr>ac_last_frames := frames\<rparr>) w p position;
          (st, w) = (if ok then (st, acknowledge_parameters st w) else missed st w)
      in (ok, st, w, Vst2_Plugin p position))"

definition run_vst3 ::
  "'p native_calls \<Rightarrow> block_inputs \<Rightarrow> nat \<Rightarrow> 'q audio_callback \<Rightarrow> audio_world \<Rightarrow> 'p \<Rightarrow> nat \<Rightarrow> nat
     \<Rightarrow> bool \<times> 'q audio_callback \<times> audio_world \<times> 'p plugin_backend" where
  "run_vst3 calls bi frames st w p inputs outputs =
     (let (st, w) = drain_parameter_commands_limit MIDI_EVENT_BATCH_CAPACITY st w;
          (w, p) = set_vst3_parameters calls (ac_parameter_commands st) w p;
          (ok, st, p) = render_vst3 calls bi frames (st\<lparr>ac_last_frames := frames\<rparr>) w p inputs outputs;
          (st, w) = (if ok then (st, acknowledge_parameters st w) else missed st w)
      in (ok, st, w, Vst3_Plugin p inputs outputs))"

definition realtime_health :: "bridge_shared \<Rightarrow> u32 \<times> u32 \<times> bool" where
  "realtime_health sh =
     (sh_underruns sh, sh_overruns sh, sh_server_status sh = SERVER_READY \<and> sh_shutdown sh = 0)"

definition parameter_capacity :: "remote_plugin \<Rightarrow> nat" where
  "parameter_capacity rm = BRIDGE_MAX_PARAMETER_CHANGES - length (rm_pending_parameter_changes rm)"

definition run_remote ::
  "'d sample_ops \<Rightarrow> block_inputs \<Rightarrow> nat \<Rightarrow> 'q audio_callback \<Rightarrow> audio_world \<Rightarrow> remote_plugin \<Rightarrow> bridge_shared
     \<Rightarrow> bool \<times> 'q audio_callback \<times> audio_world \<times> 'p plugin_backend" where
  "run_remote ops bi frames st w rm sh =
     (let (st, w) = drain_parameter_commands_limit (parameter_capacity rm) st w;
          st = st\<lparr>ac_last_frames := frames\<rparr>;
          w = w\<lparr>aw_editor_open := sh_editor_open sh \<noteq> 0, aw_x86_health := realtime_health sh\<rparr>;
          next_ingress_us = (case au_ring (aw_midi w) of [] \<Rightarrow> None | p # _ \<Rightarrow> Some (mp_timestamp_us p));
          bb = remote_process ops (bi_dsp bi) (bi_now_us bi) frames (ac_parameter_commands st) next_ingress_us
                 (ac_render_source_end_us st) (cb_pending st) (ac_outputs st) (Some (aw_bridge w)) rm sh;
          st = st\<lparr>cb_pending := bb_midi bb, ac_outputs := bb_outputs bb\<rparr>;
          w = (case bb_telemetry bb of Some t \<Rightarrow> w\<lparr>aw_bridge := t\<rparr> | None \<Rightarrow> w);
          w = (if bb_ok bb then w else w\<lparr>aw_xruns := aw_xruns w + 1\<rparr>)
      in (bb_ok bb, st, w, Remote_Plugin (bb_plugin bb) (bb_shared bb)))"

definition run_backend ::
  "'d sample_ops \<Rightarrow> 'p native_calls \<Rightarrow> block_inputs \<Rightarrow> nat \<Rightarrow> 'q audio_callback \<Rightarrow> audio_world \<Rightarrow> 'p plugin_backend
     \<Rightarrow> bool \<times> 'q audio_callback \<times> audio_world \<times> 'p plugin_backend" where
  "run_backend ops calls bi frames st w plugin =
     (case plugin of
        Vst2_Plugin p position \<Rightarrow> run_vst2 calls bi frames st w p position
      | Vst3_Plugin p inputs outputs \<Rightarrow> run_vst3 calls bi frames st w p inputs outputs
      | Remote_Plugin rm sh \<Rightarrow> run_remote ops bi frames st w rm sh)"

section \<open>The mix\<close>

text \<open>The samples of one frame after another through the equalizer; a mono plugin feeds both sides.\<close>

fun equalize :: "'q eq_ops \<Rightarrow> bool \<Rightarrow> (f32 \<times> f32) list \<Rightarrow> 'q \<Rightarrow> (f32 \<times> f32) list \<times> 'q" where
  "equalize eq stereo [] q = ([], q)"
| "equalize eq stereo ((l, r) # frames) q =
     (let (frame, q) = (if stereo then eo_process_stereo eq l r q
                        else let (mono, q) = eo_process_mono eq l q in ((mono, mono), q));
          (rest, q) = equalize eq stereo frames q
      in (frame # rest, q))"

text \<open>The gain of each frame; after silence it rises over the block.\<close>

definition frame_gain :: "'d sample_ops \<Rightarrow> f32 \<Rightarrow> bool \<Rightarrow> nat \<Rightarrow> nat \<Rightarrow> f32" where
  "frame_gain ops gain recovering frames i =
     so_times ops gain (if recovering then so_ratio ops (i + 1) frames else one_f32)"

definition mixed_frames ::
  "'d sample_ops \<Rightarrow> f32 \<Rightarrow> bool \<Rightarrow> bool \<Rightarrow> (f32 \<times> f32) list \<Rightarrow> (f32 \<times> f32) list" where
  "mixed_frames ops gain limiter recovering equalized =
     map (\<lambda>i. let g = frame_gain ops gain recovering (length equalized) i
              in (output_sample ops (fst (equalized ! i)) g limiter, output_sample ops (snd (equalized ! i)) g limiter))
         [0..<length equalized]"

text \<open>One frame in the layout of the device: left, right, and zeros for the channels behind them.\<close>

definition device_frame :: "nat \<Rightarrow> f32 \<times> f32 \<Rightarrow> f32 list" where
  "device_frame channels frame =
     (if channels \<ge> 2 then fst frame # snd frame # replicate (channels - 2) 0 else [fst frame])"

definition mix_block ::
  "'d sample_ops \<Rightarrow> 'q eq_ops \<Rightarrow> nat \<Rightarrow> nat \<Rightarrow> nat \<Rightarrow> 'q audio_callback \<Rightarrow> audio_world
     \<Rightarrow> 'd list \<times> 'q audio_callback \<times> audio_world" where
  "mix_block ops eq len channels frames st w =
     (let stereo = (ac_plugin_outputs st > 1);
          left = ac_outputs st ! 0;
          right = (if stereo then ac_outputs st ! 1 else left);
          (equalized, q) = equalize eq stereo (zip (take frames left) (take frames right))
             (eo_begin_block eq (ac_equalizer st));
          mixed = mixed_frames ops (aw_gain w) (aw_limiter w) (cb_recovering st) equalized;
          played = concat (map (device_frame channels) mixed);
          data = map (so_device ops) (played @ replicate (len - length played) 0);
          last_output = take (length (cb_last_output st)) (played @ replicate (length (cb_last_output st)) 0)
      in (data,
          st\<lparr>ac_equalizer := q, cb_last_output := last_output, cb_recovering := False\<rparr>,
          set_meters (f32_min (peak (map fst mixed)) one_f32) (f32_min (peak (map snd mixed)) one_f32) w))"

section \<open>One block\<close>

text \<open>Silence instead of a block, with the memory of the last one erased.\<close>

definition silent_block ::
  "'d sample_ops \<Rightarrow> nat \<Rightarrow> 'q audio_callback \<Rightarrow> audio_world \<Rightarrow> 'd list \<times> 'q audio_callback \<times> audio_world" where
  "silent_block ops len st w = (replicate len (so_device ops 0), silence_output st, set_meters 0 0 w)"

definition reset_still_pending :: "'p native_calls \<Rightarrow> 'p plugin_backend \<Rightarrow> bool" where
  "reset_still_pending calls plugin =
     (case plugin of Vst3_Plugin p _ _ \<Rightarrow> nc_midi_reset_pending calls p | _ \<Rightarrow> False)"

definition settle_reset ::
  "'p native_calls \<Rightarrow> 'p plugin_backend \<Rightarrow> 'q audio_callback \<Rightarrow> audio_world \<Rightarrow> 'q audio_callback \<times> audio_world" where
  "settle_reset calls plugin st w =
     (if cb_needs_reset st \<and> \<not> reset_still_pending calls plugin
      then (st\<lparr>cb_needs_reset := False\<rparr>, w\<lparr>aw_emergency_resets := aw_emergency_resets w + 1\<rparr>)
      else (st, w))"

text \<open>With the lock on the plugin: the result, the data, and everything else after the block.\<close>

definition call_plugin ::
  "'d sample_ops \<Rightarrow> 'q eq_ops \<Rightarrow> 'p native_calls \<Rightarrow> block_inputs \<Rightarrow> 'd list \<Rightarrow> nat \<Rightarrow> nat \<Rightarrow> 'q audio_callback \<Rightarrow> audio_world
     \<Rightarrow> 'p plugin_backend \<Rightarrow> 'd list \<times> 'q audio_callback \<times> audio_world \<times> 'p plugin_backend" where
  "call_plugin ops eq calls bi data channels frames st w plugin =
     (let plugin = (if cb_needs_reset st then send_reset_messages calls plugin else plugin);
          (ok, st, w, plugin) = run_backend ops calls bi frames st w plugin
      in if \<not> ok then
           let (data, st, w) = replay_last_output_or_silence ops (length data) channels st w
           in (data, st, finish_callback_timing st frames (bi_elapsed_us bi) w, plugin)
         else
           let (st, w) = settle_reset calls plugin st w
           in if ac_plugin_outputs st = 0 then
                (replicate (length data) (so_device ops 0), st,
                 finish_callback_timing st frames (bi_elapsed_us bi) (set_meters 0 0 w), plugin)
              else
                let (data, st, w) = mix_block ops eq (length data) channels frames st w
                in (data, st, finish_callback_timing st frames (bi_elapsed_us bi) w, plugin))"

definition bridge_waits ::
  "block_inputs \<Rightarrow> 'q audio_callback \<Rightarrow> 'p plugin_backend \<Rightarrow> bool \<times> 'p plugin_backend" where
  "bridge_waits bi st plugin =
     (case plugin of
        Remote_Plugin rm sh \<Rightarrow>
          (if ac_render_source_end_us st \<noteq> None \<and> \<not> cb_needs_reset st then
             let (ready, rm, sh) = buffered_output_ready (bi_now_ms bi) rm sh
             in (\<not> ready, Remote_Plugin rm sh)
           else (False, plugin))
      | _ \<Rightarrow> (False, plugin))"

definition render_audio_block ::
  "'d sample_ops \<Rightarrow> 'q eq_ops \<Rightarrow> 'p native_calls \<Rightarrow> block_inputs \<Rightarrow> 'd list \<Rightarrow> nat \<Rightarrow> 'q audio_callback \<Rightarrow> audio_world
     \<Rightarrow> 'p plugin_backend \<Rightarrow> bool \<times> 'd list \<times> 'q audio_callback \<times> audio_world \<times> 'p plugin_backend" where
  "render_audio_block ops eq calls bi data channels st w plugin =
     (let finish = (\<lambda>frames st w. finish_callback_timing st frames (bi_elapsed_us bi) w);
          frames = length data div channels
      in if channels = 0 \<or> frames = 0 then (True, data, st, finish 0 st (set_meters 0 0 w), plugin)
         else if \<not> bi_admitted bi then
           let (data, st, w) = silent_block ops (length data) st w in (False, data, st, finish frames st w, plugin)
         else
           let (prepared, st, w) = prepare_block frames st w
           in if \<not> prepared then
                let (data, st, w) = silent_block ops (length data) st (w\<lparr>aw_xruns := aw_xruns w + 1\<rparr>)
                in (True, data, st, finish frames st w, plugin)
              else
                let (st, midi) = drain_midi (bi_moves bi) (bi_now_us bi) st (aw_midi w);
                    w = w\<lparr>aw_midi := midi\<rparr>
                in if \<not> bi_lock_free bi then
                     let (data, st, w) = replay_last_output_or_silence ops (length data) channels st
                           (w\<lparr>aw_lock_misses := aw_lock_misses w + 1\<rparr>)
                     in (True, data, st, finish frames st w, plugin)
                   else
                     let (waits, plugin) = bridge_waits bi st plugin
                     in if waits then (False, data, st, w, plugin)
                        else
                          let (data, st, w, plugin) = call_plugin ops eq calls bi data channels frames st w plugin
                          in (True, data, st, w, plugin))"

section \<open>The stream\<close>

text \<open>
  The closure for the rendering thread, whose state knows the end of the source; the two closures of the driver,
  and the one for its errors.
\<close>

definition render_for_queue ::
  "'d sample_ops \<Rightarrow> 'q eq_ops \<Rightarrow> 'p native_calls \<Rightarrow> block_inputs \<Rightarrow> render_request \<Rightarrow> 'd list \<Rightarrow> nat \<Rightarrow> 'q audio_callback
     \<Rightarrow> audio_world \<Rightarrow> 'p plugin_backend
     \<Rightarrow> u64 option \<times> 'd list \<times> 'q audio_callback \<times> audio_world \<times> 'p plugin_backend" where
  "render_for_queue ops eq calls bi request samples channels st w plugin =
     (let (rendered, samples, st, w, plugin) = render_audio_block ops eq calls bi samples channels
            (st\<lparr>ac_render_source_end_us := Some (rr_source_end_us request)\<rparr>) w plugin
      in (if rendered then Some (cb_midi_generation st) else None, samples, st, w, plugin))"

datatype error_kind =
    DeviceBusy | DeviceNotAvailable | HostUnavailable | StreamInvalidated | UnsupportedConfig | ResourceExhausted
  | PermissionDenied | BackendError | UnsupportedOperation | InvalidInput | OtherError | DeviceChanged | Xrun
  | RealtimeDenied

fun stream_error_code :: "error_kind \<Rightarrow> u32" where
  "stream_error_code DeviceBusy = 1"
| "stream_error_code DeviceNotAvailable = 2"
| "stream_error_code HostUnavailable = 3"
| "stream_error_code StreamInvalidated = 4"
| "stream_error_code UnsupportedConfig = 5"
| "stream_error_code ResourceExhausted = 6"
| "stream_error_code PermissionDenied = 7"
| "stream_error_code BackendError = 8"
| "stream_error_code UnsupportedOperation = 9"
| "stream_error_code InvalidInput = 10"
| "stream_error_code OtherError = 11"
| "stream_error_code DeviceChanged = 12"
| "stream_error_code Xrun = 0"
| "stream_error_code RealtimeDenied = 0"

definition stream_error :: "error_kind \<Rightarrow> audio_world \<Rightarrow> audio_world" where
  "stream_error kind w =
     (case kind of
        Xrun \<Rightarrow> w\<lparr>aw_xruns := aw_xruns w + 1\<rparr>
      | RealtimeDenied \<Rightarrow> w
      | _ \<Rightarrow>
          let w = (if kind = DeviceChanged then w\<lparr>aw_route_changes := aw_route_changes w + 1\<rparr> else w);
              w = w\<lparr>aw_midi := (aw_midi w)\<lparr>au_emergency := True\<rparr>, aw_recovery_requests := aw_recovery_requests w + 1\<rparr>
          in if aw_stream_fatal_error w = 0 then w\<lparr>aw_stream_fatal_error := stream_error_code kind\<rparr> else w)"

section \<open>What reaches the device\<close>

text \<open>
  A value handed to the conversion of the sample library: finite, and for an integer format in \<open>[-1, 1)\<close>,
  where the conversion does not saturate.
\<close>

definition device_value :: "bool \<Rightarrow> (f32 \<Rightarrow> 'd) \<Rightarrow> 'd \<Rightarrow> bool" where
  "device_value is_float from_sample d \<longleftrightarrow>
     (\<exists>x. d = from_sample x \<and> f32_is_finite x
        \<and> (\<not> is_float \<longrightarrow> f32_key minus_one_f32 \<le> f32_key x \<and> f32_key x < f32_key one_f32))"

definition within_limit :: "f32 \<Rightarrow> bool" where
  "within_limit x \<longleftrightarrow> f32_is_finite x \<and> \<bar>f32_key x\<bar> \<le> f32_key SAMPLE_LIMIT"

lemma audio_keys [simp]:
  "f32_key minus_one_f32 = - 0x3F800000" "f32_key one_f32 = 0x3F800000" "f32_key below_one_f32 = 0x3F7FFFFF"
  "f32_key SAMPLE_LIMIT = 0x3F7AE148" "f32_key minus_SAMPLE_LIMIT = - 0x3F7AE148"
  by (simp_all add: f32_key_def minus_one_f32_def one_f32_def below_one_f32_def SAMPLE_LIMIT_def
      minus_SAMPLE_LIMIT_def)

lemma zero_within_limit [simp]: "within_limit 0" "f32_is_finite 0"
  by (simp_all add: within_limit_def f32_is_finite_def)

lemma device_sample_value: "device_value is_float from_sample (device_sample is_float from_sample sample)"
proof -
  define s where "s = (if f32_is_finite sample then sample else 0)"
  have s: "f32_is_finite s" by (simp add: s_def)
  have bounds: "f32_is_finite minus_one_f32" "f32_is_finite below_one_f32" by (simp_all add: f32_is_finite_def)
  note clamp = f32_clamp_finite [OF s bounds]
  show ?thesis
    using clamp(1,2) s unfolding device_value_def device_sample_def Let_def s_def [symmetric]
    by (cases is_float) auto
qed

lemma output_sample_limited: "within_limit (output_sample ops sample gain True)"
proof (cases "f32_is_finite (so_times ops sample gain)")
  case True
  have bounds: "f32_is_finite minus_SAMPLE_LIMIT" "f32_is_finite SAMPLE_LIMIT" by (simp_all add: f32_is_finite_def)
  show ?thesis
    using f32_clamp_finite(1,2) [OF True bounds] True
    by (simp add: output_sample_def limit_sample_def within_limit_def abs_le_iff)
next
  case False
  then show ?thesis by (simp add: output_sample_def)
qed

definition from_ops :: "'d sample_ops \<Rightarrow> 'd \<Rightarrow> bool" where
  "from_ops ops d \<longleftrightarrow> (\<exists>x. d = so_device ops x)"

lemma from_ops_simps [simp]:
  "from_ops ops (so_device ops x)" "list_all (from_ops ops) (map (so_device ops) xs)"
  by (auto simp: from_ops_def list_all_iff)

lemma from_ops_value:
  assumes "so_device ops = device_sample is_float from_sample"
  shows "list_all (from_ops ops) data \<Longrightarrow> list_all (device_value is_float from_sample) data"
  using assms by (fastforce simp: list_all_iff from_ops_def device_sample_value)

lemma replay_parts:
  assumes "replay_last_output_or_silence ops len channels st w = (data, st', w')"
  shows "list_all (from_ops ops) data" "st' = st \<or> st' = silence_output st"
    "\<exists>l r. w' = set_meters l r w" "length data = len"
  using assms by (auto simp: replay_last_output_or_silence_def Let_def replay_samples_def map_replicate_const
      from_ops_def list_all_iff split: if_splits)

lemma silence_within [simp]: "list_all within_limit (cb_last_output (silence_output st))"
  by (simp add: silence_output_def list_all_iff)

lemma mixed_within:
  assumes "limiter"
  shows "list_all (\<lambda>f. within_limit (fst f) \<and> within_limit (snd f)) (mixed_frames ops gain limiter recovering equalized)"
  by (simp add: assms mixed_frames_def Let_def list_all_iff output_sample_limited)

lemma mix_parts:
  assumes "mix_block ops eq len channels frames st w = (data, st', w')"
  shows "list_all (from_ops ops) data"
    and "aw_limiter w \<Longrightarrow> list_all within_limit (cb_last_output st')"
    and "\<exists>q last. st' = st\<lparr>ac_equalizer := q, cb_last_output := last, cb_recovering := False\<rparr>"
    and "\<exists>l r. w' = set_meters l r w"
proof -
  show "list_all (from_ops ops) data"
    using assms unfolding mix_block_def Let_def from_ops_def list_all_iff by (auto split: prod.splits)
  show "\<exists>l r. w' = set_meters l r w"
    "\<exists>q last. st' = st\<lparr>ac_equalizer := q, cb_last_output := last, cb_recovering := False\<rparr>"
    using assms unfolding mix_block_def Let_def by (auto split: prod.splits)
  assume limiter: "aw_limiter w"
  have "within_limit x" if "x \<in> set (concat (map (device_frame channels)
      (mixed_frames ops (aw_gain w) (aw_limiter w) recovering equalized)))" for x recovering equalized
    using that mixed_within [OF limiter, of ops "aw_gain w" recovering equalized]
    by (auto simp: list_all_iff device_frame_def split: if_splits)
  then show "list_all within_limit (cb_last_output st')"
    using assms unfolding mix_block_def Let_def
    by (auto split: prod.splits simp: list_all_iff dest!: in_set_takeD)
qed

section \<open>The ways through a block\<close>

lemma render_cases:
  assumes "render_audio_block ops eq calls bi data channels st w plugin = (ok, data', st', w', plugin')"
    and "0 < channels" "0 < length data div channels"
  obtains (refused) w1 where "\<not> bi_admitted bi" "\<not> ok" "plugin' = plugin"
      "silent_block ops (length data) st w = (data', st', w1)"
      "w' = finish_callback_timing st' (length data div channels) (bi_elapsed_us bi) w1"
  | (oversized) st1 w1 w2 where "bi_admitted bi" "ok" "plugin' = plugin" "ac_max_frames st < length data div channels"
      "prepare_block (length data div channels) st w = (False, st1, w1)"
      "silent_block ops (length data) st1 (w1\<lparr>aw_xruns := aw_xruns w1 + 1\<rparr>) = (data', st', w2)"
      "w' = finish_callback_timing st' (length data div channels) (bi_elapsed_us bi) w2"
  | (locked) st1 st2 midi w1 where "bi_admitted bi" "ok" "plugin' = plugin" "\<not> bi_lock_free bi"
      "prepare_block (length data div channels) st w = (True, st1, w)"
      "drain_midi (bi_moves bi) (bi_now_us bi) st1 (aw_midi w) = (st2, midi)"
      "replay_last_output_or_silence ops (length data) channels st2
         (w\<lparr>aw_midi := midi, aw_lock_misses := aw_lock_misses w + 1\<rparr>) = (data', st', w1)"
      "w' = finish_callback_timing st' (length data div channels) (bi_elapsed_us bi) w1"
  | (waits) st1 midi where "bi_admitted bi" "bi_lock_free bi" "\<not> ok" "data' = data"
      "prepare_block (length data div channels) st w = (True, st1, w)"
      "drain_midi (bi_moves bi) (bi_now_us bi) st1 (aw_midi w) = (st', midi)" "w' = w\<lparr>aw_midi := midi\<rparr>"
      "bridge_waits bi st' plugin = (True, plugin')"
  | (called) st1 st2 midi plugin1 where "bi_admitted bi" "bi_lock_free bi" "ok"
      "prepare_block (length data div channels) st w = (True, st1, w)"
      "drain_midi (bi_moves bi) (bi_now_us bi) st1 (aw_midi w) = (st2, midi)"
      "bridge_waits bi st2 plugin = (False, plugin1)"
      "call_plugin ops eq calls bi data channels (length data div channels) st2 (w\<lparr>aw_midi := midi\<rparr>) plugin1
         = (data', st', w', plugin')"
proof -
  let ?frames = "length data div channels"
  obtain prepared st1 w1 where prepare: "prepare_block ?frames st w = (prepared, st1, w1)"
    by (cases "prepare_block ?frames st w") auto
  obtain st2 midi where drain: "drain_midi (bi_moves bi) (bi_now_us bi) st1 (aw_midi w1) = (st2, midi)"
    by (cases "drain_midi (bi_moves bi) (bi_now_us bi) st1 (aw_midi w1)") auto
  obtain waits plugin1 where wait: "bridge_waits bi st2 plugin = (waits, plugin1)"
    by (cases "bridge_waits bi st2 plugin") auto
  have same: "w1 = w" if prepared using prepare that by (simp add: prepare_block_def split: if_splits)
  have big: "ac_max_frames st < ?frames" if "\<not> prepared"
    using prepare that by (simp add: prepare_block_def split: if_splits)
  have start: "\<not> (channels = 0 \<or> ?frames = 0)" using assms(2,3) by simp
  note unfolded = assms(1) [unfolded render_audio_block_def Let_def, simplified if_not_P [OF start]]
  show thesis
  proof (cases "bi_admitted bi")
    case False
    then show thesis using unfolded refused by (auto simp: silent_block_def)
  next
    case admitted: True
    show thesis
    proof (cases prepared)
      case False
      then show thesis using unfolded prepare admitted oversized [OF admitted] big
        by (auto simp: silent_block_def)
    next
      case True
      have prepare': "prepare_block ?frames st w = (True, st1, w)" using prepare True same by simp
      have drain': "drain_midi (bi_moves bi) (bi_now_us bi) st1 (aw_midi w) = (st2, midi)"
        using drain True same by simp
      note here = unfolded [simplified admitted prepare' drain' wait, simplified]
      show thesis
      proof (cases "bi_lock_free bi")
        case False
        then show thesis
          using here drain' locked [OF admitted _ _ False prepare' drain'] by (auto split: prod.splits)
      next
        case free: True
        show thesis
        proof (cases waits)
          case True
          then show thesis using here free waits [OF admitted free _ _ prepare'] drain' wait by auto
        next
          case False
          then show thesis
            using here free wait drain' called [OF admitted free _ prepare' drain'] by (auto split: prod.splits)
        qed
      qed
    qed
  qed
qed

lemma call_cases:
  assumes "call_plugin ops eq calls bi data channels frames st w plugin = (data', st', w', plugin')"
  obtains (replayed) st1 w1 w2 where
      "run_backend ops calls bi frames st w
         (if cb_needs_reset st then send_reset_messages calls plugin else plugin) = (False, st1, w1, plugin')"
      "replay_last_output_or_silence ops (length data) channels st1 w1 = (data', st', w2)"
      "w' = finish_callback_timing st' frames (bi_elapsed_us bi) w2"
  | (silent) st1 w1 w2 where
      "run_backend ops calls bi frames st w
         (if cb_needs_reset st then send_reset_messages calls plugin else plugin) = (True, st1, w1, plugin')"
      "settle_reset calls plugin' st1 w1 = (st', w2)" "data' = replicate (length data) (so_device ops 0)"
      "w' = finish_callback_timing st' frames (bi_elapsed_us bi) (set_meters 0 0 w2)"
  | (mixed) st1 w1 st2 w2 w3 where
      "run_backend ops calls bi frames st w
         (if cb_needs_reset st then send_reset_messages calls plugin else plugin) = (True, st1, w1, plugin')"
      "settle_reset calls plugin' st1 w1 = (st2, w2)"
      "mix_block ops eq (length data) channels frames st2 w2 = (data', st', w3)"
      "w' = finish_callback_timing st' frames (bi_elapsed_us bi) w3"
proof -
  obtain ok st1 w1 plugin1 where run: "run_backend ops calls bi frames st w
      (if cb_needs_reset st then send_reset_messages calls plugin else plugin) = (ok, st1, w1, plugin1)"
    by (cases "run_backend ops calls bi frames st w
      (if cb_needs_reset st then send_reset_messages calls plugin else plugin)") auto
  note here = assms [unfolded call_plugin_def Let_def run prod.case]
  show thesis
  proof (cases ok)
    case False
    with here have same: "plugin1 = plugin'" by (auto split: prod.splits)
    show thesis using here False replayed run [unfolded same] by (auto split: prod.splits)
  next
    case True
    with here have same: "plugin1 = plugin'" by (auto split: prod.splits if_splits)
    obtain st2 w2 where settle: "settle_reset calls plugin' st1 w1 = (st2, w2)"
      by (cases "settle_reset calls plugin' st1 w1") auto
    show thesis
    proof (cases "ac_plugin_outputs st2 = 0")
      case none: True
      then show thesis using here \<open>ok\<close> silent run settle by (auto simp: same)
    next
      case False
      then show thesis using here \<open>ok\<close> mixed [of st1 w1 st2 w2] run settle by (auto simp: same split: prod.splits)
    qed
  qed
qed

section \<open>What the parts leave alone\<close>

lemma drain_ring_last:
  "drain_ring moves k st sh = (st', sh') \<Longrightarrow> list_all within_limit (cb_last_output st)
    \<Longrightarrow> list_all within_limit (cb_last_output st')"
proof (induction k arbitrary: st sh)
  case (Suc k)
  have enqueue: "cb_last_output (enqueue_midi m s) = cb_last_output s" for m and s :: "'a callback_midi_scheme"
    by (simp add: enqueue_midi_def Let_def count_drops_def split: option.splits)
  have observe: "list_all within_limit (cb_last_output s) \<Longrightarrow>
      list_all within_limit (cb_last_output (observe_midi_generation g s))" for g and s :: "'a callback_midi_scheme"
    by (simp add: observe_midi_generation_def)
  show ?case
    using Suc.prems Suc.IH
    by (fastforce simp: Let_def enqueue intro: observe split: list.splits if_splits)
qed simp

lemma drain_midi_last:
  assumes "drain_midi moves now_us st sh = (st', sh')" "list_all within_limit (cb_last_output st)"
  shows "list_all within_limit (cb_last_output st')"
proof -
  obtain st1 sh1 where emergency: "take_emergency st sh = (st1, sh1)"
    by (cases "take_emergency st sh") auto
  have one: "list_all within_limit (cb_last_output st1)"
    using emergency assms(2) by (auto simp: take_emergency_def split: if_splits)
  define sh2 where "sh2 = moves (2 * MIDI_DRAIN_BUDGET_PER_CALLBACK) sh1"
  define st2 where "st2 = observe_midi_generation (au_generation sh2) st1"
  have two: "list_all within_limit (cb_last_output st2)"
    using one by (simp add: st2_def observe_midi_generation_def)
  obtain st3 sh3 where ring: "drain_ring moves MIDI_DRAIN_BUDGET_PER_CALLBACK st2 sh2 = (st3, sh3)"
    by (cases "drain_ring moves MIDI_DRAIN_BUDGET_PER_CALLBACK st2 sh2") auto
  have "list_all within_limit (cb_last_output st3)" by (rule drain_ring_last [OF ring two])
  then show ?thesis
    using assms(1) by (auto simp: drain_midi_def Let_def emergency sh2_def [symmetric] st2_def [symmetric] ring)
qed

text \<open>The plugin's turn changes neither the memory of the last block nor the controls, and it never takes a reset back.\<close>

definition same_output :: "'q audio_callback \<Rightarrow> audio_world \<Rightarrow> 'q audio_callback \<Rightarrow> audio_world \<Rightarrow> bool" where
  "same_output st w st' w' \<longleftrightarrow> cb_last_output st' = cb_last_output st \<and> cb_needs_reset st' = cb_needs_reset st
     \<and> aw_limiter w' = aw_limiter w \<and> aw_emergency_resets w' = aw_emergency_resets w"

lemma set_vst3_parameters_same:
  "set_vst3_parameters calls cs w p = (w', p') \<Longrightarrow>
     aw_limiter w' = aw_limiter w \<and> aw_emergency_resets w' = aw_emergency_resets w
     \<and> aw_midi w' = aw_midi w \<and> aw_parameters w' = aw_parameters w \<and> aw_bridge w' = aw_bridge w
     \<and> aw_failed_sequence w \<le> aw_failed_sequence w'"
proof (induction cs arbitrary: w p)
  case (Cons c cs)
  obtain ok p1 where "nc_set_parameter calls (pc_index c) (pc_value c) p = (ok, p1)"
    by (cases "nc_set_parameter calls (pc_index c) (pc_value c) p")
  then show ?case using Cons.IH Cons.prems
    by (fastforce simp: raise_failed_def intro: order.trans split: if_splits)
qed simp

lemma vst2_batch_same:
  "prepare_pending_vst2_midi last_frames sample_rate now_us sh st = (events, st') \<Longrightarrow>
     cb_last_output st' = cb_last_output st \<and> cb_needs_reset st' = cb_needs_reset st
     \<and> (\<exists>pending playback. st' = st\<lparr>cb_pending := pending, cb_playback := playback\<rparr>)"
  by (auto simp: prepare_pending_vst2_midi_def Let_def split: prod.splits)

lemma vst3_batch_same:
  "submit_pending_vst3_midi_at send available last_frames sample_rate now_us sh st p = (ok, st', p') \<Longrightarrow>
     cb_last_output st' = cb_last_output st \<and> cb_needs_reset st' = cb_needs_reset st
     \<and> (\<exists>pending playback. st' = st\<lparr>cb_pending := pending, cb_playback := playback\<rparr>)"
proof -
  have same: "\<exists>pending playback. st = st\<lparr>cb_pending := pending, cb_playback := playback\<rparr>"
    by (intro exI [of _ "cb_pending st"] exI [of _ "cb_playback st"]) simp
  assume sent: "submit_pending_vst3_midi_at send available last_frames sample_rate now_us sh st p = (ok, st', p')"
  then have "st' = st \<or> (\<exists>pending playback. st' = st\<lparr>cb_pending := pending, cb_playback := playback\<rparr>)"
    by (auto simp: submit_pending_vst3_midi_at_def Let_def split: prod.splits if_splits)
  with same show ?thesis by auto
qed

lemma missed_same [simp]: "same_output st w (fst (missed st w)) (snd (missed st w))"
  by (simp add: missed_def same_output_def fail_parameters_def raise_failed_def)

text \<open>What a block must not change, for the rendering and for what follows it.\<close>

lemma render_vst2_same:
  "render_vst2 calls bi frames st w p position = (ok, st', p', position') \<Longrightarrow>
     cb_last_output st' = cb_last_output st \<and> cb_needs_reset st' = cb_needs_reset st
     \<and> ac_parameter_commands st' = ac_parameter_commands st"
  by (auto simp: render_vst2_def Let_def dest!: vst2_batch_same split: prod.splits if_splits)

lemma render_vst3_same:
  "render_vst3 calls bi frames st w p inputs outputs = (ok, st', p') \<Longrightarrow>
     cb_last_output st' = cb_last_output st \<and> cb_needs_reset st' = cb_needs_reset st
     \<and> ac_parameter_commands st' = ac_parameter_commands st"
  by (auto simp: render_vst3_def Let_def dest!: vst3_batch_same split: prod.splits if_splits)

lemma conclude_same:
  assumes "(if ok then (st, acknowledge_parameters st w) else missed st w) = (st', w')"
  shows "cb_last_output st' = cb_last_output st" "cb_needs_reset st' = cb_needs_reset st"
    "aw_limiter w' = aw_limiter w" "aw_emergency_resets w' = aw_emergency_resets w"
  using assms by (auto simp: missed_def acknowledge_parameters_def fail_parameters_def raise_failed_def
      raise_applied_def split: if_splits)

lemma run_vst2_parts:
  assumes "run_vst2 calls bi frames st w p position = (ok, st', w', plugin')"
  obtains st1 w1 st2 p2 position2 where
      "drain_parameter_commands_limit MIDI_EVENT_BATCH_CAPACITY st w = (st1, w1)"
      "render_vst2 calls bi frames (st1\<lparr>ac_last_frames := frames\<rparr>) w1
         (set_vst2_parameters calls (ac_parameter_commands st1) p) position = (ok, st2, p2, position2)"
      "(if ok then (st2, acknowledge_parameters st2 w1) else missed st2 w1) = (st', w')"
      "plugin' = Vst2_Plugin p2 position2"
proof -
  obtain st1 w1 where drain: "drain_parameter_commands_limit MIDI_EVENT_BATCH_CAPACITY st w = (st1, w1)"
    by (cases "drain_parameter_commands_limit MIDI_EVENT_BATCH_CAPACITY st w")
  obtain ok1 st2 p2 position2 where render: "render_vst2 calls bi frames (st1\<lparr>ac_last_frames := frames\<rparr>) w1
      (set_vst2_parameters calls (ac_parameter_commands st1) p) position = (ok1, st2, p2, position2)"
    by (cases "render_vst2 calls bi frames (st1\<lparr>ac_last_frames := frames\<rparr>) w1
      (set_vst2_parameters calls (ac_parameter_commands st1) p) position")
  show thesis
    using assms that [of st1 w1 st2 p2 position2] drain render
    by (cases "if ok1 then (st2, acknowledge_parameters st2 w1) else missed st2 w1")
      (simp add: run_vst2_def Let_def)
qed

lemma run_vst3_parts:
  assumes "run_vst3 calls bi frames st w p inputs outputs = (ok, st', w', plugin')"
  obtains st1 w1 w2 p2 st2 p3 where
      "drain_parameter_commands_limit MIDI_EVENT_BATCH_CAPACITY st w = (st1, w1)"
      "set_vst3_parameters calls (ac_parameter_commands st1) w1 p = (w2, p2)"
      "render_vst3 calls bi frames (st1\<lparr>ac_last_frames := frames\<rparr>) w2 p2 inputs outputs = (ok, st2, p3)"
      "(if ok then (st2, acknowledge_parameters st2 w2) else missed st2 w2) = (st', w')"
      "plugin' = Vst3_Plugin p3 inputs outputs"
proof -
  obtain st1 w1 where drain: "drain_parameter_commands_limit MIDI_EVENT_BATCH_CAPACITY st w = (st1, w1)"
    by (cases "drain_parameter_commands_limit MIDI_EVENT_BATCH_CAPACITY st w")
  obtain w2 p2 where set: "set_vst3_parameters calls (ac_parameter_commands st1) w1 p = (w2, p2)"
    by (cases "set_vst3_parameters calls (ac_parameter_commands st1) w1 p")
  obtain ok1 st2 p3 where render: "render_vst3 calls bi frames (st1\<lparr>ac_last_frames := frames\<rparr>) w2 p2 inputs outputs
      = (ok1, st2, p3)"
    by (cases "render_vst3 calls bi frames (st1\<lparr>ac_last_frames := frames\<rparr>) w2 p2 inputs outputs")
  show thesis
    using assms that [of st1 w1 w2 p2 st2 p3] drain set render
    by (cases "if ok1 then (st2, acknowledge_parameters st2 w2) else missed st2 w2")
      (simp add: run_vst3_def Let_def)
qed

lemma drain_parameters_same:
  "drain_parameter_commands_limit limit st w = (st', w') \<Longrightarrow> same_output st w st' w'"
  by (auto simp: drain_parameter_commands_limit_def Let_def same_output_def)

lemma run_vst2_same:
  assumes "run_vst2 calls bi frames st w p position = (ok, st', w', plugin')"
  shows "same_output st w st' w'"
  using assms
proof (cases rule: run_vst2_parts)
  case (1 st1 w1 st2 p2 position2)
  then show ?thesis
    using drain_parameters_same [OF 1(1)] render_vst2_same [OF 1(2)] conclude_same [OF 1(3)]
    by (simp add: same_output_def)
qed

lemma run_vst3_same:
  assumes "run_vst3 calls bi frames st w p inputs outputs = (ok, st', w', plugin')"
  shows "same_output st w st' w'"
  using assms
proof (cases rule: run_vst3_parts)
  case (1 st1 w1 w2 p2 st2 p3)
  then show ?thesis
    using drain_parameters_same [OF 1(1)] set_vst3_parameters_same [OF 1(2)] render_vst3_same [OF 1(3)]
      conclude_same [OF 1(4)]
    by (simp add: same_output_def)
qed

lemma run_remote_same:
  assumes "run_remote ops bi frames st w rm sh = (ok, st', w', plugin')"
  shows "same_output st w st' w'"
  using assms unfolding run_remote_def drain_parameter_commands_limit_def Let_def same_output_def
  by (auto split: option.splits if_splits)

lemma run_backend_same:
  assumes "run_backend ops calls bi frames st w plugin = (ok, st', w', plugin')"
  shows "same_output st w st' w'"
  using assms run_vst2_same run_vst3_same run_remote_same
  by (cases plugin) (auto simp: run_backend_def)

lemma settle_same:
  assumes "settle_reset calls plugin st w = (st', w')"
  shows "cb_last_output st' = cb_last_output st" "aw_limiter w' = aw_limiter w"
  using assms by (auto simp: settle_reset_def split: if_splits)

text \<open>
  C16: What a block hands to the device is safe for it. Whatever the plugin computed (infinite and undefined samples
  included), whatever the equalizer and the gain made of it, and whichever way the block took, every sample given to the
  conversion of the sample library is finite and, for an integer format, lies in \<open>[-1, 1)\<close>, outside
  of which that conversion is undefined. And with the limiter on, the remembered samples, which a later
  block may replay, never exceed its limit.
\<close>

theorem device_samples_bounded:
  assumes "so_device ops = device_sample is_float from_sample"
    and "render_audio_block ops eq calls bi data channels st w plugin = (ok, data', st', w', plugin')"
    and "0 < channels" "0 < length data div channels"
  shows "(ok \<or> \<not> bi_admitted bi \<longrightarrow> list_all (device_value is_float from_sample) data')
    \<and> (aw_limiter w \<and> list_all within_limit (cb_last_output st)
        \<longrightarrow> list_all within_limit (cb_last_output st'))"
proof -
  have silence: "list_all (device_value is_float from_sample) (replicate n (so_device ops 0))" for n
    by (rule from_ops_value [OF assms(1)]) (simp add: list_all_iff)
  have prepared: "cb_last_output st1 = cb_last_output st"
    if "prepare_block frames st w = (prepared, st1, w1)" for prepared frames st1 w1
    using that by (auto simp: prepare_block_def split: if_splits)
  show ?thesis using assms(2-4)
  proof (cases rule: render_cases)
    case (refused w1)
    then show ?thesis using silence [of "length data"] by (auto simp: silent_block_def)
  next
    case (oversized st1 w1 w2)
    then show ?thesis using silence [of "length data"] by (auto simp: silent_block_def)
  next
    case (locked st1 st2 midi w1)
    have "list_all within_limit (cb_last_output st2)" if "list_all within_limit (cb_last_output st)"
      using drain_midi_last [OF locked(6)] that prepared [OF locked(5)] by simp
    then show ?thesis
      using replay_parts(1,2) [OF locked(7)] from_ops_value [OF assms(1)] by auto
  next
    case (waits st1 midi)
    then show ?thesis using drain_midi_last [OF waits(6)] prepared [OF waits(5)] by auto
  next
    case (called st1 st2 midi plugin1)
    have kept: "list_all within_limit (cb_last_output st2)" if "list_all within_limit (cb_last_output st)"
      using drain_midi_last [OF called(5)] that prepared [OF called(4)] by simp
    from called(7) show ?thesis
    proof (cases rule: call_cases)
      case (replayed st3 w3 w4)
      then show ?thesis
        using replay_parts(1,2) [OF replayed(2)] from_ops_value [OF assms(1)] run_backend_same [OF replayed(1)] kept
        by (auto simp: same_output_def)
    next
      case (silent st3 w3 w4)
      then show ?thesis
        using silence [of "length data"] run_backend_same [OF silent(1)] settle_same [OF silent(2)] kept
        by (simp add: same_output_def)
    next
      case (mixed st3 w3 st4 w4 w5)
      then show ?thesis
        using mix_parts(1,2) [OF mixed(3)] from_ops_value [OF assms(1)] run_backend_same [OF mixed(1)]
          settle_same [OF mixed(2)] by (simp add: same_output_def)
    qed
  qed
qed

text \<open>A VST2 plugin that renders an infinite sample on the left and 4.0 on the right, on a 16-bit device.\<close>

definition example_audio_ops :: "f32 sample_ops" where
  "example_audio_ops = \<lparr>so_ratio = \<lambda>_ _. one_f32, so_fade = \<lambda>_ _. 0, so_times = \<lambda>a _. a,
     so_device = device_sample False id\<rparr>"

definition example_eq :: "unit eq_ops" where
  "example_eq = \<lparr>eo_begin_block = id, eo_process_stereo = \<lambda>l r q. ((l, r), q), eo_process_mono = \<lambda>s q. (s, q)\<rparr>"

definition example_calls :: "unit native_calls" where
  "example_calls = \<lparr>nc_set_parameter = \<lambda>_ _ p. (True, p), nc_process_events = \<lambda>_ p. (True, p),
     nc_remaining_midi_capacity = \<lambda>_. 512, nc_send_midi = \<lambda>_ p. (True, p), nc_request_midi_reset = id,
     nc_midi_reset_pending = \<lambda>_. False,
     nc_process = \<lambda>_ _ p. (True, \<lambda>c i. if c = 0 then 0x7F800000 else 0x40800000, p)\<rparr>"

definition example_callback :: "unit audio_callback" where
  "example_callback = \<lparr>cb_midi_generation = 0, cb_pending = [], cb_playback = None, cb_needs_reset = False,
     cb_recovering = False, cb_last_output = [0, 0, 0, 0], cb_drop_count = 0, cb_queue_depth = 0,
     cb_queue_max_depth = 0, cb_oldest_us = 0, ac_render_source_end_us = None, ac_parameter_commands = [],
     ac_outputs = [[0, 0], [0, 0]], ac_plugin_inputs = 0, ac_plugin_outputs = 2, ac_max_frames = 2,
     ac_equalizer = (), ac_sample_rate = 48000, ac_last_frames = 0, ac_error_count = 0\<rparr>"

definition example_world :: "parameter_command list \<Rightarrow> audio_world" where
  "example_world parameters = \<lparr>aw_midi = \<lparr>au_generation = 0, au_emergency = False, au_ring = []\<rparr>,
     aw_parameters = parameters, aw_gain = one_f32, aw_limiter = True,
     aw_bridge = \<lparr>tl_applied_sequence = 0, tl_delivered = []\<rparr>, aw_failed_sequence = 0, aw_stream_fatal_error = 0,
     aw_recovery_requests = 0, aw_route_changes = 0, aw_xruns = 0, aw_lock_misses = 0, aw_emergency_resets = 0,
     aw_meter_left = 0, aw_meter_right = 0, aw_editor_open = False, aw_x86_health = (0, 0, True),
     aw_callback_last_us = 0, aw_callback_max_us = 0, aw_over_budget = 0, aw_consecutive_misses = 0\<rparr>"

definition example_inputs :: block_inputs where
  "example_inputs = \<lparr>bi_moves = \<lambda>_ sh. sh, bi_admitted = True, bi_lock_free = True, bi_dsp = \<lambda>_. [], bi_now_us = 1000,
     bi_now_ms = 1, bi_elapsed_us = 10\<rparr>"

lemma drain_midi_idle:
  assumes "au_ring sh = []" "\<not> au_emergency sh" "au_generation sh = cb_midi_generation st" "cb_pending st = []"
  shows "drain_midi (\<lambda>_ sh. sh) now_us st sh
    = (st\<lparr>cb_queue_depth := 0, cb_queue_max_depth := max (cb_queue_max_depth st) 0, cb_oldest_us := 0\<rparr>, sh)"
proof -
  have "drain_ring (\<lambda>_ sh. sh) k st sh = (st, sh)" for k
    using assms(1) by (cases k) simp_all
  then show ?thesis
    using assms by (simp add: drain_midi_def take_emergency_def observe_midi_generation_def)
qed

lemmas example_defs = example_inputs_def example_callback_def example_world_def example_calls_def example_eq_def
  example_audio_ops_def

lemma example_prepare:
  "prepare_block 1 example_callback w = (True, example_callback, w)"
  by (simp add: prepare_block_def example_callback_def)

lemma example_drain:
  "drain_midi (bi_moves example_inputs) (bi_now_us example_inputs) example_callback (aw_midi (example_world parameters))
     = (example_callback, aw_midi (example_world parameters))"
proof -
  have "bi_moves example_inputs = (\<lambda>_ sh. sh)" by (simp add: example_inputs_def)
  then show ?thesis by (simp add: drain_midi_idle example_callback_def example_world_def)
qed

lemma example_plugin_run:
  "\<exists>st' w'. run_backend example_audio_ops example_calls example_inputs 1 example_callback (example_world parameters)
       (Vst2_Plugin () 0) = (True, st', w', Vst2_Plugin () 1)
     \<and> ac_outputs st' = [[0x7F800000, 0], [0x40800000, 0]] \<and> ac_plugin_outputs st' = 2 \<and> ac_equalizer st' = ()
     \<and> \<not> cb_needs_reset st' \<and> cb_last_output st' = [0, 0, 0, 0] \<and> \<not> cb_recovering st'
     \<and> aw_limiter w' \<and> aw_gain w' = one_f32"
  by (simp add: run_backend_def run_vst2_def render_vst2_def drain_parameter_commands_limit_def Let_def
      prepare_pending_vst2_midi_def example_defs store_outputs_def acknowledge_parameters_def raise_applied_def
      next_midi_timestamp_us_def split: prod.splits)

lemma example_mix:
  assumes "ac_outputs st = [[0x7F800000, 0], [0x40800000, 0]]" "ac_plugin_outputs st = 2"
    "\<not> cb_recovering st" "aw_limiter w" "aw_gain w = one_f32" "cb_last_output st = [0, 0, 0, 0]"
  shows "fst (mix_block example_audio_ops example_eq 2 2 1 st w) = [0, SAMPLE_LIMIT]"
proof -
  have infinite: "\<not> f32_is_finite 0x7F800000" and loud: "f32_is_finite 0x40800000"
    "f32_key 0x40800000 = 0x40800000" by (simp_all add: f32_is_finite_def f32_key_def)
  have limited: "limit_sample 0x40800000 = SAMPLE_LIMIT" "limit_sample 0 = 0"
    by (simp_all add: limit_sample_def f32_clamp_def f32_lt_def f32_is_nan_def loud)
  have device: "device_sample False id 0 = 0" "device_sample False id SAMPLE_LIMIT = SAMPLE_LIMIT"
    by (simp_all add: device_sample_def f32_clamp_def f32_lt_def f32_is_nan_def f32_is_finite_def)
  show ?thesis
    using assms infinite loud limited device
    by (simp add: mix_block_def mixed_frames_def output_sample_def example_audio_ops_def example_eq_def
        device_frame_def frame_gain_def Let_def)
qed

lemma example_block:
  "\<exists>st' w'. render_audio_block example_audio_ops example_eq example_calls example_inputs [9, 9] 2 example_callback
     (example_world parameters) (Vst2_Plugin () 0) = (True, [0, SAMPLE_LIMIT], st', w', Vst2_Plugin () 1)"
proof -
  obtain st1 w1 where run: "run_backend example_audio_ops example_calls example_inputs 1 example_callback
      (example_world parameters) (Vst2_Plugin () 0) = (True, st1, w1, Vst2_Plugin () 1)"
    and st1: "ac_outputs st1 = [[0x7F800000, 0], [0x40800000, 0]]" "ac_plugin_outputs st1 = 2"
      "\<not> cb_needs_reset st1" "cb_last_output st1 = [0, 0, 0, 0]" "\<not> cb_recovering st1" "aw_limiter w1"
      "aw_gain w1 = one_f32"
    using example_plugin_run by metis
  obtain st2 w2 where mix: "mix_block example_audio_ops example_eq 2 2 1 st1 w1 = ([0, SAMPLE_LIMIT], st2, w2)"
    using example_mix [OF st1(1,2,5,6,7,4)] by (metis prod.collapse)
  have "\<not> cb_needs_reset example_callback" "bi_admitted example_inputs" "bi_lock_free example_inputs"
    by (simp_all add: example_defs)
  then show ?thesis
    using run mix [unfolded numeral_2_eq_2 One_nat_def] st1
    by (simp add: render_audio_block_def example_prepare [unfolded One_nat_def] example_drain bridge_waits_def call_plugin_def settle_reset_def
        numeral_2_eq_2)
qed

theorem device_samples_bounded_witness:
  "list_all (device_value False id) [0, SAMPLE_LIMIT]"
proof -
  obtain st' w' where block: "render_audio_block example_audio_ops example_eq example_calls example_inputs [9, 9] 2
      example_callback (example_world []) (Vst2_Plugin () 0) = (True, [0, SAMPLE_LIMIT], st', w', Vst2_Plugin () 1)"
    using example_block by blast
  have "so_device example_audio_ops = device_sample False id" by (simp add: example_audio_ops_def)
  from device_samples_bounded [OF this block] show ?thesis by simp
qed

section \<open>Parameters are settled\<close>

lemma replace_first_mem: "replace_first P new xs = Some ys \<Longrightarrow> new \<in> set ys"
  by (induction P new xs arbitrary: ys rule: replace_first.induct) (auto split: if_splits)

lemma replace_first_keeps: "replace_first P new xs = Some ys \<Longrightarrow> x \<in> set xs \<Longrightarrow> x \<in> set ys \<or> P x"
  by (induction P new xs arbitrary: ys rule: replace_first.induct) (auto split: if_splits)

lemma replace_first_shape:
  "replace_first P new xs = Some ys \<Longrightarrow> length ys = length xs \<and> set ys \<subseteq> insert new (set xs)"
  by (induction P new xs arbitrary: ys rule: replace_first.induct) (fastforce split: if_splits)+

lemma replace_first_None: "replace_first P new xs = None \<Longrightarrow> x \<in> set xs \<Longrightarrow> \<not> P x"
  by (induction P new xs rule: replace_first.induct) (auto split: if_splits)

lemma replace_first_map:
  "replace_first (\<lambda>x. f x = f new) new xs = Some ys \<Longrightarrow> map f ys = map f xs"
  by (induction "\<lambda>x. f x = f new" new xs arbitrary: ys rule: replace_first.induct) (auto split: if_splits)

lemma coalesce_mem: "command \<in> set (coalesce commands command)"
  by (auto simp: coalesce_def dest: replace_first_mem split: option.split)

lemma coalesce_keeps: "c \<in> set commands \<Longrightarrow> c \<in> set (coalesce commands command) \<or> pc_index c = pc_index command"
  by (auto simp: coalesce_def dest: replace_first_keeps split: option.split)

lemma coalesce_distinct:
  assumes "distinct (map pc_index commands)"
  shows "distinct (map pc_index (coalesce commands command))"
proof (cases "replace_first (\<lambda>existing. pc_index existing = pc_index command) command commands")
  case None
  then have "pc_index command \<notin> pc_index ` set commands" by (auto dest: replace_first_None)
  then show ?thesis using None assms by (auto simp: coalesce_def)
next
  case (Some commands')
  then show ?thesis using assms replace_first_map [of pc_index command commands commands'] by (simp add: coalesce_def)
qed

lemma coalesce_shape: "length (coalesce commands command) \<le> Suc (length commands)"
  "set (coalesce commands command) \<subseteq> insert command (set commands)"
  by (auto simp: coalesce_def dest!: replace_first_shape split: option.split)

lemma coalesced_shape:
  "distinct (map pc_index (foldl coalesce [] taken))" "length (foldl coalesce [] taken) \<le> length taken"
  "set (foldl coalesce [] taken) \<subseteq> set taken"
proof (induction taken rule: rev_induct)
  case (snoc x taken)
  { case 1 show ?case using coalesce_distinct [OF snoc(1)] by simp }
  { case 2 show ?case using coalesce_shape(1) [of "foldl coalesce [] taken" x] snoc(2) by simp }
  { case 3 show ?case using coalesce_shape(2) [of "foldl coalesce [] taken" x] snoc(3) by auto }
qed simp_all

lemma max_sequence_ge: "c \<in> set commands \<Longrightarrow> pc_sequence c \<le> max_sequence commands"
proof (induction commands)
  case (Cons d commands)
  have rec: "max_sequence (d # commands) = max (pc_sequence d) (max_sequence commands)" by (simp add: max_sequence_def)
  show ?case using Cons unfolding rec by (auto simp: le_max_iff_disj)
qed simp

text \<open>The numbers of the commands grow along the channel, so what stands for a command is not older than it.\<close>

lemma coalesced_latest:
  assumes "sorted (map pc_sequence taken)" "c \<in> set taken"
  shows "\<exists>d \<in> set (foldl coalesce [] taken). pc_index d = pc_index c \<and> pc_sequence c \<le> pc_sequence d"
  using assms
proof (induction taken rule: rev_induct)
  case (snoc x taken)
  then have sorted: "sorted (map pc_sequence taken)" and last: "\<forall>c \<in> set taken. pc_sequence c \<le> pc_sequence x"
    by (auto simp: sorted_append)
  show ?case
  proof (cases "c \<in> set taken")
    case True
    then obtain d where d: "d \<in> set (foldl coalesce [] taken)" "pc_index d = pc_index c" "pc_sequence c \<le> pc_sequence d"
      using snoc.IH sorted by blast
    then show ?thesis
      using coalesce_keeps [OF d(1), of x] coalesce_mem [of x "foldl coalesce [] taken"] last True by auto
  next
    case False
    then show ?thesis using snoc.prems coalesce_mem [of x "foldl coalesce [] taken"] by auto
  qed
qed simp

text \<open>
  A plugin behind the bridge takes the changes along: they wait in the host, or a request on its way
  carries them, and its completion raises the number of the applied ones. Each change is stood for by one of the
  same parameter that is not older.
\<close>

definition carries :: "remote_plugin \<Rightarrow> bridge_shared \<Rightarrow> parameter_command \<Rightarrow> bool" where
  "carries rm sh d \<longleftrightarrow>
     d \<in> set (rm_pending_parameter_changes rm)
     \<or> list_ex (\<lambda>i. bs_state (slot_at i sh) = SLOT_REQUESTED \<and> pc_sequence d \<le> rm_parameter_sequences rm ! i
         \<and> bridge_change d \<in> set (take (unat (bs_parameter_change_count (slot_at i sh)))
                                     (bs_parameter_changes (slot_at i sh)))) [0..<BRIDGE_SLOTS]"

definition bridge_holds :: "parameter_command list \<Rightarrow> 'p plugin_backend \<Rightarrow> parameter_command \<Rightarrow> bool" where
  "bridge_holds commands plugin c \<longleftrightarrow>
     (case plugin of
        Remote_Plugin rm sh \<Rightarrow>
          list_ex (\<lambda>d. pc_index d = pc_index c \<and> pc_sequence c \<le> pc_sequence d \<and> carries rm sh d) commands
      | _ \<Rightarrow> False)"

definition settled :: "parameter_command list \<Rightarrow> audio_world \<Rightarrow> 'p plugin_backend \<Rightarrow> parameter_command \<Rightarrow> bool" where
  "settled commands w plugin c \<longleftrightarrow>
     pc_sequence c \<le> tl_applied_sequence (aw_bridge w) \<or> pc_sequence c \<le> aw_failed_sequence w
     \<or> bridge_holds commands plugin c"

text \<open>Every command that left the channel is settled, and the others are still in it.\<close>

definition settles :: "audio_world \<Rightarrow> audio_world \<Rightarrow> 'p plugin_backend \<Rightarrow> bool" where
  "settles w w' plugin' \<longleftrightarrow>
     (\<exists>taken. aw_parameters w = taken @ aw_parameters w'
        \<and> (\<forall>c \<in> set taken. settled (aw_parameters w) w' plugin' c))"

lemma acknowledged_settled:
  assumes "sorted (map pc_sequence taken)" "ac_parameter_commands st = foldl coalesce [] taken" "c \<in> set taken"
  shows "settled commands (acknowledge_parameters st w) plugin c"
    and "settled commands ((fail_parameters st w)\<lparr>aw_xruns := n\<rparr>) plugin c"
proof -
  obtain d where "d \<in> set (ac_parameter_commands st)" "pc_sequence c \<le> pc_sequence d"
    using coalesced_latest [OF assms(1,3)] assms(2) by auto
  then have "pc_sequence c \<le> max_sequence (ac_parameter_commands st)" "ac_parameter_commands st \<noteq> []"
    using max_sequence_ge order.trans by (blast, auto)
  then show "settled commands (acknowledge_parameters st w) plugin c"
    "settled commands ((fail_parameters st w)\<lparr>aw_xruns := n\<rparr>) plugin c"
    by (auto simp: settled_def acknowledge_parameters_def fail_parameters_def raise_applied_def raise_failed_def
        le_max_iff_disj)
qed

lemma sorted_take_commands: "sorted (map pc_sequence commands) \<Longrightarrow> sorted (map pc_sequence (take n commands))"
  by (simp add: take_map [symmetric] sorted_wrt_take)

lemma finished_settles:
  assumes "sorted (map pc_sequence (aw_parameters w))" "n = min limit MIDI_EVENT_BATCH_CAPACITY"
    and "ac_parameter_commands st = foldl coalesce [] (take n (aw_parameters w))"
    and "aw_parameters w1 = drop n (aw_parameters w)"
    and "(if ok then (st, acknowledge_parameters st w1) else missed st w1) = (st', w')"
  shows "settles w w' plugin'"
proof -
  have "aw_parameters w' = drop n (aw_parameters w)"
    using assms(4,5) by (auto simp: acknowledge_parameters_def missed_def fail_parameters_def raise_applied_def
        raise_failed_def split: if_splits)
  moreover have "settled (aw_parameters w) w' plugin' c" if "c \<in> set (take n (aw_parameters w))" for c
    using acknowledged_settled [OF sorted_take_commands [OF assms(1)] assms(3) that] assms(5)
    by (auto simp: missed_def split: if_splits)
  ultimately show ?thesis
    unfolding settles_def by (intro exI [of _ "take n (aw_parameters w)"]) simp
qed

lemma run_vst2_settles:
  assumes "run_vst2 calls bi frames st w p position = (ok, st', w', plugin')"
    and "sorted (map pc_sequence (aw_parameters w))"
  shows "settles w w' plugin'"
  using assms(1)
proof (cases rule: run_vst2_parts)
  case (1 st1 w1 st2 p2 position2)
  then show ?thesis
    using render_vst2_same [OF 1(2)]
    by (intro finished_settles [OF assms(2) refl _ _ 1(3), where limit = MIDI_EVENT_BATCH_CAPACITY])
      (auto simp: drain_parameter_commands_limit_def Let_def)
qed

lemma run_vst3_settles:
  assumes "run_vst3 calls bi frames st w p inputs outputs = (ok, st', w', plugin')"
    and "sorted (map pc_sequence (aw_parameters w))"
  shows "settles w w' plugin'"
  using assms(1)
proof (cases rule: run_vst3_parts)
  case (1 st1 w1 w2 p2 st2 p3)
  then show ?thesis
    using render_vst3_same [OF 1(3)] set_vst3_parameters_same [OF 1(2)]
    by (intro finished_settles [OF assms(2) refl _ _ 1(4), where limit = MIDI_EVENT_BATCH_CAPACITY])
      (auto simp: drain_parameter_commands_limit_def Let_def)
qed

text \<open>What the host merges into its list is all in it while there is room and the numbers of parameters are unique.\<close>

definition unique_ids :: "parameter_command list \<Rightarrow> bool" where
  "unique_ids commands \<longleftrightarrow>
     list_all (\<lambda>c. list_all (\<lambda>d. pc_id c \<noteq> 0 \<and> pc_id c = pc_id d \<longrightarrow> pc_index c = pc_index d) commands) commands"

lemma unique_idsD:
  "unique_ids commands \<Longrightarrow> c \<in> set commands \<Longrightarrow> d \<in> set commands \<Longrightarrow> same_parameter c d \<Longrightarrow> pc_index c = pc_index d"
  by (auto simp: unique_ids_def list_all_iff same_parameter_def)

lemma merge_shape:
  assumes "length pending < BRIDGE_MAX_PARAMETER_CHANGES"
  shows "length (merge_parameter_command pending c) \<le> Suc (length pending)"
    and "set (merge_parameter_command pending c) \<subseteq> insert c (set pending)"
    and "c \<in> set (merge_parameter_command pending c)"
    and "x \<in> set pending \<Longrightarrow> x \<in> set (merge_parameter_command pending c) \<or> same_parameter x c"
  using assms
  by (auto simp: merge_parameter_command_def dest: replace_first_shape replace_first_mem replace_first_keeps
      split: option.split)

lemma merge_all:
  assumes "distinct (map pc_index commands)" "length pending + length commands \<le> BRIDGE_MAX_PARAMETER_CHANGES"
    and "unique_ids all" "set pending \<union> set commands \<subseteq> set all"
  shows "set commands \<subseteq> set (merge_parameter_commands pending commands)
    \<and> length (merge_parameter_commands pending commands) \<le> length pending + length commands
    \<and> set (merge_parameter_commands pending commands) \<subseteq> set pending \<union> set commands"
  using assms(1,2,4)
proof (induction commands rule: rev_induct)
  case Nil
  then show ?case by (simp add: merge_parameter_commands_def)
next
  case (snoc c commands)
  let ?merged = "merge_parameter_commands pending commands"
  have IH: "set commands \<subseteq> set ?merged" "length ?merged \<le> length pending + length commands"
    "set ?merged \<subseteq> set pending \<union> set commands"
    using snoc by auto
  have step: "merge_parameter_commands pending (commands @ [c]) = merge_parameter_command ?merged c"
    by (simp add: merge_parameter_commands_def)
  have room: "length ?merged < BRIDGE_MAX_PARAMETER_CHANGES" using IH(2) snoc.prems(2) by simp
  note merged = merge_shape [OF room, where c = c]
  have "x \<in> set (merge_parameter_command ?merged c)" if "x \<in> set commands" for x
  proof (rule ccontr)
    assume "x \<notin> set (merge_parameter_command ?merged c)"
    then have "same_parameter x c" using merged(4) that IH(1) by blast
    moreover have "x \<in> set all" "c \<in> set all" using that snoc.prems(3) by auto
    ultimately have "pc_index x = pc_index c" by (rule unique_idsD [OF assms(3), rotated 2])
    then have "pc_index c \<in> pc_index ` set commands" using that by (metis imageI)
    then show False using snoc.prems(1) by simp
  qed
  then show ?case unfolding step using merged(1-3) IH(2,3) by auto
qed

text \<open>
  A bridge as it is created: three slots, blocks no longer than a slot, and parameters whose numbers
  are their own.
\<close>

definition bridge_ready :: "nat \<Rightarrow> parameter_command list \<Rightarrow> 'p plugin_backend \<Rightarrow> bool" where
  "bridge_ready max_frames commands plugin \<longleftrightarrow>
     (case plugin of
        Remote_Plugin rm sh \<Rightarrow>
          max_frames \<le> BRIDGE_MAX_FRAMES \<and> length (sh_slots sh) = BRIDGE_SLOTS
          \<and> length (rm_parameter_sequences rm) = BRIDGE_SLOTS
          \<and> length (rm_pending_parameter_changes rm) \<le> BRIDGE_MAX_PARAMETER_CHANGES
          \<and> unique_ids (rm_pending_parameter_changes rm @ commands)
      | _ \<Rightarrow> True)"

lemma fill_slot_carries:
  assumes "fill_slot i frames now_us next_us end_us midi rm sh = (midi', rm', sh')"
    and "i < BRIDGE_SLOTS" "length (sh_slots sh) = BRIDGE_SLOTS" "length (rm_parameter_sequences rm) = BRIDGE_SLOTS"
    and "length (rm_pending_parameter_changes rm) \<le> BRIDGE_MAX_PARAMETER_CHANGES"
    and "d \<in> set (rm_pending_parameter_changes rm)"
  shows "carries rm' sh' d"
proof -
  let ?pending = "rm_pending_parameter_changes rm"
  have count: "unat (of_nat (length ?pending) :: u32) = length ?pending"
    using assms(5) by (simp add: unat_of_nat BRIDGE_MAX_PARAMETER_CHANGES_def)
  have slot: "bs_state (slot_at i sh') = SLOT_REQUESTED"
    "bs_parameter_change_count (slot_at i sh') = of_nat (length ?pending)"
    "take (length ?pending) (bs_parameter_changes (slot_at i sh')) = map bridge_change ?pending"
    "rm_parameter_sequences rm' ! i = max_sequence ?pending"
    using assms(1-5) by (auto simp: fill_slot_def Let_def slot_at_put split: prod.splits)
  have "list_ex (\<lambda>i. bs_state (slot_at i sh') = SLOT_REQUESTED \<and> pc_sequence d \<le> rm_parameter_sequences rm' ! i
      \<and> bridge_change d \<in> set (take (unat (bs_parameter_change_count (slot_at i sh')))
          (bs_parameter_changes (slot_at i sh')))) [0..<BRIDGE_SLOTS]"
    unfolding list_ex_iff
    using assms(2,6) slot max_sequence_ge [OF assms(6)] count by (intro bexI [of _ i]) auto
  then show ?thesis by (simp add: carries_def)
qed

lemma remote_process_carries:
  assumes "b = remote_process ops moves now_us frames commands next_us end_us midi outputs telemetry rm sh"
    and "0 < frames" "frames \<le> BRIDGE_MAX_FRAMES" "length (sh_slots sh) = BRIDGE_SLOTS"
    and "length (rm_parameter_sequences rm) = BRIDGE_SLOTS"
    and "distinct (map pc_index commands)"
    and "length (rm_pending_parameter_changes rm) + length commands \<le> BRIDGE_MAX_PARAMETER_CHANGES"
    and "unique_ids (rm_pending_parameter_changes rm @ channel)" "set commands \<subseteq> set channel" "d \<in> set commands"
  shows "carries (bb_plugin b) (bb_shared b) d"
proof -
  have "set (rm_pending_parameter_changes rm) \<union> set commands \<subseteq> set (rm_pending_parameter_changes rm @ channel)"
    using assms(9) by auto
  note merged = merge_all [OF assms(6,7,8) this]
  from assms(1-4) show ?thesis
  proof (cases rule: remote_process_shape)
    case full
    then show ?thesis using merged assms(10) by (auto simp: carries_def)
  next
    case (filled i rm3 sh3)
    then show ?thesis using merged assms(5,7,10) by (intro fill_slot_carries [OF filled(6)]) auto
  qed
qed

lemma run_remote_settles:
  assumes "run_remote ops bi frames st w rm sh = (ok, st', w', plugin')"
    and "sorted (map pc_sequence (aw_parameters w))" "0 < frames" "frames \<le> BRIDGE_MAX_FRAMES"
    and "length (sh_slots sh) = BRIDGE_SLOTS" "length (rm_parameter_sequences rm) = BRIDGE_SLOTS"
    and "length (rm_pending_parameter_changes rm) \<le> BRIDGE_MAX_PARAMETER_CHANGES"
    and "unique_ids (rm_pending_parameter_changes rm @ aw_parameters w)"
  shows "settles w w' plugin'"
proof -
  define n where "n = min (parameter_capacity rm) MIDI_EVENT_BATCH_CAPACITY"
  define taken where "taken = take n (aw_parameters w)"
  obtain st1 w1 where drain: "drain_parameter_commands_limit (parameter_capacity rm) st w = (st1, w1)"
    by (cases "drain_parameter_commands_limit (parameter_capacity rm) st w")
  then have commands: "ac_parameter_commands st1 = foldl coalesce [] taken"
    "aw_parameters w1 = drop n (aw_parameters w)"
    by (auto simp: drain_parameter_commands_limit_def Let_def n_def taken_def)
  define b where "b = remote_process ops (bi_dsp bi) (bi_now_us bi) frames (ac_parameter_commands st1)
    (case au_ring (aw_midi w1) of [] \<Rightarrow> None | p # _ \<Rightarrow> Some (mp_timestamp_us p)) (ac_render_source_end_us st1)
    (cb_pending st1) (ac_outputs st1) (Some (aw_bridge w1)) rm sh"
  have run: "plugin' = Remote_Plugin (bb_plugin b) (bb_shared b)" "aw_parameters w' = drop n (aw_parameters w)"
    using assms(1) commands(2) by (auto simp: run_remote_def drain Let_def b_def [symmetric] split: option.splits)
  have small: "length (rm_pending_parameter_changes rm) + length (foldl coalesce [] taken) \<le> BRIDGE_MAX_PARAMETER_CHANGES"
  proof -
    have "length taken \<le> parameter_capacity rm" by (simp add: taken_def n_def)
    then show ?thesis using coalesced_shape(2) [of taken] assms(7) by (simp add: parameter_capacity_def)
  qed
  have "settled (aw_parameters w) w' plugin' c" if c: "c \<in> set taken" for c
  proof -
    obtain d where d: "d \<in> set (foldl coalesce [] taken)" "pc_index d = pc_index c" "pc_sequence c \<le> pc_sequence d"
      using coalesced_latest [OF _ c] sorted_take_commands [OF assms(2)] by (auto simp: taken_def)
    have sub: "set (foldl coalesce [] taken) \<subseteq> set (aw_parameters w)"
      using coalesced_shape(3) [of taken] set_take_subset [of n "aw_parameters w"] by (auto simp: taken_def)
    have "carries (bb_plugin b) (bb_shared b) d"
      by (rule remote_process_carries [OF b_def assms(3-6) _ _ assms(8)])
        (use coalesced_shape(1) small sub d(1) commands(1) in auto)
    then show ?thesis using d sub by (auto simp: settled_def bridge_holds_def run(1) list_ex_iff)
  qed
  then show ?thesis
    unfolding settles_def using run(2) by (intro exI [of _ taken]) (simp add: taken_def)
qed

lemma settles_refl: "aw_parameters w' = aw_parameters w \<Longrightarrow> settles w w' plugin"
  unfolding settles_def by (rule exI [of _ "[]"]) simp

lemma settles_same:
  assumes "settles w w1 plugin" "aw_parameters w2 = aw_parameters w1" "aw_bridge w2 = aw_bridge w1"
    "aw_failed_sequence w2 = aw_failed_sequence w1"
  shows "settles w w2 plugin"
  using assms by (simp add: settles_def settled_def)

lemma timing_same [simp]:
  "aw_parameters (finish_callback_timing st frames us w) = aw_parameters w"
  "aw_bridge (finish_callback_timing st frames us w) = aw_bridge w"
  "aw_failed_sequence (finish_callback_timing st frames us w) = aw_failed_sequence w"
  "aw_emergency_resets (finish_callback_timing st frames us w) = aw_emergency_resets w"
  by (simp_all add: finish_callback_timing_def finish_driver_timing_def Let_def)

lemma meters_same [simp]:
  "aw_parameters (set_meters l r w) = aw_parameters w" "aw_bridge (set_meters l r w) = aw_bridge w"
  "aw_failed_sequence (set_meters l r w) = aw_failed_sequence w"
  "aw_emergency_resets (set_meters l r w) = aw_emergency_resets w"
  by (simp_all add: set_meters_def)

lemma settle_reset_same:
  "settle_reset calls plugin st w = (st', w') \<Longrightarrow> aw_parameters w' = aw_parameters w \<and> aw_bridge w' = aw_bridge w
     \<and> aw_failed_sequence w' = aw_failed_sequence w"
  by (auto simp: settle_reset_def split: if_splits)

lemma run_backend_settles:
  assumes "run_backend ops calls bi frames st w plugin = (ok, st', w', plugin')"
    and "bridge_ready max_frames (aw_parameters w) plugin" "0 < frames" "frames \<le> max_frames"
    and "sorted (map pc_sequence (aw_parameters w))"
  shows "settles w w' plugin'"
proof (cases plugin)
  case (Vst2_Plugin p position)
  then show ?thesis using assms(1) run_vst2_settles [OF _ assms(5)] by (simp add: run_backend_def)
next
  case (Vst3_Plugin p inputs outputs)
  then show ?thesis using assms(1) run_vst3_settles [OF _ assms(5)] by (simp add: run_backend_def)
next
  case (Remote_Plugin rm sh)
  then have ready: "length (sh_slots sh) = BRIDGE_SLOTS" "length (rm_parameter_sequences rm) = BRIDGE_SLOTS"
      "length (rm_pending_parameter_changes rm) \<le> BRIDGE_MAX_PARAMETER_CHANGES"
      "unique_ids (rm_pending_parameter_changes rm @ aw_parameters w)" and fits: "frames \<le> BRIDGE_MAX_FRAMES"
    using assms(2,4) by (simp_all add: bridge_ready_def)
  have "run_remote ops bi frames st w rm sh = (ok, st', w', plugin')"
    using assms(1) Remote_Plugin by (simp add: run_backend_def)
  then show ?thesis by (rule run_remote_settles [OF _ assms(5) assms(3) fits ready])
qed

text \<open>What happens to the bridge before the call leaves it ready.\<close>

lemma reset_ready:
  "bridge_ready m commands plugin \<Longrightarrow>
     bridge_ready m commands (if b then send_reset_messages calls plugin else plugin)"
  by (cases plugin) (auto simp: send_reset_messages_def bridge_ready_def panic_all_notes_def)

lemma bridge_waits_ready:
  "bridge_waits bi st plugin = (waits, plugin') \<Longrightarrow> bridge_ready m commands plugin \<Longrightarrow> bridge_ready m commands plugin'"
  by (cases plugin) (auto simp: bridge_waits_def bridge_ready_def buffered_output_ready_def Let_def
      split: if_splits option.splits)

text \<open>
  C17: No parameter change is forgotten. Whatever a block does with the plugin (renders it, finds it locked, is
  refused at the gate, sees an error or a panic), every command that left the channel is accounted for when
  the block ends. For a plugin in this process it is settled: the sequence number of the applied commands or that of the
  failed ones has reached it, also when a later command for the same parameter replaced it. For a plugin behind the
  bridge it is settled or carried on: a change of the same parameter that is not older waits in the host, or is among those
  of a request in a slot whose completion raises the number of the applied ones to it. Commands that were not taken are still in the
  channel, in their order. The engine numbers the commands in the order of the channel; the bridge has its three slots, blocks
  no longer than a slot, and no two parameters with one nonzero identifier.
\<close>

theorem parameters_are_settled:
  assumes "render_audio_block ops eq calls bi data channels st w plugin = (ok, data', st', w', plugin')"
    and "bridge_ready (ac_max_frames st) (aw_parameters w) plugin" "sorted (map pc_sequence (aw_parameters w))"
    and "0 < channels" "0 < length data div channels"
  shows "\<exists>taken. aw_parameters w = taken @ aw_parameters w'
    \<and> (\<forall>c \<in> set taken. pc_sequence c \<le> tl_applied_sequence (aw_bridge w') \<or> pc_sequence c \<le> aw_failed_sequence w'
        \<or> bridge_holds (aw_parameters w) plugin' c)"
proof -
  let ?frames = "length data div channels"
  have "settles w w' plugin'"
    using assms(1,4,5)
  proof (cases rule: render_cases)
    case (refused w1)
    then show ?thesis by (intro settles_refl) (auto simp: silent_block_def)
  next
    case (oversized st1 w1 w2)
    then show ?thesis by (intro settles_refl) (auto simp: silent_block_def prepare_block_def split: if_splits)
  next
    case (locked st1 st2 midi w1)
    then show ?thesis using replay_parts(3) [OF locked(7)] by (intro settles_refl) auto
  next
    case (waits st1 midi)
    then show ?thesis by (intro settles_refl) simp
  next
    case (called st1 st2 midi plugin1)
    let ?w = "w\<lparr>aw_midi := midi\<rparr>"
    have fits: "?frames \<le> ac_max_frames st" using called(4) by (auto simp: prepare_block_def split: if_splits)
    have "bridge_ready (ac_max_frames st) (aw_parameters ?w) plugin1"
      using bridge_waits_ready [OF called(6) assms(2)] by simp
    note ready = reset_ready [OF this]
    have sorted: "sorted (map pc_sequence (aw_parameters ?w))" using assms(3) by simp
    have carry: "settles w w3 plugin'" if "settles ?w w3 plugin'" for w3
      using that by (simp add: settles_def)
    note run = run_backend_settles [OF _ ready assms(5) fits sorted]
    from called(7) show ?thesis
    proof (cases rule: call_cases)
      case (replayed st3 w3 w4)
      then show ?thesis using run [OF replayed(1)] replay_parts(3) [OF replayed(2)]
        by (auto intro!: carry elim: settles_same)
    next
      case (silent st3 w3 w4)
      then show ?thesis using run [OF silent(1)] settle_reset_same [OF silent(2)]
        by (auto intro!: carry elim: settles_same)
    next
      case (mixed st3 w3 st4 w4 w5)
      then show ?thesis
        using run [OF mixed(1)] settle_reset_same [OF mixed(2)] mix_parts(4) [OF mixed(3)]
        by (auto intro!: carry elim: settles_same)
    qed
  qed
  then show ?thesis by (simp add: settles_def settled_def)
qed

text \<open>Two changes of the same parameter and one of another: all three are settled by one block.\<close>

definition example_commands :: "parameter_command list" where
  "example_commands = map (\<lambda>(s, i). \<lparr>pc_sequence = s, pc_index = i, pc_id = 0, pc_flags = 0, pc_step_count = 0,
     pc_value = 0\<rparr>) [(5, 1), (6, 2), (7, 1)]"

theorem parameters_are_settled_witness:
  "\<exists>(w' :: audio_world) taken. example_commands = taken @ aw_parameters w' \<and>
     list_all (\<lambda>c. pc_sequence c \<le> tl_applied_sequence (aw_bridge w') \<or> pc_sequence c \<le> aw_failed_sequence w') taken"
proof -
  obtain st' w' where block: "render_audio_block example_audio_ops example_eq example_calls example_inputs [9, 9] 2
      example_callback (example_world example_commands) (Vst2_Plugin () 0) = (True, [0, SAMPLE_LIMIT], st', w', Vst2_Plugin () 1)"
    using example_block by blast
  have params: "aw_parameters (example_world example_commands) = example_commands" by (simp add: example_world_def)
  have sorted: "sorted (map pc_sequence (aw_parameters (example_world example_commands)))"
    unfolding params by (simp add: example_commands_def)
  have "bridge_ready (ac_max_frames example_callback) (aw_parameters (example_world example_commands)) (Vst2_Plugin () 0)"
    by (simp add: bridge_ready_def)
  from parameters_are_settled [OF block this sorted] have "\<exists>taken. example_commands = taken @ aw_parameters w'
      \<and> (\<forall>c \<in> set taken. pc_sequence c \<le> tl_applied_sequence (aw_bridge w') \<or> pc_sequence c \<le> aw_failed_sequence w')"
    by (simp add: params bridge_holds_def)
  then show ?thesis unfolding list_all_iff by blast
qed

section \<open>A setter that panics\<close>

text \<open>
  A plugin whose setter panics has been given none of the changes, and the block still reports all of them as
  applied and none as failed.
\<close>

definition panicking_calls :: "nat list native_calls" where
  "panicking_calls = \<lparr>nc_set_parameter = \<lambda>i _ p. (i \<noteq> 1, if i \<noteq> 1 then i # p else p),
     nc_process_events = \<lambda>_ p. (True, p), nc_remaining_midi_capacity = \<lambda>_. 512, nc_send_midi = \<lambda>_ p. (True, p),
     nc_request_midi_reset = id, nc_midi_reset_pending = \<lambda>_. False, nc_process = \<lambda>_ _ p. (True, \<lambda>_ _. 0, p)\<rparr>"

theorem panicking_setter_acknowledged:
  "\<exists>st' w'. run_vst2 panicking_calls example_inputs 1 example_callback (example_world example_commands) [] 0
       = (True, st', w', Vst2_Plugin [] 1)
     \<and> tl_applied_sequence (aw_bridge w') = 7 \<and> aw_failed_sequence w' = 0"
  by (simp add: run_vst2_def render_vst2_def drain_parameter_commands_limit_def Let_def coalesce_def max_sequence_def
      prepare_pending_vst2_midi_def example_defs example_commands_def panicking_calls_def acknowledge_parameters_def
      raise_applied_def next_midi_timestamp_us_def MIDI_EVENT_BATCH_CAPACITY_def split: prod.splits)

end
