(* ===== verification/Spec2Isabelle.thy ===== *)
theory Spec2Isabelle
  imports Midi_Message Midi_Buffers Note_State Settings Wire_Protocol Midi_Queue Routing Enqueue Osc_Output
    Osc_Packet Osc_Input Frame_Handler Processing Workers Midi_Output
    Reliable_Playback State_Restore Rtp_Output Bridge_Cycle Audio_Ingress Worker_Process Audio_Callback
begin

text \<open>
  Verification development for the routing backend of OSCMidi (\<open>src/src-tauri/src\<close>).

  The program takes MIDI from devices, RTP-MIDI peers and OSC, and delivers it to an audio engine, a
  MIDI output, RTP peers and an OSC destination. What must not happen is a note that never ends:
  every part either delivers the release of a key or a pedal or has the receiver of the missing
  release reset. The theories follow a message on its way.

  \<^item> \<open>Prelude\<close>: words, lists and maps used everywhere; the types of machine integers.
  \<^item> \<open>Midi_Message\<close> (\<open>midi.rs\<close>): parsing and validating one message, and the test for messages
    that end something (a \<open>critical release\<close>).
  \<^item> \<open>Midi_Buffers\<close> (\<open>midi.rs\<close>): frames and the fixed pool of buffers for System Exclusive
    messages, with the steps of its concurrent users as a relation.
  \<^item> \<open>Note_State\<close> (\<open>midi.rs\<close>): what each source holds and what a destination sounds, as bit sets in
    128-bit words, refined to sets of keys and pedals.
  \<^item> \<open>Settings\<close> (\<open>config.rs\<close>): the configuration, its validation, and the store that must not destroy a
    file it could not read. Floats are bit patterns with their order; the YAML library is a parameter.
  \<^item> \<open>Wire_Protocol\<close> (\<open>vst_worker/protocol.rs\<close>): frames on the pipes to the plugin worker. JSON is a
    parameter.
  \<^item> \<open>Midi_Queue\<close> (\<open>midi_queue.rs\<close>): bounded queues with slots kept for releases, as atomic steps that
    interleave; the locale of a queue is interpreted by both implementations.
  \<^item> \<open>Routing\<close> and \<open>Enqueue\<close> (\<open>bridge/pipeline.rs\<close>): profiles, the admission hook, the global counters and
    the reset generation, and the functions every input calls.
  \<^item> \<open>Osc_Output\<close> (\<open>osc.rs\<close>, \<open>bridge/pipeline.rs\<close>): the switches of an OSC destination, combined over the
    sources, flushed and reset over a socket that fails where a script says. The locale
    \<open>switch_sink\<close> is what \<open>flush\<close> needs of its sender; the socket, the frame handler's closure and the
    one of the OSC worker interpret it.
  \<^item> \<open>Osc_Packet\<close> and \<open>Osc_Input\<close> (\<open>osc_input\<close>): the decoder of OSC packets, by mutual recursion on the bytes
    left, and the receiver with its heap of messages that wait for their time.
  \<^item> \<open>Frame_Handler\<close> (\<open>bridge/pipeline.rs\<close>, \<open>rtp/rtp_output.rs\<close>, \<open>bridge/activity.rs\<close>): everything done
    with one frame. The audio engine, the MIDI connection and the socket are functions on states of their own.
  \<^item> \<open>Processing\<close> (\<open>bridge/processing.rs\<close>): the routing thread. A pass takes the shared state and,
    at every point where the code reads it again, a function for what the other threads did meanwhile;
    a run is a list of passes.
  \<^item> \<open>Workers\<close> and \<open>Midi_Output\<close> (\<open>bridge/processing.rs\<close>, \<open>bridge/midi_io.rs\<close>): the threads that serve
    the OSC destination and the MIDI output, in the same style.
  \<^item> \<open>Playback_Wire\<close>, \<open>Playback_Schedule\<close> and \<open>Reliable_Playback\<close> (\<open>reliable_playback.rs\<close>): clients that
    prepare a whole performance and have it played. The socket delivers a byte list in pieces and
    timeouts as a script says; the schedule waits on scripted clock readings; a connection leaves a trace
    of its replies and of what it offered to the pipeline.
  \<^item> \<open>Rtp_Output\<close> (\<open>rtp/rtp_output.rs\<close>): the task that sends to the RTP peers: resets between generations,
    panics, System Exclusive in fragments. The session of the vendored crate is a parameter.
  \<^item> \<open>State_Codec\<close> and \<open>State_Restore\<close> (\<open>audio/state_codec.rs\<close>, \<open>plugin_probe.rs\<close>): the document of a
    plugin's state, its writer and reader, capturing and restoring it, and the files it is kept in. The check sum,
    paths, the file system and the operations of the plugin are parameters.
  \<^item> \<open>Render_Ahead\<close> (\<open>audio/render_ahead.rs\<close>): rendered blocks between the rendering thread and the
    driver's callback, which interfere at every atomic step. The arithmetic of samples is a parameter.
  \<^item> \<open>Audio_Midi\<close> (\<open>audio/runtime_state.rs\<close>, \<open>audio/midi_playback.rs\<close>, \<open>audio/callback_midi.rs\<close>): the
    packets of the engine, the backlog, the playback clock and the batches handed to a plugin.
  \<^item> \<open>Callback_Gate\<close> (\<open>audio/callback_gate.rs\<close>): the gate in front of the plugin, as atomic steps of the callbacks
    and of the control thread that wants to be alone with it.
  \<^item> \<open>Audio_Callback\<close> (\<open>audio/callback.rs\<close>, \<open>audio/callback_render.rs\<close>): one block of the audio callback, from
    admission to the samples of the device. The plugin's library, the equalizer and the arithmetic of samples are parameters.
  \<^item> \<open>Audio_Ingress\<close> (\<open>audio/engine.rs\<close>): the entry of the engine, with its reserve for
    releases and the reset that replaces a release it could not take.
  \<^item> \<open>Remote_Bridge\<close> and \<open>Bridge_Cycle\<close> (\<open>audio/remote_bridge.rs\<close>): the shared memory between the host and the
    process that runs a plugin: audio slots, the host's side of a block, commands with their
    deadlines, and the cycle of the plugin's process.
  \<^item> \<open>Worker_Pipe\<close>, \<open>Worker_Session\<close>, \<open>Worker_Lifecycle\<close> (\<open>vst_worker/supervisor.rs\<close>) and \<open>Worker_Process\<close>
    (\<open>bin/vst_host_worker.rs\<close>): the pipe of MIDI frames, the session of the supervisor with its
    requests and restarts, the commands that start and stop it, and the control loop of the worker.

  Recursion is structural or has a measure wherever the code bounds it: 256 frames in a batch, 256
  messages in a drain, 255 frames in one message of the pipe. Two loops end because of the state they run over, and
  carry fuel: copying rendered audio (\<open>copy_loop\<close>, with one step for every frame asked for and one for
  every block of the pool) and serving the slots of the bridge (\<open>serve_requests\<close>, one step for every
  slot); that the fuel is enough is proved. Endless loops run over a list
  of passes, and their properties hold after any number of them.

  The properties are of four kinds. What one operation computes: validation, release test,
  routing, decoding, the generation test, round trips. What stays true of a state: the reserve of the
  queues, the pool's buffers, the agreement of \<open>OscOutputState\<close> with the destination, and that a note on the MIDI output
  is tracked by \<open>ActiveNotes\<close> unless every message that ends it was lost.
  What refines a simpler description: sets of held keys and pedals, atomic steps. And what holds
  through whole runs of a thread whatever the others do: no input frame lost or reordered in the
  routing thread, OSC input on time, destinations in step, playback complete and cleaned up.

  Not modelled: the interior of the plugin libraries and of the equalizer, the RTP-MIDI sessions, device enumeration, the
  opening of streams, shared memory and processes, windows, the desktop shell, logging and diagnostics.
  Those are calls into drivers, the operating system or third-party crates, or floating-point signal
  processing. Where a modelled part calls them they are parameters, or a script of what they return.
\<close>

end
